(* ===== verification/Fees.thy ===== *)
theory Fees
  imports Prelude
begin

text \<open>
  The RAILGUN protocol fee: \<open>protocol_fee.rs\<close>, \<open>desktop/fee_mode.rs\<close> and \<open>native_topup.rs\<close> of
  \<open>crates/wallet-ops/src\<close>, and \<open>gross_up_sponsorship_payment\<close> of \<open>sponsorship.rs\<close>.

  All amounts are \<open>U256\<close>, whose operators wrap; the definitions keep the source's operators. The
  contract takes \<open>amount * bps / 10000\<close> from an unshielded amount, so a payer who wants a
  recipient to get \<open>net\<close> has to send the least \<open>gross\<close> whose remainder reaches \<open>net\<close>. The
  locale \<open>gross_up\<close> states that contract between the two directions; it is interpreted on the
  three places of the source that compute it.
\<close>

section \<open>The code\<close>

definition FEE_BASIS_POINTS_DENOMINATOR :: u256 where
  "FEE_BASIS_POINTS_DENOMINATOR = 10000"

definition RAILGUN_PROTOCOL_FEE_BPS :: u256 where
  "RAILGUN_PROTOCOL_FEE_BPS = 25"

definition railgun_protocol_fee_amount :: "u256 \<Rightarrow> u256 \<Rightarrow> u256" where
  "railgun_protocol_fee_amount amount fee_bps = amount * fee_bps div FEE_BASIS_POINTS_DENOMINATOR"

datatype fee_handling_mode = DeductFromAmount | AddToAmount

text \<open>The one failure of \<open>fee_mode.rs\<close>: a fee of 100 percent or more.\<close>

datatype fee_error = ProtocolFeeNotBelowHundredPercent

definition railgun_protocol_gross_amount_for_recipient :: "u256 \<Rightarrow> u256 \<Rightarrow> fee_error + u256" where
  "railgun_protocol_gross_amount_for_recipient recipient_amount fee_bps =
    (if recipient_amount = 0 \<or> fee_bps = 0 then Inr recipient_amount
     else if FEE_BASIS_POINTS_DENOMINATOR \<le> fee_bps then Inl ProtocolFeeNotBelowHundredPercent
     else
       let net_bps = FEE_BASIS_POINTS_DENOMINATOR - fee_bps
       in Inr ((recipient_amount - 1) * FEE_BASIS_POINTS_DENOMINATOR div net_bps + 1))"

definition unshield_receiver_amount_for_fee_mode ::
    "u256 \<Rightarrow> fee_handling_mode \<Rightarrow> fee_error + u256" where
  "unshield_receiver_amount_for_fee_mode entered_amount fee_mode =
    (case fee_mode of
       DeductFromAmount \<Rightarrow> Inr entered_amount
     | AddToAmount \<Rightarrow>
         railgun_protocol_gross_amount_for_recipient entered_amount RAILGUN_PROTOCOL_FEE_BPS)"

definition unshield_protocol_fee_amount_for_fee_mode ::
    "u256 \<Rightarrow> fee_handling_mode \<Rightarrow> fee_error + u256" where
  "unshield_protocol_fee_amount_for_fee_mode entered_amount fee_mode =
    and_then (unshield_receiver_amount_for_fee_mode entered_amount fee_mode) (\<lambda>gross_amount.
      Inr (case fee_mode of
             DeductFromAmount \<Rightarrow> railgun_protocol_fee_amount gross_amount RAILGUN_PROTOCOL_FEE_BPS
           | AddToAmount \<Rightarrow> saturating_sub gross_amount entered_amount))"

definition recipient_amount_after_protocol_fee :: "u256 \<Rightarrow> u256 \<Rightarrow> u256" where
  "recipient_amount_after_protocol_fee amount protocol_fee_amount =
    saturating_sub amount protocol_fee_amount"

definition native_top_up_wrapped_native_amount_for_net :: "u256 \<Rightarrow> u256" where
  "native_top_up_wrapped_native_amount_for_net net_amount =
    (if net_amount = 0 then 0
     else
       let net_bps = FEE_BASIS_POINTS_DENOMINATOR - RAILGUN_PROTOCOL_FEE_BPS
       in (net_amount - 1) * FEE_BASIS_POINTS_DENOMINATOR div net_bps + 1)"

definition native_top_up_net_after_protocol_fee :: "u256 \<Rightarrow> u256" where
  "native_top_up_net_after_protocol_fee wrapped_native_amount =
    saturating_sub wrapped_native_amount
      (wrapped_native_amount * RAILGUN_PROTOCOL_FEE_BPS div FEE_BASIS_POINTS_DENOMINATOR)"

definition native_top_up_wrapped_native_amount :: "u256 \<Rightarrow> u256" where
  "native_top_up_wrapped_native_amount native_amount =
    native_top_up_wrapped_native_amount_for_net native_amount"

definition native_top_up_required_wrapped_native_amount ::
    "address \<Rightarrow> address \<Rightarrow> u256 \<Rightarrow> u256 \<Rightarrow> u256" where
  "native_top_up_required_wrapped_native_amount selected_token wrapped_native_token
      selected_receiver_amount native_amount =
    (let wrapped_native_amount = native_top_up_wrapped_native_amount native_amount
     in if selected_token = wrapped_native_token then
          (let primary_net = native_top_up_net_after_protocol_fee selected_receiver_amount
           in native_top_up_wrapped_native_amount_for_net (primary_net + native_amount))
        else wrapped_native_amount)"

definition native_top_up_required_wrapped_native_amount_for_fee_mode ::
    "address \<Rightarrow> address \<Rightarrow> u256 \<Rightarrow> fee_handling_mode \<Rightarrow> u256 \<Rightarrow> u256" where
  "native_top_up_required_wrapped_native_amount_for_fee_mode selected_token wrapped_native_token
      entered_amount fee_mode native_amount =
    (let selected_receiver_amount =
       (case fee_mode of
          DeductFromAmount \<Rightarrow> entered_amount
        | AddToAmount \<Rightarrow> native_top_up_wrapped_native_amount_for_net entered_amount)
     in native_top_up_required_wrapped_native_amount selected_token wrapped_native_token
          selected_receiver_amount native_amount)"

definition sponsored_unshield_additional_wrapped_native_spend ::
    "address \<Rightarrow> address \<Rightarrow> u256 \<Rightarrow> fee_handling_mode \<Rightarrow> u256 option \<Rightarrow> fee_error + u256" where
  "sponsored_unshield_additional_wrapped_native_spend selected_token wrapped_native_token
      entered_amount fee_mode native_top_up_amount =
    (case native_top_up_amount of
       Some native_amount \<Rightarrow>
         Inr (native_top_up_required_wrapped_native_amount_for_fee_mode selected_token
                wrapped_native_token entered_amount fee_mode native_amount)
     | None \<Rightarrow>
         if selected_token = wrapped_native_token
         then unshield_receiver_amount_for_fee_mode entered_amount fee_mode
         else Inr 0)"

definition native_top_up_primary_recipient_amount ::
    "address \<Rightarrow> address \<Rightarrow> u256 \<Rightarrow> u256 \<Rightarrow> u256" where
  "native_top_up_primary_recipient_amount selected_token wrapped_native_token
      selected_receiver_amount native_amount =
    (if selected_token = wrapped_native_token then
       (let combined_wrapped_native_amount =
          native_top_up_required_wrapped_native_amount selected_token wrapped_native_token
            selected_receiver_amount native_amount
        in saturating_sub (native_top_up_net_after_protocol_fee combined_wrapped_native_amount)
             native_amount)
     else native_top_up_net_after_protocol_fee selected_receiver_amount)"

definition native_top_up_primary_recipient_amount_for_fee_mode ::
    "address \<Rightarrow> address \<Rightarrow> u256 \<Rightarrow> fee_handling_mode \<Rightarrow> u256 \<Rightarrow> u256" where
  "native_top_up_primary_recipient_amount_for_fee_mode selected_token wrapped_native_token
      entered_amount fee_mode native_amount =
    (let selected_receiver_amount =
       (case fee_mode of
          DeductFromAmount \<Rightarrow> entered_amount
        | AddToAmount \<Rightarrow> native_top_up_wrapped_native_amount_for_net entered_amount)
     in native_top_up_primary_recipient_amount selected_token wrapped_native_token
          selected_receiver_amount native_amount)"

definition native_top_up_policy_for_chain :: "u64 \<Rightarrow> u256 option" where
  "native_top_up_policy_for_chain chain_id =
    (if chain_id = 1 then Some 3000000000000000
     else if chain_id = 42161 then Some 500000000000000
     else if chain_id = 137 then Some 1000000000000000000
     else if chain_id = 56 then Some 5000000000000000
     else if chain_id = 8453 then Some 500000000000000
     else None)"

text \<open>\<open>gross_up_sponsorship_payment\<close> of \<open>sponsorship.rs\<close>; \<open>None\<close> is its \<open>ArithmeticOverflow\<close>.\<close>

definition gross_up_sponsorship_payment :: "u256 \<Rightarrow> u256 option" where
  "gross_up_sponsorship_payment net =
    (if net = 0 then Some 0
     else
       Option.bind (checked_sub FEE_BASIS_POINTS_DENOMINATOR RAILGUN_PROTOCOL_FEE_BPS)
         (\<lambda>net_basis_points.
       Option.bind (checked_sub net 1) (\<lambda>value.
       Option.bind (checked_mul value FEE_BASIS_POINTS_DENOMINATOR) (\<lambda>value.
       Option.bind (checked_div value net_basis_points) (\<lambda>value.
       checked_add value 1)))))"

section \<open>The contract of the two directions\<close>

text \<open>
  \<open>net g\<close> is what is left of \<open>g\<close>, \<open>gross n\<close> what must be sent to leave \<open>n\<close>. The bounds are the
  amounts for which the code's word arithmetic does not wrap.
\<close>

locale gross_up =
  fixes nlim glim :: nat
    and net gross :: "nat \<Rightarrow> nat"
  assumes net_zero: "net 0 = 0"
    and net_suc: "g < glim \<Longrightarrow> net (Suc g) \<le> Suc (net g)"
    and gross_fits: "n \<le> nlim \<Longrightarrow> gross n \<le> glim"
    and galois: "n \<le> nlim \<Longrightarrow> g \<le> glim \<Longrightarrow> n \<le> net g \<longleftrightarrow> gross n \<le> g"
begin

lemma net_gross:
  assumes "n \<le> nlim"
  shows "net (gross n) = n"
proof (rule antisym)
  show "net (gross n) \<le> n"
  proof (cases "gross n")
    case 0
    then show ?thesis by (simp add: net_zero)
  next
    case (Suc h)
    with gross_fits [OF assms] have "h < glim" by simp
    then have "net (Suc h) \<le> Suc (net h)" and "\<not> n \<le> net h"
      using assms Suc net_suc galois [of n h] by auto
    then show ?thesis using Suc by simp
  qed
next
  show "n \<le> net (gross n)"
    using galois [of n "gross n"] gross_fits [OF assms] assms by simp
qed

lemma gross_least: "n \<le> nlim \<Longrightarrow> g \<le> glim \<Longrightarrow> n \<le> net g \<Longrightarrow> gross n \<le> g"
  using galois by blast

lemma gross_strict_mono:
  assumes "m < n" and "n \<le> nlim"
  shows "gross m < gross n"
proof (rule ccontr)
  assume "\<not> gross m < gross n"
  then have "n \<le> net (gross m)"
    using galois [of n "gross m"] gross_fits [of m] assms by simp
  then show False using net_gross [of m] assms by simp
qed

lemma gross_mono: "m \<le> n \<Longrightarrow> n \<le> nlim \<Longrightarrow> gross m \<le> gross n"
  using gross_strict_mono [of m n] by (cases "m = n") auto

lemma gross_gap: "m \<le> n \<Longrightarrow> n \<le> nlim \<Longrightarrow> gross m + (n - m) \<le> gross n"
proof (induction n)
  case 0
  then show ?case by simp
next
  case (Suc n)
  show ?case
  proof (cases "m = Suc n")
    case True
    then show ?thesis by simp
  next
    case False
    with Suc have "gross m + (n - m) \<le> gross n" by simp
    moreover have "gross n < gross (Suc n)" using Suc.prems by (intro gross_strict_mono) auto
    ultimately show ?thesis using Suc.prems False by simp
  qed
qed

lemma gross_ge: "n \<le> nlim \<Longrightarrow> n \<le> gross n"
  using gross_gap [of 0 n] by simp

lemma fee_mono: "m \<le> n \<Longrightarrow> n \<le> nlim \<Longrightarrow> gross m - m \<le> gross n - n"
  using gross_gap [of m n] by simp

end

section \<open>The code keeps the contract\<close>

definition fee_net_nat :: "nat \<Rightarrow> nat \<Rightarrow> nat" where
  "fee_net_nat bps g = g - g * bps div 10000"

definition fee_gross_nat :: "nat \<Rightarrow> nat \<Rightarrow> nat" where
  "fee_gross_nat bps n = (if n = 0 then 0 else (n - 1) * 10000 div (10000 - bps) + 1)"

lemma fee_galois:
  assumes "bps < 10000"
  shows "n \<le> fee_net_nat bps g \<longleftrightarrow> fee_gross_nat bps n \<le> g"
proof (cases "n = 0")
  case True
  then show ?thesis by (simp add: fee_gross_nat_def)
next
  case False
  then obtain m where n: "n = Suc m" by (cases n) auto
  define q where "q = g * bps div 10000"
  have q: "q * 10000 \<le> g * bps" "g * bps < q * 10000 + 10000"
    unfolding q_def by simp_all
  have split: "g * bps + g * (10000 - bps) = g * 10000"
    using assms by (simp add: distrib_left [symmetric])
  have "n \<le> fee_net_nat bps g \<longleftrightarrow> m + q < g"
    by (auto simp: fee_net_nat_def n q_def)
  also have "\<dots> \<longleftrightarrow> m * 10000 < g * (10000 - bps)"
    using q split by auto
  also have "\<dots> \<longleftrightarrow> m * 10000 div (10000 - bps) < g"
    using assms by (simp add: div_less_iff_less_mult)
  also have "\<dots> \<longleftrightarrow> fee_gross_nat bps n \<le> g"
    by (auto simp: fee_gross_nat_def n)
  finally show ?thesis .
qed

lemma fee_net_suc: "fee_net_nat bps (Suc g) \<le> Suc (fee_net_nat bps g)"
proof -
  have "g * bps div 10000 \<le> Suc g * bps div 10000" by (intro div_le_mono) simp
  then show ?thesis by (simp add: fee_net_nat_def)
qed

text \<open>
  The largest net amount whose gross-up does not wrap, and the largest gross amount whose fee
  does not.
\<close>

definition net_limit :: nat where
  "net_limit = (2 ^ 256 - 1) div 10000 + 1"

definition gross_limit :: nat where
  "gross_limit = (2 ^ 256 - 1) div 25"

lemma fee_gross_fits: "n \<le> net_limit \<Longrightarrow> fee_gross_nat 25 n \<le> gross_limit"
  by (auto simp: fee_gross_nat_def net_limit_def gross_limit_def)

lemma limits_fit: "n \<le> net_limit \<Longrightarrow> n < 2 ^ 256" "g \<le> gross_limit \<Longrightarrow> g < 2 ^ 256"
  by (auto simp: net_limit_def gross_limit_def)

lemma unat_gross:
  fixes n bps :: u256
  assumes "n \<noteq> 0" and "unat n \<le> net_limit" and "bps < 10000"
  shows "unat ((n - 1) * 10000 div (10000 - bps) + 1) = fee_gross_nat (unat bps) (unat n)"
proof -
  define x where "x = n - 1"
  have x: "unat x = unat n - 1"
    using assms(1) by (simp add: x_def unat_minus_one)
  have bound: "unat x * 10000 \<le> (2 ^ 256 - 1) div 10000 * 10000"
    using assms(2) by (simp add: x net_limit_def)
  then have mul: "unat (x * 10000) = unat x * 10000"
    by (subst unat_mul_fits) auto
  have den: "unat (10000 - bps) = 10000 - unat bps" "unat bps < 10000"
    using assms(3) by (simp_all add: word_less_nat_alt unat_sub_fits)
  have d: "unat (x * 10000 div (10000 - bps)) = unat x * 10000 div (10000 - unat bps)"
    by (simp only: unat_div mul den)
  have "unat x * 10000 div (10000 - unat bps) \<le> (2 ^ 256 - 1) div 10000 * 10000"
    using div_le_dividend bound by (rule le_trans)
  also have "(2 ^ 256 - 1) div 10000 * 10000 < (2 ^ 256 - 1 :: nat)" by simp
  finally have "unat x * 10000 div (10000 - unat bps) + 1 < 2 ^ 256" by simp
  then have "unat (x * 10000 div (10000 - bps) + 1) = unat x * 10000 div (10000 - unat bps) + 1"
    by (subst unat_add_fits) (simp_all add: d)
  moreover have "unat n \<noteq> 0" using assms(1) by (simp add: unat_eq_zero)
  ultimately show ?thesis by (simp add: x fee_gross_nat_def x_def [symmetric])
qed

lemma unat_wrapped_for_net:
  assumes "unat n \<le> net_limit"
  shows "unat (native_top_up_wrapped_native_amount_for_net n) = fee_gross_nat 25 (unat n)"
  using unat_gross [of n 25] assms
  by (auto simp: native_top_up_wrapped_native_amount_for_net_def FEE_BASIS_POINTS_DENOMINATOR_def
      RAILGUN_PROTOCOL_FEE_BPS_def fee_gross_nat_def Let_def)

lemma unat_protocol_fee:
  assumes "unat g \<le> gross_limit"
  shows "unat (railgun_protocol_fee_amount g RAILGUN_PROTOCOL_FEE_BPS) = unat g * 25 div 10000"
proof -
  have "unat g * 25 < 2 ^ 256" using assms by (simp add: gross_limit_def)
  then have "unat (g * 25) = unat g * 25" by (subst unat_mul_fits) auto
  then show ?thesis
    by (simp add: railgun_protocol_fee_amount_def RAILGUN_PROTOCOL_FEE_BPS_def
        FEE_BASIS_POINTS_DENOMINATOR_def unat_div)
qed

lemma net_after_fee_eq:
  "native_top_up_net_after_protocol_fee g
    = recipient_amount_after_protocol_fee g (railgun_protocol_fee_amount g RAILGUN_PROTOCOL_FEE_BPS)"
  by (simp add: native_top_up_net_after_protocol_fee_def recipient_amount_after_protocol_fee_def
      railgun_protocol_fee_amount_def)

lemma unat_net_after_fee:
  "unat g \<le> gross_limit \<Longrightarrow> unat (native_top_up_net_after_protocol_fee g) = fee_net_nat 25 (unat g)"
  by (simp add: net_after_fee_eq recipient_amount_after_protocol_fee_def unat_saturating_sub
      unat_protocol_fee fee_net_nat_def)

lemma gross_for_recipient_eq:
  "railgun_protocol_gross_amount_for_recipient n RAILGUN_PROTOCOL_FEE_BPS
    = Inr (native_top_up_wrapped_native_amount_for_net n)"
  by (simp add: railgun_protocol_gross_amount_for_recipient_def
      native_top_up_wrapped_native_amount_for_net_def FEE_BASIS_POINTS_DENOMINATOR_def
      RAILGUN_PROTOCOL_FEE_BPS_def Let_def)

lemma gross_up_payment_eq:
  "gross_up_sponsorship_payment n =
    (if unat n \<le> net_limit then Some (native_top_up_wrapped_native_amount_for_net n) else None)"
proof (cases "n = 0")
  case True
  then show ?thesis
    by (simp add: gross_up_sponsorship_payment_def native_top_up_wrapped_native_amount_for_net_def)
next
  case False
  define x where "x = n - 1"
  have x: "unat x = unat n - 1" "0 < unat n"
    using False by (simp_all add: x_def unat_minus_one unat_gt_0)
  have one: "unat (1 :: u256) \<le> unat n" using x by simp
  have mul: "checked_mul x 10000 = (if unat n \<le> net_limit then Some (x * 10000) else None)"
    using x by (auto simp: checked_mul_def net_limit_def)
  have "unat (x * 10000) div 9975 \<le> (2 ^ 256 - 1) div 9975"
    using u256_less [of "x * 10000"] by (intro div_le_mono) simp
  then have "checked_add (x * 10000 div 9975) 1 = Some (x * 10000 div 9975 + 1)"
    by (simp add: checked_add_def unat_div)
  then show ?thesis
    using False one mul
    by (auto simp: gross_up_sponsorship_payment_def checked_sub_def checked_div_def x_def [symmetric]
        FEE_BASIS_POINTS_DENOMINATOR_def RAILGUN_PROTOCOL_FEE_BPS_def
        native_top_up_wrapped_native_amount_for_net_def Let_def)
qed

lemma unat_of_nat_limit:
  "n \<le> net_limit \<Longrightarrow> unat (of_nat n :: u256) = n"
  "g \<le> gross_limit \<Longrightarrow> unat (of_nat g :: u256) = g"
  using limits_fit by (simp_all add: unat_of_nat)

lemma net_of_nat:
  "g \<le> gross_limit
    \<Longrightarrow> unat (native_top_up_net_after_protocol_fee (of_nat g)) = fee_net_nat 25 g"
  by (simp add: unat_of_nat_limit unat_net_after_fee)

lemma gross_of_nat:
  "n \<le> net_limit
    \<Longrightarrow> unat (native_top_up_wrapped_native_amount_for_net (of_nat n)) = fee_gross_nat 25 n"
  by (simp add: unat_of_nat_limit unat_wrapped_for_net)

text \<open>The contract on the definitions of \<open>native_topup.rs\<close>.\<close>

interpretation topup: gross_up net_limit gross_limit
    "\<lambda>g. unat (native_top_up_net_after_protocol_fee (of_nat g))"
    "\<lambda>n. unat (native_top_up_wrapped_native_amount_for_net (of_nat n))"
proof unfold_locales
  show "unat (native_top_up_net_after_protocol_fee (of_nat 0)) = 0"
    using net_of_nat [of 0] by (simp add: fee_net_nat_def)
next
  fix g assume "g < gross_limit"
  then show "unat (native_top_up_net_after_protocol_fee (of_nat (Suc g)))
      \<le> Suc (unat (native_top_up_net_after_protocol_fee (of_nat g)))"
    using net_of_nat [of g] net_of_nat [of "Suc g"] fee_net_suc [of 25 g] by simp
next
  fix n assume "n \<le> net_limit"
  then show "unat (native_top_up_wrapped_native_amount_for_net (of_nat n)) \<le> gross_limit"
    by (simp only: gross_of_nat fee_gross_fits)
next
  fix n g assume "n \<le> net_limit" and "g \<le> gross_limit"
  then show "n \<le> unat (native_top_up_net_after_protocol_fee (of_nat g))
      \<longleftrightarrow> unat (native_top_up_wrapped_native_amount_for_net (of_nat n)) \<le> g"
    by (simp only: gross_of_nat net_of_nat fee_galois [of 25 n g])
qed

text \<open>The contract on the definitions of \<open>fee_mode.rs\<close>.\<close>

interpretation fee_mode: gross_up net_limit gross_limit
    "\<lambda>g. unat (recipient_amount_after_protocol_fee (of_nat g)
              (railgun_protocol_fee_amount (of_nat g) RAILGUN_PROTOCOL_FEE_BPS))"
    "\<lambda>n. unat (projr (railgun_protocol_gross_amount_for_recipient (of_nat n)
              RAILGUN_PROTOCOL_FEE_BPS))"
  using topup.gross_up_axioms
  by (simp add: net_after_fee_eq gross_for_recipient_eq)

text \<open>The contract on \<open>gross_up_sponsorship_payment\<close>, against the contract's fee.\<close>

lemma gross_up_cong:
  assumes "gross_up nlim glim net gross"
    and "\<And>g. g \<le> glim \<Longrightarrow> net' g = net g" and "\<And>n. n \<le> nlim \<Longrightarrow> gross' n = gross n"
  shows "gross_up nlim glim net' gross'"
  using assms by (auto simp: gross_up_def)

interpretation sponsor: gross_up net_limit gross_limit
    "\<lambda>g. unat (recipient_amount_after_protocol_fee (of_nat g)
              (railgun_protocol_fee_amount (of_nat g) RAILGUN_PROTOCOL_FEE_BPS))"
    "\<lambda>n. case gross_up_sponsorship_payment (of_nat n) of None \<Rightarrow> 0 | Some g \<Rightarrow> unat g"
  by (rule gross_up_cong [OF topup.gross_up_axioms])
    (simp_all add: net_after_fee_eq gross_up_payment_eq unat_of_nat_limit)

section \<open>Properties\<close>

lemma net_of_wrapped:
  "unat n \<le> net_limit
    \<Longrightarrow> native_top_up_net_after_protocol_fee (native_top_up_wrapped_native_amount_for_net n) = n"
  using topup.net_gross [of "unat n"] by (simp add: word_unat_eq_iff)

lemma unat_net_le: "unat (native_top_up_net_after_protocol_fee g) \<le> unat g"
  by (simp add: native_top_up_net_after_protocol_fee_def unat_saturating_sub)

lemma primary_amount:
  fixes s a :: u256
  assumes "unat (native_top_up_net_after_protocol_fee s) + unat a \<le> net_limit"
  shows "native_top_up_primary_recipient_amount token wrapped s a
    = native_top_up_net_after_protocol_fee s"
proof -
  let ?m = "native_top_up_net_after_protocol_fee s"
  have "unat ?m + unat a < 2 ^ 256" using assms limits_fit(1) by blast
  then have sum: "unat (?m + a) = unat ?m + unat a" by (subst unat_add_fits) simp_all
  then have "saturating_sub (?m + a) a = ?m"
    by (simp add: saturating_sub_def)
  with sum assms show ?thesis
    by (simp add: native_top_up_primary_recipient_amount_def Let_def net_of_wrapped
        native_top_up_required_wrapped_native_amount_def)
qed

text \<open>
  C36: grossing an amount up for the protocol fee is exact. Within the range where it does not
  wrap, the three computations of the source agree on one gross amount; the contract's fee leaves
  exactly the wanted net amount of it, and no smaller gross amount leaves that much.
\<close>

theorem gross_up_exact:
  fixes n :: u256
  assumes "unat n \<le> net_limit"
  shows "\<exists>g. gross_up_sponsorship_payment n = Some g
    \<and> railgun_protocol_gross_amount_for_recipient n RAILGUN_PROTOCOL_FEE_BPS = Inr g
    \<and> native_top_up_wrapped_native_amount_for_net n = g
    \<and> recipient_amount_after_protocol_fee g
        (railgun_protocol_fee_amount g RAILGUN_PROTOCOL_FEE_BPS) = n
    \<and> (\<forall>h. unat h \<le> gross_limit \<longrightarrow>
        n \<le> recipient_amount_after_protocol_fee h
          (railgun_protocol_fee_amount h RAILGUN_PROTOCOL_FEE_BPS) \<longrightarrow> g \<le> h)"
proof -
  let ?g = "native_top_up_wrapped_native_amount_for_net n"
  have net: "recipient_amount_after_protocol_fee ?g
      (railgun_protocol_fee_amount ?g RAILGUN_PROTOCOL_FEE_BPS) = n"
    using net_of_wrapped [OF assms] by (simp add: net_after_fee_eq)
  have "?g \<le> h" if "unat h \<le> gross_limit" and "n \<le> recipient_amount_after_protocol_fee h
      (railgun_protocol_fee_amount h RAILGUN_PROTOCOL_FEE_BPS)" for h
    using topup.gross_least [OF assms that(1)] that(2)
    by (simp add: net_after_fee_eq word_le_nat_alt)
  with net show ?thesis
    by (auto simp: gross_up_payment_eq gross_for_recipient_eq assms)
qed

theorem gross_up_exact_witness:
  "gross_up_sponsorship_payment 1000000 = Some 1002506
    \<and> recipient_amount_after_protocol_fee 1002506
        (railgun_protocol_fee_amount 1002506 RAILGUN_PROTOCOL_FEE_BPS) = 1000000"
proof -
  have "unat (1000000 :: u256) \<le> net_limit" by (simp add: net_limit_def)
  moreover have "native_top_up_wrapped_native_amount_for_net 1000000 = 1002506"
    by (simp add: native_top_up_wrapped_native_amount_for_net_def
        FEE_BASIS_POINTS_DENOMINATOR_def RAILGUN_PROTOCOL_FEE_BPS_def)
  ultimately show ?thesis using gross_up_exact [of 1000000] by auto
qed

text \<open>
  adding a native top-up to an unshield never takes from the primary recipient. Whatever the
  unshielded token is, the primary recipient's amount is what the entered amount leaves after the
  protocol fee; in the add-to-amount mode that is the entered amount itself.
\<close>

theorem top_up_keeps_primary_amount:
  fixes entered native :: u256
  assumes "unat entered + unat native \<le> net_limit"
  shows "native_top_up_primary_recipient_amount_for_fee_mode token wrapped entered
        DeductFromAmount native
      = recipient_amount_after_protocol_fee entered
          (railgun_protocol_fee_amount entered RAILGUN_PROTOCOL_FEE_BPS)
    \<and> native_top_up_primary_recipient_amount_for_fee_mode token wrapped entered
        AddToAmount native = entered"
  using assms unat_net_le [of entered]
  by (simp add: native_top_up_primary_recipient_amount_for_fee_mode_def primary_amount
      net_of_wrapped net_after_fee_eq [symmetric])

theorem top_up_keeps_primary_amount_witness:
  "native_top_up_primary_recipient_amount_for_fee_mode 7 7 1000000 AddToAmount 5000 = 1000000"
proof -
  have "unat (1000000 :: u256) + unat (5000 :: u256) \<le> net_limit" by (simp add: net_limit_def)
  then show ?thesis using top_up_keeps_primary_amount [of 1000000 5000 7 7] by blast
qed

end
