(* ===== verification/Sponsorship.thy ===== *)
theory Sponsorship
  imports Fees
begin

text \<open>
  \<open>crates/wallet-ops/src/sponsorship.rs\<close>: what a block builder is paid for a sponsored
  self-broadcast, the limit a user authorizes, and the check of the final economics against it.

  The records carry the source's fields under a prefix (\<open>sp_\<close> payment, \<open>sa_\<close> authorization, \<open>sl_\<close>
  authorization limit, \<open>ad_\<close> admission). The code hash (\<open>keccak256\<close>), the provider's code reads,
  the estimator closure of \<open>provisional_sponsorship_payment\<close> and the note type of the wallet
  library are parameters of the definitions that use them.
\<close>

section \<open>Data\<close>

datatype sponsored_incentive = Economy | Standard | Priority | Custom u8

datatype sponsored_action_kind = Send | Unshield | BlockedShield | PublicAction

datatype private_delivery_mode = SelfBroadcast | PublicBroadcaster

datatype sponsorship_error =
    InvalidCustomIncentive u8
  | ArithmeticOverflow
  | ProvisionalPaymentDidNotConverge
  | SponsoredPlanShapeChangeRequired
  | FinalPaymentUnderfunded (embedded: u256) (funding_required: u256)
  | AuthorizationMismatch
  | AuthorizationLimitExceeded
  | PayerRuntimeMismatch
  | SignerHasCode
  | CodeQueryFailed
  | DeliveryUnsupported
  | BlockedShieldUnsupported
  | ActionUnsupported
  | MissingRelay
  | MissingWrappedNativeToken
  | MissingCoinbasePayer
  | MissingRelayAdapt
  | PayerNotVerified
  | SignerIneligible
  | InsufficientWrappedNative (available: u256) (native_required: u256)
  | InsufficientWrappedNativeForQuote u256

definition SPONSORED_FUNDING_GAS_LIMIT :: u64 where
  "SPONSORED_FUNDING_GAS_LIMIT = 21000"

definition SPONSORED_PROVISIONAL_MAX_STEPS :: nat where
  "SPONSORED_PROVISIONAL_MAX_STEPS = 4"

fun percent :: "sponsored_incentive \<Rightarrow> sponsorship_error + u8" where
  "percent Economy = Inr 1"
| "percent Standard = Inr 5"
| "percent Priority = Inr 15"
| "percent (Custom p) = (if 1 \<le> p \<and> p \<le> 100 then Inr p else Inl (InvalidCustomIncentive p))"

record SponsorshipPayment =
  sp_outer_gas_limit :: u64
  sp_outer_gas_cap :: u256
  sp_signer_native_balance_snapshot :: u256
  sp_balance_credit :: u256
  sp_funding_principal :: u256
  sp_funding_gas_limit :: u64
  sp_funding_gas_cap :: u256
  sp_reimbursement_base :: u256
  sp_builder_payment :: u256
  sp_gross_wrapped_native_spend :: u256
  sp_protocol_fee :: u256
  sp_incentive :: sponsored_incentive

record sponsored_admission =
  ad_action :: sponsored_action_kind
  ad_delivery :: private_delivery_mode
  ad_has_relays :: bool
  ad_wrapped_native_token :: "address option"
  ad_coinbase_payer :: "address option"
  ad_relay_adapt_contract :: "address option"
  ad_payer_verified :: bool
  ad_signer_eligible :: bool
  ad_poi_spendable_wrapped_native :: u256
  ad_required_wrapped_native :: u256

record SponsoredAuthorization =
  sa_action :: sponsored_action_kind
  sa_wrapped_native_token :: address
  sa_coinbase_payer :: address
  sa_relay_adapt_contract :: address
  sa_builder_payment :: u256
  sa_gross_wrapped_native_spend :: u256
  sa_protocol_fee :: u256
  sa_transaction_gas_limit :: u64
  sa_outer_gas_cap :: u256
  sa_signer_native_balance_snapshot :: u256
  sa_balance_credit :: u256
  sa_funding_principal :: u256
  sa_funding_gas_limit :: u64
  sa_funding_gas_cap :: u256
  sa_reimbursement_base :: u256
  sa_max_fee_per_gas :: u128
  sa_max_priority_fee_per_gas :: u128
  sa_priority_fee_is_additional :: bool
  sa_incentive :: sponsored_incentive
  sa_signer :: address
  sa_delivery :: private_delivery_mode

record SponsoredAuthorizationLimit =
  sl_action_fingerprint :: b256
  sl_max_transaction_gas_limit :: u64
  sl_expected_transaction_gas_limit :: u64
  sl_signer_native_balance_snapshot :: u256
  sl_action :: sponsored_action_kind
  sl_wrapped_native_token :: address
  sl_coinbase_payer :: address
  sl_relay_adapt_contract :: address
  sl_max_total_wrapped_native_spend :: u256
  sl_max_fee_per_gas :: u128
  sl_max_priority_fee_per_gas :: u128
  sl_incentive :: sponsored_incentive
  sl_signer :: address
  sl_delivery :: private_delivery_mode

section \<open>The payment\<close>

definition sponsorship_payment ::
    "u64 \<Rightarrow> u128 \<Rightarrow> u256 \<Rightarrow> sponsored_incentive \<Rightarrow> sponsorship_error + SponsorshipPayment" where
  "sponsorship_payment outer_gas_limit max_fee_per_gas snapshot incentive =
    (let fee = ucast max_fee_per_gas :: u256 in
     and_then (ok_or (checked_mul (ucast outer_gas_limit) fee) ArithmeticOverflow) (\<lambda>outer_gas_cap.
     let balance_credit = min snapshot outer_gas_cap;
         funding_principal = outer_gas_cap - balance_credit;
         funding_gas_limit = (if funding_principal = 0 then 0 else SPONSORED_FUNDING_GAS_LIMIT) in
     and_then (ok_or (checked_mul (ucast funding_gas_limit) fee) ArithmeticOverflow)
       (\<lambda>funding_gas_cap.
     and_then (ok_or (checked_add funding_principal funding_gas_cap) ArithmeticOverflow)
       (\<lambda>reimbursement_base.
     and_then (percent incentive) (\<lambda>incentive_percent.
     and_then
       (if reimbursement_base = 0 then Inr 0
        else
          let multiplier = ucast (100 + incentive_percent) :: u256 in
          and_then (ok_or (Option.bind (checked_mul reimbursement_base multiplier)
              (\<lambda>value. checked_add value 99)) ArithmeticOverflow)
            (\<lambda>value. Inr (value div 100)))
       (\<lambda>builder_payment.
     and_then (ok_or (gross_up_sponsorship_payment builder_payment) ArithmeticOverflow)
       (\<lambda>gross_wrapped_native_spend.
     let protocol_fee = gross_wrapped_native_spend - builder_payment in
     Inr \<lparr> sp_outer_gas_limit = outer_gas_limit,
           sp_outer_gas_cap = outer_gas_cap,
           sp_signer_native_balance_snapshot = snapshot,
           sp_balance_credit = balance_credit,
           sp_funding_principal = funding_principal,
           sp_funding_gas_limit = funding_gas_limit,
           sp_funding_gas_cap = funding_gas_cap,
           sp_reimbursement_base = reimbursement_base,
           sp_builder_payment = builder_payment,
           sp_gross_wrapped_native_spend = gross_wrapped_native_spend,
           sp_protocol_fee = protocol_fee,
           sp_incentive = incentive \<rparr>)))))))"

definition sponsored_gas_limit_with_buffer :: "u64 \<Rightarrow> u64 \<Rightarrow> sponsorship_error + u64" where
  "sponsored_gas_limit_with_buffer estimated_gas gas_limit_buffer =
    ok_or (checked_add estimated_gas gas_limit_buffer) ArithmeticOverflow"

definition sponsorship_payment_from_estimate ::
    "u64 \<Rightarrow> u64 \<Rightarrow> u128 \<Rightarrow> u256 \<Rightarrow> sponsored_incentive \<Rightarrow> sponsorship_error + SponsorshipPayment"
where
  "sponsorship_payment_from_estimate estimated_gas gas_limit_buffer max_fee snapshot incentive =
    and_then (sponsored_gas_limit_with_buffer estimated_gas gas_limit_buffer)
      (\<lambda>gas_limit. sponsorship_payment gas_limit max_fee snapshot incentive)"

text \<open>
  The bounded refinement loop. The estimator is a mutable closure of the caller: it takes its own
  state and the gross spend to a result and its next state. Its first argument counts the
  remaining iterations of the source's \<open>for _ in 0..SPONSORED_PROVISIONAL_MAX_STEPS\<close>.
\<close>

fun provisional_steps ::
    "nat \<Rightarrow> u64 \<Rightarrow> u64 \<Rightarrow> u128 \<Rightarrow> u256 \<Rightarrow> sponsored_incentive
      \<Rightarrow> ('s \<Rightarrow> u256 \<Rightarrow> (sponsorship_error + u64) \<times> 's) \<Rightarrow> 's
      \<Rightarrow> (sponsorship_error + SponsorshipPayment) \<times> 's" where
  "provisional_steps 0 estimated_gas buffer max_fee snapshot incentive estimate s =
    (Inl ProvisionalPaymentDidNotConverge, s)"
| "provisional_steps (Suc steps) estimated_gas buffer max_fee snapshot incentive estimate s =
    (case sponsorship_payment_from_estimate estimated_gas buffer max_fee snapshot incentive of
       Inl e \<Rightarrow> (Inl e, s)
     | Inr payment \<Rightarrow>
         (case estimate s (sp_gross_wrapped_native_spend payment) of
            (Inl e, s') \<Rightarrow> (Inl e, s')
          | (Inr next_estimated_gas, s') \<Rightarrow>
              if next_estimated_gas \<le> estimated_gas then (Inr payment, s')
              else provisional_steps steps next_estimated_gas buffer max_fee snapshot incentive
                     estimate s'))"

definition provisional_sponsorship_payment ::
    "u64 \<Rightarrow> u64 \<Rightarrow> u128 \<Rightarrow> u256 \<Rightarrow> sponsored_incentive
      \<Rightarrow> ('s \<Rightarrow> u256 \<Rightarrow> (sponsorship_error + u64) \<times> 's) \<Rightarrow> 's
      \<Rightarrow> (sponsorship_error + SponsorshipPayment) \<times> 's" where
  "provisional_sponsorship_payment = provisional_steps SPONSORED_PROVISIONAL_MAX_STEPS"

definition sponsored_payment_requires_rebuild ::
    "SponsorshipPayment \<Rightarrow> SponsorshipPayment \<Rightarrow> bool" where
  "sponsored_payment_requires_rebuild embedded_payment required_payment =
    (sp_builder_payment embedded_payment < sp_builder_payment required_payment)"

definition validate_final_sponsorship_payment ::
    "SponsorshipPayment \<Rightarrow> SponsorshipPayment \<Rightarrow> sponsorship_error + unit" where
  "validate_final_sponsorship_payment embedded_payment required_payment =
    (if sponsored_payment_requires_rebuild embedded_payment required_payment
     then Inl (FinalPaymentUnderfunded (sp_builder_payment embedded_payment)
                 (sp_builder_payment required_payment))
     else Inr ())"

text \<open>Notes are the wallet library's: their token and value are given by its accessors.\<close>

definition poi_spendable_token_balance ::
    "('utxo \<Rightarrow> address) \<Rightarrow> ('utxo \<Rightarrow> u256) \<Rightarrow> 'utxo list \<Rightarrow> address \<Rightarrow> u256" where
  "poi_spendable_token_balance token_of value_of utxos token =
    foldl (\<lambda>total utxo. saturating_add total (value_of utxo)) 0
      (filter (\<lambda>utxo. token_of utxo = token) utxos)"

section \<open>Authorization\<close>

definition sponsored_authorization ::
    "sponsored_action_kind \<Rightarrow> address \<Rightarrow> address \<Rightarrow> address \<Rightarrow> SponsorshipPayment \<Rightarrow> u128 \<Rightarrow> u128
      \<Rightarrow> address \<Rightarrow> SponsoredAuthorization" where
  "sponsored_authorization action wrapped_native_token coinbase_payer relay_adapt_contract payment
      max_fee_per_gas max_priority_fee_per_gas signer =
    \<lparr> sa_action = action,
      sa_wrapped_native_token = wrapped_native_token,
      sa_coinbase_payer = coinbase_payer,
      sa_relay_adapt_contract = relay_adapt_contract,
      sa_builder_payment = sp_builder_payment payment,
      sa_gross_wrapped_native_spend = sp_gross_wrapped_native_spend payment,
      sa_protocol_fee = sp_protocol_fee payment,
      sa_transaction_gas_limit = sp_outer_gas_limit payment,
      sa_outer_gas_cap = sp_outer_gas_cap payment,
      sa_signer_native_balance_snapshot = sp_signer_native_balance_snapshot payment,
      sa_balance_credit = sp_balance_credit payment,
      sa_funding_principal = sp_funding_principal payment,
      sa_funding_gas_limit = sp_funding_gas_limit payment,
      sa_funding_gas_cap = sp_funding_gas_cap payment,
      sa_reimbursement_base = sp_reimbursement_base payment,
      sa_max_fee_per_gas = max_fee_per_gas,
      sa_max_priority_fee_per_gas = max_priority_fee_per_gas,
      sa_priority_fee_is_additional = True,
      sa_incentive = sp_incentive payment,
      sa_signer = signer,
      sa_delivery = SelfBroadcast \<rparr>"

definition sponsored_authorization_limit ::
    "b256 \<Rightarrow> u64 \<Rightarrow> sponsored_action_kind \<Rightarrow> address \<Rightarrow> address \<Rightarrow> address \<Rightarrow> u128 \<Rightarrow> u128 \<Rightarrow> u256
      \<Rightarrow> sponsored_incentive \<Rightarrow> address \<Rightarrow> u256
      \<Rightarrow> sponsorship_error + SponsoredAuthorizationLimit" where
  "sponsored_authorization_limit action_fingerprint max_transaction_gas_limit action
      wrapped_native_token coinbase_payer relay_adapt_contract max_fee_per_gas
      max_priority_fee_per_gas snapshot incentive signer max_total_wrapped_native_spend =
    and_then (sponsorship_payment max_transaction_gas_limit max_fee_per_gas snapshot incentive)
      (\<lambda>_. Inr
        \<lparr> sl_action_fingerprint = action_fingerprint,
          sl_max_transaction_gas_limit = max_transaction_gas_limit,
          sl_expected_transaction_gas_limit = max_transaction_gas_limit,
          sl_signer_native_balance_snapshot = snapshot,
          sl_action = action,
          sl_wrapped_native_token = wrapped_native_token,
          sl_coinbase_payer = coinbase_payer,
          sl_relay_adapt_contract = relay_adapt_contract,
          sl_max_total_wrapped_native_spend = max_total_wrapped_native_spend,
          sl_max_fee_per_gas = max_fee_per_gas,
          sl_max_priority_fee_per_gas = max_priority_fee_per_gas,
          sl_incentive = incentive,
          sl_signer = signer,
          sl_delivery = SelfBroadcast \<rparr>)"

definition maximum_payment ::
    "SponsoredAuthorizationLimit \<Rightarrow> sponsorship_error + SponsorshipPayment" where
  "maximum_payment limit =
    sponsorship_payment (sl_max_transaction_gas_limit limit) (sl_max_fee_per_gas limit)
      (sl_signer_native_balance_snapshot limit) (sl_incentive limit)"

definition allows_transaction_gas_limit :: "SponsoredAuthorizationLimit \<Rightarrow> u64 \<Rightarrow> bool" where
  "allows_transaction_gas_limit limit transaction_gas_limit =
    (transaction_gas_limit \<le> sl_max_transaction_gas_limit limit)"

definition validate_sponsored_authorization_limit ::
    "SponsoredAuthorizationLimit \<Rightarrow> b256 \<Rightarrow> SponsoredAuthorization \<Rightarrow> u256
      \<Rightarrow> sponsorship_error + unit" where
  "validate_sponsored_authorization_limit limit action_fingerprint exact total_spend =
    (if action_fingerprint \<noteq> sl_action_fingerprint limit
      \<or> sa_action exact \<noteq> sl_action limit
      \<or> sa_wrapped_native_token exact \<noteq> sl_wrapped_native_token limit
      \<or> sa_coinbase_payer exact \<noteq> sl_coinbase_payer limit
      \<or> sa_relay_adapt_contract exact \<noteq> sl_relay_adapt_contract limit
      \<or> sa_max_fee_per_gas exact \<noteq> sl_max_fee_per_gas limit
      \<or> sa_max_priority_fee_per_gas exact \<noteq> sl_max_priority_fee_per_gas limit
      \<or> sa_signer_native_balance_snapshot exact \<noteq> sl_signer_native_balance_snapshot limit
      \<or> sa_incentive exact \<noteq> sl_incentive limit
      \<or> sa_signer exact \<noteq> sl_signer limit
      \<or> sa_delivery exact \<noteq> sl_delivery limit
     then Inl AuthorizationMismatch
     else if \<not> allows_transaction_gas_limit limit (sa_transaction_gas_limit exact)
     then Inl AuthorizationLimitExceeded
     else
       and_then (sponsorship_payment (sa_transaction_gas_limit exact) (sa_max_fee_per_gas exact)
           (sa_signer_native_balance_snapshot exact) (sa_incentive exact)) (\<lambda>exact_payment.
       if sa_outer_gas_cap exact \<noteq> sp_outer_gas_cap exact_payment
        \<or> sa_balance_credit exact \<noteq> sp_balance_credit exact_payment
        \<or> sa_funding_principal exact \<noteq> sp_funding_principal exact_payment
        \<or> sa_funding_gas_limit exact \<noteq> sp_funding_gas_limit exact_payment
        \<or> sa_funding_gas_cap exact \<noteq> sp_funding_gas_cap exact_payment
        \<or> sa_reimbursement_base exact \<noteq> sp_reimbursement_base exact_payment
       then Inl AuthorizationMismatch
       else
         and_then (maximum_payment limit) (\<lambda>maximum.
         if sp_builder_payment maximum < sa_builder_payment exact
          \<or> sp_gross_wrapped_native_spend maximum < sa_gross_wrapped_native_spend exact
          \<or> sp_protocol_fee maximum < sa_protocol_fee exact
          \<or> sl_max_total_wrapped_native_spend limit < total_spend
         then Inl AuthorizationLimitExceeded
         else if sa_builder_payment exact \<noteq> sp_builder_payment exact_payment
          \<or> sa_gross_wrapped_native_spend exact \<noteq> sp_gross_wrapped_native_spend exact_payment
          \<or> sa_protocol_fee exact \<noteq> sp_protocol_fee exact_payment
         then Inl AuthorizationMismatch
         else Inr ())))"

section \<open>Admission and code checks\<close>

definition verify_coinbase_payer_runtime ::
    "(bytes \<Rightarrow> b256) \<Rightarrow> bytes \<Rightarrow> sponsorship_error + unit" where
  "verify_coinbase_payer_runtime keccak256 code =
    (if code = [] \<or> keccak256 code
        \<noteq> 0xe67fe51b007a8c007ebebd6ea1096c43377fdcdfd643750715a5d92b1a3324b5
     then Inl PayerRuntimeMismatch else Inr ())"

definition verify_sponsored_signer_code :: "bytes \<Rightarrow> sponsorship_error + unit" where
  "verify_sponsored_signer_code code = (if code = [] then Inr () else Inl SignerHasCode)"

text \<open>\<open>get_code\<close> is the provider's answer to \<open>eth_getCode\<close>, \<open>None\<close> when the request fails.\<close>

definition sponsored_code_preflight ::
    "(bytes \<Rightarrow> b256) \<Rightarrow> (address \<Rightarrow> bytes option) \<Rightarrow> address \<Rightarrow> address
      \<Rightarrow> sponsorship_error + unit" where
  "sponsored_code_preflight keccak256 get_code payer signer =
    and_then (ok_or (get_code payer) CodeQueryFailed) (\<lambda>payer_code.
    and_then (verify_coinbase_payer_runtime keccak256 payer_code) (\<lambda>_.
    and_then (ok_or (get_code signer) CodeQueryFailed) (\<lambda>signer_code.
    verify_sponsored_signer_code signer_code)))"

definition validate_sponsored_admission :: "sponsored_admission \<Rightarrow> sponsorship_error + unit" where
  "validate_sponsored_admission admission =
    (if ad_action admission = BlockedShield then Inl BlockedShieldUnsupported
     else if ad_action admission = PublicAction then Inl ActionUnsupported
     else if ad_delivery admission \<noteq> SelfBroadcast then Inl DeliveryUnsupported
     else if \<not> ad_has_relays admission then Inl MissingRelay
     else if ad_wrapped_native_token admission = None then Inl MissingWrappedNativeToken
     else if ad_coinbase_payer admission = None then Inl MissingCoinbasePayer
     else if ad_relay_adapt_contract admission = None then Inl MissingRelayAdapt
     else if \<not> ad_payer_verified admission then Inl PayerNotVerified
     else if \<not> ad_signer_eligible admission then Inl SignerIneligible
     else if ad_poi_spendable_wrapped_native admission < ad_required_wrapped_native admission
     then Inl (InsufficientWrappedNative (ad_poi_spendable_wrapped_native admission)
                 (ad_required_wrapped_native admission))
     else Inr ())"

section \<open>The payment on natural numbers\<close>

text \<open>
  The funding the builder advances: the part of the gas cap the signer's balance does not cover,
  and the gas of the funding transfer when there is one. The builder is paid that amount plus its
  incentive, rounded up.
\<close>

definition required_funding :: "nat \<Rightarrow> nat \<Rightarrow> nat \<Rightarrow> nat" where
  "required_funding gas fee balance =
    (let principal = gas * fee - balance
     in principal + (if principal = 0 then 0 else 21000 * fee))"

definition builder_pay :: "nat \<Rightarrow> nat \<Rightarrow> nat" where
  "builder_pay base p = (base * (100 + p) + 99) div 100"

lemma required_funding_bound:
  assumes "gas < 2 ^ 64" and "fee < 2 ^ 128"
  shows "gas * fee < 2 ^ 192" and "21000 * fee < 2 ^ 143"
    and "required_funding gas fee balance < 2 ^ 193"
proof -
  have "gas * fee < 2 ^ 64 * 2 ^ 128"
    using assms by (intro mult_strict_mono) auto
  then show cap: "gas * fee < 2 ^ 192" by simp
  show fund: "21000 * fee < 2 ^ 143" using assms(2) by simp
  have "required_funding gas fee balance \<le> gas * fee + 21000 * fee"
    by (simp add: required_funding_def Let_def)
  also have "\<dots> < 2 ^ 192 + 2 ^ 143" using cap fund by (rule add_strict_mono)
  finally show "required_funding gas fee balance < 2 ^ 193" by simp
qed

lemma builder_pay_bound: "base < 2 ^ 193 \<Longrightarrow> p \<le> 100 \<Longrightarrow> builder_pay base p < 2 ^ 195"
proof -
  assume "base < 2 ^ 193" and "p \<le> 100"
  then have "base * (100 + p) \<le> base * 200" by simp
  then have "builder_pay base p \<le> (base * 200 + 99) div 100"
    unfolding builder_pay_def by (intro div_le_mono) simp
  with \<open>base < 2 ^ 193\<close> show ?thesis by simp
qed

lemma builder_pay_mono: "a \<le> b \<Longrightarrow> builder_pay a p \<le> builder_pay b p"
  unfolding builder_pay_def by (intro div_le_mono) simp

lemma builder_pay_covers: "100 * builder_pay base p \<ge> base * (100 + p)"
  unfolding builder_pay_def by simp

lemma required_funding_mono: "a \<le> b \<Longrightarrow> required_funding a fee bal \<le> required_funding b fee bal"
proof -
  assume "a \<le> b"
  then have "a * fee - bal \<le> b * fee - bal" by (simp add: diff_le_mono)
  then show ?thesis by (auto simp: required_funding_def Let_def)
qed

lemma percent_range: "percent i = Inr p \<Longrightarrow> 1 \<le> unat p \<and> unat p \<le> 100"
  by (cases i) (auto simp: word_le_nat_alt split: if_splits)

lemma unat_bounds: "unat (a :: u64) < 2 ^ 64" "unat (b :: u128) < 2 ^ 128"
  using unsigned_less [where w = a] unsigned_less [where w = b] by simp_all

lemma unat_ucast_256:
  "unat (ucast (a :: u64) :: u256) = unat a"
  "unat (ucast (b :: u128) :: u256) = unat b"
  using unat_bounds(1) [of a] unat_bounds(2) [of b]
  by (simp_all add: unsigned_ucast_eq take_bit_nat_eq_self)

lemma unat_multiplier:
  assumes "unat (p :: u8) \<le> 100"
  shows "unat (ucast (100 + p) :: u256) = 100 + unat p"
proof -
  have "unat (100 + p) = 100 + unat p"
    using assms by (subst unat_add_fits) simp_all
  then show ?thesis using assms by (simp add: unsigned_ucast_eq take_bit_nat_eq_self)
qed

lemma checked_mul_fits:
  "unat a * unat b < 2 ^ LENGTH('a) \<Longrightarrow> checked_mul a b = Some (a * b)" for a :: "'a::len word"
  by (simp add: checked_mul_def)

lemma checked_add_fits:
  "unat a + unat b < 2 ^ LENGTH('a) \<Longrightarrow> checked_add a b = Some (a + b)" for a :: "'a::len word"
  by (simp add: checked_add_def)

text \<open>
  With 64-bit gas and 128-bit fees none of the checked operations can fail, so the payment exists
  for every admissible incentive; these are its fields.
\<close>

lemma sponsorship_payment_value:
  assumes "percent i = Inr p"
  obtains P where "sponsorship_payment gas fee bal i = Inr P"
    and "unat (sp_outer_gas_cap P) = unat gas * unat fee"
    and "unat (sp_balance_credit P) = min (unat bal) (unat gas * unat fee)"
    and "unat (sp_funding_principal P) = unat gas * unat fee - unat bal"
    and "unat (sp_reimbursement_base P) = required_funding (unat gas) (unat fee) (unat bal)"
    and "unat (sp_builder_payment P) = builder_pay (unat (sp_reimbursement_base P)) (unat p)"
    and "gross_up_sponsorship_payment (sp_builder_payment P)
          = Some (sp_gross_wrapped_native_spend P)"
    and "sp_protocol_fee P = sp_gross_wrapped_native_spend P - sp_builder_payment P"
    and "sp_outer_gas_limit P = gas" "sp_signer_native_balance_snapshot P = bal"
    and "sp_incentive P = i"
    and "sp_funding_gas_limit P
          = (if sp_funding_principal P = 0 then 0 else SPONSORED_FUNDING_GAS_LIMIT)"
    and "unat (sp_funding_gas_cap P) = unat (sp_funding_gas_limit P) * unat fee"
proof -
  let ?fee = "ucast fee :: u256" and ?gas = "ucast gas :: u256"
  define cap where "cap = ?gas * ?fee"
  define credit where "credit = min bal cap"
  define principal where "principal = cap - credit"
  define fgl where "fgl = (if principal = 0 then 0 else SPONSORED_FUNDING_GAS_LIMIT)"
  define fgc where "fgc = ucast fgl * ?fee"
  define base where "base = principal + fgc"
  note bounds = required_funding_bound [OF unat_bounds(1) [of gas] unat_bounds(2) [of fee]]
  note nat_fee = unat_ucast_256(2) [of fee] and nat_gas = unat_ucast_256(1) [of gas]
  have cap_fits: "unat ?gas * unat ?fee < 2 ^ 256"
    using bounds(1) by (simp add: nat_fee nat_gas)
  then have cap: "unat cap = unat gas * unat fee"
    unfolding cap_def by (subst unat_mul_fits) (simp_all add: nat_fee nat_gas)
  have credit: "unat credit = min (unat bal) (unat cap)"
    by (auto simp: credit_def min_def word_le_nat_alt)
  then have principal: "unat principal = unat cap - unat bal"
    unfolding principal_def by (subst unat_sub_fits) auto
  have fgl: "unat fgl = (if unat principal = 0 then 0 else 21000)"
    by (simp add: fgl_def SPONSORED_FUNDING_GAS_LIMIT_def unat_eq_zero)
  have fgc_fits: "unat (ucast fgl :: u256) * unat ?fee < 2 ^ 256"
    using bounds(2) by (simp add: unat_ucast_256 fgl)
  then have fgc: "unat fgc = unat fgl * unat fee"
    unfolding fgc_def by (subst unat_mul_fits) (simp_all add: unat_ucast_256)
  have base_nat: "unat principal + unat fgc = required_funding (unat gas) (unat fee) (unat bal)"
    by (simp add: required_funding_def Let_def principal fgc fgl cap)
  have base_fits: "unat principal + unat fgc < 2 ^ 256"
    using bounds(3) [of "unat bal"] by (simp add: base_nat)
  then have base: "unat base = required_funding (unat gas) (unat fee) (unat bal)"
    unfolding base_def by (subst unat_add_fits) (simp_all add: base_nat)
  have base_bound: "unat base < 2 ^ 193" using bounds(3) by (simp add: base)
  have p: "unat p \<le> 100" using percent_range [OF assms] by simp
  let ?m = "ucast (100 + p) :: u256"
  have m: "unat ?m = 100 + unat p" by (rule unat_multiplier [OF p])
  have "unat base * (100 + unat p) \<le> 2 ^ 193 * 200"
    using base_bound p by (intro mult_mono) auto
  then have v_fits: "unat base * unat ?m \<le> 2 ^ 193 * 200" by (simp add: m)
  then have v: "unat (base * ?m) = unat base * (100 + unat p)"
    by (subst unat_mul_fits) (simp_all add: m)
  have v_bound: "unat (base * ?m) + 99 < 2 ^ 256" using v_fits by (simp add: v m)
  then have v99: "unat (base * ?m + 99) = unat base * (100 + unat p) + 99"
    by (subst unat_add_fits) (simp_all add: v)
  define builder where "builder = (if base = 0 then 0 else (base * ?m + 99) div 100)"
  have builder: "unat builder = builder_pay (unat base) (unat p)"
    by (auto simp: builder_def builder_pay_def unat_div v99)
  have "unat builder \<le> net_limit"
    using builder_pay_bound [OF base_bound p] by (simp add: builder net_limit_def)
  then obtain g where g: "gross_up_sponsorship_payment builder = Some g"
    by (simp add: gross_up_payment_eq)
  define P where "P = \<lparr> sp_outer_gas_limit = gas, sp_outer_gas_cap = cap,
    sp_signer_native_balance_snapshot = bal, sp_balance_credit = credit,
    sp_funding_principal = principal, sp_funding_gas_limit = fgl, sp_funding_gas_cap = fgc,
    sp_reimbursement_base = base, sp_builder_payment = builder,
    sp_gross_wrapped_native_spend = g, sp_protocol_fee = g - builder, sp_incentive = i \<rparr>"
  have c1: "checked_mul ?gas ?fee = Some cap"
    using cap_fits by (simp add: checked_mul_def cap_def)
  have c2: "checked_mul (ucast fgl) ?fee = Some fgc"
    using fgc_fits by (simp add: checked_mul_def fgc_def)
  have c3: "checked_add principal fgc = Some base"
    using base_fits by (simp add: checked_add_def base_def)
  have c4: "checked_mul base ?m = Some (base * ?m)"
    using v_fits by (simp add: checked_mul_def)
  have c5: "checked_add (base * ?m) 99 = Some (base * ?m + 99)"
    using v_bound by (simp add: checked_add_def)
  have pay: "(if base = 0 then Inr 0
      else and_then (ok_or (Option.bind (checked_mul base ?m) (\<lambda>value. checked_add value 99))
          ArithmeticOverflow) (\<lambda>value. Inr (value div 100))) = Inr builder"
    by (simp add: c4 c5 builder_def)
  have "sponsorship_payment gas fee bal i = Inr P"
    by (simp only: sponsorship_payment_def Let_def c1 credit_def [symmetric]
        principal_def [symmetric] fgl_def [symmetric] c2 c3 assms pay g P_def
        and_then_simps ok_or_simps)
  then show thesis
    by (rule that)
      (simp_all add: P_def cap credit principal base builder g fgl_def [symmetric] fgc)
qed

lemma percent_Inl:
  "percent i = Inl e
    \<longleftrightarrow> (\<exists>p. i = Custom p \<and> (p < 1 \<or> 100 < p) \<and> e = InvalidCustomIncentive p)"
proof (cases i)
  case (Custom p)
  have "(1 \<le> p \<and> p \<le> 100) = (\<not> (p < 1 \<or> 100 < p))"
    by (simp only: linorder_not_less de_Morgan_disj)
  then show ?thesis by (auto simp: Custom)
qed simp_all

lemma sponsorship_payment_Inl:
  assumes "percent i = Inl e"
  shows "sponsorship_payment gas fee bal i = Inl e"
proof -
  obtain P where "sponsorship_payment gas fee bal Standard = Inr P"
    using sponsorship_payment_value [of Standard 5 gas fee bal] by auto
  then show ?thesis
    using assms by (auto simp: sponsorship_payment_def Let_def result_simps)
qed

lemma sponsorship_payment_Inr_percent:
  "sponsorship_payment gas fee bal i = Inr P \<Longrightarrow> \<exists>p. percent i = Inr p"
  using sponsorship_payment_Inl [of i _ gas fee bal] by (cases "percent i") auto

text \<open>The economics of a computed payment, as functions of its inputs.\<close>

lemma sponsorship_payment_fields:
  assumes "sponsorship_payment gas fee bal i = Inr P" and "percent i = Inr p"
  shows "unat (sp_reimbursement_base P) = required_funding (unat gas) (unat fee) (unat bal)"
    and "unat (sp_builder_payment P)
      = builder_pay (required_funding (unat gas) (unat fee) (unat bal)) (unat p)"
    and "gross_up_sponsorship_payment (sp_builder_payment P)
      = Some (sp_gross_wrapped_native_spend P)"
    and "sp_protocol_fee P = sp_gross_wrapped_native_spend P - sp_builder_payment P"
    and "sp_outer_gas_limit P = gas" and "sp_signer_native_balance_snapshot P = bal"
    and "sp_incentive P = i"
  using assms sponsorship_payment_value [OF assms(2), of gas fee bal] by auto

lemma gross_up_payment_facts:
  assumes "gross_up_sponsorship_payment n = Some g"
  shows "unat n \<le> net_limit" and "g = native_top_up_wrapped_native_amount_for_net n"
    and "unat n \<le> unat g"
  using assms topup.gross_ge [of "unat n"] by (auto simp: gross_up_payment_eq split: if_splits)

text \<open>Every amount of a payment grows with the gas limit.\<close>

lemma sponsorship_payment_mono:
  assumes P: "sponsorship_payment gas fee bal i = Inr P"
    and Q: "sponsorship_payment max_gas fee bal i = Inr Q" and le: "gas \<le> max_gas"
  shows "sp_builder_payment P \<le> sp_builder_payment Q"
    and "sp_gross_wrapped_native_spend P \<le> sp_gross_wrapped_native_spend Q"
    and "sp_protocol_fee P \<le> sp_protocol_fee Q"
proof -
  obtain p where p: "percent i = Inr p" using sponsorship_payment_Inr_percent [OF P] by blast
  note fP = sponsorship_payment_fields [OF P p] and fQ = sponsorship_payment_fields [OF Q p]
  note gP = gross_up_payment_facts [OF fP(3)] and gQ = gross_up_payment_facts [OF fQ(3)]
  let ?b = "unat (sp_builder_payment P)" and ?c = "unat (sp_builder_payment Q)"
  have b: "?b \<le> ?c"
    using le by (simp add: fP(2) fQ(2) builder_pay_mono required_funding_mono word_le_nat_alt)
  then show "sp_builder_payment P \<le> sp_builder_payment Q" by (simp add: word_le_nat_alt)
  show "sp_gross_wrapped_native_spend P \<le> sp_gross_wrapped_native_spend Q"
    using topup.gross_mono [OF b gQ(1)] by (simp add: gP(2) gQ(2) word_le_nat_alt)
  show "sp_protocol_fee P \<le> sp_protocol_fee Q"
    using topup.fee_mono [OF b gQ(1)] gP(3) gQ(3)
    by (simp add: fP(4) fQ(4) word_le_nat_alt unat_sub_fits) (simp add: gP(2) gQ(2))
qed

section \<open>Properties\<close>

text \<open>
  Computing a sponsorship payment fails for one reason only. For every gas limit, fee cap and
  balance none of the checked 256-bit operations overflows: the result is an error exactly when
  the incentive is a custom one outside 1 to 100 percent, and then the error names it.
\<close>

theorem sponsorship_payment_fails_iff:
  "sponsorship_payment gas fee bal i = Inl e
    \<longleftrightarrow> (\<exists>p. i = Custom p \<and> (p < 1 \<or> 100 < p) \<and> e = InvalidCustomIncentive p)"
proof (cases "percent i")
  case (Inl d)
  then show ?thesis
    using percent_Inl [of i d] by (auto simp: sponsorship_payment_Inl)
next
  case (Inr p)
  obtain P where "sponsorship_payment gas fee bal i = Inr P"
    using sponsorship_payment_value [OF Inr] by metis
  then show ?thesis
    using Inr percent_Inl [of i e] by simp
qed

text \<open>
  C4: a computed payment is sound for the builder and exact for the payer. The reimbursement base
  is the gas cost the signer's balance does not cover plus the funding transfer's gas; the builder
  gets that base with its incentive, rounded up to a whole wei and no further; and the wrapped
  native spend is the amount of which the protocol fee leaves exactly the builder payment.
\<close>

theorem sponsorship_payment_economics:
  assumes "sponsorship_payment gas fee bal i = Inr P" and "percent i = Inr p"
  shows "unat (sp_reimbursement_base P) = required_funding (unat gas) (unat fee) (unat bal)
    \<and> unat (sp_reimbursement_base P) * (100 + unat p) \<le> 100 * unat (sp_builder_payment P)
    \<and> 100 * unat (sp_builder_payment P) < unat (sp_reimbursement_base P) * (100 + unat p) + 100
    \<and> recipient_amount_after_protocol_fee (sp_gross_wrapped_native_spend P)
        (railgun_protocol_fee_amount (sp_gross_wrapped_native_spend P) RAILGUN_PROTOCOL_FEE_BPS)
      = sp_builder_payment P
    \<and> unat (sp_builder_payment P) + unat (sp_protocol_fee P)
      = unat (sp_gross_wrapped_native_spend P)"
proof -
  note f = sponsorship_payment_fields [OF assms]
  note g = gross_up_payment_facts [OF f(3)]
  have "native_top_up_net_after_protocol_fee (sp_gross_wrapped_native_spend P)
      = sp_builder_payment P"
    using net_of_wrapped [OF g(1)] g(2) by simp
  moreover have "unat (sp_protocol_fee P)
      = unat (sp_gross_wrapped_native_spend P) - unat (sp_builder_payment P)"
    using g(3) by (simp add: f(4) unat_sub_fits)
  ultimately show ?thesis
    using f(1,2) g(3) builder_pay_covers
    by (auto simp: net_after_fee_eq builder_pay_def)
qed

theorem sponsorship_payment_economics_witness:
  "\<exists>P. sponsorship_payment 21000 7 100000 (Custom 10) = Inr P
    \<and> unat (sp_reimbursement_base P) = 194000"
proof -
  have p: "percent (Custom 10) = Inr 10" by simp
  obtain P where P: "sponsorship_payment 21000 7 100000 (Custom 10) = Inr P"
    using sponsorship_payment_value [OF p] by metis
  then show ?thesis
    using sponsorship_payment_economics [OF P p] by (simp add: required_funding_def)
qed

text \<open>
  the authorization check accepts what was authorized. The authorization built from a payment
  for any gas limit up to the authorized maximum, with the same parties, fee caps, balance
  snapshot and incentive and a total spend within the limit, passes the check.
\<close>

theorem authorization_within_limit_accepted:
  assumes "sponsored_authorization_limit fp max_gas action weth payer relay fee prio bal i signer
      max_total = Inr limit"
    and "sponsorship_payment gas fee bal i = Inr payment"
    and "gas \<le> max_gas" and "spend \<le> max_total"
  shows "validate_sponsored_authorization_limit limit fp
      (sponsored_authorization action weth payer relay payment fee prio signer) spend = Inr ()"
proof -
  obtain Q where Q: "sponsorship_payment max_gas fee bal i = Inr Q"
    using assms(1) by (auto simp: sponsored_authorization_limit_def result_simps)
  obtain p where p: "percent i = Inr p"
    using sponsorship_payment_Inr_percent [OF Q] by blast
  note m = sponsorship_payment_mono [OF assms(2) Q assms(3)]
  note f = sponsorship_payment_fields [OF assms(2) p]
  show ?thesis
    using assms m f Q
    by (auto simp: sponsored_authorization_limit_def validate_sponsored_authorization_limit_def
        sponsored_authorization_def allows_transaction_gas_limit_def maximum_payment_def)
qed

theorem authorization_within_limit_accepted_witness:
  "\<exists>limit payment. validate_sponsored_authorization_limit limit 9
      (sponsored_authorization Send 1 2 3 payment 7 1 4) 500000 = Inr ()"
proof -
  obtain Q where Q: "sponsorship_payment 30000 7 100000 Priority = Inr Q"
    using sponsorship_payment_value [of Priority 15 30000 7 100000] by auto
  obtain P where P: "sponsorship_payment 21000 7 100000 Priority = Inr P"
    using sponsorship_payment_value [of Priority 15 21000 7 100000] by auto
  obtain limit where "sponsored_authorization_limit 9 30000 Send 1 2 3 7 1 100000 Priority 4 900000
      = Inr limit"
    by (simp add: sponsored_authorization_limit_def Q)
  then show ?thesis
    using authorization_within_limit_accepted [OF _ P, of 9 30000 Send 1 2 3 1 4 900000 limit 500000]
    by auto
qed

lemma accepted_if: "(if b then Inl e else x) = Inr y \<longleftrightarrow> \<not> b \<and> x = Inr y"
  by simp

text \<open>
  C28: the authorization check never lets a spend through that was not authorized, and refuses no
  other. It accepts exactly when the final authorization names the authorized action, parties, fee caps,
  snapshot and incentive, its amounts, all nine, are the ones recomputed from its own gas limit, that gas
  limit is within the maximum, and builder payment, gross spend, protocol fee and total
  spend stay within the authorized maxima.
\<close>

theorem authorization_check_sound:
  "validate_sponsored_authorization_limit limit fp exact spend = Inr ()
  \<longleftrightarrow> fp = sl_action_fingerprint limit
    \<and> sa_action exact = sl_action limit \<and> sa_signer exact = sl_signer limit
    \<and> sa_coinbase_payer exact = sl_coinbase_payer limit
    \<and> sa_relay_adapt_contract exact = sl_relay_adapt_contract limit
    \<and> sa_wrapped_native_token exact = sl_wrapped_native_token limit
    \<and> sa_delivery exact = sl_delivery limit
    \<and> sa_max_fee_per_gas exact = sl_max_fee_per_gas limit
    \<and> sa_max_priority_fee_per_gas exact = sl_max_priority_fee_per_gas limit
    \<and> sa_signer_native_balance_snapshot exact = sl_signer_native_balance_snapshot limit
    \<and> sa_incentive exact = sl_incentive limit
    \<and> sa_transaction_gas_limit exact \<le> sl_max_transaction_gas_limit limit
    \<and> spend \<le> sl_max_total_wrapped_native_spend limit
    \<and> (\<exists>payment maximum.
        sponsorship_payment (sa_transaction_gas_limit exact) (sl_max_fee_per_gas limit)
          (sl_signer_native_balance_snapshot limit) (sl_incentive limit) = Inr payment
        \<and> maximum_payment limit = Inr maximum
        \<and> sa_outer_gas_cap exact = sp_outer_gas_cap payment
        \<and> sa_balance_credit exact = sp_balance_credit payment
        \<and> sa_funding_principal exact = sp_funding_principal payment
        \<and> sa_funding_gas_limit exact = sp_funding_gas_limit payment
        \<and> sa_funding_gas_cap exact = sp_funding_gas_cap payment
        \<and> sa_reimbursement_base exact = sp_reimbursement_base payment
        \<and> sa_builder_payment exact = sp_builder_payment payment
        \<and> sa_gross_wrapped_native_spend exact = sp_gross_wrapped_native_spend payment
        \<and> sa_protocol_fee exact = sp_protocol_fee payment
        \<and> sa_builder_payment exact \<le> sp_builder_payment maximum
        \<and> sa_gross_wrapped_native_spend exact \<le> sp_gross_wrapped_native_spend maximum
        \<and> sa_protocol_fee exact \<le> sp_protocol_fee maximum)"
  (is "?accepts \<longleftrightarrow> ?authorized")
proof
  assume ?accepts
  then show ?authorized
    by (simp only: validate_sponsored_authorization_limit_def allows_transaction_gas_limit_def accepted_if and_then_eq_Inr
        de_Morgan_disj not_not not_less) (elim conjE exE, simp)
next
  assume ?authorized
  then show ?accepts
    by (simp only: validate_sponsored_authorization_limit_def allows_transaction_gas_limit_def accepted_if and_then_eq_Inr
        de_Morgan_disj not_not not_less) (elim conjE exE, simp)
qed

theorem authorization_check_sound_witness:
  "\<exists>limit exact. validate_sponsored_authorization_limit limit 9 exact 500000 = Inr ()
    \<and> sa_transaction_gas_limit exact \<le> sl_max_transaction_gas_limit limit"
proof -
  obtain P where P: "sponsorship_payment 21000 7 100000 Priority = Inr P"
    using sponsorship_payment_value [of Priority 15 21000 7 100000] by auto
  note f = sponsorship_payment_fields [OF P percent.simps(3)]
  define exact where "exact = sponsored_authorization Send 1 2 3 P 7 1 4"
  obtain limit where l: "sponsored_authorization_limit 9 21000 Send 1 2 3 7 1 100000 Priority 4 900000
      = Inr limit"
    by (simp add: sponsored_authorization_limit_def P)
  then have "validate_sponsored_authorization_limit limit 9 exact 500000 = Inr ()"
    using P f by (auto simp: sponsored_authorization_limit_def exact_def maximum_payment_def
        validate_sponsored_authorization_limit_def sponsored_authorization_def
        allows_transaction_gas_limit_def)
  then show ?thesis using authorization_check_sound [of limit 9 exact 500000] by auto
qed

lemma provisional_steps_result:
  assumes "provisional_steps n gas buffer fee bal i (\<lambda>k spend. (estimate k spend, Suc k)) calls
      = (r, calls')"
  shows "calls' \<le> calls + n \<and> (\<forall>payment. r = Inr payment \<longrightarrow>
    (\<exists>g needed. gas \<le> g \<and> sponsorship_payment_from_estimate g buffer fee bal i = Inr payment
      \<and> estimate (calls' - 1) (sp_gross_wrapped_native_spend payment) = Inr needed \<and> needed \<le> g))"
  using assms
proof (induction n arbitrary: gas calls)
  case 0
  then show ?case by auto
next
  case (Suc n)
  show ?case
  proof (cases "sponsorship_payment_from_estimate gas buffer fee bal i")
    case (Inl e)
    with Suc.prems show ?thesis by auto
  next
    case (Inr P)
    show ?thesis
    proof (cases "estimate calls (sp_gross_wrapped_native_spend P)")
      case (Inl e)
      with Inr Suc.prems show ?thesis by auto
    next
      case needed: (Inr next_gas)
      show ?thesis
      proof (cases "next_gas \<le> gas")
        case True
        with Inr needed Suc.prems show ?thesis by auto
      next
        case False
        then have less: "gas \<le> next_gas" by simp
        from False Inr needed Suc.prems have "provisional_steps n next_gas buffer fee bal i
            (\<lambda>k spend. (estimate k spend, Suc k)) (Suc calls) = (r, calls')" by simp
        note IH = Suc.IH [OF this]
        show ?thesis
        proof (intro conjI allI impI)
          show "calls' \<le> calls + Suc n" using IH by simp
        next
          fix payment assume "r = Inr payment"
          then show "\<exists>g needed. gas \<le> g
              \<and> sponsorship_payment_from_estimate g buffer fee bal i = Inr payment
              \<and> estimate (calls' - 1) (sp_gross_wrapped_native_spend payment) = Inr needed
              \<and> needed \<le> g"
            using IH less by (blast intro: order_trans)
        qed
      qed
    qed
  qed
qed

text \<open>
  C38: refining a provisional payment stops after at most four estimates, and a payment it returns
  is self-consistent: the estimator, asked last about that payment's own gross spend, needed no
  more gas than the payment was computed for.
\<close>

theorem provisional_payment_converges:
  assumes "provisional_sponsorship_payment gas buffer fee bal i
      (\<lambda>k spend. (estimate k spend, Suc k)) 0 = (r, calls)"
  shows "calls \<le> 4 \<and> (\<forall>payment. r = Inr payment \<longrightarrow>
    (\<exists>g needed. gas \<le> g \<and> sponsorship_payment_from_estimate g buffer fee bal i = Inr payment
      \<and> estimate (calls - 1) (sp_gross_wrapped_native_spend payment) = Inr needed \<and> needed \<le> g))"
  using provisional_steps_result [OF assms [unfolded provisional_sponsorship_payment_def]]
  by (simp add: SPONSORED_PROVISIONAL_MAX_STEPS_def)

theorem provisional_payment_converges_witness:
  "\<exists>P. provisional_sponsorship_payment 100 0 7 0 Economy
      (\<lambda>k spend. (Inr 100 :: sponsorship_error + u64, Suc k)) 0 = (Inr P, 1) \<and> 1 \<le> (4::nat)"
proof -
  obtain P where P: "sponsorship_payment 100 7 0 Economy = Inr P"
    using sponsorship_payment_value [of Economy 1 100 7 0] by auto
  have "checked_add 100 (0 :: u64) = Some 100" by (simp add: checked_add_def)
  then have "provisional_sponsorship_payment 100 0 7 0 Economy
      (\<lambda>k spend. (Inr 100 :: sponsorship_error + u64, Suc k)) 0 = (Inr P, 1)"
    by (simp add: provisional_sponsorship_payment_def SPONSORED_PROVISIONAL_MAX_STEPS_def
        numeral_eq_Suc sponsorship_payment_from_estimate_def sponsored_gas_limit_with_buffer_def P)
  then show ?thesis
    using provisional_payment_converges [of 100 0 7 0 Economy "\<lambda>_ _. Inr 100" "Inr P" 1] by auto
qed

text \<open>
  Sponsored admission is granted exactly when the action is a private send or unshield
  delivered by self-broadcast, every contract of the chain and a relay are configured, payer and
  signer passed their checks, and the spendable wrapped native covers the required amount.
\<close>

theorem sponsored_admission_iff:
  "validate_sponsored_admission a = Inr ()
    \<longleftrightarrow> ad_action a \<in> {Send, Unshield} \<and> ad_delivery a = SelfBroadcast \<and> ad_has_relays a
      \<and> ad_wrapped_native_token a \<noteq> None \<and> ad_coinbase_payer a \<noteq> None
      \<and> ad_relay_adapt_contract a \<noteq> None \<and> ad_payer_verified a \<and> ad_signer_eligible a
      \<and> ad_required_wrapped_native a \<le> ad_poi_spendable_wrapped_native a"
  by (cases "ad_action a") (auto simp: validate_sponsored_admission_def linorder_not_less [symmetric])

end
