(* ===== verification/RpcOrigins.thy ===== *)
theory RpcOrigins
  imports Prelude "HOL-Library.AList"
begin

text \<open>
  The origin types of \<open>crates/wallet-ops/src/rpc_broker/model.rs\<close>, which the gateway's admission,
  the broker's scheduler and its submission limits share, and the representation of the source's
  hash maps that are iterated over.

  A \<open>HashMap\<close> that the source only looks up is a HOL map. One whose entries the source visits is an
  association list without duplicate keys; its order stands for the unspecified iteration order,
  and no statement of the development depends on it. URLs are compared by their serialisation and
  are strings; \<open>Url::parse\<close> and the serialisation of a URL's origin belong to the \<open>url\<close> crate and
  are parameters.
\<close>

type_synonym url = string

datatype wallet_rpc_origin =
  Anchors | Governance | GovernorRewards | PublicWallet | Staking | Swaps

datatype rpc_origin =
    WalletOrigin wallet_rpc_origin
  | DappOrigin (dapp_peer: string) (dapp_url: url)

datatype rpc_origin_error = InvalidOrigin | EmptyPeerId

definition MAX_SUBMISSION_READS :: nat where
  "MAX_SUBMISSION_READS = 64"

definition dapp :: "(string \<Rightarrow> url option) \<Rightarrow> string \<Rightarrow> string \<Rightarrow> rpc_origin_error + rpc_origin" where
  "dapp url_parse paired_peer_id origin =
    (if paired_peer_id = [] then Inl EmptyPeerId
     else and_then (ok_or (url_parse origin) InvalidOrigin)
            (\<lambda>parsed. Inr (DappOrigin paired_peer_id parsed)))"

text \<open>
  \<open>url_origin\<close> gives the scheme and the ASCII serialisation of a parsed URL's origin, \<open>None\<close> for an
  opaque origin.
\<close>

definition dapp_web_origin ::
    "(string \<Rightarrow> url option) \<Rightarrow> (url \<Rightarrow> (string \<times> string) option) \<Rightarrow> string \<Rightarrow> string
      \<Rightarrow> rpc_origin_error + rpc_origin" where
  "dapp_web_origin url_parse url_origin paired_peer_id u =
    and_then (ok_or (url_parse u) InvalidOrigin) (\<lambda>parsed.
      case url_origin parsed of
        Some (scheme, serialized) \<Rightarrow>
          if scheme = ''http'' \<or> scheme = ''https'' then dapp url_parse paired_peer_id serialized
          else Inl InvalidOrigin
      | None \<Rightarrow> Inl InvalidOrigin)"

definition paired_peer_id :: "rpc_origin \<Rightarrow> string option" where
  "paired_peer_id r = (case r of DappOrigin peer _ \<Rightarrow> Some peer | WalletOrigin _ \<Rightarrow> None)"

definition web_origin :: "rpc_origin \<Rightarrow> url option" where
  "web_origin r = (case r of DappOrigin _ u \<Rightarrow> Some u | WalletOrigin _ \<Rightarrow> None)"

definition read_limit :: "rpc_origin \<Rightarrow> nat option" where
  "read_limit r = (case r of DappOrigin _ _ \<Rightarrow> Some MAX_SUBMISSION_READS | WalletOrigin _ \<Rightarrow> None)"

lemma web_origin_simps [simp]:
  "web_origin (WalletOrigin w) = None"
  "web_origin (DappOrigin p u) = Some u"
  by (simp_all add: web_origin_def)

section \<open>Hash maps that are iterated over\<close>

type_synonym ('k, 'v) hash_map = "('k \<times> 'v) list"

definition keys_distinct :: "('k, 'v) hash_map \<Rightarrow> bool" where
  "keys_distinct m = distinct (map fst m)"

definition retain_map :: "('k \<Rightarrow> 'v \<Rightarrow> 'v option) \<Rightarrow> ('k, 'v) hash_map \<Rightarrow> ('k, 'v) hash_map" where
  \<comment> \<open>\<open>HashMap::retain\<close> whose closure may change the value and drops it by \<open>None\<close>\<close>
  "retain_map f m = List.map_filter (\<lambda>(k, v). map_option (Pair k) (f k v)) m"

lemma keys_distinct_update [simp, intro]:
  "keys_distinct m \<Longrightarrow> keys_distinct (AList.update k v m)"
  by (simp add: keys_distinct_def distinct_update)

lemma keys_distinct_Nil [simp, intro]: "keys_distinct []"
  by (simp add: keys_distinct_def)

lemma set_retain_map:
  "(k, w) \<in> set (retain_map f m) \<longleftrightarrow> (\<exists>v. (k, v) \<in> set m \<and> f k v = Some w)"
  by (force simp: retain_map_def List.map_filter_def)

lemma keys_retain_map: "fst ` set (retain_map f m) \<subseteq> fst ` set m"
  by (force simp: set_retain_map)

lemma keys_distinct_retain [simp, intro]: "keys_distinct m \<Longrightarrow> keys_distinct (retain_map f m)"
proof (induction m)
  case Nil
  then show ?case by (simp add: retain_map_def keys_distinct_def List.map_filter_def)
next
  case (Cons kv m)
  obtain k v where kv: "kv = (k, v)" by (cases kv)
  have eq: "retain_map f (kv # m)
      = (case f k v of None \<Rightarrow> retain_map f m | Some w \<Rightarrow> (k, w) # retain_map f m)"
    by (simp add: retain_map_def kv List.map_filter_simps split: option.split)
  have "k \<notin> fst ` set (retain_map f m)" and "keys_distinct (retain_map f m)"
    using Cons keys_retain_map [of f m] by (auto simp: keys_distinct_def kv)
  then show ?case by (simp add: eq keys_distinct_def split: option.split)
qed

lemma map_of_eq_Some:
  "keys_distinct m \<Longrightarrow> map_of m k = Some v \<longleftrightarrow> (k, v) \<in> set m"
  by (simp add: keys_distinct_def map_of_eq_Some_iff)

lemma map_of_retain:
  assumes "keys_distinct m"
  shows "map_of (retain_map f m) k = Option.bind (map_of m k) (f k)"
proof (cases "map_of m k")
  case None
  then have "k \<notin> fst ` set (retain_map f m)"
    using keys_retain_map [of f m] by (auto simp: map_of_eq_None_iff)
  then have "map_of (retain_map f m) k = None" by (simp add: map_of_eq_None_iff)
  with None show ?thesis by simp
next
  case (Some v)
  then have v: "(k, v) \<in> set m" using assms by (simp add: map_of_eq_Some)
  show ?thesis
  proof (cases "f k v")
    case None
    have "k \<notin> fst ` set (retain_map f m)"
    proof
      assume "k \<in> fst ` set (retain_map f m)"
      then obtain w v' where "(k, v') \<in> set m" "f k v' = Some w"
        by (auto simp: set_retain_map)
      then show False using v assms None by (metis map_of_eq_Some option.inject option.distinct(1))
    qed
    then have "map_of (retain_map f m) k = None" by (simp add: map_of_eq_None_iff)
    with Some None show ?thesis by simp
  next
    case (Some w)
    with v have "(k, w) \<in> set (retain_map f m)" by (auto simp: set_retain_map)
    then have "map_of (retain_map f m) k = Some w"
      using assms by (simp add: map_of_eq_Some [OF keys_distinct_retain])
    with \<open>map_of m k = Some v\<close> Some show ?thesis by simp
  qed
qed

lemma map_of_filter:
  "keys_distinct m \<Longrightarrow> map_of (filter (\<lambda>(k, v). P k v) m) k
    = (case map_of m k of None \<Rightarrow> None | Some v \<Rightarrow> if P k v then Some v else None)"
  by (induction m) (auto simp: keys_distinct_def map_of_eq_None_iff split: option.split dest: map_of_SomeD)

lemma keys_distinct_filter [simp, intro]: "keys_distinct m \<Longrightarrow> keys_distinct (filter P m)"
  by (simp add: keys_distinct_def distinct_map_filter)

lemma map_of_update [simp]: "map_of (AList.update k v m) = (map_of m)(k \<mapsto> v)"
  by (simp add: fun_eq_iff update_conv)

lemma map_of_delete [simp]: "map_of (AList.delete k m) = (map_of m)(k := None)"
  by (simp add: fun_eq_iff delete_conv)

text \<open>The keys of a kind, which the source counts.\<close>

lemma length_filter_keys:
  "keys_distinct m \<Longrightarrow> length (filter (\<lambda>(k, _). P k) m) = card {k. map_of m k \<noteq> None \<and> P k}"
proof -
  assume "keys_distinct m"
  then have "distinct (map fst (filter (\<lambda>(k, _). P k) m))"
    by (simp add: keys_distinct_def distinct_map_filter)
  then have "card (set (map fst (filter (\<lambda>(k, _). P k) m))) = length (filter (\<lambda>(k, _). P k) m)"
    using distinct_card by fastforce
  moreover have "set (map fst (filter (\<lambda>(k, _). P k) m)) = {k. map_of m k \<noteq> None \<and> P k}"
    by (auto simp: map_of_eq_None_iff image_iff)
  ultimately show ?thesis by simp
qed

end
