(* ===== verification/ReadAdmission.thy ===== *)
theory ReadAdmission
  imports RpcOrigins
begin

text \<open>
  \<open>crates/wallet-ops/src/gateway/admission.rs\<close>: the admission of dapp reads. Every dapp origin has
  a token bucket (64 tokens, refilled at 32 a second), at most 32 active reads and at most 64
  queued ones; wallet reads are admitted at once.

  The state is the source's \<open>ReadAdmission\<close>. Tokens are counted in billionths on natural numbers;
  \<open>refill_no_overflow\<close> shows that the source's 64-bit sums do not overflow. A panic of the source
  (\<open>expect\<close>, or the underflow of a counter) is the result \<open>None\<close>.
\<close>

section \<open>State\<close>

definition ACTIVE_LIMIT :: nat where "ACTIVE_LIMIT = 32"
definition QUEUE_LIMIT :: nat where "QUEUE_LIMIT = 64"
definition TOKEN_UNITS :: nat where "TOKEN_UNITS = 1000000000"
definition BUCKET_CAPACITY :: nat where "BUCKET_CAPACITY = 64 * TOKEN_UNITS"
definition REFILL_PER_NANOSECOND :: nat where "REFILL_PER_NANOSECOND = 32"
definition READ_TIMEOUT :: duration where "READ_TIMEOUT = seconds 30"

lemmas admission_constants =
  ACTIVE_LIMIT_def QUEUE_LIMIT_def TOKEN_UNITS_def BUCKET_CAPACITY_def REFILL_PER_NANOSECOND_def
  READ_TIMEOUT_def

record read_ticket =
  rt_id :: u64
  rt_deadline :: instant

datatype read_admission_decision = Ready read_ticket | Queued read_ticket

datatype read_limit_error =
    DeadlineLimit
  | IdExhausted
  | RateLimited nat nat
  | QueueFull nat nat

record read_admission_updates =
  up_ready :: "read_ticket list"
  up_expired :: "read_ticket list"

record origin_state =
  os_active :: nat
  os_queued :: "read_ticket list"
  os_tokens :: nat
  os_refilled_at :: instant

record read_admission =
  ra_origins :: "(rpc_origin, origin_state) hash_map"
  ra_active :: "u64 \<rightharpoonup> rpc_origin"
  ra_next_id :: u64

definition new_origin_state :: "instant \<Rightarrow> origin_state" where
  "new_origin_state now =
    \<lparr>os_active = 0, os_queued = [], os_tokens = BUCKET_CAPACITY, os_refilled_at = now\<rparr>"

definition new_read_admission :: read_admission where
  "new_read_admission = \<lparr>ra_origins = [], ra_active = Map.empty, ra_next_id = 0\<rparr>"

section \<open>Operations\<close>

definition refill :: "instant \<Rightarrow> origin_state \<Rightarrow> origin_state" where
  "refill now st =
    (let elapsed = min (now - os_refilled_at st) (seconds 2);
         nanos = elapsed mod 1000000000 + elapsed div 1000000000 * TOKEN_UNITS
     in st\<lparr>os_tokens := min (os_tokens st + nanos * REFILL_PER_NANOSECOND) BUCKET_CAPACITY,
           os_refilled_at := max (os_refilled_at st) now\<rparr>)"

definition expire_state :: "instant \<Rightarrow> origin_state \<Rightarrow> origin_state \<times> read_ticket list" where
  "expire_state now st =
    (st\<lparr>os_queued := filter (\<lambda>t. \<not> rt_deadline t \<le> now) (os_queued st)\<rparr>,
     filter (\<lambda>t. rt_deadline t \<le> now) (os_queued st))"

definition idle_full :: "origin_state \<Rightarrow> bool" where
  "idle_full st = (os_active st = 0 \<and> os_queued st = [] \<and> os_tokens st = BUCKET_CAPACITY)"

text \<open>The \<open>retain\<close> of \<open>admit_with_deadline\<close>: refill every bucket and drop the full, idle ones.\<close>

definition refill_origins ::
    "instant \<Rightarrow> (rpc_origin, origin_state) hash_map \<Rightarrow> (rpc_origin, origin_state) hash_map" where
  "refill_origins now =
    retain_map (\<lambda>_ st. let st' = refill now st in if idle_full st' then None else Some st')"

definition admit_with_deadline ::
    "rpc_origin \<Rightarrow> instant \<Rightarrow> instant \<Rightarrow> read_admission
      \<Rightarrow> (read_limit_error + read_admission_decision) \<times> read_admission" where
  "admit_with_deadline origin now deadline adm =
    (if deadline \<le> now then (Inl DeadlineLimit, adm)
     else
       (case checked_add (ra_next_id adm) 1 of
          None \<Rightarrow> (Inl IdExhausted, adm)
        | Some next_id \<Rightarrow>
            let ticket = \<lparr>rt_id = ra_next_id adm, rt_deadline = deadline\<rparr> in
            if web_origin origin = None then (Inr (Ready ticket), adm\<lparr>ra_next_id := next_id\<rparr>)
            else
              let origins = refill_origins now (ra_origins adm);
                  st = (case map_of origins origin of
                          Some st \<Rightarrow> st | None \<Rightarrow> new_origin_state now);
                  adm1 = adm\<lparr>ra_origins := AList.update origin st origins\<rparr>
              in
              if os_tokens st < TOKEN_UNITS
              then (Inl (RateLimited (os_active st) (length (os_queued st))), adm1)
              else if ACTIVE_LIMIT \<le> os_active st \<and> QUEUE_LIMIT \<le> length (os_queued st)
              then (Inl (QueueFull (os_active st) (length (os_queued st))), adm1)
              else
                let st1 = st\<lparr>os_tokens := os_tokens st - TOKEN_UNITS\<rparr> in
                if os_active st1 < ACTIVE_LIMIT
                then (Inr (Ready ticket),
                      \<lparr>ra_origins = AList.update origin
                          (st1\<lparr>os_active := os_active st1 + 1\<rparr>) origins,
                       ra_active = (ra_active adm)(ra_next_id adm \<mapsto> origin),
                       ra_next_id = next_id\<rparr>)
                else (Inr (Queued ticket),
                      \<lparr>ra_origins = AList.update origin
                          (st1\<lparr>os_queued := os_queued st1 @ [ticket]\<rparr>) origins,
                       ra_active = ra_active adm,
                       ra_next_id = next_id\<rparr>)))"

text \<open>\<open>instant_limit\<close> is the platform's largest \<open>Instant\<close>, past which \<open>checked_add\<close> fails.\<close>

definition admit ::
    "instant \<Rightarrow> rpc_origin \<Rightarrow> instant \<Rightarrow> read_admission
      \<Rightarrow> (read_limit_error + read_admission_decision) \<times> read_admission" where
  "admit instant_limit origin now adm =
    (if instant_limit < now + READ_TIMEOUT then (Inl DeadlineLimit, adm)
     else admit_with_deadline origin now (now + READ_TIMEOUT) adm)"

text \<open>The loop of \<open>complete\<close>: queued tickets become active while there is room.\<close>

fun promote ::
    "rpc_origin \<Rightarrow> nat \<Rightarrow> read_ticket list \<Rightarrow> (u64 \<rightharpoonup> rpc_origin)
      \<Rightarrow> nat \<times> read_ticket list \<times> (u64 \<rightharpoonup> rpc_origin) \<times> read_ticket list" where
  "promote origin active [] assigned = (active, [], assigned, [])"
| "promote origin active (ticket # queued) assigned =
    (if active < ACTIVE_LIMIT then
       (case promote origin (active + 1) queued (assigned(rt_id ticket \<mapsto> origin)) of
          (active', queued', assigned', ready) \<Rightarrow> (active', queued', assigned', ticket # ready))
     else (active, ticket # queued, assigned, []))"

definition complete ::
    "u64 \<Rightarrow> instant \<Rightarrow> read_admission \<Rightarrow> (read_admission_updates \<times> read_admission) option" where
  "complete tid now adm =
    (case ra_active adm tid of
       None \<Rightarrow> Some (\<lparr>up_ready = [], up_expired = []\<rparr>, adm)
     | Some origin \<Rightarrow>
         (case map_of (ra_origins adm) origin of
            None \<Rightarrow> None
          | Some st \<Rightarrow>
              if os_active st = 0 then None
              else
                (case expire_state now (st\<lparr>os_active := os_active st - 1\<rparr>) of
                   (st1, expired) \<Rightarrow>
                     (case promote origin (os_active st1) (os_queued st1)
                             ((ra_active adm)(tid := None)) of
                        (active', queued', assigned', ready) \<Rightarrow>
                          Some (\<lparr>up_ready = ready, up_expired = expired\<rparr>,
                            adm\<lparr>ra_origins := AList.update origin
                                  (st1\<lparr>os_active := active', os_queued := queued'\<rparr>)
                                  (ra_origins adm),
                                ra_active := assigned'\<rparr>)))))"

text \<open>\<open>cancel_queued\<close> removes the ticket from the first origin that queues it.\<close>

fun remove_ticket :: "u64 \<Rightarrow> read_ticket list \<Rightarrow> read_ticket list" where
  "remove_ticket tid [] = []"
| "remove_ticket tid (t # ts) = (if rt_id t = tid then ts else t # remove_ticket tid ts)"

fun cancel_in_origins ::
    "u64 \<Rightarrow> (rpc_origin, origin_state) hash_map
      \<Rightarrow> bool \<times> (rpc_origin, origin_state) hash_map" where
  "cancel_in_origins tid [] = (False, [])"
| "cancel_in_origins tid ((origin, st) # origins) =
    (if tid \<in> rt_id ` set (os_queued st)
     then (True, (origin, st\<lparr>os_queued := remove_ticket tid (os_queued st)\<rparr>) # origins)
     else (case cancel_in_origins tid origins of
             (found, origins') \<Rightarrow> (found, (origin, st) # origins')))"

definition cancel_queued :: "u64 \<Rightarrow> read_admission \<Rightarrow> bool \<times> read_admission" where
  "cancel_queued tid adm =
    (case cancel_in_origins tid (ra_origins adm) of
       (found, origins) \<Rightarrow> (found, adm\<lparr>ra_origins := origins\<rparr>))"

definition expire_queued :: "instant \<Rightarrow> read_admission \<Rightarrow> read_ticket list \<times> read_admission" where
  "expire_queued now adm =
    (concat (map (\<lambda>(_, st). snd (expire_state now st)) (ra_origins adm)),
     adm\<lparr>ra_origins := map (\<lambda>(origin, st). (origin, fst (expire_state now st))) (ra_origins adm)\<rparr>)"

section \<open>Steps\<close>

datatype admission_event =
    AdmitEvent rpc_origin instant instant "read_limit_error + read_admission_decision"
  | CompleteEvent u64 instant
  | CancelEvent u64
  | ExpireEvent instant

inductive admission_step :: "read_admission \<Rightarrow> admission_event \<Rightarrow> read_admission \<Rightarrow> bool" where
  step_admit: "admit_with_deadline origin now deadline adm = (r, adm')
    \<Longrightarrow> admission_step adm (AdmitEvent origin now deadline r) adm'"
| step_complete: "complete tid now adm = Some (updates, adm')
    \<Longrightarrow> admission_step adm (CompleteEvent tid now) adm'"
| step_cancel: "cancel_queued tid adm = (found, adm')
    \<Longrightarrow> admission_step adm (CancelEvent tid) adm'"
| step_expire: "expire_queued now adm = (expired, adm')
    \<Longrightarrow> admission_step adm (ExpireEvent now) adm'"

inductive_cases admission_stepE: "admission_step adm e adm'"

section \<open>The books of an origin\<close>

definition origin_state_ok :: "origin_state \<Rightarrow> bool" where
  "origin_state_ok st \<longleftrightarrow>
    os_active st \<le> ACTIVE_LIMIT \<and> length (os_queued st) \<le> QUEUE_LIMIT
    \<and> (os_queued st \<noteq> [] \<longrightarrow> os_active st = ACTIVE_LIMIT)
    \<and> os_tokens st \<le> BUCKET_CAPACITY \<and> distinct (map rt_id (os_queued st))"

definition holders :: "(u64 \<rightharpoonup> rpc_origin) \<Rightarrow> rpc_origin \<Rightarrow> u64 set" where
  "holders assigned origin = {i. assigned i = Some origin}"

definition queues_apart :: "(rpc_origin \<rightharpoonup> origin_state) \<Rightarrow> bool" where
  "queues_apart m \<longleftrightarrow>
    (\<forall>p q sp sq. m p = Some sp \<longrightarrow> m q = Some sq
      \<longrightarrow> rt_id ` set (os_queued sp) \<inter> rt_id ` set (os_queued sq) \<noteq> {} \<longrightarrow> p = q)"

text \<open>
  The counters of \<open>origins\<close> agree with the tickets of \<open>active\<close>: an origin's count is the number of
  active tickets it holds, every holder has an entry, queued tickets are not active, and no ticket
  number is in use twice or still to be given out.
\<close>

definition books_ok ::
    "(rpc_origin \<rightharpoonup> origin_state) \<Rightarrow> (u64 \<rightharpoonup> rpc_origin) \<Rightarrow> u64 \<Rightarrow> bool" where
  "books_ok m assigned next_id \<longleftrightarrow>
    (\<forall>origin st. m origin = Some st \<longrightarrow>
       origin_state_ok st \<and> os_active st = card (holders assigned origin)
       \<and> (\<forall>t \<in> set (os_queued st). rt_id t < next_id \<and> assigned (rt_id t) = None))
    \<and> (\<forall>i origin. assigned i = Some origin \<longrightarrow> i < next_id \<and> m origin \<noteq> None)
    \<and> queues_apart m"

definition admission_inv :: "read_admission \<Rightarrow> bool" where
  "admission_inv adm \<longleftrightarrow>
    keys_distinct (ra_origins adm)
    \<and> books_ok (map_of (ra_origins adm)) (ra_active adm) (ra_next_id adm)"

lemma finite_holders [simp, intro]: "finite (holders a p)"
  by simp

lemma books_okD:
  assumes "books_ok m a n" "m p = Some st"
  shows "origin_state_ok st" "os_active st = card (holders a p)"
    "t \<in> set (os_queued st) \<Longrightarrow> rt_id t < n" "t \<in> set (os_queued st) \<Longrightarrow> a (rt_id t) = None"
  using assms by (auto simp: books_ok_def)

lemma books_ok_holder:
  "books_ok m a n \<Longrightarrow> a i = Some p \<Longrightarrow> i < n \<and> (\<exists>st. m p = Some st)"
  by (force simp: books_ok_def)

lemma books_ok_weaken:
  \<comment> \<open>entries may be refilled, lose queued tickets or, when nothing is active, be dropped\<close>
  assumes ok: "books_ok m a n"
    and entries: "\<And>p st'. m' p = Some st' \<Longrightarrow> \<exists>st. m p = Some st \<and> os_active st' = os_active st
        \<and> set (os_queued st') \<subseteq> set (os_queued st) \<and> origin_state_ok st'"
    and kept: "\<And>p st. m p = Some st \<Longrightarrow> 0 < os_active st \<Longrightarrow> m' p \<noteq> None"
  shows "books_ok m' a n"
proof -
  have "origin_state_ok st' \<and> os_active st' = card (holders a p)
      \<and> (\<forall>t \<in> set (os_queued st'). rt_id t < n \<and> a (rt_id t) = None)" if st': "m' p = Some st'" for p st'
  proof -
    obtain st where "m p = Some st" "os_active st' = os_active st"
        "set (os_queued st') \<subseteq> set (os_queued st)" "origin_state_ok st'"
      using entries [OF st'] by blast
    then show ?thesis using books_okD [OF ok] by (metis subsetD)
  qed
  moreover have "i < n \<and> m' p \<noteq> None" if held: "a i = Some p" for i p
  proof -
    obtain st where "m p = Some st" "i < n" using books_ok_holder [OF ok held] by blast
    moreover have "holders a p \<noteq> {}" using held by (auto simp: holders_def)
    ultimately show ?thesis
      using kept [of p st] books_okD(2) [OF ok, of p st] by (simp add: card_gt_0_iff)
  qed
  moreover have "queues_apart m'" unfolding queues_apart_def
  proof (intro allI impI)
    fix p q sp sq
    assume "m' p = Some sp" "m' q = Some sq"
      and meet: "rt_id ` set (os_queued sp) \<inter> rt_id ` set (os_queued sq) \<noteq> {}"
    then obtain tp tq where "m p = Some tp" "set (os_queued sp) \<subseteq> set (os_queued tp)"
        "m q = Some tq" "set (os_queued sq) \<subseteq> set (os_queued tq)"
      using entries by blast
    moreover from this have "rt_id ` set (os_queued tp) \<inter> rt_id ` set (os_queued tq) \<noteq> {}"
      using meet by blast
    ultimately show "p = q" using ok unfolding books_ok_def queues_apart_def by blast
  qed
  ultimately show ?thesis unfolding books_ok_def by blast
qed

lemma books_ok_next: "books_ok m a n \<Longrightarrow> n \<le> n' \<Longrightarrow> books_ok m a n'"
  unfolding books_ok_def by (meson order.strict_trans2)

lemma new_origin_state_ok [simp]: "origin_state_ok (new_origin_state now)"
  by (simp add: origin_state_ok_def new_origin_state_def)

lemma queues_apart_update:
  assumes "queues_apart m"
    and "\<And>q sq. q \<noteq> p \<Longrightarrow> m q = Some sq
      \<Longrightarrow> rt_id ` set (os_queued st) \<inter> rt_id ` set (os_queued sq) = {}"
  shows "queues_apart (m(p \<mapsto> st))"
  unfolding queues_apart_def
proof (intro allI impI)
  fix q r sq sr
  assume *: "(m(p \<mapsto> st)) q = Some sq" "(m(p \<mapsto> st)) r = Some sr"
    "rt_id ` set (os_queued sq) \<inter> rt_id ` set (os_queued sr) \<noteq> {}"
  show "q = r"
  proof (cases "q = p \<or> r = p")
    case True
    then show ?thesis using * assms(2) by (cases "q = p"; cases "r = p") (auto simp: Int_commute)
  next
    case False
    then show ?thesis using * assms(1) unfolding queues_apart_def by simp
  qed
qed

lemma books_ok_fresh_entry:
  assumes ok: "books_ok m a n" and "m p = None"
  shows "books_ok (m(p \<mapsto> new_origin_state now)) a n"
proof -
  have none: "holders a p = {}" using assms books_ok_holder by (fastforce simp: holders_def)
  have "queues_apart (m(p \<mapsto> new_origin_state now))"
    using ok by (intro queues_apart_update) (auto simp: books_ok_def new_origin_state_def)
  then show ?thesis using ok none unfolding books_ok_def
    by (simp add: new_origin_state_ok) (simp add: new_origin_state_def)
qed

lemma holders_insert:
  "a i = None \<Longrightarrow> holders (a(i \<mapsto> p)) q = (if q = p then insert i (holders a p) else holders a q)"
  by (auto simp: holders_def)

lemma holders_delete:
  "a i = Some p \<Longrightarrow> holders (a(i := None)) q = (if q = p then holders a p - {i} else holders a q)"
  by (auto simp: holders_def)

text \<open>A fresh ticket becomes active, or joins the queue of an origin with no room.\<close>

lemma books_ok_activate:
  assumes ok: "books_ok m a n" and p: "m p = Some st" and fresh: "n < n'"
    and room: "os_active st < ACTIVE_LIMIT" and tokens: "k \<le> BUCKET_CAPACITY"
  shows "books_ok (m(p \<mapsto> st\<lparr>os_tokens := k, os_active := os_active st + 1\<rparr>)) (a(n \<mapsto> p)) n'"
proof -
  note st = books_okD [OF ok p]
  have n: "a n = None" using ok books_ok_holder by (cases "a n") force+
  have nq: "os_queued st = []" using st(1) room by (auto simp: origin_state_ok_def)
  have "queues_apart (m(p \<mapsto> st\<lparr>os_tokens := k, os_active := os_active st + 1\<rparr>))"
    using ok by (intro queues_apart_update) (auto simp: books_ok_def nq)
  moreover have "n \<notin> holders a p" using n by (simp add: holders_def)
  moreover have "rt_id t < n' \<and> (a(n \<mapsto> p)) (rt_id t) = None"
    if "m q = Some sq" "t \<in> set (os_queued sq)" for q sq t
    using books_okD(3,4) [OF ok that(1)] that(2) fresh by (force dest: order.strict_trans)
  moreover have "origin_state_ok (st\<lparr>os_tokens := k, os_active := os_active st + 1\<rparr>)"
    using st(1) room tokens nq by (simp add: origin_state_ok_def)
  moreover have "i < n'" if "a i = Some q" for i q
    using books_ok_holder [OF ok that] fresh by (blast intro: order.strict_trans)
  ultimately show ?thesis using ok fresh st(2) nq unfolding books_ok_def
    by (auto simp: holders_insert [where a = a and i = n, OF n])
qed

lemma books_ok_enqueue:
  assumes ok: "books_ok m a n" and p: "m p = Some st" and fresh: "n < n'"
    and full: "os_active st = ACTIVE_LIMIT" and room: "length (os_queued st) < QUEUE_LIMIT"
    and tokens: "k \<le> BUCKET_CAPACITY"
  shows "books_ok (m(p \<mapsto> st\<lparr>os_tokens := k,
      os_queued := os_queued st @ [\<lparr>rt_id = n, rt_deadline = d\<rparr>]\<rparr>)) a n'"
proof -
  note st = books_okD [OF ok p]
  have n: "a n = None" using ok books_ok_holder by (cases "a n") force+
  have other: "n \<notin> rt_id ` set (os_queued sq)" if "m q = Some sq" for q sq
    using books_okD(3) [OF ok that] by fastforce
  have "queues_apart (m(p \<mapsto> st\<lparr>os_tokens := k,
      os_queued := os_queued st @ [\<lparr>rt_id = n, rt_deadline = d\<rparr>]\<rparr>))"
  proof (rule queues_apart_update)
    show "queues_apart m" using ok by (simp add: books_ok_def)
    fix q sq assume "q \<noteq> p" "m q = Some sq"
    then show "rt_id ` set (os_queued (st\<lparr>os_tokens := k, os_queued := os_queued st
        @ [\<lparr>rt_id = n, rt_deadline = d\<rparr>]\<rparr>)) \<inter> rt_id ` set (os_queued sq) = {}"
      using ok other p unfolding books_ok_def queues_apart_def by simp blast
  qed
  moreover have "rt_id t < n' \<and> a (rt_id t) = None"
    if "m q = Some sq" "t \<in> set (os_queued sq)" for q sq t
    using books_okD(3,4) [OF ok that(1)] that(2) fresh by (force dest: order.strict_trans)
  moreover have "origin_state_ok (st\<lparr>os_tokens := k,
      os_queued := os_queued st @ [\<lparr>rt_id = n, rt_deadline = d\<rparr>]\<rparr>)"
    using st(1) full room tokens other [OF p] by (auto simp: origin_state_ok_def)
  moreover have "i < n'" if "a i = Some q" for i q
    using books_ok_holder [OF ok that] fresh by (blast intro: order.strict_trans)
  ultimately show ?thesis using ok fresh st(2) n p unfolding books_ok_def
    by auto
qed

text \<open>Promotion takes the oldest tickets, as many as there is room for.\<close>

definition assign_tickets ::
    "rpc_origin \<Rightarrow> read_ticket list \<Rightarrow> (u64 \<rightharpoonup> rpc_origin) \<Rightarrow> (u64 \<rightharpoonup> rpc_origin)" where
  "assign_tickets p ts a = (\<lambda>i. if i \<in> rt_id ` set ts then Some p else a i)"

lemma promote_eq:
  assumes "distinct (map rt_id queued)"
  shows "promote p active queued a =
    (active + length (take (ACTIVE_LIMIT - active) queued), drop (ACTIVE_LIMIT - active) queued,
     assign_tickets p (take (ACTIVE_LIMIT - active) queued) a, take (ACTIVE_LIMIT - active) queued)"
  using assms
proof (induction queued arbitrary: active a)
  case Nil
  then show ?case by (simp add: assign_tickets_def)
next
  case (Cons t ts)
  show ?case
  proof (cases "active < ACTIVE_LIMIT")
    case True
    then obtain j where j: "ACTIVE_LIMIT - active = Suc j" "ACTIVE_LIMIT - (active + 1) = j"
      by (cases "ACTIVE_LIMIT - active") auto
    have "assign_tickets p (take j ts) (a(rt_id t \<mapsto> p)) = assign_tickets p (t # take j ts) a"
      by (auto simp: assign_tickets_def fun_eq_iff)
    then show ?thesis using True Cons j by simp
  qed (simp add: assign_tickets_def)
qed

lemma holders_assign:
  "holders (assign_tickets p ts a) q =
    (if q = p then rt_id ` set ts \<union> holders a p else holders a q - rt_id ` set ts)"
  by (auto simp: holders_def assign_tickets_def)

text \<open>Completion frees one place of the origin, then promotes the unexpired queue into it.\<close>

lemma books_ok_release:
  assumes ok: "books_ok m a n" and i: "a i = Some p" and p: "m p = Some st"
    and live: "set live \<subseteq> set (os_queued st)" "distinct (map rt_id live)"
      "length live \<le> QUEUE_LIMIT"
    and k: "k = ACTIVE_LIMIT - (os_active st - 1)" and ready: "ready = take k live"
  shows "books_ok (m(p \<mapsto> st\<lparr>os_active := os_active st - 1 + length ready, os_queued := drop k live\<rparr>))
    (assign_tickets p ready (a(i := None))) n"
proof -
  note st = books_okD [OF ok p]
  let ?st = "st\<lparr>os_active := os_active st - 1 + length ready, os_queued := drop k live\<rparr>"
  let ?a = "assign_tickets p ready (a(i := None))"
  have i_in: "i \<in> holders a p" using i by (simp add: holders_def)
  have pos: "0 < os_active st" using i_in st(2) by (auto simp: card_gt_0_iff)
  have split: "set live = set ready \<union> set (drop k live)" "rt_id ` set ready \<inter> rt_id ` set (drop k live) = {}"
    using live(2) append_take_drop_id [of k live] unfolding ready
    by (metis set_append, metis distinct_append map_append set_map)
  have drop_sub: "set (drop k live) \<subseteq> set (os_queued st)"
    and ready_sub: "set ready \<subseteq> set (os_queued st)"
    using split live(1) by auto
  have unassigned: "\<And>t. t \<in> set (os_queued st) \<Longrightarrow> a (rt_id t) = None" using st(4) by blast
  have apart: "rt_id t \<notin> rt_id ` set ready" if "q \<noteq> p" "m q = Some sq" "t \<in> set (os_queued sq)" for q sq t
    using ok that p ready_sub unfolding books_ok_def queues_apart_def by blast
  have state: "origin_state_ok ?st"
    using st(1) live(2,3) pos unfolding origin_state_ok_def k ready
    by (auto simp: distinct_drop drop_map [symmetric])
  have "distinct (map rt_id ready)"
    using live(2) by (simp add: ready distinct_take take_map [symmetric])
  then have "card (rt_id ` set ready) = length ready"
    using distinct_card [of "map rt_id ready"] by simp
  moreover have "rt_id ` set ready \<inter> (holders a p - {i}) = {}"
    using ready_sub unassigned by (force simp: holders_def)
  ultimately have active: "os_active ?st = card (holders ?a p)"
    using st(2) i_in by (simp add: holders_assign holders_delete [where a = a and i = i, OF i] card_Un_disjoint card_Diff_singleton)
  have others: "holders ?a q = holders a q" if "q \<noteq> p" for q
  proof -
    have "rt_id ` set ready \<inter> holders a q = {}"
      using ready_sub unassigned by (force simp: holders_def)
    then show ?thesis using that by (auto simp: holders_assign holders_delete [where a = a and i = i, OF i])
  qed
  have queued: "?a (rt_id t) = None" if "q \<noteq> p" "m q = Some sq" "t \<in> set (os_queued sq)" for q sq t
    using that apart [of q sq t] books_okD(4) [OF ok, of q sq t] by (auto simp: assign_tickets_def)
  have left: "?a (rt_id t) = None" if "t \<in> set (drop k live)" for t
    using that drop_sub unassigned split(2) by (auto simp: assign_tickets_def)
  have known: "j < n" if "?a j = Some q" for j q
    using that ready_sub st(3) books_ok_holder [OF ok, of j q]
    by (auto simp: assign_tickets_def split: if_splits)
  have entry: "(m(p \<mapsto> ?st)) q \<noteq> None" if "?a j = Some q" for j q
    using that books_ok_holder [OF ok, of j q] by (auto simp: assign_tickets_def split: if_splits)
  have "queues_apart (m(p \<mapsto> ?st))"
    using ok drop_sub p by (intro queues_apart_update) (auto simp: books_ok_def queues_apart_def, blast)
  then show ?thesis
    using state active others queued left known entry books_okD(1-3) [OF ok] drop_sub st(3)
    unfolding books_ok_def by (auto split: if_splits)
qed

section \<open>Every operation keeps the books\<close>

lemma expire_state_keeps:
  "os_active (fst (expire_state now st)) = os_active st"
  "os_tokens (fst (expire_state now st)) = os_tokens st"
  "os_refilled_at (fst (expire_state now st)) = os_refilled_at st"
  "set (os_queued (fst (expire_state now st))) \<subseteq> set (os_queued st)"
  "origin_state_ok st \<Longrightarrow> origin_state_ok (fst (expire_state now st))"
  by (auto simp: expire_state_def origin_state_ok_def distinct_map inj_on_def
      intro: order.trans [OF length_filter_le])

lemma refill_keeps:
  "os_active (refill now st) = os_active st" "os_queued (refill now st) = os_queued st"
  "origin_state_ok st \<Longrightarrow> origin_state_ok (refill now st)"
  by (auto simp: refill_def origin_state_ok_def Let_def)

lemma map_of_refill_origins:
  "keys_distinct m \<Longrightarrow> map_of (refill_origins now m) p =
    (case map_of m p of None \<Rightarrow> None
     | Some st \<Rightarrow> if idle_full (refill now st) then None else Some (refill now st))"
  by (auto simp: refill_origins_def map_of_retain Let_def split: option.split)

lemma books_ok_refill:
  assumes "keys_distinct m" "books_ok (map_of m) a n"
  shows "books_ok (map_of (refill_origins now m)) a n"
  by (rule books_ok_weaken [OF assms(2)])
    (use assms books_okD(1) [OF assms(2)] in
      \<open>auto simp: map_of_refill_origins refill_keeps idle_full_def split: option.splits if_splits\<close>)

lemma books_ok_upd_same: "books_ok m a n \<Longrightarrow> m p = Some st \<Longrightarrow> books_ok (m(p \<mapsto> st)) a n"
  by (simp add: fun_upd_idem)

text \<open>The entry that \<open>admit_with_deadline\<close> finds or creates for the origin of a web read.\<close>

definition admission_entry :: "rpc_origin \<Rightarrow> instant \<Rightarrow> read_admission \<Rightarrow> origin_state" where
  "admission_entry origin now adm =
    (case map_of (refill_origins now (ra_origins adm)) origin of
       Some st \<Rightarrow> st | None \<Rightarrow> new_origin_state now)"

lemma books_ok_entry:
  assumes "admission_inv adm"
  shows "books_ok ((map_of (refill_origins now (ra_origins adm)))(origin \<mapsto> admission_entry origin now adm))
    (ra_active adm) (ra_next_id adm)"
proof -
  have "books_ok (map_of (refill_origins now (ra_origins adm))) (ra_active adm) (ra_next_id adm)"
    using assms by (simp add: admission_inv_def books_ok_refill)
  then show ?thesis
    by (auto simp: admission_entry_def intro: books_ok_fresh_entry books_ok_upd_same split: option.split)
qed

lemma checked_add_1_less: "checked_add n 1 = Some n' \<Longrightarrow> n < n'" for n n' :: "'a::len word"
  by (simp add: checked_add_iff word_less_nat_alt unsigned_1 split: if_splits)

lemma admit_keeps_inv:
  assumes inv: "admission_inv adm" and admit: "admit_with_deadline origin now deadline adm = (r, adm')"
  shows "admission_inv adm'"
proof (cases "deadline \<le> now \<or> checked_add (ra_next_id adm) 1 = None")
  case True
  then show ?thesis using assms by (auto simp: admit_with_deadline_def split: if_splits)
next
  case False
  then obtain n' where n': "checked_add (ra_next_id adm) 1 = Some n'" and dl: "\<not> deadline \<le> now" by auto
  note less = checked_add_1_less [OF n']
  let ?m = "refill_origins now (ra_origins adm)" and ?st = "admission_entry origin now adm"
  note entry = books_ok_entry [OF inv, of now origin]
  have keys: "keys_distinct ?m" using inv by (simp add: admission_inv_def refill_origins_def)
  have st: "origin_state_ok ?st" using books_okD(1) [OF entry, of origin] by simp
  then have tokens: "os_tokens ?st - TOKEN_UNITS \<le> BUCKET_CAPACITY"
    by (auto simp: origin_state_ok_def intro: order.trans [OF diff_le_self])
  note activate = books_ok_activate [OF entry _ less _ tokens, of origin]
  note enqueue = books_ok_enqueue [where m = "(map_of ?m)(origin \<mapsto> ?st)" and p = origin and st = ?st and d = deadline,
      OF entry fun_upd_same less _ _ tokens]
  show ?thesis using admit inv n' dl entry keys st less
    apply (simp add: admit_with_deadline_def Let_def admission_entry_def [symmetric] split: if_splits)
    subgoal by (auto simp: admission_inv_def intro: books_ok_next)
    subgoal by (auto simp: admission_inv_def)
    subgoal by (auto simp: admission_inv_def)
    subgoal using activate by (auto simp: admission_inv_def)
    subgoal using enqueue by (auto simp: admission_inv_def origin_state_ok_def)
    done
qed

lemma complete_eq:
  assumes inv: "admission_inv adm" and i: "ra_active adm i = Some p" and p: "map_of (ra_origins adm) p = Some st"
    and live: "live = filter (\<lambda>t. \<not> rt_deadline t \<le> now) (os_queued st)"
    and k: "k = ACTIVE_LIMIT - (os_active st - 1)"
  shows "complete i now adm =
    Some (\<lparr>up_ready = take k live, up_expired = filter (\<lambda>t. rt_deadline t \<le> now) (os_queued st)\<rparr>,
      adm\<lparr>ra_origins := AList.update p (st\<lparr>os_active := os_active st - 1 + length (take k live),
             os_queued := drop k live\<rparr>) (ra_origins adm),
          ra_active := assign_tickets p (take k live) ((ra_active adm)(i := None))\<rparr>)"
proof -
  have books: "books_ok (map_of (ra_origins adm)) (ra_active adm) (ra_next_id adm)"
    using inv by (simp add: admission_inv_def)
  note st = books_okD [OF books p]
  have "holders (ra_active adm) p \<noteq> {}" using i by (auto simp: holders_def)
  then have pos: "os_active st \<noteq> 0" using st(2) by simp
  have "distinct (map rt_id live)"
    using st(1) by (simp add: origin_state_ok_def live distinct_map inj_on_def)
  then show ?thesis using i p pos
    by (simp add: complete_def expire_state_def promote_eq live [symmetric] k)
qed

lemma complete_keeps_inv:
  assumes inv: "admission_inv adm" and complete: "complete i now adm = Some (updates, adm')"
  shows "admission_inv adm'"
proof (cases "ra_active adm i")
  case None
  then show ?thesis using assms by (simp add: complete_def)
next
  case (Some p)
  have books: "books_ok (map_of (ra_origins adm)) (ra_active adm) (ra_next_id adm)"
    and keys: "keys_distinct (ra_origins adm)"
    using inv by (simp_all add: admission_inv_def)
  obtain st where p: "map_of (ra_origins adm) p = Some st"
    using books_ok_holder [OF books Some] by blast
  let ?live = "filter (\<lambda>t. \<not> rt_deadline t \<le> now) (os_queued st)"
  have live: "set ?live \<subseteq> set (os_queued st)" "distinct (map rt_id ?live)" "length ?live \<le> QUEUE_LIMIT"
    using books_okD(1) [OF books p]
    by (auto simp: origin_state_ok_def distinct_map inj_on_def intro: order.trans [OF length_filter_le])
  show ?thesis
    using complete_eq [OF inv Some p refl refl, of now] complete keys
      books_ok_release [OF books Some p live refl refl]
    by (auto simp: admission_inv_def)
qed

lemma cancel_in_origins_cases:
  assumes "keys_distinct m"
  shows "(cancel_in_origins i m = (False, m) \<and> (\<forall>p st. map_of m p = Some st \<longrightarrow> i \<notin> rt_id ` set (os_queued st)))
    \<or> (\<exists>p st. map_of m p = Some st \<and> i \<in> rt_id ` set (os_queued st)
        \<and> cancel_in_origins i m
            = (True, AList.update p (st\<lparr>os_queued := remove_ticket i (os_queued st)\<rparr>) m))"
  using assms
proof (induction m)
  case Nil
  then show ?case by simp
next
  case (Cons e m)
  obtain q sq where e: "e = (q, sq)" by (cases e)
  have fresh: "q \<notin> fst ` set m" and rest: "keys_distinct m" using Cons.prems by (auto simp: keys_distinct_def e)
  show ?case
  proof (cases "i \<in> rt_id ` set (os_queued sq)")
    case True
    then show ?thesis by (auto simp: e)
  next
    case False
    from Cons.IH [OF rest] show ?thesis
    proof (elim disjE exE conjE)
      assume "cancel_in_origins i m = (False, m)"
        and "\<forall>p st. map_of m p = Some st \<longrightarrow> i \<notin> rt_id ` set (os_queued st)"
      then show ?thesis using False by (auto simp: e)
    next
      fix p st assume *: "map_of m p = Some st" "i \<in> rt_id ` set (os_queued st)"
        "cancel_in_origins i m = (True, AList.update p (st\<lparr>os_queued := remove_ticket i (os_queued st)\<rparr>) m)"
      moreover have "map_of m q = None" using fresh by (simp add: map_of_eq_None_iff)
      ultimately have "p \<noteq> q" by auto
      then show ?thesis using * False by (intro disjI2 exI [of _ p] exI [of _ st]) (simp add: e)
    qed
  qed
qed

lemma remove_ticket_keeps:
  "set (remove_ticket i ts) \<subseteq> set ts" "length (remove_ticket i ts) \<le> length ts"
  "distinct (map rt_id ts) \<Longrightarrow> distinct (map rt_id (remove_ticket i ts))"
  by (induction ts) auto

lemma cancel_keeps_inv:
  assumes inv: "admission_inv adm" and cancel: "cancel_queued i adm = (found, adm')"
  shows "admission_inv adm'"
proof -
  have books: "books_ok (map_of (ra_origins adm)) (ra_active adm) (ra_next_id adm)"
    and keys: "keys_distinct (ra_origins adm)"
    using inv by (simp_all add: admission_inv_def)
  from cancel_in_origins_cases [OF keys, of i] show ?thesis
  proof (elim disjE exE conjE)
    assume "cancel_in_origins i (ra_origins adm) = (False, ra_origins adm)"
    then show ?thesis using assms by (simp add: cancel_queued_def)
  next
    fix p st assume p: "map_of (ra_origins adm) p = Some st"
      and eq: "cancel_in_origins i (ra_origins adm)
        = (True, AList.update p (st\<lparr>os_queued := remove_ticket i (os_queued st)\<rparr>) (ra_origins adm))"
    have "origin_state_ok (st\<lparr>os_queued := remove_ticket i (os_queued st)\<rparr>)"
      using books_okD(1) [OF books p] remove_ticket_keeps [where i = i and ts = "os_queued st"]
      by (cases "os_queued st") (auto simp: origin_state_ok_def)
    then have "books_ok ((map_of (ra_origins adm))(p \<mapsto> st\<lparr>os_queued := remove_ticket i (os_queued st)\<rparr>))
        (ra_active adm) (ra_next_id adm)"
      using p books_okD(1) [OF books] remove_ticket_keeps(1) [of i "os_queued st"]
      by (intro books_ok_weaken [OF books]) (auto split: if_splits)
    then show ?thesis using cancel eq keys by (auto simp: cancel_queued_def admission_inv_def)
  qed
qed

lemma map_of_expire:
  "map_of (map (\<lambda>(p, st). (p, fst (expire_state now st))) m) p
    = map_option (\<lambda>st. fst (expire_state now st)) (map_of m p)"
  by (induction m) auto

lemma expire_keeps_inv:
  assumes inv: "admission_inv adm" and expire: "expire_queued now adm = (expired, adm')"
  shows "admission_inv adm'"
proof -
  have books: "books_ok (map_of (ra_origins adm)) (ra_active adm) (ra_next_id adm)"
    and keys: "keys_distinct (ra_origins adm)"
    using inv by (simp_all add: admission_inv_def)
  let ?m = "map (\<lambda>(p, st). (p, fst (expire_state now st))) (ra_origins adm)"
  have "books_ok (map_of ?m) (ra_active adm) (ra_next_id adm)"
  proof (rule books_ok_weaken [OF books])
    fix p st' assume "map_of ?m p = Some st'"
    then obtain st where "map_of (ra_origins adm) p = Some st" "st' = fst (expire_state now st)"
      by (auto simp: map_of_expire)
    then show "\<exists>st. map_of (ra_origins adm) p = Some st \<and> os_active st' = os_active st
        \<and> set (os_queued st') \<subseteq> set (os_queued st) \<and> origin_state_ok st'"
      using expire_state_keeps [where now = now and st = st] books_okD(1) [OF books] by blast
  qed (simp add: map_of_expire)
  moreover have "keys_distinct ?m"
    using keys by (simp add: keys_distinct_def comp_def split_def)
  ultimately show ?thesis using expire by (auto simp: expire_queued_def admission_inv_def)
qed

lemma admission_inv_start: "admission_inv new_read_admission"
  by (simp add: admission_inv_def books_ok_def new_read_admission_def queues_apart_def)

interpretation admission:
  transition_system "\<lambda>adm. adm = new_read_admission" admission_step admission_inv
  by unfold_locales
    (auto simp: admission_inv_start elim!: admission_stepE
      intro: admit_keeps_inv complete_keeps_inv cancel_keeps_inv expire_keeps_inv)

abbreviation admission_reachable :: "read_admission \<Rightarrow> bool" where
  "admission_reachable \<equiv> reach (\<lambda>adm. adm = new_read_admission) admission_step"

section \<open>The rate of an origin\<close>

text \<open>The tokens an origin can spend at an instant: those of its bucket once refilled, or a fresh one's.\<close>

definition allowance :: "read_admission \<Rightarrow> rpc_origin \<Rightarrow> instant \<Rightarrow> nat" where
  "allowance adm p t =
    (case map_of (ra_origins adm) p of None \<Rightarrow> BUCKET_CAPACITY | Some st \<Rightarrow> os_tokens (refill t st))"

fun admit_times :: "admission_event list \<Rightarrow> instant list" where
  "admit_times [] = []"
| "admit_times (AdmitEvent _ now _ _ # es) = now # admit_times es"
| "admit_times (_ # es) = admit_times es"

fun admits :: "rpc_origin \<Rightarrow> admission_event \<Rightarrow> bool" where
  "admits p (AdmitEvent q _ _ (Inr _)) = (q = p)"
| "admits p _ = False"

lemma refill_tokens:
  "os_tokens (refill t st) = min (os_tokens st + 32 * (t - os_refilled_at st)) BUCKET_CAPACITY"
proof -
  have nanos: "e mod 1000000000 + e div 1000000000 * TOKEN_UNITS = e" for e :: nat
    by (simp add: TOKEN_UNITS_def)
  have "os_tokens (refill t st)
      = min (os_tokens st + min (t - os_refilled_at st) 2000000000 * 32) BUCKET_CAPACITY"
    by (simp add: refill_def Let_def nanos REFILL_PER_NANOSECOND_def)
  then show ?thesis by (auto simp: min_def BUCKET_CAPACITY_def TOKEN_UNITS_def)
qed

lemma refill_no_overflow:
  \<comment> \<open>the source's \<open>u64\<close> computation of the refilled tokens stays below \<open>2 ^ 64\<close>\<close>
  assumes "os_tokens st \<le> BUCKET_CAPACITY"
  shows "os_tokens st + min (t - os_refilled_at st) (seconds 2) * REFILL_PER_NANOSECOND < 2 ^ 64"
  using assms by (auto simp: admission_constants min_def)

lemma allowance_later:
  "t \<le> t' \<Longrightarrow> allowance adm p t' \<le> allowance adm p t + 32 * (t' - t)"
  by (auto simp: allowance_def refill_tokens min_def split: option.split)

lemma allowance_le: "allowance adm p t \<le> BUCKET_CAPACITY"
  by (auto simp: allowance_def refill_tokens split: option.split)

lemma refill_idem: "refill t (refill t st) = refill t st"
  by (simp add: refill_def Let_def)

lemma refilled_at_refill: "t \<le> os_refilled_at (refill t st)"
  by (simp add: refill_def Let_def)

lemma entry_refilled: "t \<le> os_refilled_at (admission_entry p t adm)"
  if "keys_distinct (ra_origins adm)"
  using that
  by (auto simp: admission_entry_def map_of_refill_origins refilled_at_refill new_origin_state_def
      split: option.split)

lemma entry_tokens: "os_tokens (admission_entry p t adm) = allowance adm p t"
  if "keys_distinct (ra_origins adm)"
  using that
  by (auto simp: admission_entry_def map_of_refill_origins allowance_def new_origin_state_def
      idle_full_def split: option.split)

lemma allowance_refill_origins:
  "keys_distinct (ra_origins adm) \<Longrightarrow>
    (case map_of (refill_origins t (ra_origins adm)) p of
       None \<Rightarrow> BUCKET_CAPACITY | Some st \<Rightarrow> os_tokens (refill t st)) = allowance adm p t"
  by (auto simp: map_of_refill_origins allowance_def refill_idem idle_full_def split: option.split)

lemma allowance_admit:
  assumes keys: "keys_distinct (ra_origins adm)" and web: "web_origin p \<noteq> None"
    and admit: "admit_with_deadline q now deadline adm = (r, adm')"
  shows "allowance adm' p now + (if admits p (AdmitEvent q now deadline r) then TOKEN_UNITS else 0)
    = allowance adm p now"
proof (cases "deadline \<le> now \<or> checked_add (ra_next_id adm) 1 = None \<or> web_origin q = None")
  case True
  then show ?thesis using admit web
    by (auto simp: admit_with_deadline_def allowance_def split: if_splits option.splits)
next
  case False
  then obtain n' where n': "checked_add (ra_next_id adm) 1 = Some n'" by auto
  have le: "allowance adm q now \<le> BUCKET_CAPACITY" by (rule allowance_le)
  show ?thesis using admit False n' le
    by (auto simp: admit_with_deadline_def Let_def admission_entry_def [symmetric]
        allowance_def [of adm'] refill_tokens entry_refilled [OF keys] entry_tokens [OF keys]
        allowance_refill_origins [OF keys] split: if_splits)
qed

lemma allowance_other:
  assumes inv: "admission_inv adm" and step: "admission_step adm e adm'"
    and other: "\<forall>q now deadline r. e \<noteq> AdmitEvent q now deadline r"
  shows "allowance adm' p t = allowance adm p t"
  using step
proof (cases rule: admission_step.cases)
  case (step_admit q now deadline r)
  then show ?thesis using other by blast
next
  case (step_complete i now updates)
  show ?thesis
  proof (cases "ra_active adm i")
    case None
    then show ?thesis using step_complete by (simp add: complete_def)
  next
    case (Some q)
    then obtain st where q: "map_of (ra_origins adm) q = Some st"
      using inv books_ok_holder by (fastforce simp: admission_inv_def)
    then show ?thesis using complete_eq [OF inv Some q refl refl, of now] step_complete
      by (auto simp: allowance_def refill_tokens)
  qed
next
  case (step_cancel i found)
  then show ?thesis
    using cancel_in_origins_cases [of "ra_origins adm" i] inv
    by (auto simp: cancel_queued_def admission_inv_def allowance_def refill_tokens)
next
  case (step_expire now expired)
  then show ?thesis
    by (auto simp: expire_queued_def allowance_def map_of_expire expire_state_keeps refill_tokens
        split: option.split)
qed

lemma admissions_bounded:
  assumes "trace admission_step adm es adm'" "admission_inv adm" "web_origin p \<noteq> None"
    "sorted (t0 # admit_times es)" "\<forall>t \<in> set (admit_times es). t \<le> t1" "t0 \<le> t1"
  shows "length (filter (admits p) es) * TOKEN_UNITS \<le> allowance adm p t0 + 32 * (t1 - t0)"
  using assms
proof (induction arbitrary: t0 rule: trace.induct)
  case (trace_Nil adm)
  then show ?case by simp
next
  case (trace_Cons adm e adm1 es adm2)
  have inv1: "admission_inv adm1" using trace_Cons.hyps(1) trace_Cons.prems(1) by (rule admission.step_inv)
  show ?case
  proof (cases "\<exists>q now deadline r. e = AdmitEvent q now deadline r")
    case True
    then obtain q now deadline r where e: "e = AdmitEvent q now deadline r" by blast
    have now: "t0 \<le> now" "now \<le> t1" "sorted (now # admit_times es)"
      "\<forall>t \<in> set (admit_times es). t \<le> t1"
      using trace_Cons.prems by (auto simp: e)
    have "length (filter (admits p) es) * TOKEN_UNITS \<le> allowance adm1 p now + 32 * (t1 - now)"
      by (rule trace_Cons.IH [OF inv1 trace_Cons.prems(2) now(3,4,2)])
    moreover have "allowance adm1 p now + (if admits p e then TOKEN_UNITS else 0) = allowance adm p now"
      unfolding e
    proof (rule allowance_admit)
      show "keys_distinct (ra_origins adm)" using trace_Cons.prems(1) by (simp add: admission_inv_def)
      show "admit_with_deadline q now deadline adm = (r, adm1)"
        using trace_Cons.hyps(1) unfolding e by (auto elim: admission_stepE)
    qed (rule trace_Cons.prems(2))
    moreover have "allowance adm p now \<le> allowance adm p t0 + 32 * (now - t0)"
      by (rule allowance_later [OF now(1)])
    moreover have "32 * (now - t0) + 32 * (t1 - now) = 32 * (t1 - t0)" using now by simp
    ultimately show ?thesis by (simp split: if_splits)
  next
    case False
    then have "\<not> admits p e" "admit_times (e # es) = admit_times es" by (cases e; simp)+
    moreover have "allowance adm1 p t0 = allowance adm p t0"
      using allowance_other [OF trace_Cons.prems(1) trace_Cons.hyps(1)] False by blast
    ultimately show ?thesis using trace_Cons.IH [OF inv1, of t0] trace_Cons.prems(2-) by simp
  qed
qed

section \<open>Properties\<close>

text \<open>
  C37: In every reachable state the accounts of an origin agree with the tickets it holds: its count
  of active reads is the number of active tickets assigned to it and at most 32, its queue holds
  at most 64 tickets and is non-empty only when all 32 places are taken, and its bucket never
  exceeds 64 tokens.
\<close>

theorem admission_accounts:
  assumes "admission_reachable adm" "map_of (ra_origins adm) p = Some st"
  shows "os_active st = card {i. ra_active adm i = Some p} \<and> os_active st \<le> 32
    \<and> length (os_queued st) \<le> 64 \<and> (os_queued st \<noteq> [] \<longrightarrow> os_active st = 32)
    \<and> os_tokens st \<le> 64 * TOKEN_UNITS"
proof -
  have "books_ok (map_of (ra_origins adm)) (ra_active adm) (ra_next_id adm)"
    using admission.reach_inv [OF assms(1)] by (simp add: admission_inv_def)
  from books_okD(1,2) [OF this assms(2)] show ?thesis
    by (simp add: origin_state_ok_def holders_def ACTIVE_LIMIT_def QUEUE_LIMIT_def BUCKET_CAPACITY_def)
qed

definition dapp_a :: rpc_origin where "dapp_a = DappOrigin ''peer'' ''https://a.invalid''"

definition one_read :: read_admission where
  "one_read = snd (admit_with_deadline dapp_a 5 100 new_read_admission)"

lemma one_read_step:
  "admission_step new_read_admission
    (AdmitEvent dapp_a 5 100 (Inr (Ready \<lparr>rt_id = 0, rt_deadline = 100\<rparr>))) one_read"
  "ra_origins one_read = [(dapp_a, \<lparr>os_active = 1, os_queued = [], os_tokens = 63000000000,
    os_refilled_at = 5\<rparr>)]"
  "ra_active one_read = [0 \<mapsto> dapp_a]"
  by (auto intro!: step_admit simp: one_read_def new_read_admission_def admit_with_deadline_def
      dapp_a_def checked_add_def refill_origins_def retain_map_def List.map_filter_simps
      new_origin_state_def admission_constants)

lemma one_read_reachable: "admission_reachable one_read"
  by (rule reach_step [where step = admission_step, OF reach_start one_read_step(1)]) simp

lemma admission_accounts_witness: "card {i. ra_active one_read i = Some dapp_a} = 1"
  using admission_accounts [OF one_read_reachable, of dapp_a] by (simp add: one_read_step(2))

text \<open>
  C35: Completing a read never panics in a reachable state (the \<open>expect\<close> and the decrement of the
  count are safe). For an active ticket it expires exactly the overdue queued tickets of its origin,
  promotes the oldest of the remaining ones in order, leaves tickets queued only if all 32 places
  are taken again, and does not touch any other origin.
\<close>

theorem complete_promotes_in_order:
  assumes "admission_reachable adm" "ra_active adm i = Some p"
  shows "\<exists>st st' updates adm'.
    complete i now adm = Some (updates, adm')
    \<and> map_of (ra_origins adm) p = Some st \<and> map_of (ra_origins adm') p = Some st'
    \<and> up_expired updates = filter (\<lambda>t. rt_deadline t \<le> now) (os_queued st)
    \<and> up_ready updates @ os_queued st' = filter (\<lambda>t. now < rt_deadline t) (os_queued st)
    \<and> (os_queued st' \<noteq> [] \<longrightarrow> os_active st' = 32)
    \<and> os_active st' + 1 = os_active st + length (up_ready updates)
    \<and> (\<forall>t \<in> set (up_ready updates). ra_active adm' (rt_id t) = Some p)
    \<and> (\<forall>q. q \<noteq> p \<longrightarrow> map_of (ra_origins adm') q = map_of (ra_origins adm) q)"
proof -
  have inv: "admission_inv adm" using assms(1) by (rule admission.reach_inv)
  then have books: "books_ok (map_of (ra_origins adm)) (ra_active adm) (ra_next_id adm)"
    by (simp add: admission_inv_def)
  obtain st where p: "map_of (ra_origins adm) p = Some st"
    using books_ok_holder [OF books assms(2)] by blast
  note st = books_okD(1,2) [OF books p]
  have "holders (ra_active adm) p \<noteq> {}" using assms(2) by (auto simp: holders_def)
  then have pos: "0 < os_active st" using st(2) by (simp add: card_gt_0_iff)
  let ?live = "filter (\<lambda>t. \<not> rt_deadline t \<le> now) (os_queued st)"
  let ?k = "ACTIVE_LIMIT - (os_active st - 1)"
  have full: "os_active st - 1 + length (take ?k ?live) = 32" if "drop ?k ?live \<noteq> []"
    using that st(1) pos by (auto simp: origin_state_ok_def ACTIVE_LIMIT_def)
  show ?thesis
    using complete_eq [OF inv assms(2) p refl refl, of now] p pos full
    by (auto simp: assign_tickets_def not_le)
qed

lemma complete_promotes_in_order_witness:
  "\<exists>updates adm'. complete 0 7 one_read = Some (updates, adm') \<and> up_ready updates = []"
  using complete_promotes_in_order [OF one_read_reachable, of 0 dapp_a 7] by (auto simp: one_read_step)

text \<open>
  C10: The rate limit of an origin: over any run from a reachable state whose admission times do not
  decrease and lie between \<open>t0\<close> and \<open>t1\<close>, the number of reads of a web origin that are admitted, at
  once or queued, is at most 64 plus 32 for every second between them. Dropping full, idle buckets,
  cancelling and expiring give no allowance back.
\<close>

theorem admission_rate_bounded:
  assumes "admission_reachable adm" "trace admission_step adm es adm'" "web_origin p \<noteq> None"
    "sorted (t0 # admit_times es)" "\<forall>t \<in> set (admit_times es). t \<le> t1" "t0 \<le> t1"
  shows "length (filter (admits p) es) * TOKEN_UNITS \<le> 64 * TOKEN_UNITS + 32 * (t1 - t0)"
proof -
  have "length (filter (admits p) es) * TOKEN_UNITS \<le> allowance adm p t0 + 32 * (t1 - t0)"
    by (rule admissions_bounded [OF assms(2) admission.reach_inv [OF assms(1)] assms(3-6)])
  with allowance_le [of adm p t0] show ?thesis by (simp add: BUCKET_CAPACITY_def)
qed

lemma admission_rate_bounded_witness:
  "length (filter (admits dapp_a) [AdmitEvent dapp_a 5 100 (Inr (Ready \<lparr>rt_id = 0, rt_deadline = 100\<rparr>))])
      * TOKEN_UNITS \<le> 64 * TOKEN_UNITS + 32 * (5 - 5)"
  by (rule admission_rate_bounded [OF reach_start [where step = admission_step] trace_Cons [where step = admission_step, OF one_read_step(1) trace_Nil]])
    (simp_all add: dapp_a_def)

text \<open>
  The decision on a read. With a deadline ahead and ticket numbers left, a wallet read is ready at
  once and charges no origin. A read of a web origin is decided on the origin's allowance at that
  instant and its counts: below one token it is rate limited, with 32 active and 64 queued reads
  the queue is full, with fewer than 32 active reads it is ready, and otherwise it is queued.
\<close>

theorem admission_decision:
  assumes "admission_reachable adm" "now < deadline" "ra_next_id adm \<noteq> - 1"
  shows "fst (admit_with_deadline p now deadline adm) =
    (let ticket = \<lparr>rt_id = ra_next_id adm, rt_deadline = deadline\<rparr>;
         active = card {i. ra_active adm i = Some p};
         queued = (case map_of (ra_origins adm) p of None \<Rightarrow> 0 | Some st \<Rightarrow> length (os_queued st))
     in if web_origin p = None then Inr (Ready ticket)
        else if allowance adm p now < TOKEN_UNITS then Inl (RateLimited active queued)
        else if active < 32 then Inr (Ready ticket)
        else if queued < 64 then Inr (Queued ticket)
        else Inl (QueueFull active queued))"
proof -
  have inv: "admission_inv adm" using assms(1) by (rule admission.reach_inv)
  then have books: "books_ok (map_of (ra_origins adm)) (ra_active adm) (ra_next_id adm)"
    and keys: "keys_distinct (ra_origins adm)" by (simp_all add: admission_inv_def)
  have "unat (ra_next_id adm) \<noteq> unat (- 1 :: u64)" using assms(3) by (metis word_unat_eq_iff)
  moreover have "unat (- 1 :: u64) = 2 ^ 64 - 1"
    by (simp only: unsigned_minus_1_eq_mask) (simp add: mask_eq_exp_minus_1)
  moreover have "unat (ra_next_id adm) < 2 ^ 64" using unsigned_less [of "ra_next_id adm"] by simp
  ultimately have "unat (ra_next_id adm) + 1 < 2 ^ 64" by linarith
  then have id: "checked_add (ra_next_id adm) 1 = Some (ra_next_id adm + 1)"
    by (simp add: checked_add_def)
  have queued: "length (os_queued (admission_entry p now adm))
      = (case map_of (ra_origins adm) p of None \<Rightarrow> 0 | Some st \<Rightarrow> length (os_queued st))"
    using keys by (auto simp: admission_entry_def map_of_refill_origins new_origin_state_def
        refill_keeps idle_full_def split: option.split)
  have active: "os_active (admission_entry p now adm) = card {i. ra_active adm i = Some p}"
    using books_okD(2) [OF books_ok_entry [OF inv, of now p], of p] by (simp add: holders_def)
  show ?thesis using assms(2) id
    by (auto simp: admit_with_deadline_def Let_def admission_entry_def [symmetric] queued active
        entry_tokens [OF keys] ACTIVE_LIMIT_def QUEUE_LIMIT_def)
qed

lemma admission_decision_witness:
  "\<exists>t. fst (admit_with_deadline dapp_a 6 90 one_read) = Inr (Ready t)"
proof -
  have "ra_next_id one_read = 1"
    by (simp add: one_read_def new_read_admission_def admit_with_deadline_def dapp_a_def
        checked_add_def refill_origins_def retain_map_def List.map_filter_simps
        new_origin_state_def admission_constants)
  moreover have "{i. ra_active one_read i = Some dapp_a} = {0}"
    by (auto simp: one_read_step split: if_splits)
  moreover have "allowance one_read dapp_a 6 = 63000000032"
    by (simp add: allowance_def refill_tokens one_read_step BUCKET_CAPACITY_def TOKEN_UNITS_def)
  ultimately show ?thesis
    using admission_decision [OF one_read_reachable, of 6 90 dapp_a]
    by (simp add: one_read_step Let_def TOKEN_UNITS_def dapp_a_def)
qed

end
