(* ===== verification/FeeMonitor.thy ===== *)
theory FeeMonitor
  imports RpcOrigins
begin

text \<open>
  \<open>crates/broadcaster-monitor/src/state.rs\<close>: the fees that broadcasters announce. Every publisher
  (a Railgun address on a chain) owns one verified generation of fee rows, which is on display until
  its refresh instant; a newer announcement waits as the pending generation until then. A publisher
  is forgotten ten minutes after the highest expiration it has announced.

  The state is the source's \<open>MonitorState\<close>. Both of its hash maps are iterated over and are
  association lists. \<open>Arc<str>\<close> is a string, \<open>f64\<close> its bit pattern with the comparison of IEEE 754,
  the revision counter a 64-bit word that wraps as \<open>fetch_add\<close> does. The read-write lock around the
  state makes every method one step. The clocks are arguments, as in the source.
\<close>

section \<open>State\<close>

type_synonym f64 = "64 word"

definition f64_is_nan :: "f64 \<Rightarrow> bool" where
  "f64_is_nan x = (2047 * 2 ^ 52 < unat x mod 2 ^ 63)"

definition f64_eq :: "f64 \<Rightarrow> f64 \<Rightarrow> bool" where
  \<comment> \<open>a NaN equals nothing, and the two zeros are equal\<close>
  "f64_eq x y = (\<not> f64_is_nan x \<and> \<not> f64_is_nan y
    \<and> (x = y \<or> unat x mod 2 ^ 63 = 0 \<and> unat y mod 2 ^ 63 = 0))"

definition MAX_FEE_ANNOUNCEMENT_REFRESH_INTERVAL :: duration where
  "MAX_FEE_ANNOUNCEMENT_REFRESH_INTERVAL = seconds 60"

definition MAX_FEE_ANNOUNCEMENT_TTL :: duration where
  "MAX_FEE_ANNOUNCEMENT_TTL = seconds 1800"

definition FEE_PUBLISHER_EVICTION_GRACE :: duration where
  "FEE_PUBLISHER_EVICTION_GRACE = seconds 600"

definition MAX_FEE_PUBLISHERS_PER_CHAIN :: nat where
  "MAX_FEE_PUBLISHERS_PER_CHAIN = 128"

record fee_row_key =
  fk_chain_id :: u64
  fk_railgun_address :: string
  fk_token_address :: address

record fee_publisher_key =
  pk_chain_id :: u64
  pk_railgun_address :: string

record fee_row =
  fr_chain_id :: u64
  fr_railgun_address :: string
  fr_token_address :: address
  fr_fee :: u256
  fr_fees_id :: string
  fr_fee_expiration :: system_time
  fr_available_wallets :: u32
  fr_version :: string
  fr_relay_adapt :: "address option"
  fr_relay_adapt_7702 :: "address option"
  fr_required_poi_list_keys :: "string list"
  fr_identifier :: "string option"
  fr_last_seen :: system_time
  fr_reliability :: f64

text \<open>The derived \<open>PartialEq\<close> of \<open>FeeRow\<close>.\<close>

definition fee_row_eq :: "fee_row \<Rightarrow> fee_row \<Rightarrow> bool" where
  "fee_row_eq a b \<longleftrightarrow>
    a\<lparr>fr_reliability := 0\<rparr> = b\<lparr>fr_reliability := 0\<rparr>
    \<and> f64_eq (fr_reliability a) (fr_reliability b)"

record pending_fee_announcement =
  pf_signed_expiration :: system_time
  pf_rows :: "fee_row list"

record active_verified_fee_generation =
  af_signed_expiration :: system_time
  af_refresh_at :: instant

record fee_publisher_state =
  ps_active :: active_verified_fee_generation
  ps_pending :: "pending_fee_announcement option"
  ps_signed_expiration_high_water :: system_time

datatype fee_announcement_admission =
    Rejected (admission_revision: "u64 option")
  | Pending (admission_deadline: instant) (admission_revision: "u64 option")
  | Applied (admission_revision: "u64 option") (admission_rows: nat)

definition visible_rows :: "fee_announcement_admission \<Rightarrow> nat" where
  "visible_rows a = (case a of Applied _ rows \<Rightarrow> rows | Rejected _ \<Rightarrow> 0 | Pending _ _ \<Rightarrow> 0)"

record peer_summary =
  pe_connected :: nat
  pe_known :: nat
  pe_dialing :: nat
  pe_lightpush_capable :: nat
  pe_peer_exchange_capable :: nat
  pe_network_label :: string
  pe_network_degraded :: bool

record peer_row =
  pr_peer_id :: string
  pr_addrs :: "string list"
  pr_connected :: bool
  pr_dialing :: bool
  pr_supports_lightpush_v3 :: bool
  pr_supports_peer_exchange :: bool
  pr_supports_filter :: bool
  pr_dial_failures :: u32

definition default_peer_summary :: peer_summary where
  "default_peer_summary = \<lparr>pe_connected = 0, pe_known = 0, pe_dialing = 0,
    pe_lightpush_capable = 0, pe_peer_exchange_capable = 0, pe_network_label = [],
    pe_network_degraded = False\<rparr>"

record monitor_state =
  ms_fees :: "(fee_row_key, fee_row) hash_map"
  ms_fee_publishers :: "(fee_publisher_key, fee_publisher_state) hash_map"
  ms_peer_summary :: peer_summary
  ms_peer_rows :: "peer_row list"
  ms_rev :: u64
  ms_fee_subscription_started :: "instant option"

definition new_monitor_state :: monitor_state where
  "new_monitor_state = \<lparr>ms_fees = [], ms_fee_publishers = [],
    ms_peer_summary = default_peer_summary, ms_peer_rows = [], ms_rev = 0,
    ms_fee_subscription_started = None\<rparr>"

definition row_key :: "fee_row \<Rightarrow> fee_row_key" where
  "row_key row = \<lparr>fk_chain_id = fr_chain_id row, fk_railgun_address = fr_railgun_address row,
    fk_token_address = fr_token_address row\<rparr>"

definition publisher_of :: "fee_row_key \<Rightarrow> fee_publisher_key" where
  "publisher_of key = \<lparr>pk_chain_id = fk_chain_id key, pk_railgun_address = fk_railgun_address key\<rparr>"

section \<open>Operations\<close>

definition fee_refresh_deadline :: "system_time \<Rightarrow> system_time \<Rightarrow> instant \<Rightarrow> instant option" where
  "fee_refresh_deadline signed_expiration wall_now monotonic_now =
    (if signed_expiration < wall_now then None
     else
       let ttl = signed_expiration - wall_now in
       if MAX_FEE_ANNOUNCEMENT_TTL < ttl then None
       else Some (monotonic_now + min (ttl div 3) MAX_FEE_ANNOUNCEMENT_REFRESH_INTERVAL))"

definition start_fee_subscription :: "instant \<Rightarrow> monitor_state \<Rightarrow> monitor_state" where
  "start_fee_subscription now ms = ms\<lparr>ms_fee_subscription_started := Some now\<rparr>"

definition bump_rev :: "monitor_state \<Rightarrow> u64 \<times> monitor_state" where
  "bump_rev ms = (ms_rev ms + 1, ms\<lparr>ms_rev := ms_rev ms + 1\<rparr>)"

definition upsert_fee :: "fee_row \<Rightarrow> monitor_state \<Rightarrow> u64 \<times> monitor_state" where
  "upsert_fee row ms =
    (if map_of (ms_fee_publishers ms) (publisher_of (row_key row)) \<noteq> None then (ms_rev ms, ms)
     else if (case map_of (ms_fees ms) (row_key row) of
                Some old \<Rightarrow> fee_row_eq old row | None \<Rightarrow> False)
     then (ms_rev ms, ms)
     else bump_rev (ms\<lparr>ms_fees := AList.update (row_key row) row (ms_fees ms)\<rparr>))"

definition publisher_expired :: "system_time \<Rightarrow> fee_publisher_state \<Rightarrow> bool" where
  "publisher_expired wall_now st \<longleftrightarrow>
    ps_signed_expiration_high_water st \<le> wall_now
    \<and> FEE_PUBLISHER_EVICTION_GRACE < wall_now - ps_signed_expiration_high_water st"

definition evict_expired_fee_publishers ::
    "system_time \<Rightarrow> monitor_state \<Rightarrow> u64 option \<times> monitor_state" where
  "evict_expired_fee_publishers wall_now ms =
    (let evicted = map fst (filter (\<lambda>(_, st). publisher_expired wall_now st) (ms_fee_publishers ms));
         publishers = filter (\<lambda>(_, st). \<not> publisher_expired wall_now st) (ms_fee_publishers ms)
     in if evicted = [] then (None, ms\<lparr>ms_fee_publishers := publishers\<rparr>)
        else
          let fees = filter (\<lambda>(key, _). publisher_of key \<notin> set evicted) (ms_fees ms);
              ms1 = ms\<lparr>ms_fee_publishers := publishers, ms_fees := fees\<rparr>
          in if length fees \<noteq> length (ms_fees ms)
             then (case bump_rev ms1 of (revision, ms2) \<Rightarrow> (Some revision, ms2))
             else (None, ms1))"

text \<open>
  \<open>tokens\<close> is the set of \<open>candidate_rows_are_consistent\<close>; the evaluation order of \<open>&&\<close> decides which
  tokens it gets, and the first inconsistent row ends the loop.
\<close>

fun rows_consistent ::
    "u64 \<Rightarrow> string \<Rightarrow> system_time \<Rightarrow> address list \<Rightarrow> fee_row list \<Rightarrow> bool" where
  "rows_consistent chain_id railgun_address signed_expiration tokens [] = True"
| "rows_consistent chain_id railgun_address signed_expiration tokens (row # rows) =
    (fr_chain_id row = chain_id \<and> fr_railgun_address row = railgun_address
     \<and> fr_fee_expiration row = signed_expiration \<and> fr_token_address row \<notin> set tokens
     \<and> rows_consistent chain_id railgun_address signed_expiration
         (fr_token_address row # tokens) rows)"

definition candidate_rows_are_consistent ::
    "u64 \<Rightarrow> string \<Rightarrow> system_time \<Rightarrow> fee_row list \<Rightarrow> bool" where
  "candidate_rows_are_consistent chain_id railgun_address signed_expiration rows =
    rows_consistent chain_id railgun_address signed_expiration [] rows"

definition apply_fee_announcement ::
    "u64 \<Rightarrow> string \<Rightarrow> fee_row list \<Rightarrow> monitor_state \<Rightarrow> fee_announcement_admission \<times> monitor_state" where
  "apply_fee_announcement chain_id railgun_address rows ms =
    (let publisher = \<lparr>pk_chain_id = chain_id, pk_railgun_address = railgun_address\<rparr>;
         existing_rows = length (filter (\<lambda>(key, _). publisher_of key = publisher) (ms_fees ms));
         unchanged = (existing_rows = length rows
           \<and> list_all (\<lambda>row.
               case map_of (ms_fees ms) \<lparr>fk_chain_id = chain_id, fk_railgun_address = railgun_address,
                      fk_token_address = fr_token_address row\<rparr> of
                 Some old \<Rightarrow> fee_row_eq old row | None \<Rightarrow> False) rows)
     in if unchanged then (Applied None (length rows), ms)
        else
          let kept = filter (\<lambda>(key, _). publisher_of key \<noteq> publisher) (ms_fees ms);
              fees = fold (\<lambda>row. AList.update (row_key row) row) rows kept
          in case bump_rev (ms\<lparr>ms_fees := fees\<rparr>) of
               (revision, ms1) \<Rightarrow> (Applied (Some revision) (length rows), ms1))"

definition admit_unevicted_fee_announcement ::
    "u64 \<Rightarrow> string \<Rightarrow> system_time \<Rightarrow> system_time \<Rightarrow> instant \<Rightarrow> fee_row list \<Rightarrow> monitor_state
      \<Rightarrow> fee_announcement_admission \<times> monitor_state" where
  "admit_unevicted_fee_announcement chain_id railgun_address signed_expiration wall_now
      monotonic_now rows ms =
    (if \<not> candidate_rows_are_consistent chain_id railgun_address signed_expiration rows
     then (Rejected None, ms)
     else if signed_expiration \<le> wall_now then (Rejected None, ms)
     else
       (case fee_refresh_deadline signed_expiration wall_now monotonic_now of
          None \<Rightarrow> (Rejected None, ms)
        | Some refresh_at \<Rightarrow>
            let publisher_key = \<lparr>pk_chain_id = chain_id, pk_railgun_address = railgun_address\<rparr>;
                candidate = \<lparr>pf_signed_expiration = signed_expiration, pf_rows = rows\<rparr>;
                generation = \<lparr>af_signed_expiration = signed_expiration, af_refresh_at = refresh_at\<rparr>
            in
            (case map_of (ms_fee_publishers ms) publisher_key of
               Some publisher \<Rightarrow>
                 if signed_expiration \<le> ps_signed_expiration_high_water publisher
                 then (Rejected None, ms)
                 else if wall_now < af_signed_expiration (ps_active publisher)
                   \<and> monotonic_now < af_refresh_at (ps_active publisher)
                 then
                   (Pending (af_refresh_at (ps_active publisher)) None,
                    ms\<lparr>ms_fee_publishers := AList.update publisher_key
                        (publisher\<lparr>ps_pending := Some candidate,
                           ps_signed_expiration_high_water := signed_expiration\<rparr>)
                        (ms_fee_publishers ms)\<rparr>)
                 else
                   apply_fee_announcement chain_id railgun_address rows
                     (ms\<lparr>ms_fee_publishers := AList.update publisher_key
                         \<lparr>ps_active = generation, ps_pending = None,
                          ps_signed_expiration_high_water = signed_expiration\<rparr>
                         (ms_fee_publishers ms)\<rparr>)
             | None \<Rightarrow>
                 if MAX_FEE_PUBLISHERS_PER_CHAIN
                     \<le> length (filter (\<lambda>(key, _). pk_chain_id key = chain_id) (ms_fee_publishers ms))
                 then (Rejected None, ms)
                 else
                   apply_fee_announcement chain_id railgun_address rows
                     (ms\<lparr>ms_fee_publishers := AList.update publisher_key
                         \<lparr>ps_active = generation, ps_pending = None,
                          ps_signed_expiration_high_water = signed_expiration\<rparr>
                         (ms_fee_publishers ms)\<rparr>))))"

definition with_revision ::
    "u64 option \<Rightarrow> fee_announcement_admission \<Rightarrow> fee_announcement_admission" where
  "with_revision evicted a =
    (let revision = (case admission_revision a of Some r \<Rightarrow> Some r | None \<Rightarrow> evicted) in
     case a of
       Rejected _ \<Rightarrow> Rejected revision
     | Pending deadline _ \<Rightarrow> Pending deadline revision
     | Applied _ rows \<Rightarrow> Applied revision rows)"

definition admit_fee_announcement ::
    "u64 \<Rightarrow> string \<Rightarrow> system_time \<Rightarrow> system_time \<Rightarrow> instant \<Rightarrow> fee_row list \<Rightarrow> monitor_state
      \<Rightarrow> fee_announcement_admission \<times> monitor_state" where
  "admit_fee_announcement chain_id railgun_address signed_expiration wall_now monotonic_now rows ms =
    (case evict_expired_fee_publishers wall_now ms of
       (evicted, ms1) \<Rightarrow>
         (case admit_unevicted_fee_announcement chain_id railgun_address signed_expiration wall_now
                 monotonic_now rows ms1 of
            (admission, ms2) \<Rightarrow> (with_revision evicted admission, ms2)))"

definition next_pending_fee_announcement_deadline :: "monitor_state \<Rightarrow> instant option" where
  "next_pending_fee_announcement_deadline ms =
    (let deadlines = map (\<lambda>(_, st). af_refresh_at (ps_active st))
           (filter (\<lambda>(_, st). ps_pending st \<noteq> None) (ms_fee_publishers ms))
     in if deadlines = [] then None else Some (Min (set deadlines)))"

definition due :: "instant \<Rightarrow> fee_publisher_state \<Rightarrow> bool" where
  "due monotonic_now st \<longleftrightarrow> ps_pending st \<noteq> None \<and> af_refresh_at (ps_active st) \<le> monotonic_now"

text \<open>One publisher of the loop of \<open>promote_due_fee_announcements\<close>.\<close>

definition promote_publisher ::
    "instant \<Rightarrow> system_time \<Rightarrow> fee_publisher_key \<Rightarrow> monitor_state \<Rightarrow> u64 list \<times> monitor_state" where
  "promote_publisher monotonic_now wall_now publisher_key ms =
    (case map_of (ms_fee_publishers ms) publisher_key of
       None \<Rightarrow> ([], ms)
     | Some publisher \<Rightarrow>
         (case ps_pending publisher of
            None \<Rightarrow> ([], ms)
          | Some candidate \<Rightarrow>
              let taken = publisher\<lparr>ps_pending := None\<rparr>;
                  put = (\<lambda>st. ms\<lparr>ms_fee_publishers :=
                    AList.update publisher_key st (ms_fee_publishers ms)\<rparr>)
              in if pf_signed_expiration candidate \<le> wall_now then ([], put taken)
              else
                (case fee_refresh_deadline (pf_signed_expiration candidate) wall_now monotonic_now of
                   None \<Rightarrow> ([], put taken)
                 | Some refresh_at \<Rightarrow>
                     (case apply_fee_announcement (pk_chain_id publisher_key)
                             (pk_railgun_address publisher_key) (pf_rows candidate)
                             (put (taken\<lparr>ps_active :=
                               \<lparr>af_signed_expiration = pf_signed_expiration candidate,
                                af_refresh_at = refresh_at\<rparr>\<rparr>)) of
                        (Applied (Some revision) _, ms1) \<Rightarrow> ([revision], ms1)
                      | (_, ms1) \<Rightarrow> ([], ms1)))))"

fun promote_publishers ::
    "instant \<Rightarrow> system_time \<Rightarrow> fee_publisher_key list \<Rightarrow> monitor_state \<Rightarrow> u64 list \<times> monitor_state" where
  "promote_publishers monotonic_now wall_now [] ms = ([], ms)"
| "promote_publishers monotonic_now wall_now (key # keys) ms =
    (case promote_publisher monotonic_now wall_now key ms of
       (revisions, ms1) \<Rightarrow>
         (case promote_publishers monotonic_now wall_now keys ms1 of
            (revisions', ms2) \<Rightarrow> (revisions @ revisions', ms2)))"

definition promote_due_fee_announcements ::
    "instant \<Rightarrow> system_time \<Rightarrow> monitor_state \<Rightarrow> u64 list \<times> monitor_state" where
  "promote_due_fee_announcements monotonic_now wall_now ms =
    promote_publishers monotonic_now wall_now
      (map fst (filter (\<lambda>(_, st). due monotonic_now st) (ms_fee_publishers ms))) ms"

definition set_peers :: "peer_summary \<Rightarrow> peer_row list \<Rightarrow> monitor_state \<Rightarrow> u64 option \<times> monitor_state" where
  "set_peers summary rows ms =
    (if ms_peer_summary ms = summary \<and> ms_peer_rows ms = rows then (None, ms)
     else (case bump_rev (ms\<lparr>ms_peer_summary := summary, ms_peer_rows := rows\<rparr>) of
             (revision, ms1) \<Rightarrow> (Some revision, ms1)))"

definition clear :: "monitor_state \<Rightarrow> u64 option \<times> monitor_state" where
  "clear ms =
    (let visible_state_changed = (ms_fees ms \<noteq> [] \<or> ms_peer_summary ms \<noteq> default_peer_summary
           \<or> ms_peer_rows ms \<noteq> []);
         ms1 = ms\<lparr>ms_fees := [], ms_fee_publishers := [], ms_peer_summary := default_peer_summary,
           ms_peer_rows := []\<rparr>
     in if \<not> visible_state_changed \<and> ms_fee_publishers ms = [] then (None, ms)
        else if visible_state_changed
        then (case bump_rev ms1 of (revision, ms2) \<Rightarrow> (Some revision, ms2))
        else (None, ms1))"

definition fee_rows :: "monitor_state \<Rightarrow> fee_row list" where
  "fee_rows ms = map snd (ms_fees ms)"

text \<open>The watch channel of \<open>publish_revision\<close>: the new value, and whether receivers are woken.\<close>

definition publish_revision :: "u64 \<Rightarrow> u64 \<Rightarrow> bool \<times> u64" where
  "publish_revision current revision =
    (if revision \<le> current then (False, current) else (True, revision))"

section \<open>Steps\<close>

datatype monitor_event =
    UpsertFee fee_row
  | Announce fee_publisher_key system_time system_time instant fee_announcement_admission
  | PromoteDue instant system_time
  | SetPeers
  | ClearMonitor
  | StartSubscription

inductive monitor_step :: "monitor_state \<Rightarrow> monitor_event \<Rightarrow> monitor_state \<Rightarrow> bool" where
  step_upsert: "upsert_fee row ms = (r, ms') \<Longrightarrow> monitor_step ms (UpsertFee row) ms'"
| step_announce: "admit_fee_announcement (pk_chain_id p) (pk_railgun_address p) signed_expiration
      wall_now monotonic_now rows ms = (a, ms')
    \<Longrightarrow> monitor_step ms (Announce p signed_expiration wall_now monotonic_now a) ms'"
| step_promote: "promote_due_fee_announcements monotonic_now wall_now ms = (rs, ms')
    \<Longrightarrow> monitor_step ms (PromoteDue monotonic_now wall_now) ms'"
| step_peers: "set_peers summary rows ms = (r, ms') \<Longrightarrow> monitor_step ms SetPeers ms'"
| step_clear: "clear ms = (r, ms') \<Longrightarrow> monitor_step ms ClearMonitor ms'"
| step_subscription: "ms' = start_fee_subscription now ms \<Longrightarrow> monitor_step ms StartSubscription ms'"

inductive_cases monitor_stepE: "monitor_step ms e ms'"

section \<open>What one publisher shows\<close>

abbreviation shown :: "monitor_state \<Rightarrow> fee_row_key \<rightharpoonup> fee_row" where
  "shown ms \<equiv> map_of (ms_fees ms)"

abbreviation publishers :: "monitor_state \<Rightarrow> fee_publisher_key \<rightharpoonup> fee_publisher_state" where
  "publishers ms \<equiv> map_of (ms_fee_publishers ms)"

text \<open>Identical rows, or rows that the source's comparison does not tell apart.\<close>

definition same_row :: "fee_row option \<Rightarrow> fee_row option \<Rightarrow> bool" where
  "same_row a b \<longleftrightarrow> a = b \<or> (\<exists>x y. a = Some x \<and> b = Some y \<and> fee_row_eq x y)"

definition rows_map :: "fee_row list \<Rightarrow> fee_row_key \<rightharpoonup> fee_row" where
  "rows_map rows = map_of (map (\<lambda>r. (row_key r, r)) rows)"

lemma row_key_eq [simp]:
  "row_key r = \<lparr>fk_chain_id = c, fk_railgun_address = a, fk_token_address = t\<rparr>
    \<longleftrightarrow> fr_chain_id r = c \<and> fr_railgun_address r = a \<and> fr_token_address r = t"
  by (simp add: row_key_def)

lemma publisher_of_row_key:
  "publisher_of (row_key r) = p \<longleftrightarrow> fr_chain_id r = pk_chain_id p \<and> fr_railgun_address r = pk_railgun_address p"
  by (cases p) (simp add: publisher_of_def row_key_def)

lemma rows_consistent_iff:
  "rows_consistent c a e ts rows \<longleftrightarrow>
    (\<forall>r \<in> set rows. publisher_of (row_key r) = \<lparr>pk_chain_id = c, pk_railgun_address = a\<rparr>
        \<and> fr_fee_expiration r = e \<and> fr_token_address r \<notin> set ts)
    \<and> distinct (map fr_token_address rows)"
proof (induction rows arbitrary: ts)
  case Nil
  then show ?case by simp
next
  case (Cons r rows)
  have apart: "fr_token_address r \<notin> fr_token_address ` set rows
      \<longleftrightarrow> (\<forall>x \<in> set rows. fr_token_address x \<noteq> fr_token_address r)"
    by (auto simp: image_iff)
  show ?case by (simp only: rows_consistent.simps Cons publisher_of_row_key list.set list.map
      distinct.simps set_map apart ball_simps simp_thms insert_iff de_Morgan_disj ball_conj_distrib
      fee_publisher_key.simps) blast
qed

definition generation :: "fee_publisher_key \<Rightarrow> system_time \<Rightarrow> fee_row list \<Rightarrow> bool" where
  "generation p e rows \<longleftrightarrow>
    (\<forall>r \<in> set rows. publisher_of (row_key r) = p \<and> fr_fee_expiration r = e)
    \<and> distinct (map row_key rows)"

lemma consistent_generation:
  assumes "candidate_rows_are_consistent (pk_chain_id p) (pk_railgun_address p) e rows"
  shows "generation p e rows"
proof -
  have rows: "\<forall>r \<in> set rows. publisher_of (row_key r) = p \<and> fr_fee_expiration r = e"
    and tokens: "distinct (map fr_token_address rows)"
    using assms by (simp_all add: candidate_rows_are_consistent_def rows_consistent_iff)
  have "map fr_token_address rows = map fk_token_address (map row_key rows)"
    by (simp add: row_key_def)
  with tokens have "distinct (map row_key rows)" by (metis distinct_map)
  with rows show ?thesis by (simp add: generation_def)
qed

lemma map_of_fold_rows:
  "distinct (map row_key rows) \<Longrightarrow>
    map_of (fold (\<lambda>r. AList.update (row_key r) r) rows m) = map_of m ++ rows_map rows"
proof (induction rows arbitrary: m)
  case Nil
  then show ?case by (simp add: rows_map_def)
next
  case (Cons r rs)
  then have "rows_map rs (row_key r) = None" by (auto simp: rows_map_def map_of_eq_None_iff)
  moreover have "rows_map (r # rs) = (rows_map rs)(row_key r \<mapsto> r)" by (simp add: rows_map_def)
  ultimately show ?case using Cons
    by (auto simp: fun_eq_iff map_add_def split: option.split)
qed

lemma keys_distinct_fold_rows:
  "keys_distinct m \<Longrightarrow> keys_distinct (fold (\<lambda>r. AList.update (row_key r) r) rows m)"
  by (induction rows arbitrary: m) auto

lemma rows_map_Some:
  "distinct (map row_key rows) \<Longrightarrow> rows_map rows k = Some r \<longleftrightarrow> r \<in> set rows \<and> row_key r = k"
  by (auto simp: rows_map_def map_of_eq_Some_iff comp_def)

lemma rows_map_None: "rows_map rows k = None \<longleftrightarrow> k \<notin> row_key ` set rows"
  by (simp add: rows_map_def map_of_eq_None_iff image_image)

lemma publisher_key_eta [simp]:
  "\<lparr>pk_chain_id = pk_chain_id p, pk_railgun_address = pk_railgun_address p\<rparr> = p"
  by (cases p) simp

text \<open>
  Whichever way \<open>apply_fee_announcement\<close> goes, the publisher shows the candidate's rows afterwards and
  nothing else, and nobody else's rows change.
\<close>

definition shows_rows :: "monitor_state \<Rightarrow> fee_publisher_key \<Rightarrow> fee_row list \<Rightarrow> monitor_state \<Rightarrow> bool" where
  "shows_rows ms p rows ms' \<longleftrightarrow>
    (\<forall>k. if publisher_of k = p then same_row (shown ms' k) (rows_map rows k) else shown ms' k = shown ms k)"

lemma apply_unchanged_keys:
  assumes keys: "keys_distinct (ms_fees ms)" and gen: "generation p e rows"
    and count: "length (filter (\<lambda>(k, _). publisher_of k = p) (ms_fees ms)) = length rows"
    and all: "\<forall>r \<in> set rows. shown ms (row_key r) \<noteq> None" and k: "publisher_of k = p" "shown ms k \<noteq> None"
  shows "k \<in> row_key ` set rows"
proof -
  let ?K = "{k. shown ms k \<noteq> None \<and> publisher_of k = p}"
  have "?K \<subseteq> fst ` set (ms_fees ms)" by (auto simp: map_of_eq_None_iff)
  then have fin: "finite ?K" by (rule finite_subset) simp
  have "card (set (map row_key rows)) = length rows"
    using gen distinct_card [of "map row_key rows"] by (simp add: generation_def)
  then have "card (row_key ` set rows) = card ?K"
    using count length_filter_keys [OF keys, of "\<lambda>k. publisher_of k = p"] by simp
  moreover have "row_key ` set rows \<subseteq> ?K" using all gen by (auto simp: generation_def)
  ultimately have "row_key ` set rows = ?K" by (intro card_subset_eq [OF fin])
  with k show ?thesis by simp
qed

lemma row_key_publisher:
  "publisher_of (row_key r) = p \<Longrightarrow>
    \<lparr>fk_chain_id = pk_chain_id p, fk_railgun_address = pk_railgun_address p, fk_token_address = fr_token_address r\<rparr>
      = row_key r"
  unfolding publisher_of_row_key by (simp add: row_key_def)

lemma apply_fee_announcement_cases:
  assumes keys: "keys_distinct (ms_fees ms)" and gen: "generation p e rows"
    and res: "apply_fee_announcement (pk_chain_id p) (pk_railgun_address p) rows ms = (a, ms')"
  shows "(a = Applied None (length rows) \<and> ms' = ms \<or>
      a = Applied (Some (ms_rev ms + 1)) (length rows) \<and> ms_rev ms' = ms_rev ms + 1)
    \<and> ms_fee_publishers ms' = ms_fee_publishers ms \<and> keys_distinct (ms_fees ms') \<and> shows_rows ms p rows ms'"
proof -
  have keq: "\<lparr>fk_chain_id = pk_chain_id p, fk_railgun_address = pk_railgun_address p,
      fk_token_address = fr_token_address r\<rparr> = row_key r" if "r \<in> set rows" for r
    using gen that by (simp add: generation_def row_key_publisher)
  let ?same = "\<lambda>r. case shown ms (row_key r) of Some old \<Rightarrow> fee_row_eq old r | None \<Rightarrow> False"
  let ?unchanged = "length (filter (\<lambda>(k, _). publisher_of k = p) (ms_fees ms)) = length rows
      \<and> list_all ?same rows"
  have eq: "apply_fee_announcement (pk_chain_id p) (pk_railgun_address p) rows ms =
    (if ?unchanged then (Applied None (length rows), ms)
     else (Applied (Some (ms_rev ms + 1)) (length rows),
       ms\<lparr>ms_fees := fold (\<lambda>row. AList.update (row_key row) row) rows
            (filter (\<lambda>(key, _). publisher_of key \<noteq> p) (ms_fees ms)), ms_rev := ms_rev ms + 1\<rparr>))"
    by (simp add: apply_fee_announcement_def Let_def bump_rev_def keq list_all_iff)
  show ?thesis
  proof (cases ?unchanged)
    case True
    have all: "\<forall>r \<in> set rows. shown ms (row_key r) \<noteq> None"
      using True by (auto simp: list_all_iff split: option.splits)
    have "same_row (shown ms k) (rows_map rows k)" if k: "publisher_of k = p" for k
    proof (cases "shown ms k")
      case None
      then have "k \<notin> row_key ` set rows" using True by (auto simp: list_all_iff)
      with None show ?thesis by (simp add: same_row_def rows_map_None [symmetric])
    next
      case (Some old)
      have "k \<in> row_key ` set rows"
        by (rule apply_unchanged_keys [OF keys gen _ all k]) (use True Some in auto)
      then obtain r where r: "r \<in> set rows" "row_key r = k" by blast
      then have "rows_map rows k = Some r" using gen by (simp add: rows_map_Some generation_def)
      with Some r True show ?thesis by (auto simp: same_row_def list_all_iff)
    qed
    then have "shows_rows ms p rows ms" by (simp add: shows_rows_def)
    moreover have "a = Applied None (length rows)" "ms' = ms"
      using res unfolding eq if_P [OF True] by simp_all
    ultimately show ?thesis using keys by simp
  next
    case False
    let ?kept = "filter (\<lambda>(key, _). publisher_of key \<noteq> p) (ms_fees ms)"
    have a: "a = Applied (Some (ms_rev ms + 1)) (length rows)"
      and ms': "ms' = ms\<lparr>ms_fees := fold (\<lambda>row. AList.update (row_key row) row) rows ?kept,
        ms_rev := ms_rev ms + 1\<rparr>"
      using res unfolding eq if_not_P [OF False] by simp_all
    have dist: "distinct (map row_key rows)" using gen by (simp add: generation_def)
    have now: "shown ms' k = (map_of ?kept ++ rows_map rows) k" for k
      by (simp add: ms' map_of_fold_rows [OF dist])
    have kept: "map_of ?kept k = (if publisher_of k = p then None else shown ms k)" for k
      using map_of_filter [OF keys, of "\<lambda>k _. publisher_of k \<noteq> p"] by (simp split: option.split)
    have "rows_map rows k = None" if "publisher_of k \<noteq> p" for k
      using gen that by (auto simp: rows_map_None generation_def)
    then have "shows_rows ms p rows ms'"
      by (simp add: shows_rows_def now map_add_def kept same_row_def split: option.split)
    moreover have "keys_distinct (ms_fees ms')"
      using keys by (simp add: ms' keys_distinct_fold_rows)
    ultimately show ?thesis by (simp add: a ms')
  qed
qed

lemma shows_rowsD:
  assumes "shows_rows ms p rows ms'"
  shows "publisher_of k = p \<Longrightarrow> same_row (shown ms' k) (rows_map rows k)"
    and "publisher_of k \<noteq> p \<Longrightarrow> shown ms' k = shown ms k"
  using assms unfolding shows_rows_def by presburger+

section \<open>The invariant\<close>

definition publisher_ok :: "fee_publisher_key \<Rightarrow> fee_publisher_state \<Rightarrow> bool" where
  "publisher_ok p st \<longleftrightarrow>
    af_signed_expiration (ps_active st) \<le> ps_signed_expiration_high_water st
    \<and> (\<forall>c. ps_pending st = Some c \<longrightarrow>
         af_signed_expiration (ps_active st) < pf_signed_expiration c
         \<and> pf_signed_expiration c = ps_signed_expiration_high_water st
         \<and> generation p (pf_signed_expiration c) (pf_rows c))"

definition chain_publishers :: "(fee_publisher_key \<rightharpoonup> fee_publisher_state) \<Rightarrow> u64 \<Rightarrow> fee_publisher_key set" where
  "chain_publishers m c = {p. m p \<noteq> None \<and> pk_chain_id p = c}"

definition shows_active :: "monitor_state \<Rightarrow> fee_publisher_key \<Rightarrow> fee_publisher_state \<Rightarrow> bool" where
  "shows_active ms p st \<longleftrightarrow> (\<forall>k r. shown ms k = Some r \<longrightarrow> publisher_of k = p
    \<longrightarrow> fr_fee_expiration r = af_signed_expiration (ps_active st))"

definition monitor_inv :: "monitor_state \<Rightarrow> bool" where
  "monitor_inv ms \<longleftrightarrow>
    keys_distinct (ms_fees ms) \<and> keys_distinct (ms_fee_publishers ms)
    \<and> (\<forall>k r. shown ms k = Some r \<longrightarrow> row_key r = k)
    \<and> (\<forall>p st. publishers ms p = Some st \<longrightarrow> publisher_ok p st \<and> shows_active ms p st)
    \<and> (\<forall>c. card (chain_publishers (publishers ms) c) \<le> MAX_FEE_PUBLISHERS_PER_CHAIN)"

lemma monitor_invD:
  assumes "monitor_inv ms"
  shows "keys_distinct (ms_fees ms)" "keys_distinct (ms_fee_publishers ms)"
    "shown ms k = Some r \<Longrightarrow> row_key r = k"
    "publishers ms p = Some st \<Longrightarrow> publisher_ok p st"
    "publishers ms p = Some st \<Longrightarrow> shows_active ms p st"
    "card (chain_publishers (publishers ms) c) \<le> MAX_FEE_PUBLISHERS_PER_CHAIN"
  using assms unfolding monitor_inv_def by blast+

lemma finite_chain_publishers [simp, intro]: "finite (chain_publishers (map_of m) c)"
proof (rule finite_subset)
  show "chain_publishers (map_of m) c \<subseteq> fst ` set m"
    by (auto simp: chain_publishers_def map_of_eq_None_iff)
qed simp

lemma chain_publishers_update:
  "chain_publishers (m(p \<mapsto> st)) c =
    (if pk_chain_id p = c then insert p (chain_publishers m c) else chain_publishers m c)"
  by (auto simp: chain_publishers_def)

lemma chain_publishers_present: "m p \<noteq> None \<Longrightarrow> p \<in> chain_publishers m (pk_chain_id p)"
  by (simp add: chain_publishers_def)

lemma chain_publishers_mono:
  "(\<And>p. m' p \<noteq> None \<Longrightarrow> m p \<noteq> None) \<Longrightarrow> chain_publishers m' c \<subseteq> chain_publishers m c"
  by (auto simp: chain_publishers_def)

lemma same_row_fields:
  assumes "same_row (Some x) y"
  shows "\<exists>z. y = Some z \<and> fr_fee_expiration x = fr_fee_expiration z \<and> row_key x = row_key z"
proof -
  have "fr_fee_expiration a = fr_fee_expiration b \<and> row_key a = row_key b" if "fee_row_eq a b" for a b
    using that by (cases a; cases b) (simp add: fee_row_eq_def row_key_def)
  then show ?thesis using assms by (auto simp: same_row_def)
qed

text \<open>Replacing what is known of one publisher without changing what it shows.\<close>

lemma monitor_inv_publisher:
  assumes inv: "monitor_inv ms" and known: "publishers ms p = Some st"
    and ok: "publisher_ok p st'" and active: "ps_active st' = ps_active st"
  shows "monitor_inv (ms\<lparr>ms_fee_publishers := AList.update p st' (ms_fee_publishers ms)\<rparr>)"
proof -
  note D = monitor_invD [OF inv]
  have "chain_publishers ((publishers ms)(p \<mapsto> st')) c = chain_publishers (publishers ms) c" for c
    using known chain_publishers_present [of "publishers ms" p]
    by (auto simp: chain_publishers_update insert_absorb)
  moreover have "shows_active ms p st'" using D(5) [OF known] by (simp add: shows_active_def active)
  ultimately show ?thesis using D ok unfolding monitor_inv_def
    by (simp add: shows_active_def)
qed

text \<open>A generation becomes active: \<open>apply_fee_announcement\<close> right after its publisher is updated.\<close>

lemma monitor_inv_activate:
  assumes inv: "monitor_inv ms" and gen: "generation p e rows"
    and ok: "publisher_ok p st" and e: "af_signed_expiration (ps_active st) = e"
    and room: "publishers ms p \<noteq> None
      \<or> card (chain_publishers (publishers ms) (pk_chain_id p)) < MAX_FEE_PUBLISHERS_PER_CHAIN"
    and res: "apply_fee_announcement (pk_chain_id p) (pk_railgun_address p) rows
      (ms\<lparr>ms_fee_publishers := AList.update p st (ms_fee_publishers ms)\<rparr>) = (a, ms')"
  shows "monitor_inv ms'"
proof -
  note D = monitor_invD [OF inv]
  let ?ms = "ms\<lparr>ms_fee_publishers := AList.update p st (ms_fee_publishers ms)\<rparr>"
  have keys: "keys_distinct (ms_fees ?ms)" using D(1) by simp
  note cases = apply_fee_announcement_cases [OF keys gen res]
  have display: "shows_rows ?ms p rows ms'" using cases by simp
  have pubs: "ms_fee_publishers ms' = AList.update p st (ms_fee_publishers ms)"
    using cases by simp
  have mine: "row_key r = k \<and> fr_fee_expiration r = e" if "shown ms' k = Some r" "publisher_of k = p" for k r
  proof -
    have "same_row (Some r) (rows_map rows k)" using shows_rowsD(1) [OF display that(2)] that(1) by simp
    then obtain z where "rows_map rows k = Some z" "fr_fee_expiration r = fr_fee_expiration z"
        "row_key r = row_key z"
      using same_row_fields by blast
    then show ?thesis using gen by (auto simp: rows_map_Some generation_def)
  qed
  have others: "shown ms' k = shown ms k" if "publisher_of k \<noteq> p" for k
    using shows_rowsD(2) [OF display that] by simp
  have row_keys: "row_key r = k" if "shown ms' k = Some r" for k r
    using that mine others D(3) by (cases "publisher_of k = p") auto
  have active: "shows_active ms' q sq" if "publishers ms' q = Some sq" for q sq
  proof (cases "q = p")
    case True
    then show ?thesis using that mine e by (simp add: shows_active_def pubs)
  next
    case False
    then have "shows_active ms q sq" using that D(5) by (simp add: pubs)
    then show ?thesis using False others unfolding shows_active_def by metis
  qed
  have "card (chain_publishers (publishers ms') c) \<le> MAX_FEE_PUBLISHERS_PER_CHAIN" for c
    using room D(6) [of c] chain_publishers_present [of "publishers ms" p]
    by (auto simp: pubs chain_publishers_update insert_absorb card_insert_if)
  then show ?thesis using cases row_keys active D(2,4) ok unfolding monitor_inv_def
    by (auto simp: pubs split: if_splits)
qed

lemma evict_shape:
  fixes ms :: monitor_state and wall_now :: system_time
  defines "gone \<equiv> set (map fst (filter (\<lambda>(_, st). publisher_expired wall_now st) (ms_fee_publishers ms)))"
  assumes res: "evict_expired_fee_publishers wall_now ms = (r, ms')"
  shows "ms_fee_publishers ms' = filter (\<lambda>(_, st). \<not> publisher_expired wall_now st) (ms_fee_publishers ms)"
    and "ms_fees ms' = filter (\<lambda>(key, _). publisher_of key \<notin> gone) (ms_fees ms)"
    and "r = None \<and> ms_rev ms' = ms_rev ms \<or> r = Some (ms_rev ms') \<and> ms_rev ms' = ms_rev ms + 1"
proof -
  have "filter (\<lambda>(key, _). publisher_of key \<notin> gone) (ms_fees ms) = ms_fees ms"
    if "map fst (filter (\<lambda>(_, st). publisher_expired wall_now st) (ms_fee_publishers ms)) = []"
    using that by (simp add: gone_def split_def)
  then show "ms_fee_publishers ms' = filter (\<lambda>(_, st). \<not> publisher_expired wall_now st) (ms_fee_publishers ms)"
    and "ms_fees ms' = filter (\<lambda>(key, _). publisher_of key \<notin> gone) (ms_fees ms)"
    and "r = None \<and> ms_rev ms' = ms_rev ms \<or> r = Some (ms_rev ms') \<and> ms_rev ms' = ms_rev ms + 1"
    using res unfolding evict_expired_fee_publishers_def Let_def gone_def [symmetric] bump_rev_def
    by (auto split: if_splits)
qed

lemma filter_full_length: "length (filter P xs) = length xs \<Longrightarrow> filter P xs = xs"
  by (metis filter_True length_filter_less less_irrefl)

lemma evict_revision:
  assumes "evict_expired_fee_publishers wall_now ms = (r, ms')"
  shows "case r of Some n \<Rightarrow> n = ms_rev ms' \<and> ms_rev ms' = ms_rev ms + 1
      | None \<Rightarrow> ms_rev ms' = ms_rev ms \<and> ms_fees ms' = ms_fees ms"
  using assms filter_full_length unfolding evict_expired_fee_publishers_def Let_def bump_rev_def
  by (auto split: if_splits)

definition live_publisher :: "system_time \<Rightarrow> fee_publisher_state option \<Rightarrow> fee_publisher_state option" where
  "live_publisher wall_now m =
    (case m of None \<Rightarrow> None | Some st \<Rightarrow> if publisher_expired wall_now st then None else Some st)"

lemma evict_lookup:
  assumes inv: "monitor_inv ms" and res: "evict_expired_fee_publishers wall_now ms = (r, ms')"
  shows "publishers ms' p = live_publisher wall_now (publishers ms p)"
    and "shown ms' k =
      (case publishers ms (publisher_of k) of
         None \<Rightarrow> shown ms k
       | Some st \<Rightarrow> if publisher_expired wall_now st then None else shown ms k)"
proof -
  note D = monitor_invD [OF inv]
  let ?gone = "set (map fst (filter (\<lambda>(_, st). publisher_expired wall_now st) (ms_fee_publishers ms)))"
  show "publishers ms' p = live_publisher wall_now (publishers ms p)"
    using map_of_filter [OF D(2), of "\<lambda>_ st. \<not> publisher_expired wall_now st"]
    by (simp add: evict_shape(1) [OF res] live_publisher_def split: option.split)
  have gone: "q \<in> ?gone \<longleftrightarrow> (\<exists>st. publishers ms q = Some st \<and> publisher_expired wall_now st)" for q
    using map_of_eq_Some [OF D(2)] by force
  have "shown ms' k = (if publisher_of k \<in> ?gone then None else shown ms k)"
    using map_of_filter [OF D(1), of "\<lambda>k _. publisher_of k \<notin> ?gone"]
    by (simp add: evict_shape(2) [OF res] split: option.split)
  then show "shown ms' k =
      (case publishers ms (publisher_of k) of
         None \<Rightarrow> shown ms k
       | Some st \<Rightarrow> if publisher_expired wall_now st then None else shown ms k)"
    unfolding gone by (simp split: option.split)
qed

lemma evict_keeps_inv:
  assumes inv: "monitor_inv ms" and res: "evict_expired_fee_publishers wall_now ms = (r, ms')"
  shows "monitor_inv ms'"
proof -
  note D = monitor_invD [OF inv] and E = evict_lookup [OF inv res] and S = evict_shape [OF res]
  have less: "shown ms' k = Some r \<Longrightarrow> shown ms k = Some r" for k r
    by (auto simp: E(2) split: option.splits if_splits)
  have live: "publishers ms' p = Some st \<Longrightarrow> publishers ms p = Some st" for p st
    by (auto simp: E(1) live_publisher_def split: option.splits if_splits)
  have "chain_publishers (publishers ms') c \<subseteq> chain_publishers (publishers ms) c" for c
    by (rule chain_publishers_mono) (auto dest: live)
  then have "card (chain_publishers (publishers ms') c) \<le> MAX_FEE_PUBLISHERS_PER_CHAIN" for c
    using D(6) [of c] card_mono [OF finite_chain_publishers] by (meson order_trans)
  moreover have "shows_active ms' p st" if "publishers ms' p = Some st" for p st
    using D(5) [OF live [OF that]] less unfolding shows_active_def by blast
  moreover have "keys_distinct (ms_fees ms')" "keys_distinct (ms_fee_publishers ms')"
    using D(1,2) by (simp_all add: S)
  ultimately show ?thesis unfolding monitor_inv_def
    by (blast intro: D(3,4) less live)
qed

lemma length_chain_publishers:
  "keys_distinct m \<Longrightarrow> length (filter (\<lambda>(k, _). pk_chain_id k = c) m) = card (chain_publishers (map_of m) c)"
  using length_filter_keys [of m "\<lambda>k. pk_chain_id k = c"] by (simp add: chain_publishers_def)

text \<open>The four outcomes of \<open>admit_unevicted_fee_announcement\<close>.\<close>

lemma admit_unevicted_cases:
  assumes inv: "monitor_inv ms"
    and res: "admit_unevicted_fee_announcement (pk_chain_id p) (pk_railgun_address p) e wall_now
      mono_now rows ms = (a, ms')"
  obtains (rejected) "a = Rejected None" "ms' = ms"
  | (pending) st where "generation p e rows" "wall_now < e" "e \<le> wall_now + MAX_FEE_ANNOUNCEMENT_TTL"
      "publishers ms p = Some st" "ps_signed_expiration_high_water st < e"
      "wall_now < af_signed_expiration (ps_active st)" "mono_now < af_refresh_at (ps_active st)"
      "a = Pending (af_refresh_at (ps_active st)) None"
      "ms' = ms\<lparr>ms_fee_publishers := AList.update p (st\<lparr>ps_pending :=
          Some \<lparr>pf_signed_expiration = e, pf_rows = rows\<rparr>, ps_signed_expiration_high_water := e\<rparr>)
          (ms_fee_publishers ms)\<rparr>"
  | (applied) refresh_at where "generation p e rows" "wall_now < e" "e \<le> wall_now + MAX_FEE_ANNOUNCEMENT_TTL"
      "\<And>st. publishers ms p = Some st \<Longrightarrow> ps_signed_expiration_high_water st < e
        \<and> (af_signed_expiration (ps_active st) \<le> wall_now \<or> af_refresh_at (ps_active st) \<le> mono_now)"
      "publishers ms p \<noteq> None
        \<or> card (chain_publishers (publishers ms) (pk_chain_id p)) < MAX_FEE_PUBLISHERS_PER_CHAIN"
      "mono_now \<le> refresh_at" "refresh_at \<le> mono_now + MAX_FEE_ANNOUNCEMENT_REFRESH_INTERVAL"
      "apply_fee_announcement (pk_chain_id p) (pk_railgun_address p) rows
        (ms\<lparr>ms_fee_publishers := AList.update p
            \<lparr>ps_active = \<lparr>af_signed_expiration = e, af_refresh_at = refresh_at\<rparr>, ps_pending = None,
             ps_signed_expiration_high_water = e\<rparr> (ms_fee_publishers ms)\<rparr>) = (a, ms')"
proof (cases "candidate_rows_are_consistent (pk_chain_id p) (pk_railgun_address p) e rows
    \<and> wall_now < e \<and> fee_refresh_deadline e wall_now mono_now \<noteq> None")
  case False
  then show ?thesis using res rejected
    by (auto simp: admit_unevicted_fee_announcement_def not_less split: if_splits option.splits)
next
  case True
  then obtain refresh_at where ok: "candidate_rows_are_consistent (pk_chain_id p) (pk_railgun_address p) e rows"
      "wall_now < e" and refresh: "fee_refresh_deadline e wall_now mono_now = Some refresh_at" by blast
  have ttl: "e \<le> wall_now + MAX_FEE_ANNOUNCEMENT_TTL" and at: "mono_now \<le> refresh_at"
      "refresh_at \<le> mono_now + MAX_FEE_ANNOUNCEMENT_REFRESH_INTERVAL"
    using refresh ok(2) by (auto simp: fee_refresh_deadline_def Let_def split: if_splits)
  note gen = consistent_generation [OF ok(1)]
  note len = length_chain_publishers [OF monitor_invD(2) [OF inv]]
  show ?thesis
  proof (cases "publishers ms p")
    case None
    then show ?thesis using res ok refresh rejected applied [OF gen ok(2) ttl _ _ at]
      by (simp add: admit_unevicted_fee_announcement_def Let_def len not_le split: if_splits)
  next
    case (Some st)
    then show ?thesis using res ok refresh rejected pending [OF gen ok(2) ttl Some] applied [OF gen ok(2) ttl _ _ at]
      by (simp add: admit_unevicted_fee_announcement_def Let_def not_le not_less split: if_splits)
  qed
qed

lemma publisher_ok_fresh [simp]:
  "publisher_ok p \<lparr>ps_active = \<lparr>af_signed_expiration = e, af_refresh_at = t\<rparr>, ps_pending = None,
    ps_signed_expiration_high_water = e\<rparr>"
  by (simp add: publisher_ok_def)

lemma admit_unevicted_keeps_inv:
  fixes p :: fee_publisher_key
  assumes inv: "monitor_inv ms"
    and res: "admit_unevicted_fee_announcement (pk_chain_id p) (pk_railgun_address p) e wall_now
      mono_now rows ms = (a, ms')"
  shows "monitor_inv ms'"
  using inv res
proof (cases rule: admit_unevicted_cases)
  case rejected
  then show ?thesis using inv by simp
next
  case (pending st)
  then have "publisher_ok p (st\<lparr>ps_pending := Some \<lparr>pf_signed_expiration = e, pf_rows = rows\<rparr>,
      ps_signed_expiration_high_water := e\<rparr>)"
    using monitor_invD(4) [OF inv pending(4)] by (simp add: publisher_ok_def)
  from monitor_inv_publisher [OF inv pending(4) this] show ?thesis by (simp add: pending)
next
  case (applied refresh_at)
  show ?thesis by (rule monitor_inv_activate [OF inv applied(1) _ _ applied(5,8)]) simp_all
qed

lemma publisher_ok_pending:
  assumes "publisher_ok p st" "ps_pending st = Some c"
  shows "af_signed_expiration (ps_active st) < pf_signed_expiration c"
    "pf_signed_expiration c = ps_signed_expiration_high_water st"
    "generation p (pf_signed_expiration c) (pf_rows c)"
  using assms unfolding publisher_ok_def by blast+

lemma promote_publisher_cases:
  assumes inv: "monitor_inv ms" and res: "promote_publisher mono_now wall_now p ms = (rs, ms')"
  obtains (idle) "rs = []" "ms' = ms" "\<And>st. publishers ms p = Some st \<Longrightarrow> ps_pending st = None"
  | (dropped) st c where "publishers ms p = Some st" "ps_pending st = Some c"
      "pf_signed_expiration c \<le> wall_now \<or> wall_now + MAX_FEE_ANNOUNCEMENT_TTL < pf_signed_expiration c"
      "rs = []" "ms' = ms\<lparr>ms_fee_publishers :=
        AList.update p (st\<lparr>ps_pending := None\<rparr>) (ms_fee_publishers ms)\<rparr>"
  | (promoted) st c refresh_at a where "publishers ms p = Some st" "ps_pending st = Some c"
      "wall_now < pf_signed_expiration c"
      "mono_now \<le> refresh_at" "refresh_at \<le> mono_now + MAX_FEE_ANNOUNCEMENT_REFRESH_INTERVAL"
      "apply_fee_announcement (pk_chain_id p) (pk_railgun_address p) (pf_rows c)
        (ms\<lparr>ms_fee_publishers := AList.update p (st\<lparr>ps_pending := None,
            ps_active := \<lparr>af_signed_expiration = pf_signed_expiration c, af_refresh_at = refresh_at\<rparr>\<rparr>)
          (ms_fee_publishers ms)\<rparr>) = (a, ms')"
      "rs = (case admission_revision a of Some r \<Rightarrow> [r] | None \<Rightarrow> [])"
proof (cases "\<exists>st c. publishers ms p = Some st \<and> ps_pending st = Some c")
  case False
  then show ?thesis using res idle
    by (auto simp: promote_publisher_def split: option.splits)
next
  case True
  then obtain st c where st: "publishers ms p = Some st" "ps_pending st = Some c" by blast
  have gen: "generation p (pf_signed_expiration c) (pf_rows c)"
    by (rule publisher_ok_pending(3) [OF monitor_invD(4) [OF inv st(1)] st(2)])
  show ?thesis
  proof (cases "fee_refresh_deadline (pf_signed_expiration c) wall_now mono_now = None
      \<or> pf_signed_expiration c \<le> wall_now")
    case True
    then have "pf_signed_expiration c \<le> wall_now \<or> wall_now + MAX_FEE_ANNOUNCEMENT_TTL < pf_signed_expiration c"
      by (auto simp: fee_refresh_deadline_def Let_def split: if_splits)
    then show ?thesis using True res by (intro dropped [OF st])
        (auto simp: promote_publisher_def st Let_def split: if_splits)
  next
    case False
    then obtain refresh_at where refresh: "fee_refresh_deadline (pf_signed_expiration c) wall_now mono_now = Some refresh_at"
      and live: "wall_now < pf_signed_expiration c" by auto
    have at: "mono_now \<le> refresh_at" "refresh_at \<le> mono_now + MAX_FEE_ANNOUNCEMENT_REFRESH_INTERVAL"
      using refresh by (auto simp: fee_refresh_deadline_def Let_def split: if_splits)
    let ?ms = "ms\<lparr>ms_fee_publishers := AList.update p (st\<lparr>ps_pending := None,
            ps_active := \<lparr>af_signed_expiration = pf_signed_expiration c, af_refresh_at = refresh_at\<rparr>\<rparr>)
          (ms_fee_publishers ms)\<rparr>"
    obtain a ms1 where app: "apply_fee_announcement (pk_chain_id p) (pk_railgun_address p) (pf_rows c) ?ms = (a, ms1)"
      by fastforce
    have "a = Applied (admission_revision a) (length (pf_rows c))"
      using apply_fee_announcement_cases [OF _ gen app] monitor_invD(1) [OF inv] by auto
    then have "rs = (case admission_revision a of Some r \<Rightarrow> [r] | None \<Rightarrow> []) \<and> ms' = ms1"
      using res live refresh app
      by (cases a) (auto simp: promote_publisher_def st Let_def split: option.splits)
    then show ?thesis using promoted [OF st live at, of a] app by simp
  qed
qed

lemma promote_publisher_keeps_inv:
  assumes inv: "monitor_inv ms" and res: "promote_publisher mono_now wall_now p ms = (rs, ms')"
  shows "monitor_inv ms'"
  using inv res
proof (cases rule: promote_publisher_cases)
  case idle
  then show ?thesis using inv by simp
next
  case (dropped st c)
  have "publisher_ok p (st\<lparr>ps_pending := None\<rparr>)"
    using monitor_invD(4) [OF inv dropped(1)] by (simp add: publisher_ok_def)
  from monitor_inv_publisher [OF inv dropped(1) this] show ?thesis by (simp add: dropped)
next
  case (promoted st c refresh_at a)
  have ok: "publisher_ok p st" by (rule monitor_invD(4) [OF inv promoted(1)])
  then have gen: "generation p (pf_signed_expiration c) (pf_rows c)"
    and ok': "publisher_ok p (st\<lparr>ps_pending := None,
      ps_active := \<lparr>af_signed_expiration = pf_signed_expiration c, af_refresh_at = refresh_at\<rparr>\<rparr>)"
    using publisher_ok_pending [OF ok promoted(2)] by (simp_all add: publisher_ok_def)
  show ?thesis
    by (rule monitor_inv_activate [OF inv gen ok' _ _ promoted(6)]) (simp_all add: promoted)
qed

lemma promote_publishers_keeps_inv:
  "monitor_inv ms \<Longrightarrow> promote_publishers mono_now wall_now keys ms = (rs, ms') \<Longrightarrow> monitor_inv ms'"
  by (induction keys arbitrary: ms rs)
    (auto split: prod.splits dest: promote_publisher_keeps_inv)

lemma upsert_keeps_inv:
  assumes inv: "monitor_inv ms" and res: "upsert_fee row ms = (r, ms')"
  shows "monitor_inv ms'"
proof (cases "ms' = ms")
  case False
  then have free: "publishers ms (publisher_of (row_key row)) = None"
    and ms': "ms' = ms\<lparr>ms_fees := AList.update (row_key row) row (ms_fees ms), ms_rev := ms_rev ms + 1\<rparr>"
    using res by (auto simp: upsert_fee_def bump_rev_def split: if_splits)
  have "shows_active ms' p st" if "publishers ms p = Some st" for p st
    using monitor_invD(5) [OF inv that] free that by (auto simp: shows_active_def ms')
  then show ?thesis using monitor_invD [OF inv] by (auto simp: monitor_inv_def ms')
qed (use inv in simp)

lemma monitor_inv_cong:
  "ms_fees ms' = ms_fees ms \<Longrightarrow> ms_fee_publishers ms' = ms_fee_publishers ms \<Longrightarrow> monitor_inv ms \<Longrightarrow> monitor_inv ms'"
  by (simp add: monitor_inv_def shows_active_def)

lemma monitor_inv_empty: "ms_fees ms = [] \<Longrightarrow> ms_fee_publishers ms = [] \<Longrightarrow> monitor_inv ms"
  by (simp add: monitor_inv_def chain_publishers_def)

lemma monitor_step_keeps_inv:
  assumes step: "monitor_step ms e ms'" and inv: "monitor_inv ms"
  shows "monitor_inv ms'"
  using step
proof (cases rule: monitor_step.cases)
  case (step_upsert row r)
  then show ?thesis using upsert_keeps_inv [OF inv] by blast
next
  case (step_announce p exp wall_now mono_now rows a)
  obtain r ms1 where ev: "evict_expired_fee_publishers wall_now ms = (r, ms1)" by fastforce
  then show ?thesis using step_announce admit_unevicted_keeps_inv [OF evict_keeps_inv [OF inv ev]]
    by (auto simp: admit_fee_announcement_def split: prod.splits)
next
  case (step_promote mono_now wall_now rs)
  then show ?thesis using promote_publishers_keeps_inv [OF inv]
    by (simp add: promote_due_fee_announcements_def)
next
  case (step_peers summary rows r)
  then have "ms_fees ms' = ms_fees ms" "ms_fee_publishers ms' = ms_fee_publishers ms"
    by (auto simp: set_peers_def bump_rev_def split: if_splits)
  then show ?thesis using inv by (rule monitor_inv_cong)
next
  case (step_clear r)
  then have "ms' = ms \<or> ms_fees ms' = [] \<and> ms_fee_publishers ms' = []"
    by (auto simp: clear_def Let_def bump_rev_def split: if_splits)
  then show ?thesis using inv monitor_inv_empty by blast
next
  case (step_subscription now)
  then show ?thesis using inv by (intro monitor_inv_cong [OF _ _ inv]) (simp_all add: start_fee_subscription_def)
qed

interpretation monitor: transition_system "\<lambda>ms. ms = new_monitor_state" monitor_step monitor_inv
  by unfold_locales (auto simp: new_monitor_state_def intro: monitor_inv_empty monitor_step_keeps_inv)

abbreviation monitor_reachable :: "monitor_state \<Rightarrow> bool" where
  "monitor_reachable \<equiv> reach (\<lambda>ms. ms = new_monitor_state) monitor_step"

section \<open>Announcements cannot be replayed\<close>

fun announce_times :: "monitor_event list \<Rightarrow> system_time list" where
  "announce_times [] = []"
| "announce_times (Announce _ _ wall_now _ _ # es) = wall_now # announce_times es"
| "announce_times (_ # es) = announce_times es"

fun accepted :: "fee_publisher_key \<Rightarrow> monitor_event list \<Rightarrow> system_time list" where
  "accepted p [] = []"
| "accepted p (Announce q e _ _ a # es) =
    (if q = p \<and> (\<forall>r. a \<noteq> Rejected r) then e # accepted p es else accepted p es)"
| "accepted p (_ # es) = accepted p es"

text \<open>
  \<open>guarded ms p f w\<close>: an expiration up to \<open>f\<close> can no longer be accepted, because the publisher is
  still known with a mark of at least \<open>f\<close>, or because \<open>f\<close> is not after the last clock reading.
\<close>

definition guarded :: "monitor_state \<Rightarrow> fee_publisher_key \<Rightarrow> system_time \<Rightarrow> system_time \<Rightarrow> bool" where
  "guarded ms p f w \<longleftrightarrow>
    f \<le> w \<or> (\<exists>st. publishers ms p = Some st \<and> f \<le> ps_signed_expiration_high_water st)"

lemma with_revision_simps [simp]:
  "with_revision r a = Rejected x \<Longrightarrow> \<exists>y. a = Rejected y"
  "(\<exists>y. with_revision r a = Rejected y) \<longleftrightarrow> (\<exists>y. a = Rejected y)"
  by (cases a; simp add: with_revision_def Let_def)+

lemma guarded_evict:
  assumes "monitor_inv ms" "evict_expired_fee_publishers w' ms = (r, ms1)" "guarded ms p f w" "w \<le> w'"
  shows "guarded ms1 p f w'"
  using assms(3,4)
  by (auto simp: guarded_def evict_lookup(1) [OF assms(1,2)] live_publisher_def publisher_expired_def)

lemma apply_publishers:
  "apply_fee_announcement c a rows ms = (r, ms') \<Longrightarrow> ms_fee_publishers ms' = ms_fee_publishers ms"
  by (auto simp: apply_fee_announcement_def Let_def bump_rev_def split: if_splits)

lemma guarded_announce:
  fixes q :: fee_publisher_key
  assumes inv: "monitor_inv ms" and g: "guarded ms p f w" and w: "w \<le> w'"
    and res: "admit_fee_announcement (pk_chain_id q) (pk_railgun_address q) e w' mono_now rows ms = (a, ms')"
  shows "guarded ms' p f w'"
    and "q = p \<Longrightarrow> \<forall>r. a \<noteq> Rejected r \<Longrightarrow> f < e \<and> guarded ms' p e w'"
proof -
  obtain r ms1 where ev: "evict_expired_fee_publishers w' ms = (r, ms1)" by fastforce
  obtain b where adm: "admit_unevicted_fee_announcement (pk_chain_id q) (pk_railgun_address q) e w' mono_now rows ms1 = (b, ms')"
      and a: "a = with_revision r b"
    using res ev by (auto simp: admit_fee_announcement_def split: prod.splits)
  have g1: "guarded ms1 p f w'" by (rule guarded_evict [OF inv ev g w])
  have inv1: "monitor_inv ms1" by (rule evict_keeps_inv [OF inv ev])
  from inv1 adm have "guarded ms' p f w' \<and> (q = p \<longrightarrow> (\<forall>r. b \<noteq> Rejected r) \<longrightarrow> f < e \<and> guarded ms' p e w')"
  proof (cases rule: admit_unevicted_cases)
    case rejected
    then show ?thesis using g1 by simp
  next
    case (pending st)
    then show ?thesis using g1 by (auto simp: guarded_def)
  next
    case (applied refresh_at)
    then show ?thesis using g1
      by (cases "publishers ms1 p") (auto simp: guarded_def apply_publishers [OF applied(8)])
  qed
  moreover have "(\<forall>r. a \<noteq> Rejected r) \<longleftrightarrow> (\<forall>r. b \<noteq> Rejected r)"
    by (cases b) (simp_all add: a with_revision_def Let_def)
  ultimately show "guarded ms' p f w'"
    and "q = p \<Longrightarrow> \<forall>r. a \<noteq> Rejected r \<Longrightarrow> f < e \<and> guarded ms' p e w'" by blast+
qed

lemma guarded_promote_publisher:
  assumes inv: "monitor_inv ms" and res: "promote_publisher mono_now wall_now q ms = (rs, ms')"
    and g: "guarded ms p f w"
  shows "guarded ms' p f w"
  using inv res
proof (cases rule: promote_publisher_cases)
  case idle
  then show ?thesis using g by simp
next
  case (dropped st c)
  then show ?thesis using g by (auto simp: guarded_def)
next
  case (promoted st c refresh_at a)
  then show ?thesis using g by (auto simp: guarded_def apply_publishers [OF promoted(6)])
qed

lemma guarded_promote:
  "monitor_inv ms \<Longrightarrow> promote_publishers mono_now wall_now keys ms = (rs, ms') \<Longrightarrow> guarded ms p f w
    \<Longrightarrow> guarded ms' p f w"
proof (induction keys arbitrary: ms rs)
  case (Cons k keys)
  obtain rs1 ms1 where k: "promote_publisher mono_now wall_now k ms = (rs1, ms1)" by fastforce
  then show ?case
    using Cons.IH [OF promote_publisher_keeps_inv [OF Cons.prems(1) k]]
      guarded_promote_publisher [OF Cons.prems(1) k Cons.prems(3)] Cons.prems(2)
    by (auto split: prod.splits)
qed simp

lemma guarded_other:
  assumes inv: "monitor_inv ms" and step: "monitor_step ms e ms'" and g: "guarded ms p f w"
    and other: "\<forall>q x t m a. e \<noteq> Announce q x t m a" "e \<noteq> ClearMonitor"
  shows "guarded ms' p f w"
  using step
proof (cases rule: monitor_step.cases)
  case (step_promote mono_now wall_now rs)
  then show ?thesis using guarded_promote [OF inv _ g] by (simp add: promote_due_fee_announcements_def)
qed (use other g in \<open>auto simp: guarded_def upsert_fee_def set_peers_def bump_rev_def
    start_fee_subscription_def split: if_splits\<close>)

lemma accepted_increasing:
  assumes "trace monitor_step ms es ms'" "monitor_inv ms" "ClearMonitor \<notin> set es" "guarded ms p f w"
    "sorted (w # announce_times es)"
  shows "sorted_wrt (<) (f # accepted p es)"
  using assms
proof (induction arbitrary: f w rule: trace.induct)
  case (trace_Nil ms)
  then show ?case by simp
next
  case (trace_Cons ms e ms1 es ms2)
  have inv1: "monitor_inv ms1" by (rule monitor_step_keeps_inv [OF trace_Cons.hyps(1) trace_Cons.prems(1)])
  show ?case
  proof (cases "\<exists>q x t m a. e = Announce q x t m a")
    case True
    then obtain q x t m a where e: "e = Announce q x t m a" by blast
    then obtain rows where res: "admit_fee_announcement (pk_chain_id q) (pk_railgun_address q) x t m rows ms = (a, ms1)"
      using trace_Cons.hyps(1) by (auto elim: monitor_stepE)
    have t: "w \<le> t" "sorted (t # announce_times es)" using trace_Cons.prems(4) by (auto simp: e)
    note g = guarded_announce [OF trace_Cons.prems(1,3) t(1) res]
    have clear: "ClearMonitor \<notin> set es" using trace_Cons.prems(2) by simp
    show ?thesis
    proof (cases "q = p \<and> (\<forall>r. a \<noteq> Rejected r)")
      case True
      then have "f < x" "guarded ms1 p x t" using g(2) by auto
      with trace_Cons.IH [OF inv1 clear _ t(2)] True show ?thesis by (auto simp: e intro: less_trans)
    next
      case False
      with trace_Cons.IH [OF inv1 clear g(1) t(2)] show ?thesis by (auto simp: e)
    qed
  next
    case False
    then have "accepted p (e # es) = accepted p es" "announce_times (e # es) = announce_times es"
      by (cases e; simp)+
    moreover have "guarded ms1 p f w"
      using guarded_other [OF trace_Cons.prems(1) trace_Cons.hyps(1) trace_Cons.prems(3)] False trace_Cons.prems(2)
      by auto
    ultimately show ?thesis using trace_Cons.IH [OF inv1, of f w] trace_Cons.prems by simp
  qed
qed

section \<open>The effect of promotion\<close>

lemma promote_publisher_effect:
  assumes inv: "monitor_inv ms" and res: "promote_publisher mono_now wall_now p ms = (rs, ms')"
  shows "\<And>q. q \<noteq> p \<Longrightarrow> publishers ms' q = publishers ms q"
    and "\<And>k. publisher_of k \<noteq> p \<Longrightarrow> shown ms' k = shown ms k"
    and "publishers ms' p = Some st' \<Longrightarrow> ps_pending st' = None"
    and "\<And>st c k. publishers ms p = Some st \<Longrightarrow> ps_pending st = Some c \<Longrightarrow> wall_now < pf_signed_expiration c
      \<Longrightarrow> pf_signed_expiration c \<le> wall_now + MAX_FEE_ANNOUNCEMENT_TTL \<Longrightarrow> publisher_of k = p
      \<Longrightarrow> same_row (shown ms' k) (rows_map (pf_rows c) k)"
proof -
  have "(\<forall>q. q \<noteq> p \<longrightarrow> publishers ms' q = publishers ms q)
    \<and> (\<forall>k. publisher_of k \<noteq> p \<longrightarrow> shown ms' k = shown ms k)
    \<and> (publishers ms' p = Some st' \<longrightarrow> ps_pending st' = None)
    \<and> (\<forall>st c k. publishers ms p = Some st \<longrightarrow> ps_pending st = Some c \<longrightarrow> wall_now < pf_signed_expiration c
      \<longrightarrow> pf_signed_expiration c \<le> wall_now + MAX_FEE_ANNOUNCEMENT_TTL \<longrightarrow> publisher_of k = p
      \<longrightarrow> same_row (shown ms' k) (rows_map (pf_rows c) k))"
    using inv res
  proof (cases rule: promote_publisher_cases)
    case idle
    then show ?thesis by auto
  next
    case (dropped st c)
    then show ?thesis by auto
  next
    case (promoted st c refresh_at a)
    have gen: "generation p (pf_signed_expiration c) (pf_rows c)"
      by (rule publisher_ok_pending(3) [OF monitor_invD(4) [OF inv promoted(1)] promoted(2)])
    have "keys_distinct (ms_fees ms)" by (rule monitor_invD(1) [OF inv])
    then have "shows_rows (ms\<lparr>ms_fee_publishers := AList.update p (st\<lparr>ps_pending := None,
            ps_active := \<lparr>af_signed_expiration = pf_signed_expiration c, af_refresh_at = refresh_at\<rparr>\<rparr>)
          (ms_fee_publishers ms)\<rparr>) p (pf_rows c) ms'"
      using apply_fee_announcement_cases [OF _ gen promoted(6)] by simp
    from shows_rowsD [OF this] show ?thesis
      using promoted(1,2) by (auto simp: apply_publishers [OF promoted(6)])
  qed
  then show "\<And>q. q \<noteq> p \<Longrightarrow> publishers ms' q = publishers ms q"
    and "\<And>k. publisher_of k \<noteq> p \<Longrightarrow> shown ms' k = shown ms k"
    and "publishers ms' p = Some st' \<Longrightarrow> ps_pending st' = None"
    and "\<And>st c k. publishers ms p = Some st \<Longrightarrow> ps_pending st = Some c \<Longrightarrow> wall_now < pf_signed_expiration c
      \<Longrightarrow> pf_signed_expiration c \<le> wall_now + MAX_FEE_ANNOUNCEMENT_TTL \<Longrightarrow> publisher_of k = p
      \<Longrightarrow> same_row (shown ms' k) (rows_map (pf_rows c) k)"
    by blast+
qed

lemma promote_publishers_others:
  assumes "monitor_inv ms" "promote_publishers mono_now wall_now keys ms = (rs, ms')" "p \<notin> set keys"
  shows "publishers ms' p = publishers ms p \<and> (\<forall>k. publisher_of k = p \<longrightarrow> shown ms' k = shown ms k)"
  using assms
proof (induction keys arbitrary: ms rs)
  case (Cons q keys)
  obtain rs1 ms1 where q: "promote_publisher mono_now wall_now q ms = (rs1, ms1)" by fastforce
  then show ?case
    using Cons.IH [OF promote_publisher_keeps_inv [OF Cons.prems(1) q]] Cons.prems(2,3)
      promote_publisher_effect(1,2) [OF Cons.prems(1) q]
    by (auto split: prod.splits)
qed simp

lemma promote_publishers_effect:
  assumes "monitor_inv ms" "promote_publishers mono_now wall_now keys ms = (rs, ms')"
    "distinct keys" "p \<in> set keys"
  shows "(\<forall>st'. publishers ms' p = Some st' \<longrightarrow> ps_pending st' = None)
    \<and> (\<forall>st c k. publishers ms p = Some st \<longrightarrow> ps_pending st = Some c \<longrightarrow> wall_now < pf_signed_expiration c
      \<longrightarrow> pf_signed_expiration c \<le> wall_now + MAX_FEE_ANNOUNCEMENT_TTL \<longrightarrow> publisher_of k = p
      \<longrightarrow> same_row (shown ms' k) (rows_map (pf_rows c) k))"
  using assms
proof (induction keys arbitrary: ms rs)
  case (Cons q keys)
  obtain rs1 ms1 where q: "promote_publisher mono_now wall_now q ms = (rs1, ms1)" by fastforce
  obtain rs2 where rest: "promote_publishers mono_now wall_now keys ms1 = (rs2, ms')"
    using Cons.prems(2) q by (auto split: prod.splits)
  have inv1: "monitor_inv ms1" by (rule promote_publisher_keeps_inv [OF Cons.prems(1) q])
  show ?case
  proof (cases "p = q")
    case True
    then have "p \<notin> set keys" using Cons.prems(3) by simp
    note same = promote_publishers_others [OF inv1 rest this]
    show ?thesis using same promote_publisher_effect(3,4) [OF Cons.prems(1) q] True by auto
  next
    case False
    then have "p \<in> set keys" "distinct keys" using Cons.prems(3,4) by simp_all
    note IH = Cons.IH [OF inv1 rest this(2,1)]
    then show ?thesis using promote_publisher_effect(1,2) [OF Cons.prems(1) q] False by auto
  qed
qed simp

lemma promote_due_inv:
  assumes inv: "monitor_inv ms" and res: "promote_due_fee_announcements mono_now wall_now ms = (rs, ms')"
    and st': "publishers ms' p = Some st'"
  shows "ps_pending st' = None \<or> mono_now < af_refresh_at (ps_active st')"
proof -
  let ?keys = "map fst (filter (\<lambda>(_, st). due mono_now st) (ms_fee_publishers ms))"
  have dist: "distinct ?keys" using monitor_invD(2) [OF inv] by (simp add: keys_distinct_def distinct_map_filter)
  have promote: "promote_publishers mono_now wall_now ?keys ms = (rs, ms')"
    using res by (simp add: promote_due_fee_announcements_def)
  show ?thesis
  proof (cases "p \<in> set ?keys")
    case True
    then show ?thesis using promote_publishers_effect [OF inv promote dist] st' by blast
  next
    case False
    then have st: "publishers ms p = Some st'" using promote_publishers_others [OF inv promote] st' by simp
    then have "(p, st') \<in> set (ms_fee_publishers ms)" by (rule map_of_SomeD)
    then show ?thesis using False by (force simp: due_def not_le)
  qed
qed

section \<open>Properties\<close>

text \<open>
  Ownership of the displayed fees. In every reachable state the rows shown for a publisher all
  carry the expiration its active generation was signed with; a pending generation is signed to
  expire strictly later (the source's \<open>debug_assert\<close>), with the publisher's high-water mark as its
  expiration; and no chain has more than 128 publishers.
\<close>

theorem monitor_generations:
  assumes "monitor_reachable ms" "map_of (ms_fee_publishers ms) p = Some st"
  shows "(\<forall>k row. map_of (ms_fees ms) k = Some row \<longrightarrow> publisher_of k = p
        \<longrightarrow> row_key row = k \<and> fr_fee_expiration row = af_signed_expiration (ps_active st))
    \<and> (\<forall>c. ps_pending st = Some c \<longrightarrow>
          af_signed_expiration (ps_active st) < pf_signed_expiration c
          \<and> pf_signed_expiration c = ps_signed_expiration_high_water st)
    \<and> card {q. map_of (ms_fee_publishers ms) q \<noteq> None \<and> pk_chain_id q = pk_chain_id p} \<le> 128"
proof -
  note D = monitor_invD [OF monitor.reach_inv [OF assms(1)]]
  show ?thesis
    using D(3) D(5) [OF assms(2)] publisher_ok_pending(1,2) [OF D(4) [OF assms(2)]] D(6) [of "pk_chain_id p"]
    by (auto simp: shows_active_def chain_publishers_def MAX_FEE_PUBLISHERS_PER_CHAIN_def)
qed

definition publisher_a :: fee_publisher_key where
  "publisher_a = \<lparr>pk_chain_id = 1, pk_railgun_address = ''0zk''\<rparr>"

definition row_a :: fee_row where
  "row_a = \<lparr>fr_chain_id = 1, fr_railgun_address = ''0zk'', fr_token_address = 7, fr_fee = 5,
    fr_fees_id = ''f'', fr_fee_expiration = seconds 300, fr_available_wallets = 1, fr_version = ''8.2.3'',
    fr_relay_adapt = None, fr_relay_adapt_7702 = None, fr_required_poi_list_keys = [],
    fr_identifier = None, fr_last_seen = 0, fr_reliability = 0\<rparr>"

definition one_publisher :: monitor_state where
  "one_publisher = snd (admit_fee_announcement 1 ''0zk'' (seconds 300) (seconds 1) 0 [row_a] new_monitor_state)"

lemma one_publisher_eval:
  "admit_fee_announcement 1 ''0zk'' (seconds 300) (seconds 1) 0 [row_a] new_monitor_state
    = (Applied (Some 1) 1, one_publisher)"
  "ms_fees one_publisher = [(row_key row_a, row_a)]" "ms_rev one_publisher = 1"
  "ms_fee_publishers one_publisher = [(publisher_a, \<lparr>ps_active = \<lparr>af_signed_expiration = seconds 300,
      af_refresh_at = seconds 60\<rparr>, ps_pending = None, ps_signed_expiration_high_water = seconds 300\<rparr>)]"
  by (simp_all add: one_publisher_def new_monitor_state_def admit_fee_announcement_def
      evict_expired_fee_publishers_def admit_unevicted_fee_announcement_def
      candidate_rows_are_consistent_def row_a_def fee_refresh_deadline_def MAX_FEE_ANNOUNCEMENT_TTL_def
      MAX_FEE_ANNOUNCEMENT_REFRESH_INTERVAL_def MAX_FEE_PUBLISHERS_PER_CHAIN_def apply_fee_announcement_def
      bump_rev_def with_revision_def row_key_def publisher_a_def)

lemma one_publisher_step:
  "monitor_step new_monitor_state (Announce publisher_a (seconds 300) (seconds 1) 0 (Applied (Some 1) 1)) one_publisher"
  using one_publisher_eval(1) by (intro step_announce [where rows = "[row_a]"]) (simp add: publisher_a_def)

lemma one_publisher_reachable: "monitor_reachable one_publisher"
  by (rule reach_step [where step = monitor_step, OF reach_start one_publisher_step]) simp

lemma monitor_generations_witness:
  "card {q. map_of (ms_fee_publishers one_publisher) q \<noteq> None \<and> pk_chain_id q = 1} \<le> 128"
  using monitor_generations [OF one_publisher_reachable, of publisher_a]
  by (simp add: one_publisher_eval) (simp add: publisher_a_def)

text \<open>
  C31: Replay protection. Over any run from a reachable state that does not clear the monitor and
  whose wall clock does not go back, the expirations of the announcements accepted from a publisher
  (applied or made pending) strictly increase, although publishers are forgotten ten minutes after
  their mark: whatever was accepted before has expired by then.
\<close>

theorem announcements_not_replayed:
  assumes "monitor_reachable ms" "trace monitor_step ms es ms'" "ClearMonitor \<notin> set es"
    "sorted (announce_times es)"
  shows "sorted_wrt (<) (accepted p es)"
proof -
  have "sorted_wrt (<) (0 # accepted p es)"
    by (rule accepted_increasing [OF assms(2) monitor.reach_inv [OF assms(1)] assms(3), of p 0 0])
      (use assms(4) in \<open>simp_all add: guarded_def\<close>)
  then show ?thesis by simp
qed

lemma announcements_not_replayed_witness:
  "sorted_wrt (<) (accepted publisher_a [Announce publisher_a (seconds 300) (seconds 1) 0 (Applied (Some 1) 1)])"
  by (rule announcements_not_replayed [OF reach_start [where step = monitor_step]
        trace_Cons [where step = monitor_step, OF one_publisher_step trace_Nil]]) simp_all

text \<open>
  What an announcement does. It is accepted only for a publisher whose recorded mark (unless that
  expired more than ten minutes ago) is below its expiration, and only if it expires after now and
  within 30 minutes. An applied announcement is what its publisher shows from then on, nothing else,
  with a refresh due within a minute. A pending one is kept with its mark and its publisher shows
  what it showed before. A rejected one changes nothing but the eviction of expired publishers.
\<close>

theorem announcement_outcome:
  fixes p :: fee_publisher_key
  assumes "monitor_reachable ms"
    "admit_fee_announcement (pk_chain_id p) (pk_railgun_address p) e wall_now mono_now rows ms = (a, ms')"
  shows "(case a of
      Rejected _ \<Rightarrow> ms' = snd (evict_expired_fee_publishers wall_now ms)
    | Pending deadline _ \<Rightarrow>
        wall_now < e \<and> e \<le> wall_now + seconds 1800
        \<and> (\<exists>st st'. map_of (ms_fee_publishers ms) p = Some st \<and> map_of (ms_fee_publishers ms') p = Some st'
            \<and> ps_signed_expiration_high_water st < e \<and> ps_signed_expiration_high_water st' = e
            \<and> ps_pending st' = Some \<lparr>pf_signed_expiration = e, pf_rows = rows\<rparr>
            \<and> ps_active st' = ps_active st \<and> deadline = af_refresh_at (ps_active st) \<and> mono_now < deadline)
        \<and> (\<forall>k. publisher_of k = p \<longrightarrow> map_of (ms_fees ms') k = map_of (ms_fees ms) k)
    | Applied _ n \<Rightarrow>
        wall_now < e \<and> e \<le> wall_now + seconds 1800 \<and> n = length rows
        \<and> (\<forall>st. map_of (ms_fee_publishers ms) p = Some st \<longrightarrow> ps_signed_expiration_high_water st < e)
        \<and> (\<exists>st'. map_of (ms_fee_publishers ms') p = Some st' \<and> af_signed_expiration (ps_active st') = e
            \<and> mono_now \<le> af_refresh_at (ps_active st') \<and> af_refresh_at (ps_active st') \<le> mono_now + seconds 60)
        \<and> (\<forall>k. publisher_of k = p \<longrightarrow> same_row (map_of (ms_fees ms') k) (rows_map rows k)))"
proof -
  have inv: "monitor_inv ms" by (rule monitor.reach_inv [OF assms(1)])
  obtain r ms1 where ev: "evict_expired_fee_publishers wall_now ms = (r, ms1)" by fastforce
  obtain b where adm: "admit_unevicted_fee_announcement (pk_chain_id p) (pk_railgun_address p) e wall_now mono_now rows ms1 = (b, ms')"
      and a: "a = with_revision r b"
    using assms(2) ev by (auto simp: admit_fee_announcement_def split: prod.splits)
  note E = evict_lookup [OF inv ev]
  have known: "publishers ms p = Some st" if "publishers ms1 p = Some st" for st
    using that by (auto simp: E(1) live_publisher_def split: option.splits if_splits)
  from evict_keeps_inv [OF inv ev] adm show ?thesis
  proof (cases rule: admit_unevicted_cases)
    case rejected
    then show ?thesis by (simp add: a with_revision_def Let_def ev)
  next
    case (pending st)
    have "shown ms1 k = shown ms k" if "publisher_of k = p" for k
      using known [OF pending(4)] pending(4) that
      by (auto simp: E live_publisher_def split: if_splits)
    then show ?thesis using pending known [OF pending(4)]
      by (auto simp: a with_revision_def Let_def MAX_FEE_ANNOUNCEMENT_TTL_def)
  next
    case (applied refresh_at)
    have keys: "keys_distinct (ms_fees ms1)" by (rule monitor_invD(1) [OF evict_keeps_inv [OF inv ev]])
    have cases: "b = Applied (admission_revision b) (length rows)" "shows_rows
        (ms1\<lparr>ms_fee_publishers := AList.update p
            \<lparr>ps_active = \<lparr>af_signed_expiration = e, af_refresh_at = refresh_at\<rparr>, ps_pending = None,
             ps_signed_expiration_high_water = e\<rparr> (ms_fee_publishers ms1)\<rparr>) p rows ms'"
      using apply_fee_announcement_cases [OF _ applied(1,8)] keys by auto
    have "ps_signed_expiration_high_water st < e" if "publishers ms p = Some st" for st
    proof (cases "publisher_expired wall_now st")
      case True
      then show ?thesis using applied(2) by (simp add: publisher_expired_def)
    next
      case False
      then show ?thesis using that applied(4) by (simp add: E(1) live_publisher_def)
    qed
    then show ?thesis using applied(2,3,6,7) shows_rowsD(1) [OF cases(2)]
      by (subst a, subst cases(1)) (auto simp: with_revision_def Let_def MAX_FEE_ANNOUNCEMENT_TTL_def
          MAX_FEE_ANNOUNCEMENT_REFRESH_INTERVAL_def apply_publishers [OF applied(8)])
  qed
qed

lemma announcement_outcome_witness:
  "\<exists>st'. map_of (ms_fee_publishers one_publisher) publisher_a = Some st'
    \<and> af_refresh_at (ps_active st') \<le> 0 + seconds 60"
  using announcement_outcome [OF reach_start [where step = monitor_step], of new_monitor_state publisher_a
      "seconds 300" "seconds 1" 0 "[row_a]" "Applied (Some 1) 1" one_publisher] one_publisher_eval(1)
  by (auto simp: publisher_a_def)

text \<open>
  The revision reported to the interface is honest: an announcement that reports a revision
  reports the current one, and one that reports none has changed no displayed row.
\<close>

theorem announcement_revision:
  fixes p :: fee_publisher_key
  assumes "monitor_reachable ms"
    "admit_fee_announcement (pk_chain_id p) (pk_railgun_address p) e wall_now mono_now rows ms = (a, ms')"
  shows "case admission_revision a of
      Some r \<Rightarrow> r = ms_rev ms' \<and> ms_rev ms' \<noteq> ms_rev ms
    | None \<Rightarrow> ms_rev ms' = ms_rev ms \<and> ms_fees ms' = ms_fees ms"
proof -
  have inv: "monitor_inv ms" by (rule monitor.reach_inv [OF assms(1)])
  obtain r ms1 where ev: "evict_expired_fee_publishers wall_now ms = (r, ms1)" by fastforce
  obtain b where adm: "admit_unevicted_fee_announcement (pk_chain_id p) (pk_railgun_address p) e wall_now mono_now rows ms1 = (b, ms')"
      and a: "a = with_revision r b"
    using assms(2) ev by (auto simp: admit_fee_announcement_def split: prod.splits)
  note evicted = evict_revision [OF ev]
  have "case admission_revision b of Some n \<Rightarrow> n = ms_rev ms' \<and> ms_rev ms' = ms_rev ms1 + 1
      | None \<Rightarrow> ms_rev ms' = ms_rev ms1 \<and> ms_fees ms' = ms_fees ms1"
    using evict_keeps_inv [OF inv ev] adm
  proof (cases rule: admit_unevicted_cases)
    case (applied refresh_at)
    then show ?thesis
      by (auto simp: apply_fee_announcement_def Let_def bump_rev_def split: if_splits)
  qed simp_all
  moreover have "ms_rev ms + 1 \<noteq> ms_rev ms" "ms_rev ms + 1 + 1 \<noteq> ms_rev ms" by simp_all
  ultimately show ?thesis using evicted
    by (cases b; cases r; cases "admission_revision b") (auto simp: a with_revision_def Let_def)
qed

lemma announcement_revision_witness: "ms_rev one_publisher \<noteq> ms_rev new_monitor_state"
  using announcement_revision [OF reach_start [where step = monitor_step], of new_monitor_state publisher_a
      "seconds 300" "seconds 1" 0 "[row_a]" "Applied (Some 1) 1" one_publisher] one_publisher_eval(1)
  by (auto simp: publisher_a_def)

definition row_b :: fee_row where
  "row_b = row_a\<lparr>fr_fee_expiration := seconds 400\<rparr>"

definition two_announcements :: monitor_state where
  "two_announcements =
    snd (admit_fee_announcement 1 ''0zk'' (seconds 400) (seconds 2) (seconds 1) [row_b] one_publisher)"

lemma two_announcements_eval:
  "admit_fee_announcement 1 ''0zk'' (seconds 400) (seconds 2) (seconds 1) [row_b] one_publisher
    = (Pending (seconds 60) None, two_announcements)"
  "ms_fee_publishers two_announcements = [(publisher_a, \<lparr>ps_active = \<lparr>af_signed_expiration = seconds 300,
      af_refresh_at = seconds 60\<rparr>, ps_pending = Some \<lparr>pf_signed_expiration = seconds 400, pf_rows = [row_b]\<rparr>,
      ps_signed_expiration_high_water = seconds 400\<rparr>)]"
  by (simp_all add: two_announcements_def one_publisher_eval admit_fee_announcement_def
      evict_expired_fee_publishers_def publisher_expired_def publisher_of_def admit_unevicted_fee_announcement_def
      candidate_rows_are_consistent_def row_b_def row_a_def fee_refresh_deadline_def MAX_FEE_ANNOUNCEMENT_TTL_def
      MAX_FEE_ANNOUNCEMENT_REFRESH_INTERVAL_def MAX_FEE_PUBLISHERS_PER_CHAIN_def apply_fee_announcement_def
      bump_rev_def with_revision_def row_key_def publisher_a_def)

lemma two_announcements_reachable: "monitor_reachable two_announcements"
proof (rule reach_step [where step = monitor_step, OF one_publisher_reachable])
  show "monitor_step one_publisher
      (Announce publisher_a (seconds 400) (seconds 2) (seconds 1) (Pending (seconds 60) None)) two_announcements"
    using two_announcements_eval(1) by (intro step_announce [where rows = "[row_b]"]) (simp add: publisher_a_def)
qed

text \<open>
  Promotion finishes its work: afterwards the next deadline, if any, lies in the future, so the
  timer does not fire again at once, and every pending generation that was due and still verifies
  against the clock is what its publisher shows.
\<close>

theorem promotion_completes:
  assumes "monitor_reachable ms" "promote_due_fee_announcements mono_now wall_now ms = (rs, ms')"
  shows "(\<forall>d. next_pending_fee_announcement_deadline ms' = Some d \<longrightarrow> mono_now < d)
    \<and> (\<forall>p st c k. map_of (ms_fee_publishers ms) p = Some st \<longrightarrow> ps_pending st = Some c
        \<longrightarrow> af_refresh_at (ps_active st) \<le> mono_now \<longrightarrow> wall_now < pf_signed_expiration c
        \<longrightarrow> pf_signed_expiration c \<le> wall_now + seconds 1800 \<longrightarrow> publisher_of k = p
        \<longrightarrow> same_row (map_of (ms_fees ms') k) (rows_map (pf_rows c) k))"
proof (intro conjI allI impI)
  have inv: "monitor_inv ms" by (rule monitor.reach_inv [OF assms(1)])
  have inv': "monitor_inv ms'"
    using promote_publishers_keeps_inv [OF inv] assms(2) by (simp add: promote_due_fee_announcements_def)
  fix d assume d: "next_pending_fee_announcement_deadline ms' = Some d"
  let ?ds = "map (\<lambda>(_, st). af_refresh_at (ps_active st))
      (filter (\<lambda>(_, st). ps_pending st \<noteq> None) (ms_fee_publishers ms'))"
  have "?ds \<noteq> []" "d = Min (set ?ds)"
    using d by (auto simp: next_pending_fee_announcement_deadline_def Let_def split: if_splits)
  then have "d \<in> set ?ds" using Min_in [of "set ?ds"] by (simp only: set_empty finite_set simp_thms)
  then obtain p st where "(p, st) \<in> set (ms_fee_publishers ms')" "ps_pending st \<noteq> None"
      "d = af_refresh_at (ps_active st)" by auto
  then show "mono_now < d"
    using promote_due_inv [OF inv assms(2), of p st] map_of_eq_Some [OF monitor_invD(2) [OF inv'], of p st] by auto
next
  have inv: "monitor_inv ms" by (rule monitor.reach_inv [OF assms(1)])
  fix p st c k
  assume st: "publishers ms p = Some st" "ps_pending st = Some c" and at: "af_refresh_at (ps_active st) \<le> mono_now"
    and live: "wall_now < pf_signed_expiration c" "pf_signed_expiration c \<le> wall_now + seconds 1800"
      "publisher_of k = p"
  let ?keys = "map fst (filter (\<lambda>(_, st). due mono_now st) (ms_fee_publishers ms))"
  have "p \<in> set ?keys" using map_of_SomeD [OF st(1)] st(2) at by (force simp: due_def)
  moreover have "distinct ?keys" using monitor_invD(2) [OF inv] by (simp add: keys_distinct_def distinct_map_filter)
  ultimately show "same_row (shown ms' k) (rows_map (pf_rows c) k)"
    using promote_publishers_effect [OF inv, of mono_now wall_now ?keys rs ms' p] assms(2) st live
    by (simp add: promote_due_fee_announcements_def MAX_FEE_ANNOUNCEMENT_TTL_def)
qed

lemma promotion_completes_witness:
  "same_row (map_of (ms_fees (snd (promote_due_fee_announcements (seconds 60) (seconds 70) two_announcements)))
      (row_key row_b)) (Some row_b)"
  using conjunct2 [OF promotion_completes [OF two_announcements_reachable prod.collapse [symmetric],
          of "seconds 60" "seconds 70"], rule_format, where p = publisher_a and k = "row_key row_b"
        and st = "\<lparr>ps_active = \<lparr>af_signed_expiration = seconds 300, af_refresh_at = seconds 60\<rparr>,
          ps_pending = Some \<lparr>pf_signed_expiration = seconds 400, pf_rows = [row_b]\<rparr>,
          ps_signed_expiration_high_water = seconds 400\<rparr>"
        and c = "\<lparr>pf_signed_expiration = seconds 400, pf_rows = [row_b]\<rparr>"]
  by (simp add: two_announcements_eval rows_map_def publisher_of_def) (simp add: publisher_a_def row_key_def row_b_def row_a_def)

end
