(* ===== verification/Transactions.thy ===== *)
theory Transactions
  imports Prelude
begin

text \<open>
  \<open>TransactionRequest\<close> of the \<open>alloy\<close> crate, with the fields that the source names; its opaque parts (a blob's
  sidecar, signed authorizations) are bytes. The RPC broker sends it, a swap paid from a Public account
  keeps it beside its hash.
\<close>

datatype tx_kind = CreateTx | CallTx address

record tx_input =
  ti_input :: "bytes option"
  ti_data :: "bytes option"

record access_list_item =
  al_address :: address
  al_storage_keys :: "b256 list"

record transaction_request =
  tr_from :: "address option"
  tr_to :: "tx_kind option"
  tr_gas_price :: "u128 option"
  tr_max_fee_per_gas :: "u128 option"
  tr_max_priority_fee_per_gas :: "u128 option"
  tr_gas :: "u64 option"
  tr_value :: "u256 option"
  tr_input :: tx_input
  tr_nonce :: "u64 option"
  tr_chain_id :: "u64 option"
  tr_access_list :: "access_list_item list option"
  tr_transaction_type :: "u8 option"
  tr_blob_versioned_hashes :: "b256 list option"
  tr_sidecar :: "bytes option"
  tr_authorization_list :: "bytes list option"

end
