(* ===== verification/RpcModel.thy ===== *)
theory RpcModel
  imports RpcOrigins Transactions
begin

text \<open>
  The data of the RPC broker, \<open>crates/wallet-ops/src/rpc_broker/model.rs\<close> and the enumeration of
  \<open>operation.rs\<close>: operations and reads, the classification of a read (batched, deduplicated, cached),
  the size limits of a submission, chain routes with their endpoints and roles, and the classes of
  failures.

  Types of the \<open>alloy\<close> crate appear with the fields that the source names. What the source computes
  with them by calling that crate (the unique input of a transaction, whether it has blob fields,
  encoded lengths, selectors) is the parameter \<open>lib\<close>. Atomically counted values (\<open>Arc\<close>) that the
  source compares by address are identified by a number.
\<close>

section \<open>Operations\<close>

datatype block_tag = Latest | Finalized | Safe | Earliest | PendingBlock | AtNumber u64

datatype block_id = ByNumber block_tag | ByHash (block_hash: b256) (require_canonical: "bool option")

text \<open>\<open>WithOtherFields<TransactionRequest>\<close>: the extras are names and JSON text.\<close>

record rpc_transaction = transaction_request +
  tr_other :: "(string \<times> string) list"

record account_override =
  ao_balance :: "u256 option"
  ao_nonce :: "u64 option"
  ao_code :: "bytes option"
  ao_state :: "(b256, b256) hash_map option"
  ao_state_diff :: "(b256, b256) hash_map option"

type_synonym state_override = "(address, account_override) hash_map"

datatype receipt_block = ReceiptHash b256 | ReceiptNumber block_tag

datatype rpc_operation =
    EthCall (call_request: rpc_transaction) (call_overrides: "state_override option") block_id
  | GetBalance address block_id
  | BlockNumber
  | GetCode address block_id
  | GetStorageAt address u256 block_id
  | GetTransactionCount address block_id
  | GetBlockByHash b256 bool
  | GetBlockByNumber block_tag bool
  | GetBlockTransactionCountByHash b256
  | GetBlockTransactionCountByNumber block_tag
  | GetTransactionByHash b256
  | GetTransactionReceipt b256
  | GetTransactionByBlockHashAndIndex b256 u256
  | GetTransactionByBlockNumberAndIndex block_tag u256
  | GetBlockReceipts receipt_block
  | GetLogs string "nat option"
  | GasPrice
  | MaxPriorityFeePerGas
  | FeeHistory u256 block_tag "string list option"
  | EstimateGas rpc_transaction "block_tag option"

record rpc_read = operation :: rpc_operation

record alloy_lib =
  unique_input :: "tx_input \<Rightarrow> unit + bytes option"
  first_input :: "tx_input \<Rightarrow> bytes option"
  has_eip4844_fields :: "rpc_transaction \<Rightarrow> bool"
  sidecar_size :: "bytes \<Rightarrow> nat"
  authorization_length :: "bytes \<Rightarrow> nat"
  json_writes :: "(string \<times> string) list \<Rightarrow> bytes list"
  msg_sender_independent :: "bytes list"

definition DEFAULT_ATTEMPT_TIMEOUT :: duration where "DEFAULT_ATTEMPT_TIMEOUT = seconds 10"
definition DEFAULT_REQUEST_TIMEOUT :: duration where "DEFAULT_REQUEST_TIMEOUT = seconds 30"
definition DEFAULT_MAX_CALLS :: nat where "DEFAULT_MAX_CALLS = 64"
definition DEFAULT_MAX_ESTIMATED_GAS :: u64 where "DEFAULT_MAX_ESTIMATED_GAS = 8000000"
definition DEFAULT_READ_GAS :: u64 where "DEFAULT_READ_GAS = 100000"
definition HEAD_FRESHNESS_LEASE :: duration where "HEAD_FRESHNESS_LEASE = seconds 120"
definition MAX_READ_INPUT_BYTES :: nat where "MAX_READ_INPUT_BYTES = 128 * 1024"
definition MAX_SUBMISSION_INPUT_BYTES :: nat where "MAX_SUBMISSION_INPUT_BYTES = 512 * 1024"

text \<open>\<open>usize\<close> is 64 bits wide; sizes are natural numbers with the overflow checks written out.\<close>

definition usize_add :: "nat \<Rightarrow> nat \<Rightarrow> nat option" where
  "usize_add a b = (if a + b < 2 ^ 64 then Some (a + b) else None)"

definition usize_mul :: "nat \<Rightarrow> nat \<Rightarrow> nat option" where
  "usize_mul a b = (if a * b < 2 ^ 64 then Some (a * b) else None)"

definition latest_block :: block_id where "latest_block = ByNumber Latest"

definition exact_transaction_hash :: "rpc_operation \<Rightarrow> bool" where
  "exact_transaction_hash op =
    (case op of GetTransactionByHash _ \<Rightarrow> True | GetTransactionReceipt _ \<Rightarrow> True | _ \<Rightarrow> False)"

definition reuse_block_id :: "rpc_read \<Rightarrow> block_id option" where
  "reuse_block_id r =
    (case operation r of EthCall _ _ block \<Rightarrow> Some block | GetBalance _ block \<Rightarrow> Some block | _ \<Rightarrow> None)"

definition estimated_gas :: "rpc_read \<Rightarrow> u64" where
  "estimated_gas r =
    (case operation r of
       EthCall request _ _ \<Rightarrow> (case tr_gas request of Some g \<Rightarrow> g | None \<Rightarrow> DEFAULT_READ_GAS)
     | GetBalance _ _ \<Rightarrow> 30000
     | _ \<Rightarrow> DEFAULT_READ_GAS)"

datatype rpc_read_validation_error = InvalidParams | ChainIdMismatch

definition from_rpc ::
    "alloy_lib \<Rightarrow> rpc_transaction \<Rightarrow> block_id \<Rightarrow> state_override option \<Rightarrow> u64
      \<Rightarrow> rpc_read_validation_error + rpc_read" where
  "from_rpc lib transaction block state_overrides route_chain_id =
    (if (case tr_chain_id transaction of Some chain \<Rightarrow> chain \<noteq> route_chain_id | None \<Rightarrow> False)
     then Inl ChainIdMismatch
     else (case unique_input lib (tr_input transaction) of
             Inl _ \<Rightarrow> Inl InvalidParams
           | Inr _ \<Rightarrow> Inr \<lparr>operation = EthCall transaction state_overrides block\<rparr>))"

section \<open>Input sizes\<close>

text \<open>The writes of the JSON serializer into \<open>InputSizeCounter\<close>; the first one past the limit fails.\<close>

fun count_writes :: "nat \<Rightarrow> bytes list \<Rightarrow> nat option" where
  "count_writes sz [] = Some sz"
| "count_writes sz (w # ws) =
    (case usize_add sz (length w) of
       None \<Rightarrow> None
     | Some sz' \<Rightarrow> if sz' \<le> MAX_READ_INPUT_BYTES then count_writes sz' ws else None)"

fun add_access_list :: "nat \<Rightarrow> access_list_item list \<Rightarrow> nat option" where
  "add_access_list sz [] = Some sz"
| "add_access_list sz (item # items) =
    Option.bind (usize_add sz 20) (\<lambda>sz.
    Option.bind (usize_mul (length (al_storage_keys item)) 32) (\<lambda>keys.
    Option.bind (usize_add sz keys) (\<lambda>sz. add_access_list sz items)))"

fun add_lengths :: "nat \<Rightarrow> nat list \<Rightarrow> nat option" where
  "add_lengths sz [] = Some sz"
| "add_lengths sz (n # ns) = Option.bind (usize_add sz n) (\<lambda>sz. add_lengths sz ns)"

definition transaction_input_size :: "alloy_lib \<Rightarrow> rpc_transaction \<Rightarrow> nat option" where
  "transaction_input_size lib request =
    Option.bind
      (case unique_input lib (tr_input request) of
         Inr (Some input) \<Rightarrow> Some (length input) | Inr None \<Rightarrow> Some 0 | Inl _ \<Rightarrow> None) (\<lambda>sz.
    Option.bind
      (case tr_access_list request of Some items \<Rightarrow> add_access_list sz items | None \<Rightarrow> Some sz) (\<lambda>sz.
    Option.bind
      (case tr_blob_versioned_hashes request of
         Some hashes \<Rightarrow> Option.bind (usize_mul (length hashes) 32) (usize_add sz)
       | None \<Rightarrow> Some sz) (\<lambda>sz.
    Option.bind
      (case tr_sidecar request of Some sidecar \<Rightarrow> usize_add sz (sidecar_size lib sidecar) | None \<Rightarrow> Some sz)
      (\<lambda>sz.
    Option.bind
      (case tr_authorization_list request of
         Some authorizations \<Rightarrow> add_lengths sz (map (authorization_length lib) authorizations)
       | None \<Rightarrow> Some sz) (\<lambda>sz.
    if tr_other request = [] then Some sz
    else Option.bind (count_writes 0 (json_writes lib (tr_other request))) (usize_add sz))))))"

fun add_overrides :: "nat \<Rightarrow> account_override list \<Rightarrow> nat option" where
  "add_overrides sz [] = Some sz"
| "add_overrides sz (account # accounts) =
    Option.bind
      (case ao_code account of Some code \<Rightarrow> usize_add sz (length code) | None \<Rightarrow> Some sz) (\<lambda>sz.
    Option.bind
      (case ao_state account of
         Some state \<Rightarrow> Option.bind (usize_mul (length state) 64) (usize_add sz) | None \<Rightarrow> Some sz) (\<lambda>sz.
    Option.bind
      (case ao_state_diff account of
         Some diff \<Rightarrow> Option.bind (usize_mul (length diff) 64) (usize_add sz) | None \<Rightarrow> Some sz)
      (\<lambda>sz. add_overrides sz accounts)))"

definition operation_input_size :: "alloy_lib \<Rightarrow> rpc_operation \<Rightarrow> nat option" where
  "operation_input_size lib op =
    (case op of
       GetLogs _ input_size \<Rightarrow> input_size
     | FeeHistory _ _ percentiles \<Rightarrow>
         usize_mul (case percentiles of Some ps \<Rightarrow> length ps | None \<Rightarrow> 0) 8
     | EstimateGas request _ \<Rightarrow> transaction_input_size lib request
     | _ \<Rightarrow> Some 0)"

definition decoded_input_size :: "alloy_lib \<Rightarrow> rpc_read \<Rightarrow> nat option" where
  "decoded_input_size lib r =
    (case operation r of
       EthCall request state_overrides _ \<Rightarrow>
         Option.bind (transaction_input_size lib request) (\<lambda>sz.
           case state_overrides of
             Some overrides \<Rightarrow> add_overrides sz (map snd overrides)
           | None \<Rightarrow> Some sz)
     | op \<Rightarrow> operation_input_size lib op)"

section \<open>Classification of reads\<close>

definition unwrap_or_zero :: "u256 option \<Rightarrow> u256" where
  "unwrap_or_zero v = (case v of Some x \<Rightarrow> x | None \<Rightarrow> 0)"

definition is_dedupable :: "alloy_lib \<Rightarrow> rpc_read \<Rightarrow> bool" where
  "is_dedupable lib r =
    (case operation r of
       GetBalance _ _ \<Rightarrow> True
     | EthCall request state_overrides _ \<Rightarrow>
         unwrap_or_zero (tr_value request) = 0 \<and> state_overrides = None
         \<and> \<not> has_eip4844_fields lib request \<and> tr_authorization_list request = None
         \<and> tr_other request = []
     | _ \<Rightarrow> False)"

definition is_cacheable :: "alloy_lib \<Rightarrow> rpc_read \<Rightarrow> bool" where
  "is_cacheable lib r =
    (case reuse_block_id r of
       None \<Rightarrow> False
     | Some block \<Rightarrow>
         (case block of
            ByNumber Latest \<Rightarrow> True
          | ByNumber (AtNumber _) \<Rightarrow> True
          | ByHash _ canonical \<Rightarrow> canonical \<noteq> Some True
          | ByNumber _ \<Rightarrow> False)
         \<and> is_dedupable lib r)"

definition is_multicall_eligible :: "alloy_lib \<Rightarrow> rpc_read \<Rightarrow> bool" where
  "is_multicall_eligible lib r =
    (case operation r of
       GetBalance _ _ \<Rightarrow> True
     | EthCall request state_overrides _ \<Rightarrow>
         if unwrap_or_zero (tr_value request) \<noteq> 0 \<or> tr_other request \<noteq> [] \<or> state_overrides \<noteq> None
           \<or> tr_gas request \<noteq> None \<or> tr_gas_price request \<noteq> None \<or> tr_chain_id request \<noteq> None
           \<or> tr_nonce request \<noteq> None \<or> tr_transaction_type request \<noteq> None
           \<or> tr_access_list request \<noteq> None \<or> tr_max_fee_per_gas request \<noteq> None
           \<or> tr_max_priority_fee_per_gas request \<noteq> None \<or> has_eip4844_fields lib request
           \<or> tr_authorization_list request \<noteq> None
           \<or> (case tr_to request of Some (CallTx _) \<Rightarrow> False | _ \<Rightarrow> True)
         then False
         else
           (case tr_from request of
              None \<Rightarrow> True
            | Some _ \<Rightarrow>
                (case first_input lib (tr_input request) of
                   None \<Rightarrow> False
                 | Some calldata \<Rightarrow> 4 \<le> length calldata
                     \<and> take 4 calldata \<in> set (msg_sender_independent lib)))
     | _ \<Rightarrow> False)"

section \<open>Chain routes\<close>

datatype rpc_transport = WalletTransport | DirectTransport

datatype rpc_traffic_class = General | Sensitive | Submission

record rpc_endpoint_roles =
  er_general :: bool
  er_sensitive :: bool
  er_submit :: bool

definition default_roles :: rpc_endpoint_roles where
  "default_roles = \<lparr>er_general = True, er_sensitive = True, er_submit = True\<rparr>"

definition allows :: "rpc_endpoint_roles \<Rightarrow> rpc_traffic_class \<Rightarrow> bool" where
  "allows roles cls =
    (case cls of General \<Rightarrow> er_general roles | Sensitive \<Rightarrow> er_sensitive roles | Submission \<Rightarrow> er_submit roles)"

record rpc_class_unavailable =
  cu_chain_id :: u64
  cu_class :: rpc_traffic_class

record route_isolation =
  ri_id :: u64
  ri_client :: nat

record rpc_chain_route =
  cr_chain_id :: u64
  cr_endpoints :: "url list"
  cr_transports :: "rpc_transport list"
  cr_roles :: "rpc_endpoint_roles list"
  cr_multicall :: "address option"
  cr_verify_identity :: bool
  cr_verified_identities :: nat
  cr_isolation :: "route_isolation option"
  cr_tron :: "nat option"

definition isolation_id :: "rpc_chain_route \<Rightarrow> u64 option" where
  "isolation_id route = map_option ri_id (cr_isolation route)"

text \<open>The hand-written \<open>PartialEq\<close> of routes, by the part of a route that it compares.\<close>

definition route_key :: "rpc_chain_route \<Rightarrow> rpc_chain_route" where
  "route_key route = route\<lparr>cr_verified_identities := 0,
    cr_isolation := map_option (\<lambda>i. \<lparr>ri_id = ri_id i, ri_client = 0\<rparr>) (cr_isolation route)\<rparr>"

definition chain_route_eq :: "rpc_chain_route \<Rightarrow> rpc_chain_route \<Rightarrow> bool" where
  "chain_route_eq a b \<longleftrightarrow>
    cr_chain_id a = cr_chain_id b \<and> cr_endpoints a = cr_endpoints b
    \<and> cr_transports a = cr_transports b \<and> cr_roles a = cr_roles b \<and> cr_multicall a = cr_multicall b
    \<and> cr_verify_identity a = cr_verify_identity b \<and> isolation_id a = isolation_id b
    \<and> cr_tron a = cr_tron b"

text \<open>\<open>fresh\<close> identifies the \<open>Arc\<close> of verified identities that the constructor allocates.\<close>

definition new_with_transports ::
    "nat \<Rightarrow> u64 \<Rightarrow> (url \<times> rpc_transport \<times> rpc_endpoint_roles) list \<Rightarrow> rpc_chain_route" where
  "new_with_transports fresh chain_id endpoints =
    \<lparr>cr_chain_id = chain_id, cr_endpoints = map fst endpoints,
     cr_transports = map (fst \<circ> snd) endpoints, cr_roles = map (snd \<circ> snd) endpoints,
     cr_multicall = None, cr_verify_identity = False, cr_verified_identities = fresh,
     cr_isolation = None, cr_tron = None\<rparr>"

definition new_chain_route :: "nat \<Rightarrow> u64 \<Rightarrow> url list \<Rightarrow> rpc_chain_route" where
  "new_chain_route fresh chain_id endpoints =
    new_with_transports fresh chain_id (map (\<lambda>e. (e, WalletTransport, default_roles)) endpoints)"

text \<open>\<open>NEXT_ROUTE_ISOLATION\<close> is the counter that is passed in and returned.\<close>

definition isolated :: "nat \<Rightarrow> u64 \<Rightarrow> rpc_chain_route \<Rightarrow> rpc_chain_route \<times> u64" where
  "isolated client next_id route =
    (route\<lparr>cr_isolation := Some \<lparr>ri_id = next_id, ri_client = client\<rparr>\<rparr>, next_id + 1)"

text \<open>Indexing outside the parallel arrays would panic; \<open>None\<close> is that panic.\<close>

definition retain_route ::
    "(url \<Rightarrow> rpc_endpoint_roles \<Rightarrow> bool) \<Rightarrow> rpc_chain_route \<Rightarrow> rpc_chain_route option" where
  "retain_route keep route =
    (if length (cr_endpoints route) \<le> length (cr_roles route) then
       let kept = filter (\<lambda>i. keep (cr_endpoints route ! i) (cr_roles route ! i))
                    [0..<length (cr_endpoints route)]
       in if \<forall>i \<in> set kept. i < length (cr_transports route) then
            Some (route\<lparr>cr_endpoints := map (\<lambda>i. cr_endpoints route ! i) kept,
                    cr_transports := map (\<lambda>i. cr_transports route ! i) kept,
                    cr_roles := map (\<lambda>i. cr_roles route ! i) kept\<rparr>)
          else None
     else None)"

definition for_endpoint :: "url \<Rightarrow> rpc_chain_route \<Rightarrow> rpc_chain_route option" where
  "for_endpoint endpoint route = retain_route (\<lambda>configured _. configured = endpoint) route"

record class_route =
  cl_class :: rpc_traffic_class
  cl_route :: rpc_chain_route

definition for_class ::
    "rpc_traffic_class \<Rightarrow> rpc_chain_route \<Rightarrow> (rpc_class_unavailable + class_route) option" where
  "for_class cls route =
    map_option (\<lambda>kept.
      if cr_endpoints kept = []
      then Inl \<lparr>cu_chain_id = cr_chain_id route, cu_class = cls\<rparr>
      else Inr \<lparr>cl_class = cls, cl_route = kept\<rparr>)
      (retain_route (\<lambda>_ roles. allows roles cls) route)"

fun index_of :: "url \<Rightarrow> url list \<Rightarrow> nat option" where
  "index_of u [] = None"
| "index_of u (v # vs) = (if v = u then Some 0 else map_option Suc (index_of u vs))"

definition endpoint_transport :: "url \<Rightarrow> rpc_chain_route \<Rightarrow> rpc_transport option" where
  "endpoint_transport endpoint route =
    (case index_of endpoint (cr_endpoints route) of
       None \<Rightarrow> Some WalletTransport
     | Some i \<Rightarrow> if i < length (cr_transports route) then Some (cr_transports route ! i) else None)"

definition configured_settings ::
    "rpc_chain_route \<Rightarrow> (url \<times> rpc_transport \<times> rpc_endpoint_roles) list" where
  "configured_settings route = zip (cr_endpoints route) (zip (cr_transports route) (cr_roles route))"

datatype http_client = SharedClient rpc_transport | IsolatedClient nat

definition read_client :: "url \<Rightarrow> rpc_chain_route \<Rightarrow> http_client option" where
  "read_client endpoint route =
    map_option (\<lambda>transport.
      case (transport, cr_isolation route) of
        (WalletTransport, Some isolation) \<Rightarrow> IsolatedClient (ri_client isolation)
      | _ \<Rightarrow> SharedClient transport) (endpoint_transport endpoint route)"

record rpc_route =
  rt_chain :: rpc_chain_route
  rt_max_calls :: nat
  rt_max_estimated_gas :: u64
  rt_request_timeout :: "duration option"
  rt_attempt_timeout :: duration

definition new_rpc_route :: "rpc_chain_route \<Rightarrow> rpc_route" where
  "new_rpc_route chain =
    \<lparr>rt_chain = chain, rt_max_calls = DEFAULT_MAX_CALLS,
     rt_max_estimated_gas = DEFAULT_MAX_ESTIMATED_GAS,
     rt_request_timeout = Some DEFAULT_REQUEST_TIMEOUT,
     rt_attempt_timeout = DEFAULT_ATTEMPT_TIMEOUT\<rparr>"

definition with_attempt_timeout :: "duration \<Rightarrow> rpc_route \<Rightarrow> rpc_route" where
  "with_attempt_timeout timeout route =
    route\<lparr>rt_attempt_timeout := if timeout = 0 then DEFAULT_ATTEMPT_TIMEOUT else timeout\<rparr>"

section \<open>Identities\<close>

datatype read_identity =
    Individual u64
  | CallIdentity u64 "u64 option" block_id rpc_transaction
  | BalanceIdentity u64 "u64 option" block_id address

definition identity_for_route :: "rpc_route \<Rightarrow> rpc_read \<Rightarrow> read_identity" where
  "identity_for_route route r =
    (let chain_id = cr_chain_id (rt_chain route); isolation = isolation_id (rt_chain route) in
     case operation r of
       EthCall request _ block \<Rightarrow>
         if tr_other request = [] then CallIdentity chain_id isolation block request
         else Individual chain_id
     | GetBalance account block \<Rightarrow> BalanceIdentity chain_id isolation block account
     | _ \<Rightarrow> Individual chain_id)"

definition identity_chain_id :: "read_identity \<Rightarrow> u64" where
  "identity_chain_id i =
    (case i of CallIdentity c _ _ _ \<Rightarrow> c | BalanceIdentity c _ _ _ \<Rightarrow> c | Individual c \<Rightarrow> c)"

definition identity_block :: "read_identity \<Rightarrow> block_id option" where
  "identity_block i =
    (case i of CallIdentity _ _ b _ \<Rightarrow> Some b | BalanceIdentity _ _ b _ \<Rightarrow> Some b | Individual _ \<Rightarrow> None)"

section \<open>Errors and submissions\<close>

text \<open>Remote errors are known by their code, reverts by their bytes; payloads are not inspected.\<close>

datatype rpc_broker_error =
    OriginRejected
  | InvalidRead rpc_read_validation_error
  | ResponseTooLarge
  | AdmissionRejected
  | ShutdownError
  | NoEndpoint u64
  | ClassUnavailable rpc_class_unavailable
  | Remote int
  | HttpStatus nat
  | InnerRevert bytes
  | TimeoutError
  | TimeoutBeforeDispatch
  | TransportError
  | InvalidResponse

datatype failure_class = RecoverableByReduction | Transient | Unrecoverable

datatype json_rpc_failure_policy = Reducible | TransientStrike | UnrecoverableStrike | UnrecoverableNeutral

definition policy_failure_class :: "json_rpc_failure_policy \<Rightarrow> failure_class" where
  "policy_failure_class p =
    (case p of Reducible \<Rightarrow> RecoverableByReduction | TransientStrike \<Rightarrow> Transient
     | UnrecoverableStrike \<Rightarrow> Unrecoverable | UnrecoverableNeutral \<Rightarrow> Unrecoverable)"

definition policy_of_code :: "int \<Rightarrow> json_rpc_failure_policy" where
  "policy_of_code code =
    (if code = - 32000 \<or> code = - 32016 then Reducible
     else if code = - 32005 then TransientStrike
     else if code = - 32601 \<or> code = - 32603 then UnrecoverableStrike
     else UnrecoverableNeutral)"

definition is_transient_http_status :: "nat \<Rightarrow> bool" where
  "is_transient_http_status status = (status = 429 \<or> 500 \<le> status \<and> status \<le> 599)"

definition failure_class_of :: "rpc_broker_error \<Rightarrow> failure_class" where
  "failure_class_of e =
    (case e of
       Remote code \<Rightarrow> policy_failure_class (policy_of_code code)
     | TimeoutError \<Rightarrow> Transient
     | TimeoutBeforeDispatch \<Rightarrow> Transient
     | TransportError \<Rightarrow> Transient
     | HttpStatus status \<Rightarrow> if is_transient_http_status status then Transient else Unrecoverable
     | _ \<Rightarrow> Unrecoverable)"

fun first_error :: "(rpc_broker_error + 'a) list \<Rightarrow> rpc_broker_error option" where
  "first_error [] = None"
| "first_error (Inl e # rs) = Some e"
| "first_error (Inr _ # rs) = first_error rs"

definition total_failure :: "(rpc_broker_error + 'a) list \<Rightarrow> rpc_broker_error option" where
  "total_failure results =
    (if list_ex (\<lambda>r. case r of Inr _ \<Rightarrow> True | Inl (InnerRevert _) \<Rightarrow> True | Inl _ \<Rightarrow> False) results
     then None else first_error results)"

record rpc_submission =
  sub_route :: rpc_route
  sub_reads :: "rpc_read list"
  sub_origin :: rpc_origin

definition operation_request :: "rpc_operation \<Rightarrow> rpc_transaction option" where
  "operation_request op =
    (case op of EthCall request _ _ \<Rightarrow> Some request | EstimateGas request _ \<Rightarrow> Some request | _ \<Rightarrow> None)"

fun validate_reads ::
    "alloy_lib \<Rightarrow> u64 \<Rightarrow> bool \<Rightarrow> nat \<Rightarrow> rpc_read list \<Rightarrow> rpc_broker_error + unit" where
  "validate_reads lib chain_id wallet total_size [] = Inr ()"
| "validate_reads lib chain_id wallet total_size (r # rs) =
    (if operation_request (operation r) = None \<and> exact_transaction_hash (operation r) \<and> wallet
     then Inl OriginRejected
     else if (case Option.bind (operation_request (operation r)) tr_chain_id of
                Some chain \<Rightarrow> chain \<noteq> chain_id | None \<Rightarrow> False)
     then Inl (InvalidRead ChainIdMismatch)
     else
       (case decoded_input_size lib r of
          None \<Rightarrow> Inl AdmissionRejected
        | Some read_size \<Rightarrow>
            if MAX_READ_INPUT_BYTES < read_size then Inl AdmissionRejected
            else
              (case usize_add total_size read_size of
                 None \<Rightarrow> Inl AdmissionRejected
               | Some total' \<Rightarrow>
                   if MAX_SUBMISSION_INPUT_BYTES < total' then Inl AdmissionRejected
                   else validate_reads lib chain_id wallet total' rs)))"

definition validate_admission :: "alloy_lib \<Rightarrow> rpc_submission \<Rightarrow> rpc_broker_error + unit" where
  "validate_admission lib s =
    (if (case read_limit (sub_origin s) of Some limit \<Rightarrow> limit < length (sub_reads s) | None \<Rightarrow> False)
     then Inl AdmissionRejected
     else validate_reads lib (cr_chain_id (rt_chain (sub_route s)))
            (case sub_origin s of WalletOrigin _ \<Rightarrow> True | DappOrigin _ _ \<Rightarrow> False) 0 (sub_reads s))"

section \<open>Routes keep their arrays aligned\<close>

definition aligned :: "rpc_chain_route \<Rightarrow> bool" where
  "aligned route \<longleftrightarrow>
    length (cr_transports route) = length (cr_endpoints route)
    \<and> length (cr_roles route) = length (cr_endpoints route)"

lemma aligned_new [simp, intro]: "aligned (new_with_transports fresh c es)"
  by (simp add: aligned_def new_with_transports_def)

lemma aligned_isolated [simp, intro]: "aligned route \<Longrightarrow> aligned (fst (isolated client n route))"
  by (simp add: aligned_def isolated_def)

lemma configured_settings_new: "configured_settings (new_with_transports fresh c es) = es"
  by (induction es) (auto simp: configured_settings_def new_with_transports_def)

lemma zip_map_nth_filter:
  "zip (map (\<lambda>i. xs ! i) ks) (zip (map (\<lambda>i. ys ! i) ks) (map (\<lambda>i. zs ! i) ks))
    = map (\<lambda>i. (xs ! i, ys ! i, zs ! i)) ks"
  by (induction ks) simp_all

lemma retain_route_settings:
  assumes "aligned route"
  obtains route' where "retain_route keep route = Some route'" "aligned route'"
    "configured_settings route' = filter (\<lambda>(e, t, r). keep e r) (configured_settings route)"
    "cr_chain_id route' = cr_chain_id route" "cr_verified_identities route' = cr_verified_identities route"
    "cr_isolation route' = cr_isolation route"
proof -
  let ?n = "length (cr_endpoints route)"
  let ?ks = "filter (\<lambda>i. keep (cr_endpoints route ! i) (cr_roles route ! i)) [0..<?n]"
  let ?r = "route\<lparr>cr_endpoints := map (\<lambda>i. cr_endpoints route ! i) ?ks,
      cr_transports := map (\<lambda>i. cr_transports route ! i) ?ks, cr_roles := map (\<lambda>i. cr_roles route ! i) ?ks\<rparr>"
  have some: "retain_route keep route = Some ?r"
    using assms by (simp add: retain_route_def aligned_def Let_def)
  let ?f = "\<lambda>i. (cr_endpoints route ! i, cr_transports route ! i, cr_roles route ! i)"
  have settings: "configured_settings route = map ?f [0..<?n]"
    using assms by (intro nth_equalityI) (auto simp: configured_settings_def aligned_def)
  have "configured_settings ?r = map ?f ?ks"
    by (simp add: configured_settings_def zip_map_nth_filter)
  also have "\<dots> = filter (\<lambda>(e, t, r). keep e r) (configured_settings route)"
    unfolding settings by (simp add: filter_map comp_def)
  finally show ?thesis using that [OF some] by (simp add: aligned_def)
qed

lemma settings_endpoints: "aligned route \<Longrightarrow> map fst (configured_settings route) = cr_endpoints route"
  by (simp add: configured_settings_def aligned_def)

lemma cacheable_dedupable: "is_cacheable lib r \<Longrightarrow> is_dedupable lib r"
  by (simp add: is_cacheable_def split: option.splits)

section \<open>Properties\<close>

text \<open>
  Traffic classes. Restricting a route to a class keeps exactly the endpoints whose roles accept
  it, in configured order and with their transports and roles; the rest of the route is unchanged.
  It fails exactly when no endpoint accepts the class, and never by an index out of range.
\<close>

theorem class_route_endpoints:
  assumes "aligned route"
  shows "case for_class cls route of
      None \<Rightarrow> False
    | Some (Inl e) \<Rightarrow> e = \<lparr>cu_chain_id = cr_chain_id route, cu_class = cls\<rparr>
        \<and> (\<forall>(u, t, r) \<in> set (configured_settings route). \<not> allows r cls)
    | Some (Inr c) \<Rightarrow> cl_class c = cls \<and> aligned (cl_route c) \<and> cr_endpoints (cl_route c) \<noteq> []
        \<and> configured_settings (cl_route c)
            = filter (\<lambda>(u, t, r). allows r cls) (configured_settings route)
        \<and> cr_chain_id (cl_route c) = cr_chain_id route
        \<and> cr_verified_identities (cl_route c) = cr_verified_identities route
        \<and> cr_isolation (cl_route c) = cr_isolation route"
proof -
  obtain kept where kept: "retain_route (\<lambda>_ roles. allows roles cls) route = Some kept" "aligned kept"
      "configured_settings kept = filter (\<lambda>(u, t, r). allows r cls) (configured_settings route)"
      "cr_chain_id kept = cr_chain_id route"
      "cr_verified_identities kept = cr_verified_identities route" "cr_isolation kept = cr_isolation route"
    by (rule retain_route_settings [OF assms])
  have "cr_endpoints kept = [] \<longleftrightarrow> (\<forall>(u, t, r) \<in> set (configured_settings route). \<not> allows r cls)"
    unfolding settings_endpoints [OF kept(2), symmetric] kept(3) by (auto simp: filter_empty_conv)
  then show ?thesis using kept(2-) by (simp add: for_class_def kept(1))
qed

definition sample_route :: rpc_chain_route where
  "sample_route = new_with_transports 0 1
    [(''a'', WalletTransport, default_roles),
     (''b'', DirectTransport, default_roles\<lparr>er_sensitive := False\<rparr>)]"

lemma class_route_endpoints_witness:
  "\<exists>c. for_class Sensitive sample_route = Some (Inr c)
    \<and> configured_settings (cl_route c) = [(''a'', WalletTransport, default_roles)]"
  using class_route_endpoints [of sample_route Sensitive]
  by (auto simp: sample_route_def configured_settings_new allows_def default_roles_def
      split: option.splits sum.splits)

text \<open>
  C30: A deduplicated read is determined by its identity: if two reads that may be deduplicated get
  the same identity on their routes, they are the same operation on the same chain, the routes have
  the same isolation, and the identity is not the shared placeholder of individual work. Together
  with \<open>cacheable_dedupable\<close> a cached result can only answer the read it was obtained for.
\<close>

theorem identity_determines_read:
  assumes "is_dedupable lib a" "is_dedupable lib b"
    "identity_for_route ra a = identity_for_route rb b"
  shows "operation a = operation b \<and> cr_chain_id (rt_chain ra) = cr_chain_id (rt_chain rb)
    \<and> isolation_id (rt_chain ra) = isolation_id (rt_chain rb)
    \<and> identity_for_route ra a \<noteq> Individual (cr_chain_id (rt_chain ra))"
  using assms
  by (cases "operation a"; cases "operation b")
    (simp_all add: is_dedupable_def identity_for_route_def Let_def)

definition balance_read :: rpc_read where
  "balance_read = \<lparr>operation = GetBalance 5 latest_block\<rparr>"

lemma identity_determines_read_witness:
  "identity_for_route (new_rpc_route sample_route) balance_read \<noteq> Individual 1"
  using identity_determines_read [of undefined balance_read balance_read "new_rpc_route sample_route"
      "new_rpc_route sample_route"]
  by (simp add: is_dedupable_def balance_read_def new_rpc_route_def sample_route_def new_with_transports_def)

lemma validate_reads_iff:
  assumes "sum0 \<le> MAX_SUBMISSION_INPUT_BYTES"
  shows "validate_reads lib chain wallet sum0 rs = Inr () \<longleftrightarrow>
    (\<forall>r \<in> set rs. \<not> (exact_transaction_hash (operation r) \<and> wallet)
        \<and> (\<forall>request c. operation_request (operation r) = Some request \<longrightarrow> tr_chain_id request = Some c \<longrightarrow> c = chain)
        \<and> (\<exists>n. decoded_input_size lib r = Some n \<and> n \<le> MAX_READ_INPUT_BYTES))
    \<and> sum0 + sum_list (map (\<lambda>r. the (decoded_input_size lib r)) rs) \<le> MAX_SUBMISSION_INPUT_BYTES"
  using assms
proof (induction rs arbitrary: sum0)
  case Nil
  then show ?case by simp
next
  case (Cons r rs)
  have hash: "exact_transaction_hash (operation r) \<Longrightarrow> operation_request (operation r) = None"
    by (cases "operation r") (simp_all add: exact_transaction_hash_def operation_request_def)
  show ?case
  proof (cases "decoded_input_size lib r")
    case None
    then show ?thesis by auto
  next
    case (Some n)
    have fits: "usize_add sum0 n = Some (sum0 + n)" if "n \<le> MAX_READ_INPUT_BYTES"
      using that Cons.prems by (simp add: usize_add_def MAX_READ_INPUT_BYTES_def MAX_SUBMISSION_INPUT_BYTES_def)
    show ?thesis using Cons.IH [of "sum0 + n"] Some hash fits
      by (auto simp: not_le ac_simps split: option.split bind_splits)
  qed
qed

text \<open>
  The outcome of admission control for a submission: it is accepted exactly when a dapp sends at
  most 64 reads, no wallet origin asks for a transaction by its hash, every call or gas estimate
  that names a chain names the route's, every read has a decoded input of at most 128 KiB and all of
  them together of at most 512 KiB.
\<close>

theorem admission_of_submissions:
  "validate_admission lib s = Inr () \<longleftrightarrow>
    (\<forall>p u. sub_origin s = DappOrigin p u \<longrightarrow> length (sub_reads s) \<le> 64)
    \<and> (\<forall>r \<in> set (sub_reads s).
        \<not> (exact_transaction_hash (operation r) \<and> (\<exists>w. sub_origin s = WalletOrigin w))
        \<and> (\<forall>request c. operation_request (operation r) = Some request \<longrightarrow> tr_chain_id request = Some c
            \<longrightarrow> c = cr_chain_id (rt_chain (sub_route s)))
        \<and> (\<exists>n. decoded_input_size lib r = Some n \<and> n \<le> 128 * 1024))
    \<and> sum_list (map (\<lambda>r. the (decoded_input_size lib r)) (sub_reads s)) \<le> 512 * 1024"
proof -
  have origin: "(case read_limit (sub_origin s) of Some limit \<Rightarrow> limit < length (sub_reads s) | None \<Rightarrow> False)
      \<longleftrightarrow> \<not> (\<forall>p u. sub_origin s = DappOrigin p u \<longrightarrow> length (sub_reads s) \<le> 64)"
    by (cases "sub_origin s") (auto simp: read_limit_def MAX_SUBMISSION_READS_def)
  have wallet: "(case sub_origin s of WalletOrigin _ \<Rightarrow> True | DappOrigin _ _ \<Rightarrow> False)
      \<longleftrightarrow> (\<exists>w. sub_origin s = WalletOrigin w)"
    by (cases "sub_origin s") auto
  show ?thesis unfolding validate_admission_def origin
    using validate_reads_iff [of 0 lib "cr_chain_id (rt_chain (sub_route s))"
        "case sub_origin s of WalletOrigin _ \<Rightarrow> True | DappOrigin _ _ \<Rightarrow> False" "sub_reads s"]
    unfolding wallet MAX_READ_INPUT_BYTES_def MAX_SUBMISSION_INPUT_BYTES_def by auto
qed

definition sample_lib :: alloy_lib where
  "sample_lib = \<lparr>unique_input = \<lambda>i. Inr (ti_input i), first_input = ti_input,
    has_eip4844_fields = \<lambda>r. tr_sidecar r \<noteq> None, sidecar_size = length, authorization_length = length,
    json_writes = \<lambda>_. [], msg_sender_independent = []\<rparr>"

lemma admission_of_submissions_witness:
  "validate_admission sample_lib \<lparr>sub_route = new_rpc_route sample_route, sub_reads = [balance_read],
    sub_origin = DappOrigin ''p'' ''u''\<rparr> = Inr ()"
  by (rule iffD2 [OF admission_of_submissions])
    (simp add: balance_read_def exact_transaction_hash_def operation_request_def decoded_input_size_def
      operation_input_size_def)

end
