(* ===== verification/ReadCache.thy ===== *)
theory ReadCache
  imports RpcModel
begin

text \<open>
  \<open>crates/wallet-ops/src/rpc_broker/cache.rs\<close>: the broker's cache of completed reads, bounded to 1024
  entries in insertion order, and the heads it has observed. A head carries a generation that a
  reorganisation or an expired lease advances, so that the pair of height and generation, the latest
  epoch, tells results obtained before from results obtained after.

  Entries are iterated over and form an association list; heads are only looked up and form a map.
  The clock that \<open>elapsed\<close> reads is the argument \<open>now\<close>. Results are opaque strings.
\<close>

section \<open>State and operations\<close>

type_synonym rpc_result = string

definition READ_CACHE_ENTRY_LIMIT :: nat where "READ_CACHE_ENTRY_LIMIT = 1024"

record latest_epoch =
  le_block_number :: u64
  le_generation :: u64

record head_observation =
  ho_block_number :: u64
  ho_observed_at :: instant
  ho_usable :: bool
  ho_generation :: "u64 option"

definition latest_epoch_of :: "head_observation \<Rightarrow> latest_epoch option" where
  "latest_epoch_of h =
    (if ho_usable h
     then map_option (\<lambda>g. \<lparr>le_block_number = ho_block_number h, le_generation = g\<rparr>) (ho_generation h)
     else None)"

type_synonym cache_value = "u64 option \<times> (rpc_broker_error + rpc_result)"

record read_cache =
  rc_entries :: "(read_identity, cache_value) hash_map"
  rc_order :: "read_identity list"
  rc_current_blocks :: "u64 \<rightharpoonup> head_observation"

definition empty_cache :: read_cache where
  "empty_cache = \<lparr>rc_entries = [], rc_order = [], rc_current_blocks = Map.empty\<rparr>"

definition lookup ::
    "read_identity \<Rightarrow> u64 option \<Rightarrow> read_cache \<Rightarrow> (rpc_broker_error + rpc_result) option" where
  "lookup identity expected_epoch c =
    (case map_of (rc_entries c) identity of
       None \<Rightarrow> None
     | Some (observed, value) \<Rightarrow> if observed = expected_epoch then Some value else None)"

definition is_latest_of :: "u64 \<Rightarrow> read_identity \<Rightarrow> bool" where
  "is_latest_of chain_id i \<longleftrightarrow>
    identity_chain_id i = chain_id \<and> identity_block i = Some (ByNumber Latest)"

definition evict_latest :: "u64 \<Rightarrow> read_cache \<Rightarrow> read_cache" where
  "evict_latest chain_id c =
    c\<lparr>rc_entries := filter (\<lambda>(i, _). \<not> is_latest_of chain_id i) (rc_entries c),
      rc_order := filter (\<lambda>i. \<not> is_latest_of chain_id i) (rc_order c)\<rparr>"

definition invalidate_head :: "u64 \<Rightarrow> read_cache \<Rightarrow> read_cache" where
  "invalidate_head chain_id c =
    evict_latest chain_id
      (case rc_current_blocks c chain_id of
         Some h \<Rightarrow>
           if ho_usable h
           then c\<lparr>rc_current_blocks := (rc_current_blocks c)(chain_id \<mapsto>
                  h\<lparr>ho_usable := False,
                    ho_generation := Option.bind (ho_generation h) (\<lambda>g. checked_add g 1)\<rparr>)\<rparr>
           else c
       | None \<Rightarrow> c)"

definition reconcile_latest_cache_epoch ::
    "u64 \<Rightarrow> instant \<Rightarrow> read_cache \<Rightarrow> latest_epoch option \<times> read_cache" where
  "reconcile_latest_cache_epoch chain_id now c =
    (let c1 = (if (case rc_current_blocks c chain_id of
                     Some h \<Rightarrow> HEAD_FRESHNESS_LEASE < now - ho_observed_at h | None \<Rightarrow> False)
               then invalidate_head chain_id c else c)
     in (Option.bind (rc_current_blocks c1 chain_id) latest_epoch_of, c1))"

definition renew_head :: "u64 \<Rightarrow> u64 \<Rightarrow> instant \<Rightarrow> read_cache \<Rightarrow> bool \<times> read_cache" where
  "renew_head chain_id block_number now c =
    (case rc_current_blocks c chain_id of
       Some h \<Rightarrow>
         if block_number = ho_block_number h
         then (True, c\<lparr>rc_current_blocks := (rc_current_blocks c)(chain_id \<mapsto>
                h\<lparr>ho_observed_at := now, ho_usable := (ho_generation h \<noteq> None)\<rparr>)\<rparr>)
         else (False, c)
     | None \<Rightarrow> (False, c))"

definition observe_head :: "u64 \<Rightarrow> u64 \<Rightarrow> instant \<Rightarrow> read_cache \<Rightarrow> bool \<times> read_cache" where
  "observe_head chain_id block_number now c =
    (let advanced = (case rc_current_blocks c chain_id of
           None \<Rightarrow> True | Some old \<Rightarrow> ho_block_number old < block_number)
     in if advanced then
          (True, evict_latest chain_id (c\<lparr>rc_current_blocks := (rc_current_blocks c)(chain_id \<mapsto>
             \<lparr>ho_block_number = block_number, ho_observed_at = now, ho_usable = True,
              ho_generation = Some 0\<rparr>)\<rparr>))
        else
          renew_head chain_id block_number now
            (if (case rc_current_blocks c chain_id of
                   Some old \<Rightarrow> block_number = ho_block_number old
                     \<and> HEAD_FRESHNESS_LEASE < now - ho_observed_at old
                 | None \<Rightarrow> False)
             then invalidate_head chain_id c else c))"

fun evict_oldest ::
    "(read_identity, cache_value) hash_map \<Rightarrow> read_identity list
      \<Rightarrow> (read_identity, cache_value) hash_map \<times> read_identity list" where
  "evict_oldest entries [] = (entries, [])"
| "evict_oldest entries (oldest # order) =
    (if READ_CACHE_ENTRY_LIMIT < length entries
     then evict_oldest (AList.delete oldest entries) order
     else (entries, oldest # order))"

definition insert_read ::
    "read_identity \<Rightarrow> u64 option \<Rightarrow> rpc_broker_error + rpc_result \<Rightarrow> read_cache \<Rightarrow> read_cache" where
  "insert_read identity observed value c =
    (case evict_oldest (AList.update identity (observed, value) (rc_entries c))
            (filter (\<lambda>existing. existing \<noteq> identity) (rc_order c) @ [identity]) of
       (entries, order) \<Rightarrow> c\<lparr>rc_entries := entries, rc_order := order\<rparr>)"

definition latest_is_current :: "u64 \<Rightarrow> latest_epoch option \<Rightarrow> instant \<Rightarrow> read_cache \<Rightarrow> bool" where
  "latest_is_current chain_id epoch now c =
    (case rc_current_blocks c chain_id of
       None \<Rightarrow> False
     | Some head \<Rightarrow> epoch \<noteq> None \<and> epoch = latest_epoch_of head
         \<and> now - ho_observed_at head \<le> HEAD_FRESHNESS_LEASE)"

section \<open>Steps\<close>

datatype cache_event =
    Reconcile u64 instant
  | Observe u64 u64 instant
  | Invalidate u64
  | InsertRead read_identity "u64 option"

inductive cache_step :: "read_cache \<Rightarrow> cache_event \<Rightarrow> read_cache \<Rightarrow> bool" where
  step_reconcile: "reconcile_latest_cache_epoch chain_id now c = (e, c')
    \<Longrightarrow> cache_step c (Reconcile chain_id now) c'"
| step_observe: "observe_head chain_id block_number now c = (r, c')
    \<Longrightarrow> cache_step c (Observe chain_id block_number now) c'"
| step_invalidate: "cache_step c (Invalidate chain_id) (invalidate_head chain_id c)"
| step_insert: "cache_step c (InsertRead i observed) (insert_read i observed value c)"

inductive_cases cache_stepE: "cache_step c e c'"

section \<open>The bound and the order\<close>

definition cache_inv :: "read_cache \<Rightarrow> bool" where
  "cache_inv c \<longleftrightarrow>
    keys_distinct (rc_entries c) \<and> distinct (rc_order c)
    \<and> set (rc_order c) = fst ` set (rc_entries c)
    \<and> length (rc_entries c) \<le> READ_CACHE_ENTRY_LIMIT"

lemma keys_distinct_delete [simp, intro]: "keys_distinct m \<Longrightarrow> keys_distinct (AList.delete k m)"
  by (simp add: keys_distinct_def distinct_delete)

lemma keys_delete: "fst ` set (AList.delete k m) = fst ` set m - {k}"
  by (force simp: AList.delete_eq)

lemma length_keys: "keys_distinct m \<Longrightarrow> length m = card (fst ` set m)"
  using distinct_card [of "map fst m"] by (simp add: keys_distinct_def)

lemma length_delete:
  assumes "keys_distinct m" "k \<in> fst ` set m"
  shows "length (AList.delete k m) = length m - 1"
  using assms by (simp add: length_keys keys_delete)

lemma evict_oldest_keeps:
  assumes "evict_oldest entries order = (entries', order')" "keys_distinct entries" "distinct order"
    "set order = fst ` set entries"
  shows "keys_distinct entries' \<and> distinct order' \<and> set order' = fst ` set entries'
    \<and> length entries' = min (length entries) READ_CACHE_ENTRY_LIMIT
    \<and> order' = drop (length entries - READ_CACHE_ENTRY_LIMIT) order
    \<and> (\<forall>i. map_of entries' i = (if i \<in> set order' then map_of entries i else None))"
  using assms
proof (induction order arbitrary: entries)
  case Nil
  then show ?case by simp
next
  case (Cons i order)
  note prems = Cons.prems
  have len: "length entries = length (i # order)"
    using distinct_card [OF prems(3)] prems(2,4) by (simp add: length_keys)
  show ?case
  proof (cases "READ_CACHE_ENTRY_LIMIT < length entries")
    case True
    let ?rest = "AList.delete i entries"
    have keys: "set order = fst ` set ?rest" using prems(3,4) by (auto simp: keys_delete)
    have i: "i \<in> fst ` set entries" using prems(4) by (metis list.set_intros(1))
    have rest: "length ?rest = length entries - 1" by (rule length_delete [OF prems(2) i])
    have IH: "keys_distinct entries' \<and> distinct order' \<and> set order' = fst ` set entries'
      \<and> length entries' = min (length ?rest) READ_CACHE_ENTRY_LIMIT
      \<and> order' = drop (length ?rest - READ_CACHE_ENTRY_LIMIT) order
      \<and> (\<forall>j. map_of entries' j = (if j \<in> set order' then map_of ?rest j else None))"
      by (rule Cons.IH) (use prems True keys in simp_all)
    have "map_of ?rest j = map_of entries j" if "j \<in> set order'" for j
    proof -
      have "j \<in> set order" using that IH by (metis in_set_dropD)
      then show ?thesis using prems(3) by auto
    qed
    moreover have "length entries - READ_CACHE_ENTRY_LIMIT = Suc (length ?rest - READ_CACHE_ENTRY_LIMIT)"
      "length entries' = min (length entries) READ_CACHE_ENTRY_LIMIT"
      using IH rest True by simp_all
    ultimately show ?thesis using IH by auto
  next
    case False
    then have eq: "entries' = entries" "order' = i # order" using prems(1) by simp_all
    have "map_of entries j = None" if "j \<notin> set (i # order)" for j
      using that unfolding prems(4) by (simp add: map_of_eq_None_iff)
    moreover have "length entries' = min (length entries) READ_CACHE_ENTRY_LIMIT"
      using False by (simp add: eq)
    ultimately show ?thesis using False prems(2-4) unfolding eq by auto
  qed
qed

lemma map_of_filter_keys:
  "map_of (filter (\<lambda>(i, _). P i) m) k = (if P k then map_of m k else None)"
  by (induction m) auto

lemma evict_latest_simps [simp]:
  "rc_current_blocks (evict_latest c x) = rc_current_blocks x"
  "map_of (rc_entries (evict_latest c x)) i
    = (if is_latest_of c i then None else map_of (rc_entries x) i)"
  by (simp_all add: evict_latest_def map_of_filter_keys)

lemma evict_latest_keeps [simp, intro]: "cache_inv x \<Longrightarrow> cache_inv (evict_latest c x)"
  by (auto simp: cache_inv_def evict_latest_def intro: order.trans [OF length_filter_le])

lemma cache_inv_heads [simp]: "cache_inv (x\<lparr>rc_current_blocks := b\<rparr>) = cache_inv x"
  by (simp add: cache_inv_def)

lemma invalidate_keeps [simp, intro]: "cache_inv x \<Longrightarrow> cache_inv (invalidate_head c x)"
  by (auto simp: invalidate_head_def split: option.split)

lemma insert_keeps:
  assumes inv: "cache_inv c"
  shows "cache_inv (insert_read i observed value c)"
proof -
  let ?e = "AList.update i (observed, value) (rc_entries c)"
  let ?o = "filter (\<lambda>existing. existing \<noteq> i) (rc_order c) @ [i]"
  obtain es os where ev: "evict_oldest ?e ?o = (es, os)" by fastforce
  have "keys_distinct ?e" "distinct ?o" "set ?o = fst ` set ?e"
    using inv by (auto simp: cache_inv_def dom_update dom_map_of_conv_image_fst [symmetric] update_conv')
  note keeps = evict_oldest_keeps [OF ev this]
  have "length es \<le> READ_CACHE_ENTRY_LIMIT" using keeps by linarith
  moreover have "keys_distinct es \<and> distinct os \<and> set os = fst ` set es" using keeps by blast
  ultimately show ?thesis unfolding insert_read_def ev cache_inv_def by simp
qed

lemma cache_step_inv: "cache_step c e c' \<Longrightarrow> cache_inv c \<Longrightarrow> cache_inv c'"
  by (auto elim!: cache_stepE intro: insert_keeps
      simp: reconcile_latest_cache_epoch_def observe_head_def renew_head_def Let_def
      split: if_splits option.splits)

interpretation cache: transition_system "\<lambda>c. c = empty_cache" cache_step cache_inv
  by unfold_locales (simp add: empty_cache_def cache_inv_def, rule cache_step_inv)

abbreviation cache_reachable :: "read_cache \<Rightarrow> bool" where
  "cache_reachable \<equiv> reach (\<lambda>c. c = empty_cache) cache_step"

section \<open>Epochs only move forward\<close>

definition current_epoch :: "read_cache \<Rightarrow> u64 \<Rightarrow> latest_epoch option" where
  "current_epoch c chain_id = Option.bind (rc_current_blocks c chain_id) latest_epoch_of"

text \<open>Height and generation; an exhausted generation comes after every other.\<close>

definition head_rank :: "read_cache \<Rightarrow> u64 \<Rightarrow> nat \<times> nat" where
  "head_rank c chain_id =
    (case rc_current_blocks c chain_id of
       None \<Rightarrow> (0, 0)
     | Some h \<Rightarrow> (unat (ho_block_number h) + 1,
         case ho_generation h of Some g \<Rightarrow> unat g | None \<Rightarrow> 2 ^ 64))"

definition rank_less :: "nat \<times> nat \<Rightarrow> nat \<times> nat \<Rightarrow> bool" where
  "rank_less a b \<longleftrightarrow> fst a < fst b \<or> fst a = fst b \<and> snd a < snd b"

lemma epoch_rank:
  "current_epoch c chain = Some e \<Longrightarrow>
    head_rank c chain = (unat (le_block_number e) + 1, unat (le_generation e))"
  by (auto simp: current_epoch_def head_rank_def latest_epoch_of_def bind_eq_Some_conv split: if_splits)

lemma epoch_of_rank:
  assumes "current_epoch c chain = Some e" "current_epoch d chain = Some e'" "head_rank c chain = head_rank d chain"
  shows "e = e'"
  using epoch_rank [OF assms(1)] epoch_rank [OF assms(2)] assms(3) by (simp add: word_unat_eq_iff)

lemma generation_next: "(case Option.bind g (\<lambda>g. checked_add g 1) of Some g \<Rightarrow> unat g | None \<Rightarrow> 2 ^ 64)
    = (case g of Some g \<Rightarrow> unat g + 1 | None \<Rightarrow> 2 ^ 64)" for g :: "u64 option"
proof (cases g)
  case (Some x)
  have "unat x < 2 ^ 64" using unsigned_less [of x] by simp
  then show ?thesis using Some
    by (auto simp: checked_add_def unat_add_fits split: option.split)
qed simp

text \<open>
  What every operation does to a chain's head: nothing; or the epoch stays unusable and is renewed or
  refreshed at the same rank; or the rank grows and every latest result of the chain is gone.
\<close>

definition head_advances :: "read_cache \<Rightarrow> read_cache \<Rightarrow> u64 \<Rightarrow> bool" where
  "head_advances c c' chain \<longleftrightarrow>
    (head_rank c' chain = head_rank c chain
      \<and> (current_epoch c chain \<noteq> None \<longrightarrow> current_epoch c' chain = current_epoch c chain))
    \<or> (rank_less (head_rank c chain) (head_rank c' chain)
      \<and> (\<forall>i. is_latest_of chain i \<longrightarrow> map_of (rc_entries c') i = None))"

lemma invalidate_head_blocks:
  "rc_current_blocks (invalidate_head chain c) q =
    (case rc_current_blocks c q of
       Some h \<Rightarrow> if q = chain \<and> ho_usable h
         then Some (h\<lparr>ho_usable := False,
           ho_generation := Option.bind (ho_generation h) (\<lambda>g. checked_add g 1)\<rparr>)
         else Some h
     | None \<Rightarrow> None)"
  by (auto simp: invalidate_head_def split: option.split)

lemma invalidate_evicts: "is_latest_of chain i \<Longrightarrow> map_of (rc_entries (invalidate_head chain c)) i = None"
  by (simp add: invalidate_head_def)

lemma invalidate_rank:
  "head_rank (invalidate_head chain c) q =
    (case rc_current_blocks c q of
       Some h \<Rightarrow> if q = chain \<and> ho_usable h \<and> ho_generation h \<noteq> None
         then (fst (head_rank c q), snd (head_rank c q) + 1) else head_rank c q
     | None \<Rightarrow> head_rank c q)"
  by (auto simp: head_rank_def invalidate_head_blocks generation_next split: option.split)

lemma invalidate_advances: "head_advances c (invalidate_head chain c) q"
proof (cases "\<exists>h. rc_current_blocks c q = Some h \<and> q = chain \<and> ho_usable h \<and> ho_generation h \<noteq> None")
  case True
  then show ?thesis by (auto simp: head_advances_def invalidate_rank rank_less_def invalidate_evicts)
next
  case False
  then have "head_rank (invalidate_head chain c) q = head_rank c q"
    by (auto simp: invalidate_rank split: option.split)
  moreover have "current_epoch (invalidate_head chain c) q = current_epoch c q"
    if "current_epoch c q \<noteq> None"
    using that False
    by (auto simp: current_epoch_def invalidate_head_blocks latest_epoch_of_def bind_eq_Some_conv split: option.splits if_splits)
  ultimately show ?thesis by (simp add: head_advances_def)
qed

lemma head_advances_refl: "head_advances c c q"
  by (simp add: head_advances_def)

lemma observe_advances:
  assumes res: "observe_head chain block now c = (r, c')"
  shows "head_advances c c' q"
proof (cases "case rc_current_blocks c chain of None \<Rightarrow> True | Some old \<Rightarrow> ho_block_number old < block")
  case True
  then have c': "c' = evict_latest chain (c\<lparr>rc_current_blocks := (rc_current_blocks c)(chain \<mapsto>
      \<lparr>ho_block_number = block, ho_observed_at = now, ho_usable = True, ho_generation = Some 0\<rparr>)\<rparr>)"
    using res by (simp add: observe_head_def Let_def)
  show ?thesis
  proof (cases "q = chain")
    case True
    then have "rank_less (head_rank c q) (head_rank c' q)"
      using \<open>case rc_current_blocks c chain of None \<Rightarrow> True | Some old \<Rightarrow> ho_block_number old < block\<close>
      by (auto simp: c' head_rank_def rank_less_def word_less_nat_alt split: option.splits)
    then show ?thesis using True by (simp add: head_advances_def c')
  next
    case False
    then show ?thesis by (simp add: head_advances_def c' head_rank_def current_epoch_def)
  qed
next
  case False
  then obtain old where old: "rc_current_blocks c chain = Some old" "block \<le> ho_block_number old"
    by (auto split: option.splits)
  define stale where "stale \<longleftrightarrow> block = ho_block_number old \<and> HEAD_FRESHNESS_LEASE < now - ho_observed_at old"
  define c1 where "c1 = (if stale then invalidate_head chain c else c)"
  have renew: "renew_head chain block now c1 = (r, c')"
    using res old by (auto simp: observe_head_def Let_def stale_def c1_def not_less split: if_splits)
  have step1: "head_advances c c1 q"
    using invalidate_advances by (simp add: c1_def head_advances_def)
  have rank: "head_rank c' q = head_rank c1 q" and entries: "rc_entries c' = rc_entries c1"
    using renew by (auto simp: renew_head_def head_rank_def split: option.splits if_splits)
  have epoch: "current_epoch c1 q \<noteq> None \<Longrightarrow> current_epoch c' q = current_epoch c1 q"
    using renew by (cases "rc_current_blocks c1 q"; cases "rc_current_blocks c1 chain")
      (auto simp: renew_head_def current_epoch_def latest_epoch_of_def split: if_splits)
  show ?thesis using step1 epoch by (auto simp: head_advances_def rank entries)
qed

lemma reconcile_advances:
  "reconcile_latest_cache_epoch chain now c = (e, c') \<Longrightarrow> head_advances c c' q"
  by (auto simp: reconcile_latest_cache_epoch_def Let_def intro: invalidate_advances head_advances_refl
      split: if_splits)

lemma insert_advances: "head_advances c (insert_read i observed value c) q"
  by (simp add: head_advances_def head_rank_def current_epoch_def insert_read_def split: prod.split)

lemma cache_step_advances: "cache_step c e c' \<Longrightarrow> head_advances c c' chain"
  by (erule cache_stepE)
    (simp_all add: reconcile_advances observe_advances invalidate_advances insert_advances)

definition rank_le :: "nat \<times> nat \<Rightarrow> nat \<times> nat \<Rightarrow> bool" where
  "rank_le a b \<longleftrightarrow> a = b \<or> rank_less a b"


lemma rank_le_antisym: "rank_le a b \<Longrightarrow> rank_le b a \<Longrightarrow> a = b"
  by (auto simp: rank_le_def rank_less_def)




section \<open>Properties\<close>

text \<open>
  The cache stays consistent: in every reachable state it holds at most 1024 entries, its order
  lists exactly their identities without repetition, and inserting a result makes it the one that a
  lookup with the same epoch finds, while every other entry that survives is unchanged.
\<close>

theorem cache_insert_lookup:
  assumes "cache_reachable c"
  shows "length (rc_entries c) \<le> 1024 \<and> distinct (rc_order c)
    \<and> set (rc_order c) = fst ` set (rc_entries c)
    \<and> lookup i observed (insert_read i observed value c) = Some value
    \<and> (\<forall>j. j \<noteq> i \<longrightarrow> map_of (rc_entries (insert_read i observed value c)) j \<in> {None, map_of (rc_entries c) j})"
proof -
  have inv: "cache_inv c" by (rule cache.reach_inv [OF assms])
  let ?e = "AList.update i (observed, value) (rc_entries c)"
  let ?o = "filter (\<lambda>existing. existing \<noteq> i) (rc_order c) @ [i]"
  obtain es os where ev: "evict_oldest ?e ?o = (es, os)" by fastforce
  have ok: "keys_distinct ?e" "distinct ?o" "set ?o = fst ` set ?e"
    using inv by (auto simp: cache_inv_def dom_update dom_map_of_conv_image_fst [symmetric] update_conv')
  note keeps = evict_oldest_keeps [OF ev ok]
  have len: "length ?o = length ?e" 
    unfolding length_keys [OF ok(1)] ok(3) [symmetric] by (rule distinct_card [OF ok(2), symmetric])
  have os: "os = drop (length ?e - READ_CACHE_ENTRY_LIMIT) ?o" using keeps by blast
  have "length ?e - READ_CACHE_ENTRY_LIMIT \<le> length (filter (\<lambda>existing. existing \<noteq> i) (rc_order c))"
    using len by (simp add: READ_CACHE_ENTRY_LIMIT_def)
  then have "i \<in> set os" unfolding os by simp
  moreover have look: "map_of es j = (if j \<in> set os then map_of ?e j else None)" for j using keeps by blast
  ultimately show ?thesis using inv
    by (auto simp: insert_read_def ev lookup_def cache_inv_def READ_CACHE_ENTRY_LIMIT_def)
qed

lemma cache_insert_lookup_witness:
  "lookup (BalanceIdentity 1 None latest_block 5) (Some 3)
    (insert_read (BalanceIdentity 1 None latest_block 5) (Some 3) (Inr ''0x1'') empty_cache) = Some (Inr ''0x1'')"
  using cache_insert_lookup [OF reach_start [where step = cache_step]] by blast


definition observed_cache :: read_cache where
  "observed_cache = snd (observe_head 1 100 5 empty_cache)"

lemma observed_step: "cache_step empty_cache (Observe 1 100 5) observed_cache"
  by (rule step_observe [where r = True])
    (simp add: observed_cache_def observe_head_def empty_cache_def evict_latest_def)

lemma observed_epoch: "current_epoch observed_cache 1 = Some \<lparr>le_block_number = 100, le_generation = 0\<rparr>"
  by (simp add: observed_cache_def observe_head_def empty_cache_def evict_latest_def current_epoch_def latest_epoch_of_def)


text \<open>
  The end of an epoch leaves none of its results behind: whenever a step ends the current epoch of
  a chain, no entry for the chain's latest block is left in the cache.
\<close>

theorem epoch_end_evicts_latest:
  assumes "cache_step c ev c'" "current_epoch c chain = Some e" "current_epoch c' chain \<noteq> Some e"
    "is_latest_of chain i"
  shows "lookup i observed c' = None"
  using cache_step_advances [OF assms(1), of chain] assms(2-4)
  by (auto simp: head_advances_def lookup_def)

lemma epoch_end_evicts_latest_witness:
  "lookup (BalanceIdentity 1 None latest_block 5) None (invalidate_head 1 observed_cache) = None"
  by (rule epoch_end_evicts_latest [OF step_invalidate observed_epoch])
    (simp_all add: current_epoch_def invalidate_head_blocks latest_epoch_of_def observed_cache_def
      observe_head_def empty_cache_def evict_latest_def is_latest_of_def identity_chain_id_def
      identity_block_def latest_block_def)

end
