(* ===== verification/Scheduler.thy ===== *)
theory Scheduler
  imports ReadCache
begin

text \<open>
  \<open>crates/wallet-ops/src/rpc_broker/scheduler.rs\<close> with the work items and waiter policies of
  \<open>resolution.rs\<close>: the division of resolved work into chunks within a route's limits, and the fair
  scheduler of jobs that wait for a read slot.

  The state is the source's \<open>ReadyScheduler\<close>; its maps \<open>jobs\<close> and \<open>lanes\<close> are iterated over and are
  association lists. What other tasks change while a job waits is read through arguments:
  \<open>waiters\<close> gives the registrations behind a work item's shared waiter state, \<open>closed\<close> says which
  grants have lost their receiver, \<open>ready\<close> is the caller's test of verified endpoints. A panic
  (\<open>expect\<close>) is the result \<open>None\<close>.
\<close>

section \<open>Work items\<close>

record work_key =
  wk_identity :: read_identity
  wk_route :: rpc_chain_route
  wk_nonce :: u64
  wk_latest_epoch :: "latest_epoch option"

record waiter_policy =
  wp_deadline :: "instant option"
  wp_attempt_timeout :: duration

record waiter_snapshot =
  wn_has_live :: bool
  wn_deadline :: "instant option"
  wn_attempt_timeout :: duration

text \<open>
  The key's route is kept by the part that route equality compares. \<open>wi_waiters\<close> is the address of the
  shared waiter state.
\<close>

record work_item =
  wi_key :: work_key
  wi_execution_route :: rpc_route
  wi_read :: rpc_read
  wi_origins :: "rpc_origin list"
  wi_waiters :: nat

type_synonym waiter_store = "nat \<Rightarrow> waiter_policy list"

fun latest_deadline :: "instant option \<Rightarrow> waiter_policy list \<Rightarrow> instant option" where
  "latest_deadline latest [] = latest"
| "latest_deadline latest (r # rs) =
    (case wp_deadline r of
       None \<Rightarrow> None
     | Some d \<Rightarrow> latest_deadline (Some (case latest of None \<Rightarrow> d | Some c \<Rightarrow> max c d)) rs)"

definition merged_deadline :: "waiter_policy list \<Rightarrow> instant option" where
  "merged_deadline registrations = latest_deadline None registrations"

fun snapshot_loop ::
    "instant \<Rightarrow> instant option \<Rightarrow> bool \<Rightarrow> duration option \<Rightarrow> waiter_policy list
      \<Rightarrow> instant option \<times> bool \<times> duration option" where
  "snapshot_loop now latest unbounded shortest [] = (latest, unbounded, shortest)"
| "snapshot_loop now latest unbounded shortest (r # rs) =
    (if (case wp_deadline r of None \<Rightarrow> True | Some d \<Rightarrow> now < d) then
       let shortest' = Some (case shortest of None \<Rightarrow> wp_attempt_timeout r
             | Some c \<Rightarrow> min c (wp_attempt_timeout r)) in
       (case wp_deadline r of
          Some d \<Rightarrow> snapshot_loop now (Some (case latest of None \<Rightarrow> d | Some c \<Rightarrow> max c d)) unbounded shortest' rs
        | None \<Rightarrow> snapshot_loop now latest True shortest' rs)
     else snapshot_loop now latest unbounded shortest rs)"

definition snapshot :: "instant \<Rightarrow> waiter_policy list \<Rightarrow> waiter_snapshot" where
  "snapshot now registrations =
    (case snapshot_loop now None False None registrations of
       (latest, unbounded, shortest) \<Rightarrow>
         \<lparr>wn_has_live = (shortest \<noteq> None),
          wn_deadline = (if unbounded then None else latest),
          wn_attempt_timeout = (case shortest of Some d \<Rightarrow> d | None \<Rightarrow> 0)\<rparr>)"

section \<open>Loads and chunks\<close>

record route_load =
  rl_calls :: nat
  rl_gas :: u64
  rl_overflowed :: bool

definition zero_load :: route_load where
  "zero_load = \<lparr>rl_calls = 0, rl_gas = 0, rl_overflowed = False\<rparr>"

definition item_load :: "u64 \<Rightarrow> route_load" where
  "item_load gas = \<lparr>rl_calls = 1, rl_gas = gas, rl_overflowed = False\<rparr>"

definition add_load :: "route_load \<Rightarrow> route_load \<Rightarrow> route_load" where
  "add_load a b =
    (let (calls, calls_overflowed) = (case usize_add (rl_calls a) (rl_calls b) of
           Some c \<Rightarrow> (c, False) | None \<Rightarrow> (2 ^ 64 - 1, True));
         (gas, gas_overflowed) = (case checked_add (rl_gas a) (rl_gas b) of
           Some g \<Rightarrow> (g, False) | None \<Rightarrow> (- 1, True))
     in \<lparr>rl_calls = calls, rl_gas = gas,
         rl_overflowed = (rl_overflowed a \<or> rl_overflowed b \<or> calls_overflowed \<or> gas_overflowed)\<rparr>)"

definition exceeds :: "route_load \<Rightarrow> rpc_route \<Rightarrow> bool" where
  "exceeds load route \<longleftrightarrow>
    rl_overflowed load \<or> rt_max_calls route < rl_calls load \<or> rt_max_estimated_gas route < rl_gas load"

definition reaches :: "route_load \<Rightarrow> rpc_route \<Rightarrow> bool" where
  "reaches load route \<longleftrightarrow>
    rl_overflowed load \<or> rt_max_calls route \<le> rl_calls load \<or> rt_max_estimated_gas route \<le> rl_gas load"

definition submission_load :: "rpc_submission \<Rightarrow> route_load" where
  "submission_load s = foldl add_load zero_load (map (\<lambda>r. item_load (estimated_gas r)) (sub_reads s))"

fun partition_loop :: "work_item list \<Rightarrow> work_item list \<Rightarrow> route_load \<Rightarrow> work_item list list" where
  "partition_loop [] current load = (if current = [] then [] else [current])"
| "partition_loop (item # work) current load =
    (let route = wi_execution_route item;
         item_gas = estimated_gas (wi_read item);
         next_load = add_load load (item_load item_gas);
         over_count = max (rt_max_calls route) 1 \<le> length current
     in if current \<noteq> [] \<and> (over_count \<or> exceeds next_load route)
        then current # partition_loop work [item] (add_load zero_load (item_load item_gas))
        else partition_loop work (current @ [item]) next_load)"

definition partition_work :: "work_item list \<Rightarrow> work_item list list" where
  "partition_work work = partition_loop work [] zero_load"

section \<open>The scheduler\<close>

datatype execution_job = Aggregate "work_item list" | IndividualJob work_item

definition items :: "execution_job \<Rightarrow> work_item list" where
  "items job = (case job of Aggregate is \<Rightarrow> is | IndividualJob i \<Rightarrow> [i])"

datatype slot_kind = ReadSlot | RunnerSlot

text \<open>\<open>sr_slots\<close> identifies the job's slots, \<open>sr_grant\<close> the channel on which it waits.\<close>

record slot_request =
  sr_kind :: slot_kind
  sr_slots :: nat
  sr_grant :: nat
  sr_aggregate :: bool
  sr_keys :: "work_key list"

datatype entry = QueuedEntry execution_job | ResumeEntry slot_request "rpc_origin list"

datatype claim = ClaimQueued execution_job | ClaimResume slot_request

record origin_lanes =
  ol_aggregate :: "u64 list"
  ol_individual :: "u64 list"
  ol_prefer_aggregate :: bool

record ready_scheduler =
  rs_jobs :: "(u64, entry) hash_map"
  rs_key_index :: "work_key \<rightharpoonup> u64"
  rs_lanes :: "(rpc_origin, origin_lanes) hash_map"
  rs_origins :: "rpc_origin list"
  rs_next_ready_id :: u64

definition new_scheduler :: ready_scheduler where
  "new_scheduler = \<lparr>rs_jobs = [], rs_key_index = Map.empty, rs_lanes = [], rs_origins = [],
    rs_next_ready_id = 1\<rparr>"

definition lane_mut :: "rpc_origin \<Rightarrow> (origin_lanes \<Rightarrow> origin_lanes) \<Rightarrow> ready_scheduler \<Rightarrow> ready_scheduler" where
  "lane_mut origin change s =
    (case map_of (rs_lanes s) origin of
       Some lane \<Rightarrow> s\<lparr>rs_lanes := AList.update origin (change lane) (rs_lanes s)\<rparr>
     | None \<Rightarrow> s\<lparr>rs_origins := rs_origins s @ [origin],
         rs_lanes := AList.update origin
           (change \<lparr>ol_aggregate = [], ol_individual = [], ol_prefer_aggregate = True\<rparr>) (rs_lanes s)\<rparr>)"

definition push_ref :: "bool \<Rightarrow> u64 \<Rightarrow> rpc_origin \<Rightarrow> ready_scheduler \<Rightarrow> ready_scheduler" where
  "push_ref aggregate ready_id origin =
    lane_mut origin (\<lambda>lane.
      if aggregate then lane\<lparr>ol_aggregate := ol_aggregate lane @ [ready_id]\<rparr>
      else lane\<lparr>ol_individual := ol_individual lane @ [ready_id]\<rparr>)"

definition remove_index_if_current :: "work_key \<Rightarrow> u64 \<Rightarrow> ready_scheduler \<Rightarrow> ready_scheduler" where
  "remove_index_if_current key ready_id s =
    (if rs_key_index s key = Some ready_id
     then s\<lparr>rs_key_index := (rs_key_index s)(key := None)\<rparr> else s)"

text \<open>The first member with the key gets the origin; \<open>None\<close> when there is no such member.\<close>

fun push_origin :: "work_key \<Rightarrow> rpc_origin \<Rightarrow> work_item list \<Rightarrow> work_item list option" where
  "push_origin key origin [] = None"
| "push_origin key origin (i # is) =
    (if wi_key i = key then Some (i\<lparr>wi_origins := wi_origins i @ [origin]\<rparr> # is)
     else map_option ((#) i) (push_origin key origin is))"

definition attach ::
    "(nat \<Rightarrow> bool) \<Rightarrow> work_key \<Rightarrow> rpc_origin \<Rightarrow> ready_scheduler \<Rightarrow> (bool \<times> ready_scheduler) option" where
  "attach closed key origin s =
    (case rs_key_index s key of
       None \<Rightarrow> Some (False, s)
     | Some ready_id \<Rightarrow>
         let put = (\<lambda>e. s\<lparr>rs_jobs := AList.update ready_id e (rs_jobs s)\<rparr>);
             finish = (\<lambda>aggregate eligible s'.
               Some (True, if eligible then s' else push_ref aggregate ready_id origin s'))
         in
         (case map_of (rs_jobs s) ready_id of
            Some (QueuedEntry (Aggregate is)) \<Rightarrow>
              Option.bind (push_origin key origin is) (\<lambda>is'.
                finish True (\<exists>i \<in> set is. origin \<in> set (wi_origins i)) (put (QueuedEntry (Aggregate is'))))
          | Some (QueuedEntry (IndividualJob i)) \<Rightarrow>
              finish False (origin \<in> set (wi_origins i))
                (put (QueuedEntry (IndividualJob (i\<lparr>wi_origins := wi_origins i @ [origin]\<rparr>))))
          | Some (ResumeEntry request origins) \<Rightarrow>
              if \<not> closed (sr_grant request) then
                finish (sr_aggregate request) (origin \<in> set origins)
                  (if origin \<in> set origins then s else put (ResumeEntry request (origins @ [origin])))
              else Some (False, remove_index_if_current key ready_id s)
          | None \<Rightarrow> Some (False, remove_index_if_current key ready_id s)))"

definition allocate_ready_id :: "ready_scheduler \<Rightarrow> (u64 \<times> ready_scheduler) option" where
  "allocate_ready_id s =
    map_option (\<lambda>n. (rs_next_ready_id s, s\<lparr>rs_next_ready_id := n\<rparr>)) (checked_add (rs_next_ready_id s) 1)"

definition job_has_origin :: "execution_job \<Rightarrow> rpc_origin \<Rightarrow> bool" where
  "job_has_origin job origin = (\<exists>i \<in> set (items job). origin \<in> set (wi_origins i))"

definition job_class_matches :: "execution_job \<Rightarrow> bool \<Rightarrow> bool" where
  "job_class_matches job aggregate =
    (case job of Aggregate _ \<Rightarrow> aggregate | IndividualJob _ \<Rightarrow> \<not> aggregate)"

definition entry_belongs :: "(nat \<Rightarrow> bool) \<Rightarrow> entry \<Rightarrow> rpc_origin \<Rightarrow> bool \<Rightarrow> bool" where
  "entry_belongs closed e origin aggregate =
    (case e of
       QueuedEntry job \<Rightarrow> job_class_matches job aggregate \<and> job_has_origin job origin
     | ResumeEntry request origins \<Rightarrow>
         sr_aggregate request = aggregate \<and> origin \<in> set origins \<and> \<not> closed (sr_grant request))"

fun take_eligible_ref ::
    "(u64 \<rightharpoonup> entry) \<Rightarrow> (nat \<Rightarrow> bool) \<Rightarrow> (execution_job \<Rightarrow> bool) \<Rightarrow> rpc_origin \<Rightarrow> bool \<Rightarrow> u64 list
      \<Rightarrow> u64 list \<times> (nat \<times> u64) option" where
  "take_eligible_ref jobs closed ready origin aggregate [] = ([], None)"
| "take_eligible_ref jobs closed ready origin aggregate (ready_id # refs) =
    (case jobs ready_id of
       None \<Rightarrow> take_eligible_ref jobs closed ready origin aggregate refs
     | Some e \<Rightarrow>
         if \<not> entry_belongs closed e origin aggregate
         then take_eligible_ref jobs closed ready origin aggregate refs
         else if (case e of QueuedEntry job \<Rightarrow> \<not> ready job | ResumeEntry _ _ \<Rightarrow> False)
         then (case take_eligible_ref jobs closed ready origin aggregate refs of
                 (refs', found) \<Rightarrow>
                   (ready_id # refs', map_option (\<lambda>(index, r). (index + 1, r)) found))
         else (refs, Some (0, ready_id)))"

definition keep_refs :: "(u64 \<rightharpoonup> entry) \<Rightarrow> (nat \<Rightarrow> bool) \<Rightarrow> rpc_origin \<Rightarrow> bool \<Rightarrow> u64 list \<Rightarrow> u64 list" where
  "keep_refs jobs closed origin aggregate =
    filter (\<lambda>r. case jobs r of None \<Rightarrow> False | Some e \<Rightarrow> entry_belongs closed e origin aggregate)"

definition closed_resume :: "(nat \<Rightarrow> bool) \<Rightarrow> entry \<Rightarrow> bool" where
  "closed_resume closed e =
    (case e of ResumeEntry request _ \<Rightarrow> closed (sr_grant request) | QueuedEntry _ \<Rightarrow> False)"

fun remove_keys :: "work_key list \<Rightarrow> u64 \<Rightarrow> ready_scheduler \<Rightarrow> ready_scheduler" where
  "remove_keys [] ready_id s = s"
| "remove_keys (k # ks) ready_id s = remove_keys ks ready_id (remove_index_if_current k ready_id s)"

fun drop_closed :: "(u64 \<times> entry) list \<Rightarrow> ready_scheduler \<Rightarrow> ready_scheduler" where
  "drop_closed [] s = s"
| "drop_closed ((ready_id, e) # es) s =
    drop_closed es
      (let s1 = s\<lparr>rs_jobs := AList.delete ready_id (rs_jobs s)\<rparr>
       in case e of ResumeEntry request _ \<Rightarrow> remove_keys (sr_keys request) ready_id s1 | QueuedEntry _ \<Rightarrow> s1)"

definition prune_refs :: "(nat \<Rightarrow> bool) \<Rightarrow> ready_scheduler \<Rightarrow> ready_scheduler" where
  "prune_refs closed s =
    (let s1 = drop_closed (filter (\<lambda>(_, e). closed_resume closed e) (rs_jobs s)) s;
         lanes = retain_map (\<lambda>origin lane.
           let lane' = lane\<lparr>ol_aggregate := keep_refs (map_of (rs_jobs s1)) closed origin True (ol_aggregate lane),
                 ol_individual := keep_refs (map_of (rs_jobs s1)) closed origin False (ol_individual lane)\<rparr>
           in if ol_aggregate lane' = [] \<and> ol_individual lane' = [] then None else Some lane') (rs_lanes s1)
     in s1\<lparr>rs_lanes := lanes,
           rs_origins := filter (\<lambda>origin. map_of lanes origin \<noteq> None) (rs_origins s1)\<rparr>)"

text \<open>The origins of a group, each once, in the order they first occur.\<close>

fun add_origins :: "rpc_origin list \<Rightarrow> rpc_origin list \<Rightarrow> rpc_origin list" where
  "add_origins known [] = known"
| "add_origins known (r # rs) = add_origins (if r \<in> set known then known else known @ [r]) rs"

definition admit_job :: "execution_job \<Rightarrow> ready_scheduler \<Rightarrow> ready_scheduler option" where
  "admit_job job s =
    map_option (\<lambda>(ready_id, s1).
      fold (push_ref (case job of Aggregate _ \<Rightarrow> True | IndividualJob _ \<Rightarrow> False) ready_id)
        (add_origins [] (concat (map wi_origins (items job))))
        (s1\<lparr>rs_key_index := fold (\<lambda>i m. m(wi_key i \<mapsto> ready_id)) (items job) (rs_key_index s1),
            rs_jobs := AList.update ready_id (QueuedEntry job) (rs_jobs s1)\<rparr>))
      (allocate_ready_id s)"

fun admit_jobs :: "execution_job list \<Rightarrow> ready_scheduler \<Rightarrow> ready_scheduler option" where
  "admit_jobs [] s = Some s"
| "admit_jobs (j # js) s = Option.bind (admit_job j s) (admit_jobs js)"

definition batched :: "alloy_lib \<Rightarrow> work_item \<Rightarrow> bool" where
  "batched lib i \<longleftrightarrow>
    cr_multicall (rt_chain (wi_execution_route i)) \<noteq> None \<and> is_multicall_eligible lib (wi_read i)"

text \<open>One chunk becomes at most one aggregate job, then one job for each other member.\<close>

definition chunk_jobs :: "alloy_lib \<Rightarrow> work_item list \<Rightarrow> execution_job list" where
  "chunk_jobs lib chunk =
    (let aggregate = filter (batched lib) chunk; individual = filter (\<lambda>i. \<not> batched lib i) chunk
     in (if aggregate = [] then [] else [Aggregate aggregate]) @ map IndividualJob individual)"

fun admit_chunks :: "alloy_lib \<Rightarrow> work_item list list \<Rightarrow> ready_scheduler \<Rightarrow> ready_scheduler option" where
  "admit_chunks lib [] s = Some s"
| "admit_chunks lib (chunk # chunks) s =
    Option.bind (admit_jobs (chunk_jobs lib chunk) s) (admit_chunks lib chunks)"

definition admit_resume :: "slot_request \<Rightarrow> rpc_origin list \<Rightarrow> ready_scheduler \<Rightarrow> ready_scheduler option" where
  "admit_resume request origins s =
    map_option (\<lambda>(ready_id, s1).
      fold (push_ref (sr_aggregate request) ready_id) origins
        (s1\<lparr>rs_key_index := fold (\<lambda>k m. m(k \<mapsto> ready_id)) (sr_keys request) (rs_key_index s1),
            rs_jobs := AList.update ready_id (ResumeEntry request origins) (rs_jobs s1)\<rparr>))
      (allocate_ready_id s)"

type_synonym group_key = "rpc_chain_route \<times> block_id option"

fun add_to_group ::
    "group_key \<Rightarrow> work_item \<Rightarrow> (group_key \<times> work_item list) list \<Rightarrow> (group_key \<times> work_item list) list" where
  "add_to_group k i [] = [(k, [i])]"
| "add_to_group k i ((l, is) # groups) =
    (if k = l then (l, is @ [i]) # groups else (l, is) # add_to_group k i groups)"

definition group_of :: "work_item \<Rightarrow> group_key" where
  "group_of i = (wk_route (wi_key i), reuse_block_id (wi_read i))"

definition group_work :: "work_item list \<Rightarrow> (group_key \<times> work_item list) list" where
  "group_work work = fold (\<lambda>i. add_to_group (group_of i) i) work []"

definition partition_and_admit ::
    "alloy_lib \<Rightarrow> work_item list \<Rightarrow> ready_scheduler \<Rightarrow> ready_scheduler option" where
  "partition_and_admit lib work s =
    admit_chunks lib (concat (map (\<lambda>(_, group). partition_work group) (group_work work))) s"

definition item_expired :: "waiter_store \<Rightarrow> instant \<Rightarrow> work_item \<Rightarrow> bool" where
  "item_expired waiters now i =
    (case merged_deadline (waiters (wi_waiters i)) of None \<Rightarrow> False | Some d \<Rightarrow> d \<le> now)"

text \<open>One entry of the loop of \<open>expire\<close>.\<close>

definition expire_entry ::
    "waiter_store \<Rightarrow> instant \<Rightarrow> u64 \<Rightarrow> ready_scheduler \<Rightarrow> work_key list \<times> ready_scheduler" where
  "expire_entry waiters now ready_id s =
    (case map_of (rs_jobs s) ready_id of
       Some (QueuedEntry job) \<Rightarrow>
         let expired = map wi_key (filter (item_expired waiters now) (items job));
             survivors = filter (\<lambda>i. \<not> item_expired waiters now i) (items job);
             s1 = remove_keys expired ready_id s
         in (expired,
             if survivors = [] then s1\<lparr>rs_jobs := AList.delete ready_id (rs_jobs s1)\<rparr>
             else s1\<lparr>rs_jobs := AList.update ready_id
                 (QueuedEntry (case job of Aggregate _ \<Rightarrow> Aggregate survivors | IndividualJob i \<Rightarrow> IndividualJob i))
                 (rs_jobs s1)\<rparr>)
     | _ \<Rightarrow> ([], s))"

fun expire_entries ::
    "waiter_store \<Rightarrow> instant \<Rightarrow> u64 list \<Rightarrow> ready_scheduler \<Rightarrow> work_key list \<times> ready_scheduler" where
  "expire_entries waiters now [] s = ([], s)"
| "expire_entries waiters now (r # rs) s =
    (case expire_entry waiters now r s of
       (expired, s1) \<Rightarrow> (case expire_entries waiters now rs s1 of (later, s2) \<Rightarrow> (expired @ later, s2)))"

definition expire ::
    "(nat \<Rightarrow> bool) \<Rightarrow> waiter_store \<Rightarrow> instant \<Rightarrow> ready_scheduler
      \<Rightarrow> (work_key \<times> (rpc_broker_error + rpc_result)) list \<times> ready_scheduler" where
  "expire closed waiters now s =
    (case expire_entries waiters now (map fst (rs_jobs s)) s of
       (expired, s1) \<Rightarrow> (map (\<lambda>k. (k, Inl TimeoutBeforeDispatch)) expired, prune_refs closed s1))"

definition claim_job :: "u64 \<Rightarrow> ready_scheduler \<Rightarrow> claim option \<times> ready_scheduler" where
  "claim_job ready_id s =
    (case map_of (rs_jobs s) ready_id of
       None \<Rightarrow> (None, s)
     | Some e \<Rightarrow>
         let s1 = s\<lparr>rs_jobs := AList.delete ready_id (rs_jobs s)\<rparr> in
         (case e of
            QueuedEntry job \<Rightarrow>
              (Some (ClaimQueued job), remove_keys (map wi_key (items job)) ready_id s1)
          | ResumeEntry request _ \<Rightarrow>
              (Some (ClaimResume request), remove_keys (sr_keys request) ready_id s1)))"

definition insert_at :: "nat \<Rightarrow> 'a \<Rightarrow> 'a list \<Rightarrow> 'a list" where
  "insert_at n x xs = take n xs @ x # drop n xs"

text \<open>The choice of \<open>next\<close> within one lane: the chosen reference and the lane that is left.\<close>

definition choose_ref ::
    "(u64 \<rightharpoonup> entry) \<Rightarrow> (nat \<Rightarrow> bool) \<Rightarrow> (execution_job \<Rightarrow> bool) \<Rightarrow> rpc_origin \<Rightarrow> origin_lanes
      \<Rightarrow> u64 option \<times> origin_lanes" where
  "choose_ref jobs closed ready origin lane =
    (case (take_eligible_ref jobs closed ready origin True (ol_aggregate lane),
           take_eligible_ref jobs closed ready origin False (ol_individual lane)) of
       ((aggregate, a), (individual, i)) \<Rightarrow>
         let lane' = lane\<lparr>ol_aggregate := aggregate, ol_individual := individual\<rparr> in
         (case (a, i) of
            (None, None) \<Rightarrow> (None, lane')
          | (Some (_, ar), None) \<Rightarrow> (Some ar, lane'\<lparr>ol_prefer_aggregate := False\<rparr>)
          | (None, Some (_, ir)) \<Rightarrow> (Some ir, lane'\<lparr>ol_prefer_aggregate := True\<rparr>)
          | (Some (ai, ar), Some (ii, ir)) \<Rightarrow>
              let lane'' = lane'\<lparr>ol_prefer_aggregate := \<not> ol_prefer_aggregate lane\<rparr> in
              if ol_prefer_aggregate lane
              then (Some ar, lane''\<lparr>ol_individual := insert_at ii ir individual\<rparr>)
              else (Some ir, lane''\<lparr>ol_aggregate := insert_at ai ar aggregate\<rparr>)))"

fun next_loop ::
    "(nat \<Rightarrow> bool) \<Rightarrow> (execution_job \<Rightarrow> bool) \<Rightarrow> nat \<Rightarrow> ready_scheduler \<Rightarrow> claim option \<times> ready_scheduler" where
  "next_loop closed ready 0 s = (None, s)"
| "next_loop closed ready (Suc n) s =
    (case rs_origins s of
       [] \<Rightarrow> (None, s)
     | origin # origins \<Rightarrow>
         (case map_of (rs_lanes s) origin of
            None \<Rightarrow> next_loop closed ready n (s\<lparr>rs_origins := origins\<rparr>)
          | Some lane \<Rightarrow>
              (case choose_ref (map_of (rs_jobs s)) closed ready origin lane of
                 (chosen, lane') \<Rightarrow>
                   let s1 = (if ol_aggregate lane' \<noteq> [] \<or> ol_individual lane' \<noteq> []
                         then s\<lparr>rs_origins := origins @ [origin],
                                rs_lanes := AList.update origin lane' (AList.delete origin (rs_lanes s))\<rparr>
                         else s\<lparr>rs_origins := origins, rs_lanes := AList.delete origin (rs_lanes s)\<rparr>)
                   in (case chosen of
                         None \<Rightarrow> next_loop closed ready n s1
                       | Some ready_id \<Rightarrow>
                           (case claim_job ready_id s1 of
                              (c, s2) \<Rightarrow>
                                if c \<noteq> None then (c, prune_refs closed s2)
                                else next_loop closed ready n (prune_refs closed s2))))))"

definition next_claim ::
    "(nat \<Rightarrow> bool) \<Rightarrow> (execution_job \<Rightarrow> bool) \<Rightarrow> ready_scheduler \<Rightarrow> claim option \<times> ready_scheduler" where
  "next_claim closed ready s = next_loop closed ready (length (rs_origins s)) s"

definition unready_ids :: "(execution_job \<Rightarrow> bool) \<Rightarrow> ready_scheduler \<Rightarrow> u64 list" where
  "unready_ids ready s =
    map fst (filter (\<lambda>(_, e). case e of QueuedEntry job \<Rightarrow> \<not> ready job | ResumeEntry _ _ \<Rightarrow> False) (rs_jobs s))"

definition next_verification ::
    "(nat \<Rightarrow> bool) \<Rightarrow> (execution_job \<Rightarrow> bool) \<Rightarrow> ready_scheduler \<Rightarrow> execution_job option \<times> ready_scheduler" where
  "next_verification closed ready s =
    (if unready_ids ready s = [] then (None, s)
     else
       (case claim_job (Min (set (unready_ids ready s))) s of
          (c, s1) \<Rightarrow>
            (case c of Some (ClaimQueued job) \<Rightarrow> Some job | _ \<Rightarrow> None, prune_refs closed s1)))"

definition drain ::
    "rpc_broker_error \<Rightarrow> ready_scheduler
      \<Rightarrow> (work_key \<times> (rpc_broker_error + rpc_result)) list \<times> ready_scheduler" where
  "drain error s =
    (concat (map (\<lambda>(_, e). case e of QueuedEntry job \<Rightarrow> map (\<lambda>i. (wi_key i, Inl error)) (items job)
        | ResumeEntry _ _ \<Rightarrow> []) (rs_jobs s)),
     s\<lparr>rs_jobs := [], rs_key_index := Map.empty, rs_lanes := [], rs_origins := []\<rparr>)"

text \<open>The chain routes that \<open>unready_routes\<close> watches, one for each verification cache.\<close>

fun watch_routes :: "rpc_chain_route list \<Rightarrow> rpc_chain_route list \<Rightarrow> rpc_chain_route list" where
  "watch_routes watched [] = watched"
| "watch_routes watched (r # rs) =
    watch_routes
      (if \<exists>w \<in> set watched. cr_verified_identities w = cr_verified_identities r then watched
       else watched @ [r]) rs"

definition unready_routes :: "(execution_job \<Rightarrow> bool) \<Rightarrow> ready_scheduler \<Rightarrow> rpc_chain_route list" where
  "unready_routes ready s =
    watch_routes [] (List.map_filter (\<lambda>(_, e).
      case e of
        QueuedEntry job \<Rightarrow>
          if ready job then None
          else (case items job of [] \<Rightarrow> None | i # _ \<Rightarrow> Some (rt_chain (wi_execution_route i)))
      | ResumeEntry _ _ \<Rightarrow> None) (rs_jobs s))"

section \<open>Steps\<close>

text \<open>The state of a run is the set of closed grants and the scheduler; a closed grant stays closed.\<close>

datatype scheduler_event =
    AttachEvent work_key rpc_origin
  | AdmitWork "work_item list"
  | AdmitResume slot_request "rpc_origin list"
  | ExpireWork instant
  | NextEvent "claim option"
  | VerifyEvent "execution_job option"
  | DrainEvent
  | CloseEvent

inductive scheduler_step ::
    "(nat \<Rightarrow> bool) \<times> ready_scheduler \<Rightarrow> scheduler_event \<Rightarrow> (nat \<Rightarrow> bool) \<times> ready_scheduler \<Rightarrow> bool" where
  step_attach: "attach closed key origin s = Some (b, s')
    \<Longrightarrow> scheduler_step (closed, s) (AttachEvent key origin) (closed, s')"
| step_admit_work: "partition_and_admit lib work s = Some s'
    \<Longrightarrow> scheduler_step (closed, s) (AdmitWork work) (closed, s')"
| step_admit_resume: "admit_resume request origins s = Some s'
    \<Longrightarrow> scheduler_step (closed, s) (AdmitResume request origins) (closed, s')"
| step_expire_work: "expire closed waiters now s = (expired, s')
    \<Longrightarrow> scheduler_step (closed, s) (ExpireWork now) (closed, s')"
| step_next: "next_claim closed ready s = (c, s')
    \<Longrightarrow> scheduler_step (closed, s) (NextEvent c) (closed, s')"
| step_verify: "next_verification closed ready s = (j, s')
    \<Longrightarrow> scheduler_step (closed, s) (VerifyEvent j) (closed, s')"
| step_drain: "drain error s = (completions, s')
    \<Longrightarrow> scheduler_step (closed, s) DrainEvent (closed, s')"
| step_close: "(\<forall>g. closed g \<longrightarrow> closed' g)
    \<Longrightarrow> scheduler_step (closed, s) CloseEvent (closed', s)"

inductive_cases scheduler_stepE: "scheduler_step x e y"

section \<open>No work is stranded\<close>

definition refs :: "bool \<Rightarrow> origin_lanes \<Rightarrow> u64 list" where
  "refs aggregate lane = (if aggregate then ol_aggregate lane else ol_individual lane)"

definition entry_keys :: "entry \<Rightarrow> work_key set" where
  "entry_keys e =
    (case e of QueuedEntry job \<Rightarrow> wi_key ` set (items job) | ResumeEntry request _ \<Rightarrow> set (sr_keys request))"

definition queued_in :: "(rpc_origin \<rightharpoonup> origin_lanes) \<Rightarrow> rpc_origin \<Rightarrow> bool \<Rightarrow> u64 \<Rightarrow> bool" where
  "queued_in lanes origin aggregate ready_id \<longleftrightarrow>
    (\<exists>lane. lanes origin = Some lane \<and> ready_id \<in> set (refs aggregate lane))"

text \<open>
  Every entry has a reference in the lane of each origin that may run it, and the key index only
  names entries that hold the key.
\<close>

definition sched_ok ::
    "(nat \<Rightarrow> bool) \<Rightarrow> (u64 \<rightharpoonup> entry) \<Rightarrow> (work_key \<rightharpoonup> u64) \<Rightarrow> (rpc_origin \<rightharpoonup> origin_lanes) \<Rightarrow> u64 \<Rightarrow> bool" where
  "sched_ok closed jobs index lanes next_id \<longleftrightarrow>
    (\<forall>k r. index k = Some r \<longrightarrow> (\<exists>e. jobs r = Some e \<and> k \<in> entry_keys e))
    \<and> (\<forall>r e. jobs r = Some e \<longrightarrow> r < next_id)
    \<and> (\<forall>r e origin aggregate. jobs r = Some e \<longrightarrow> entry_belongs closed e origin aggregate
        \<longrightarrow> queued_in lanes origin aggregate r)"

definition lists_ok :: "ready_scheduler \<Rightarrow> bool" where
  "lists_ok s \<longleftrightarrow>
    keys_distinct (rs_jobs s) \<and> keys_distinct (rs_lanes s) \<and> distinct (rs_origins s)
    \<and> set (rs_origins s) = fst ` set (rs_lanes s)"

definition sched_inv :: "(nat \<Rightarrow> bool) \<Rightarrow> ready_scheduler \<Rightarrow> bool" where
  "sched_inv closed s \<longleftrightarrow> lists_ok s
    \<and> sched_ok closed (map_of (rs_jobs s)) (rs_key_index s) (map_of (rs_lanes s)) (rs_next_ready_id s)"

lemma sched_okD:
  assumes "sched_ok closed jobs index lanes n"
  shows "index k = Some r \<Longrightarrow> \<exists>e. jobs r = Some e \<and> k \<in> entry_keys e"
    and "jobs r = Some e \<Longrightarrow> r < n"
    and "jobs r = Some e \<Longrightarrow> entry_belongs closed e origin aggregate \<Longrightarrow> queued_in lanes origin aggregate r"
  using assms unfolding sched_ok_def by blast+

lemma entry_belongs_mono:
  "(\<And>g. closed g \<Longrightarrow> closed' g) \<Longrightarrow> entry_belongs closed' e origin agg \<Longrightarrow> entry_belongs closed e origin agg"
  by (auto simp: entry_belongs_def split: entry.splits)

text \<open>Lanes of a later state keep the references of an earlier one.\<close>

definition lanes_extend :: "(rpc_origin \<rightharpoonup> origin_lanes) \<Rightarrow> (rpc_origin \<rightharpoonup> origin_lanes) \<Rightarrow> bool" where
  "lanes_extend lanes lanes' \<longleftrightarrow>
    (\<forall>origin agg r. queued_in lanes origin agg r \<longrightarrow> queued_in lanes' origin agg r)"

lemma lanes_extend_refl [simp, intro]: "lanes_extend l l"
  by (simp add: lanes_extend_def)

lemma lanes_extend_trans: "lanes_extend a b \<Longrightarrow> lanes_extend b c \<Longrightarrow> lanes_extend a c"
  by (auto simp: lanes_extend_def)

definition add_ref :: "bool \<Rightarrow> u64 \<Rightarrow> origin_lanes \<Rightarrow> origin_lanes" where
  "add_ref aggregate r lane =
    (if aggregate then lane\<lparr>ol_aggregate := ol_aggregate lane @ [r]\<rparr>
     else lane\<lparr>ol_individual := ol_individual lane @ [r]\<rparr>)"

lemma set_refs_add_ref: "set (refs a (add_ref agg r lane)) = set (refs a lane) \<union> (if a = agg then {r} else {})"
  by (simp add: refs_def add_ref_def)

lemma push_ref_lanes:
  "map_of (rs_lanes (push_ref agg r origin s)) =
    (map_of (rs_lanes s))(origin \<mapsto> add_ref agg r
      (case map_of (rs_lanes s) origin of Some lane \<Rightarrow> lane
       | None \<Rightarrow> \<lparr>ol_aggregate = [], ol_individual = [], ol_prefer_aggregate = True\<rparr>))"
  by (simp add: push_ref_def lane_mut_def add_ref_def split: option.split)

lemma keys_update: "fst ` set (AList.update k v m) = insert k (fst ` set m)"
  by (simp add: dom_update)

lemma push_ref_facts:
  assumes "lists_ok s"
  shows "rs_jobs (push_ref agg r origin s) = rs_jobs s"
    "rs_key_index (push_ref agg r origin s) = rs_key_index s"
    "rs_next_ready_id (push_ref agg r origin s) = rs_next_ready_id s"
    "lists_ok (push_ref agg r origin s)"
    "lanes_extend (map_of (rs_lanes s)) (map_of (rs_lanes (push_ref agg r origin s)))"
    "queued_in (map_of (rs_lanes (push_ref agg r origin s))) origin agg r"
proof -
  show "rs_jobs (push_ref agg r origin s) = rs_jobs s"
    "rs_key_index (push_ref agg r origin s) = rs_key_index s"
    "rs_next_ready_id (push_ref agg r origin s) = rs_next_ready_id s"
    by (simp_all add: push_ref_def lane_mut_def split: option.split)
  show "lists_ok (push_ref agg r origin s)"
  proof (cases "map_of (rs_lanes s) origin")
    case None
    then have "origin \<notin> fst ` set (rs_lanes s)" by (simp add: map_of_eq_None_iff)
    then show ?thesis using assms None by (simp add: lists_ok_def push_ref_def lane_mut_def keys_update)
  next
    case (Some lane)
    then have "origin \<in> fst ` set (rs_lanes s)" by (force dest: map_of_SomeD)
    then show ?thesis using assms Some
      by (simp add: lists_ok_def push_ref_def lane_mut_def keys_update insert_absorb)
  qed
  show "lanes_extend (map_of (rs_lanes s)) (map_of (rs_lanes (push_ref agg r origin s)))"
    by (auto simp: lanes_extend_def queued_in_def push_ref_lanes set_refs_add_ref)
  show "queued_in (map_of (rs_lanes (push_ref agg r origin s))) origin agg r"
    by (simp add: queued_in_def push_ref_lanes set_refs_add_ref)
qed

lemma fold_push_ref_facts:
  "lists_ok s \<Longrightarrow>
    rs_jobs (fold (push_ref agg r) origins s) = rs_jobs s
    \<and> rs_key_index (fold (push_ref agg r) origins s) = rs_key_index s
    \<and> rs_next_ready_id (fold (push_ref agg r) origins s) = rs_next_ready_id s
    \<and> lists_ok (fold (push_ref agg r) origins s)
    \<and> lanes_extend (map_of (rs_lanes s)) (map_of (rs_lanes (fold (push_ref agg r) origins s)))
    \<and> (\<forall>origin \<in> set origins. queued_in (map_of (rs_lanes (fold (push_ref agg r) origins s))) origin agg r)"
proof (induction origins arbitrary: s)
  case (Cons q origins)
  note facts = push_ref_facts [OF Cons.prems, of agg r q]
  note IH = Cons.IH [OF facts(4)]
  have "queued_in (map_of (rs_lanes (fold (push_ref agg r) origins (push_ref agg r q s)))) q agg r"
    using IH facts(6) by (simp add: lanes_extend_def)
  then show ?case using IH facts(1-3,5) lanes_extend_trans by auto
qed simp

lemma remove_keys_facts:
  "rs_jobs (remove_keys ks r s) = rs_jobs s" "rs_lanes (remove_keys ks r s) = rs_lanes s"
  "rs_origins (remove_keys ks r s) = rs_origins s"
  "rs_next_ready_id (remove_keys ks r s) = rs_next_ready_id s"
  "rs_key_index (remove_keys ks r s) k =
    (if k \<in> set ks \<and> rs_key_index s k = Some r then None else rs_key_index s k)"
  by (induction ks arbitrary: s) (auto simp: remove_index_if_current_def)

lemma remove_keys_jobs: "(remove_keys ks r s)\<lparr>rs_jobs := x\<rparr> = remove_keys ks r (s\<lparr>rs_jobs := x\<rparr>)"
proof -
  have "(remove_index_if_current k r s)\<lparr>rs_jobs := x\<rparr> = remove_index_if_current k r (s\<lparr>rs_jobs := x\<rparr>)" for k s
    by (cases s) (simp add: remove_index_if_current_def)
  then show ?thesis by (induction ks arbitrary: s) simp_all
qed

section \<open>Admission keeps the invariant\<close>

lemma set_add_origins: "set (add_origins known rs) = set known \<union> set rs"
  by (induction rs arbitrary: known) auto

lemma fold_index:
  "fold (\<lambda>i m. m(f i \<mapsto> r)) is m k = (if k \<in> f ` set is then Some r else m k)"
  by (induction "is" arbitrary: m) auto

lemma lists_ok_put: "lists_ok s \<Longrightarrow> lists_ok (s\<lparr>rs_key_index := i, rs_jobs := AList.update r e (rs_jobs s)\<rparr>)"
  by (simp add: lists_ok_def)

text \<open>A new entry with a fresh number, indexed under its keys and referenced by its origins.\<close>

lemma admit_entry_inv:
  assumes inv: "sched_inv closed s" and id: "allocate_ready_id s = Some (r, s1)"
    and origins: "\<And>origin a. entry_belongs closed e origin a \<Longrightarrow> a = agg \<and> origin \<in> set origins"
    and keys: "entry_keys e = set ks"
  shows "sched_inv closed (fold (push_ref agg r) origins
    (s1\<lparr>rs_key_index := fold (\<lambda>k m. m(k \<mapsto> r)) ks (rs_key_index s1),
        rs_jobs := AList.update r e (rs_jobs s1)\<rparr>))"
proof -
  let ?s = "s1\<lparr>rs_key_index := fold (\<lambda>k m. m(k \<mapsto> r)) ks (rs_key_index s1),
      rs_jobs := AList.update r e (rs_jobs s1)\<rparr>"
  obtain n where n: "checked_add (rs_next_ready_id s) 1 = Some n"
    and s1: "s1 = s\<lparr>rs_next_ready_id := n\<rparr>" and r: "r = rs_next_ready_id s"
    using id by (auto simp: allocate_ready_id_def)
  have less: "rs_next_ready_id s < n"
    using n by (simp add: checked_add_iff word_less_nat_alt)
  have lists: "lists_ok s" and ok: "sched_ok closed (map_of (rs_jobs s)) (rs_key_index s)
      (map_of (rs_lanes s)) (rs_next_ready_id s)"
    using inv by (simp_all add: sched_inv_def)
  have fresh: "map_of (rs_jobs s) r = None"
    using sched_okD(2) [OF ok] by (cases "map_of (rs_jobs s) r") (auto simp: r)
  have lists': "lists_ok ?s" using lists by (simp add: lists_ok_def s1)
  let ?t = "fold (push_ref agg r) origins ?s"
  note facts = fold_push_ref_facts [OF lists', of agg r origins]
  have jobs: "map_of (rs_jobs ?t) = (map_of (rs_jobs s))(r \<mapsto> e)"
    and index: "rs_key_index ?t k = (if k \<in> set ks then Some r else rs_key_index s k)"
    and next_id: "rs_next_ready_id ?t = n" for k
    using facts fold_index [of id r ks] by (simp_all add: s1)
  have extend: "queued_in (map_of (rs_lanes s)) q a x \<Longrightarrow> queued_in (map_of (rs_lanes ?t)) q a x" for q a x
    using facts by (simp add: lanes_extend_def s1)
  have "sched_ok closed (map_of (rs_jobs ?t)) (rs_key_index ?t) (map_of (rs_lanes ?t)) (rs_next_ready_id ?t)"
    unfolding sched_ok_def jobs index next_id
  proof (intro conjI allI impI)
    fix k x assume "(if k \<in> set ks then Some r else rs_key_index s k) = Some x"
    then show "\<exists>f. ((map_of (rs_jobs s))(r \<mapsto> e)) x = Some f \<and> k \<in> entry_keys f"
      using sched_okD(1) [OF ok, of k x] keys fresh by (auto split: if_splits)
  next
    fix x f assume "((map_of (rs_jobs s))(r \<mapsto> e)) x = Some f"
    then show "x < n"
      using sched_okD(2) [OF ok, of x] less by (auto simp: r split: if_splits intro: order.strict_trans)
  next
    fix x f q a
    assume "((map_of (rs_jobs s))(r \<mapsto> e)) x = Some f" "entry_belongs closed f q a"
    then show "queued_in (map_of (rs_lanes ?t)) q a x"
      using sched_okD(3) [OF ok, of x f q a] extend origins [of q a] facts by (auto split: if_splits)
  qed
  then show ?thesis using facts by (simp add: sched_inv_def)
qed

lemma admit_job_inv:
  assumes "sched_inv closed s" "admit_job job s = Some s'"
  shows "sched_inv closed s'"
proof -
  obtain r s1 where id: "allocate_ready_id s = Some (r, s1)"
    using assms(2) by (auto simp: admit_job_def)
  let ?agg = "case job of Aggregate _ \<Rightarrow> True | IndividualJob _ \<Rightarrow> False"
  have s': "s' = fold (push_ref ?agg r) (add_origins [] (concat (map wi_origins (items job))))
      (s1\<lparr>rs_key_index := fold (\<lambda>k m. m(k \<mapsto> r)) (map wi_key (items job)) (rs_key_index s1),
          rs_jobs := AList.update r (QueuedEntry job) (rs_jobs s1)\<rparr>)"
    using assms(2) id by (simp add: admit_job_def fold_map comp_def)
  show ?thesis unfolding s'
    by (rule admit_entry_inv [OF assms(1) id])
      (auto simp: entry_belongs_def entry_keys_def job_class_matches_def job_has_origin_def set_add_origins
        split: execution_job.splits)
qed

lemma admit_jobs_inv: "sched_inv closed s \<Longrightarrow> admit_jobs js s = Some s' \<Longrightarrow> sched_inv closed s'"
  by (induction js arbitrary: s) (auto simp: bind_eq_Some_conv dest: admit_job_inv)

lemma admit_chunks_inv: "sched_inv closed s \<Longrightarrow> admit_chunks lib cs s = Some s' \<Longrightarrow> sched_inv closed s'"
  by (induction cs arbitrary: s) (auto simp: bind_eq_Some_conv dest: admit_jobs_inv)

lemma admit_resume_inv:
  assumes "sched_inv closed s" "admit_resume request origins s = Some s'"
  shows "sched_inv closed s'"
proof -
  obtain r s1 where id: "allocate_ready_id s = Some (r, s1)"
    using assms(2) by (auto simp: admit_resume_def)
  then have s': "s' = fold (push_ref (sr_aggregate request) r) origins
      (s1\<lparr>rs_key_index := fold (\<lambda>k m. m(k \<mapsto> r)) (sr_keys request) (rs_key_index s1),
          rs_jobs := AList.update r (ResumeEntry request origins) (rs_jobs s1)\<rparr>)"
    using assms(2) by (simp add: admit_resume_def)
  show ?thesis unfolding s'
    by (rule admit_entry_inv [OF assms(1) id]) (auto simp: entry_belongs_def entry_keys_def)
qed

section \<open>Attaching and pruning keep the invariant\<close>

lemma attach_entry_inv:
  assumes inv: "sched_inv closed s" and r: "map_of (rs_jobs s) r = Some e"
    and keys: "entry_keys e' = entry_keys e"
    and belongs: "\<And>q a. entry_belongs closed e' q a \<Longrightarrow> entry_belongs closed e q a \<or> q = origin \<and> a = agg"
    and eligible: "eligible \<Longrightarrow> entry_belongs closed e origin agg"
  shows "sched_inv closed (if eligible then s\<lparr>rs_jobs := AList.update r e' (rs_jobs s)\<rparr>
    else push_ref agg r origin (s\<lparr>rs_jobs := AList.update r e' (rs_jobs s)\<rparr>))"
proof -
  let ?s = "s\<lparr>rs_jobs := AList.update r e' (rs_jobs s)\<rparr>"
  define t where "t = (if eligible then ?s else push_ref agg r origin ?s)"
  have lists: "lists_ok ?s" and ok: "sched_ok closed (map_of (rs_jobs s)) (rs_key_index s)
      (map_of (rs_lanes s)) (rs_next_ready_id s)"
    using inv by (simp_all add: sched_inv_def lists_ok_def)
  note facts = push_ref_facts [OF lists, of agg r origin]
  have same: "rs_jobs t = rs_jobs ?s" "rs_key_index t = rs_key_index s"
      "rs_next_ready_id t = rs_next_ready_id s" "lists_ok t"
    using facts(1-4) lists by (simp_all add: t_def)
  have extend: "queued_in (map_of (rs_lanes t)) q a x" if "queued_in (map_of (rs_lanes s)) q a x" for q a x
    using facts(5) that by (simp add: lanes_extend_def t_def)
  have new: "queued_in (map_of (rs_lanes t)) origin agg r"
    using facts(6) extend sched_okD(3) [OF ok r eligible] by (cases eligible) (simp_all add: t_def)
  have "sched_ok closed (map_of (rs_jobs t)) (rs_key_index t) (map_of (rs_lanes t)) (rs_next_ready_id t)"
    unfolding sched_ok_def same
  proof (intro conjI allI impI)
    fix k x assume "rs_key_index s k = Some x"
    from sched_okD(1) [OF ok this] obtain f where f: "map_of (rs_jobs s) x = Some f" "k \<in> entry_keys f" by blast
    show "\<exists>f. map_of (rs_jobs ?s) x = Some f \<and> k \<in> entry_keys f"
      using f r keys by (cases "x = r") simp_all
  next
    fix x f assume "map_of (rs_jobs ?s) x = Some f"
    then show "x < rs_next_ready_id s"
      using sched_okD(2) [OF ok, of x] r by (auto split: if_splits)
  next
    fix x f q a
    assume f: "map_of (rs_jobs ?s) x = Some f" "entry_belongs closed f q a"
    show "queued_in (map_of (rs_lanes t)) q a x"
    proof (cases "x = r")
      case True
      then show ?thesis using f belongs [of q a] sched_okD(3) [OF ok r, of q a] extend new by auto
    next
      case False
      then show ?thesis using f sched_okD(3) [OF ok, of x f q a] extend by simp
    qed
  qed
  then have "sched_inv closed t" using same(4) by (simp add: sched_inv_def)
  then show ?thesis by (simp only: t_def)
qed

lemma push_origin_keys: "push_origin key origin is = Some is' \<Longrightarrow> map wi_key is' = map wi_key is"
  by (induction "is" arbitrary: is') (auto split: if_splits)

lemma push_origin_origins:
  "push_origin key origin is = Some is' \<Longrightarrow> i \<in> set is' \<Longrightarrow> q \<in> set (wi_origins i)
    \<Longrightarrow> q = origin \<or> (\<exists>i \<in> set is. q \<in> set (wi_origins i))"
  by (induction "is" arbitrary: is') (auto split: if_splits)

lemma push_origin_Some: "key \<in> wi_key ` set is \<Longrightarrow> \<exists>is'. push_origin key origin is = Some is'"
  by (induction "is") auto

lemma remove_index_inv:
  assumes "sched_inv closed s"
  shows "sched_inv closed (remove_index_if_current key r s)"
  using assms by (auto simp: sched_inv_def lists_ok_def sched_ok_def remove_index_if_current_def)

lemma put_same: "map_of (rs_jobs s) r = Some e \<Longrightarrow> sched_inv closed s \<Longrightarrow>
  sched_inv closed (s\<lparr>rs_jobs := AList.update r e (rs_jobs s)\<rparr>)"
  by (auto simp: sched_inv_def lists_ok_def fun_upd_idem)

lemma attach_inv:
  assumes inv: "sched_inv closed s" and res: "attach closed key origin s = Some (b, s')"
  shows "sched_inv closed s'"
proof (cases "rs_key_index s key")
  case None
  then show ?thesis using assms by (simp add: attach_def)
next
  case (Some r)
  obtain e where e: "map_of (rs_jobs s) r = Some e"
    using inv Some sched_okD(1) by (fastforce simp: sched_inv_def)
  show ?thesis
  proof (cases e)
    case (ResumeEntry request origins)
    consider "s' = s" | "s' = remove_index_if_current key r s"
      | "s' = push_ref (sr_aggregate request) r origin
          (s\<lparr>rs_jobs := AList.update r (ResumeEntry request (origins @ [origin])) (rs_jobs s)\<rparr>)"
      using res Some e by (auto simp: attach_def Let_def ResumeEntry split: if_splits)
    then show ?thesis
    proof cases
      case 3
      then show ?thesis
        using attach_entry_inv [OF inv e, of "ResumeEntry request (origins @ [origin])" origin "sr_aggregate request" False]
        by (auto simp: ResumeEntry entry_keys_def entry_belongs_def)
    qed (use inv remove_index_inv [OF inv] in simp_all)
  next
    case (QueuedEntry job)
    show ?thesis
    proof (cases job)
      case (IndividualJob i)
      have s': "s' = (if origin \<in> set (wi_origins i)
          then s\<lparr>rs_jobs := AList.update r (QueuedEntry (IndividualJob (i\<lparr>wi_origins := wi_origins i @ [origin]\<rparr>))) (rs_jobs s)\<rparr>
          else push_ref False r origin (s\<lparr>rs_jobs := AList.update r (QueuedEntry (IndividualJob (i\<lparr>wi_origins := wi_origins i @ [origin]\<rparr>))) (rs_jobs s)\<rparr>))"
        using res Some e by (simp add: attach_def Let_def QueuedEntry IndividualJob)
      show ?thesis unfolding s'
        by (rule attach_entry_inv [OF inv e])
          (auto simp: QueuedEntry IndividualJob entry_keys_def entry_belongs_def items_def
            job_class_matches_def job_has_origin_def)
    next
      case (Aggregate "is")
      obtain is' where is': "push_origin key origin is = Some is'"
        and s': "s' = (if \<exists>i \<in> set is. origin \<in> set (wi_origins i)
          then s\<lparr>rs_jobs := AList.update r (QueuedEntry (Aggregate is')) (rs_jobs s)\<rparr>
          else push_ref True r origin (s\<lparr>rs_jobs := AList.update r (QueuedEntry (Aggregate is')) (rs_jobs s)\<rparr>))"
        using res Some e by (simp add: attach_def Let_def QueuedEntry Aggregate bind_eq_Some_conv) blast
      have "wi_key ` set is' = wi_key ` set is" using push_origin_keys [OF is'] by (metis set_map)
      then show ?thesis unfolding s' using push_origin_origins [OF is']
        by (intro attach_entry_inv [OF inv e])
          (auto simp: QueuedEntry Aggregate entry_keys_def entry_belongs_def items_def
            job_class_matches_def job_has_origin_def)
    qed
  qed
qed

text \<open>Entries may shrink or disappear with their index; pruning then drops the stale references.\<close>

lemma remove_entry_inv:
  assumes inv: "sched_inv closed s" and e: "map_of (rs_jobs s) r = Some e" and ks: "entry_keys e \<subseteq> set ks"
  shows "sched_inv closed (remove_keys ks r (s\<lparr>rs_jobs := AList.delete r (rs_jobs s)\<rparr>))"
proof -
  let ?s = "s\<lparr>rs_jobs := AList.delete r (rs_jobs s)\<rparr>"
  have lists: "lists_ok s" and ok: "sched_ok closed (map_of (rs_jobs s)) (rs_key_index s)
      (map_of (rs_lanes s)) (rs_next_ready_id s)"
    using inv by (simp_all add: sched_inv_def)
  have jobs: "map_of (AList.delete r (rs_jobs s)) x = (if x = r then None else map_of (rs_jobs s) x)" for x
    by (simp add: delete_conv)
  have "sched_ok closed (map_of (rs_jobs ?s)) (rs_key_index (remove_keys ks r ?s)) (map_of (rs_lanes ?s)) (rs_next_ready_id ?s)"
    unfolding sched_ok_def remove_keys_facts
  proof (intro conjI allI impI)
    fix k x assume k: "(if k \<in> set ks \<and> rs_key_index ?s k = Some r then None else rs_key_index ?s k) = Some x"
    then have idx: "rs_key_index s k = Some x" by (simp split: if_splits)
    from sched_okD(1) [OF ok idx] obtain f where f: "map_of (rs_jobs s) x = Some f" "k \<in> entry_keys f" by blast
    have "x \<noteq> r"
    proof
      assume "x = r"
      then have "k \<in> set ks" using f e ks by auto
      then show False using k idx \<open>x = r\<close> by simp
    qed
    then show "\<exists>f. map_of (rs_jobs ?s) x = Some f \<and> k \<in> entry_keys f" using f by (simp add: jobs)
  qed (use sched_okD(2,3) [OF ok] in \<open>auto simp: jobs split: if_splits\<close>)
  then show ?thesis using lists by (simp add: sched_inv_def lists_ok_def remove_keys_facts)
qed

lemma drop_closed_inv:
  assumes "sched_inv closed s" "distinct (map fst es)"
    "\<And>r e. (r, e) \<in> set es \<Longrightarrow> map_of (rs_jobs s) r = Some e \<and> closed_resume closed e"
  shows "sched_inv closed (drop_closed es s)
    \<and> (\<forall>r. map_of (rs_jobs (drop_closed es s)) r = (if r \<in> fst ` set es then None else map_of (rs_jobs s) r))
    \<and> rs_lanes (drop_closed es s) = rs_lanes s \<and> rs_origins (drop_closed es s) = rs_origins s"
  using assms
proof (induction es arbitrary: s)
  case (Cons x es)
  obtain r e where x: "x = (r, e)" by (cases x)
  then obtain request origins where e: "e = ResumeEntry request origins"
    using Cons.prems(3) [of r e] by (auto simp: closed_resume_def split: entry.splits)
  have r: "map_of (rs_jobs s) r = Some e" using Cons.prems(3) by (simp add: x)
  let ?s = "remove_keys (sr_keys request) r (s\<lparr>rs_jobs := AList.delete r (rs_jobs s)\<rparr>)"
  have inv: "sched_inv closed ?s"
    by (rule remove_entry_inv [OF Cons.prems(1) r]) (simp add: e entry_keys_def)
  have jobs: "map_of (rs_jobs ?s) y = (if y = r then None else map_of (rs_jobs s) y)" for y
    by (simp add: remove_keys_facts delete_conv)
  have dist: "distinct (map fst es)" "r \<notin> fst ` set es" using Cons.prems(2) by (auto simp: x)
  have "map_of (rs_jobs ?s) q = Some f \<and> closed_resume closed f" if "(q, f) \<in> set es" for q f
    using Cons.prems(3) [of q f] that dist(2) by (force simp: jobs)
  from Cons.IH [OF inv dist(1) this] show ?case
    by (auto simp: x e jobs remove_keys_facts)
qed simp

lemma filter_present:
  "fst ` set m \<subseteq> set xs \<Longrightarrow> set (filter (\<lambda>x. map_of m x \<noteq> None) xs) = fst ` set m"
  by (auto simp: map_of_eq_None_iff)

lemma closed_not_belongs: "closed_resume closed e \<Longrightarrow> \<not> entry_belongs closed e origin a"
  by (auto simp: closed_resume_def entry_belongs_def split: entry.splits)

lemma prune_inv:
  assumes inv: "sched_inv closed s"
  shows "sched_inv closed (prune_refs closed s)"
    and "map_of (rs_jobs (prune_refs closed s)) r =
      (case map_of (rs_jobs s) r of None \<Rightarrow> None | Some e \<Rightarrow> if closed_resume closed e then None else Some e)"
proof -
  let ?es = "filter (\<lambda>(_, e). closed_resume closed e) (rs_jobs s)"
  let ?s = "drop_closed ?es s"
  have keys: "keys_distinct (rs_jobs s)" using inv by (simp add: sched_inv_def lists_ok_def)
  then have dist: "distinct (map fst ?es)" by (simp add: keys_distinct_def distinct_map_filter)
  have members: "map_of (rs_jobs s) r = Some e \<and> closed_resume closed e" if "(r, e) \<in> set ?es" for r e
    using that by (auto simp: map_of_eq_Some [OF keys])
  have d: "sched_inv closed ?s"
    "map_of (rs_jobs ?s) r = (if r \<in> fst ` set ?es then None else map_of (rs_jobs s) r)"
    "rs_lanes ?s = rs_lanes s" "rs_origins ?s = rs_origins s" for r
    using drop_closed_inv [OF inv dist members] by blast+
  have gone: "r \<in> fst ` set ?es \<longleftrightarrow> (\<exists>e. map_of (rs_jobs s) r = Some e \<and> closed_resume closed e)" for r
    using map_of_eq_Some [OF keys] by force
  let ?keep = "\<lambda>origin lane. lane\<lparr>ol_aggregate := keep_refs (map_of (rs_jobs ?s)) closed origin True (ol_aggregate lane),
      ol_individual := keep_refs (map_of (rs_jobs ?s)) closed origin False (ol_individual lane)\<rparr>"
  let ?lanes = "retain_map (\<lambda>origin lane. if ol_aggregate (?keep origin lane) = [] \<and> ol_individual (?keep origin lane) = []
      then None else Some (?keep origin lane)) (rs_lanes s)"
  have t: "prune_refs closed s = ?s\<lparr>rs_lanes := ?lanes,
      rs_origins := filter (\<lambda>origin. map_of ?lanes origin \<noteq> None) (rs_origins s)\<rparr>"
    unfolding prune_refs_def Let_def d(3,4) ..
  show "map_of (rs_jobs (prune_refs closed s)) r =
      (case map_of (rs_jobs s) r of None \<Rightarrow> None | Some e \<Rightarrow> if closed_resume closed e then None else Some e)"
  proof -
    have "map_of (rs_jobs (prune_refs closed s)) r = map_of (rs_jobs ?s) r" by (simp add: t)
    then show ?thesis unfolding d(2) gone by (simp split: option.split)
  qed
  have lists: "keys_distinct (rs_lanes s)" "distinct (rs_origins s)" "set (rs_origins s) = fst ` set (rs_lanes s)"
      "keys_distinct (rs_jobs ?s)"
    using inv d(1) by (simp_all add: sched_inv_def lists_ok_def)
  have "set (filter (\<lambda>origin. map_of ?lanes origin \<noteq> None) (rs_origins s)) = fst ` set ?lanes"
    by (rule filter_present) (unfold lists(3), rule keys_retain_map)
  then have lists': "lists_ok (prune_refs closed s)"
    using lists by (simp add: t lists_ok_def keys_distinct_retain)
  have ok: "sched_ok closed (map_of (rs_jobs ?s)) (rs_key_index ?s) (map_of (rs_lanes s)) (rs_next_ready_id ?s)"
    using d(1,3) by (simp add: sched_inv_def)
  have "queued_in (map_of ?lanes) q a x"
    if e: "map_of (rs_jobs ?s) x = Some e" "entry_belongs closed e q a" for x e q a
  proof -
    obtain lane where lane: "map_of (rs_lanes s) q = Some lane" "x \<in> set (refs a lane)"
      using sched_okD(3) [OF ok e] by (auto simp: queued_in_def)
    then have "x \<in> set (refs a (?keep q lane))"
      using e by (auto simp: refs_def keep_refs_def split: if_splits)
    then show ?thesis
      by (auto simp: queued_in_def map_of_retain [OF lists(1)] lane(1) refs_def split: if_splits)
  qed
  then have "sched_ok closed (map_of (rs_jobs ?s)) (rs_key_index ?s) (map_of ?lanes) (rs_next_ready_id ?s)"
    using sched_okD(1,2) [OF ok] unfolding sched_ok_def by blast
  then show "sched_inv closed (prune_refs closed s)" using lists' by (simp add: sched_inv_def t)
qed

section \<open>Claiming keeps the invariant\<close>

definition runnable :: "(execution_job \<Rightarrow> bool) \<Rightarrow> entry \<Rightarrow> bool" where
  "runnable ready e = (case e of QueuedEntry job \<Rightarrow> ready job | ResumeEntry _ _ \<Rightarrow> True)"

definition eligible ::
    "(u64 \<rightharpoonup> entry) \<Rightarrow> (nat \<Rightarrow> bool) \<Rightarrow> (execution_job \<Rightarrow> bool) \<Rightarrow> rpc_origin \<Rightarrow> bool \<Rightarrow> u64 \<Rightarrow> bool" where
  "eligible jobs closed ready origin aggregate r \<longleftrightarrow>
    (\<exists>e. jobs r = Some e \<and> entry_belongs closed e origin aggregate \<and> runnable ready e)"

lemma runnable_case:
  "(case e of QueuedEntry job \<Rightarrow> \<not> ready job | ResumeEntry _ _ \<Rightarrow> False) \<longleftrightarrow> \<not> runnable ready e"
  by (simp add: runnable_def split: entry.split)

lemma take_eligible_facts:
  assumes "take_eligible_ref jobs closed ready origin agg rs = (rs', found)"
  shows "(case found of None \<Rightarrow> \<forall>r \<in> set rs. \<not> eligible jobs closed ready origin agg r
      | Some (i, r) \<Rightarrow> r \<in> set rs \<and> eligible jobs closed ready origin agg r)
    \<and> (\<forall>x \<in> set rs. \<forall>e. jobs x = Some e \<longrightarrow> entry_belongs closed e origin agg
        \<longrightarrow> x \<in> set rs' \<or> (\<exists>i. found = Some (i, x)))"
  using assms
proof (induction rs arbitrary: rs' found)
  case Nil
  then show ?case by simp
next
  case (Cons r rs)
  show ?case
  proof (cases "\<exists>e. jobs r = Some e \<and> entry_belongs closed e origin agg")
    case False
    then have "take_eligible_ref jobs closed ready origin agg rs = (rs', found)"
      using Cons.prems by (auto split: option.splits if_splits)
    from Cons.IH [OF this] show ?thesis
      using False by (auto simp: eligible_def split: option.splits)
  next
    case True
    then obtain e where e: "jobs r = Some e" "entry_belongs closed e origin agg" by blast
    show ?thesis
    proof (cases "runnable ready e")
      case True
      then have "rs' = rs" "found = Some (0, r)"
        using Cons.prems e by (simp_all add: runnable_case)
      then show ?thesis using e True by (auto simp: eligible_def)
    next
      case False
      then obtain rs1 f1 where rest: "take_eligible_ref jobs closed ready origin agg rs = (rs1, f1)"
        and eq: "rs' = r # rs1" "found = map_option (\<lambda>(i, r). (i + 1, r)) f1"
        using Cons.prems e by (auto simp: runnable_case split: prod.splits)
      from Cons.IH [OF rest] show ?thesis
        using e False by (cases f1) (auto simp: eq eligible_def)
    qed
  qed
qed

lemma set_insert_at: "set (insert_at n x xs) = insert x (set xs)"
  by (metis append_take_drop_id insert_at_def list.simps(15) set_append Un_insert_right)

lemma choose_ref_facts:
  assumes "choose_ref jobs closed ready origin lane = (chosen, lane')"
  shows "(case chosen of
      None \<Rightarrow> \<forall>agg. \<forall>r \<in> set (refs agg lane). \<not> eligible jobs closed ready origin agg r
    | Some r \<Rightarrow> \<exists>agg. eligible jobs closed ready origin agg r)
    \<and> (\<forall>agg. \<forall>x \<in> set (refs agg lane). \<forall>e. jobs x = Some e \<longrightarrow> entry_belongs closed e origin agg
        \<longrightarrow> x \<in> set (refs agg lane') \<or> chosen = Some x)"
proof -
  obtain ag a where A: "take_eligible_ref jobs closed ready origin True (ol_aggregate lane) = (ag, a)" by fastforce
  obtain ind i where I: "take_eligible_ref jobs closed ready origin False (ol_individual lane) = (ind, i)" by fastforce
  note TA = take_eligible_facts [OF A] and TI = take_eligible_facts [OF I]
  have res: "(chosen, lane') =
     (let lane' = lane\<lparr>ol_aggregate := ag, ol_individual := ind\<rparr> in
      case (a, i) of
            (None, None) \<Rightarrow> (None, lane')
          | (Some (_, ar), None) \<Rightarrow> (Some ar, lane'\<lparr>ol_prefer_aggregate := False\<rparr>)
          | (None, Some (_, ir)) \<Rightarrow> (Some ir, lane'\<lparr>ol_prefer_aggregate := True\<rparr>)
          | (Some (ai, ar), Some (ii, ir)) \<Rightarrow>
              let lane'' = lane'\<lparr>ol_prefer_aggregate := \<not> ol_prefer_aggregate lane\<rparr> in
              if ol_prefer_aggregate lane
              then (Some ar, lane''\<lparr>ol_individual := insert_at ii ir ind\<rparr>)
              else (Some ir, lane''\<lparr>ol_aggregate := insert_at ai ar ag\<rparr>))"
    using assms by (simp add: choose_ref_def A I)
  show ?thesis
  proof (cases a)
    case None
    show ?thesis
    proof (cases i)
      case None
      then show ?thesis using res \<open>a = None\<close> TA TI by (simp add: refs_def all_bool_eq)
    next
      case (Some y)
      then show ?thesis using res \<open>a = None\<close> TA TI by (cases y) (auto simp: refs_def all_bool_eq)
    qed
  next
    case (Some x)
    obtain ai ar where x: "x = (ai, ar)" by (cases x)
    show ?thesis
    proof (cases i)
      case None
      then show ?thesis using res Some x TA TI by (auto simp: refs_def all_bool_eq)
    next
      case (Some y)
      then show ?thesis using res \<open>a = Some x\<close> x TA TI
        by (cases y; cases "ol_prefer_aggregate lane") (auto simp: refs_def all_bool_eq set_insert_at Let_def)
    qed
  qed
qed

definition matches :: "entry \<Rightarrow> claim \<Rightarrow> bool" where
  "matches e c =
    (case e of QueuedEntry job \<Rightarrow> c = ClaimQueued job | ResumeEntry request _ \<Rightarrow> c = ClaimResume request)"

lemma claim_inv:
  assumes inv: "sched_inv closed s" and e: "map_of (rs_jobs s) r = Some e"
    and claim: "claim_job r s = (c, s')"
  shows "\<exists>d. c = Some d \<and> matches e d" "sched_inv closed s'"
    "map_of (rs_jobs s') = (map_of (rs_jobs s))(r := None)"
proof -
  define ks where "ks = (case e of QueuedEntry job \<Rightarrow> map wi_key (items job) | ResumeEntry request _ \<Rightarrow> sr_keys request)"
  have s': "s' = remove_keys ks r (s\<lparr>rs_jobs := AList.delete r (rs_jobs s)\<rparr>)"
    and c: "\<exists>d. c = Some d \<and> matches e d"
    using claim e by (auto simp: claim_job_def Let_def ks_def matches_def split: entry.splits)
  show "\<exists>d. c = Some d \<and> matches e d" by (rule c)
  show "sched_inv closed s'" unfolding s'
    by (rule remove_entry_inv [OF inv e]) (simp add: ks_def entry_keys_def split: entry.split)
  show "map_of (rs_jobs s') = (map_of (rs_jobs s))(r := None)" by (simp add: s' remove_keys_facts)
qed

text \<open>
  Serving one origin: its lane loses only stale references and the chosen one. Unless the chosen entry
  is claimed next, the invariant would be broken for it alone.
\<close>

definition served ::
    "rpc_origin \<Rightarrow> origin_lanes \<Rightarrow> rpc_origin list \<Rightarrow> ready_scheduler \<Rightarrow> ready_scheduler" where
  "served origin lane' origins s =
    (if ol_aggregate lane' \<noteq> [] \<or> ol_individual lane' \<noteq> []
     then s\<lparr>rs_origins := origins @ [origin],
            rs_lanes := AList.update origin lane' (AList.delete origin (rs_lanes s))\<rparr>
     else s\<lparr>rs_origins := origins, rs_lanes := AList.delete origin (rs_lanes s)\<rparr>)"

lemma served_origins: "\<exists>zs. rs_origins (served origin lane' origins s) = origins @ zs"
  by (cases "ol_aggregate lane' = [] \<and> ol_individual lane' = []") (auto simp: served_def)

lemma served_facts:
  assumes lists: "lists_ok s" and origins: "rs_origins s = origin # origins"
  shows "lists_ok (served origin lane' origins s)" "rs_jobs (served origin lane' origins s) = rs_jobs s"
    "rs_key_index (served origin lane' origins s) = rs_key_index s"
    "rs_next_ready_id (served origin lane' origins s) = rs_next_ready_id s"
    "queued_in (map_of (rs_lanes (served origin lane' origins s))) q a x
      \<longleftrightarrow> (if q = origin then x \<in> set (refs a lane') else queued_in (map_of (rs_lanes s)) q a x)"
    "q \<noteq> origin \<Longrightarrow> map_of (rs_lanes (served origin lane' origins s)) q = map_of (rs_lanes s) q"
proof -
  have "set origins = fst ` set (rs_lanes s) - {origin}" "distinct origins" "origin \<notin> set origins"
    using lists origins by (auto simp: lists_ok_def)
  then show "lists_ok (served origin lane' origins s)"
    using lists by (auto simp: lists_ok_def served_def keys_update keys_delete keys_distinct_delete)
  show "queued_in (map_of (rs_lanes (served origin lane' origins s))) q a x
      \<longleftrightarrow> (if q = origin then x \<in> set (refs a lane') else queued_in (map_of (rs_lanes s)) q a x)"
    by (auto simp: queued_in_def served_def refs_def)
qed (simp_all add: served_def)

lemma served_chosen_inv:
  assumes inv: "sched_inv closed s" and origins: "rs_origins s = origin # origins"
    and lane: "map_of (rs_lanes s) origin = Some lane"
    and choose: "choose_ref (map_of (rs_jobs s)) closed ready origin lane = (chosen, lane')"
  shows "chosen = None \<Longrightarrow> sched_inv closed (served origin lane' origins s)"
    and "chosen = Some r \<Longrightarrow> claim_job r (served origin lane' origins s) = (c, s')
      \<Longrightarrow> sched_inv closed s' \<and> (\<exists>e d. map_of (rs_jobs s) r = Some e \<and> c = Some d \<and> matches e d
          \<and> runnable ready e \<and> \<not> closed_resume closed e)
          \<and> map_of (rs_jobs s') = (map_of (rs_jobs s))(r := None)"
proof -
  let ?t = "served origin lane' origins s"
  have lists: "lists_ok s" and ok: "sched_ok closed (map_of (rs_jobs s)) (rs_key_index s)
      (map_of (rs_lanes s)) (rs_next_ready_id s)"
    using inv by (simp_all add: sched_inv_def)
  note facts = served_facts [where lane' = lane', OF lists origins] and C = choose_ref_facts [OF choose]
  have keep: "queued_in (map_of (rs_lanes ?t)) q a x"
    if e: "map_of (rs_jobs s) x = Some e" "entry_belongs closed e q a" and other: "chosen \<noteq> Some x" for q a x e
  proof -
    have "queued_in (map_of (rs_lanes s)) q a x" by (rule sched_okD(3) [OF ok e])
    moreover have "x \<in> set (refs a lane')" if "q = origin" "x \<in> set (refs a lane)"
      using conjunct2 [OF C] that e other by blast
    ultimately show ?thesis using lane unfolding facts(5) by (auto simp: queued_in_def)
  qed
  show "sched_inv closed ?t" if none: "chosen = None"
    using facts(1) keep none sched_okD(1,2) [OF ok]
    by (simp add: sched_inv_def sched_ok_def facts(2-4))
  assume some: "chosen = Some r" and claim: "claim_job r ?t = (c, s')"
  then obtain e a where e: "map_of (rs_jobs s) r = Some e" "entry_belongs closed e origin a" "runnable ready e"
    using C by (auto simp: eligible_def)
  define ks where "ks = (case e of QueuedEntry job \<Rightarrow> map wi_key (items job) | ResumeEntry request _ \<Rightarrow> sr_keys request)"
  have s': "s' = remove_keys ks r (?t\<lparr>rs_jobs := AList.delete r (rs_jobs ?t)\<rparr>)"
    and c: "\<exists>d. c = Some d \<and> matches e d"
    using claim e by (auto simp: claim_job_def Let_def ks_def matches_def facts(2) split: entry.splits)
  have jobs: "map_of (rs_jobs s') = (map_of (rs_jobs s))(r := None)" by (simp add: s' remove_keys_facts facts(2))
  have "sched_ok closed (map_of (rs_jobs s')) (rs_key_index s') (map_of (rs_lanes s')) (rs_next_ready_id s')"
    unfolding sched_ok_def jobs
  proof (intro conjI allI impI)
    fix k x assume k: "rs_key_index s' k = Some x"
    then have idx: "rs_key_index s k = Some x" and nk: "\<not> (k \<in> set ks \<and> x = r)"
      by (auto simp: s' remove_keys_facts facts(3) split: if_splits)
    from sched_okD(1) [OF ok idx] obtain f where f: "map_of (rs_jobs s) x = Some f" "k \<in> entry_keys f" by blast
    have "x \<noteq> r" using f e(1) nk by (auto simp: ks_def entry_keys_def split: entry.splits)
    then show "\<exists>f. ((map_of (rs_jobs s))(r := None)) x = Some f \<and> k \<in> entry_keys f" using f by simp
  next
    fix x f assume "((map_of (rs_jobs s))(r := None)) x = Some f"
    then show "x < rs_next_ready_id s'"
      using sched_okD(2) [OF ok] by (simp add: s' remove_keys_facts facts(4) split: if_splits)
  next
    fix x f q b assume "((map_of (rs_jobs s))(r := None)) x = Some f" "entry_belongs closed f q b"
    then show "queued_in (map_of (rs_lanes s')) q b x"
      using keep some by (simp add: s' remove_keys_facts split: if_splits)
  qed
  moreover have "lists_ok s'"
    using facts(1) by (simp add: s' lists_ok_def remove_keys_facts keys_distinct_delete)
  ultimately have "sched_inv closed s'" by (simp add: sched_inv_def)
  moreover have "\<not> closed_resume closed e" using e(2) closed_not_belongs by blast
  ultimately show "sched_inv closed s' \<and> (\<exists>e d. map_of (rs_jobs s) r = Some e \<and> c = Some d \<and> matches e d
          \<and> runnable ready e \<and> \<not> closed_resume closed e)
          \<and> map_of (rs_jobs s') = (map_of (rs_jobs s))(r := None)"
    using e c jobs by blast
qed

lemma next_loop_step:
  assumes "rs_origins s = origin # origins" "map_of (rs_lanes s) origin = Some lane"
    "choose_ref (map_of (rs_jobs s)) closed ready origin lane = (chosen, lane')"
  shows "next_loop closed ready (Suc n) s =
    (let s1 = served origin lane' origins s in
     case chosen of
       None \<Rightarrow> next_loop closed ready n s1
     | Some r \<Rightarrow> (case claim_job r s1 of
         (c, s2) \<Rightarrow> if c \<noteq> None then (c, prune_refs closed s2)
                   else next_loop closed ready n (prune_refs closed s2)))"
  using assms by (simp add: served_def Let_def)

text \<open>An entry that some origin in \<open>os\<close> could run now.\<close>

definition runnable_under :: "(nat \<Rightarrow> bool) \<Rightarrow> (execution_job \<Rightarrow> bool) \<Rightarrow> ready_scheduler \<Rightarrow> rpc_origin set \<Rightarrow> bool" where
  "runnable_under closed ready s os \<longleftrightarrow>
    (\<exists>r origin agg. origin \<in> os \<and> eligible (map_of (rs_jobs s)) closed ready origin agg r)"

lemma next_loop_facts:
  assumes "sched_inv closed s" "next_loop closed ready n s = (c, s')"
  shows "sched_inv closed s'
    \<and> (case c of
        Some d \<Rightarrow> \<exists>r e. map_of (rs_jobs s) r = Some e \<and> matches e d \<and> runnable ready e
            \<and> \<not> closed_resume closed e \<and> map_of (rs_jobs s') r = None
            \<and> (\<forall>q f. q \<noteq> r \<longrightarrow> map_of (rs_jobs s) q = Some f \<longrightarrow> \<not> closed_resume closed f
                \<longrightarrow> map_of (rs_jobs s') q = Some f)
      | None \<Rightarrow> rs_jobs s' = rs_jobs s
          \<and> \<not> runnable_under closed ready s (set (take n (rs_origins s))))"
  using assms
proof (induction n arbitrary: s)
  case 0
  then show ?case by (simp add: runnable_under_def)
next
  case (Suc n)
  have lists: "lists_ok s" and ok: "sched_ok closed (map_of (rs_jobs s)) (rs_key_index s)
      (map_of (rs_lanes s)) (rs_next_ready_id s)"
    using Suc.prems(1) by (simp_all add: sched_inv_def)
  show ?case
  proof (cases "rs_origins s")
    case Nil
    then show ?thesis using Suc.prems by (simp add: runnable_under_def)
  next
    case (Cons origin origins)
    then have "origin \<in> fst ` set (rs_lanes s)" using lists by (auto simp: lists_ok_def)
    then obtain lane where lane: "map_of (rs_lanes s) origin = Some lane"
      using map_of_eq_None_iff [of "rs_lanes s" origin] by (cases "map_of (rs_lanes s) origin") auto
    obtain chosen lane' where choose: "choose_ref (map_of (rs_jobs s)) closed ready origin lane = (chosen, lane')"
      by fastforce
    note C = choose_ref_facts [OF choose]
    note step = next_loop_step [OF Cons lane choose, of n]
    note facts = served_facts [where lane' = lane', OF lists Cons]
    show ?thesis
    proof (cases chosen)
      case None
      have inv1: "sched_inv closed (served origin lane' origins s)"
        by (rule served_chosen_inv(1) [OF Suc.prems(1) Cons lane choose None])
      have eq: "next_loop closed ready n (served origin lane' origins s) = (c, s')"
        using Suc.prems(2) step None by (simp add: Let_def)
      have idle: "\<not> eligible (map_of (rs_jobs s)) closed ready origin agg r" for agg r
      proof
        assume *: "eligible (map_of (rs_jobs s)) closed ready origin agg r"
        then obtain e where "map_of (rs_jobs s) r = Some e" "entry_belongs closed e origin agg"
          by (auto simp: eligible_def)
        then have "queued_in (map_of (rs_lanes s)) origin agg r" by (rule sched_okD(3) [OF ok])
        then have "r \<in> set (refs agg lane)" using lane by (simp add: queued_in_def)
        then show False using C None * by auto
      qed
      have "set (take (Suc n) (rs_origins s))
          \<subseteq> insert origin (set (take n (rs_origins (served origin lane' origins s))))"
        using Cons by (auto simp: served_def)
      then show ?thesis using Suc.IH [OF inv1 eq] idle facts(2)
        by (cases c) (auto simp: runnable_under_def)
    next
      case (Some r)
      obtain d s2 where claim: "claim_job r (served origin lane' origins s) = (d, s2)" by fastforce
      note chosen = served_chosen_inv(2) [OF Suc.prems(1) Cons lane choose Some claim]
      then have "c = d" "s' = prune_refs closed s2" "d \<noteq> None"
        using Suc.prems(2) step Some claim by (auto simp: Let_def)
      moreover have inv2: "sched_inv closed s2" using chosen by blast
      moreover note prune_inv [OF inv2]
      ultimately show ?thesis using chosen by (auto split: option.splits)
    qed
  qed
qed

lemma verification_inv:
  assumes inv: "sched_inv closed s" and res: "next_verification closed ready s = (j, s')"
  shows "sched_inv closed s'"
proof (cases "unready_ids ready s = []")
  case True
  then show ?thesis using assms by (simp add: next_verification_def)
next
  case False
  let ?r = "Min (set (unready_ids ready s))"
  have "?r \<in> set (unready_ids ready s)" using False by (intro Min_in) auto
  then have "?r \<in> fst ` set (rs_jobs s)" by (auto simp: unready_ids_def)
  then have "map_of (rs_jobs s) ?r \<noteq> None" by (simp add: map_of_eq_None_iff)
  then obtain e where e: "map_of (rs_jobs s) ?r = Some e" by auto
  obtain c s1 where claim: "claim_job ?r s = (c, s1)" by fastforce
  have "sched_inv closed s1" by (rule claim_inv(2) [OF inv e claim])
  then show ?thesis using res False claim by (auto simp: next_verification_def intro: prune_inv(1))
qed

lemma expire_entry_inv:
  assumes inv: "sched_inv closed s" and res: "expire_entry waiters now r s = (expired, s')"
  shows "sched_inv closed s'"
proof (cases "\<exists>job. map_of (rs_jobs s) r = Some (QueuedEntry job)")
  case False
  then show ?thesis using assms by (auto simp: expire_entry_def split: option.splits entry.splits)
next
  case True
  then obtain job where job: "map_of (rs_jobs s) r = Some (QueuedEntry job)" by blast
  let ?old = "filter (item_expired waiters now) (items job)"
  let ?live = "filter (\<lambda>i. \<not> item_expired waiters now i) (items job)"
  let ?ks = "map wi_key ?old"
  show ?thesis
  proof (cases "?live = []")
    case True
    have "set (items job) = set ?old" using True by (auto simp: filter_empty_conv)
    then have "entry_keys (QueuedEntry job) \<subseteq> set ?ks" by (auto simp: entry_keys_def)
    from remove_entry_inv [OF inv job this]
    have "sched_inv closed (remove_keys ?ks r (s\<lparr>rs_jobs := AList.delete r (rs_jobs s)\<rparr>))" .
    moreover have "s' = (remove_keys ?ks r s)\<lparr>rs_jobs := AList.delete r (rs_jobs s)\<rparr>"
      using res job True by (auto simp: expire_entry_def remove_keys_facts Let_def)
    moreover have "(remove_keys ?ks r s)\<lparr>rs_jobs := x\<rparr> = remove_keys ?ks r (s\<lparr>rs_jobs := x\<rparr>)" for x
      by (rule remove_keys_jobs)
    ultimately show ?thesis by simp
  next
    case False
    define e where "e = QueuedEntry (case job of Aggregate _ \<Rightarrow> Aggregate ?live | IndividualJob i \<Rightarrow> IndividualJob i)"
    have s': "s' = (remove_keys ?ks r s)\<lparr>rs_jobs := AList.update r e (rs_jobs s)\<rparr>"
      using res job False by (auto simp: expire_entry_def remove_keys_facts e_def Let_def)
    have belongs: "entry_belongs closed e q a \<Longrightarrow> entry_belongs closed (QueuedEntry job) q a" for q a
      by (auto simp: e_def entry_belongs_def job_class_matches_def job_has_origin_def items_def split: execution_job.splits)
    have keys: "k \<in> entry_keys e" if "k \<in> entry_keys (QueuedEntry job)" "k \<notin> set ?ks" for k
      using that False by (cases job) (auto simp: e_def entry_keys_def items_def split: if_splits)
    have lists: "lists_ok s" and ok: "sched_ok closed (map_of (rs_jobs s)) (rs_key_index s)
        (map_of (rs_lanes s)) (rs_next_ready_id s)"
      using inv by (simp_all add: sched_inv_def)
    have "sched_ok closed (map_of (rs_jobs s')) (rs_key_index s') (map_of (rs_lanes s')) (rs_next_ready_id s')"
      unfolding sched_ok_def
    proof (intro conjI allI impI)
      fix k x assume k: "rs_key_index s' k = Some x"
      then have idx: "rs_key_index s k = Some x" and nk: "\<not> (k \<in> set ?ks \<and> x = r)"
        by (auto simp: s' remove_keys_facts simp del: set_map set_filter split: if_splits)
      from sched_okD(1) [OF ok idx] obtain f where f: "map_of (rs_jobs s) x = Some f" "k \<in> entry_keys f" by blast
      show "\<exists>f. map_of (rs_jobs s') x = Some f \<and> k \<in> entry_keys f"
        using f nk job keys [of k] by (cases "x = r") (simp_all add: s' del: set_map set_filter)
    next
      fix x f assume "map_of (rs_jobs s') x = Some f"
      then show "x < rs_next_ready_id s'"
        using sched_okD(2) [OF ok, of x] job by (auto simp: s' remove_keys_facts split: if_splits)
    next
      fix x f q a assume "map_of (rs_jobs s') x = Some f" "entry_belongs closed f q a"
      then show "queued_in (map_of (rs_lanes s')) q a x"
        using sched_okD(3) [OF ok, of x] job belongs by (auto simp: s' remove_keys_facts split: if_splits)
    qed
    moreover have "lists_ok s'" using lists by (simp add: s' lists_ok_def remove_keys_facts)
    ultimately show ?thesis by (simp add: sched_inv_def)
  qed
qed

lemma expire_entries_inv:
  "sched_inv closed s \<Longrightarrow> expire_entries waiters now rs s = (expired, s') \<Longrightarrow> sched_inv closed s'"
  by (induction rs arbitrary: s expired) (auto split: prod.splits dest: expire_entry_inv)

lemma sched_inv_closed_mono:
  "sched_inv closed s \<Longrightarrow> (\<forall>g. closed g \<longrightarrow> closed' g) \<Longrightarrow> sched_inv closed' s"
  unfolding sched_inv_def sched_ok_def by (meson entry_belongs_mono)

lemma scheduler_step_inv:
  assumes "scheduler_step x e y" "case x of (closed, s) \<Rightarrow> sched_inv closed s"
  shows "case y of (closed, s) \<Rightarrow> sched_inv closed s"
  using assms(1)
proof (cases rule: scheduler_step.cases)
  case (step_attach closed key origin s b s')
  then show ?thesis using assms(2) attach_inv by auto
next
  case (step_admit_work lib work s s' closed)
  then show ?thesis using assms(2) admit_chunks_inv by (auto simp: partition_and_admit_def)
next
  case (step_admit_resume request origins s s' closed)
  then show ?thesis using assms(2) admit_resume_inv by auto
next
  case (step_expire_work closed waiters now s expired s')
  then show ?thesis using assms(2)
    by (auto simp: expire_def split: prod.splits intro!: prune_inv(1) dest: expire_entries_inv)
next
  case (step_next closed ready s c s')
  then show ?thesis using assms(2) next_loop_facts by (auto simp: next_claim_def)
next
  case (step_verify closed ready s j s')
  then show ?thesis using assms(2) verification_inv by auto
next
  case (step_drain error s completions s' closed)
  then show ?thesis by (auto simp: drain_def sched_inv_def lists_ok_def sched_ok_def)
next
  case (step_close closed closed' s)
  then show ?thesis using assms(2) sched_inv_closed_mono by auto
qed

interpretation scheduler: transition_system "\<lambda>(closed, s). s = new_scheduler" scheduler_step
    "\<lambda>(closed, s). sched_inv closed s"
proof (unfold_locales, goal_cases)
  case (1 x)
  then show ?case by (auto simp: new_scheduler_def sched_inv_def lists_ok_def sched_ok_def)
next
  case (2 x l y)
  then show ?case by (rule scheduler_step_inv)
qed

abbreviation scheduler_reachable :: "(nat \<Rightarrow> bool) \<Rightarrow> ready_scheduler \<Rightarrow> bool" where
  "scheduler_reachable closed s \<equiv> reach (\<lambda>(closed, s). s = new_scheduler) scheduler_step (closed, s)"

lemma scheduler_reachable_inv: "scheduler_reachable closed s \<Longrightarrow> sched_inv closed s"
  using scheduler.reach_inv by auto

section \<open>Fairness\<close>

lemma prune_origins: "\<exists>P. rs_origins (prune_refs closed s) = filter P (rs_origins s)"
proof -
  have "rs_origins (drop_closed es s) = rs_origins s" for es
    by (induction es arbitrary: s) (auto simp: remove_keys_facts Let_def split: entry.split)
  then show ?thesis by (auto simp: prune_refs_def Let_def)
qed

lemma claim_origins: "claim_job r s = (c, s') \<Longrightarrow> rs_origins s' = rs_origins s"
  by (auto simp: claim_job_def Let_def remove_keys_facts split: option.splits entry.splits)

lemma eligible_in_lane:
  assumes "sched_inv closed s" "eligible (map_of (rs_jobs s)) closed ready origin agg r"
  shows "queued_in (map_of (rs_lanes s)) origin agg r" "origin \<in> set (rs_origins s)"
proof -
  obtain e where "map_of (rs_jobs s) r = Some e" "entry_belongs closed e origin agg"
    using assms(2) by (auto simp: eligible_def)
  then show q: "queued_in (map_of (rs_lanes s)) origin agg r"
    using assms(1) sched_okD(3) by (fastforce simp: sched_inv_def)
  then have "origin \<in> fst ` set (rs_lanes s)" by (force simp: queued_in_def dest: map_of_SomeD)
  then show "origin \<in> set (rs_origins s)" using assms(1) by (simp add: sched_inv_def lists_ok_def)
qed

text \<open>The entry that a claim took could be run by \<open>origin\<close>.\<close>

definition taken_for ::
    "(nat \<Rightarrow> bool) \<Rightarrow> ready_scheduler \<Rightarrow> rpc_origin \<Rightarrow> ready_scheduler \<Rightarrow> bool" where
  "taken_for closed s origin s' \<longleftrightarrow>
    (\<exists>r e agg. map_of (rs_jobs s) r = Some e \<and> map_of (rs_jobs s') r = None \<and> entry_belongs closed e origin agg)"

lemma next_loop_fair:
  assumes "sched_inv closed s" "rs_origins s = xs @ origin # ys" "length xs < n"
    "eligible (map_of (rs_jobs s)) closed ready origin agg r" "next_loop closed ready n s = (c, s')"
  shows "c \<noteq> None \<and> (taken_for closed s origin s'
    \<or> (\<exists>xs' ys'. rs_origins s' = xs' @ origin # ys' \<and> length xs' < length xs))"
  using assms
proof (induction n arbitrary: s xs ys)
  case 0
  then show ?case by simp
next
  case (Suc n)
  note inv = Suc.prems(1)
  obtain first origins where first: "rs_origins s = first # origins" using Suc.prems(2) by (cases xs) auto
  have lists: "lists_ok s" using inv by (simp add: sched_inv_def)
  then have "first \<in> fst ` set (rs_lanes s)" using first by (auto simp: lists_ok_def)
  then obtain lane where lane: "map_of (rs_lanes s) first = Some lane"
    using map_of_eq_None_iff [of "rs_lanes s" first] by (cases "map_of (rs_lanes s) first") auto
  obtain chosen lane' where choose: "choose_ref (map_of (rs_jobs s)) closed ready first lane = (chosen, lane')"
    by fastforce
  note C = choose_ref_facts [OF choose] and step = next_loop_step [OF first lane choose, of n]
  note facts = served_facts [where lane' = lane', OF lists first]
  show ?case
  proof (cases chosen)
    case None
    have inv1: "sched_inv closed (served first lane' origins s)"
      by (rule served_chosen_inv(1) [OF inv first lane choose None])
    have eq: "next_loop closed ready n (served first lane' origins s) = (c, s')"
      using Suc.prems(5) step None by (simp add: Let_def)
    have "first \<noteq> origin"
      using eligible_in_lane(1) [OF inv Suc.prems(4)] lane C None Suc.prems(4) by (auto simp: queued_in_def)
    then obtain xs1 where xs: "xs = first # xs1" "origins = xs1 @ origin # ys"
      using Suc.prems(2) first by (cases xs) auto
    obtain zs where zs: "rs_origins (served first lane' origins s) = xs1 @ origin # zs"
      using xs served_origins [of first lane' origins s] by auto
    have "c \<noteq> None \<and> (taken_for closed (served first lane' origins s) origin s'
        \<or> (\<exists>xs' ys'. rs_origins s' = xs' @ origin # ys' \<and> length xs' < length xs1))"
      by (rule Suc.IH [OF inv1 zs _ _ eq]) (use Suc.prems(3,4) xs facts(2) in simp_all)
    then show ?thesis using xs facts(2) by (auto simp: taken_for_def)
  next
    case (Some x)
    obtain d s2 where claim: "claim_job x (served first lane' origins s) = (d, s2)" by fastforce
    note chosen = served_chosen_inv(2) [OF inv first lane choose Some claim]
    then have res: "c = d" "s' = prune_refs closed s2" "d \<noteq> None"
      using Suc.prems(5) step Some claim by (auto simp: Let_def)
    have inv2: "sched_inv closed s2" using chosen by blast
    have gone: "map_of (rs_jobs s') x = None" using chosen prune_inv(2) [OF inv2, of x] by (simp add: res)
    obtain e where e: "map_of (rs_jobs s) x = Some e" using chosen by blast
    show ?thesis
    proof (cases "\<exists>b. entry_belongs closed e origin b")
      case True
      then show ?thesis using e gone res by (auto simp: taken_for_def)
    next
      case False
      obtain f where f: "map_of (rs_jobs s) r = Some f" "entry_belongs closed f origin agg" "runnable ready f"
        using Suc.prems(4) by (auto simp: eligible_def)
      have "r \<noteq> x" using f e False by auto
      then have "map_of (rs_jobs s') r = Some f"
        using chosen f(1) prune_inv(2) [OF inv2, of r] closed_not_belongs [of closed f origin agg] f(2)
        by (auto simp: res)
      then have "eligible (map_of (rs_jobs s')) closed ready origin agg r" using f by (simp add: eligible_def)
      then have kept: "origin \<in> set (rs_origins s')"
        using eligible_in_lane(2) prune_inv(1) [OF inv2] by (simp add: res)
      have "first \<noteq> origin"
      proof
        assume "first = origin"
        obtain b where "eligible (map_of (rs_jobs s)) closed ready first b x" using C Some by auto
        then show False using False e \<open>first = origin\<close> by (auto simp: eligible_def)
      qed
      then obtain xs1 where xs: "xs = first # xs1" "origins = xs1 @ origin # ys"
        using Suc.prems(2) first by (cases xs) auto
      obtain zs where zs: "rs_origins s2 = xs1 @ origin # zs"
        using xs claim_origins [OF claim] served_origins [of first lane' origins s] by auto
      obtain P where P: "rs_origins s' = filter P (rs_origins s2)" using prune_origins res by blast
      then have "P origin" using kept by auto
      then have "rs_origins s' = filter P xs1 @ origin # filter P zs" using P zs by simp
      moreover have "length (filter P xs1) < length xs" using xs by (simp add: le_imp_less_Suc)
      ultimately show ?thesis using res by blast
    qed
  qed
qed

section \<open>Chunks\<close>

definition total_gas :: "work_item list \<Rightarrow> nat" where
  "total_gas is = sum_list (map (\<lambda>i. unat (estimated_gas (wi_read i))) is)"

definition load_of :: "route_load \<Rightarrow> work_item list \<Rightarrow> bool" where
  "load_of load is \<longleftrightarrow>
    rl_overflowed load \<or> rl_calls load = length is \<and> unat (rl_gas load) = total_gas is"

lemma load_of_add:
  "load_of load is \<Longrightarrow> load_of (add_load load (item_load (estimated_gas (wi_read i)))) (is @ [i])"
  by (auto simp: load_of_def add_load_def item_load_def total_gas_def usize_add_def checked_add_def
      unat_add_fits split: if_splits)

lemma load_of_one: "load_of (add_load zero_load (item_load (estimated_gas (wi_read i)))) [i]"
  by (auto simp: load_of_def add_load_def item_load_def zero_load_def total_gas_def usize_add_def
      checked_add_def)

definition chunk_fits :: "nat \<Rightarrow> u64 \<Rightarrow> work_item list \<Rightarrow> bool" where
  "chunk_fits max_calls max_gas is \<longleftrightarrow>
    is \<noteq> [] \<and> length is \<le> max max_calls 1 \<and> (length is = 1 \<or> total_gas is \<le> unat max_gas)"

lemma partition_loop_fits:
  assumes "\<forall>i \<in> set work. rt_max_calls (wi_execution_route i) = max_calls
      \<and> rt_max_estimated_gas (wi_execution_route i) = max_gas"
    "load_of load current" "current = [] \<longrightarrow> load = zero_load" "current \<noteq> [] \<longrightarrow> chunk_fits max_calls max_gas current"
  shows "list_all (chunk_fits max_calls max_gas) (partition_loop work current load)"
  using assms
proof (induction work current load rule: partition_loop.induct)
  case (1 current load)
  then show ?case by simp
next
  case (2 item work current load)
  let ?next = "add_load load (item_load (estimated_gas (wi_read item)))"
  let ?split = "current \<noteq> [] \<and> (max max_calls 1 \<le> length current \<or> exceeds ?next (wi_execution_route item))"
  have route: "rt_max_calls (wi_execution_route item) = max_calls"
      "rt_max_estimated_gas (wi_execution_route item) = max_gas" using 2(3) by simp_all
  have single: "chunk_fits max_calls max_gas [item]" by (simp add: chunk_fits_def)
  show ?case
  proof (cases ?split)
    case True
    have "list_all (chunk_fits max_calls max_gas)
        (partition_loop work [item] (add_load zero_load (item_load (estimated_gas (wi_read item)))))"
      using 2(1) [OF refl refl refl refl] True 2(3) single load_of_one route by simp
    then show ?thesis using True 2(6) route by (simp add: Let_def)
  next
    case False
    have load: "load_of ?next (current @ [item])" by (rule load_of_add [OF 2(4)])
    have "chunk_fits max_calls max_gas (current @ [item])"
    proof (cases "current = []")
      case True
      then show ?thesis using single by simp
    next
      case nonempty: False
      then have "\<not> max max_calls 1 \<le> length current" "\<not> exceeds ?next (wi_execution_route item)"
        using False by simp_all
      then show ?thesis using load route
        by (auto simp: chunk_fits_def exceeds_def load_of_def word_le_nat_alt not_less)
    qed
    then have "list_all (chunk_fits max_calls max_gas) (partition_loop work (current @ [item]) ?next)"
      using 2(2) [OF refl refl refl refl] False 2(3) load route by simp
    then show ?thesis
      by (subst partition_loop.simps) (simp only: Let_def route if_not_P [OF False])
  qed
qed

lemma concat_partition_loop: "concat (partition_loop work current load) = current @ work"
  by (induction work current load rule: partition_loop.induct) (auto simp: Let_def)

section \<open>Properties\<close>

text \<open>
  C8: No work is stranded. In every reachable state each queued or resuming job that is still waited for
  has a reference in the lane of every origin that may run it, lanes and the origin queue name the
  same origins once each, the key index names only entries that hold the key, and therefore
  attaching a caller to indexed work never panics.
\<close>

theorem scheduler_strands_nothing:
  assumes "scheduler_reachable closed s"
  shows "(\<forall>r e origin agg. map_of (rs_jobs s) r = Some e \<longrightarrow> entry_belongs closed e origin agg \<longrightarrow>
        origin \<in> set (rs_origins s) \<and> (\<exists>lane. map_of (rs_lanes s) origin = Some lane \<and> r \<in> set (refs agg lane)))
    \<and> distinct (rs_origins s) \<and> set (rs_origins s) = fst ` set (rs_lanes s)
    \<and> (\<forall>k r. rs_key_index s k = Some r \<longrightarrow> (\<exists>e. map_of (rs_jobs s) r = Some e \<and> k \<in> entry_keys e))
    \<and> attach closed k q s \<noteq> None"
proof -
  have inv: "sched_inv closed s" by (rule scheduler_reachable_inv [OF assms])
  then have ok: "sched_ok closed (map_of (rs_jobs s)) (rs_key_index s) (map_of (rs_lanes s)) (rs_next_ready_id s)"
    and lists: "lists_ok s" by (simp_all add: sched_inv_def)
  have queued: "origin \<in> set (rs_origins s) \<and> (\<exists>lane. map_of (rs_lanes s) origin = Some lane \<and> r \<in> set (refs agg lane))"
    if e: "map_of (rs_jobs s) r = Some e" "entry_belongs closed e origin agg" for r e origin agg
  proof -
    obtain lane where lane: "map_of (rs_lanes s) origin = Some lane" "r \<in> set (refs agg lane)"
      using sched_okD(3) [OF ok e] by (auto simp: queued_in_def)
    then have "origin \<in> fst ` set (rs_lanes s)" by (force dest: map_of_SomeD)
    then show ?thesis using lane lists by (simp add: lists_ok_def)
  qed
  have "attach closed k q s \<noteq> None"
  proof (cases "rs_key_index s k")
    case (Some r)
    then obtain e where e: "map_of (rs_jobs s) r = Some e" "k \<in> entry_keys e" using sched_okD(1) [OF ok] by blast
    have agg: "\<exists>is'. push_origin k q is = Some is'" if "e = QueuedEntry (Aggregate is)" for "is"
      using that e(2) push_origin_Some [of k "is" q] by (auto simp: entry_keys_def items_def)
    show ?thesis
    proof (cases e)
      case (QueuedEntry job)
      then show ?thesis using Some e(1) agg by (cases job) (force simp: attach_def Let_def)+
    qed (simp add: attach_def Let_def Some e(1) ex_bool_eq)
  qed (simp add: attach_def)
  then show ?thesis using queued sched_okD(1) [OF ok] lists by (auto simp: lists_ok_def)
qed

definition queued_read :: work_item where
  "queued_read = \<lparr>wi_key = \<lparr>wk_identity = BalanceIdentity 1 None latest_block 5,
      wk_route = route_key sample_route, wk_nonce = 0, wk_latest_epoch = None\<rparr>,
    wi_execution_route = new_rpc_route sample_route, wi_read = balance_read,
    wi_origins = [WalletOrigin Staking], wi_waiters = 0\<rparr>"

definition one_job :: ready_scheduler where
  "one_job = the (partition_and_admit sample_lib [queued_read] new_scheduler)"

lemma one_job_eval:
  "partition_and_admit sample_lib [queued_read] new_scheduler = Some one_job"
  "rs_jobs one_job = [(1, QueuedEntry (IndividualJob queued_read))]"
  "rs_origins one_job = [WalletOrigin Staking]"
  by (simp_all add: one_job_def partition_and_admit_def group_work_def partition_work_def Let_def
      chunk_jobs_def batched_def queued_read_def new_rpc_route_def sample_route_def new_with_transports_def
      admit_job_def allocate_ready_id_def new_scheduler_def checked_add_def items_def push_ref_def lane_mut_def)

lemma one_job_reachable: "scheduler_reachable (\<lambda>_. False) one_job"
  by (rule reach_step [where step = scheduler_step, OF reach_start step_admit_work [OF one_job_eval(1)]]) simp

lemma one_job_belongs:
  "entry_belongs closed (QueuedEntry (IndividualJob queued_read)) (WalletOrigin Staking) False"
  by (simp add: entry_belongs_def job_class_matches_def job_has_origin_def items_def queued_read_def)

lemma scheduler_strands_nothing_witness:
  "\<exists>lane. map_of (rs_lanes one_job) (WalletOrigin Staking) = Some lane \<and> 1 \<in> set (refs False lane)"
  using conjunct1 [OF scheduler_strands_nothing [OF one_job_reachable], rule_format,
      of 1 "QueuedEntry (IndividualJob queued_read)" "WalletOrigin Staking" False]
  by (simp add: one_job_eval one_job_belongs)

text \<open>
  Claiming is sound and work-conserving. In a reachable state \<open>next\<close> returns nothing only if no entry
  can run, and then keeps every job; otherwise it removes exactly one entry that can run (queued work
  that is ready, or a job still waiting to resume), returns it, and keeps every other entry that is
  still waited for.
\<close>

theorem next_claims_runnable_work:
  assumes "scheduler_reachable closed s" "next_claim closed ready s = (c, s')"
  shows "case c of
      None \<Rightarrow> rs_jobs s' = rs_jobs s
        \<and> (\<forall>r e origin agg. map_of (rs_jobs s) r = Some e \<longrightarrow> entry_belongs closed e origin agg \<longrightarrow> \<not> runnable ready e)
    | Some d \<Rightarrow> \<exists>r e. map_of (rs_jobs s) r = Some e \<and> matches e d \<and> runnable ready e \<and> \<not> closed_resume closed e
        \<and> map_of (rs_jobs s') r = None
        \<and> (\<forall>q f. q \<noteq> r \<longrightarrow> map_of (rs_jobs s) q = Some f \<longrightarrow> \<not> closed_resume closed f \<longrightarrow> map_of (rs_jobs s') q = Some f)"
proof -
  have inv: "sched_inv closed s" by (rule scheduler_reachable_inv [OF assms(1)])
  note facts = next_loop_facts [OF inv assms(2) [unfolded next_claim_def]]
  show ?thesis
  proof (cases c)
    case None
    have "\<not> runnable ready e"
      if "map_of (rs_jobs s) r = Some e" "entry_belongs closed e origin agg" for r e origin agg
    proof
      assume "runnable ready e"
      then have el: "eligible (map_of (rs_jobs s)) closed ready origin agg r" using that by (simp add: eligible_def)
      then have "origin \<in> set (take (length (rs_origins s)) (rs_origins s))"
        using eligible_in_lane(2) [OF inv] by simp
      then show False using facts None el by (auto simp: runnable_under_def)
    qed
    then show ?thesis using facts None by simp
  next
    case (Some d)
    then show ?thesis using facts by simp
  qed
qed

lemma next_claims_runnable_work_witness:
  "fst (next_claim (\<lambda>_. False) (\<lambda>_. True) one_job) \<noteq> None"
proof -
  obtain c s' where eq: "next_claim (\<lambda>_. False) (\<lambda>_. True) one_job = (c, s')" by fastforce
  have run: "runnable (\<lambda>_. True) (QueuedEntry (IndividualJob queued_read))" by (simp add: runnable_def)
  have "c \<noteq> None"
  proof
    assume "c = None"
    then have "\<forall>r e origin agg. map_of (rs_jobs one_job) r = Some e
        \<longrightarrow> entry_belongs (\<lambda>_. False) e origin agg \<longrightarrow> \<not> runnable (\<lambda>_. True) e"
      using next_claims_runnable_work [OF one_job_reachable eq] by simp
    from this [rule_format, of 1 "QueuedEntry (IndividualJob queued_read)" "WalletOrigin Staking" False] run
    show False by (simp add: one_job_eval one_job_belongs)
  qed
  then show ?thesis by (simp add: eq)
qed

text \<open>
  C34: Fairness between origins. If an origin can run an entry, \<open>next\<close> claims something, and either the
  claimed entry was one this origin may run or the origin has moved strictly forward in the queue.
  So an origin with runnable work waits for at most as many claims as there are origins before it.
\<close>

theorem next_is_fair:
  assumes "scheduler_reachable closed s" "rs_origins s = xs @ origin # ys"
    "eligible (map_of (rs_jobs s)) closed ready origin agg r" "next_claim closed ready s = (c, s')"
  shows "c \<noteq> None \<and> (taken_for closed s origin s'
    \<or> (\<exists>xs' ys'. rs_origins s' = xs' @ origin # ys' \<and> length xs' < length xs))"
  by (rule next_loop_fair [OF scheduler_reachable_inv [OF assms(1)] assms(2) _ assms(3) assms(4) [unfolded next_claim_def]])
    (simp add: assms(2))

lemma next_is_fair_witness:
  "taken_for (\<lambda>_. False) one_job (WalletOrigin Staking) (snd (next_claim (\<lambda>_. False) (\<lambda>_. True) one_job))"
proof -
  obtain c s' where eq: "next_claim (\<lambda>_. False) (\<lambda>_. True) one_job = (c, s')" by fastforce
  show ?thesis
    using next_is_fair [OF one_job_reachable, of "[]" "WalletOrigin Staking" "[]" "\<lambda>_. True" False 1 c s']
    by (simp add: eq one_job_eval eligible_def entry_belongs_def job_class_matches_def job_has_origin_def
        items_def queued_read_def runnable_def)
qed

text \<open>
  Chunks of a submission. Dividing work keeps every item in order. When all items have the same
  limits, every chunk is non-empty, has at most as many calls as the route allows (at least one), and,
  unless it is a single item, needs at most the gas the route allows; sums are exact, so no overflow
  of the 64-bit counters hides an excess.
\<close>

theorem partition_within_limits:
  assumes "\<forall>i \<in> set work. rt_max_calls (wi_execution_route i) = max_calls
      \<and> rt_max_estimated_gas (wi_execution_route i) = max_gas"
  shows "concat (partition_work work) = work
    \<and> (\<forall>chunk \<in> set (partition_work work). chunk \<noteq> [] \<and> length chunk \<le> max max_calls 1
        \<and> (length chunk = 1 \<or> total_gas chunk \<le> unat max_gas))"
proof -
  have "list_all (chunk_fits max_calls max_gas) (partition_work work)"
    unfolding partition_work_def
    by (rule partition_loop_fits [OF assms]) (simp_all add: load_of_def zero_load_def total_gas_def)
  then show ?thesis using concat_partition_loop [of work "[]" zero_load]
    by (auto simp: list_all_iff chunk_fits_def partition_work_def)
qed

lemma partition_within_limits_witness: "concat (partition_work [queued_read, queued_read]) = [queued_read, queued_read]"
  using partition_within_limits [of "[queued_read, queued_read]" DEFAULT_MAX_CALLS DEFAULT_MAX_ESTIMATED_GAS]
  by (simp add: queued_read_def new_rpc_route_def)

end
