(* ===== verification/Capacity.thy ===== *)
theory Capacity
  imports Scheduler
begin

text \<open>
  \<open>crates/wallet-ops/src/rpc_broker/capacity.rs\<close>: how jobs take and give back read slots and probe
  runners.

  The source has one atomic flag per job and slot kind and one atomic counter per kind; a job's own
  task and the actor change them concurrently. The operations of the first section run one after
  the other; \<open>capacity_step\<close> has the single atomic accesses, interleaved in any order, and the
  refinement lemmas show that an operation is a run of those accesses. The state maps the
  addresses of live \<open>JobSlots\<close> to their flags; the \<open>Notify\<close> is its stored permit.
\<close>

section \<open>Ledger and slots\<close>

record capacity_ledger =
  cl_reads :: u64
  cl_runners :: u64
  cl_changed :: bool

record job_slots =
  js_read :: bool
  js_runner :: bool

record capacity =
  cap_ledger :: capacity_ledger
  cap_slots :: "nat \<Rightarrow> job_slots option"

definition new_ledger :: capacity_ledger where
  "new_ledger = \<lparr>cl_reads = 0, cl_runners = 0, cl_changed = False\<rparr>"

definition counter :: "slot_kind \<Rightarrow> capacity_ledger \<Rightarrow> u64" where
  "counter kind l = (case kind of ReadSlot \<Rightarrow> cl_reads l | RunnerSlot \<Rightarrow> cl_runners l)"

definition set_counter :: "slot_kind \<Rightarrow> u64 \<Rightarrow> capacity_ledger \<Rightarrow> capacity_ledger" where
  "set_counter kind n l =
    (case kind of ReadSlot \<Rightarrow> l\<lparr>cl_reads := n\<rparr> | RunnerSlot \<Rightarrow> l\<lparr>cl_runners := n\<rparr>)"

definition flag :: "slot_kind \<Rightarrow> job_slots \<Rightarrow> bool" where
  "flag kind js = (case kind of ReadSlot \<Rightarrow> js_read js | RunnerSlot \<Rightarrow> js_runner js)"

definition set_flag :: "slot_kind \<Rightarrow> bool \<Rightarrow> job_slots \<Rightarrow> job_slots" where
  "set_flag kind b js =
    (case kind of ReadSlot \<Rightarrow> js\<lparr>js_read := b\<rparr> | RunnerSlot \<Rightarrow> js\<lparr>js_runner := b\<rparr>)"

definition held :: "slot_kind \<Rightarrow> capacity \<Rightarrow> u64" where
  "held kind c = counter kind (cap_ledger c)"

definition wake :: "capacity \<Rightarrow> capacity" where
  "wake c = c\<lparr>cap_ledger := (cap_ledger c)\<lparr>cl_changed := True\<rparr>\<rparr>"

definition fetch_add :: "slot_kind \<Rightarrow> capacity \<Rightarrow> capacity" where
  "fetch_add kind c = c\<lparr>cap_ledger := set_counter kind (held kind c + 1) (cap_ledger c)\<rparr>"

definition fetch_sub :: "slot_kind \<Rightarrow> capacity \<Rightarrow> capacity" where
  "fetch_sub kind c = c\<lparr>cap_ledger := set_counter kind (held kind c - 1) (cap_ledger c)\<rparr>"

definition store_slots :: "nat \<Rightarrow> job_slots option \<Rightarrow> capacity \<Rightarrow> capacity" where
  "store_slots job js c = c\<lparr>cap_slots := (cap_slots c)(job := js)\<rparr>"

definition new_slots :: "nat \<Rightarrow> capacity \<Rightarrow> capacity" where
  "new_slots job c = store_slots job (Some \<lparr>js_read = False, js_runner = False\<rparr>) c"

definition holds :: "slot_kind \<Rightarrow> nat \<Rightarrow> capacity \<Rightarrow> bool" where
  "holds kind job c = (case cap_slots c job of Some js \<Rightarrow> flag kind js | None \<Rightarrow> False)"

definition acquire :: "slot_kind \<Rightarrow> nat \<Rightarrow> capacity \<Rightarrow> capacity" where
  "acquire kind job c =
    (case cap_slots c job of
       None \<Rightarrow> c
     | Some js \<Rightarrow>
         if flag kind js then c
         else fetch_add kind (store_slots job (Some (set_flag kind True js)) c))"

definition release :: "slot_kind \<Rightarrow> nat \<Rightarrow> capacity \<Rightarrow> capacity" where
  "release kind job c =
    (case cap_slots c job of
       None \<Rightarrow> c
     | Some js \<Rightarrow>
         if flag kind js
         then wake (fetch_sub kind (store_slots job (Some (set_flag kind False js)) c))
         else c)"

definition drop_slots :: "nat \<Rightarrow> capacity \<Rightarrow> capacity" where
  "drop_slots job c = store_slots job None (release RunnerSlot job (release ReadSlot job c))"

text \<open>
  \<open>closed\<close> is what \<open>is_closed\<close> sees and \<open>send_ok\<close> whether the receiver is still there when the grant
  is sent; it may be dropped in between.
\<close>

definition grant :: "bool \<Rightarrow> bool \<Rightarrow> slot_request \<Rightarrow> capacity \<Rightarrow> capacity" where
  "grant closed send_ok request c =
    (if closed then c
     else
       (case cap_slots c (sr_slots request) of
          None \<Rightarrow> c
        | Some _ \<Rightarrow>
            let c' = acquire (sr_kind request) (sr_slots request) c
            in if send_ok then c' else release (sr_kind request) (sr_slots request) c'))"

record job_control =
  jc_slots :: nat
  jc_aggregate :: bool
  jc_keys :: "work_key list"

definition request_slot :: "slot_kind \<Rightarrow> nat \<Rightarrow> bool \<Rightarrow> job_control \<Rightarrow> slot_request option" where
  "request_slot kind grant_channel accepting control =
    (if accepting
     then Some \<lparr>sr_kind = kind, sr_slots = jc_slots control, sr_grant = grant_channel,
            sr_aggregate = jc_aggregate control, sr_keys = jc_keys control\<rparr>
     else None)"

definition notify_verified :: "capacity \<Rightarrow> capacity" where
  "notify_verified c = wake c"

text \<open>The actor's \<open>changed().await\<close> takes the stored permit.\<close>

definition consume :: "capacity \<Rightarrow> capacity" where
  "consume c = c\<lparr>cap_ledger := (cap_ledger c)\<lparr>cl_changed := False\<rparr>\<rparr>"

section \<open>Atomic accesses\<close>

text \<open>
  What the tasks in the middle of an operation still have to do. Dropping the last reference releases
  both slots and then frees them. \<open>lowered\<close> records that a counter fell since the actor last woke.
\<close>

datatype pending_access = AddTo slot_kind | SubFrom slot_kind | WakeActor

datatype capacity_event =
    Spawn nat | Free nat
  | TakeFlag slot_kind nat | ClearFlag slot_kind nat
  | AddEvent slot_kind | SubEvent slot_kind
  | WakeEvent | ConsumeEvent

type_synonym capacity_state = "capacity \<times> pending_access multiset \<times> bool"

inductive capacity_step :: "capacity_state \<Rightarrow> capacity_event \<Rightarrow> capacity_state \<Rightarrow> bool" where
  cap_spawn: "cap_slots c job = None
    \<Longrightarrow> capacity_step (c, pend, low) (Spawn job) (new_slots job c, pend, low)"
| cap_free: "cap_slots c job = Some js \<Longrightarrow> \<not> flag ReadSlot js \<Longrightarrow> \<not> flag RunnerSlot js
    \<Longrightarrow> capacity_step (c, pend, low) (Free job) (store_slots job None c, pend, low)"
| cap_take: "cap_slots c job = Some js \<Longrightarrow> \<not> flag kind js
    \<Longrightarrow> capacity_step (c, pend, low) (TakeFlag kind job)
          (store_slots job (Some (set_flag kind True js)) c, pend + {#AddTo kind#}, low)"
| cap_clear: "cap_slots c job = Some js \<Longrightarrow> flag kind js
    \<Longrightarrow> capacity_step (c, pend, low) (ClearFlag kind job)
          (store_slots job (Some (set_flag kind False js)) c, pend + {#SubFrom kind#}, low)"
| cap_add: "capacity_step (c, pend + {#AddTo kind#}, low) (AddEvent kind) (fetch_add kind c, pend, low)"
| cap_sub: "capacity_step (c, pend + {#SubFrom kind#}, low) (SubEvent kind)
    (fetch_sub kind c, pend + {#WakeActor#}, True)"
| cap_wake: "capacity_step (c, pend + {#WakeActor#}, low) WakeEvent (wake c, pend, low)"
| cap_consume: "cl_changed (cap_ledger c)
    \<Longrightarrow> capacity_step (c, pend, low) ConsumeEvent (consume c, pend, False)"

inductive_cases capacity_stepE: "capacity_step x e y"

definition empty_capacity :: capacity where
  "empty_capacity = \<lparr>cap_ledger = new_ledger, cap_slots = Map.empty\<rparr>"

abbreviation capacity_reachable :: "capacity_state \<Rightarrow> bool" where
  "capacity_reachable \<equiv> reach (\<lambda>x. x = (empty_capacity, {#}, False)) capacity_step"

section \<open>Accounting\<close>

definition holders :: "slot_kind \<Rightarrow> capacity \<Rightarrow> nat set" where
  "holders kind c = {job. holds kind job c}"

definition accounts :: "capacity \<Rightarrow> pending_access multiset \<Rightarrow> bool" where
  "accounts c pend \<longleftrightarrow> finite (dom (cap_slots c))
    \<and> (\<forall>kind. held kind c
        = of_nat (card (holders kind c)) + of_nat (count pend (SubFrom kind)) - of_nat (count pend (AddTo kind)))"

definition capacity_inv :: "capacity_state \<Rightarrow> bool" where
  "capacity_inv x \<longleftrightarrow> (case x of (c, pend, low) \<Rightarrow>
    accounts c pend \<and> (low \<longrightarrow> cl_changed (cap_ledger c) \<or> WakeActor \<in># pend))"

lemma counter_set_counter [simp]:
  "counter k (set_counter kind n l) = (if k = kind then n else counter k l)"
  "counter k (l\<lparr>cl_changed := b\<rparr>) = counter k l"
  "cl_changed (set_counter kind n l) = cl_changed l"
  by (cases k; cases kind; simp add: counter_def set_counter_def)+

lemma flag_set_flag [simp]: "flag k (set_flag kind b js) = (if k = kind then b else flag k js)"
  by (cases k; cases kind; simp add: flag_def set_flag_def)

lemma access_simps [simp]:
  "cap_slots (fetch_add kind c) = cap_slots c" "cap_slots (fetch_sub kind c) = cap_slots c"
  "cap_slots (wake c) = cap_slots c" "cap_slots (store_slots job js c) = (cap_slots c)(job := js)"
  "cap_ledger (store_slots job js c) = cap_ledger c"
  "held k (fetch_add kind c) = held k c + (if k = kind then 1 else 0)"
  "held k (fetch_sub kind c) = held k c - (if k = kind then 1 else 0)"
  "held k (wake c) = held k c" "held k (consume c) = held k c" "cap_slots (consume c) = cap_slots c"
  "held k (store_slots job js c) = held k c"
  "cl_changed (cap_ledger (wake c))"
  "cl_changed (cap_ledger (fetch_add kind c)) = cl_changed (cap_ledger c)"
  "cl_changed (cap_ledger (fetch_sub kind c)) = cl_changed (cap_ledger c)"
  by (simp_all add: fetch_add_def fetch_sub_def wake_def consume_def store_slots_def held_def)

lemma holders_access [simp]:
  "holders k (fetch_add kind c) = holders k c" "holders k (fetch_sub kind c) = holders k c"
  "holders k (wake c) = holders k c" "holders k (consume c) = holders k c"
  by (simp_all add: holders_def holds_def)

lemma holders_subset: "holders kind c \<subseteq> dom (cap_slots c)"
  by (auto simp: holders_def holds_def split: option.splits)

lemma holders_store:
  "holders k (store_slots job js c) =
    (if (case js of Some j \<Rightarrow> flag k j | None \<Rightarrow> False) then insert job (holders k c) else holders k c - {job})"
  by (auto simp: holders_def holds_def)

lemma holds_holders: "cap_slots c job = Some js \<Longrightarrow> flag k js \<longleftrightarrow> job \<in> holders k c"
  by (simp add: holders_def holds_def)

lemma accounts_finite: "accounts c pend \<Longrightarrow> finite (holders kind c)"
  unfolding accounts_def using finite_subset [OF holders_subset] by blast

lemma not_in_holders: "cap_slots c job = None \<Longrightarrow> job \<notin> holders k c"
  by (simp add: holders_def holds_def)

lemma finite_dom_store [simp]:
  "finite (dom (cap_slots c)) \<Longrightarrow> finite (dom ((cap_slots c)(job := js)))"
  by (rule finite_subset [of _ "insert job (dom (cap_slots c))"]) (auto split: if_splits)

definition books :: "capacity_state \<Rightarrow> bool" where
  "books x = accounts (fst x) (fst (snd x))"

lemma capacity_step_books:
  assumes "capacity_step x e y" "books x"
  shows "books y"
  using assms
proof (cases rule: capacity_step.cases)
  case (cap_take c job js kind pend low)
  then have "job \<notin> holders kind c" "finite (holders kind c)"
    using assms(2) holds_holders accounts_finite by (fastforce simp: books_def)+
  moreover have "job \<in> holders k c \<longleftrightarrow> flag k js" for k using cap_take holds_holders by blast
  ultimately show ?thesis using cap_take assms(2)
    by (auto simp: books_def accounts_def holders_store insert_absorb algebra_simps)
next
  case (cap_clear c job js kind pend low)
  then have mem: "job \<in> holders kind c" and fin: "finite (holders kind c)"
    using assms(2) holds_holders accounts_finite by (fastforce simp: books_def)+
  then have "card (holders kind c) = Suc (card (holders kind c - {job}))"
    by (rule card_Suc_Diff1 [symmetric, rotated])
  moreover have "job \<in> holders k c \<longleftrightarrow> flag k js" for k using cap_clear holds_holders by blast
  ultimately show ?thesis using cap_clear assms(2)
    by (auto simp: books_def accounts_def holders_store insert_absorb algebra_simps)
next
  case (cap_free c job js pend low)
  have "job \<notin> holders k c" for k using cap_free holds_holders [OF cap_free(4)] by (cases k) auto
  then show ?thesis using cap_free assms(2) by (auto simp: books_def accounts_def holders_store)
qed (auto simp: books_def accounts_def holders_store new_slots_def not_in_holders flag_def
    split: slot_kind.splits)

definition noticed :: "capacity_state \<Rightarrow> bool" where
  "noticed x \<longleftrightarrow> (snd (snd x) \<longrightarrow> cl_changed (cap_ledger (fst x)) \<or> WakeActor \<in># fst (snd x))"

lemma capacity_step_noticed: "capacity_step x e y \<Longrightarrow> noticed x \<Longrightarrow> noticed y"
  by (induction rule: capacity_step.induct) (simp_all add: noticed_def new_slots_def)

lemma capacity_inv_iff: "capacity_inv x \<longleftrightarrow> books x \<and> noticed x"
  by (cases x) (simp add: capacity_inv_def books_def noticed_def)

lemma capacity_step_inv: "capacity_step x e y \<Longrightarrow> capacity_inv x \<Longrightarrow> capacity_inv y"
  unfolding capacity_inv_iff using capacity_step_books capacity_step_noticed by blast

lemma empty_capacity_inv: "capacity_inv (empty_capacity, {#}, False)"
  by (auto simp: capacity_inv_def accounts_def empty_capacity_def holders_def holds_def held_def
      new_ledger_def counter_def split: slot_kind.splits)

interpretation capacity: transition_system "\<lambda>x. x = (empty_capacity, {#}, False)" capacity_step capacity_inv
proof (unfold_locales, goal_cases)
  case (1 s)
  then show ?case by (simp add: empty_capacity_inv)
next
  case (2 s l t)
  then show ?case by (rule capacity_step_inv)
qed

text \<open>
  C11: The ledger counts the slots held, under every interleaving. A counter equals, modulo 2^64, the
  number of jobs whose flag is set, plus the releases and minus the acquisitions that have switched
  a flag but not yet the counter; when none is under way it is exactly that number. No release goes
  unnoticed: if a counter fell since the actor last woke, its wake-up is stored or still to come.
\<close>

theorem ledger_counts_holders:
  assumes "capacity_reachable (c, pend, low)"
  shows "held kind c = of_nat (card (holders kind c))
      + of_nat (count pend (SubFrom kind)) - of_nat (count pend (AddTo kind))
    \<and> (count pend (SubFrom kind) = 0 \<longrightarrow> count pend (AddTo kind) = 0 \<longrightarrow> card (dom (cap_slots c)) < 2 ^ 64
        \<longrightarrow> unat (held kind c) = card (holders kind c))
    \<and> (low \<longrightarrow> cl_changed (cap_ledger c) \<or> WakeActor \<in># pend)"
proof -
  have inv: "capacity_inv (c, pend, low)" by (rule capacity.reach_inv [OF assms])
  then have eq: "held kind c = of_nat (card (holders kind c))
      + of_nat (count pend (SubFrom kind)) - of_nat (count pend (AddTo kind))"
    and fin: "finite (dom (cap_slots c))" by (simp_all add: capacity_inv_def accounts_def)
  have "card (holders kind c) \<le> card (dom (cap_slots c))" by (rule card_mono [OF fin holders_subset])
  then show ?thesis using eq inv by (auto simp: capacity_inv_def unat_of_nat)
qed

definition one_reader :: capacity where
  "one_reader = acquire ReadSlot 7 (new_slots 7 empty_capacity)"

lemma ledger_counts_holders_witness:
  "unat (held ReadSlot one_reader) = card (holders ReadSlot one_reader)"
proof -
  let ?c0 = "new_slots 7 empty_capacity"
  let ?c1 = "store_slots 7 (Some (set_flag ReadSlot True \<lparr>js_read = False, js_runner = False\<rparr>)) ?c0"
  have slots: "cap_slots ?c0 7 = Some \<lparr>js_read = False, js_runner = False\<rparr>" by (simp add: new_slots_def)
  have one: "one_reader = fetch_add ReadSlot ?c1" by (simp add: one_reader_def acquire_def slots flag_def)
  have "capacity_step (empty_capacity, {#}, False) (Spawn 7) (?c0, {#}, False)"
    by (rule cap_spawn) (simp add: empty_capacity_def)
  then have "capacity_reachable (?c0, {#}, False)"
    using reach_step [where step = capacity_step] reach_start [where step = capacity_step] by (metis (full_types))
  moreover have "capacity_step (?c0, {#}, False) (TakeFlag ReadSlot 7) (?c1, {#} + {#AddTo ReadSlot#}, False)"
    by (rule cap_take [OF slots]) (simp add: flag_def)
  ultimately have "capacity_reachable (?c1, {#} + {#AddTo ReadSlot#}, False)"
    by (rule reach_step [where step = capacity_step])
  then have "capacity_reachable (one_reader, {#}, False)"
    unfolding one by (rule reach_step [where step = capacity_step]) (rule cap_add)
  note counted = ledger_counts_holders [OF this, of ReadSlot, THEN conjunct2, THEN conjunct1]
  have counts: "card (dom (cap_slots one_reader)) < 2 ^ 64 \<longrightarrow> ?thesis" using counted by simp
  have "dom (cap_slots one_reader) = {7}" by (auto simp: one new_slots_def empty_capacity_def split: if_splits)
  then show ?thesis using counts by (simp del: unat_of_nat)
qed

section \<open>Operations as runs\<close>

lemma acquire_run: "\<exists>es. trace capacity_step (c, {#}, low) es (acquire kind job c, {#}, low)"
proof (cases "\<exists>js. cap_slots c job = Some js \<and> \<not> flag kind js")
  case True
  then obtain js where js: "cap_slots c job = Some js" "\<not> flag kind js" by blast
  let ?c1 = "store_slots job (Some (set_flag kind True js)) c"
  have "trace capacity_step (c, {#}, low) [TakeFlag kind job, AddEvent kind] (fetch_add kind ?c1, {#}, low)"
    using cap_take [OF js, of "{#}" low] cap_add [of ?c1 "{#}" kind low]
    by (auto intro!: trace.intros)
  then show ?thesis using js by (auto simp: acquire_def)
next
  case False
  then have "acquire kind job c = c" by (auto simp: acquire_def split: option.split)
  then show ?thesis by (auto intro: trace_Nil)
qed

lemma release_run: "\<exists>es low'. trace capacity_step (c, {#}, low) es (release kind job c, {#}, low')"
proof (cases "\<exists>js. cap_slots c job = Some js \<and> flag kind js")
  case True
  then obtain js where js: "cap_slots c job = Some js" "flag kind js" by blast
  let ?c1 = "store_slots job (Some (set_flag kind False js)) c"
  have "trace capacity_step (c, {#}, low) [ClearFlag kind job, SubEvent kind, WakeEvent]
      (wake (fetch_sub kind ?c1), {#}, True)"
    using cap_clear [OF js, of "{#}" low] cap_sub [of ?c1 "{#}" kind low]
      cap_wake [of "fetch_sub kind ?c1" "{#}" True]
    by (auto intro!: trace.intros)
  then show ?thesis using js by (auto simp: release_def)
next
  case False
  then have "release kind job c = c" by (auto simp: release_def split: option.split)
  then show ?thesis by (auto intro: trace_Nil)
qed

lemma trace_append: "trace step s xs t \<Longrightarrow> trace step t ys u \<Longrightarrow> trace step s (xs @ ys) u"
  by (induction rule: trace.induct) (auto intro: trace.intros)

lemma slots_release:
  "cap_slots (release kind job c) job = map_option (set_flag kind False) (cap_slots c job)"
proof -
  have "set_flag kind False js = js" if "\<not> flag kind js" for js
    using that by (cases kind) (simp_all add: set_flag_def flag_def)
  then show ?thesis by (auto simp: release_def split: option.split)
qed

lemma drop_run: "\<exists>es low'. trace capacity_step (c, {#}, low) es (drop_slots job c, {#}, low')"
proof -
  define d where "d = release RunnerSlot job (release ReadSlot job c)"
  obtain es low' where run: "trace capacity_step (c, {#}, low) es (d, {#}, low')"
    unfolding d_def using release_run trace_append by metis
  show ?thesis
  proof (cases "cap_slots d job")
    case None
    then have "drop_slots job c = d" by (simp add: drop_slots_def store_slots_def fun_upd_idem flip: d_def)
    then show ?thesis using run by auto
  next
    case (Some js)
    have "cap_slots d job = map_option (set_flag RunnerSlot False)
        (map_option (set_flag ReadSlot False) (cap_slots c job))" by (simp add: d_def slots_release)
    then obtain j where "js = set_flag RunnerSlot False (set_flag ReadSlot False j)"
      using Some by (cases "cap_slots c job") auto
    then have "\<not> flag ReadSlot js" "\<not> flag RunnerSlot js" by simp_all
    then have "capacity_step (d, {#}, low') (Free job) (drop_slots job c, {#}, low')"
      using cap_free [OF Some] by (simp add: drop_slots_def flip: d_def)
    then show ?thesis using trace_append [OF run] trace_Cons [OF _ trace_Nil] by metis
  qed
qed

lemma holders_acquire:
  "holders k (acquire kind job c) =
    (if k = kind \<and> cap_slots c job \<noteq> None then insert job (holders k c) else holders k c)"
proof (cases "cap_slots c job")
  case (Some js)
  then have "flag k js \<longleftrightarrow> job \<in> holders k c" by (rule holds_holders)
  with Some show ?thesis by (auto simp: acquire_def holders_store holds_holders insert_absorb)
qed (simp add: acquire_def)

lemma holders_release:
  "holders k (release kind job c) = (if k = kind then holders k c - {job} else holders k c)"
proof (cases "cap_slots c job")
  case None
  then show ?thesis by (simp add: release_def not_in_holders)
next
  case (Some js)
  then have "flag k js \<longleftrightarrow> job \<in> holders k c" by (rule holds_holders)
  with Some show ?thesis by (auto simp: release_def holders_store holds_holders)
qed

lemma holders_drop: "holders k (drop_slots job c) = holders k c - {job}"
  by (cases k) (auto simp: drop_slots_def holders_store holders_release)

lemma grant_run: "\<exists>es low'. trace capacity_step (c, {#}, low) es (grant closed send_ok req c, {#}, low')"
proof -
  have "\<exists>es low'. trace capacity_step (c, {#}, low) es (release kind job (acquire kind job c), {#}, low')" for kind job
    using acquire_run release_run trace_append by metis
  moreover have "\<exists>es low'. trace capacity_step (c, {#}, low) es (acquire kind job c, {#}, low')" for kind job
    using acquire_run by blast
  moreover have "\<exists>es low'. trace capacity_step (c, {#}, low) es (c, {#}, low')"
    using trace_Nil [of capacity_step] by blast
  ultimately show ?thesis by (auto simp: grant_def Let_def split: option.split)
qed

lemma holders_grant:
  "holders k (grant closed send_ok req c) =
    (if closed \<or> k \<noteq> sr_kind req \<or> cap_slots c (sr_slots req) = None then holders k c
     else if send_ok then insert (sr_slots req) (holders k c) else holders k c - {sr_slots req})"
  by (auto simp: grant_def Let_def holders_acquire holders_release split: option.split)

text \<open>
  C12: The slot operations refine sets of holders. Seen as the set of jobs that hold each kind, acquiring
  inserts a live job, releasing removes it, dropping a job's slots removes it from both sets, and a
  grant inserts the job exactly if its receiver takes the grant; each operation is a run of single
  atomic accesses that leaves none pending, so all that holds of every interleaving holds of it.
\<close>

theorem capacity_operations_refine:
  "(holders k (acquire kind job c) =
      (if k = kind \<and> cap_slots c job \<noteq> None then insert job (holders k c) else holders k c)
    \<and> holders k (release kind job c) = (if k = kind then holders k c - {job} else holders k c)
    \<and> holders k (drop_slots job c) = holders k c - {job}
    \<and> holders k (grant closed send_ok req c) =
      (if closed \<or> k \<noteq> sr_kind req \<or> cap_slots c (sr_slots req) = None then holders k c
       else if send_ok then insert (sr_slots req) (holders k c) else holders k c - {sr_slots req}))
    \<and> (\<exists>es low'. trace capacity_step (c, {#}, low) es (acquire kind job c, {#}, low'))
    \<and> (\<exists>es low'. trace capacity_step (c, {#}, low) es (release kind job c, {#}, low'))
    \<and> (\<exists>es low'. trace capacity_step (c, {#}, low) es (drop_slots job c, {#}, low'))
    \<and> (\<exists>es low'. trace capacity_step (c, {#}, low) es (grant closed send_ok req c, {#}, low'))"
  using acquire_run [of c low kind job] release_run [of c low kind job] drop_run [of c low job]
    grant_run [of c low closed send_ok req] holders_acquire [of k kind job c] holders_release [of k kind job c]
    holders_drop [of k job c] holders_grant [of k closed send_ok req c]
  by blast

lemma capacity_operations_refine_witness: "holders ReadSlot one_reader = {7}"
  using conjunct1 [OF capacity_operations_refine [of ReadSlot ReadSlot 7 "new_slots 7 empty_capacity"]]
  by (simp add: one_reader_def) (auto simp: holders_def holds_def new_slots_def empty_capacity_def flag_def)

text \<open>What the actor needs: the operations in order keep exact books.\<close>

definition exact :: "capacity \<Rightarrow> bool" where
  "exact c \<longleftrightarrow> accounts c {#}"

lemma run_exact: "trace capacity_step (c, {#}, low) es (d, {#}, low') \<Longrightarrow> exact c \<Longrightarrow> exact d"
proof -
  have keep: "trace capacity_step x es y \<Longrightarrow> books x \<Longrightarrow> books y" for x y
    by (induction rule: trace.induct) (auto intro: capacity_step_books)
  assume "trace capacity_step (c, {#}, low) es (d, {#}, low')" "exact c"
  from keep [OF this(1)] this(2) show "exact d" by (simp add: exact_def books_def)
qed

lemma exact_operations [intro]:
  assumes "exact c"
  shows "exact (acquire kind job c)" "exact (release kind job c)" "exact (drop_slots job c)"
    "exact (grant closed send_ok req c)"
  using acquire_run [of c True kind job] release_run [of c True kind job] drop_run [of c True job]
    grant_run [of c True closed send_ok req] run_exact assms by blast+

lemma exact_new_slots [intro]: "exact c \<Longrightarrow> cap_slots c job = None \<Longrightarrow> exact (new_slots job c)"
  by (auto simp: exact_def accounts_def new_slots_def holders_store not_in_holders flag_def split: slot_kind.splits)

lemma exact_held:
  "exact c \<Longrightarrow> card (holders kind c) < 2 ^ 64 \<Longrightarrow> unat (held kind c) = card (holders kind c)"
  by (simp add: exact_def accounts_def unat_of_nat)

end
