(* ===== verification/ReadyWork.thy ===== *)
theory ReadyWork
  imports Scheduler
begin

text \<open>
  What the operations of the ready scheduler do to the work it holds, seen as the multiset of the keys
  of its queued items with the addresses of their waiter states. The broker's actor builds on it to
  show that every read it has accepted is carried by exactly one piece of work.
\<close>

type_synonym work_tag = "work_key \<times> nat"

definition item_tag :: "work_item \<Rightarrow> work_tag" where
  "item_tag i = (wi_key i, wi_waiters i)"

definition items_work :: "work_item list \<Rightarrow> work_tag multiset" where
  "items_work is = image_mset item_tag (mset is)"

definition job_work :: "execution_job \<Rightarrow> work_tag multiset" where
  "job_work job = items_work (items job)"

definition entry_work :: "entry \<Rightarrow> work_tag multiset" where
  "entry_work e = (case e of QueuedEntry job \<Rightarrow> job_work job | ResumeEntry _ _ \<Rightarrow> {#})"

definition jobs_work :: "(u64 \<times> entry) list \<Rightarrow> work_tag multiset" where
  "jobs_work jobs = sum_list (map (\<lambda>(_, e). entry_work e) jobs)"

abbreviation sched_work :: "ready_scheduler \<Rightarrow> work_tag multiset" where
  "sched_work s \<equiv> jobs_work (rs_jobs s)"

definition claim_work :: "claim \<Rightarrow> work_tag multiset" where
  "claim_work c = (case c of ClaimQueued job \<Rightarrow> job_work job | ClaimResume _ \<Rightarrow> {#})"

lemma items_work_simps [simp]:
  "items_work [] = {#}" "items_work (i # is) = {#item_tag i#} + items_work is"
  "items_work (is @ js) = items_work is + items_work js"
  by (simp_all add: items_work_def)

lemma items_work_filter:
  "items_work (filter P is) + items_work (filter (\<lambda>i. \<not> P i) is) = items_work is"
  by (induction "is") auto

lemma items_work_concat: "items_work (concat iss) = sum_list (map items_work iss)"
  by (induction iss) auto

lemma entry_work_simps [simp]:
  "entry_work (QueuedEntry job) = job_work job" "entry_work (ResumeEntry req os) = {#}"
  by (simp_all add: entry_work_def)

lemma job_work_simps [simp]:
  "job_work (Aggregate is) = items_work is" "job_work (IndividualJob i) = {#item_tag i#}"
  by (simp_all add: job_work_def items_def)

lemma jobs_work_simps [simp]:
  "jobs_work [] = {#}" "jobs_work ((r, e) # jobs) = entry_work e + jobs_work jobs"
  by (simp_all add: jobs_work_def)

section \<open>The job table\<close>

lemma jobs_work_update_new:
  "map_of jobs r = None \<Longrightarrow> jobs_work (AList.update r e jobs) = entry_work e + jobs_work jobs"
  by (induction jobs) (auto split: if_splits)

lemma jobs_work_update_old:
  "map_of jobs r = Some e0 \<Longrightarrow>
    jobs_work (AList.update r e jobs) + entry_work e0 = jobs_work jobs + entry_work e"
  by (induction jobs) (auto simp: ac_simps split: if_splits)

lemma delete_absent: "map_of jobs r = None \<Longrightarrow> AList.delete r jobs = jobs"
  unfolding AList.delete_eq by (rule filter_True) (force simp: map_of_eq_None_iff)

lemma jobs_work_delete:
  assumes "keys_distinct jobs" "map_of jobs r = Some e"
  shows "jobs_work (AList.delete r jobs) + entry_work e = jobs_work jobs
    \<and> length (AList.delete r jobs) < length jobs"
  using assms
proof (induction jobs)
  case (Cons kv jobs)
  obtain k f where kv: "kv = (k, f)" by (cases kv)
  show ?case
  proof (cases "k = r")
    case True
    then have "map_of jobs r = None" using Cons.prems(1) by (simp add: keys_distinct_def kv map_of_eq_None_iff)
    then show ?thesis using Cons.prems True by (simp add: kv delete_absent ac_simps)
  next
    case False
    then show ?thesis using Cons by (simp add: kv keys_distinct_def ac_simps)
  qed
qed simp

lemma jobs_work_delete_le: "length (AList.delete r jobs) \<le> length jobs"
  by (simp add: AList.delete_eq)

lemma distinct_delete: "keys_distinct jobs \<Longrightarrow> keys_distinct (AList.delete r jobs)"
  by (simp add: keys_distinct_def distinct_delete)

section \<open>Operations\<close>

lemma push_ref_jobs [simp]: "rs_jobs (push_ref agg r origin s) = rs_jobs s"
  by (simp add: push_ref_def lane_mut_def split: option.split)

lemma fold_push_ref_jobs [simp]: "rs_jobs (fold (push_ref agg r) os s) = rs_jobs s"
  by (induction os arbitrary: s) simp_all

lemma drop_closed_work:
  "keys_distinct (rs_jobs s) \<Longrightarrow> (\<And>r e. (r, e) \<in> set es \<Longrightarrow> map_of (rs_jobs s) r = Some e \<or> map_of (rs_jobs s) r = None)
    \<Longrightarrow> (\<And>r e. (r, e) \<in> set es \<Longrightarrow> entry_work e = {#})
    \<Longrightarrow> sched_work (drop_closed es s) = sched_work s
      \<and> length (rs_jobs (drop_closed es s)) \<le> length (rs_jobs s)"
proof (induction es arbitrary: s)
  case (Cons re es)
  obtain r e where re: "re = (r, e)" by (cases re)
  define s1 where "s1 = (case e of ResumeEntry request _ \<Rightarrow>
      remove_keys (sr_keys request) r (s\<lparr>rs_jobs := AList.delete r (rs_jobs s)\<rparr>)
    | QueuedEntry _ \<Rightarrow> s\<lparr>rs_jobs := AList.delete r (rs_jobs s)\<rparr>)"
  have jobs1: "rs_jobs s1 = AList.delete r (rs_jobs s)"
    by (simp add: s1_def remove_keys_facts split: entry.split)
  have step: "drop_closed (re # es) s = drop_closed es s1" by (simp add: re s1_def Let_def split: entry.split)
  have work1: "sched_work s1 = sched_work s"
  proof (cases "map_of (rs_jobs s) r")
    case None
    then show ?thesis by (simp add: jobs1 delete_absent)
  next
    case (Some f)
    then have "f = e" using Cons.prems(2) [of r e] re by auto
    moreover have "entry_work e = {#}" using Cons.prems(3) [of r e] re by simp
    ultimately show ?thesis using jobs_work_delete [OF Cons.prems(1) Some] by (simp add: jobs1)
  qed
  have "sched_work (drop_closed es s1) = sched_work s1 \<and> length (rs_jobs (drop_closed es s1)) \<le> length (rs_jobs s1)"
  proof (rule Cons.IH)
    show "keys_distinct (rs_jobs s1)" by (simp add: jobs1 distinct_delete Cons.prems(1))
    show "map_of (rs_jobs s1) q = Some f \<or> map_of (rs_jobs s1) q = None" if "(q, f) \<in> set es" for q f
      using Cons.prems(2) [of q f] that by (simp add: jobs1)
    show "entry_work f = {#}" if "(q, f) \<in> set es" for q f using Cons.prems(3) [of q f] that by simp
  qed
  then show ?case using work1 jobs_work_delete_le [of r "rs_jobs s"] by (simp add: step jobs1)
qed simp

lemma prune_work:
  assumes "keys_distinct (rs_jobs s)"
  shows "sched_work (prune_refs closed s) = sched_work s"
    "length (rs_jobs (prune_refs closed s)) \<le> length (rs_jobs s)"
proof -
  let ?es = "filter (\<lambda>(_, e). closed_resume closed e) (rs_jobs s)"
  have jobs: "rs_jobs (prune_refs closed s) = rs_jobs (drop_closed ?es s)" by (simp add: prune_refs_def Let_def)
  have "map_of (rs_jobs s) r = Some e" if "(r, e) \<in> set ?es" for r e
    using that assms by (simp add: map_of_eq_Some)
  moreover have "entry_work e = {#}" if "(r, e) \<in> set ?es" for r e
    using that by (auto simp: closed_resume_def split: entry.splits)
  ultimately show "sched_work (prune_refs closed s) = sched_work s"
    "length (rs_jobs (prune_refs closed s)) \<le> length (rs_jobs s)"
    using drop_closed_work [OF assms, of ?es] unfolding jobs by blast+
qed

lemma push_origin_work: "push_origin key origin is = Some is' \<Longrightarrow> items_work is' = items_work is"
  by (induction "is" arbitrary: is') (auto simp: item_tag_def split: if_splits)

lemma remove_index_jobs [simp]: "rs_jobs (remove_index_if_current k r s) = rs_jobs s"
  by (simp add: remove_index_if_current_def)

lemma attach_work:
  assumes "attach closed key origin s = Some (b, s')"
  shows "sched_work s' = sched_work s"
proof -
  have put: "jobs_work (AList.update r e jobs) = jobs_work jobs"
    if "map_of jobs r = Some e0" "entry_work e = entry_work e0" for r e e0 jobs
    using jobs_work_update_old [OF that(1), of e] that(2) by simp
  show ?thesis
    using assms
    by (auto simp: attach_def Let_def put push_origin_work item_tag_def bind_eq_Some_conv
        split: option.splits entry.splits execution_job.splits if_splits)
qed

lemma admit_job_work:
  assumes "sched_inv closed s" "admit_job job s = Some s'"
  shows "sched_work s' = job_work job + sched_work s"
proof -
  have "map_of (rs_jobs s) (rs_next_ready_id s) = None"
    using assms(1) sched_okD(2) by (fastforce simp: sched_inv_def)
  then show ?thesis using assms(2)
    by (auto simp: admit_job_def allocate_ready_id_def jobs_work_update_new)
qed

lemma admit_jobs_work:
  "sched_inv closed s \<Longrightarrow> admit_jobs js s = Some s' \<Longrightarrow> sched_work s' = sum_list (map job_work js) + sched_work s"
proof (induction js arbitrary: s)
  case (Cons j js)
  then obtain s1 where s1: "admit_job j s = Some s1" "admit_jobs js s1 = Some s'"
    by (auto simp: bind_eq_Some_conv)
  then show ?case using Cons.IH [OF admit_job_inv [OF Cons.prems(1) s1(1)] s1(2)]
      admit_job_work [OF Cons.prems(1) s1(1)] by (simp add: ac_simps)
qed simp

lemma chunk_jobs_work: "sum_list (map job_work (chunk_jobs lib chunk)) = items_work chunk"
proof -
  have "sum_list (map job_work (map IndividualJob is)) = items_work is" for "is"
    by (induction "is") simp_all
  note single = this
  show ?thesis
    unfolding chunk_jobs_def Let_def map_append sum_list_append single
    using items_work_filter [of "batched lib" chunk] by (cases "filter (batched lib) chunk = []") simp_all
qed

lemma admit_chunks_work:
  "sched_inv closed s \<Longrightarrow> admit_chunks lib cs s = Some s' \<Longrightarrow> sched_work s' = sum_list (map items_work cs) + sched_work s"
proof (induction cs arbitrary: s)
  case (Cons c cs)
  then obtain s1 where s1: "admit_jobs (chunk_jobs lib c) s = Some s1" "admit_chunks lib cs s1 = Some s'"
    by (auto simp: bind_eq_Some_conv)
  then show ?case using Cons.IH [OF admit_jobs_inv [OF Cons.prems(1) s1(1)] s1(2)]
      admit_jobs_work [OF Cons.prems(1) s1(1)] by (simp add: chunk_jobs_work ac_simps)
qed simp

lemma add_to_group_work:
  "sum_list (map (\<lambda>(_, is). items_work is) (add_to_group k i groups))
    = {#item_tag i#} + sum_list (map (\<lambda>(_, is). items_work is) groups)"
  by (induction k i groups rule: add_to_group.induct) (auto simp: ac_simps)

lemma group_work_work: "sum_list (map (\<lambda>(_, is). items_work is) (group_work work)) = items_work work"
proof -
  have "sum_list (map (\<lambda>(_, is). items_work is) (fold (\<lambda>i. add_to_group (group_of i) i) work groups))
      = items_work work + sum_list (map (\<lambda>(_, is). items_work is) groups)" for groups
    by (induction work arbitrary: groups) (auto simp: add_to_group_work ac_simps)
  then show ?thesis by (simp add: group_work_def)
qed

lemma partition_and_admit_work:
  assumes "sched_inv closed s" "partition_and_admit lib work s = Some s'"
  shows "sched_work s' = items_work work + sched_work s"
proof -
  have chunk: "sum_list (map items_work (partition_work is)) = items_work is" for "is"
    by (simp add: partition_work_def concat_partition_loop flip: items_work_concat)
  have "sum_list (map items_work (concat (map (\<lambda>(_, group). partition_work group) groups)))
      = sum_list (map (\<lambda>(_, is). items_work is) groups)" for groups :: "(group_key \<times> work_item list) list"
    by (induction groups) (auto simp: chunk)
  then show ?thesis
    using admit_chunks_work assms by (fastforce simp: partition_and_admit_def group_work_work)
qed

lemma partition_and_admit_Nil [simp]: "partition_and_admit lib [] s = Some s"
  by (simp add: partition_and_admit_def group_work_def)

lemma admit_resume_work:
  assumes "sched_inv closed s" "admit_resume request origins s = Some s'"
  shows "sched_work s' = sched_work s"
proof -
  have "map_of (rs_jobs s) (rs_next_ready_id s) = None"
    using assms(1) sched_okD(2) by (fastforce simp: sched_inv_def)
  then show ?thesis using assms(2)
    by (auto simp: admit_resume_def allocate_ready_id_def jobs_work_update_new)
qed

lemma claim_job_work:
  assumes "keys_distinct (rs_jobs s)" "claim_job r s = (c, s')"
  shows "sched_work s' + (case c of Some d \<Rightarrow> claim_work d | None \<Rightarrow> {#}) = sched_work s
    \<and> keys_distinct (rs_jobs s') \<and> (c \<noteq> None \<longrightarrow> length (rs_jobs s') < length (rs_jobs s))
    \<and> length (rs_jobs s') \<le> length (rs_jobs s)"
proof (cases "map_of (rs_jobs s) r")
  case None
  then show ?thesis using assms by (auto simp: claim_job_def)
next
  case (Some e)
  then show ?thesis using assms jobs_work_delete [OF assms(1) Some] distinct_delete [OF assms(1), of r]
    by (cases e) (auto simp: claim_job_def Let_def remove_keys_facts claim_work_def)
qed

lemma prune_distinct:
  "sched_inv closed s \<Longrightarrow> keys_distinct (rs_jobs (prune_refs closed s))"
  using prune_inv by (fastforce simp: sched_inv_def lists_ok_def)


lemma served_jobs: "rs_jobs (served origin lane' origins s) = rs_jobs s"
  by (simp add: served_def)

lemma next_loop_work:
  assumes "sched_inv closed s" "next_loop closed ready n s = (c, s')"
  shows "sched_work s' + (case c of Some d \<Rightarrow> claim_work d | None \<Rightarrow> {#}) = sched_work s
    \<and> (c \<noteq> None \<longrightarrow> length (rs_jobs s') < length (rs_jobs s)) \<and> length (rs_jobs s') \<le> length (rs_jobs s)"
  using assms
proof (induction n arbitrary: s)
  case (Suc n)
  have lists: "lists_ok s" using Suc.prems(1) by (simp add: sched_inv_def)
  show ?case
  proof (cases "rs_origins s")
    case Nil
    then show ?thesis using Suc.prems by simp
  next
    case (Cons origin origins)
    then have "origin \<in> fst ` set (rs_lanes s)" using lists by (auto simp: lists_ok_def)
    then obtain lane where lane: "map_of (rs_lanes s) origin = Some lane"
      using map_of_eq_None_iff [of "rs_lanes s" origin] by (cases "map_of (rs_lanes s) origin") auto
    obtain chosen lane' where choose: "choose_ref (map_of (rs_jobs s)) closed ready origin lane = (chosen, lane')"
      by fastforce
    note step = next_loop_step [OF Cons lane choose, of n]
    show ?thesis
    proof (cases chosen)
      case None
      have inv1: "sched_inv closed (served origin lane' origins s)"
        by (rule served_chosen_inv(1) [OF Suc.prems(1) Cons lane choose None])
      have eq: "next_loop closed ready n (served origin lane' origins s) = (c, s')"
        using Suc.prems(2) step None by (simp add: Let_def)
      show ?thesis using Suc.IH [OF inv1 eq] by (simp add: served_jobs)
    next
      case (Some r)
      obtain d s2 where claim: "claim_job r (served origin lane' origins s) = (d, s2)" by fastforce
      note chosen = served_chosen_inv(2) [OF Suc.prems(1) Cons lane choose Some claim]
      then have eqs: "c = d" "s' = prune_refs closed s2" "d \<noteq> None"
        using Suc.prems(2) step Some claim by (auto simp: Let_def)
      have dist: "keys_distinct (rs_jobs (served origin lane' origins s))"
        using lists by (simp add: served_jobs lists_ok_def)
      note claimed = claim_job_work [OF dist claim]
      then have dist2: "keys_distinct (rs_jobs s2)" by blast
      show ?thesis using claimed prune_work [OF dist2, of closed] eqs by (auto simp: served_jobs)
    qed
  qed
qed simp

lemma next_claim_work:
  assumes "sched_inv closed s" "next_claim closed ready s = (c, s')"
  shows "sched_work s' + (case c of Some d \<Rightarrow> claim_work d | None \<Rightarrow> {#}) = sched_work s"
    "c \<noteq> None \<Longrightarrow> length (rs_jobs s') < length (rs_jobs s)"
    "length (rs_jobs s') \<le> length (rs_jobs s)" "sched_inv closed s'"
  using next_loop_work [OF assms(1) assms(2) [unfolded next_claim_def]]
    next_loop_facts [OF assms(1) assms(2) [unfolded next_claim_def]] by auto

lemma next_verification_work:
  assumes inv: "sched_inv closed s" and res: "next_verification closed ready s = (j, s')"
  shows "sched_work s' + (case j of Some job \<Rightarrow> job_work job | None \<Rightarrow> {#}) = sched_work s"
    "j \<noteq> None \<Longrightarrow> length (rs_jobs s') < length (rs_jobs s)"
    "length (rs_jobs s') \<le> length (rs_jobs s)" "sched_inv closed s'"
proof -
  have dist: "keys_distinct (rs_jobs s)" using inv by (simp add: sched_inv_def lists_ok_def)
  show "sched_inv closed s'" by (rule verification_inv [OF inv res])
  have "sched_work s' + (case j of Some job \<Rightarrow> job_work job | None \<Rightarrow> {#}) = sched_work s
    \<and> (j \<noteq> None \<longrightarrow> length (rs_jobs s') < length (rs_jobs s)) \<and> length (rs_jobs s') \<le> length (rs_jobs s)"
  proof (cases "unready_ids ready s = []")
    case True
    then show ?thesis using res by (simp add: next_verification_def)
  next
    case False
    define r where "r = Min (set (unready_ids ready s))"
    obtain c s1 where claim: "claim_job r s = (c, s1)" by fastforce
    have "r \<in> set (unready_ids ready s)" using False unfolding r_def by (intro Min_in) auto
    then obtain e where e: "(r, e) \<in> set (rs_jobs s)" "\<exists>job. e = QueuedEntry job"
      by (auto simp: unready_ids_def split: entry.splits)
    then obtain job where job: "map_of (rs_jobs s) r = Some (QueuedEntry job)"
      using dist by (auto simp: map_of_eq_Some)
    then have "c = Some (ClaimQueued job)" using claim by (auto simp: claim_job_def Let_def)
    moreover from this have "j = Some job" "s' = prune_refs closed s1"
      using res False claim by (simp_all add: next_verification_def flip: r_def)
    moreover note claimed = claim_job_work [OF dist claim]
    moreover have "keys_distinct (rs_jobs s1)" using claimed by blast
    ultimately show ?thesis using prune_work [of s1 closed] by (auto simp: claim_work_def)
  qed
  then show "sched_work s' + (case j of Some job \<Rightarrow> job_work job | None \<Rightarrow> {#}) = sched_work s"
    "j \<noteq> None \<Longrightarrow> length (rs_jobs s') < length (rs_jobs s)"
    "length (rs_jobs s') \<le> length (rs_jobs s)" by auto
qed

text \<open>Expiry removes exactly the expired items; they are items of the scheduler.\<close>

lemma expire_entry_work:
  assumes "keys_distinct (rs_jobs s)" "expire_entry waiters now r s = (expired, s')"
  shows "\<exists>is. expired = map wi_key is \<and> (\<forall>i \<in> set is. item_expired waiters now i)
    \<and> sched_work s' + items_work is = sched_work s \<and> keys_distinct (rs_jobs s')
    \<and> length (rs_jobs s') \<le> length (rs_jobs s)"
proof (cases "\<exists>job. map_of (rs_jobs s) r = Some (QueuedEntry job)")
  case False
  then show ?thesis using assms by (auto simp: expire_entry_def split: option.splits entry.splits intro!: exI [of _ "[]"])
next
  case True
  then obtain job where job: "map_of (rs_jobs s) r = Some (QueuedEntry job)" by blast
  define es where "es = filter (item_expired waiters now) (items job)"
  define vs where "vs = filter (\<lambda>i. \<not> item_expired waiters now i) (items job)"
  define job' where "job' = (case job of Aggregate _ \<Rightarrow> Aggregate vs | IndividualJob i \<Rightarrow> IndividualJob i)"
  have split: "items_work es + items_work vs = job_work job"
    by (simp add: es_def vs_def job_work_def items_work_filter)
  have res: "expired = map wi_key es"
    "rs_jobs s' = (if vs = [] then AList.delete r (rs_jobs s) else AList.update r (QueuedEntry job') (rs_jobs s))"
    using assms(2) job unfolding expire_entry_def es_def job'_def vs_def
    by (auto simp: Let_def remove_keys_facts)
  have vs: "job_work job' = items_work vs" if "vs \<noteq> []"
    using that by (cases job) (auto simp: job'_def vs_def items_def split: if_splits)
  have "length (AList.update r e jobs) = length jobs" if "map_of jobs r = Some f" for e f jobs
    using that by (induction jobs) (auto split: if_splits)
  note same = this [OF job]
  have len: "length (rs_jobs s') \<le> length (rs_jobs s)"
    using same jobs_work_delete_le [of r "rs_jobs s"] by (simp add: res)
  have "sched_work s' + items_work es = sched_work s"
  proof (cases "vs = []")
    case True
    then show ?thesis using jobs_work_delete [OF assms(1) job] split by (simp add: res)
  next
    case False
    then have "sched_work s' + job_work job = sched_work s + items_work vs"
      using jobs_work_update_old [OF job, of "QueuedEntry job'"] vs by (simp add: res)
    then have "sched_work s' + items_work es + items_work vs = sched_work s + items_work vs"
      by (simp add: split add.assoc)
    then show ?thesis by simp
  qed
  moreover have "keys_distinct (rs_jobs s')" using assms(1) by (simp add: res distinct_delete)
  ultimately show ?thesis using len by (intro exI [of _ es]) (simp add: res es_def)
qed

lemma expire_entries_work:
  "keys_distinct (rs_jobs s) \<Longrightarrow> expire_entries waiters now rs s = (expired, s') \<Longrightarrow>
    \<exists>is. expired = map wi_key is \<and> (\<forall>i \<in> set is. item_expired waiters now i)
    \<and> sched_work s' + items_work is = sched_work s \<and> keys_distinct (rs_jobs s')
    \<and> length (rs_jobs s') \<le> length (rs_jobs s)"
proof (induction rs arbitrary: s expired)
  case Nil
  then show ?case by (auto intro!: exI [of _ "[]"])
next
  case (Cons r rs)
  obtain e1 s1 e2 where one: "expire_entry waiters now r s = (e1, s1)"
    and rest: "expire_entries waiters now rs s1 = (e2, s')" and eq: "expired = e1 @ e2"
    using Cons.prems(2) by (auto split: prod.splits)
  obtain is1 where is1: "e1 = map wi_key is1" "\<forall>i \<in> set is1. item_expired waiters now i"
    "sched_work s1 + items_work is1 = sched_work s" "keys_distinct (rs_jobs s1)"
    "length (rs_jobs s1) \<le> length (rs_jobs s)"
    using expire_entry_work [OF Cons.prems(1) one] by blast
  obtain is2 where is2: "e2 = map wi_key is2" "\<forall>i \<in> set is2. item_expired waiters now i"
    "sched_work s' + items_work is2 = sched_work s1" "keys_distinct (rs_jobs s')"
    "length (rs_jobs s') \<le> length (rs_jobs s1)"
    using Cons.IH [OF is1(4) rest] by blast
  have "sched_work s' + items_work (is1 @ is2) = sched_work s"
    using is1(3) is2(3) by (simp flip: is1(3) is2(3) add: ac_simps)
  then show ?case using is1 is2 eq by (intro exI [of _ "is1 @ is2"]) auto
qed

lemma expire_work:
  assumes "sched_inv closed s" "expire closed waiters now s = (completions, s')"
  obtains "is" where "completions = map (\<lambda>i. (wi_key i, Inl TimeoutBeforeDispatch)) is"
    "\<And>i. i \<in> set is \<Longrightarrow> item_expired waiters now i" "sched_work s' + items_work is = sched_work s"
    "length (rs_jobs s') \<le> length (rs_jobs s)" "sched_inv closed s'"
proof -
  have dist: "keys_distinct (rs_jobs s)" using assms(1) by (simp add: sched_inv_def lists_ok_def)
  obtain expired s1 where run: "expire_entries waiters now (map fst (rs_jobs s)) s = (expired, s1)"
    and eq: "completions = map (\<lambda>k. (k, Inl TimeoutBeforeDispatch)) expired" "s' = prune_refs closed s1"
    using assms(2) by (auto simp: expire_def split: prod.splits)
  obtain "is" where "is": "expired = map wi_key is" "\<forall>i \<in> set is. item_expired waiters now i"
    "sched_work s1 + items_work is = sched_work s" "keys_distinct (rs_jobs s1)"
    "length (rs_jobs s1) \<le> length (rs_jobs s)"
    using expire_entries_work [OF dist run] by blast
  have "sched_inv closed s'"
    using prune_inv [OF expire_entries_inv [OF assms(1) run]] by (simp add: eq)
  moreover have "completions = map (\<lambda>i. (wi_key i, Inl TimeoutBeforeDispatch)) is" by (simp add: eq "is"(1))
  moreover note prune_work [OF "is"(4), of closed]
  ultimately show ?thesis using "is" by (intro that [of "is"]) (simp_all add: eq)
qed

lemma drain_work:
  assumes "drain error s = (completions, s')"
  obtains "is" where "completions = map (\<lambda>i. (wi_key i, Inl error)) is" "items_work is = sched_work s"
    "sched_work s' = {#}" "rs_jobs s' = []"
proof -
  define part where "part = (\<lambda>e. case e of QueuedEntry job \<Rightarrow> items job | ResumeEntry _ _ \<Rightarrow> [])"
  have "concat (map (\<lambda>(_, e). case e of QueuedEntry job \<Rightarrow> map (\<lambda>i. (wi_key i, Inl error)) (items job)
        | ResumeEntry _ _ \<Rightarrow> []) jobs)
      = map (\<lambda>i. (wi_key i, Inl error)) (concat (map (\<lambda>(_, e). part e) jobs))" for jobs
    by (induction jobs) (auto simp: part_def split: entry.split)
  moreover have "items_work (concat (map (\<lambda>(_, e). part e) jobs)) = jobs_work jobs" for jobs
    by (induction jobs) (auto simp: part_def job_work_def split: entry.split)
  ultimately have "completions = map (\<lambda>i. (wi_key i, Inl error)) (concat (map (\<lambda>(_, e). part e) (rs_jobs s)))"
    "items_work (concat (map (\<lambda>(_, e). part e) (rs_jobs s))) = sched_work s"
    using assms unfolding drain_def by (metis (no_types) Pair_inject, blast)
  then show ?thesis using assms by (intro that) (auto simp: drain_def)
qed

lemma drain_inv: "drain error s = (completions, s') \<Longrightarrow> sched_inv closed s'"
  by (auto simp: drain_def sched_inv_def lists_ok_def sched_ok_def)


section \<open>Resume requests\<close>

text \<open>The requests that wait in the scheduler; no operation but \<open>admit_resume\<close> adds one.\<close>

definition resumes :: "(u64 \<times> entry) list \<Rightarrow> slot_request set" where
  "resumes jobs = {request. \<exists>r os. (r, ResumeEntry request os) \<in> set jobs}"

abbreviation sched_resumes :: "ready_scheduler \<Rightarrow> slot_request set" where
  "sched_resumes s \<equiv> resumes (rs_jobs s)"

lemma resumes_Nil [simp]: "resumes [] = {}"
  by (simp add: resumes_def)

lemma resumes_subset: "set jobs \<subseteq> set jobs' \<Longrightarrow> resumes jobs \<subseteq> resumes jobs'"
  by (auto simp: resumes_def)

lemma set_update: "set (AList.update k v m) \<subseteq> insert (k, v) (set m)"
  by (induction m) auto

lemma resumes_update:
  "resumes (AList.update r e jobs) \<subseteq> resumes jobs \<union> (case e of ResumeEntry request _ \<Rightarrow> {request} | QueuedEntry _ \<Rightarrow> {})"
  using set_update [of r e jobs] by (force simp: resumes_def split: entry.split)

lemma resumes_updateD:
  "x \<in> resumes (AList.update r e jobs) \<Longrightarrow> x \<in> resumes jobs \<or> (\<exists>os. e = ResumeEntry x os)"
  using resumes_update [of r e jobs] by (auto split: entry.splits)

lemma set_delete: "set (AList.delete r jobs) \<subseteq> set jobs"
  by (auto simp: AList.delete_eq)

lemma drop_closed_jobs: "set (rs_jobs (drop_closed es s)) \<subseteq> set (rs_jobs s)"
proof (induction es s rule: drop_closed.induct)
  case (2 r e es s)
  have "set (rs_jobs (case e of ResumeEntry request _ \<Rightarrow>
      remove_keys (sr_keys request) r (s\<lparr>rs_jobs := AList.delete r (rs_jobs s)\<rparr>)
    | QueuedEntry _ \<Rightarrow> s\<lparr>rs_jobs := AList.delete r (rs_jobs s)\<rparr>)) \<subseteq> set (rs_jobs s)"
    using set_delete [of r "rs_jobs s"] by (cases e) (simp_all add: remove_keys_facts)
  then show ?case using 2 by (auto simp: Let_def)
qed simp

lemma prune_jobs: "set (rs_jobs (prune_refs closed s)) \<subseteq> set (rs_jobs s)"
  using drop_closed_jobs by (auto simp: prune_refs_def Let_def)

lemma claim_jobs: "claim_job r s = (c, s') \<Longrightarrow> set (rs_jobs s') \<subseteq> set (rs_jobs s)
    \<and> (\<forall>request. c = Some (ClaimResume request) \<longrightarrow> request \<in> sched_resumes s)"
  using set_delete [of r "rs_jobs s"]
  by (auto simp: claim_job_def Let_def remove_keys_facts resumes_def split: option.splits entry.splits
      dest!: map_of_SomeD)

lemma next_loop_jobs:
  "next_loop closed ready n s = (c, s') \<Longrightarrow> set (rs_jobs s') \<subseteq> set (rs_jobs s)
    \<and> (\<forall>request. c = Some (ClaimResume request) \<longrightarrow> request \<in> sched_resumes s)"
proof (induction n arbitrary: s)
  case (Suc n)
  show ?case
  proof (cases "rs_origins s")
    case Nil
    then show ?thesis using Suc.prems by simp
  next
    case (Cons origin origins)
    show ?thesis
    proof (cases "map_of (rs_lanes s) origin")
      case None
      then show ?thesis using Suc.IH [of "s\<lparr>rs_origins := origins\<rparr>"] Suc.prems Cons by simp
    next
      case (Some lane)
      obtain chosen lane' where choose: "choose_ref (map_of (rs_jobs s)) closed ready origin lane = (chosen, lane')"
        by fastforce
      note step = next_loop_step [OF Cons Some choose, of n]
      show ?thesis
      proof (cases chosen)
        case None
        then have "next_loop closed ready n (served origin lane' origins s) = (c, s')"
          using Suc.prems step by (simp add: Let_def)
        from Suc.IH [OF this] show ?thesis by (simp add: served_jobs)
      next
        case (Some r)
        obtain d s2 where claim: "claim_job r (served origin lane' origins s) = (d, s2)" by fastforce
        note claimed = claim_jobs [OF claim, unfolded served_jobs]
        show ?thesis
        proof (cases "d = None")
          case True
          then have "next_loop closed ready n (prune_refs closed s2) = (c, s')"
            using Suc.prems step Some claim by (simp add: Let_def)
          from Suc.IH [OF this] show ?thesis
            using claimed prune_jobs [of closed s2] resumes_subset [of "rs_jobs (prune_refs closed s2)" "rs_jobs s"]
            by blast
        next
          case False
          then have "c = d" "s' = prune_refs closed s2" using Suc.prems step Some claim by (auto simp: Let_def)
          then show ?thesis using claimed prune_jobs [of closed s2] by blast
        qed
      qed
    qed
  qed
qed simp

lemma next_claim_resumes:
  assumes "next_claim closed ready s = (c, s')"
  shows "sched_resumes s' \<subseteq> sched_resumes s" "c = Some (ClaimResume request) \<Longrightarrow> request \<in> sched_resumes s"
  using next_loop_jobs [OF assms [unfolded next_claim_def]] resumes_subset by blast+

lemma next_verification_resumes:
  assumes "next_verification closed ready s = (j, s')"
  shows "sched_resumes s' \<subseteq> sched_resumes s"
proof (rule resumes_subset)
  show "set (rs_jobs s') \<subseteq> set (rs_jobs s)"
    using assms claim_jobs [of _ s] prune_jobs [of closed]
    by (fastforce simp: next_verification_def split: if_splits prod.splits)
qed

lemma expire_entries_resumes:
  "expire_entries waiters now rs s = (expired, s') \<Longrightarrow> sched_resumes s' \<subseteq> sched_resumes s"
proof (induction rs arbitrary: s expired)
  case (Cons r rs)
  obtain e1 s1 e2 where one: "expire_entry waiters now r s = (e1, s1)"
    and rest: "expire_entries waiters now rs s1 = (e2, s')"
    using Cons.prems by (auto split: prod.splits)
  have "sched_resumes s1 \<subseteq> sched_resumes s"
  proof (cases "\<exists>job. map_of (rs_jobs s) r = Some (QueuedEntry job)")
    case True
    then obtain job where "map_of (rs_jobs s) r = Some (QueuedEntry job)" by blast
    then show ?thesis
      using one resumes_subset [OF set_delete, of r "rs_jobs s"]
      by (auto simp: expire_entry_def Let_def remove_keys_facts split: if_splits dest!: resumes_updateD)
  next
    case False
    then show ?thesis using one by (auto simp: expire_entry_def split: option.splits entry.splits)
  qed
  then show ?case using Cons.IH [OF rest] by blast
qed simp

lemma expire_resumes:
  "expire closed waiters now s = (cs, s') \<Longrightarrow> sched_resumes s' \<subseteq> sched_resumes s"
  using expire_entries_resumes resumes_subset [OF prune_jobs [of closed]]
  by (fastforce simp: expire_def split: prod.splits)

lemma admit_job_resumes: "admit_job job s = Some s' \<Longrightarrow> sched_resumes s' \<subseteq> sched_resumes s"
  by (auto simp: admit_job_def allocate_ready_id_def dest!: resumes_updateD)

lemma admit_jobs_resumes: "admit_jobs js s = Some s' \<Longrightarrow> sched_resumes s' \<subseteq> sched_resumes s"
  by (induction js arbitrary: s) (auto simp: bind_eq_Some_conv dest: admit_job_resumes)

lemma admit_chunks_resumes: "admit_chunks lib cs s = Some s' \<Longrightarrow> sched_resumes s' \<subseteq> sched_resumes s"
  by (induction cs arbitrary: s) (auto simp: bind_eq_Some_conv dest: admit_jobs_resumes)

lemma partition_and_admit_resumes:
  "partition_and_admit lib work s = Some s' \<Longrightarrow> sched_resumes s' \<subseteq> sched_resumes s"
  unfolding partition_and_admit_def by (rule admit_chunks_resumes)

lemma admit_resume_resumes:
  "admit_resume request os s = Some s' \<Longrightarrow> sched_resumes s' \<subseteq> insert request (sched_resumes s)"
  by (auto simp: admit_resume_def allocate_ready_id_def dest!: resumes_updateD)

lemma attach_resumes:
  assumes "attach closed key origin s = Some (b, s')"
  shows "sched_resumes s' \<subseteq> sched_resumes s"
proof -
  have "request \<in> resumes jobs" if "map_of jobs r = Some (ResumeEntry request os)" for request r os jobs
    using map_of_SomeD [OF that] by (auto simp: resumes_def)
  then show ?thesis
    using assms
    by (auto simp: attach_def Let_def bind_eq_Some_conv dest!: resumes_updateD
        split: option.splits entry.splits execution_job.splits if_splits)
qed

end
