(* ===== verification/EndpointHealth.thy ===== *)
theory EndpointHealth
  imports RpcModel "HOL-Library.Sublist"
begin

text \<open>
  Session health of RPC endpoints: \<open>crates/wallet-ops/src/rpc_broker/profile.rs\<close>, and from \<open>actor.rs\<close>
  the outcomes of requests, the selection of a route's endpoints and the application of request
  events to profiles.

  Profiles are kept by chain and URL. \<open>excludes\<close> is the test of the background warmup pass (no pass
  excludes nothing) and \<open>order\<close> the broker's candidate hook, a function that permutes indices in
  place. Readings of the clock within one operation are one instant \<open>now\<close>.
\<close>

section \<open>Outcomes of requests\<close>

datatype endpoint_health_outcome = Healthy | Neutral | Strike

definition for_result :: "rpc_broker_error + 'a \<Rightarrow> endpoint_health_outcome" where
  "for_result result =
    (case result of
       Inr _ \<Rightarrow> Healthy
     | Inl (InnerRevert _) \<Rightarrow> Healthy
     | Inl TimeoutError \<Rightarrow> Strike
     | Inl TransportError \<Rightarrow> Strike
     | Inl InvalidResponse \<Rightarrow> Strike
     | Inl (HttpStatus _) \<Rightarrow> Strike
     | Inl (Remote code) \<Rightarrow>
         if policy_of_code code = TransientStrike \<or> policy_of_code code = UnrecoverableStrike
         then Strike else Neutral
     | Inl _ \<Rightarrow> Neutral)"

definition combine :: "endpoint_health_outcome \<Rightarrow> endpoint_health_outcome \<Rightarrow> endpoint_health_outcome" where
  "combine a b =
    (if a = Strike \<or> b = Strike then Strike
     else if a = Neutral \<or> b = Neutral then Neutral else Healthy)"

definition for_results :: "(rpc_broker_error + 'a) list \<Rightarrow> endpoint_health_outcome" where
  "for_results results = foldl (\<lambda>outcome r. combine outcome (for_result r)) Healthy results"

text \<open>
  A remote error: code, message and the data if it is a JSON string. \<open>parse_bytes\<close> is alloy's
  parser of hexadecimal bytes.
\<close>

record remote_error =
  re_code :: int
  re_message :: string
  re_data :: "string option"

definition to_ascii_lowercase :: "string \<Rightarrow> string" where
  "to_ascii_lowercase = map (\<lambda>c. if 65 \<le> (of_char c :: nat) \<and> (of_char c :: nat) \<le> 90
     then char_of ((of_char c :: nat) + 32) else c)"

definition remote_failure :: "(string \<Rightarrow> bytes option) \<Rightarrow> remote_error \<Rightarrow> bool \<Rightarrow> rpc_broker_error" where
  "remote_failure parse_bytes remote preserve_revert =
    (case Option.bind (re_data remote) parse_bytes of
       Some data \<Rightarrow>
         if preserve_revert \<and> (re_code remote = 3
             \<or> re_code remote = - 32000 \<and> sublist ''revert'' (to_ascii_lowercase (re_message remote)))
         then InnerRevert data else Remote (re_code remote)
     | None \<Rightarrow> Remote (re_code remote))"

text \<open>The failures of a request that a caller sent itself, by what the source distinguishes.\<close>

datatype transport_error =
    ErrorResp remote_error
  | TransportKind | NullResp | DeserError
  | SerError | UnsupportedFeature | LocalUsageError

datatype direct_failure = TransportReport transport_error | ElapsedReport | OtherReport

definition for_direct_error :: "(string \<Rightarrow> bytes option) \<Rightarrow> transport_error \<Rightarrow> endpoint_health_outcome" where
  "for_direct_error parse_bytes e =
    (case e of
       ErrorResp payload \<Rightarrow> for_result (Inl (remote_failure parse_bytes payload True) :: rpc_broker_error + unit)
     | TransportKind \<Rightarrow> Strike | NullResp \<Rightarrow> Strike | DeserError \<Rightarrow> Strike
     | SerError \<Rightarrow> Neutral | UnsupportedFeature \<Rightarrow> Neutral | LocalUsageError \<Rightarrow> Neutral)"

definition for_direct_failure :: "(string \<Rightarrow> bytes option) \<Rightarrow> direct_failure \<Rightarrow> endpoint_health_outcome" where
  "for_direct_failure parse_bytes e =
    (case e of TransportReport t \<Rightarrow> for_direct_error parse_bytes t | ElapsedReport \<Rightarrow> Strike | OtherReport \<Rightarrow> Neutral)"

section \<open>Profiles\<close>

definition HEALTH_WINDOW :: duration where "HEALTH_WINDOW = seconds 30"
definition HEALTH_STRIKE_THRESHOLD :: nat where "HEALTH_STRIKE_THRESHOLD = 3"
definition HEALTH_WITHDRAWAL_BASE :: duration where "HEALTH_WITHDRAWAL_BASE = seconds 5"
definition HEALTH_WITHDRAWAL_MAX :: duration where "HEALTH_WITHDRAWAL_MAX = seconds 3600"

record endpoint_profile =
  ep_request_count :: u64
  ep_recent_failures :: "instant list"
  ep_withdrawn_until :: "instant option"
  ep_withdrawal_level :: u32

definition default_profile :: endpoint_profile where
  "default_profile = \<lparr>ep_request_count = 0, ep_recent_failures = [], ep_withdrawn_until = None,
     ep_withdrawal_level = 0\<rparr>"

definition is_withdrawn :: "instant \<Rightarrow> endpoint_profile \<Rightarrow> bool" where
  "is_withdrawn now p = (case ep_withdrawn_until p of Some at \<Rightarrow> now < at | None \<Rightarrow> False)"

definition cooldown_of :: "u32 \<Rightarrow> duration" where
  "cooldown_of level =
    min (HEALTH_WITHDRAWAL_BASE * unat (push_bit (min (unat (saturating_sub level 1)) 10) (1 :: u32)))
        HEALTH_WITHDRAWAL_MAX"

definition withdraw :: "instant \<Rightarrow> endpoint_profile \<Rightarrow> endpoint_profile" where
  "withdraw now p =
    (let level = saturating_add (ep_withdrawal_level p) 1
     in p\<lparr>ep_recent_failures := [], ep_withdrawal_level := level,
          ep_withdrawn_until := Some (now + cooldown_of level)\<rparr>)"

definition record_failure :: "instant \<Rightarrow> endpoint_profile \<Rightarrow> bool \<times> endpoint_profile" where
  "record_failure now p =
    (let failures = filter (\<lambda>failure. now - failure \<le> HEALTH_WINDOW) (ep_recent_failures p) @ [now];
         p1 = p\<lparr>ep_recent_failures := failures\<rparr>
     in if length failures < HEALTH_STRIKE_THRESHOLD then (False, p1) else (True, withdraw now p1))"

definition withdraw_after_warmup_strike :: "instant \<Rightarrow> endpoint_profile \<Rightarrow> bool \<times> endpoint_profile" where
  "withdraw_after_warmup_strike now p =
    (if is_withdrawn now p then (False, p) else (True, withdraw now p))"

definition restore_if_ready :: "instant \<Rightarrow> endpoint_profile \<Rightarrow> bool \<times> endpoint_profile" where
  "restore_if_ready now p =
    (case ep_withdrawn_until p of
       Some at \<Rightarrow> if at \<le> now then (True, p\<lparr>ep_withdrawn_until := None\<rparr>) else (False, p)
     | None \<Rightarrow> (False, p))"

section \<open>Applying request events\<close>

type_synonym profiles = "u64 \<times> url \<Rightarrow> endpoint_profile option"

record request_event =
  rev_chain_id :: u64
  rev_endpoint :: url
  rev_health_outcome :: endpoint_health_outcome

definition profile_or_default :: "profiles \<Rightarrow> u64 \<times> url \<Rightarrow> endpoint_profile" where
  "profile_or_default ps k = (case ps k of Some p \<Rightarrow> p | None \<Rightarrow> default_profile)"

definition apply_health_outcome :: "request_event \<Rightarrow> instant \<Rightarrow> bool \<Rightarrow> profiles \<Rightarrow> profiles" where
  "apply_health_outcome event now warmup ps =
    (let k = (rev_chain_id event, rev_endpoint event); p = profile_or_default ps k
     in ps(k \<mapsto>
       (case rev_health_outcome event of
          Strike \<Rightarrow> snd (if warmup then withdraw_after_warmup_strike now p else record_failure now p)
        | _ \<Rightarrow> p)))"

definition apply_request_event :: "request_event \<Rightarrow> instant \<Rightarrow> bool \<Rightarrow> profiles \<Rightarrow> profiles" where
  "apply_request_event event now warmup ps =
    (let k = (rev_chain_id event, rev_endpoint event); p = profile_or_default ps k
     in apply_health_outcome event now warmup
          (ps(k \<mapsto> p\<lparr>ep_request_count := saturating_add (ep_request_count p) 1\<rparr>)))"

definition apply_request_events :: "request_event list \<Rightarrow> instant \<Rightarrow> profiles \<Rightarrow> profiles" where
  "apply_request_events events now ps = fold (\<lambda>event. apply_request_event event now False) events ps"

definition apply_warmup_event :: "request_event \<Rightarrow> instant \<Rightarrow> profiles \<Rightarrow> profiles" where
  "apply_warmup_event event now ps =
    (if rev_health_outcome event = Healthy
     then (case ps (rev_chain_id event, rev_endpoint event) of
             Some p \<Rightarrow> ps((rev_chain_id event, rev_endpoint event) \<mapsto> p\<lparr>ep_withdrawn_until := None\<rparr>)
           | None \<Rightarrow> ps)
     else apply_request_event event now True ps)"

definition apply_reported_event :: "request_event \<Rightarrow> instant \<Rightarrow> profiles \<Rightarrow> profiles" where
  "apply_reported_event event now ps =
    (if rev_health_outcome event \<noteq> Healthy then apply_health_outcome event now True ps
     else (let k = (rev_chain_id event, rev_endpoint event)
           in ps(k \<mapsto> (profile_or_default ps k)\<lparr>ep_withdrawn_until := None\<rparr>)))"

section \<open>Selection of endpoints\<close>

text \<open>The loop of \<open>eligible_endpoints\<close>: candidate and withdrawn indices, request counts, profiles.\<close>

fun scan_endpoints ::
    "(url \<Rightarrow> bool) \<Rightarrow> u64 \<Rightarrow> instant \<Rightarrow> nat \<Rightarrow> url list \<Rightarrow> profiles
      \<Rightarrow> nat list \<times> nat list \<times> u64 list \<times> profiles" where
  "scan_endpoints recovering chain_id now index [] ps = ([], [], [], ps)"
| "scan_endpoints recovering chain_id now index (u # us) ps =
    (let p = profile_or_default ps (chain_id, u);
         p' = (if recovering u then p else snd (restore_if_ready now p));
         (candidates, withdrawn, counts, ps') =
           scan_endpoints recovering chain_id now (Suc index) us (ps((chain_id, u) \<mapsto> p'))
     in if recovering u \<or> is_withdrawn now p'
        then (candidates, index # withdrawn, ep_request_count p' # counts, ps')
        else (index # candidates, withdrawn, ep_request_count p' # counts, ps'))"

definition eligible_endpoints ::
    "(nat list \<Rightarrow> nat list) \<Rightarrow> (rpc_chain_route \<Rightarrow> url \<Rightarrow> bool) \<Rightarrow> instant \<Rightarrow> rpc_chain_route \<Rightarrow> profiles
      \<Rightarrow> (rpc_broker_error + (nat list \<times> u64 list)) \<times> profiles" where
  "eligible_endpoints order excludes now route ps =
    (if cr_endpoints route = [] then (Inl (NoEndpoint (cr_chain_id route)), ps)
     else
       (case scan_endpoints (excludes route) (cr_chain_id route) now 0 (cr_endpoints route) ps of
          (candidates, withdrawn, counts, ps') \<Rightarrow>
            (Inr (order (if candidates = [] then withdrawn else candidates), counts), ps')))"

definition select_route ::
    "(nat list \<Rightarrow> nat list) \<Rightarrow> (rpc_chain_route \<Rightarrow> url \<Rightarrow> bool) \<Rightarrow> instant \<Rightarrow> rpc_chain_route \<Rightarrow> profiles
      \<Rightarrow> (rpc_broker_error + url list) \<times> profiles" where
  "select_route order excludes now route ps =
    (case eligible_endpoints order excludes now route ps of
       (Inl e, ps') \<Rightarrow> (Inl e, ps')
     | (Inr (ordered, counts), ps') \<Rightarrow>
         (Inr (map (\<lambda>index. cr_endpoints route ! index) (sort_key (\<lambda>index. counts ! index) ordered)), ps'))"

definition select_candidates ::
    "(nat list \<Rightarrow> nat list) \<Rightarrow> (rpc_chain_route \<Rightarrow> url \<Rightarrow> bool) \<Rightarrow> instant \<Rightarrow> rpc_chain_route \<Rightarrow> profiles
      \<Rightarrow> (rpc_broker_error + url list) \<times> profiles" where
  "select_candidates order excludes now route ps =
    (case eligible_endpoints order excludes now route ps of
       (Inl e, ps') \<Rightarrow> (Inl e, ps')
     | (Inr (ordered, _), ps') \<Rightarrow>
         (let endpoints = filter (\<lambda>u. \<not> excludes route u) (map (\<lambda>index. cr_endpoints route ! index) ordered)
          in (if endpoints = [] then Inl (NoEndpoint (cr_chain_id route)) else Inr endpoints, ps')))"


section \<open>Withdrawals\<close>

text \<open>
  The operations on one profile at non-decreasing times. A withdrawal's label says so, and
  \<open>open_strikes\<close> reads the strikes since the last one off a run.
\<close>

datatype profile_event =
    FailureAt instant bool
  | WarmupStrikeAt instant bool
  | RestoreAt instant bool
  | RecoverNow
  | CountRequest

inductive profile_step ::
    "endpoint_profile \<times> instant \<Rightarrow> profile_event \<Rightarrow> endpoint_profile \<times> instant \<Rightarrow> bool" where
  profile_failure: "t \<le> now \<Longrightarrow> record_failure now p = (b, p')
    \<Longrightarrow> profile_step (p, t) (FailureAt now b) (p', now)"
| profile_warmup: "t \<le> now \<Longrightarrow> withdraw_after_warmup_strike now p = (b, p')
    \<Longrightarrow> profile_step (p, t) (WarmupStrikeAt now b) (p', now)"
| profile_restore: "t \<le> now \<Longrightarrow> restore_if_ready now p = (b, p')
    \<Longrightarrow> profile_step (p, t) (RestoreAt now b) (p', now)"
| profile_recover: "profile_step (p, t) RecoverNow (p\<lparr>ep_withdrawn_until := None\<rparr>, t)"
| profile_count: "profile_step (p, t) CountRequest
    (p\<lparr>ep_request_count := saturating_add (ep_request_count p) 1\<rparr>, t)"

inductive_cases profile_stepE: "profile_step x e y"

fun open_strikes :: "instant list \<Rightarrow> profile_event list \<Rightarrow> instant list" where
  "open_strikes acc [] = acc"
| "open_strikes acc (FailureAt now b # es) = open_strikes (if b then [] else acc @ [now]) es"
| "open_strikes acc (WarmupStrikeAt now b # es) = open_strikes (if b then [] else acc) es"
| "open_strikes acc (e # es) = open_strikes acc es"

fun withdrawals :: "profile_event list \<Rightarrow> nat" where
  "withdrawals [] = 0"
| "withdrawals (FailureAt now b # es) = (if b then 1 else 0) + withdrawals es"
| "withdrawals (WarmupStrikeAt now b # es) = (if b then 1 else 0) + withdrawals es"
| "withdrawals (e # es) = withdrawals es"

text \<open>The stored failures are the open strikes, less some that have left the window at \<open>t\<close>.\<close>

definition window_of :: "instant \<Rightarrow> instant list \<Rightarrow> instant list" where
  "window_of t fs = filter (\<lambda>f. t - f \<le> HEALTH_WINDOW) fs"

definition tracks :: "instant list \<Rightarrow> instant \<Rightarrow> endpoint_profile \<Rightarrow> bool" where
  "tracks acc t p \<longleftrightarrow> (\<forall>now \<ge> t. window_of now (ep_recent_failures p) = window_of now acc)"

lemma window_of_window: "t \<le> now \<Longrightarrow> window_of now (window_of t fs) = window_of now fs"
  by (auto simp: window_of_def intro!: filter_cong)

lemma window_of_append [simp]: "window_of t (fs @ gs) = window_of t fs @ window_of t gs"
  by (simp add: window_of_def)

lemma record_failure_iff:
  "fst (record_failure now p) \<longleftrightarrow> 3 \<le> length (window_of now (ep_recent_failures p)) + 1"
  by (auto simp: record_failure_def Let_def window_of_def HEALTH_STRIKE_THRESHOLD_def)

lemma withdraw_simps [simp]:
  "ep_recent_failures (withdraw now p) = []"
  "ep_withdrawal_level (withdraw now p) = saturating_add (ep_withdrawal_level p) 1"
  "ep_withdrawn_until (withdraw now p) = Some (now + cooldown_of (saturating_add (ep_withdrawal_level p) 1))"
  by (simp_all add: withdraw_def Let_def)

lemma record_failure_failures:
  "ep_recent_failures (snd (record_failure now p)) =
    (if fst (record_failure now p) then [] else window_of now (ep_recent_failures p) @ [now])"
  by (simp add: record_failure_def Let_def window_of_def)

lemma tracks_step:
  assumes "profile_step (p, t) e (p', t')" "tracks acc t p"
  shows "tracks (open_strikes acc [e]) t' p' \<and> t \<le> t'"
  using assms(1)
proof (cases rule: profile_step.cases)
  case (profile_failure b)
  have "ep_recent_failures p' = (if b then [] else window_of t' (ep_recent_failures p) @ [t'])"
    using record_failure_failures [of t' p] profile_failure by simp
  then show ?thesis using profile_failure assms(2)
    by (auto simp: tracks_def window_of_window)
next
  case (profile_warmup b)
  then show ?thesis using assms(2)
    by (auto simp: tracks_def withdraw_after_warmup_strike_def split: if_splits)
next
  case (profile_restore b)
  then show ?thesis using assms(2)
    by (auto simp: tracks_def restore_if_ready_def split: option.splits if_splits)
qed (use assms(2) in \<open>auto simp: tracks_def\<close>)

lemma open_strikes_Cons: "open_strikes acc (e # es) = open_strikes (open_strikes acc [e]) es"
  by (cases e) simp_all

lemma tracks_trace:
  "trace profile_step x es y \<Longrightarrow> tracks acc (snd x) (fst x) \<Longrightarrow>
    tracks (open_strikes acc es) (snd y) (fst y) \<and> snd x \<le> snd y"
proof (induction arbitrary: acc rule: trace.induct)
  case (trace_Cons s l t ls u)
  have "tracks (open_strikes acc [l]) (snd t) (fst t)" "snd s \<le> snd t"
    using tracks_step [of "fst s" "snd s" l "fst t" "snd t" acc] trace_Cons by auto
  then show ?case using trace_Cons.IH [of "open_strikes acc [l]"]
    by (subst open_strikes_Cons) auto
qed simp

lemma u32_bound: "unat (w :: u32) \<le> 4294967295"
  using unsigned_less [where w = w and ?'a = nat] by simp

lemma level_step:
  assumes "profile_step (p, t) e (p', t')"
  shows "unat (ep_withdrawal_level p') = min (unat (ep_withdrawal_level p) + withdrawals [e]) (2 ^ 32 - 1)"
  using assms
  by (cases rule: profile_step.cases)
    (auto simp: record_failure_def withdraw_after_warmup_strike_def restore_if_ready_def Let_def
      unat_saturating_add min_absorb1 u32_bound split: if_splits option.splits)

lemma withdrawals_Cons: "withdrawals (e # es) = withdrawals [e] + withdrawals es"
  by (cases e) simp_all

lemma level_trace:
  "trace profile_step x es y \<Longrightarrow>
    unat (ep_withdrawal_level (fst y)) = min (unat (ep_withdrawal_level (fst x)) + withdrawals es) (2 ^ 32 - 1)"
proof (induction rule: trace.induct)
  case (trace_Nil s)
  then show ?case using u32_bound [of "ep_withdrawal_level (fst s)"] by (simp add: min_absorb1)
next
  case (trace_Cons s l t ls u)
  show ?case
    using trace_Cons.IH level_step [of "fst s" "snd s" l "fst t" "snd t"] trace_Cons.hyps(1)
    by (subst withdrawals_Cons) simp
qed

text \<open>Cooldowns in seconds: 5, 10, 20, ... doubled with each withdrawal, up to one hour.\<close>

lemma unat_shift_one: "n < 32 \<Longrightarrow> unat (push_bit n 1 :: u32) = 2 ^ n"
proof -
  assume "n < 32"
  then have "(2 :: nat) ^ n < 2 ^ 32" by (intro power_strict_increasing) simp_all
  then show ?thesis by (simp only: unsigned_push_bit_eq) (simp add: take_bit_eq_mod push_bit_eq_mult)
qed

lemma cooldown_of_nat:
  assumes "0 < unat level"
  shows "cooldown_of level = min (seconds 5 * 2 ^ min (unat level - 1) 10) (seconds 3600)"
proof -
  have "unat (push_bit (min (unat level - 1) 10) (1 :: u32)) = 2 ^ min (unat level - 1) 10"
    by (rule unat_shift_one) simp
  then show ?thesis
    by (simp add: cooldown_of_def unat_saturating_sub HEALTH_WITHDRAWAL_BASE_def HEALTH_WITHDRAWAL_MAX_def)
qed

text \<open>
  Health of one endpoint. After any run of profile operations, a failure at \<open>now\<close> withdraws the
  endpoint exactly when it is at least the third strike within 30 seconds since the last withdrawal
  (earlier strikes are forgotten, a withdrawal starts the count over), and the withdrawal that starts
  then lasts five seconds doubled for each earlier withdrawal, at most one hour.
\<close>

theorem strikes_withdraw:
  assumes "trace profile_step (default_profile, t0) es (p, t)" "t \<le> now"
  shows "(fst (record_failure now p) \<longleftrightarrow>
      3 \<le> length (filter (\<lambda>f. now - f \<le> seconds 30) (open_strikes [] es @ [now])))
    \<and> (fst (record_failure now p) \<longrightarrow> withdrawals es < 2 ^ 32 - 1 \<longrightarrow>
      ep_withdrawn_until (snd (record_failure now p)) =
        Some (now + min (seconds 5 * 2 ^ min (withdrawals es) 10) (seconds 3600)))"
proof -
  have "window_of now (ep_recent_failures p) = window_of now (open_strikes [] es)"
    using tracks_trace [OF assms(1), of "[]"] assms(2) by (simp add: tracks_def default_profile_def)
  then have strikes: "fst (record_failure now p) \<longleftrightarrow>
      3 \<le> length (filter (\<lambda>f. now - f \<le> seconds 30) (open_strikes [] es @ [now]))"
    by (simp add: record_failure_iff window_of_def HEALTH_WINDOW_def)
  have level: "unat (ep_withdrawal_level p) = min (withdrawals es) (2 ^ 32 - 1)"
    using level_trace [OF assms(1)] by (simp add: default_profile_def)
  have "cooldown_of (saturating_add (ep_withdrawal_level p) 1)
      = min (seconds 5 * 2 ^ min (withdrawals es) 10) (seconds 3600)" if "withdrawals es < 2 ^ 32 - 1"
    using that level by (subst cooldown_of_nat) (simp_all add: unat_saturating_add)
  moreover have "ep_withdrawn_until (snd (record_failure now p)) =
      Some (now + cooldown_of (saturating_add (ep_withdrawal_level p) 1))" if "fst (record_failure now p)"
    using that by (auto simp: record_failure_def Let_def split: if_splits)
  ultimately show ?thesis using strikes by simp
qed

lemma strikes_withdraw_witness:
  "fst (record_failure (seconds 20) \<lparr>ep_request_count = 0, ep_recent_failures = [seconds 1, seconds 2],
     ep_withdrawn_until = None, ep_withdrawal_level = 0\<rparr>)"
proof -
  define p where "p = \<lparr>ep_request_count = 0 :: u64, ep_recent_failures = [seconds 1, seconds 2],
    ep_withdrawn_until = None, ep_withdrawal_level = 0 :: u32\<rparr>"
  define q where "q = default_profile\<lparr>ep_recent_failures := [seconds 1]\<rparr>"
  have "profile_step (default_profile, 0) (FailureAt (seconds 1) False) (q, seconds 1)"
    by (rule profile_failure)
      (simp_all add: record_failure_def default_profile_def Let_def HEALTH_STRIKE_THRESHOLD_def q_def)
  moreover have "profile_step (q, seconds 1) (FailureAt (seconds 2) False) (p, seconds 2)"
    by (rule profile_failure)
      (simp_all add: record_failure_def default_profile_def Let_def HEALTH_STRIKE_THRESHOLD_def
        HEALTH_WINDOW_def q_def p_def)
  ultimately have "trace profile_step (default_profile, 0)
      [FailureAt (seconds 1) False, FailureAt (seconds 2) False] (p, seconds 2)"
    by (meson trace.intros)
  from strikes_withdraw [OF this, of "seconds 20"] show ?thesis by (simp add: p_def)
qed


section \<open>Selected endpoints\<close>

text \<open>Profiles that differ at most in cooldowns that have ended by \<open>now\<close>.\<close>

definition same_health :: "instant \<Rightarrow> profiles \<Rightarrow> profiles \<Rightarrow> bool" where
  "same_health now ps qs \<longleftrightarrow> (\<forall>k.
    is_withdrawn now (profile_or_default ps k) = is_withdrawn now (profile_or_default qs k)
    \<and> ep_request_count (profile_or_default ps k) = ep_request_count (profile_or_default qs k)
    \<and> ep_recent_failures (profile_or_default ps k) = ep_recent_failures (profile_or_default qs k)
    \<and> ep_withdrawal_level (profile_or_default ps k) = ep_withdrawal_level (profile_or_default qs k))"

definition available :: "(url \<Rightarrow> bool) \<Rightarrow> u64 \<Rightarrow> instant \<Rightarrow> profiles \<Rightarrow> url \<Rightarrow> bool" where
  "available recovering chain_id now ps u \<longleftrightarrow>
    \<not> recovering u \<and> \<not> is_withdrawn now (profile_or_default ps (chain_id, u))"

lemma same_health_refl [simp]: "same_health now ps ps"
  by (simp add: same_health_def)

lemma same_health_trans: "same_health now ps qs \<Longrightarrow> same_health now qs rs \<Longrightarrow> same_health now ps rs"
  by (simp add: same_health_def)

lemma restore_facts [simp]:
  "is_withdrawn now (snd (restore_if_ready now p)) = is_withdrawn now p"
  "ep_request_count (snd (restore_if_ready now p)) = ep_request_count p"
  "ep_recent_failures (snd (restore_if_ready now p)) = ep_recent_failures p"
  "ep_withdrawal_level (snd (restore_if_ready now p)) = ep_withdrawal_level p"
  by (auto simp: restore_if_ready_def is_withdrawn_def split: option.split)

lemma same_health_restore:
  "same_health now ps (ps(k \<mapsto> (if b then profile_or_default ps k
     else snd (restore_if_ready now (profile_or_default ps k)))))"
  by (auto simp: same_health_def profile_or_default_def split: option.splits)

lemma same_health_available:
  "same_health now ps qs \<Longrightarrow> available recovering chain_id now qs = available recovering chain_id now ps"
  by (auto simp: same_health_def available_def fun_eq_iff)

lemma scan_endpoints_facts:
  "scan_endpoints recovering chain_id now n us ps = (cs, ws, counts, qs) \<Longrightarrow>
    same_health now ps qs
    \<and> cs = map fst (filter (\<lambda>(_, u). available recovering chain_id now ps u) (enumerate n us))
    \<and> ws = map fst (filter (\<lambda>(_, u). \<not> available recovering chain_id now ps u) (enumerate n us))
    \<and> counts = map (\<lambda>u. ep_request_count (profile_or_default ps (chain_id, u))) us"
proof (induction us arbitrary: n ps cs ws counts)
  case (Cons u us)
  define p where "p = profile_or_default ps (chain_id, u)"
  define p' where "p' = (if recovering u then p else snd (restore_if_ready now p))"
  define ps1 where "ps1 = ps((chain_id, u) \<mapsto> p')"
  obtain cs1 ws1 counts1 where rest: "scan_endpoints recovering chain_id now (Suc n) us ps1 = (cs1, ws1, counts1, qs)"
    and eqs: "counts = ep_request_count p' # counts1"
      "cs = (if recovering u \<or> is_withdrawn now p' then cs1 else n # cs1)"
      "ws = (if recovering u \<or> is_withdrawn now p' then n # ws1 else ws1)"
    using Cons.prems unfolding p_def p'_def ps1_def
    by (simp add: Let_def split: prod.splits) (auto split: if_splits)
  have same: "same_health now ps ps1"
    using same_health_restore [of now ps "(chain_id, u)" "recovering u"]
    by (cases "recovering u") (simp_all add: ps1_def p'_def p_def)
  have "ep_request_count (profile_or_default ps1 k) = ep_request_count (profile_or_default ps k)" for k
    using same [unfolded same_health_def, THEN spec, of k] by simp
  moreover have "ep_request_count p' = ep_request_count p" by (simp add: p'_def)
  moreover have "(recovering u \<or> is_withdrawn now p') = (\<not> available recovering chain_id now ps u)"
    by (simp add: available_def p'_def p_def)
  ultimately show ?case
    using Cons.IH [OF rest] eqs same_health_trans [OF same] same_health_available [OF same]
    by (simp add: p_def)
qed simp

lemma nth_filter_enumerate:
  "map (\<lambda>i. us ! i) (map fst (filter (\<lambda>(_, u). P u) (enumerate 0 us))) = filter P us"
proof -
  have "filter P (map snd (enumerate 0 us)) = map snd (filter (\<lambda>(_, u). P u) (enumerate 0 us))"
    unfolding filter_map comp_def case_prod_unfold ..
  moreover have "map (\<lambda>i. us ! i) (map fst (filter (\<lambda>(_, u). P u) (enumerate 0 us)))
      = map snd (filter (\<lambda>(_, u). P u) (enumerate 0 us))"
    by (auto simp: in_set_enumerate_eq intro!: map_cong)
  ultimately show ?thesis by (simp add: case_prod_unfold)
qed

definition preferred :: "(url \<Rightarrow> bool) \<Rightarrow> url list \<Rightarrow> url list" where
  "preferred P us = (if filter P us = [] then us else filter P us)"

lemma eligible_endpoints_facts:
  assumes order: "\<And>xs. mset (order xs) = mset xs" and nonempty: "cr_endpoints route \<noteq> []"
    and res: "eligible_endpoints order excludes now route ps = (r, qs)"
  obtains ordered counts where "r = Inr (ordered, counts)" "same_health now ps qs"
    "mset (map (\<lambda>i. cr_endpoints route ! i) ordered)
      = mset (preferred (available (excludes route) (cr_chain_id route) now ps) (cr_endpoints route))"
    "\<And>i. i \<in> set ordered \<Longrightarrow> i < length (cr_endpoints route)"
    "counts = map (\<lambda>u. ep_request_count (profile_or_default ps (cr_chain_id route, u))) (cr_endpoints route)"
proof -
  let ?us = "cr_endpoints route" and ?P = "available (excludes route) (cr_chain_id route) now ps"
  obtain cs ws counts where scan:
      "scan_endpoints (excludes route) (cr_chain_id route) now 0 ?us ps = (cs, ws, counts, qs)"
    and r: "r = Inr (order (if cs = [] then ws else cs), counts)"
    using res nonempty by (auto simp: eligible_endpoints_def split: prod.splits)
  note facts = scan_endpoints_facts [OF scan]
  have nths: "map (\<lambda>i. ?us ! i) cs = filter ?P ?us" "map (\<lambda>i. ?us ! i) ws = filter (\<lambda>u. \<not> ?P u) ?us"
    using nth_filter_enumerate [of ?us ?P] nth_filter_enumerate [of ?us "\<lambda>u. \<not> ?P u"] facts by simp_all
  have empty: "filter (\<lambda>u. \<not> ?P u) ?us = ?us" if "cs = []"
  proof (rule filter_True)
    have "filter ?P ?us = []" using that nths(1) by simp
    then show "\<forall>u \<in> set ?us. \<not> ?P u" by (simp only: filter_empty_conv)
  qed
  have "map (\<lambda>i. ?us ! i) (if cs = [] then ws else cs) = preferred ?P ?us"
    using nths empty by (auto simp: preferred_def)
  moreover have "mset (map (\<lambda>i. ?us ! i) (order xs)) = mset (map (\<lambda>i. ?us ! i) xs)" for xs
    by (simp add: order)
  ultimately have "mset (map (\<lambda>i. ?us ! i) (order (if cs = [] then ws else cs))) = mset (preferred ?P ?us)"
    by metis
  moreover have "i < length ?us" if "i \<in> set (order (if cs = [] then ws else cs))" for i
  proof -
    have "i \<in> set (if cs = [] then ws else cs)" using that order mset_eq_setD by metis
    then show ?thesis using facts by (auto simp: in_set_enumerate_eq split: if_splits)
  qed
  ultimately show ?thesis using that r facts by blast
qed

text \<open>
  Selection of a route's endpoints. If the candidate hook only permutes, a route with endpoints
  is given exactly its available ones (not withdrawn, not excluded by warmup), or all of them when
  none is available, with fewer requests of the session first; a route without endpoints is the
  only one refused. Selection changes no health beyond ending expired cooldowns.
\<close>

theorem select_route_endpoints:
  assumes "\<And>xs. mset (order xs) = mset xs" "select_route order excludes now route ps = (r, qs)"
  shows "same_health now ps qs \<and>
    (if cr_endpoints route = [] then r = Inl (NoEndpoint (cr_chain_id route))
     else \<exists>urls. r = Inr urls
       \<and> mset urls = mset (preferred (available (excludes route) (cr_chain_id route) now ps) (cr_endpoints route))
       \<and> sorted (map (\<lambda>u. ep_request_count (profile_or_default ps (cr_chain_id route, u))) urls))"
proof (cases "cr_endpoints route = []")
  case True
  then show ?thesis using assms(2) by (auto simp: select_route_def eligible_endpoints_def)
next
  case False
  let ?us = "cr_endpoints route"
  let ?count = "\<lambda>u. ep_request_count (profile_or_default ps (cr_chain_id route, u))"
  obtain r1 where elig: "eligible_endpoints order excludes now route ps = (r1, qs)"
    using assms(2) by (auto simp: select_route_def split: prod.splits sum.splits)
  obtain ordered counts where facts: "r1 = Inr (ordered, counts)" "same_health now ps qs"
    "mset (map (\<lambda>i. ?us ! i) ordered)
      = mset (preferred (available (excludes route) (cr_chain_id route) now ps) ?us)"
    "\<And>i. i \<in> set ordered \<Longrightarrow> i < length ?us" "counts = map ?count ?us"
    using eligible_endpoints_facts [OF assms(1) False elig] by blast
  define s where "s = sort_key (\<lambda>i. counts ! i) ordered"
  have r: "r = Inr (map (\<lambda>i. ?us ! i) s)"
    using assms(2) elig facts(1) by (simp add: select_route_def s_def)
  have "map ?count (map (\<lambda>i. ?us ! i) s) = map (\<lambda>i. counts ! i) s"
    using facts(4,5) by (auto simp: s_def)
  moreover have "sorted (map (\<lambda>i. counts ! i) s)" unfolding s_def by (rule sorted_sort_key)
  moreover have "mset (map (\<lambda>i. ?us ! i) s) = mset (map (\<lambda>i. ?us ! i) ordered)" by (simp add: s_def)
  ultimately show ?thesis using False r facts(2,3) by (simp del: map_map)
qed

lemma select_route_endpoints_witness:
  "\<exists>urls. fst (select_route rev (\<lambda>_ u. u = ''a'') 7 sample_route Map.empty) = Inr urls
     \<and> mset urls = mset (preferred (available (\<lambda>u. u = ''a'') (cr_chain_id sample_route) 7 Map.empty)
         (cr_endpoints sample_route))"
proof -
  obtain r qs where sel: "select_route rev (\<lambda>_ u. u = ''a'') 7 sample_route Map.empty = (r, qs)" by fastforce
  have "cr_endpoints sample_route \<noteq> []" by (simp add: sample_route_def new_with_transports_def)
  then show ?thesis using select_route_endpoints [OF mset_rev sel] sel by auto
qed

end
