(* ===== verification/Broker.thy ===== *)
theory Broker
  imports Capacity ReadyWork EndpointHealth
begin

text \<open>
  The broker's actor: \<open>Actor\<close> of \<open>crates/wallet-ops/src/rpc_broker/actor.rs\<close> with \<open>ActiveWork\<close> and
  \<open>ReadReply\<close> of \<open>resolution.rs\<close>. It composes the scheduler, the slot accounting, the read cache and
  the endpoint profiles of the other theories.

  One event of the actor's loop is one step; the actor is a single task, so a handler runs without
  interruption. A reply channel is its number, and \<open>br_sent\<close> records what \<open>ReadReply::send\<close> delivered.
  \<open>br_waiters\<close> is the memory of the shared \<open>WaiterState\<close>s; \<open>br_next_address\<close> allocates them and the
  jobs' slots. What a handler observes of the outside is in \<open>broker_env\<close>: the clock (all readings
  in one handler are one instant), which grant receivers still exist when a grant is sent, which
  endpoints the shared identity caches have verified, what the warmup pass excludes, and the
  candidate hook. \<open>None\<close> is a panic (the scheduler's identifiers are exhausted) or, in the loops of
  \<open>pump_ready\<close>, exhausted fuel; \<open>pump_ready_returns\<close> shows that neither happens there.
\<close>

section \<open>State\<close>

record active_work =
  aw_read :: rpc_read
  aw_execution_route :: rpc_route
  aw_origins :: "rpc_origin list"
  aw_replies :: "nat list"
  aw_waiters :: nat

record pending_submission =
  ps_submission :: rpc_submission
  ps_replies :: "nat list"
  ps_deadline :: "instant option"

record broker_env =
  be_lib :: alloy_lib
  be_now :: instant
  be_send_ok :: "nat \<Rightarrow> bool"
  be_verified :: "rpc_chain_route \<Rightarrow> url \<Rightarrow> bool"
  be_excludes :: "rpc_chain_route \<Rightarrow> url \<Rightarrow> bool"
  be_order :: "nat list \<Rightarrow> nat list"

record broker =
  br_interval :: duration
  br_max_in_flight :: nat
  br_probe_limit :: nat
  br_pending :: "pending_submission list"
  br_active :: "work_key \<Rightarrow> active_work option"
  br_next_work_nonce :: u64
  br_running :: "(nat \<times> execution_job) list"
  br_capacity :: capacity
  br_runner_waiters :: "slot_request list"
  br_scheduler :: ready_scheduler
  br_profiles :: profiles
  br_cache :: read_cache
  br_next_flush_at :: "instant option"
  br_waiters :: waiter_store
  br_next_address :: nat
  br_closed :: "nat \<Rightarrow> bool"
  br_sent :: "(nat \<times> (rpc_broker_error + rpc_result)) list"

type_synonym completion = "work_key \<times> (rpc_broker_error + rpc_result)"

datatype start_mode = StartRead | StartVerify

definition new_broker :: "duration \<Rightarrow> nat \<Rightarrow> nat \<Rightarrow> broker" where
  "new_broker interval max_in_flight probe_limit =
    \<lparr>br_interval = interval, br_max_in_flight = max_in_flight, br_probe_limit = probe_limit,
     br_pending = [], br_active = Map.empty, br_next_work_nonce = 1, br_running = [],
     br_capacity = empty_capacity, br_runner_waiters = [], br_scheduler = new_scheduler,
     br_profiles = Map.empty, br_cache = empty_cache, br_next_flush_at = None,
     br_waiters = (\<lambda>_. []), br_next_address = 0, br_closed = (\<lambda>_. False), br_sent = []\<rparr>"

definition send_all :: "nat list \<Rightarrow> rpc_broker_error + rpc_result \<Rightarrow> broker \<Rightarrow> broker" where
  "send_all replies result b = b\<lparr>br_sent := br_sent b @ map (\<lambda>r. (r, result)) replies\<rparr>"

definition deadline_passed :: "instant option \<Rightarrow> instant \<Rightarrow> bool" where
  "deadline_passed deadline now = (case deadline of Some d \<Rightarrow> d \<le> now | None \<Rightarrow> False)"

section \<open>Loads of pending submissions\<close>

text \<open>Derived equality of routes, through the hand-written one of chain routes.\<close>

definition rpc_route_eq :: "rpc_route \<Rightarrow> rpc_route \<Rightarrow> bool" where
  "rpc_route_eq a b \<longleftrightarrow>
    chain_route_eq (rt_chain a) (rt_chain b) \<and> rt_max_calls a = rt_max_calls b
    \<and> rt_max_estimated_gas a = rt_max_estimated_gas b \<and> rt_request_timeout a = rt_request_timeout b
    \<and> rt_attempt_timeout a = rt_attempt_timeout b"

definition pending_load :: "rpc_route \<Rightarrow> broker \<Rightarrow> route_load" where
  "pending_load route b =
    foldl add_load zero_load
      (map (\<lambda>p. submission_load (ps_submission p))
        (filter (\<lambda>p. rpc_route_eq (sub_route (ps_submission p)) route) (br_pending b)))"

definition would_cross_threshold :: "rpc_submission \<Rightarrow> broker \<Rightarrow> bool" where
  "would_cross_threshold submission b =
    exceeds (add_load (pending_load (sub_route submission) b) (submission_load submission)) (sub_route submission)"

definition pending_exceeds :: "rpc_submission \<Rightarrow> bool" where
  "pending_exceeds submission = exceeds (submission_load submission) (sub_route submission)"

definition any_threshold_reached :: "broker \<Rightarrow> bool" where
  "any_threshold_reached b =
    list_ex (\<lambda>p. reaches (pending_load (sub_route (ps_submission p)) b) (sub_route (ps_submission p))) (br_pending b)"

section \<open>Completing work\<close>

definition reads_latest :: "rpc_read \<Rightarrow> bool" where
  "reads_latest read = (reuse_block_id read = Some latest_block)"

text \<open>The cache insertion of a completed read.\<close>

definition cache_completion :: "instant \<Rightarrow> work_key \<Rightarrow> rpc_read \<Rightarrow> rpc_broker_error + rpc_result \<Rightarrow> read_cache \<Rightarrow> read_cache" where
  "cache_completion now key read result c =
    (let chain_id = identity_chain_id (wk_identity key);
         (observed, c1) =
           (case reuse_block_id read of
              Some (ByNumber Latest) \<Rightarrow>
                (case reconcile_latest_cache_epoch chain_id now c of
                   (epoch, c1) \<Rightarrow> (map_option le_block_number epoch, c1))
            | Some (ByNumber (AtNumber number)) \<Rightarrow> (Some number, c)
            | Some (ByHash _ _) \<Rightarrow> (Some 0, c)
            | _ \<Rightarrow> (None, c))
     in if \<not> reads_latest read \<or> latest_is_current chain_id (wk_latest_epoch key) now c1
        then insert_read (wk_identity key) observed result c1 else c1)"

text \<open>One turn of the loop of \<open>complete_job\<close>, with the items that go back to the scheduler.\<close>

definition complete_one :: "broker_env \<Rightarrow> completion \<Rightarrow> work_item list \<times> broker \<Rightarrow> work_item list \<times> broker" where
  "complete_one env completion acc =
    (case (completion, acc) of
       ((key, result), (undispatched, b)) \<Rightarrow>
         (case br_active b key of
            None \<Rightarrow> (undispatched, b)
          | Some active \<Rightarrow>
              if result = Inl TimeoutBeforeDispatch
                \<and> wn_has_live (snapshot (be_now env) (br_waiters b (aw_waiters active)))
              then (undispatched @ [\<lparr>wi_key = key, wi_execution_route = aw_execution_route active,
                     wi_read = aw_read active, wi_origins = aw_origins active,
                     wi_waiters = aw_waiters active\<rparr>], b)
              else
                let b1 = b\<lparr>br_active := (br_active b)(key := None)\<rparr>;
                    b2 = (if is_cacheable (be_lib env) (aw_read active) \<and> \<not> isl result
                          then b1\<lparr>br_cache := cache_completion (be_now env) key (aw_read active) result (br_cache b1)\<rparr>
                          else b1)
                in (undispatched, send_all (aw_replies active) result b2)))"

definition complete_job ::
    "broker_env \<Rightarrow> completion list \<Rightarrow> request_event list \<Rightarrow> broker \<Rightarrow> broker option" where
  "complete_job env completions requests b =
    (let b1 = b\<lparr>br_profiles := apply_request_events requests (be_now env) (br_profiles b)\<rparr>;
         (undispatched, b2) = fold (complete_one env) completions ([], b1)
     in map_option (\<lambda>s. b2\<lparr>br_scheduler := s\<rparr>)
          (partition_and_admit (be_lib env) undispatched (br_scheduler b2)))"

definition expire_ready :: "broker_env \<Rightarrow> broker \<Rightarrow> broker option" where
  "expire_ready env b =
    (case expire (br_closed b) (br_waiters b) (be_now env) (br_scheduler b) of
       (completions, s) \<Rightarrow>
         let b1 = b\<lparr>br_scheduler := s\<rparr>
         in if completions = [] then Some b1 else complete_job env completions [] b1)"

section \<open>Starting work\<close>

definition job_read_ready :: "broker_env \<Rightarrow> execution_job \<Rightarrow> bool" where
  "job_read_ready env job =
    (case items job of
       [] \<Rightarrow> True
     | item # _ \<Rightarrow>
         let route = rt_chain (wi_execution_route item)
         in \<not> cr_verify_identity route \<or> list_ex (be_verified env route) (cr_endpoints route))"

definition start_slots :: "broker_env \<Rightarrow> start_mode \<Rightarrow> bool \<Rightarrow> nat \<Rightarrow> broker \<Rightarrow> capacity" where
  "start_slots env mode needs_runner job b =
    (let c = new_slots job (br_capacity b)
     in case mode of
          StartRead \<Rightarrow>
            let c1 = acquire ReadSlot job c
            in if needs_runner
                \<and> unat (held RunnerSlot c1) + length (br_runner_waiters b) < br_probe_limit b
               then acquire RunnerSlot job c1 else c1
        | StartVerify \<Rightarrow> acquire RunnerSlot job c)"

text \<open>The part of \<open>start_job\<close> after expired items are settled.\<close>

definition launch_job :: "broker_env \<Rightarrow> execution_job \<Rightarrow> start_mode \<Rightarrow> broker \<Rightarrow> broker option" where
  "launch_job env job mode b =
    (case items job of
       [] \<Rightarrow> Some b
     | first # _ \<Rightarrow>
         let route = rt_chain (wi_execution_route first) in
         (case select_route (be_order env) (be_excludes env) (be_now env) route (br_profiles b) of
            (Inl e, profiles) \<Rightarrow>
              complete_job env (map (\<lambda>item. (wi_key item, Inl e)) (items job)) [] (b\<lparr>br_profiles := profiles\<rparr>)
          | (Inr selected, profiles) \<Rightarrow>
              let needs_runner = list_ex (\<lambda>endpoint. \<not> be_verified env route endpoint) selected;
                  slots = br_next_address b
              in Some (b\<lparr>br_profiles := profiles,
                        br_capacity := start_slots env mode needs_runner slots b,
                        br_running := br_running b @ [(slots, job)],
                        br_next_address := br_next_address b + 1\<rparr>)))"

definition start_job :: "broker_env \<Rightarrow> execution_job \<Rightarrow> start_mode \<Rightarrow> broker \<Rightarrow> broker option" where
  "start_job env job mode b =
    (let overdue = item_expired (br_waiters b) (be_now env);
         completions = map (\<lambda>item. (wi_key item, Inl TimeoutBeforeDispatch)) (filter overdue (items job));
         retained = filter (\<lambda>item. \<not> overdue item) (items job)
     in Option.bind (if completions = [] then Some b else complete_job env completions [] b) (\<lambda>b1.
          if retained = [] then Some b1
          else launch_job env (case job of Aggregate _ \<Rightarrow> Aggregate retained | IndividualJob i \<Rightarrow> IndividualJob i)
                 mode b1))"

definition grant_slot :: "broker_env \<Rightarrow> slot_request \<Rightarrow> broker \<Rightarrow> broker" where
  "grant_slot env request b =
    b\<lparr>br_capacity := grant (br_closed b (sr_grant request)) (be_send_ok env (sr_grant request)) request (br_capacity b)\<rparr>"

fun pump_reads :: "nat \<Rightarrow> broker_env \<Rightarrow> broker \<Rightarrow> broker option" where
  "pump_reads 0 env b = None"
| "pump_reads (Suc fuel) env b =
    (if \<not> unat (held ReadSlot (br_capacity b)) < br_max_in_flight b then Some b
     else
       (case next_claim (br_closed b) (job_read_ready env) (br_scheduler b) of
          (None, s) \<Rightarrow> Some (b\<lparr>br_scheduler := s\<rparr>)
        | (Some (ClaimQueued job), s) \<Rightarrow>
            Option.bind (start_job env job StartRead (b\<lparr>br_scheduler := s\<rparr>)) (pump_reads fuel env)
        | (Some (ClaimResume request), s) \<Rightarrow> pump_reads fuel env (grant_slot env request (b\<lparr>br_scheduler := s\<rparr>))))"

fun pump_runners :: "nat \<Rightarrow> broker_env \<Rightarrow> broker \<Rightarrow> broker option" where
  "pump_runners 0 env b = None"
| "pump_runners (Suc fuel) env b =
    (if \<not> unat (held RunnerSlot (br_capacity b)) < br_probe_limit b then Some b
     else
       (case br_runner_waiters b of
          request # waiters \<Rightarrow> pump_runners fuel env (grant_slot env request (b\<lparr>br_runner_waiters := waiters\<rparr>))
        | [] \<Rightarrow>
            (case next_verification (br_closed b) (job_read_ready env) (br_scheduler b) of
               (None, s) \<Rightarrow> Some (b\<lparr>br_scheduler := s\<rparr>)
             | (Some job, s) \<Rightarrow>
                 Option.bind (start_job env job StartVerify (b\<lparr>br_scheduler := s\<rparr>)) (pump_runners fuel env))))"

definition pump_ready :: "broker_env \<Rightarrow> broker \<Rightarrow> broker option" where
  "pump_ready env b =
    Option.bind (expire_ready env b) (\<lambda>b1.
      let b2 = b1\<lparr>br_runner_waiters := filter (\<lambda>request. \<not> br_closed b1 (sr_grant request)) (br_runner_waiters b1)\<rparr>
      in Option.bind (pump_reads (Suc (length (rs_jobs (br_scheduler b2)))) env b2) (\<lambda>b3.
           pump_runners (Suc (length (br_runner_waiters b3) + length (rs_jobs (br_scheduler b3)))) env b3))"


section \<open>Resolving submissions\<close>

text \<open>The epoch of the latest head when a read needs one, and whether the read may share work.\<close>

definition read_epoch :: "instant \<Rightarrow> u64 \<Rightarrow> rpc_read \<Rightarrow> read_cache \<Rightarrow> latest_epoch option \<times> read_cache" where
  "read_epoch now chain_id read c =
    (if reads_latest read then reconcile_latest_cache_epoch chain_id now c else (None, c))"

definition expected_epoch :: "rpc_read \<Rightarrow> latest_epoch option \<Rightarrow> u64 option" where
  "expected_epoch read latest =
    (case reuse_block_id read of
       Some (ByNumber Latest) \<Rightarrow> map_option le_block_number latest
     | Some (ByNumber (AtNumber number)) \<Rightarrow> Some number
     | Some (ByHash _ canonical) \<Rightarrow> if canonical \<noteq> Some True then Some 0 else None
     | _ \<Rightarrow> None)"

definition resolve_dedupable :: "alloy_lib \<Rightarrow> rpc_read \<Rightarrow> latest_epoch option \<Rightarrow> bool" where
  "resolve_dedupable lib read latest \<longleftrightarrow> is_dedupable lib read \<and> (\<not> reads_latest read \<or> latest \<noteq> None)"

definition work_key_of :: "rpc_route \<Rightarrow> rpc_read \<Rightarrow> u64 \<Rightarrow> latest_epoch option \<Rightarrow> work_key" where
  "work_key_of route read nonce latest =
    \<lparr>wk_identity = identity_for_route route read, wk_route = route_key (rt_chain route),
     wk_nonce = nonce, wk_latest_epoch = latest\<rparr>"

text \<open>\<open>resolve_read\<close> after the cache had no answer: join active work, or register new work.\<close>

definition join_work ::
    "work_key \<Rightarrow> active_work \<Rightarrow> waiter_policy \<Rightarrow> nat \<Rightarrow> rpc_origin \<Rightarrow> work_item list \<times> broker
      \<Rightarrow> (work_item list \<times> broker) option" where
  "join_work key active policy reply origin acc =
    (case acc of
       (batch, b) \<Rightarrow>
         let b1 = b\<lparr>br_waiters := (br_waiters b)(aw_waiters active := br_waiters b (aw_waiters active) @ [policy]),
               br_active := (br_active b)(key \<mapsto>
                 active\<lparr>aw_replies := aw_replies active @ [reply], aw_origins := aw_origins active @ [origin]\<rparr>)\<rparr>
         in (case push_origin key origin batch of
               Some batch' \<Rightarrow> Some (batch', b1)
             | None \<Rightarrow>
                 map_option (\<lambda>(_, s). (batch, b1\<lparr>br_scheduler := s\<rparr>))
                   (attach (br_closed b1) key origin (br_scheduler b1))))"

definition register_work ::
    "work_key \<Rightarrow> rpc_route \<Rightarrow> rpc_read \<Rightarrow> waiter_policy \<Rightarrow> nat \<Rightarrow> rpc_origin \<Rightarrow> work_item list \<times> broker
      \<Rightarrow> work_item list \<times> broker" where
  "register_work key route read policy reply origin acc =
    (case acc of
       (batch, b) \<Rightarrow>
         let waiters = br_next_address b in
         (batch @ [\<lparr>wi_key = key, wi_execution_route = route, wi_read = read, wi_origins = [origin],
             wi_waiters = waiters\<rparr>],
          b\<lparr>br_waiters := (br_waiters b)(waiters := [policy]),
            br_next_address := waiters + 1,
            br_active := (br_active b)(key \<mapsto>
              \<lparr>aw_read = read, aw_execution_route = route, aw_origins = [origin], aw_replies = [reply],
               aw_waiters = waiters\<rparr>)\<rparr>))"

definition resolve_read ::
    "broker_env \<Rightarrow> rpc_route \<Rightarrow> instant option \<Rightarrow> rpc_origin \<Rightarrow> rpc_read \<times> nat \<Rightarrow> work_item list \<times> broker
      \<Rightarrow> (work_item list \<times> broker) option" where
  "resolve_read env route deadline origin read_reply acc =
    (case (read_reply, acc) of
       ((read, reply), (batch, b)) \<Rightarrow>
         let (latest, cache) = read_epoch (be_now env) (cr_chain_id (rt_chain route)) read (br_cache b);
             dedupable = resolve_dedupable (be_lib env) read latest;
             key = work_key_of route read (if dedupable then 0 else br_next_work_nonce b) latest;
             b1 = b\<lparr>br_cache := cache,
               br_next_work_nonce :=
                 (if dedupable then br_next_work_nonce b else saturating_add (br_next_work_nonce b) 1)\<rparr>;
             epoch = expected_epoch read latest;
             cached = (if is_cacheable (be_lib env) read \<and> epoch \<noteq> None
                       then lookup (wk_identity key) epoch cache else None);
             policy = \<lparr>wp_deadline = deadline, wp_attempt_timeout = rt_attempt_timeout route\<rparr>
         in (case cached of
               Some result \<Rightarrow> Some (batch, send_all [reply] result b1)
             | None \<Rightarrow>
                 (case (if dedupable then br_active b1 key else None) of
                    Some active \<Rightarrow> join_work key active policy reply origin (batch, b1)
                  | None \<Rightarrow> Some (register_work key route read policy reply origin (batch, b1)))))"

fun resolve_reads ::
    "broker_env \<Rightarrow> rpc_route \<Rightarrow> instant option \<Rightarrow> rpc_origin \<Rightarrow> (rpc_read \<times> nat) list \<Rightarrow> work_item list \<times> broker
      \<Rightarrow> (work_item list \<times> broker) option" where
  "resolve_reads env route deadline origin [] acc = Some acc"
| "resolve_reads env route deadline origin (r # rs) acc =
    Option.bind (resolve_read env route deadline origin r acc) (resolve_reads env route deadline origin rs)"

fun resolve_pending ::
    "broker_env \<Rightarrow> pending_submission list \<Rightarrow> work_item list \<times> broker \<Rightarrow> (work_item list \<times> broker) option" where
  "resolve_pending env [] acc = Some acc"
| "resolve_pending env (p # ps) acc =
    (if deadline_passed (ps_deadline p) (be_now env)
     then resolve_pending env ps (fst acc, send_all (ps_replies p) (Inl TimeoutBeforeDispatch) (snd acc))
     else
       Option.bind
         (resolve_reads env (sub_route (ps_submission p)) (ps_deadline p) (sub_origin (ps_submission p))
            (zip (sub_reads (ps_submission p)) (ps_replies p)) acc)
         (resolve_pending env ps))"

definition flush :: "broker_env \<Rightarrow> broker \<Rightarrow> broker option" where
  "flush env b =
    (let pending = br_pending b; b1 = b\<lparr>br_next_flush_at := None, br_pending := []\<rparr>
     in if pending = [] then Some b1
        else Option.bind (resolve_pending env pending ([], b1)) (\<lambda>(work, b2).
          Option.bind (partition_and_admit (be_lib env) work (br_scheduler b2)) (\<lambda>s.
            pump_ready env (b2\<lparr>br_scheduler := s\<rparr>))))"

section \<open>Events\<close>

definition enqueue :: "broker_env \<Rightarrow> rpc_submission \<Rightarrow> nat list \<Rightarrow> instant option \<Rightarrow> broker \<Rightarrow> broker" where
  "enqueue env submission replies deadline b =
    b\<lparr>br_pending := br_pending b @
         [\<lparr>ps_submission = submission, ps_replies = replies, ps_deadline = deadline\<rparr>],
      br_next_flush_at := (if br_pending b = [] then Some (be_now env + br_interval b) else br_next_flush_at b)\<rparr>"

definition submit :: "broker_env \<Rightarrow> rpc_submission \<Rightarrow> nat list \<Rightarrow> instant option \<Rightarrow> broker \<Rightarrow> broker option" where
  "submit env submission replies deadline b =
    (if deadline_passed deadline (be_now env) then Some (send_all replies (Inl TimeoutBeforeDispatch) b)
     else
       Option.bind (if would_cross_threshold submission b then flush env b else Some b) (\<lambda>b1.
         let b2 = enqueue env submission replies deadline b1
         in if pending_exceeds submission \<or> any_threshold_reached b2 then flush env b2 else Some b2))"

definition expire_pending :: "broker_env \<Rightarrow> broker \<Rightarrow> broker" where
  "expire_pending env b =
    (let (overdue, kept) = partition (\<lambda>p. deadline_passed (ps_deadline p) (be_now env)) (br_pending b);
         b1 = send_all (concat (map ps_replies overdue)) (Inl TimeoutBeforeDispatch) (b\<lparr>br_pending := kept\<rparr>)
     in if kept = [] then b1\<lparr>br_next_flush_at := None\<rparr> else b1)"

definition timer :: "broker_env \<Rightarrow> broker \<Rightarrow> broker option" where
  "timer env b =
    Option.bind (expire_ready env (expire_pending env b)) (\<lambda>b1.
      Option.bind (if deadline_passed (br_next_flush_at b1) (be_now env) then flush env b1 else Some b1)
        (pump_ready env))"

definition head_observed :: "broker_env \<Rightarrow> u64 \<Rightarrow> u64 \<Rightarrow> broker \<Rightarrow> broker option" where
  "head_observed env chain_id block_number b =
    (case observe_head chain_id block_number (be_now env) (br_cache b) of
       (usable, cache) \<Rightarrow>
         let b1 = b\<lparr>br_cache := cache\<rparr> in if usable then flush env b1 else Some b1)"

definition invalidate :: "broker_env \<Rightarrow> u64 \<Rightarrow> broker \<Rightarrow> broker option" where
  "invalidate env chain_id b = flush env (b\<lparr>br_cache := invalidate_head chain_id (br_cache b)\<rparr>)"

text \<open>A job's task drops its slots when it finishes, before the actor takes its output.\<close>

definition finish_job :: "nat \<Rightarrow> broker \<Rightarrow> broker" where
  "finish_job job b =
    b\<lparr>br_running := filter (\<lambda>(j, _). j \<noteq> job) (br_running b),
      br_capacity := drop_slots job (br_capacity b)\<rparr>"

definition job_done :: "broker_env \<Rightarrow> nat \<Rightarrow> completion list \<Rightarrow> request_event list \<Rightarrow> broker \<Rightarrow> broker option" where
  "job_done env job completions requests b =
    Option.bind (complete_job env completions requests (finish_job job b)) (pump_ready env)"

definition request_origins :: "work_key list \<Rightarrow> broker \<Rightarrow> rpc_origin list" where
  "request_origins keys b =
    add_origins [] (concat (map (\<lambda>key. case br_active b key of Some a \<Rightarrow> aw_origins a | None \<Rightarrow> []) keys))"

definition resume_job :: "slot_request \<Rightarrow> broker \<Rightarrow> broker option" where
  "resume_job request b =
    (if br_closed b (sr_grant request) then Some b
     else map_option (\<lambda>s. b\<lparr>br_scheduler := s\<rparr>)
            (admit_resume request (request_origins (sr_keys request) b) (br_scheduler b)))"

definition slot_requested :: "broker_env \<Rightarrow> slot_request \<Rightarrow> broker \<Rightarrow> broker option" where
  "slot_requested env request b =
    Option.bind
      (case sr_kind request of
         ReadSlot \<Rightarrow> resume_job request b
       | RunnerSlot \<Rightarrow> Some (b\<lparr>br_runner_waiters := br_runner_waiters b @ [request]\<rparr>))
      (pump_ready env)"

definition candidates :: "broker_env \<Rightarrow> rpc_chain_route \<Rightarrow> broker \<Rightarrow> (rpc_broker_error + url list) \<times> broker" where
  "candidates env route b =
    (case select_candidates (be_order env) (be_excludes env) (be_now env) route (br_profiles b) of
       (r, profiles) \<Rightarrow> (r, b\<lparr>br_profiles := profiles\<rparr>))"

section \<open>Shutdown\<close>

definition fail_pending :: "rpc_broker_error \<Rightarrow> broker \<Rightarrow> broker" where
  "fail_pending error b =
    send_all (concat (map ps_replies (br_pending b))) (Inl error)
      (b\<lparr>br_next_flush_at := None, br_pending := []\<rparr>)"

definition fail_ready :: "broker_env \<Rightarrow> rpc_broker_error \<Rightarrow> broker \<Rightarrow> broker option" where
  "fail_ready env error b =
    (case drain error (br_scheduler b) of
       (completions, s) \<Rightarrow>
         let b1 = b\<lparr>br_scheduler := s\<rparr>
         in if completions = [] then Some b1 else complete_job env completions [] b1)"

text \<open>The outputs of the jobs still running, in the order they finish.\<close>

fun drain_jobs ::
    "broker_env \<Rightarrow> (nat \<times> completion list \<times> request_event list) list \<Rightarrow> broker \<Rightarrow> broker option" where
  "drain_jobs env [] b = Some b"
| "drain_jobs env ((job, completions, requests) # outputs) b =
    Option.bind (complete_job env completions requests (finish_job job b)) (drain_jobs env outputs)"

text \<open>\<open>queued\<close> are the replies of the submissions still in the mailbox.\<close>

definition shutdown ::
    "broker_env \<Rightarrow> (nat \<times> completion list \<times> request_event list) list \<Rightarrow> nat list list \<Rightarrow> broker \<Rightarrow> broker option" where
  "shutdown env outputs queued b =
    Option.bind (fail_ready env ShutdownError ((fail_pending ShutdownError b)\<lparr>br_runner_waiters := []\<rparr>)) (\<lambda>b1.
    Option.bind (drain_jobs env outputs b1) (\<lambda>b2.
    Option.bind (fail_ready env ShutdownError b2) (\<lambda>b3.
      Some (send_all (concat queued) (Inl ShutdownError) b3))))"

end
