(* ===== verification/BrokerInvariants.thy ===== *)
theory BrokerInvariants
  imports Broker
begin

text \<open>
  What keeps the broker's actor correct. \<open>carried\<close> says that every read in the active table is
  carried by exactly one piece of work (queued in the scheduler, in a running job, or in the hands of
  the running handler), \<open>all_replies\<close> counts every reply channel the actor was given, and \<open>slots_ok\<close>
  bounds the running jobs that hold slots. One lemma per operation of \<open>Broker\<close> follows, then the
  step relation of the actor and what shutdown does.
\<close>

section \<open>Sums over tables\<close>

definition table_sum :: "('k \<Rightarrow> 'a \<Rightarrow> 'b multiset) \<Rightarrow> ('k \<Rightarrow> 'a option) \<Rightarrow> 'b multiset" where
  "table_sum g m = (\<Sum>k \<in> dom m. g k (the (m k)))"

lemma table_sum_empty [simp]: "table_sum g Map.empty = {#}"
  by (simp add: table_sum_def)

lemma table_sum_remove:
  assumes "finite (dom m)" "m k = Some a"
  shows "table_sum g m = g k a + table_sum g (m(k := None))"
proof -
  have "table_sum g m = g k (the (m k)) + (\<Sum>x \<in> dom m - {k}. g x (the (m x)))"
    unfolding table_sum_def by (rule sum.remove [OF assms(1)]) (use assms(2) in blast)
  moreover have "(\<Sum>x \<in> dom m - {k}. g x (the (m x))) = table_sum g (m(k := None))"
    unfolding table_sum_def by (rule sum.cong) auto
  ultimately show ?thesis using assms(2) by simp
qed

lemma table_sum_insert:
  assumes "finite (dom m)"
  shows "table_sum g (m(k \<mapsto> a)) = g k a + table_sum g (m(k := None))"
  using table_sum_remove [of "m(k \<mapsto> a)" k a g] assms by simp

section \<open>Books\<close>

definition active_tags :: "broker \<Rightarrow> work_tag multiset" where
  "active_tags b = table_sum (\<lambda>k a. {#(k, aw_waiters a)#}) (br_active b)"

definition active_replies :: "broker \<Rightarrow> nat multiset" where
  "active_replies b = table_sum (\<lambda>_ a. mset (aw_replies a)) (br_active b)"

definition pending_replies :: "broker \<Rightarrow> nat multiset" where
  "pending_replies b = mset (concat (map ps_replies (br_pending b)))"

definition sent_replies :: "broker \<Rightarrow> nat multiset" where
  "sent_replies b = mset (map fst (br_sent b))"

definition all_replies :: "broker \<Rightarrow> nat multiset" where
  "all_replies b = sent_replies b + active_replies b + pending_replies b"

definition running_work :: "broker \<Rightarrow> work_tag multiset" where
  "running_work b = sum_list (map (\<lambda>(_, job). job_work job) (br_running b))"

definition carried :: "work_tag multiset \<Rightarrow> broker \<Rightarrow> bool" where
  "carried in_hand b \<longleftrightarrow> finite (dom (br_active b))
    \<and> sched_work (br_scheduler b) + running_work b + in_hand = active_tags b
    \<and> sched_inv (br_closed b) (br_scheduler b)
    \<and> (\<forall>request \<in> sched_resumes (br_scheduler b). sr_kind request = ReadSlot)"

text \<open>The parts of the state that completing work leaves alone.\<close>

definition frame where
  "frame b = (br_interval b, br_max_in_flight b, br_probe_limit b, br_pending b, br_next_work_nonce b,
    br_running b, br_capacity b, br_runner_waiters b, br_next_flush_at b, br_waiters b,
    br_next_address b, br_closed b)"

definition settles :: "broker \<Rightarrow> broker \<Rightarrow> bool" where
  "settles b b' \<longleftrightarrow> frame b' = frame b \<and> dom (br_active b') \<subseteq> dom (br_active b)"

lemma settles_refl [simp, intro]: "settles b b"
  by (simp add: settles_def)

lemma settles_trans: "settles a b \<Longrightarrow> settles b c \<Longrightarrow> settles a c"
  unfolding settles_def by (metis order_trans)

lemma settlesD:
  assumes "settles b b'"
  shows "br_interval b' = br_interval b" "br_max_in_flight b' = br_max_in_flight b"
    "br_probe_limit b' = br_probe_limit b" "br_pending b' = br_pending b"
    "br_next_work_nonce b' = br_next_work_nonce b" "br_running b' = br_running b"
    "br_capacity b' = br_capacity b" "br_runner_waiters b' = br_runner_waiters b"
    "br_next_flush_at b' = br_next_flush_at b" "br_waiters b' = br_waiters b"
    "br_next_address b' = br_next_address b" "br_closed b' = br_closed b"
    "dom (br_active b') \<subseteq> dom (br_active b)"
  using assms by (simp_all add: settles_def frame_def)

lemma send_all_simps [simp]:
  "br_active (send_all rs r b) = br_active b" "br_scheduler (send_all rs r b) = br_scheduler b"
  "br_running (send_all rs r b) = br_running b" "br_closed (send_all rs r b) = br_closed b"
  "br_pending (send_all rs r b) = br_pending b" "br_capacity (send_all rs r b) = br_capacity b"
  "br_next_work_nonce (send_all rs r b) = br_next_work_nonce b"
  "br_next_address (send_all rs r b) = br_next_address b" "br_waiters (send_all rs r b) = br_waiters b"
  "br_runner_waiters (send_all rs r b) = br_runner_waiters b" "br_interval (send_all rs r b) = br_interval b"
  "br_max_in_flight (send_all rs r b) = br_max_in_flight b" "br_probe_limit (send_all rs r b) = br_probe_limit b"
  "br_next_flush_at (send_all rs r b) = br_next_flush_at b"
  "sent_replies (send_all rs r b) = sent_replies b + mset rs"
  by (simp_all add: send_all_def sent_replies_def comp_def)

lemma send_all_books [simp]:
  "active_tags (send_all rs r b) = active_tags b" "active_replies (send_all rs r b) = active_replies b"
  "pending_replies (send_all rs r b) = pending_replies b" "running_work (send_all rs r b) = running_work b"
  "carried X (send_all rs r b) = carried X b" "all_replies (send_all rs r b) = all_replies b + mset rs"
  by (simp_all add: active_tags_def active_replies_def pending_replies_def running_work_def carried_def all_replies_def)

lemma carried_unique:
  assumes "carried (add_mset (k, w) X) b"
  obtains a where "br_active b k = Some a" "aw_waiters a = w"
proof -
  have "(k, w) \<in># active_tags b" using assms by (simp add: carried_def flip: assms [unfolded carried_def, THEN conjunct2, THEN conjunct1])
  moreover have "finite (dom (br_active b))" using assms by (simp add: carried_def)
  ultimately have "\<exists>x \<in> dom (br_active b). (k, w) = (x, aw_waiters (the (br_active b x)))"
    by (auto simp: active_tags_def table_sum_def set_mset_sum)
  then show ?thesis using that by auto
qed

section \<open>Completing work\<close>

lemma complete_one_books:
  assumes "carried (items_work und + add_mset (k, w) X) b" "complete_one env (k, result) (und, b) = (und', b')"
  shows "carried (items_work und' + X) b' \<and> all_replies b' = all_replies b \<and> settles b b'
    \<and> br_scheduler b' = br_scheduler b"
proof -
  obtain a where a: "br_active b k = Some a" "aw_waiters a = w"
    using carried_unique [of k w "items_work und + X" b] assms(1) by auto
  have fin: "finite (dom (br_active b))" using assms(1) by (simp add: carried_def)
  show ?thesis
  proof (cases "result = Inl TimeoutBeforeDispatch \<and> wn_has_live (snapshot (be_now env) (br_waiters b (aw_waiters a)))")
    case True
    then show ?thesis using assms a by (auto simp: complete_one_def item_tag_def)
  next
    case False
    define act where "act = (br_active b)(k := None)"
    have tags: "active_tags b = add_mset (k, w) (table_sum (\<lambda>k a. {#(k, aw_waiters a)#}) act)"
      using table_sum_remove [OF fin a(1), of "\<lambda>k a. {#(k, aw_waiters a)#}"] a(2) by (simp add: active_tags_def act_def)
    have replies: "active_replies b = mset (aw_replies a) + table_sum (\<lambda>_ a. mset (aw_replies a)) act"
      using table_sum_remove [OF fin a(1), of "\<lambda>_ a. mset (aw_replies a)"] by (simp add: active_replies_def act_def)
    have b': "und' = und" "\<exists>c. b' = send_all (aw_replies a) result (b\<lparr>br_active := act, br_cache := c\<rparr>)"
      using assms(2) a False unfolding complete_one_def act_def
      by (auto simp: Let_def split: if_splits intro: exI [of _ "br_cache b"])
    then obtain c where eq: "b' = send_all (aw_replies a) result (b\<lparr>br_active := act, br_cache := c\<rparr>)" by blast
    have "carried (items_work und + X) (b\<lparr>br_active := act, br_cache := c\<rparr>)"
      using assms(1) tags fin by (simp add: carried_def active_tags_def running_work_def act_def)
    moreover have "all_replies b' = all_replies b"
      using replies
      by (simp add: eq all_replies_def active_replies_def sent_replies_def pending_replies_def send_all_def comp_def)
    moreover have "settles b b'" by (auto simp: eq settles_def frame_def act_def)
    ultimately show ?thesis using b'(1) by (simp add: eq)
  qed
qed

lemma complete_fold_books:
  "carried (items_work und + mset tags + X) b \<Longrightarrow> map fst tags = map fst cs
    \<Longrightarrow> fold (complete_one env) cs (und, b) = (und', b')
    \<Longrightarrow> carried (items_work und' + X) b' \<and> all_replies b' = all_replies b \<and> settles b b'
      \<and> br_scheduler b' = br_scheduler b"
proof (induction cs arbitrary: tags und b)
  case (Cons c cs)
  obtain k result where c: "c = (k, result)" by (cases c)
  obtain w tags' where tags: "tags = (k, w) # tags'" using Cons.prems(2) c by (cases tags) auto
  obtain und1 b1 where one: "complete_one env c (und, b) = (und1, b1)" by fastforce
  have "carried (items_work und1 + (mset tags' + X)) b1 \<and> all_replies b1 = all_replies b \<and> settles b b1
      \<and> br_scheduler b1 = br_scheduler b"
    by (rule complete_one_books [OF _ one [unfolded c]]) (use Cons.prems(1) tags in \<open>simp add: ac_simps\<close>)
  then show ?case
    using Cons.IH [of und1 tags' b1] Cons.prems tags one settles_trans [of b b1 b'] by (auto simp: ac_simps)
qed auto

lemma apply_request_events_Nil [simp]: "apply_request_events [] now ps = ps"
  by (simp add: apply_request_events_def)

lemma profiles_frame [simp]:
  "active_tags (b\<lparr>br_profiles := p\<rparr>) = active_tags b" "running_work (b\<lparr>br_profiles := p\<rparr>) = running_work b"
  "all_replies (b\<lparr>br_profiles := p\<rparr>) = all_replies b" "carried X (b\<lparr>br_profiles := p\<rparr>) = carried X b"
  "settles a (b\<lparr>br_profiles := p\<rparr>) = settles a b" "settles (b\<lparr>br_profiles := p\<rparr>) c = settles b c"
  by (simp_all add: active_tags_def running_work_def all_replies_def active_replies_def sent_replies_def
      pending_replies_def carried_def settles_def frame_def)

lemma scheduler_frame [simp]:
  "active_tags (b\<lparr>br_scheduler := s\<rparr>) = active_tags b" "running_work (b\<lparr>br_scheduler := s\<rparr>) = running_work b"
  "all_replies (b\<lparr>br_scheduler := s\<rparr>) = all_replies b"
  "settles a (b\<lparr>br_scheduler := s\<rparr>) = settles a b" "settles (b\<lparr>br_scheduler := s\<rparr>) c = settles b c"
  by (simp_all add: active_tags_def running_work_def all_replies_def active_replies_def sent_replies_def
      pending_replies_def settles_def frame_def)

lemma carried_scheduler:
  "carried X b \<Longrightarrow> sched_work s + Y = sched_work (br_scheduler b) \<Longrightarrow> sched_inv (br_closed b) s
    \<Longrightarrow> sched_resumes s \<subseteq> sched_resumes (br_scheduler b) \<Longrightarrow> carried (Y + X) (b\<lparr>br_scheduler := s\<rparr>)"
  by (auto simp: carried_def ac_simps)

lemma complete_job_books:
  assumes "carried (mset tags + X) b" "map fst tags = map fst cs" "complete_job env cs requests b = Some b'"
  shows "carried X b' \<and> all_replies b' = all_replies b \<and> settles b b'"
proof -
  let ?b1 = "b\<lparr>br_profiles := apply_request_events requests (be_now env) (br_profiles b)\<rparr>"
  obtain und b2 where fold: "fold (complete_one env) cs ([], ?b1) = (und, b2)" by fastforce
  have facts: "carried (items_work und + X) b2" "all_replies b2 = all_replies b" "settles b b2"
    using complete_fold_books [of "[]" tags X ?b1 cs env und b2] assms(1,2) fold by simp_all
  obtain s where s: "partition_and_admit (be_lib env) und (br_scheduler b2) = Some s" "b' = b2\<lparr>br_scheduler := s\<rparr>"
    using assms(3) fold by (auto simp: complete_job_def)
  have inv: "sched_inv (br_closed b2) (br_scheduler b2)" using facts(1) by (simp add: carried_def)
  have "sched_inv (br_closed b2) s"
    using admit_chunks_inv [OF inv] s(1) by (auto simp: partition_and_admit_def)
  then have "carried X b'"
    using facts(1) partition_and_admit_work [OF inv s(1)] partition_and_admit_resumes [OF s(1)] s(2)
    by (auto simp: carried_def ac_simps)
  then show ?thesis using facts s(2) by simp
qed


section \<open>Overdue work is not readmitted\<close>

lemma merged_deadline_bounds:
  "latest_deadline (Some c) ws = Some d \<Longrightarrow> c \<le> d \<and> (\<forall>r \<in> set ws. \<exists>e. wp_deadline r = Some e \<and> e \<le> d)"
proof (induction ws arbitrary: c)
  case (Cons r ws)
  then obtain e where e: "wp_deadline r = Some e" "latest_deadline (Some (max c e)) ws = Some d"
    by (auto split: option.splits simp: max.commute)
  then show ?case using Cons.IH [of "max c e"] by auto
qed simp

lemma snapshot_loop_overdue:
  "(\<And>r. r \<in> set ws \<Longrightarrow> \<exists>e. wp_deadline r = Some e \<and> e \<le> now) \<Longrightarrow>
    snapshot_loop now latest unbounded shortest ws = (latest, unbounded, shortest)"
proof (induction ws)
  case (Cons r ws)
  then obtain e where "wp_deadline r = Some e" "e \<le> now" by force
  then show ?case using Cons by simp
qed simp

lemma overdue_not_live:
  assumes "merged_deadline ws = Some d" "d \<le> now"
  shows "\<not> wn_has_live (snapshot now ws)"
proof (cases ws)
  case (Cons r rs)
  then obtain e where e: "wp_deadline r = Some e" "latest_deadline (Some e) rs = Some d"
    using assms(1) by (auto simp: merged_deadline_def split: option.splits)
  then have "\<forall>r \<in> set ws. \<exists>e. wp_deadline r = Some e \<and> e \<le> now"
    using merged_deadline_bounds [OF e(2)] assms(2) Cons by (fastforce intro: order_trans)
  then show ?thesis using snapshot_loop_overdue [of ws now None False None] by (simp add: snapshot_def)
qed (use assms in \<open>simp add: merged_deadline_def\<close>)

text \<open>Completions that retire their work: no live waiter is told of a missed deadline.\<close>

definition retires :: "broker_env \<Rightarrow> broker \<Rightarrow> completion list \<Rightarrow> bool" where
  "retires env b cs \<longleftrightarrow> (\<forall>(k, result) \<in> set cs. result = Inl TimeoutBeforeDispatch \<longrightarrow>
    (\<forall>a. br_active b k = Some a \<longrightarrow> \<not> wn_has_live (snapshot (be_now env) (br_waiters b (aw_waiters a)))))"

lemma retires_fold:
  "retires env b cs \<Longrightarrow> \<exists>act c sent. fold (complete_one env) cs (und, b)
      = (und, b\<lparr>br_active := act, br_cache := c, br_sent := sent\<rparr>)
    \<and> (\<forall>k. act k = (if k \<in> fst ` set cs then None else br_active b k))"
proof (induction cs arbitrary: b)
  case Nil
  show ?case by (rule exI [of _ "br_active b"], rule exI [of _ "br_cache b"], rule exI [of _ "br_sent b"]) simp
next
  case (Cons c cs)
  obtain k result where c: "c = (k, result)" by (cases c)
  obtain cc sent where one: "complete_one env c (und, b)
      = (und, b\<lparr>br_active := (br_active b)(k := None), br_cache := cc, br_sent := sent\<rparr>)"
  proof (cases "br_active b k")
    case None
    then have "(br_active b)(k := None) = br_active b" by auto
    then show ?thesis using that [where cc = "br_cache b" and sent = "br_sent b"] None by (simp add: complete_one_def c)
  next
    case (Some a)
    then have "\<not> (result = Inl TimeoutBeforeDispatch
        \<and> wn_has_live (snapshot (be_now env) (br_waiters b (aw_waiters a))))"
      using Cons.prems by (simp add: retires_def c)
    then show ?thesis
      using that [where cc = "if is_cacheable (be_lib env) (aw_read a) \<and> \<not> isl result
          then cache_completion (be_now env) k (aw_read a) result (br_cache b) else br_cache b"
          and sent = "br_sent b @ map (\<lambda>r. (r, result)) (aw_replies a)"] Some
      by (cases b) (auto simp: complete_one_def c Let_def send_all_def split: if_splits)
  qed
  have "retires env (b\<lparr>br_active := (br_active b)(k := None), br_cache := cc, br_sent := sent\<rparr>) cs"
    using Cons.prems unfolding retires_def by (fastforce split: if_splits)
  from Cons.IH [OF this] show ?case using one c by fastforce
qed

lemma complete_job_retires:
  assumes "retires env b cs"
  obtains b' where "complete_job env cs requests b = Some b'" "br_scheduler b' = br_scheduler b"
    "\<And>k. br_active b' k = (if k \<in> fst ` set cs then None else br_active b k)" "settles b b'"
proof -
  let ?b1 = "b\<lparr>br_profiles := apply_request_events requests (be_now env) (br_profiles b)\<rparr>"
  have "retires env ?b1 cs" using assms by (simp add: retires_def)
  from retires_fold [OF this, of "[]"] obtain act c sent where
    "fold (complete_one env) cs ([], ?b1) = ([], ?b1\<lparr>br_active := act, br_cache := c, br_sent := sent\<rparr>)"
    "\<And>k. act k = (if k \<in> fst ` set cs then None else br_active b k)" by auto
  then show ?thesis
    by (intro that [of "?b1\<lparr>br_active := act, br_cache := c, br_sent := sent\<rparr>"])
      (auto simp: complete_job_def settles_def frame_def split: if_splits)
qed

lemma overdue_retires:
  assumes "carried (items_work is + X) b" "\<And>i. i \<in> set is \<Longrightarrow> item_expired (br_waiters b) (be_now env) i"
  shows "retires env b (map (\<lambda>i. (wi_key i, Inl TimeoutBeforeDispatch)) is)"
proof -
  have "\<not> wn_has_live (snapshot (be_now env) (br_waiters b (aw_waiters a)))"
    if i: "i \<in> set is" and a: "br_active b (wi_key i) = Some a" for i a
  proof -
    have "item_tag i \<in># items_work is" using i by (simp add: items_work_def)
    then obtain Y where "items_work is = add_mset (wi_key i, wi_waiters i) Y"
      by (metis item_tag_def mset_add)
    then have "aw_waiters a = wi_waiters i"
      using carried_unique [of "wi_key i" "wi_waiters i" "Y + X" b] assms(1) a by auto
    then show ?thesis using assms(2) [OF i] overdue_not_live
      by (auto simp: item_expired_def split: option.splits)
  qed
  then show ?thesis by (auto simp: retires_def)
qed

lemma tags_of_items:
  "items_work is = mset (map item_tag is)" "map fst (map item_tag is) = map fst (map (\<lambda>i. (wi_key i, r)) is)"
  by (simp_all add: items_work_def item_tag_def)

text \<open>Settling items that are overdue at \<open>now\<close>, as expiry and the start of a job do.\<close>

lemma complete_overdue:
  assumes "carried (items_work is + X) b" "\<And>i. i \<in> set is \<Longrightarrow> item_expired (br_waiters b) (be_now env) i"
  obtains b' where
    "complete_job env (map (\<lambda>i. (wi_key i, Inl TimeoutBeforeDispatch)) is) [] b = Some b'"
    "carried X b'" "all_replies b' = all_replies b" "settles b b'" "br_scheduler b' = br_scheduler b"
proof -
  obtain b' where b': "complete_job env (map (\<lambda>i. (wi_key i, Inl TimeoutBeforeDispatch)) is) [] b = Some b'"
    "br_scheduler b' = br_scheduler b" "settles b b'"
    by (rule complete_job_retires [OF overdue_retires [OF assms]])
  have "carried X b' \<and> all_replies b' = all_replies b \<and> settles b b'"
    by (rule complete_job_books [OF _ _ b'(1), of "map item_tag is"])
      (use assms(1) in \<open>simp_all add: tags_of_items item_tag_def\<close>)
  then show ?thesis using that b' by blast
qed

lemma expire_ready_books:
  assumes "carried X b"
  obtains b' where "expire_ready env b = Some b'" "carried X b'" "all_replies b' = all_replies b" "settles b b'"
    "length (rs_jobs (br_scheduler b')) \<le> length (rs_jobs (br_scheduler b))"
proof -
  have inv: "sched_inv (br_closed b) (br_scheduler b)" using assms by (simp add: carried_def)
  obtain cs s where ex: "expire (br_closed b) (br_waiters b) (be_now env) (br_scheduler b) = (cs, s)" by fastforce
  obtain "is" where "is": "cs = map (\<lambda>i. (wi_key i, Inl TimeoutBeforeDispatch)) is"
    "\<And>i. i \<in> set is \<Longrightarrow> item_expired (br_waiters b) (be_now env) i"
    "sched_work s + items_work is = sched_work (br_scheduler b)"
    "length (rs_jobs s) \<le> length (rs_jobs (br_scheduler b))" "sched_inv (br_closed b) s"
    using expire_work [OF inv ex] by blast
  define b1 where "b1 = b\<lparr>br_scheduler := s\<rparr>"
  have b1: "carried (items_work is + X) b1" "all_replies b1 = all_replies b" "settles b b1"
    using carried_scheduler [OF assms "is"(3,5) expire_resumes [OF ex]] by (simp_all add: b1_def)
  show ?thesis
  proof (cases "is = []")
    case True
    then show ?thesis using that b1 ex "is" by (simp add: expire_ready_def b1_def)
  next
    case False
    have over: "item_expired (br_waiters b1) (be_now env) i" if "i \<in> set is" for i
      using "is"(2) [OF that] by (simp add: b1_def)
    obtain b' where b': "complete_job env (map (\<lambda>i. (wi_key i, Inl TimeoutBeforeDispatch)) is) [] b1 = Some b'"
      "carried X b'" "all_replies b' = all_replies b1" "settles b1 b'" "br_scheduler b' = br_scheduler b1"
      using complete_overdue [OF b1(1) over] by blast
    show ?thesis
    proof (rule that)
      show "expire_ready env b = Some b'" using ex False b'(1) by (simp add: expire_ready_def "is"(1) flip: b1_def)
      show "settles b b'" by (rule settles_trans [OF b1(3) b'(4)])
      show "length (rs_jobs (br_scheduler b')) \<le> length (rs_jobs (br_scheduler b))"
        using "is"(4) by (simp add: b'(5)) (simp add: b1_def)
    qed (simp_all add: b'(2,3) b1(2))
  qed
qed


section \<open>Starting work\<close>

definition slots_ok :: "broker \<Rightarrow> bool" where
  "slots_ok b \<longleftrightarrow> exact (br_capacity b)
    \<and> dom (cap_slots (br_capacity b)) = fst ` set (br_running b)
    \<and> distinct (map fst (br_running b)) \<and> (\<forall>j \<in> fst ` set (br_running b). j < br_next_address b)
    \<and> card (holders ReadSlot (br_capacity b)) \<le> br_max_in_flight b
    \<and> card (holders RunnerSlot (br_capacity b)) \<le> br_probe_limit b
    \<and> br_max_in_flight b < 2 ^ 64 \<and> br_probe_limit b < 2 ^ 64
    \<and> (\<forall>request \<in> set (br_runner_waiters b). sr_kind request = RunnerSlot)"

text \<open>The parts of the state that pumping leaves alone.\<close>

definition pump_frame where
  "pump_frame b = (br_interval b, br_max_in_flight b, br_probe_limit b, br_pending b, br_next_work_nonce b,
    br_next_flush_at b, br_waiters b, br_closed b)"

definition pumps :: "broker \<Rightarrow> broker \<Rightarrow> bool" where
  "pumps b b' \<longleftrightarrow> pump_frame b' = pump_frame b \<and> dom (br_active b') \<subseteq> dom (br_active b)"

lemma pumps_refl [simp, intro]: "pumps b b" by (simp add: pumps_def)

lemma pumps_trans: "pumps a b \<Longrightarrow> pumps b c \<Longrightarrow> pumps a c"
  unfolding pumps_def by (metis order_trans)

lemma settles_pumps: "settles b b' \<Longrightarrow> pumps b b'"
  by (simp add: pumps_def pump_frame_def settlesD)

lemma pumpsD:
  assumes "pumps b b'"
  shows "br_interval b' = br_interval b" "br_max_in_flight b' = br_max_in_flight b"
    "br_probe_limit b' = br_probe_limit b" "br_pending b' = br_pending b"
    "br_next_work_nonce b' = br_next_work_nonce b" "br_next_flush_at b' = br_next_flush_at b"
    "br_waiters b' = br_waiters b" "br_closed b' = br_closed b" "dom (br_active b') \<subseteq> dom (br_active b)"
  using assms by (simp_all add: pumps_def pump_frame_def)

lemma slots_ok_settles: "settles b b' \<Longrightarrow> slots_ok b' = slots_ok b"
  by (simp add: slots_ok_def settlesD)

lemma slots_ok_held:
  assumes "slots_ok b"
  shows "unat (held ReadSlot (br_capacity b)) = card (holders ReadSlot (br_capacity b))"
    "unat (held RunnerSlot (br_capacity b)) = card (holders RunnerSlot (br_capacity b))"
  using assms by (auto simp: slots_ok_def intro!: exact_held)

lemma card_insert_le_Suc: "card (insert x A) \<le> Suc (card A)"
  by (cases "finite A") (simp_all add: card_insert_if)

lemma start_slots_ok:
  assumes ok: "slots_ok b"
    and room: "case mode of StartRead \<Rightarrow> card (holders ReadSlot (br_capacity b)) < br_max_in_flight b
      | StartVerify \<Rightarrow> card (holders RunnerSlot (br_capacity b)) < br_probe_limit b"
    and c_def: "c = start_slots env mode needs (br_next_address b) b"
  shows "exact c" "dom (cap_slots c) = insert (br_next_address b) (dom (cap_slots (br_capacity b)))"
    "card (holders ReadSlot c) \<le> br_max_in_flight b" "card (holders RunnerSlot c) \<le> br_probe_limit b"
proof -
  let ?job = "br_next_address b" and ?c = "br_capacity b"
  have fresh: "cap_slots ?c ?job = None"
    using ok unfolding slots_ok_def by (metis domIff less_irrefl)
  define n where "n = new_slots ?job ?c"
  have n: "exact n" "cap_slots n = (cap_slots ?c)(?job \<mapsto> \<lparr>js_read = False, js_runner = False\<rparr>)"
    "holders k n = holders k ?c" for k
    using ok exact_new_slots [OF _ fresh] not_in_holders [OF fresh]
    by (auto simp: n_def slots_ok_def new_slots_def holders_store flag_def split: slot_kind.split)
  define r where "r = acquire ReadSlot ?job n"
  have slots: "cap_slots (acquire k j m) j \<noteq> None \<longleftrightarrow> cap_slots m j \<noteq> None"
    "dom (cap_slots (acquire k j m)) = dom (cap_slots m)" for k j m
    by (auto simp: acquire_def split: option.split)
  have dom: "dom (cap_slots n) = insert ?job (dom (cap_slots ?c))" by (auto simp: n(2))
  have r: "exact r" "holders ReadSlot r = insert ?job (holders ReadSlot ?c)"
    "holders RunnerSlot r = holders RunnerSlot ?c"
    using n by (auto simp: r_def holders_acquire)
  have runner: "unat (held RunnerSlot r) = card (holders RunnerSlot ?c)"
    using r ok by (subst exact_held) (auto simp: slots_ok_def)
  have alive: "cap_slots r ?job \<noteq> None" using slots(1) n(2) by (auto simp: r_def)
  show "exact c" using r n by (auto simp: c_def start_slots_def Let_def r_def n_def split: start_mode.split)
  show "dom (cap_slots c) = insert ?job (dom (cap_slots ?c))"
    using dom slots(2) by (auto simp: c_def start_slots_def Let_def n_def split: start_mode.split)
  have more: "card (insert ?job A) \<le> m" if "card A < m" for A :: "nat set" and m
    using card_insert_le_Suc [of ?job A] that by linarith
  show "card (holders ReadSlot c) \<le> br_max_in_flight b"
    using room ok r(2) n(3) more
    by (auto simp: c_def start_slots_def Let_def holders_acquire slots_ok_def r_def n_def split: start_mode.splits)
  show "card (holders RunnerSlot c) \<le> br_probe_limit b"
    using room ok r(3) n(3) more runner alive
    by (auto simp: c_def start_slots_def Let_def holders_acquire slots_ok_def r_def n_def split: start_mode.splits)
qed

definition mode_room :: "start_mode \<Rightarrow> broker \<Rightarrow> bool" where
  "mode_room mode b = (case mode of StartRead \<Rightarrow> card (holders ReadSlot (br_capacity b)) < br_max_in_flight b
      | StartVerify \<Rightarrow> card (holders RunnerSlot (br_capacity b)) < br_probe_limit b)"

text \<open>An operation of pumping: it returns, keeps the books, and adds nothing to the scheduler.\<close>

definition pumped :: "work_tag multiset \<Rightarrow> broker \<Rightarrow> broker option \<Rightarrow> bool" where
  "pumped X b r \<longleftrightarrow> (\<exists>b'. r = Some b' \<and> carried X b' \<and> all_replies b' = all_replies b \<and> slots_ok b' \<and> pumps b b'
    \<and> br_runner_waiters b' = br_runner_waiters b
    \<and> length (rs_jobs (br_scheduler b')) \<le> length (rs_jobs (br_scheduler b)))"

lemma select_route_error:
  "select_route order excludes now route ps = (Inl e, qs) \<Longrightarrow> e = NoEndpoint (cr_chain_id route)"
  by (auto simp: select_route_def eligible_endpoints_def split: prod.splits sum.splits if_splits)

lemma launch_job_pumped:
  assumes carried: "carried (job_work job + X) b" and ok: "slots_ok b" and room: "mode_room mode b"
  shows "pumped X b (launch_job env job mode b)"
proof (cases "items job")
  case Nil
  then show ?thesis using assms by (simp add: pumped_def launch_job_def job_work_def)
next
  case (Cons first rest)
  let ?route = "rt_chain (wi_execution_route first)"
  obtain r ps where sel: "select_route (be_order env) (be_excludes env) (be_now env) ?route (br_profiles b) = (r, ps)"
    by fastforce
  show ?thesis
  proof (cases r)
    case (Inl e)
    let ?b1 = "b\<lparr>br_profiles := ps\<rparr>" and ?cs = "map (\<lambda>item. (wi_key item, Inl e)) (items job)"
    have "e \<noteq> TimeoutBeforeDispatch" using select_route_error sel Inl by fastforce
    then have "retires env ?b1 ?cs" by (auto simp: retires_def)
    then obtain b' where b': "complete_job env ?cs [] ?b1 = Some b'" "br_scheduler b' = br_scheduler ?b1" "settles ?b1 b'"
      using complete_job_retires by metis
    have "carried X b' \<and> all_replies b' = all_replies ?b1 \<and> settles ?b1 b'"
      by (rule complete_job_books [OF _ _ b'(1), of "map item_tag (items job)"])
        (use carried in \<open>simp_all add: tags_of_items item_tag_def job_work_def\<close>)
    moreover have "launch_job env job mode b = Some b'" using Cons sel Inl b'(1) by (simp add: launch_job_def)
    ultimately show ?thesis using b' ok settlesD(8) [OF b'(3)]
      by (auto simp: pumped_def slots_ok_settles settles_pumps)
  next
    case (Inr selected)
    define needs where "needs = list_ex (\<lambda>endpoint. \<not> be_verified env ?route endpoint) selected"
    define c where "c = start_slots env mode needs (br_next_address b) b"
    define b' where "b' = b\<lparr>br_profiles := ps, br_capacity := c,
      br_running := br_running b @ [(br_next_address b, job)], br_next_address := br_next_address b + 1\<rparr>"
    have res: "launch_job env job mode b = Some b'"
      using Cons sel Inr by (simp add: launch_job_def Let_def needs_def c_def b'_def)
    note slots = start_slots_ok [OF ok room [unfolded mode_room_def] c_def]
    have "slots_ok b'" using ok slots by (auto simp: slots_ok_def b'_def)
    moreover have "carried X b'"
      using carried by (auto simp: carried_def b'_def active_tags_def running_work_def ac_simps)
    moreover have "all_replies b' = all_replies b"
      by (simp add: b'_def all_replies_def active_replies_def sent_replies_def pending_replies_def)
    moreover have "pumps b b'" by (simp add: pumps_def pump_frame_def b'_def)
    ultimately show ?thesis using res by (auto simp: pumped_def b'_def)
  qed
qed

lemma pumped_bind:
  assumes "pumped X b r" "\<And>b1. r = Some b1 \<Longrightarrow> carried X b1 \<Longrightarrow> slots_ok b1 \<Longrightarrow> pumps b b1 \<Longrightarrow> pumped Y b1 (f b1)"
  shows "pumped Y b (Option.bind r f)"
proof -
  obtain b1 where b1: "r = Some b1" "carried X b1" "all_replies b1 = all_replies b" "slots_ok b1" "pumps b b1"
    "br_runner_waiters b1 = br_runner_waiters b"
    "length (rs_jobs (br_scheduler b1)) \<le> length (rs_jobs (br_scheduler b))"
    using assms(1) by (auto simp: pumped_def)
  have "pumped Y b1 (f b1)" using assms(2) b1 by blast
  then show ?thesis using b1 pumps_trans [OF b1(5)] by (auto simp: pumped_def)
qed

lemma start_job_pumped:
  assumes carried: "carried (job_work job + X) b" and ok: "slots_ok b" and room: "mode_room mode b"
  shows "pumped X b (start_job env job mode b)"
proof -
  define overdue where "overdue = item_expired (br_waiters b) (be_now env)"
  define es where "es = filter overdue (items job)"
  define vs where "vs = filter (\<lambda>i. \<not> overdue i) (items job)"
  define cs :: "completion list" where "cs = map (\<lambda>i. (wi_key i, Inl TimeoutBeforeDispatch)) es"
  have work: "items_work es + items_work vs = job_work job"
    by (simp add: es_def vs_def job_work_def items_work_filter)
  have first: "pumped (items_work vs + X) b (if cs = [] then Some b else complete_job env cs [] b)
      \<and> (\<forall>b1. (if cs = [] then Some b else complete_job env cs [] b) = Some b1 \<longrightarrow> br_capacity b1 = br_capacity b)"
  proof (cases "es = []")
    case True
    then show ?thesis using carried ok work by (simp add: pumped_def cs_def)
  next
    case False
    have "carried (items_work es + (items_work vs + X)) b" using carried work by (simp add: ac_simps)
    then obtain b1 where b1: "complete_job env cs [] b = Some b1" "carried (items_work vs + X) b1"
      "all_replies b1 = all_replies b" "settles b b1" "br_scheduler b1 = br_scheduler b"
      unfolding cs_def by (rule complete_overdue) (auto simp: es_def overdue_def)
    then show ?thesis using False ok settlesD(7,8) [OF b1(4)]
      by (auto simp: pumped_def cs_def slots_ok_settles settles_pumps)
  qed
  have rest: "job_work (case job of Aggregate _ \<Rightarrow> Aggregate vs | IndividualJob i \<Rightarrow> IndividualJob i) = items_work vs"
    if "vs \<noteq> []" using that by (cases job) (auto simp: vs_def items_def split: if_splits)
  have "start_job env job mode b = Option.bind (if cs = [] then Some b else complete_job env cs [] b) (\<lambda>b1.
      if vs = [] then Some b1
      else launch_job env (case job of Aggregate _ \<Rightarrow> Aggregate vs | IndividualJob i \<Rightarrow> IndividualJob i) mode b1)"
    unfolding start_job_def Let_def overdue_def es_def vs_def cs_def ..
  moreover have "pumped X b (Option.bind (if cs = [] then Some b else complete_job env cs [] b) (\<lambda>b1.
      if vs = [] then Some b1
      else launch_job env (case job of Aggregate _ \<Rightarrow> Aggregate vs | IndividualJob i \<Rightarrow> IndividualJob i) mode b1))"
  proof (rule pumped_bind [OF first [THEN conjunct1]])
    fix b1
    assume b1: "(if cs = [] then Some b else complete_job env cs [] b) = Some b1"
      "carried (items_work vs + X) b1" "slots_ok b1" "pumps b b1"
    have "mode_room mode b1" using room first b1 pumpsD [OF b1(4)] by (cases mode) (simp_all add: mode_room_def)
    then show "pumped X b1 (if vs = [] then Some b1
        else launch_job env (case job of Aggregate _ \<Rightarrow> Aggregate vs | IndividualJob i \<Rightarrow> IndividualJob i) mode b1)"
      using b1 rest launch_job_pumped by (auto simp: pumped_def [of X b1 "Some b1"])
  qed
  ultimately show ?thesis by simp
qed


section \<open>Pumping\<close>

lemma slots_ok_grant:
  assumes ok: "slots_ok b" and room: "card (holders (sr_kind request) (br_capacity b))
      < (case sr_kind request of ReadSlot \<Rightarrow> br_max_in_flight b | RunnerSlot \<Rightarrow> br_probe_limit b)"
  shows "slots_ok (grant_slot env request b)"
proof -
  let ?c = "br_capacity b" and ?c' = "br_capacity (grant_slot env request b)"
  have exact: "exact ?c'" using ok by (auto simp: grant_slot_def slots_ok_def)
  have dom: "dom (cap_slots ?c') = dom (cap_slots ?c)"
    by (auto simp: grant_slot_def grant_def acquire_def release_def Let_def split: option.split if_splits)
  have fin: "finite (holders k ?c)" for k using ok accounts_finite by (auto simp: slots_ok_def exact_def)
  have le: "card (holders k ?c') \<le> Suc (card (holders k ?c))" for k
    using card_insert_le_Suc [of "sr_slots request" "holders k ?c"] card_Diff1_le [of "holders k ?c" "sr_slots request"]
    by (auto simp: grant_slot_def holders_grant)
  have same: "holders k ?c' = holders k ?c" if "k \<noteq> sr_kind request" for k
    using that by (auto simp: grant_slot_def holders_grant)
  have "card (holders ReadSlot ?c') \<le> br_max_in_flight b"
    using room ok le [of ReadSlot] same [of ReadSlot] by (cases "sr_kind request") (auto simp: slots_ok_def)
  moreover have "card (holders RunnerSlot ?c') \<le> br_probe_limit b"
    using room ok le [of RunnerSlot] same [of RunnerSlot] by (cases "sr_kind request") (auto simp: slots_ok_def)
  ultimately show ?thesis using ok exact dom by (auto simp: slots_ok_def grant_slot_def)
qed

lemma grant_slot_frame [simp]:
  "all_replies (grant_slot env request b) = all_replies b" "carried X (grant_slot env request b) = carried X b"
  "br_scheduler (grant_slot env request b) = br_scheduler b" "pumps b (grant_slot env request b)"
  "br_runner_waiters (grant_slot env request b) = br_runner_waiters b"
  by (simp_all add: grant_slot_def all_replies_def active_replies_def sent_replies_def pending_replies_def
      carried_def active_tags_def running_work_def pumps_def pump_frame_def)

text \<open>What a run of pumping guarantees; runner waiters may be served.\<close>

definition drives :: "work_tag multiset \<Rightarrow> broker \<Rightarrow> broker option \<Rightarrow> bool" where
  "drives X b r \<longleftrightarrow> (\<exists>b'. r = Some b' \<and> carried X b' \<and> all_replies b' = all_replies b \<and> slots_ok b' \<and> pumps b b')"

lemma drives_trans:
  assumes "drives X b1 r" "all_replies b1 = all_replies b" "pumps b b1"
  shows "drives X b r"
  using assms pumps_trans [OF assms(3)] by (auto simp: drives_def)

lemma pump_reads_drives:
  "length (rs_jobs (br_scheduler b)) < fuel \<Longrightarrow> carried X b \<Longrightarrow> slots_ok b \<Longrightarrow>
    drives X b (pump_reads fuel env b)"
proof (induction fuel arbitrary: b)
  case (Suc fuel)
  show ?case
  proof (cases "unat (held ReadSlot (br_capacity b)) < br_max_in_flight b")
    case False
    then show ?thesis using Suc.prems by (simp add: drives_def)
  next
    case True
    then have room: "card (holders ReadSlot (br_capacity b)) < br_max_in_flight b"
      by (simp add: slots_ok_held [OF Suc.prems(3)])
    have inv: "sched_inv (br_closed b) (br_scheduler b)" using Suc.prems(2) by (simp add: carried_def)
    obtain c s where claim: "next_claim (br_closed b) (job_read_ready env) (br_scheduler b) = (c, s)" by fastforce
    note work = next_claim_work [OF inv claim]
    define b1 where "b1 = b\<lparr>br_scheduler := s\<rparr>"
    have b1: "carried ((case c of Some d \<Rightarrow> claim_work d | None \<Rightarrow> {#}) + X) b1" "all_replies b1 = all_replies b"
      "pumps b b1" "br_capacity b1 = br_capacity b" "br_max_in_flight b1 = br_max_in_flight b" "br_scheduler b1 = s"
      using carried_scheduler [OF Suc.prems(2) work(1,4) next_claim_resumes(1) [OF claim]]
      by (simp_all add: b1_def pumps_def pump_frame_def)
    have ok1: "slots_ok b1" using Suc.prems(3) by (simp add: b1_def slots_ok_def)
    show ?thesis
    proof (cases c)
      case None
      have "pump_reads (Suc fuel) env b = Some b1" using True claim None by (simp add: b1_def)
      then show ?thesis using b1 ok1 None by (simp add: drives_def)
    next
      case (Some d)
      have less: "length (rs_jobs s) < fuel" using work(2) Some Suc.prems(1) by simp
      show ?thesis
      proof (cases d)
        case (ClaimQueued job)
        have "pumped X b1 (start_job env job StartRead b1)"
          by (rule start_job_pumped) (use b1 ok1 room Some ClaimQueued in \<open>simp_all add: claim_work_def mode_room_def\<close>)
        then obtain b2 where b2: "start_job env job StartRead b1 = Some b2" "carried X b2"
          "all_replies b2 = all_replies b1" "slots_ok b2" "pumps b1 b2" "length (rs_jobs (br_scheduler b2)) \<le> length (rs_jobs s)"
          using b1(6) by (auto simp: pumped_def)
        have "drives X b2 (pump_reads fuel env b2)" using Suc.IH [OF _ b2(2,4)] b2(6) less by simp
        then have "drives X b (pump_reads fuel env b2)"
          by (rule drives_trans) (use b2 b1 pumps_trans [OF b1(3) b2(5)] in \<open>simp_all\<close>)
        moreover have "pump_reads (Suc fuel) env b = pump_reads fuel env b2"
          using True claim Some ClaimQueued b2(1) by (simp flip: b1_def)
        ultimately show ?thesis by simp
      next
        case (ClaimResume request)
        define b2 where "b2 = grant_slot env request b1"
        have "sr_kind request = ReadSlot"
          using next_claim_resumes(2) [OF claim] Suc.prems(2) Some ClaimResume by (simp add: carried_def)
        then have ok2: "slots_ok b2" unfolding b2_def using room b1 by (intro slots_ok_grant [OF ok1]) simp
        have "carried X b2" using b1(1) Some ClaimResume by (simp add: b2_def claim_work_def)
        then have "drives X b2 (pump_reads fuel env b2)" using Suc.IH [of b2] ok2 less b1(6) by (simp add: b2_def)
        then have "drives X b (pump_reads fuel env b2)"
          by (rule drives_trans) (use b1 pumps_trans [OF b1(3), of b2] in \<open>simp_all add: b2_def\<close>)
        moreover have "pump_reads (Suc fuel) env b = pump_reads fuel env b2"
          using True claim Some ClaimResume by (simp add: b2_def flip: b1_def)
        ultimately show ?thesis by simp
      qed
    qed
  qed
qed simp

lemma pump_runners_drives:
  "length (br_runner_waiters b) + length (rs_jobs (br_scheduler b)) < fuel \<Longrightarrow> carried X b \<Longrightarrow> slots_ok b \<Longrightarrow>
    drives X b (pump_runners fuel env b)"
proof (induction fuel arbitrary: b)
  case (Suc fuel)
  show ?case
  proof (cases "unat (held RunnerSlot (br_capacity b)) < br_probe_limit b")
    case False
    then show ?thesis using Suc.prems by (simp add: drives_def)
  next
    case True
    then have room: "card (holders RunnerSlot (br_capacity b)) < br_probe_limit b"
      by (simp add: slots_ok_held [OF Suc.prems(3)])
    show ?thesis
    proof (cases "br_runner_waiters b")
      case (Cons request waiters)
      define b1 where "b1 = b\<lparr>br_runner_waiters := waiters\<rparr>"
      define b2 where "b2 = grant_slot env request b1"
      have "sr_kind request = RunnerSlot" "slots_ok b1"
        using Suc.prems(3) Cons by (simp_all add: slots_ok_def b1_def)
      then have ok2: "slots_ok b2" unfolding b2_def using room by (intro slots_ok_grant) (simp_all add: b1_def)
      have b1: "carried X b1" "all_replies b1 = all_replies b" "pumps b b1"
        using Suc.prems(2) by (simp_all add: b1_def carried_def active_tags_def running_work_def all_replies_def
            active_replies_def sent_replies_def pending_replies_def pumps_def pump_frame_def)
      have "drives X b2 (pump_runners fuel env b2)"
        using Suc.IH [of b2] Suc.prems(1) ok2 b1 Cons by (simp add: b2_def b1_def)
      then have "drives X b (pump_runners fuel env b2)"
        by (rule drives_trans) (use b1 pumps_trans [OF b1(3), of b2] in \<open>simp_all add: b2_def\<close>)
      then show ?thesis using True Cons by (simp add: b2_def b1_def)
    next
      case Nil
      have inv: "sched_inv (br_closed b) (br_scheduler b)" using Suc.prems(2) by (simp add: carried_def)
      obtain j s where claim: "next_verification (br_closed b) (job_read_ready env) (br_scheduler b) = (j, s)"
        by fastforce
      note work = next_verification_work [OF inv claim]
      define b1 where "b1 = b\<lparr>br_scheduler := s\<rparr>"
      have b1: "carried ((case j of Some job \<Rightarrow> job_work job | None \<Rightarrow> {#}) + X) b1" "all_replies b1 = all_replies b"
        "pumps b b1" "br_capacity b1 = br_capacity b" "br_probe_limit b1 = br_probe_limit b" "br_scheduler b1 = s"
        using carried_scheduler [OF Suc.prems(2) work(1,4) next_verification_resumes [OF claim]]
        by (simp_all add: b1_def pumps_def pump_frame_def)
      have ok1: "slots_ok b1" using Suc.prems(3) by (simp add: b1_def slots_ok_def)
      show ?thesis
      proof (cases j)
        case None
        have "pump_runners (Suc fuel) env b = Some b1" using True claim None Nil by (simp add: b1_def)
        then show ?thesis using b1 ok1 None by (simp add: drives_def)
      next
        case (Some job)
        have "pumped X b1 (start_job env job StartVerify b1)"
          by (rule start_job_pumped) (use b1 ok1 room Some in \<open>simp_all add: mode_room_def\<close>)
        then obtain b2 where b2: "start_job env job StartVerify b1 = Some b2" "carried X b2"
          "all_replies b2 = all_replies b1" "slots_ok b2" "pumps b1 b2" "br_runner_waiters b2 = br_runner_waiters b1"
          "length (rs_jobs (br_scheduler b2)) \<le> length (rs_jobs s)"
          using b1(6) by (auto simp: pumped_def)
        have "br_runner_waiters b2 = []" using b2(6) Nil by (simp add: b1_def)
        moreover have "length (rs_jobs s) < length (rs_jobs (br_scheduler b))" using work(2) Some by simp
        ultimately have "drives X b2 (pump_runners fuel env b2)"
          using Suc.IH [OF _ b2(2,4)] b2(7) Suc.prems(1) by simp
        then have "drives X b (pump_runners fuel env b2)"
          by (rule drives_trans) (use b2 b1 pumps_trans [OF b1(3) b2(5)] in \<open>simp_all\<close>)
        moreover have "pump_runners (Suc fuel) env b = pump_runners fuel env b2"
          using True claim Some Nil b2(1) by (simp flip: b1_def)
        ultimately show ?thesis by simp
      qed
    qed
  qed
qed simp

lemma drives_bind:
  assumes "drives X b r" "\<And>b1. carried X b1 \<Longrightarrow> slots_ok b1 \<Longrightarrow> pumps b b1 \<Longrightarrow> drives X b1 (f b1)"
  shows "drives X b (Option.bind r f)"
proof -
  obtain b1 where b1: "r = Some b1" "carried X b1" "all_replies b1 = all_replies b" "slots_ok b1" "pumps b b1"
    using assms(1) by (auto simp: drives_def)
  then show ?thesis using drives_trans [OF assms(2) [OF b1(2,4,5)] b1(3,5)] by simp
qed

lemma pump_ready_drives:
  assumes "carried X b" "slots_ok b"
  shows "drives X b (pump_ready env b)"
  unfolding pump_ready_def
proof (rule drives_bind)
  obtain b1 where "expire_ready env b = Some b1" "carried X b1" "all_replies b1 = all_replies b" "settles b b1"
    using expire_ready_books [OF assms(1)] by blast
  then show "drives X b (expire_ready env b)"
    using assms(2) by (auto simp: drives_def slots_ok_settles settles_pumps)
next
  fix b1 assume b1: "carried X b1" "slots_ok b1"
  define b2 where "b2 = b1\<lparr>br_runner_waiters := filter (\<lambda>request. \<not> br_closed b1 (sr_grant request)) (br_runner_waiters b1)\<rparr>"
  have b2: "carried X b2" "slots_ok b2" "all_replies b2 = all_replies b1" "pumps b1 b2"
    using b1 by (simp_all add: b2_def carried_def slots_ok_def active_tags_def running_work_def all_replies_def
        active_replies_def sent_replies_def pending_replies_def pumps_def pump_frame_def)
  have "drives X b2 (Option.bind (pump_reads (Suc (length (rs_jobs (br_scheduler b2)))) env b2) (\<lambda>b3.
      pump_runners (Suc (length (br_runner_waiters b3) + length (rs_jobs (br_scheduler b3)))) env b3))"
    using b2 by (intro drives_bind pump_reads_drives pump_runners_drives) simp_all
  then show "drives X b1 (let b2 = b1\<lparr>br_runner_waiters := filter (\<lambda>request. \<not> br_closed b1 (sr_grant request))
          (br_runner_waiters b1)\<rparr>
      in Option.bind (pump_reads (Suc (length (rs_jobs (br_scheduler b2)))) env b2) (\<lambda>b3.
           pump_runners (Suc (length (br_runner_waiters b3) + length (rs_jobs (br_scheduler b3)))) env b3))"
    using drives_trans b2(3,4) unfolding Let_def b2_def by blast
qed


section \<open>Resolving submissions\<close>

definition nonces_ok :: "broker \<Rightarrow> bool" where
  "nonces_ok b \<longleftrightarrow> 0 < br_next_work_nonce b \<and> (\<forall>k \<in> dom (br_active b). wk_nonce k < br_next_work_nonce b)"

definition pending_ok :: "broker \<Rightarrow> bool" where
  "pending_ok b \<longleftrightarrow> (\<forall>p \<in> set (br_pending b). length (sub_reads (ps_submission p)) = length (ps_replies p))"

text \<open>What resolving keeps besides the books.\<close>

definition resolve_frame where
  "resolve_frame b = (br_interval b, br_max_in_flight b, br_probe_limit b, br_pending b, br_closed b)"

definition resolving :: "work_item list \<times> broker \<Rightarrow> work_item list \<times> broker \<Rightarrow> nat multiset \<Rightarrow> bool" where
  "resolving acc acc' replies \<longleftrightarrow>
    (case (acc, acc') of ((batch, b), (batch', b')) \<Rightarrow>
      carried (items_work batch) b \<longrightarrow> slots_ok b \<longrightarrow> nonces_ok b \<longrightarrow>
      carried (items_work batch') b' \<and> slots_ok b' \<and> nonces_ok b'
      \<and> all_replies b' = all_replies b + replies \<and> resolve_frame b' = resolve_frame b)"

lemma resolving_refl: "resolving acc acc {#}"
  by (auto simp: resolving_def split: prod.split)

lemma resolving_trans:
  "resolving x y m \<Longrightarrow> resolving y z n \<Longrightarrow> resolving x z (m + n)"
  by (auto simp: resolving_def add.assoc split: prod.splits)

lemma carried_eq:
  "br_active b' = br_active b \<Longrightarrow> br_scheduler b' = br_scheduler b \<Longrightarrow> br_running b' = br_running b
    \<Longrightarrow> br_closed b' = br_closed b \<Longrightarrow> carried X b' = carried X b"
  by (simp add: carried_def active_tags_def running_work_def)

lemma all_replies_eq:
  "br_active b' = br_active b \<Longrightarrow> br_sent b' = br_sent b \<Longrightarrow> br_pending b' = br_pending b
    \<Longrightarrow> all_replies b' = all_replies b"
  by (simp add: all_replies_def active_replies_def sent_replies_def pending_replies_def)

lemma slots_ok_eq:
  "br_capacity b' = br_capacity b \<Longrightarrow> br_running b' = br_running b \<Longrightarrow> br_next_address b \<le> br_next_address b'
    \<Longrightarrow> br_max_in_flight b' = br_max_in_flight b \<Longrightarrow> br_probe_limit b' = br_probe_limit b
    \<Longrightarrow> br_runner_waiters b' = br_runner_waiters b \<Longrightarrow> slots_ok b \<Longrightarrow> slots_ok b'"
  by (auto simp: slots_ok_def)

lemma join_work_resolving:
  assumes active: "br_active b key = Some active"
    and res: "join_work key active policy reply origin (batch, b) = Some acc'"
  shows "resolving (batch, b) acc' {#reply#}"
proof -
  define a' where "a' = active\<lparr>aw_replies := aw_replies active @ [reply], aw_origins := aw_origins active @ [origin]\<rparr>"
  define b1 where "b1 = b\<lparr>br_waiters := (br_waiters b)(aw_waiters active := br_waiters b (aw_waiters active) @ [policy]),
      br_active := (br_active b)(key \<mapsto> a')\<rparr>"
  have tags: "active_tags b1 = active_tags b" "active_replies b1 = active_replies b + {#reply#}"
    if fin: "finite (dom (br_active b))"
  proof -
    note r = table_sum_remove [OF fin active] and i = table_sum_insert [OF fin, where k = key and a = a']
    show "active_tags b1 = active_tags b"
      using r [of "\<lambda>k a. {#(k, aw_waiters a)#}"] i [of "\<lambda>k a. {#(k, aw_waiters a)#}"]
      by (simp add: active_tags_def b1_def a'_def)
    show "active_replies b1 = active_replies b + {#reply#}"
      using r [of "\<lambda>_ a. mset (aw_replies a)"] i [of "\<lambda>_ a. mset (aw_replies a)"]
      by (simp add: active_replies_def b1_def a'_def)
  qed
  have dom: "dom (br_active b1) = dom (br_active b)" using active by (auto simp: b1_def)
  have b1: "carried X b1 \<and> all_replies b1 = all_replies b + {#reply#}" if "carried X b" for X
    using that tags dom by (simp add: carried_def all_replies_def running_work_def sent_replies_def
        pending_replies_def b1_def)
  have rest: "nonces_ok b1 = nonces_ok b" "slots_ok b1 = slots_ok b" "resolve_frame b1 = resolve_frame b"
    using dom by (simp_all add: nonces_ok_def slots_ok_def resolve_frame_def) (simp_all add: b1_def)
  show ?thesis
  proof (cases "push_origin key origin batch")
    case (Some batch')
    then have "acc' = (batch', b1)" using res by (simp add: join_work_def Let_def b1_def a'_def)
    then show ?thesis using b1 rest push_origin_work [OF Some] by (auto simp: resolving_def)
  next
    case None
    then obtain w s where att: "attach (br_closed b1) key origin (br_scheduler b1) = Some (w, s)"
      and acc': "acc' = (batch, b1\<lparr>br_scheduler := s\<rparr>)"
      using res by (auto simp: join_work_def Let_def b1_def a'_def)
    have "carried X (b1\<lparr>br_scheduler := s\<rparr>)" if "carried X b1" for X
      using carried_scheduler [OF that, of s "{#}"] attach_work [OF att] attach_resumes [OF att]
        attach_inv [OF _ att] that by (auto simp: carried_def)
    moreover have "slots_ok (b1\<lparr>br_scheduler := s\<rparr>) = slots_ok b1" "nonces_ok (b1\<lparr>br_scheduler := s\<rparr>) = nonces_ok b1"
      "resolve_frame (b1\<lparr>br_scheduler := s\<rparr>) = resolve_frame b1"
      by (simp_all add: slots_ok_def nonces_ok_def resolve_frame_def)
    ultimately show ?thesis using b1 rest by (auto simp: resolving_def acc')
  qed
qed

lemma register_work_resolving:
  assumes fresh: "br_active b key = None" and nonce: "wk_nonce key < br_next_work_nonce b"
  shows "resolving (batch, b) (register_work key route read policy reply origin (batch, b)) {#reply#}"
proof -
  define a where "a = \<lparr>aw_read = read, aw_execution_route = route, aw_origins = [origin], aw_replies = [reply],
      aw_waiters = br_next_address b\<rparr>"
  define b1 where "b1 = b\<lparr>br_waiters := (br_waiters b)(br_next_address b := [policy]),
      br_next_address := br_next_address b + 1, br_active := (br_active b)(key \<mapsto> a)\<rparr>"
  define i where "i = \<lparr>wi_key = key, wi_execution_route = route, wi_read = read, wi_origins = [origin],
      wi_waiters = br_next_address b\<rparr>"
  have eq: "register_work key route read policy reply origin (batch, b) = (batch @ [i], b1)"
    by (simp add: register_work_def Let_def a_def b1_def i_def)
  have none: "(br_active b)(key := None) = br_active b" using fresh by auto
  have sums: "active_tags b1 = add_mset (item_tag i) (active_tags b)"
      "active_replies b1 = add_mset reply (active_replies b)" if fin: "finite (dom (br_active b))"
    using table_sum_insert [OF fin, of "\<lambda>k a. {#(k, aw_waiters a)#}" key a]
      table_sum_insert [OF fin, of "\<lambda>_ a. mset (aw_replies a)" key a]
    by (simp_all add: none active_tags_def active_replies_def b1_def a_def i_def item_tag_def)
  have "carried (items_work batch + {#item_tag i#}) b1 \<and> all_replies b1 = all_replies b + {#reply#}"
    if "carried (items_work batch) b"
    using that sums by (auto simp: carried_def all_replies_def) (auto simp: running_work_def sent_replies_def
        pending_replies_def b1_def)
  moreover have "nonces_ok b1 = nonces_ok b" using nonce by (auto simp: nonces_ok_def b1_def)
  moreover have "slots_ok b \<Longrightarrow> slots_ok b1" by (rule slots_ok_eq [of _ b]) (simp_all add: b1_def)
  moreover have "resolve_frame b1 = resolve_frame b" by (simp add: resolve_frame_def b1_def)
  ultimately show ?thesis by (simp add: eq resolving_def)
qed

lemma saturating_nonce:
  fixes n :: u64
  assumes "n \<noteq> - 1"
  shows "n < saturating_add n 1"
proof -
  have "unat n < 2 ^ 64" using unsigned_less [where w = n] by simp
  moreover have "unat n \<noteq> 2 ^ 64 - 1"
  proof
    assume "unat n = 2 ^ 64 - 1"
    then have "unat n = unat (- 1 :: u64)" by (simp add: unsigned_minus_1_eq_mask mask_eq_exp_minus_1)
    then show False using assms by (simp only: word_unat_eq_iff)
  qed
  ultimately have "unat n < unat (saturating_add n 1)" by (simp add: unat_saturating_add)
  then show ?thesis by (simp add: word_less_nat_alt)
qed

lemma resolve_read_resolving:
  assumes res: "resolve_read env route deadline origin (read, reply) (batch, b) = Some acc'"
    and nonce: "br_next_work_nonce b \<noteq> - 1"
  shows "resolving (batch, b) acc' {#reply#}"
proof -
  obtain latest cache where epoch:
    "read_epoch (be_now env) (cr_chain_id (rt_chain route)) read (br_cache b) = (latest, cache)" by fastforce
  define dedupable where "dedupable = resolve_dedupable (be_lib env) read latest"
  define key where "key = work_key_of route read (if dedupable then 0 else br_next_work_nonce b) latest"
  define b1 where "b1 = b\<lparr>br_cache := cache, br_next_work_nonce :=
    (if dedupable then br_next_work_nonce b else saturating_add (br_next_work_nonce b) 1)\<rparr>"
  define cached where "cached = (if is_cacheable (be_lib env) read \<and> expected_epoch read latest \<noteq> None
    then lookup (wk_identity key) (expected_epoch read latest) cache else None)"
  define policy where "policy = \<lparr>wp_deadline = deadline, wp_attempt_timeout = rt_attempt_timeout route\<rparr>"
  note less = saturating_nonce [OF nonce]
  have b1: "carried X b1 = carried X b" "all_replies b1 = all_replies b" "slots_ok b1 = slots_ok b"
    "resolve_frame b1 = resolve_frame b" "br_active b1 = br_active b" for X
    by (simp_all add: b1_def carried_def active_tags_def running_work_def all_replies_def active_replies_def
        sent_replies_def pending_replies_def slots_ok_def resolve_frame_def)
  have nonces: "nonces_ok b1" if "nonces_ok b"
    using that less by (auto simp: nonces_ok_def b1_def intro: less_trans)
  have first: "resolving (batch, b) (batch, b1) {#}" using b1 nonces by (simp add: resolving_def)
  have eq: "(case cached of
      Some result \<Rightarrow> Some (batch, send_all [reply] result b1)
    | None \<Rightarrow>
        (case (if dedupable then br_active b1 key else None) of
           Some active \<Rightarrow> join_work key active policy reply origin (batch, b1)
         | None \<Rightarrow> Some (register_work key route read policy reply origin (batch, b1)))) = Some acc'"
    using res epoch unfolding resolve_read_def cached_def key_def b1_def policy_def dedupable_def
    by (simp add: Let_def)
  show ?thesis
  proof (cases cached)
    case (Some result)
    then have "acc' = (batch, send_all [reply] result b1)" using eq by simp
    then show ?thesis using b1 nonces
      by (auto simp: resolving_def resolve_frame_def nonces_ok_def slots_ok_def)
  next
    case None
    show ?thesis
    proof (cases "if dedupable then br_active b1 key else None")
      case (Some active)
      then have "br_active b1 key = Some active" by (simp split: if_splits)
      moreover have "join_work key active policy reply origin (batch, b1) = Some acc'" using eq None Some by simp
      ultimately have "resolving (batch, b1) acc' {#reply#}" by (rule join_work_resolving)
      then show ?thesis using resolving_trans [OF first] by fastforce
    next
      case new: None
      have acc': "acc' = register_work key route read policy reply origin (batch, b1)" using eq None new by simp
      show ?thesis
      proof (cases "nonces_ok b")
        case True
        have "br_active b1 key = None"
        proof (cases dedupable)
          case False
          then have "wk_nonce key = br_next_work_nonce b" by (simp add: key_def work_key_of_def)
          then have "key \<notin> dom (br_active b)" using True by (metis nonces_ok_def less_irrefl)
          then show ?thesis by (simp add: b1(5) domIff)
        qed (use new in simp)
        moreover have "wk_nonce key < br_next_work_nonce b1"
          using True less by (auto simp: nonces_ok_def key_def work_key_of_def b1_def)
        ultimately have "resolving (batch, b1) acc' {#reply#}"
          unfolding acc' by (rule register_work_resolving)
        then show ?thesis using resolving_trans [OF first] by fastforce
      qed (simp add: resolving_def split: prod.split)
    qed
  qed
qed


lemma resolve_read_nonce:
  assumes "resolve_read env route deadline origin r acc = Some acc'" "br_next_work_nonce (snd acc') \<noteq> - 1"
  shows "br_next_work_nonce (snd acc) \<noteq> - 1"
proof -
  obtain read reply batch b where eq: "r = (read, reply)" "acc = (batch, b)" by (metis surj_pair)
  have "br_next_work_nonce (snd acc') \<in> {br_next_work_nonce b, saturating_add (br_next_work_nonce b) 1}"
    using assms(1) unfolding eq resolve_read_def
    by (auto simp: Let_def join_work_def register_work_def send_all_def split: prod.splits option.splits if_splits)
  moreover have "saturating_add (- 1 :: u64) 1 = - 1"
    by (simp add: saturating_add_def unsigned_minus_1_eq_mask mask_eq_exp_minus_1)
  ultimately show ?thesis using assms(2) eq by auto
qed

lemma resolve_reads_resolving:
  "resolve_reads env route deadline origin rs acc = Some acc' \<Longrightarrow> br_next_work_nonce (snd acc') \<noteq> - 1
    \<Longrightarrow> resolving acc acc' (mset (map snd rs)) \<and> br_next_work_nonce (snd acc) \<noteq> - 1"
proof (induction rs arbitrary: acc)
  case (Cons r rs)
  then obtain acc1 where one: "resolve_read env route deadline origin r acc = Some acc1"
    and rest: "resolve_reads env route deadline origin rs acc1 = Some acc'" by (auto simp: bind_eq_Some_conv)
  note IH = Cons.IH [OF rest Cons.prems(2)]
  then have nonce: "br_next_work_nonce (snd acc) \<noteq> - 1" using resolve_read_nonce [OF one] by blast
  obtain read reply batch b where eq: "r = (read, reply)" "acc = (batch, b)" by (metis surj_pair)
  have "resolving acc acc1 {#snd r#}" using resolve_read_resolving one nonce unfolding eq by simp
  then show ?case using resolving_trans [of acc acc1 "{#snd r#}"] IH nonce by fastforce
qed (simp add: resolving_refl)

lemma send_resolving: "resolving (batch, b) (batch, send_all rs r b) (mset rs)"
  by (auto simp: resolving_def nonces_ok_def slots_ok_def resolve_frame_def)

lemma resolve_pending_resolving:
  "resolve_pending env ps acc = Some acc' \<Longrightarrow> br_next_work_nonce (snd acc') \<noteq> - 1
    \<Longrightarrow> (\<And>p. p \<in> set ps \<Longrightarrow> length (sub_reads (ps_submission p)) = length (ps_replies p))
    \<Longrightarrow> resolving acc acc' (mset (concat (map ps_replies ps))) \<and> br_next_work_nonce (snd acc) \<noteq> - 1"
proof (induction ps arbitrary: acc)
  case (Cons p ps)
  show ?case
  proof (cases "deadline_passed (ps_deadline p) (be_now env)")
    case True
    define acc1 where "acc1 = (fst acc, send_all (ps_replies p) (Inl TimeoutBeforeDispatch) (snd acc))"
    have rest: "resolve_pending env ps acc1 = Some acc'" using Cons.prems(1) True by (simp add: acc1_def)
    have "resolving acc acc1 (mset (ps_replies p))"
      using send_resolving [of "fst acc" "snd acc" "ps_replies p"] by (simp add: acc1_def)
    then show ?thesis using Cons.IH [OF rest Cons.prems(2)] Cons.prems(3) resolving_trans [of acc acc1]
      by (fastforce simp: acc1_def)
  next
    case False
    then obtain acc1 where one: "resolve_reads env (sub_route (ps_submission p)) (ps_deadline p)
        (sub_origin (ps_submission p)) (zip (sub_reads (ps_submission p)) (ps_replies p)) acc = Some acc1"
      and rest: "resolve_pending env ps acc1 = Some acc'"
      using Cons.prems(1) by (auto simp: bind_eq_Some_conv)
    have IH: "resolving acc1 acc' (mset (concat (map ps_replies ps))) \<and> br_next_work_nonce (snd acc1) \<noteq> - 1"
      using Cons.IH [OF rest Cons.prems(2)] Cons.prems(3) by simp
    have "map snd (zip (sub_reads (ps_submission p)) (ps_replies p)) = ps_replies p"
      using Cons.prems(3) [of p] by simp
    then show ?thesis using resolve_reads_resolving [OF one] IH resolving_trans [of acc acc1 "mset (ps_replies p)"]
      by fastforce
  qed
qed (simp add: resolving_refl)

lemma resolve_pending_nonce:
  "resolve_pending env ps acc = Some acc' \<Longrightarrow> br_next_work_nonce (snd acc') \<noteq> - 1
    \<Longrightarrow> br_next_work_nonce (snd acc) \<noteq> - 1"
proof (induction ps arbitrary: acc)
  case (Cons p ps)
  show ?case
  proof (cases "deadline_passed (ps_deadline p) (be_now env)")
    case True
    then show ?thesis
      using Cons.IH [of "(fst acc, send_all (ps_replies p) (Inl TimeoutBeforeDispatch) (snd acc))"] Cons.prems by simp
  next
    case False
    then obtain acc1 where one: "resolve_reads env (sub_route (ps_submission p)) (ps_deadline p)
        (sub_origin (ps_submission p)) (zip (sub_reads (ps_submission p)) (ps_replies p)) acc = Some acc1"
      and rest: "resolve_pending env ps acc1 = Some acc'"
      using Cons.prems(1) by (auto simp: bind_eq_Some_conv)
    show ?thesis using resolve_reads_resolving [OF one] Cons.IH [OF rest Cons.prems(2)] by blast
  qed
qed simp

section \<open>The actor\<close>

definition actor_ok :: "broker \<Rightarrow> bool" where
  "actor_ok b \<longleftrightarrow> carried {#} b \<and> slots_ok b \<and> nonces_ok b \<and> pending_ok b"

text \<open>A handler returned \<open>b'\<close>; unless the work nonce is used up, it kept the invariant and took in \<open>replies\<close>.\<close>

definition handled :: "nat multiset \<Rightarrow> broker \<Rightarrow> broker \<Rightarrow> bool" where
  "handled replies b b' \<longleftrightarrow> (br_next_work_nonce b' \<noteq> - 1 \<longrightarrow>
    br_next_work_nonce b \<noteq> - 1 \<and> (actor_ok b \<longrightarrow> actor_ok b' \<and> all_replies b' = all_replies b + replies))"

lemma handled_refl: "handled {#} b b"
  by (simp add: handled_def)

lemma handled_trans: "handled m a b \<Longrightarrow> handled n b c \<Longrightarrow> handled (m + n) a c"
  by (auto simp: handled_def add.assoc)

lemma handled_trans0: "handled {#} a b \<Longrightarrow> handled n b c \<Longrightarrow> handled n a c"
  using handled_trans [of "{#}"] by fastforce

lemma nonces_ok_mono:
  "br_next_work_nonce b' = br_next_work_nonce b \<Longrightarrow> dom (br_active b') \<subseteq> dom (br_active b) \<Longrightarrow> nonces_ok b \<Longrightarrow> nonces_ok b'"
  by (auto simp: nonces_ok_def)

lemma drives_handled:
  assumes "actor_ok b \<Longrightarrow> drives {#} b (Some b')" "br_next_work_nonce b' = br_next_work_nonce b"
  shows "handled {#} b b'"
proof -
  have "actor_ok b' \<and> all_replies b' = all_replies b" if "actor_ok b"
    using assms(1) [OF that] that nonces_ok_mono [of b' b]
    by (auto simp: actor_ok_def drives_def pending_ok_def pumpsD)
  then show ?thesis using assms(2) by (simp add: handled_def)
qed

lemma nonce_scheduler:
  "complete_job env cs requests b = Some b' \<Longrightarrow> br_next_work_nonce b' = br_next_work_nonce b"
proof -
  have one: "br_next_work_nonce (snd (complete_one env c acc)) = br_next_work_nonce (snd acc)" for c acc
    by (auto simp: complete_one_def Let_def split: prod.split option.split)
  have "br_next_work_nonce (snd (fold (complete_one env) cs acc)) = br_next_work_nonce (snd acc)" for acc
    by (induction cs arbitrary: acc) (simp_all add: one)
  from this [of "([], b\<lparr>br_profiles := apply_request_events requests (be_now env) (br_profiles b)\<rparr>)"]
  show "complete_job env cs requests b = Some b' \<Longrightarrow> br_next_work_nonce b' = br_next_work_nonce b"
    by (auto simp: complete_job_def split: prod.splits)
qed

lemma nonce_expire: "expire_ready env b = Some b' \<Longrightarrow> br_next_work_nonce b' = br_next_work_nonce b"
  by (auto simp: expire_ready_def Let_def split: prod.splits if_splits dest!: nonce_scheduler)

lemma nonce_start: "start_job env job mode b = Some b' \<Longrightarrow> br_next_work_nonce b' = br_next_work_nonce b"
  by (auto simp: start_job_def launch_job_def Let_def bind_eq_Some_conv
      split: prod.splits if_splits list.splits sum.splits dest!: nonce_scheduler)

lemma nonce_grant [simp]: "br_next_work_nonce (grant_slot env request b) = br_next_work_nonce b"
  by (simp add: grant_slot_def)

lemma nonce_pump_reads: "pump_reads fuel env b = Some b' \<Longrightarrow> br_next_work_nonce b' = br_next_work_nonce b"
  by (induction fuel arbitrary: b)
    (auto simp: bind_eq_Some_conv split: prod.splits if_splits option.splits claim.splits dest!: nonce_start)

lemma nonce_pump_runners: "pump_runners fuel env b = Some b' \<Longrightarrow> br_next_work_nonce b' = br_next_work_nonce b"
  by (induction fuel arbitrary: b)
    (auto simp: bind_eq_Some_conv split: prod.splits if_splits option.splits list.splits dest!: nonce_start)

lemma nonce_pump:
  assumes "pump_ready env b = Some b'"
  shows "br_next_work_nonce b' = br_next_work_nonce b"
proof -
  obtain b1 b3 where "expire_ready env b = Some b1"
    "pump_reads (Suc (length (rs_jobs (br_scheduler b1)))) env
      (b1\<lparr>br_runner_waiters := filter (\<lambda>request. \<not> br_closed b1 (sr_grant request)) (br_runner_waiters b1)\<rparr>) = Some b3"
    "pump_runners (Suc (length (br_runner_waiters b3) + length (rs_jobs (br_scheduler b3)))) env b3 = Some b'"
    using assms by (simp add: pump_ready_def Let_def bind_eq_Some_conv del: pump_reads.simps pump_runners.simps) blast
  from nonce_expire [OF this(1)] nonce_pump_reads [OF this(2)] nonce_pump_runners [OF this(3)]
  show ?thesis by simp
qed

lemma pump_handled: "pump_ready env b = Some b' \<Longrightarrow> handled {#} b b'"
  using drives_handled nonce_pump pump_ready_drives by (metis actor_ok_def)

lemma expire_handled: "expire_ready env b = Some b' \<Longrightarrow> handled {#} b b'"
proof (rule drives_handled)
  assume res: "expire_ready env b = Some b'"
  then show "br_next_work_nonce b' = br_next_work_nonce b" by (rule nonce_expire)
  assume "actor_ok b"
  then obtain b1 where "expire_ready env b = Some b1" "carried {#} b1" "all_replies b1 = all_replies b" "settles b b1"
    "slots_ok b1"
    using expire_ready_books [of "{#}" b env] slots_ok_settles unfolding actor_ok_def by metis
  then show "drives {#} b (Some b')" using res settles_pumps by (simp add: drives_def)
qed

lemma flush_handled:
  assumes "flush env b = Some b'"
  shows "handled {#} b b'"
proof (cases "br_pending b = []")
  case True
  then have "b' = b\<lparr>br_next_flush_at := None, br_pending := []\<rparr>" using assms by (simp add: flush_def Let_def)
  then show ?thesis using True by (simp add: handled_def actor_ok_def carried_def active_tags_def running_work_def
      slots_ok_def nonces_ok_def pending_ok_def all_replies_def active_replies_def sent_replies_def pending_replies_def)
next
  case False
  define b1 where "b1 = b\<lparr>br_next_flush_at := None, br_pending := []\<rparr>"
  obtain work b2 s where res: "resolve_pending env (br_pending b) ([], b1) = Some (work, b2)"
    and adm: "partition_and_admit (be_lib env) work (br_scheduler b2) = Some s"
    and pump: "pump_ready env (b2\<lparr>br_scheduler := s\<rparr>) = Some b'"
    using assms False by (auto simp: flush_def Let_def b1_def bind_eq_Some_conv)
  define b3 where "b3 = b2\<lparr>br_scheduler := s\<rparr>"
  have nonce: "br_next_work_nonce b' = br_next_work_nonce b2" using nonce_pump [OF pump] by simp
  have b1: "carried X b1 = carried X b" "slots_ok b1 = slots_ok b" "nonces_ok b1 = nonces_ok b"
    "all_replies b = all_replies b1 + mset (concat (map ps_replies (br_pending b)))"
    "br_pending b1 = []" "br_next_work_nonce b1 = br_next_work_nonce b" for X
    by (simp_all add: b1_def carried_def active_tags_def running_work_def slots_ok_def nonces_ok_def
        all_replies_def active_replies_def sent_replies_def pending_replies_def)
  have "br_next_work_nonce b \<noteq> - 1 \<and> (actor_ok b \<longrightarrow> actor_ok b3 \<and> all_replies b3 = all_replies b)"
    if small: "br_next_work_nonce b2 \<noteq> - 1"
  proof -
    have len: "length (sub_reads (ps_submission p)) = length (ps_replies p)" if "actor_ok b" "p \<in> set (br_pending b)" for p
      using that by (simp add: actor_ok_def pending_ok_def)
    have "actor_ok b3 \<and> all_replies b3 = all_replies b" if ok: "actor_ok b"
    proof -
      have "resolving ([], b1) (work, b2) (mset (concat (map ps_replies (br_pending b))))"
        using resolve_pending_resolving [OF res] small len [OF ok] by simp
      then have b2: "carried (items_work work) b2" "slots_ok b2" "nonces_ok b2" "all_replies b2 = all_replies b"
        "br_pending b2 = []"
        using ok b1 by (auto simp: resolving_def actor_ok_def resolve_frame_def)
      have inv: "sched_inv (br_closed b2) (br_scheduler b2)" using b2(1) by (simp add: carried_def)
      have "sched_inv (br_closed b2) s" using admit_chunks_inv [OF inv] adm by (auto simp: partition_and_admit_def)
      then have "carried {#} b3"
        using b2(1) partition_and_admit_work [OF inv adm] partition_and_admit_resumes [OF adm]
        by (auto simp: carried_def b3_def ac_simps)
      then show ?thesis using b2 by (simp add: actor_ok_def b3_def slots_ok_def nonces_ok_def pending_ok_def)
    qed
    moreover have "br_next_work_nonce b \<noteq> - 1" using resolve_pending_nonce [OF res] small b1 by simp
    ultimately show ?thesis by blast
  qed
  then have "handled {#} b b3" by (simp add: handled_def b3_def)
  moreover have "handled {#} b3 b'" using pump_handled pump by (simp add: b3_def)
  ultimately show ?thesis using handled_trans by fastforce
qed


section \<open>Steps\<close>

text \<open>
  The events of the actor's loop and what job tasks do to their slots in between. The output of a
  finished job settles each of its items once, in any order; \<open>RpcBroker::submit\<close> makes one reply
  channel per read; a closed grant stays closed.
\<close>

datatype broker_event =
    SubmitEvent rpc_submission "nat list" "instant option"
  | CandidatesEvent rpc_chain_route
  | TimerEvent
  | HeadEvent u64 u64
  | InvalidateEvent u64
  | ReportEvent request_event
  | WarmupEvent request_event
  | DoneEvent nat "completion list" "request_event list"
  | SlotEvent slot_request
  | ReleaseEvent slot_kind nat
  | CloseGrants
  | PumpEvent

inductive broker_step :: "broker \<Rightarrow> broker_event \<Rightarrow> broker \<Rightarrow> bool" where
  br_submit: "length replies = length (sub_reads submission) \<Longrightarrow> submit env submission replies deadline b = Some b'
    \<Longrightarrow> broker_step b (SubmitEvent submission replies deadline) b'"
| br_candidates: "candidates env route b = (r, b') \<Longrightarrow> broker_step b (CandidatesEvent route) b'"
| br_timer: "timer env b = Some b' \<Longrightarrow> broker_step b TimerEvent b'"
| br_head: "head_observed env chain_id n b = Some b' \<Longrightarrow> broker_step b (HeadEvent chain_id n) b'"
| br_invalidate: "invalidate env chain_id b = Some b' \<Longrightarrow> broker_step b (InvalidateEvent chain_id) b'"
| br_report: "broker_step b (ReportEvent event)
    (b\<lparr>br_profiles := apply_reported_event event now (br_profiles b)\<rparr>)"
| br_warmup: "broker_step b (WarmupEvent event)
    (b\<lparr>br_profiles := apply_warmup_event event now (br_profiles b)\<rparr>)"
| br_done: "(job, work) \<in> set (br_running b) \<Longrightarrow> mset (map fst completions) = image_mset wi_key (mset (items work))
    \<Longrightarrow> job_done env job completions requests b = Some b' \<Longrightarrow> broker_step b (DoneEvent job completions requests) b'"
| br_slot: "slot_requested env request b = Some b' \<Longrightarrow> broker_step b (SlotEvent request) b'"
| br_release: "broker_step b (ReleaseEvent kind job) (b\<lparr>br_capacity := release kind job (br_capacity b)\<rparr>)"
| br_close: "(\<forall>g. br_closed b g \<longrightarrow> closed g) \<Longrightarrow> broker_step b CloseGrants (b\<lparr>br_closed := closed\<rparr>)"
| br_pump: "pump_ready env b = Some b' \<Longrightarrow> broker_step b PumpEvent b'"

inductive_cases broker_stepE: "broker_step b e b'"

fun event_replies :: "broker_event \<Rightarrow> nat list" where
  "event_replies (SubmitEvent _ replies _) = replies"
| "event_replies _ = []"

lemma actor_ok_eq:
  assumes "br_active b' = br_active b" "br_scheduler b' = br_scheduler b" "br_running b' = br_running b"
    "br_closed b' = br_closed b" "br_capacity b' = br_capacity b" "br_next_address b' = br_next_address b"
    "br_max_in_flight b' = br_max_in_flight b" "br_probe_limit b' = br_probe_limit b"
    "br_runner_waiters b' = br_runner_waiters b" "br_next_work_nonce b' = br_next_work_nonce b"
    "br_pending b' = br_pending b" "br_sent b' = br_sent b"
  shows "handled {#} b b'"
  using assms carried_eq [OF assms(1-4)] all_replies_eq [OF assms(1,12,11)]
  by (simp add: handled_def actor_ok_def slots_ok_def nonces_ok_def pending_ok_def)

lemma submit_handled:
  assumes "length replies = length (sub_reads submission)" "submit env submission replies deadline b = Some b'"
  shows "handled (mset replies) b b'"
proof (cases "deadline_passed deadline (be_now env)")
  case True
  then have "b' = send_all replies (Inl TimeoutBeforeDispatch) b" using assms(2) by (simp add: submit_def)
  then show ?thesis by (simp add: handled_def actor_ok_def slots_ok_def nonces_ok_def pending_ok_def)
next
  case False
  obtain b1 where b1: "(if would_cross_threshold submission b then flush env b else Some b) = Some b1"
    using assms(2) False by (auto simp: submit_def bind_eq_Some_conv)
  define b2 where "b2 = enqueue env submission replies deadline b1"
  have last: "(if pending_exceeds submission \<or> any_threshold_reached b2 then flush env b2 else Some b2) = Some b'"
    using assms(2) False b1 by (auto simp: submit_def Let_def b2_def split: if_splits)
  have "handled {#} b b1" using b1 flush_handled by (auto simp: handled_refl split: if_splits)
  moreover have "handled (mset replies) b1 b2"
    using assms(1) by (simp add: handled_def b2_def enqueue_def actor_ok_def carried_def active_tags_def running_work_def
        slots_ok_def nonces_ok_def pending_ok_def all_replies_def active_replies_def sent_replies_def pending_replies_def)
  moreover have "handled {#} b2 b'" using last flush_handled by (auto simp: handled_refl split: if_splits)
  ultimately show ?thesis using handled_trans0 handled_trans [of "mset replies" b b2 "{#}" b'] by auto
qed

lemma partition_replies:
  assumes "partition P ps = (xs, ys)"
  shows "mset (concat (map ps_replies xs)) + mset (concat (map ps_replies ys)) = mset (concat (map ps_replies ps))"
proof -
  have "mset (concat (map ps_replies (filter P ps))) + mset (concat (map ps_replies (filter (\<lambda>p. \<not> P p) ps)))
      = mset (concat (map ps_replies ps))" by (induction ps) (auto simp: ac_simps)
  then show ?thesis using assms by (simp add: comp_def)
qed

lemma expire_pending_handled: "handled {#} b (expire_pending env b)"
proof -
  obtain overdue kept where part:
    "partition (\<lambda>p. deadline_passed (ps_deadline p) (be_now env)) (br_pending b) = (overdue, kept)" by fastforce
  define b1 where "b1 = send_all (concat (map ps_replies overdue)) (Inl TimeoutBeforeDispatch) (b\<lparr>br_pending := kept\<rparr>)"
  have eq: "expire_pending env b = (if kept = [] then b1\<lparr>br_next_flush_at := None\<rparr> else b1)"
    using part by (simp add: expire_pending_def Let_def b1_def)
  have kept: "set kept \<subseteq> set (br_pending b)" using part by auto
  have "all_replies b1 = all_replies b"
    using partition_replies [OF part]
    by (simp add: b1_def all_replies_def active_replies_def sent_replies_def pending_replies_def send_all_def comp_def
        ac_simps)
  then have "handled {#} b b1" using kept
    by (auto simp: handled_def actor_ok_def pending_ok_def b1_def carried_eq [of "b\<lparr>br_pending := kept\<rparr>" b]
        slots_ok_def nonces_ok_def)
  moreover have "handled {#} b1 (b1\<lparr>br_next_flush_at := None\<rparr>)" by (rule actor_ok_eq) simp_all
  ultimately show ?thesis using handled_trans by (fastforce simp: eq)
qed

lemma timer_handled:
  assumes "timer env b = Some b'"
  shows "handled {#} b b'"
proof -
  obtain b1 b2 where steps: "expire_ready env (expire_pending env b) = Some b1"
    "(if deadline_passed (br_next_flush_at b1) (be_now env) then flush env b1 else Some b1) = Some b2"
    "pump_ready env b2 = Some b'"
    using assms by (auto simp: timer_def bind_eq_Some_conv)
  have "handled {#} b1 b2" using steps(2) flush_handled by (auto simp: handled_refl split: if_splits)
  then show ?thesis
    using expire_pending_handled [of b env] expire_handled [OF steps(1)] pump_handled [OF steps(3)]
    by (blast intro: handled_trans0)
qed

lemma running_work_remove:
  assumes "distinct (map fst rs)" "(job, work) \<in> set rs"
  shows "sum_list (map (\<lambda>(_, j). job_work j) rs)
    = job_work work + sum_list (map (\<lambda>(_, j). job_work j) (filter (\<lambda>(j, _). j \<noteq> job) rs))"
  using assms
proof (induction rs)
  case (Cons r rs)
  obtain i w where r: "r = (i, w)" by (cases r)
  show ?case
  proof (cases "i = job")
    case True
    then have "(job, work) \<notin> set rs" "w = work" using Cons.prems r by force+
    moreover have "filter (\<lambda>(j, _). j \<noteq> job) rs = rs"
      using Cons.prems(1) True r by (intro filter_True) force
    ultimately show ?thesis using True r by simp
  next
    case False
    then show ?thesis using Cons r by (simp add: ac_simps)
  qed
qed simp

text \<open>A finished job's slots are gone and its work is in the hands of the handler.\<close>

lemma finish_job_books:
  assumes "carried X b" "slots_ok b" "(job, work) \<in> set (br_running b)"
  shows "carried (job_work work + X) (finish_job job b)" "slots_ok (finish_job job b)"
    "all_replies (finish_job job b) = all_replies b"
proof -
  have dist: "distinct (map fst (br_running b))" using assms(2) by (simp add: slots_ok_def)
  have keep: "map fst (filter (\<lambda>(j, _). j \<noteq> job) (br_running b)) = filter (\<lambda>j. j \<noteq> job) (map fst (br_running b))"
    by (simp add: filter_map comp_def case_prod_unfold)
  show "carried (job_work work + X) (finish_job job b)"
    using assms(1) running_work_remove [OF dist assms(3)]
    by (simp add: carried_def finish_job_def running_work_def active_tags_def ac_simps)
  have "dom (cap_slots (drop_slots job c)) = dom (cap_slots c) - {job}" for c
    by (auto simp: drop_slots_def release_def split: option.splits if_splits)
  moreover have "fst ` set (filter (\<lambda>(j, _). j \<noteq> job) (br_running b)) = fst ` set (br_running b) - {job}" by force
  ultimately show "slots_ok (finish_job job b)"
    using assms(2) keep
    by (auto simp: slots_ok_def finish_job_def holders_drop intro: order_trans [OF card_Diff1_le])
  show "all_replies (finish_job job b) = all_replies b"
    by (simp add: finish_job_def all_replies_def active_replies_def sent_replies_def pending_replies_def)
qed

lemma tags_for_keys:
  "mset ks = image_mset f M \<Longrightarrow> \<exists>tags. map f tags = ks \<and> mset tags = M"
proof (induction ks arbitrary: M)
  case (Cons k ks)
  then have "k \<in># image_mset f M" by (metis list.set_intros(1) set_mset_mset)
  then obtain x N where x: "M = add_mset x N" "f x = k" by (metis imageE multi_member_split set_image_mset)
  then obtain tags where "map f tags = ks" "mset tags = N" using Cons by fastforce
  then show ?case using x by (intro exI [of _ "x # tags"]) simp
qed simp

lemma complete_running_books:
  assumes "carried (job_work work + X) b" "mset (map fst cs) = image_mset wi_key (mset (items work))"
    "complete_job env cs requests b = Some b'"
  shows "carried X b' \<and> all_replies b' = all_replies b \<and> settles b b'"
proof -
  have "mset (map fst cs) = image_mset fst (job_work work)"
    using assms(2) by (simp add: job_work_def items_work_def image_mset.compositionality comp_def item_tag_def)
  then obtain tags where "map fst tags = map fst cs" "mset tags = job_work work" using tags_for_keys by blast
  then show ?thesis using complete_job_books [OF _ _ assms(3), of tags X] assms(1) by simp
qed

lemma finish_job_frame [simp]:
  "br_active (finish_job job b) = br_active b" "br_pending (finish_job job b) = br_pending b"
  "br_next_work_nonce (finish_job job b) = br_next_work_nonce b"
  "br_running (finish_job job b) = filter (\<lambda>(j, _). j \<noteq> job) (br_running b)"
  "br_runner_waiters (finish_job job b) = br_runner_waiters b"
  by (simp_all add: finish_job_def)

lemma complete_done_handled:
  assumes "(job, work) \<in> set (br_running b)" "mset (map fst cs) = image_mset wi_key (mset (items work))"
    "complete_job env cs requests (finish_job job b) = Some b'"
  shows "handled {#} b b'"
proof -
  have "actor_ok b' \<and> all_replies b' = all_replies b" if ok: "actor_ok b"
  proof -
    have "carried {#} b" "slots_ok b" using ok by (simp_all add: actor_ok_def)
    note fin = finish_job_books [OF this assms(1)]
    have settled: "carried {#} b' \<and> all_replies b' = all_replies b \<and> settles (finish_job job b) b'"
      using complete_running_books [OF fin(1) assms(2,3)] fin(3) by simp
    then have "settles (finish_job job b) b'" using settled by blast
    note frame = settlesD [OF this]
    show ?thesis
      using settled fin(2) ok slots_ok_settles frame nonces_ok_mono [of b' b]
      by (auto simp: actor_ok_def pending_ok_def)
  qed
  then show ?thesis using nonce_scheduler [OF assms(3)] by (simp add: handled_def)
qed

lemma slot_requested_handled:
  assumes "slot_requested env request b = Some b'"
  shows "handled {#} b b'"
proof -
  obtain b1 where b1: "(case sr_kind request of ReadSlot \<Rightarrow> resume_job request b
      | RunnerSlot \<Rightarrow> Some (b\<lparr>br_runner_waiters := br_runner_waiters b @ [request]\<rparr>)) = Some b1"
    and pump: "pump_ready env b1 = Some b'"
    using assms by (auto simp: slot_requested_def bind_eq_Some_conv)
  have "handled {#} b b1"
  proof (cases "sr_kind request")
    case RunnerSlot
    then have "b1 = b\<lparr>br_runner_waiters := br_runner_waiters b @ [request]\<rparr>" using b1 by simp
    then show ?thesis using RunnerSlot
      by (auto simp: handled_def actor_ok_def carried_def active_tags_def running_work_def slots_ok_def nonces_ok_def
          pending_ok_def all_replies_def active_replies_def sent_replies_def pending_replies_def)
  next
    case ReadSlot
    show ?thesis
    proof (cases "br_closed b (sr_grant request)")
      case True
      then show ?thesis using ReadSlot b1 by (simp add: resume_job_def handled_refl)
    next
      case False
      then obtain s where s: "admit_resume request (request_origins (sr_keys request) b) (br_scheduler b) = Some s"
        "b1 = b\<lparr>br_scheduler := s\<rparr>" using ReadSlot b1 by (auto simp: resume_job_def)
      have "carried {#} b1" if "carried {#} b"
      proof -
        have inv: "sched_inv (br_closed b) (br_scheduler b)" using that by (simp add: carried_def)
        show ?thesis
          using that admit_resume_work [OF inv s(1)] admit_resume_inv [OF inv s(1)] admit_resume_resumes [OF s(1)] ReadSlot
          by (auto simp: carried_def s(2))
      qed
      then show ?thesis
        by (auto simp: handled_def actor_ok_def s(2)) (auto simp: slots_ok_def nonces_ok_def pending_ok_def)
    qed
  qed
  then show ?thesis using pump_handled [OF pump] handled_trans0 by blast
qed

lemma release_handled: "handled {#} b (b\<lparr>br_capacity := release kind job (br_capacity b)\<rparr>)"
proof -
  have "dom (cap_slots (release kind job c)) = dom (cap_slots c)" for c
    by (auto simp: release_def split: option.split)
  moreover have le: "card (holders k (release kind job c)) \<le> card (holders k c)" for k c
    by (auto simp: holders_release card_Diff1_le)
  ultimately show ?thesis
    using carried_eq [of "b\<lparr>br_capacity := release kind job (br_capacity b)\<rparr>" b]
      all_replies_eq [of "b\<lparr>br_capacity := release kind job (br_capacity b)\<rparr>" b]
    by (auto simp: handled_def actor_ok_def slots_ok_def nonces_ok_def pending_ok_def intro: order_trans [OF le])
qed

lemma broker_step_handled:
  assumes "broker_step b e b'"
  shows "handled (mset (event_replies e)) b b'"
  using assms
proof (cases rule: broker_step.cases)
  case (br_submit replies submission env deadline)
  then show ?thesis using submit_handled by simp
next
  case (br_candidates env route r)
  then show ?thesis
    by (auto simp: candidates_def split: prod.splits intro!: actor_ok_eq)
next
  case (br_timer env)
  then show ?thesis using timer_handled by simp
next
  case (br_head env chain_id n)
  obtain usable cache where obs: "observe_head chain_id n (be_now env) (br_cache b) = (usable, cache)" by fastforce
  have "handled {#} b (b\<lparr>br_cache := cache\<rparr>)" by (rule actor_ok_eq) simp_all
  moreover have "handled {#} (b\<lparr>br_cache := cache\<rparr>) b'"
    using br_head obs flush_handled by (auto simp: head_observed_def Let_def handled_refl split: if_splits)
  ultimately show ?thesis using br_head handled_trans0 by auto
next
  case (br_invalidate env chain_id)
  have "handled {#} b (b\<lparr>br_cache := invalidate_head chain_id (br_cache b)\<rparr>)" by (rule actor_ok_eq) simp_all
  then show ?thesis using br_invalidate flush_handled handled_trans0 by (auto simp: invalidate_def)
next
  case (br_done job work completions env requests)
  obtain b1 where b1: "complete_job env completions requests (finish_job job b) = Some b1" "pump_ready env b1 = Some b'"
    using br_done by (auto simp: job_done_def bind_eq_Some_conv)
  then show ?thesis
    using complete_done_handled [OF br_done(2,3) b1(1)] pump_handled [OF b1(2)] handled_trans0 br_done(1) by auto
next
  case (br_slot env request)
  then show ?thesis using slot_requested_handled by simp
next
  case (br_release kind job)
  then show ?thesis using release_handled by simp
next
  case (br_close closed)
  have "carried {#} b'" if "carried {#} b"
    using that br_close sched_inv_closed_mono by (auto simp: carried_def active_tags_def running_work_def)
  then show ?thesis using br_close
    by (auto simp: handled_def actor_ok_def slots_ok_def nonces_ok_def pending_ok_def all_replies_def
        active_replies_def sent_replies_def pending_replies_def)
next
  case (br_pump env)
  then show ?thesis using pump_handled by simp
qed (auto intro!: actor_ok_eq)


definition starts :: "broker \<Rightarrow> bool" where
  "starts b \<longleftrightarrow> (\<exists>interval max_in_flight probe_limit.
    b = new_broker interval max_in_flight probe_limit \<and> max_in_flight < 2 ^ 64 \<and> probe_limit < 2 ^ 64)"

lemma new_scheduler_inv: "sched_inv closed new_scheduler"
  by (simp add: sched_inv_def lists_ok_def sched_ok_def new_scheduler_def)

lemma starts_ok:
  assumes "starts b"
  shows "actor_ok b \<and> all_replies b = {#}"
proof -
  have "exact empty_capacity" "holders k empty_capacity = {}" for k
    using empty_capacity_inv by (auto simp: exact_def capacity_inv_def empty_capacity_def holders_def holds_def)
  then show ?thesis using assms
    by (auto simp: starts_def new_broker_def actor_ok_def carried_def slots_ok_def nonces_ok_def pending_ok_def
        all_replies_def active_replies_def sent_replies_def pending_replies_def active_tags_def running_work_def
        new_scheduler_inv) (auto simp: new_scheduler_def empty_capacity_def)
qed

interpretation broker: transition_system starts broker_step "\<lambda>b. br_next_work_nonce b \<noteq> - 1 \<longrightarrow> actor_ok b"
proof (unfold_locales, goal_cases)
  case (1 s)
  then show ?case using starts_ok by blast
next
  case (2 s l t)
  then show ?case using broker_step_handled by (auto simp: handled_def)
qed

abbreviation broker_reachable :: "broker \<Rightarrow> bool" where
  "broker_reachable \<equiv> reach starts broker_step"

lemma run_handled: "trace broker_step b es b' \<Longrightarrow> handled (mset (concat (map event_replies es))) b b'"
proof (induction rule: trace.induct)
  case (trace_Cons s l t ls u)
  then show ?case using handled_trans [OF broker_step_handled [OF trace_Cons.hyps(1)]] by simp
qed (simp add: handled_refl)

section \<open>Shutdown\<close>

lemma fail_ready_books:
  assumes "carried X b" "error \<noteq> TimeoutBeforeDispatch"
  obtains b' where "fail_ready env error b = Some b'" "carried X b'" "all_replies b' = all_replies b" "settles b b'"
    "sched_work (br_scheduler b') = {#}"
proof -
  obtain cs s where dr: "drain error (br_scheduler b) = (cs, s)" by fastforce
  obtain "is" where "is": "cs = map (\<lambda>i. (wi_key i, Inl error)) is" "items_work is = sched_work (br_scheduler b)"
    "sched_work s = {#}" "rs_jobs s = []"
    using drain_work [OF dr] by blast
  define b1 where "b1 = b\<lparr>br_scheduler := s\<rparr>"
  have b1: "carried (items_work is + X) b1" "all_replies b1 = all_replies b" "settles b b1"
    using carried_scheduler [OF assms(1), of s "items_work is"] "is" drain_inv [OF dr] by (simp_all add: b1_def)
  show ?thesis
  proof (cases "is = []")
    case True
    then show ?thesis using that b1 dr "is" by (simp add: fail_ready_def b1_def)
  next
    case False
    have ret: "retires env b1 cs" using assms(2) by (auto simp: retires_def "is"(1))
    obtain b' where b': "complete_job env cs [] b1 = Some b'" "br_scheduler b' = br_scheduler b1" "settles b1 b'"
      using complete_job_retires [OF ret] by metis
    have books: "carried X b' \<and> all_replies b' = all_replies b1 \<and> settles b1 b'"
      by (rule complete_job_books [OF _ _ b'(1), of "map item_tag is"])
        (use b1(1) "is"(1) in \<open>simp_all add: tags_of_items item_tag_def\<close>)
    show ?thesis
    proof (rule that)
      show "fail_ready env error b = Some b'" using dr False b'(1) by (simp add: fail_ready_def "is"(1) flip: b1_def)
      show "settles b b'" by (rule settles_trans [OF b1(3) b'(3)])
      show "sched_work (br_scheduler b') = {#}" using b'(2) "is"(3) by (simp add: b1_def)
    qed (use books b1(2) in simp_all)
  qed
qed

text \<open>Each running job finishes once and settles its items.\<close>

definition outputs_cover :: "(nat \<times> completion list \<times> request_event list) list \<Rightarrow> broker \<Rightarrow> bool" where
  "outputs_cover outputs b \<longleftrightarrow> mset (map fst outputs) = mset (map fst (br_running b))
    \<and> (\<forall>(job, cs, _) \<in> set outputs. \<forall>work. (job, work) \<in> set (br_running b)
        \<longrightarrow> mset (map fst cs) = image_mset wi_key (mset (items work)))"

lemma drain_jobs_books:
  "drain_jobs env outputs b = Some b' \<Longrightarrow> carried {#} b \<Longrightarrow> slots_ok b \<Longrightarrow> outputs_cover outputs b \<Longrightarrow>
    carried {#} b' \<and> all_replies b' = all_replies b \<and> br_running b' = [] \<and> br_pending b' = br_pending b"
proof (induction outputs arbitrary: b)
  case (Cons out outputs)
  obtain job cs reqs where out: "out = (job, cs, reqs)" by (cases out)
  obtain b1 where b1: "complete_job env cs reqs (finish_job job b) = Some b1" "drain_jobs env outputs b1 = Some b'"
    using Cons.prems(1) out by (auto simp: bind_eq_Some_conv)
  have cover: "add_mset job (mset (map fst outputs)) = mset (map fst (br_running b))"
    using Cons.prems(4) out by (simp add: outputs_cover_def)
  then have "job \<in> fst ` set (br_running b)" by (metis list.set_map set_mset_mset union_single_eq_member)
  then obtain work where work: "(job, work) \<in> set (br_running b)" by auto
  have keys: "mset (map fst cs) = image_mset wi_key (mset (items work))"
    using Cons.prems(4) out work by (simp add: outputs_cover_def)
  note fin = finish_job_books [OF Cons.prems(2,3) work]
  have books: "carried {#} b1 \<and> all_replies b1 = all_replies b \<and> settles (finish_job job b) b1"
    using complete_running_books [OF fin(1) keys b1(1)] fin(3) by simp
  then have settled: "settles (finish_job job b) b1" by blast
  note frame = settlesD [OF settled]
  have dist: "distinct (map fst (br_running b))" using Cons.prems(3) by (simp add: slots_ok_def)
  have "map fst (br_running b1) = filter (\<lambda>j. j \<noteq> job) (map fst (br_running b))"
    by (simp add: frame(6) filter_map comp_def case_prod_unfold)
  then have "map fst (br_running b1) = remove1 job (map fst (br_running b))"
    using dist by (simp add: distinct_remove1_removeAll removeAll_filter_not_eq eq_commute)
  then have "mset (map fst (br_running b1)) = mset (map fst (br_running b)) - {#job#}"
    by (simp only: mset_remove1)
  then have "mset (map fst (br_running b1)) = mset (map fst outputs)" by (simp only: cover [symmetric]) simp
  then have "outputs_cover outputs b1"
    using Cons.prems(4) out frame(6) by (auto simp: outputs_cover_def)
  then show ?case
    using Cons.IH [OF b1(2)] books fin(2) slots_ok_settles [OF settled] frame(4) by simp
qed (simp add: outputs_cover_def)

end
