(* ===== verification/BrokerProperties.thy ===== *)
theory BrokerProperties
  imports BrokerInvariants
begin

text \<open>
  What the broker's actor promises, as properties of its runs: no read is lost or answered twice, the
  work it registered is carried by one place, the slot limits hold, a pump returns, and shutdown
  answers whatever is left.
\<close>


text \<open>
  C1: Every read gets its answer, and only one. Whatever happens to the actor, the reply channels it was
  given are at any time exactly those it has answered, those registered with active work and those
  of pending submissions, with multiplicities: none is dropped and none is answered twice.
\<close>

theorem broker_conserves_replies:
  assumes "starts b0" "trace broker_step b0 es b" "br_next_work_nonce b \<noteq> - 1"
  shows "mset (concat (map event_replies es)) = sent_replies b + active_replies b + pending_replies b
    \<and> (distinct (concat (map event_replies es)) \<longrightarrow> distinct (map fst (br_sent b))
        \<and> (\<forall>reply \<in> fst ` set (br_sent b). reply \<notin># active_replies b + pending_replies b))"
proof -
  have "all_replies b = mset (concat (map event_replies es))"
    using run_handled [OF assms(2)] assms(3) starts_ok [OF assms(1)] by (simp add: handled_def)
  then have eq: "mset (concat (map event_replies es)) = sent_replies b + (active_replies b + pending_replies b)"
    by (simp add: all_replies_def add.assoc)
  have "distinct (map fst (br_sent b)) \<and> (\<forall>reply \<in> fst ` set (br_sent b). reply \<notin># active_replies b + pending_replies b)"
    if "distinct (concat (map event_replies es))"
  proof -
    obtain waiting where waiting: "mset waiting = active_replies b + pending_replies b"
      using ex_mset by blast
    have "mset (concat (map event_replies es)) = mset (map fst (br_sent b) @ waiting)"
      using eq by (simp add: waiting sent_replies_def)
    then have "distinct (map fst (br_sent b) @ waiting)" using that mset_eq_imp_distinct_iff by blast
    moreover have "set waiting = set_mset (active_replies b + pending_replies b)"
      by (metis waiting set_mset_mset)
    ultimately show ?thesis by auto
  qed
  then show ?thesis using eq by (simp add: add.assoc)
qed


section \<open>A small run\<close>

text \<open>An environment and a broker with one balance read pending, answered on channel 7.\<close>

definition quiet_env :: broker_env where
  "quiet_env = \<lparr>be_lib = sample_lib, be_now = 100, be_send_ok = (\<lambda>_. True), be_verified = (\<lambda>_ _. False),
    be_excludes = (\<lambda>_ _. False), be_order = (\<lambda>indexes. indexes)\<rparr>"

definition balance_submission :: rpc_submission where
  "balance_submission = \<lparr>sub_route = new_rpc_route sample_route, sub_reads = [balance_read],
    sub_origin = WalletOrigin Staking\<rparr>"

definition one_pending :: "nat \<Rightarrow> nat \<Rightarrow> broker" where
  "one_pending m p = enqueue quiet_env balance_submission [7] None (new_broker 15 m p)"

lemma add_zero_load: "rl_calls load < 2 ^ 64 \<Longrightarrow> add_load zero_load load = load"
  using unsigned_less [of "rl_gas load", where ?'a = nat] by (simp add: add_load_def zero_load_def usize_add_def checked_add_def)

lemma one_pending_load:
  "submission_load balance_submission = \<lparr>rl_calls = 1, rl_gas = estimated_gas balance_read, rl_overflowed = False\<rparr>"
  "pending_load (new_rpc_route sample_route) (one_pending m p)
    = \<lparr>rl_calls = 1, rl_gas = estimated_gas balance_read, rl_overflowed = False\<rparr>"
  "\<not> reaches \<lparr>rl_calls = 1, rl_gas = estimated_gas balance_read, rl_overflowed = False\<rparr> (new_rpc_route sample_route)"
  by (simp_all add: submission_load_def balance_submission_def one_pending_def enqueue_def pending_load_def new_broker_def
      rpc_route_eq_def chain_route_eq_def add_load_def zero_load_def item_load_def reaches_def estimated_gas_def
      balance_read_def new_rpc_route_def checked_add_def usize_add_def DEFAULT_MAX_CALLS_def
      DEFAULT_MAX_ESTIMATED_GAS_def)

lemma not_reaches_not_exceeds: "\<not> reaches load route \<Longrightarrow> \<not> exceeds load route"
  by (auto simp: reaches_def exceeds_def)

lemma one_pending_submitted:
  "broker_step (new_broker 15 m p) (SubmitEvent balance_submission [7] None) (one_pending m p)"
proof (rule br_submit [where env = quiet_env])
  have route: "sub_route balance_submission = new_rpc_route sample_route"
    by (simp add: balance_submission_def)
  have "pending_load (new_rpc_route sample_route) (new_broker 15 m p) = zero_load"
    by (simp add: pending_load_def new_broker_def)
  then have "\<not> would_cross_threshold balance_submission (new_broker 15 m p)"
    using one_pending_load(3) not_reaches_not_exceeds
    by (simp add: would_cross_threshold_def one_pending_load(1) route add_zero_load)
  moreover have "\<not> pending_exceeds balance_submission"
    using one_pending_load(3) not_reaches_not_exceeds by (simp add: pending_exceeds_def one_pending_load(1) route)
  moreover have "br_pending (one_pending m p) = [\<lparr>ps_submission = balance_submission, ps_replies = [7], ps_deadline = None\<rparr>]"
    by (simp add: one_pending_def enqueue_def new_broker_def)
  then have "\<not> any_threshold_reached (one_pending m p)"
    using one_pending_load(2,3) by (simp add: any_threshold_reached_def route)
  ultimately show "submit quiet_env balance_submission [7] None (new_broker 15 m p) = Some (one_pending m p)"
    by (simp add: submit_def deadline_passed_def one_pending_def [symmetric])
qed (simp add: balance_submission_def)

lemma starts_new:
  assumes "m < 2 ^ 64" "p < 2 ^ 64"
  shows "starts (new_broker 15 m p)"
  unfolding starts_def using assms by (intro exI [of _ 15] exI [of _ m] exI [of _ p]) simp

lemma one_pending_run:
  "trace broker_step (new_broker 15 m p) [SubmitEvent balance_submission [7] None] (one_pending m p)"
  using one_pending_submitted trace_Nil by (rule trace_Cons [where step = broker_step])

lemma one_pending_reachable:
  assumes "m < 2 ^ 64" "p < 2 ^ 64"
  shows "broker_reachable (one_pending m p)"
  by (rule reach_trace [OF one_pending_run]) (simp add: reach_start starts_new [OF assms])

lemma one_pending_nonce [simp]: "br_next_work_nonce (one_pending m p) = 1"
  by (simp add: one_pending_def enqueue_def new_broker_def)

lemma broker_conserves_replies_witness:
  "mset [7] = sent_replies (one_pending 4 8) + active_replies (one_pending 4 8) + pending_replies (one_pending 4 8)"
  using broker_conserves_replies [OF starts_new [of 4 8] one_pending_run]
  by (simp add: one_pending_def enqueue_def new_broker_def)


section \<open>Work, slots and pumps\<close>

lemma broker_actor_ok:
  assumes "broker_reachable b" "br_next_work_nonce b \<noteq> - 1"
  shows "actor_ok b"
  using broker.reach_inv [OF assms(1)] assms(2) by blast

lemma count_active_tags:
  assumes "finite (dom (br_active b))" "br_active b k = Some a"
  shows "count (active_tags b) (k, w) = (if w = aw_waiters a then 1 else 0)"
proof -
  have "active_tags b = add_mset (k, aw_waiters a) (table_sum (\<lambda>k a. {#(k, aw_waiters a)#}) ((br_active b)(k := None)))"
    using table_sum_remove [OF assms, of "\<lambda>k a. {#(k, aw_waiters a)#}"] by (simp add: active_tags_def)
  moreover have "(k, w) \<notin># table_sum (\<lambda>k a. {#(k, aw_waiters a)#}) ((br_active b)(k := None))"
    using assms(1) by (auto simp: table_sum_def set_mset_sum)
  ultimately show ?thesis by (auto simp: not_in_iff)
qed

text \<open>
  C5: Registered work is carried exactly once. As long as the work nonce is not used up, the work queued
  in the scheduler and in running jobs is exactly the table of active reads, with multiplicities: an
  active read is in one place only (never dispatched twice, never forgotten), and nothing is queued or
  running that no active read stands for.
\<close>

theorem broker_work_carried_once:
  assumes "broker_reachable b" "br_next_work_nonce b \<noteq> - 1"
  shows "(\<forall>k a. br_active b k = Some a \<longrightarrow>
      count (sched_work (br_scheduler b) + running_work b) (k, aw_waiters a) = 1)
    \<and> (\<forall>(k, w) \<in># sched_work (br_scheduler b) + running_work b. \<exists>a. br_active b k = Some a \<and> aw_waiters a = w)"
proof -
  have carried: "carried {#} b" using broker_actor_ok [OF assms] by (simp add: actor_ok_def)
  then have eq: "sched_work (br_scheduler b) + running_work b = active_tags b" by (simp add: carried_def)
  have fin: "finite (dom (br_active b))" using carried by (simp add: carried_def)
  have "\<exists>a. br_active b k = Some a \<and> aw_waiters a = w" if "(k, w) \<in># active_tags b" for k w
    using that fin by (auto simp: active_tags_def table_sum_def set_mset_sum)
  then show ?thesis using count_active_tags [OF fin] by (auto simp: eq)
qed

text \<open>The same read after a flush, with no slot free to start it.\<close>

definition queued_balance :: work_item where
  "queued_balance = queued_read\<lparr>wi_key := (wi_key queued_read)\<lparr>wk_nonce := 1\<rparr>\<rparr>"

definition queued_active :: active_work where
  "queued_active = \<lparr>aw_read = balance_read, aw_execution_route = new_rpc_route sample_route,
    aw_origins = [WalletOrigin Staking], aw_replies = [7], aw_waiters = 0\<rparr>"

lemma one_pending_resolved:
  "resolve_pending quiet_env (br_pending (one_pending 0 0)) ([], (one_pending 0 0)\<lparr>br_next_flush_at := None, br_pending := []\<rparr>)
    = Some ([queued_balance], (one_pending 0 0)\<lparr>br_next_flush_at := None, br_pending := [], br_next_work_nonce := 2,
        br_active := [wi_key queued_balance \<mapsto> queued_active],
        br_next_address := 1, br_waiters := (br_waiters (one_pending 0 0))(0 := [\<lparr>wp_deadline = None,
          wp_attempt_timeout = rt_attempt_timeout (new_rpc_route sample_route)\<rparr>])\<rparr>)"
  by (simp add: one_pending_def enqueue_def new_broker_def balance_submission_def deadline_passed_def resolve_read_def
      read_epoch_def reads_latest_def balance_read_def reuse_block_id_def quiet_env_def empty_cache_def
      reconcile_latest_cache_epoch_def resolve_dedupable_def Let_def work_key_of_def register_work_def queued_balance_def
      queued_active_def queued_read_def latest_block_def expected_epoch_def identity_for_route_def isolation_id_def
      new_rpc_route_def sample_route_def new_with_transports_def saturating_add_def)

lemma one_pending_flushed:
  "\<exists>b'. flush quiet_env (one_pending 0 0) = Some b' \<and> br_active b' = [wi_key queued_balance \<mapsto> queued_active]
    \<and> br_next_work_nonce b' = 2"
  by (simp only: flush_def one_pending_resolved Let_def bind.bind_lunit)
    (simp add: partition_and_admit_def one_pending_def enqueue_def new_broker_def group_work_def partition_work_def Let_def
      chunk_jobs_def batched_def queued_read_def queued_balance_def new_rpc_route_def sample_route_def
      new_with_transports_def admit_job_def allocate_ready_id_def new_scheduler_def checked_add_def items_def
      push_ref_def lane_mut_def quiet_env_def pump_ready_def expire_ready_def expire_def expire_entry_def
      item_expired_def merged_deadline_def prune_refs_def)

lemma broker_work_carried_once_witness:
  "\<exists>b. broker_reachable b \<and> count (sched_work (br_scheduler b) + running_work b) (wi_key queued_balance, 0) = 1"
proof -
  obtain b where b: "flush quiet_env (one_pending 0 0) = Some b" "br_active b = [wi_key queued_balance \<mapsto> queued_active]"
    "br_next_work_nonce b = 2" using one_pending_flushed by blast
  have same: "(one_pending 0 0)\<lparr>br_cache := invalidate_head 1 (br_cache (one_pending 0 0))\<rparr> = one_pending 0 0"
    by (simp add: one_pending_def enqueue_def new_broker_def invalidate_head_def evict_latest_def empty_cache_def)
  have "broker_step (one_pending 0 0) (InvalidateEvent 1) b"
    by (rule br_invalidate [where env = quiet_env]) (simp add: invalidate_def same b(1))
  then have "broker_reachable b"
    using reach_step [where step = broker_step] one_pending_reachable [of 0 0] by simp
  then show ?thesis
    using conjunct1 [OF broker_work_carried_once, rule_format, of b "wi_key queued_balance" queued_active] b(2,3)
    \<open>broker_reachable b\<close> by (auto simp: queued_active_def)
qed

text \<open>
  C33: Slot limits. The counters the actor reads never exceed its limits: at most \<open>max_in_flight\<close> jobs hold
  a read slot and at most the probe limit hold a runner slot, and only running jobs hold slots, so
  every slot is given back when its job ends.
\<close>

theorem broker_slot_limits:
  assumes "broker_reachable b" "br_next_work_nonce b \<noteq> - 1"
  shows "unat (held ReadSlot (br_capacity b)) \<le> br_max_in_flight b
    \<and> unat (held RunnerSlot (br_capacity b)) \<le> br_probe_limit b
    \<and> (\<forall>kind. holders kind (br_capacity b) \<subseteq> fst ` set (br_running b))
    \<and> (br_running b = [] \<longrightarrow> (\<forall>kind. held kind (br_capacity b) = 0))"
proof -
  have ok: "slots_ok b" using broker_actor_ok [OF assms] by (simp add: actor_ok_def)
  note held = slots_ok_held [OF ok]
  have sub: "holders kind (br_capacity b) \<subseteq> fst ` set (br_running b)" for kind
    using ok by (auto simp: slots_ok_def holders_def holds_def split: option.splits)
  have "held kind (br_capacity b) = 0" if "br_running b = []" for kind
    using sub [of kind] that held by (cases kind) (auto simp: unat_eq_0)
  then show ?thesis using held sub ok by (auto simp: slots_ok_def)
qed

lemma broker_slot_limits_witness: "held ReadSlot (br_capacity (one_pending 4 8)) = 0"
  using broker_slot_limits [OF one_pending_reachable [of 4 8]]
  by (simp add: one_pending_def enqueue_def new_broker_def)

text \<open>
  C39: A pump returns. \<open>pump_ready\<close> loops until a limit is reached or nothing can start; in every reachable
  state it ends without a panic, whatever the environment answers, and leaves pending submissions alone.
\<close>

theorem pump_ready_returns:
  assumes "broker_reachable b" "br_next_work_nonce b \<noteq> - 1"
  shows "\<exists>b'. pump_ready env b = Some b' \<and> br_pending b' = br_pending b \<and> dom (br_active b') \<subseteq> dom (br_active b)"
proof -
  have "drives {#} b (pump_ready env b)"
    by (rule pump_ready_drives) (use broker_actor_ok [OF assms] in \<open>simp_all add: actor_ok_def\<close>)
  then show ?thesis by (auto simp: drives_def pumpsD)
qed

lemma pump_ready_returns_witness: "\<exists>b'. pump_ready quiet_env (one_pending 4 8) = Some b'"
  using pump_ready_returns [OF one_pending_reachable [of 4 8], of quiet_env] by auto


section \<open>Shutdown\<close>

lemma active_replies_none:
  assumes "carried {#} b" "sched_work (br_scheduler b) = {#}" "br_running b = []"
  shows "br_active b = Map.empty"
proof -
  have "active_tags b = {#}" "finite (dom (br_active b))"
    using assms by (simp_all add: carried_def running_work_def)
  then have "br_active b k = None" for k
    using count_active_tags [of b k _ "aw_waiters (the (br_active b k))"] by (cases "br_active b k") auto
  then show ?thesis by auto
qed

lemma fail_pending_books:
  assumes "actor_ok b"
  shows "carried {#} ((fail_pending e b)\<lparr>br_runner_waiters := []\<rparr>)"
    "slots_ok ((fail_pending e b)\<lparr>br_runner_waiters := []\<rparr>)"
    "all_replies ((fail_pending e b)\<lparr>br_runner_waiters := []\<rparr>) = all_replies b"
    "br_pending ((fail_pending e b)\<lparr>br_runner_waiters := []\<rparr>) = []"
    "br_running ((fail_pending e b)\<lparr>br_runner_waiters := []\<rparr>) = br_running b"
  using assms
  by (simp_all add: fail_pending_def actor_ok_def carried_def active_tags_def running_work_def slots_ok_def
      all_replies_def active_replies_def sent_replies_def pending_replies_def send_all_def comp_def)

text \<open>
  C32: Shutdown answers everything. When the command channel closes, and the jobs still running each finish
  once and settle their items, the actor ends with no pending submission, no active read and no
  running job, and has answered every reply channel it was ever given, those of submissions still in
  its mailbox included, exactly as often as it was given it.
\<close>

theorem shutdown_answers_all:
  assumes "starts b0" "trace broker_step b0 es b" "br_next_work_nonce b \<noteq> - 1"
    and "outputs_cover outputs b" "shutdown env outputs queued b = Some b'"
  shows "br_pending b' = [] \<and> br_active b' = Map.empty \<and> br_running b' = []
    \<and> mset (map fst (br_sent b')) = mset (concat (map event_replies es)) + mset (concat queued)"
proof -
  have ok: "actor_ok b" and all: "all_replies b = mset (concat (map event_replies es))"
    using run_handled [OF assms(2)] assms(3) starts_ok [OF assms(1)] by (simp_all add: handled_def)
  define f where "f = (fail_pending ShutdownError b)\<lparr>br_runner_waiters := []\<rparr>"
  note f = fail_pending_books [OF ok, of ShutdownError, folded f_def]
  obtain b1 where b1: "fail_ready env ShutdownError f = Some b1" "carried {#} b1" "all_replies b1 = all_replies f"
    "settles f b1"
    using fail_ready_books [OF f(1), of ShutdownError env] by auto
  obtain b2 b3 where b2: "drain_jobs env outputs b1 = Some b2"
    and b3: "fail_ready env ShutdownError b2 = Some b3" "b' = send_all (concat queued) (Inl ShutdownError) b3"
    using assms(5) b1(1) unfolding shutdown_def f_def by (auto simp: bind_eq_Some_conv)
  note frame = settlesD [OF b1(4)]
  have "outputs_cover outputs b1" using assms(4) by (simp add: outputs_cover_def frame(6) f(5))
  moreover have "slots_ok b1" using f(2) slots_ok_settles [OF b1(4)] by simp
  ultimately have drained: "carried {#} b2 \<and> all_replies b2 = all_replies b1 \<and> br_running b2 = []
      \<and> br_pending b2 = br_pending b1"
    using drain_jobs_books [OF b2 b1(2)] by blast
  then obtain c where c: "fail_ready env ShutdownError b2 = Some c" "carried {#} c" "all_replies c = all_replies b2"
    "settles b2 c" "sched_work (br_scheduler c) = {#}"
    using fail_ready_books [of "{#}" b2 ShutdownError env] by auto
  then have [simp]: "c = b3" using b3(1) by simp
  note frame3 = settlesD [OF c(4)]
  have run: "br_running b3 = []" "br_pending b3 = []" using frame3 drained frame f(4) by simp_all
  have none: "br_active b3 = Map.empty" using active_replies_none c(2,5) run(1) by simp
  have "all_replies b3 = mset (concat (map event_replies es))"
    using c(3) drained b1(3) f(3) all by simp
  then have "sent_replies b3 = mset (concat (map event_replies es))"
    using none run by (simp add: all_replies_def active_replies_def pending_replies_def)
  then show ?thesis using none run b3(2) by (simp add: sent_replies_def send_all_def comp_def)
qed

lemma one_pending_shutdown:
  "shutdown quiet_env [] [[8]] (one_pending 4 8) = Some (send_all [8] (Inl ShutdownError)
    ((fail_pending ShutdownError (one_pending 4 8))\<lparr>br_runner_waiters := []\<rparr>))"
  by (simp add: shutdown_def fail_ready_def fail_pending_def one_pending_def enqueue_def new_broker_def drain_def
      new_scheduler_def send_all_def)

lemma shutdown_answers_all_witness:
  "mset (map fst (br_sent (the (shutdown quiet_env [] [[8]] (one_pending 4 8))))) = {#7, 8#}"
  using shutdown_answers_all [OF starts_new [of 4 8] one_pending_run _ _ one_pending_shutdown]
  by (simp add: one_pending_shutdown outputs_cover_def) (simp add: one_pending_def enqueue_def new_broker_def)

end
