(* ===== verification/SwapOrders.thy ===== *)
theory SwapOrders
  imports Prelude
begin

text \<open>
  The orders of a swap in an executor's record: \<open>SwapOperationRecord\<close>, \<open>SwapOrderRecord\<close> with what the
  user approved, what was signed and what is observed of them, from
  \<open>crates/wallet-ops/src/vault/executors/swap.rs\<close>, and the rules for recording a bridge's outcome. Texts
  that are only kept (a signed quote, a deadline) are strings, a 65-byte signature is a word.
\<close>

section \<open>Deliveries\<close>

record block_num_hash =
  bn_number :: u64
  bn_hash :: b256

datatype bridge_provider = Across | NearIntents

datatype bridge_surplus = ReshieldSurplus | KeepInAccount | BridgedByProvider

datatype bridge_shield_failure = RefundOnOrigin | KeepOnDestination

record bridge_delivery =
  bd_provider :: bridge_provider
  bd_destination_chain :: u64
  bd_receiver :: address
  bd_destination_token :: address
  bd_surplus :: bridge_surplus
  bd_private :: "bridge_shield_failure option"

datatype non_evm_network = Bitcoin | Solana | Tron

record non_evm_delivery =
  ne_network :: non_evm_network
  ne_receiver :: string
  ne_asset_id :: string
  ne_contract :: "string option"
  ne_symbol :: string
  ne_decimals :: u8

datatype swap_delivery =
    Reshield
  | External address
  | Bridge bridge_delivery
  | NonEvmBridge non_evm_delivery

definition bridge_is_private :: "bridge_delivery \<Rightarrow> bool" where
  "bridge_is_private d = (bd_private d \<noteq> None)"

definition has_valid_private_delivery :: "bridge_delivery \<Rightarrow> bool" where
  "has_valid_private_delivery d \<longleftrightarrow> bd_private d = None \<or> bd_provider d = Across"

definition has_valid_surplus :: "bridge_delivery \<Rightarrow> bool" where
  "has_valid_surplus d =
    (case (bd_provider d, bd_surplus d) of
       (Across, ReshieldSurplus) \<Rightarrow> True
     | (Across, KeepInAccount) \<Rightarrow> True
     | (NearIntents, BridgedByProvider) \<Rightarrow> True
     | _ \<Rightarrow> False)"

definition private_bridge :: "swap_delivery \<Rightarrow> bridge_delivery option" where
  "private_bridge d = (case d of Bridge b \<Rightarrow> if bridge_is_private b then Some b else None | _ \<Rightarrow> None)"

definition is_bridge :: "swap_delivery \<Rightarrow> bool" where
  "is_bridge d = (case d of Bridge _ \<Rightarrow> True | NonEvmBridge _ \<Rightarrow> True | _ \<Rightarrow> False)"

definition provider_of :: "swap_delivery \<Rightarrow> bridge_provider option" where
  "provider_of d = (case d of Bridge b \<Rightarrow> Some (bd_provider b) | NonEvmBridge _ \<Rightarrow> Some NearIntents | _ \<Rightarrow> None)"

definition has_post_hook :: "swap_delivery \<Rightarrow> bool" where
  "has_post_hook d = (case d of Reshield \<Rightarrow> True | Bridge b \<Rightarrow> bd_provider b = Across | _ \<Rightarrow> False)"

section \<open>Observations\<close>

record swap_observation =
  ob_block :: block_num_hash
  ob_transaction_hash :: "b256 option"

record swap_shield_observation =
  sb_observation :: swap_observation
  sb_private_amount :: u256
  sb_fee :: "u256 option"

datatype pre_hook_death_cause = CancellationDeath | RecoveryDeath | OlderPostHook | ExpiredDeath | UnknownDeath

record swap_trade_amounts =
  tm_sell_amount :: u256
  tm_buy_amount :: u256
  tm_fee_amount :: u256
  tm_gas_used :: "u64 option"
  tm_gas_price :: "u128 option"
  tm_executed_fee :: "u256 option"
  tm_executed_fee_token :: "address option"

record pre_hook_death =
  pd_cause :: pre_hook_death_cause
  pd_observation :: swap_observation

record bridge_handoff =
  bh_observation :: swap_observation
  bh_deposit_id :: "u256 option"

datatype bridge_outcome =
    DeliveredVerified block_num_hash b256 u256 bool
  | DeliveredReported "u256 option" "b256 option" "string option"
  | Refunding
  | NeedsAttention
  | HeldOnDestination block_num_hash b256 u256

record order_observations =
  oo_pre_hook_executed :: "swap_observation option"
  oo_traded :: "swap_observation option"
  oo_trade_amounts :: "swap_trade_amounts option"
  oo_delivered :: "swap_observation option"
  oo_shielded :: "swap_shield_observation option"
  oo_settlement_credit :: "swap_shield_observation option"
  oo_pre_hook_dead :: "pre_hook_death option"
  oo_undelivered :: "swap_observation option"
  oo_expired :: "swap_observation option"
  oo_bridge_handoff :: "bridge_handoff option"
  oo_post_hook_deposit :: "swap_observation option"
  oo_bridge_outcome :: "bridge_outcome option"
  oo_bridge_refund :: "swap_observation option"

definition unobserved :: order_observations where
  "unobserved =
    \<lparr>oo_pre_hook_executed = None, oo_traded = None, oo_trade_amounts = None, oo_delivered = None, oo_shielded = None,
     oo_settlement_credit = None, oo_pre_hook_dead = None, oo_undelivered = None, oo_expired = None,
     oo_bridge_handoff = None, oo_post_hook_deposit = None, oo_bridge_outcome = None, oo_bridge_refund = None\<rparr>"

text \<open>The blocks on this chain, in the order of the source's array.\<close>

definition observed_blocks :: "order_observations \<Rightarrow> block_num_hash list" where
  "observed_blocks obs =
    map ob_block (List.map_filter (\<lambda>x. x)
      [oo_pre_hook_executed obs, oo_traded obs, oo_delivered obs, map_option sb_observation (oo_shielded obs),
       map_option sb_observation (oo_settlement_credit obs), map_option pd_observation (oo_pre_hook_dead obs),
       oo_undelivered obs, oo_expired obs, map_option bh_observation (oo_bridge_handoff obs),
       oo_post_hook_deposit obs, oo_bridge_refund obs])"

definition or_else :: "'a option \<Rightarrow> 'a option \<Rightarrow> 'a option" where
  "or_else x y = (case x of None \<Rightarrow> y | Some _ \<Rightarrow> x)"

definition kept_trade_amounts :: "order_observations \<Rightarrow> swap_trade_amounts \<Rightarrow> swap_trade_amounts" where
  "kept_trade_amounts obs amounts =
    (case oo_trade_amounts obs of
       Some known \<Rightarrow>
         if oo_traded obs \<noteq> None then
           amounts\<lparr>tm_gas_used := or_else (tm_gas_used known) (tm_gas_used amounts),
             tm_gas_price := or_else (tm_gas_price known) (tm_gas_price amounts),
             tm_executed_fee := or_else (tm_executed_fee known) (tm_executed_fee amounts),
             tm_executed_fee_token := or_else (tm_executed_fee_token known) (tm_executed_fee_token amounts)\<rparr>
         else amounts
     | None \<Rightarrow> amounts)"

definition post_hook_evidence :: "order_observations \<Rightarrow> bool" where
  "post_hook_evidence obs \<longleftrightarrow> oo_shielded obs \<noteq> None \<or> oo_post_hook_deposit obs \<noteq> None"

definition outcome_is_final :: "bridge_outcome \<Rightarrow> bool" where
  "outcome_is_final x = (x \<noteq> NeedsAttention)"

definition outcome_is_delivered :: "bridge_outcome \<Rightarrow> bool" where
  "outcome_is_delivered x =
    (case x of DeliveredVerified _ _ _ _ \<Rightarrow> True | DeliveredReported _ _ _ \<Rightarrow> True | _ \<Rightarrow> False)"

section \<open>Recording a bridge's outcome\<close>

record bridge_outcome_rules =
  rules_handed_off :: bool
  rules_private :: bool
  rules_destination_minimum :: "u256 option"
  rules_across :: bool
  rules_known :: "bridge_outcome option"
  rules_refund_verified :: bool

definition admits_outcome :: "bridge_outcome_rules \<Rightarrow> bridge_outcome \<Rightarrow> bool" where
  "admits_outcome rules x =
    (let private_fits =
           (case x of
              DeliveredVerified _ _ _ shielded \<Rightarrow> shielded = rules_private rules
            | HeldOnDestination _ _ _ \<Rightarrow> rules_private rules
            | _ \<Rightarrow> True);
         below_minimum =
           (case x of
              DeliveredVerified _ _ output_amount _ \<Rightarrow>
                (case rules_destination_minimum rules of None \<Rightarrow> True | Some minimum \<Rightarrow> output_amount < minimum)
            | _ \<Rightarrow> False);
         corrects_refund =
           (rules_known rules = Some Refunding
            \<and> (case x of DeliveredVerified _ _ _ _ \<Rightarrow> True | HeldOnDestination _ _ _ \<Rightarrow> True | _ \<Rightarrow> False)
            \<and> rules_across rules \<and> \<not> rules_refund_verified rules);
         corrects_report =
           ((case rules_known rules of Some (DeliveredReported _ _ _) \<Rightarrow> True | _ \<Rightarrow> False)
            \<and> (case x of DeliveredVerified _ _ _ _ \<Rightarrow> True | Refunding \<Rightarrow> True | _ \<Rightarrow> False)
            \<and> rules_across rules)
     in rules_handed_off rules \<and> private_fits \<and> \<not> below_minimum
        \<and> \<not> (case rules_known rules of
               None \<Rightarrow> False
             | Some known \<Rightarrow> outcome_is_final known \<and> known \<noteq> x \<and> \<not> corrects_refund \<and> \<not> corrects_report))"

definition bridge_refund_admitted ::
    "bool \<Rightarrow> bridge_outcome option \<Rightarrow> bridge_handoff option \<Rightarrow> swap_observation option \<Rightarrow> swap_observation \<Rightarrow> bool" where
  "bridge_refund_admitted across known_outcome handoff known refund \<longleftrightarrow>
    across \<and> known_outcome = Some Refunding \<and> ob_transaction_hash refund \<noteq> None
    \<and> (case handoff of None \<Rightarrow> False
       | Some h \<Rightarrow> bn_number (ob_block (bh_observation h)) < bn_number (ob_block refund))
    \<and> (case known of None \<Rightarrow> True | Some k \<Rightarrow> k = refund)"


section \<open>What an order was approved and signed with\<close>

record swap_recipient =
  rc_master_public_key :: u256
  rc_viewing_public_key :: b256

record swap_terms =
  st_sell_token :: address
  st_buy_token :: address
  st_recipient :: swap_recipient
  st_setup_payload :: b256

record input_identity =
  ei_tree :: u32
  ei_position :: u64
  ei_commitment :: u256

record swap_proof =
  pf_digest :: b256
  pf_inputs :: "input_identity list"

record across_order_terms =
  ac_spoke_pool :: address
  ac_input_token :: address
  ac_output_token :: address
  ac_input_amount :: u256
  ac_output_amount :: u256
  ac_quote_timestamp :: u32
  ac_fill_deadline :: u32
  ac_exclusive_relayer :: address
  ac_exclusivity_parameter :: u32
  ac_recipient :: "address option"
  ac_message_hash :: "b256 option"

record near_intents_order_terms =
  ni_deposit_address :: address
  ni_min_amount_out :: u256
  ni_amount_out :: u256
  ni_deadline :: string
  ni_signed_quote :: string

datatype bridge_order_terms = AcrossTerms across_order_terms | NearIntentsTerms near_intents_order_terms

definition terms_provider :: "bridge_order_terms \<Rightarrow> bridge_provider" where
  "terms_provider terms = (case terms of AcrossTerms _ \<Rightarrow> Across | NearIntentsTerms _ \<Rightarrow> NearIntents)"

definition deposit_recipient :: "across_order_terms \<Rightarrow> bridge_delivery \<Rightarrow> address" where
  "deposit_recipient terms delivery =
    (case ac_recipient terms of None \<Rightarrow> bd_receiver delivery | Some recipient \<Rightarrow> recipient)"

definition deposit_message_hash :: "across_order_terms \<Rightarrow> b256" where
  "deposit_message_hash terms = (case ac_message_hash terms of None \<Rightarrow> 0 | Some h \<Rightarrow> h)"

definition signs_same_deposit ::
    "across_order_terms \<Rightarrow> bridge_delivery \<Rightarrow> across_order_terms \<Rightarrow> bridge_delivery \<Rightarrow> bool" where
  "signs_same_deposit terms delivery other other_delivery \<longleftrightarrow>
    ac_spoke_pool terms = ac_spoke_pool other
    \<and> deposit_recipient terms delivery = deposit_recipient other other_delivery
    \<and> ac_message_hash terms = ac_message_hash other
    \<and> bd_destination_chain delivery = bd_destination_chain other_delivery
    \<and> ac_input_token terms = ac_input_token other \<and> ac_output_token terms = ac_output_token other
    \<and> ac_input_amount terms = ac_input_amount other \<and> ac_output_amount terms = ac_output_amount other
    \<and> ac_quote_timestamp terms = ac_quote_timestamp other \<and> ac_fill_deadline terms = ac_fill_deadline other
    \<and> ac_exclusive_relayer terms = ac_exclusive_relayer other"

record swap_anchor_observation =
  an_source :: address
  an_block :: block_num_hash
  an_block_timestamp :: u64
  an_updated_at :: "u64 option"

record swap_setup_fee_limit =
  fl_token :: address
  fl_amount :: u256

record swap_approved_bounds =
  bo_sell_amount :: u256
  bo_unshield_amount :: "u256 option"
  bo_unshield_fee_bps :: u256
  bo_buy_amount :: u256
  bo_private_minimum :: u256
  bo_shield_fee_bps :: u256
  bo_slippage_bps :: u32
  bo_pre_hook_gas_limit :: u64
  bo_post_hook_gas_limit :: "u64 option"
  bo_hook_cost :: "u256 option"
  bo_anchors :: "swap_anchor_observation list"
  bo_destination_minimum :: "u256 option"
  bo_gas_share_bps :: "16 word option"
  bo_gas_estimate :: "u256 option"
  bo_gas_allowance :: "u256 option"
  bo_gas_price_wei :: "u128 option"
  bo_valid_for_secs :: "u32 option"
  bo_destination_shield_fee_bps :: "u256 option"
  bo_delivery_allowance :: "u256 option"
  bo_destination_setup_fee :: "swap_setup_fee_limit option"
  bo_source_setup_fee :: "swap_setup_fee_limit option"

definition spend_amount :: "swap_approved_bounds \<Rightarrow> u256" where
  "spend_amount bounds =
    (case bo_unshield_amount bounds of None \<Rightarrow> bo_sell_amount bounds | Some amount \<Rightarrow> amount)"

record swap_submission =
  sn_signature :: "520 word"
  sn_quote_id :: "64 word option"

datatype swap_submission_status = SubmissionPending | SubmissionAccepted | SubmissionRejected

section \<open>Orders\<close>

type_synonym swap_use_id = u128
type_synonym order_uid = "448 word"

record swap_hook =
  sh_nonce :: u256
  sh_payload :: b256

record swap_order =
  so_terms :: "swap_terms option"
  so_attempt :: u32
  so_uid :: order_uid
  so_delivery :: swap_delivery
  so_bounds :: swap_approved_bounds
  so_pre_hook :: swap_hook
  so_post_hook :: "swap_hook option"
  so_invalidates :: "order_uid option"
  so_observations :: order_observations
  so_submission :: "swap_submission option"
  so_submission_status :: swap_submission_status
  so_bridge :: "bridge_order_terms option"
  so_use_id :: "swap_use_id option"

record swap_funding =
  sf_use_id :: swap_use_id
  sf_pre_hook_nonce :: u256
  sf_proof :: b256
  sf_observation :: swap_observation

record swap_operation =
  sw_terms :: swap_terms
  sw_proof :: swap_proof
  sw_orders :: "swap_order list"
  sw_fundings :: "swap_funding list"

definition order_terms :: "swap_operation \<Rightarrow> swap_order \<Rightarrow> swap_terms" where
  "order_terms sw o1 = (case so_terms o1 of None \<Rightarrow> sw_terms sw | Some terms \<Rightarrow> terms)"

definition operation_terms :: "swap_operation \<Rightarrow> swap_terms" where
  "operation_terms sw = (if sw_orders sw = [] then sw_terms sw else order_terms sw (last (sw_orders sw)))"

definition destination_delivered :: "swap_order \<Rightarrow> bool" where
  "destination_delivered o1 \<longleftrightarrow>
    \<not> is_bridge (so_delivery o1)
    \<or> (case oo_bridge_outcome (so_observations o1) of None \<Rightarrow> False | Some x \<Rightarrow> outcome_is_delivered x)"

definition has_ended :: "swap_order \<Rightarrow> bool" where
  "has_ended o1 \<longleftrightarrow>
    oo_pre_hook_dead (so_observations o1) \<noteq> None \<and> oo_pre_hook_executed (so_observations o1) = None"

definition traded_sibling :: "swap_operation \<Rightarrow> swap_order \<Rightarrow> swap_order option" where
  "traded_sibling sw o1 =
    Option.bind (so_use_id o1) (\<lambda>use.
      find (\<lambda>other. so_uid other \<noteq> so_uid o1 \<and> so_use_id other = Some use
          \<and> sh_nonce (so_pre_hook other) = sh_nonce (so_pre_hook o1)
          \<and> oo_traded (so_observations other) \<noteq> None) (sw_orders sw))"

definition funding :: "swap_operation \<Rightarrow> swap_order \<Rightarrow> swap_observation option" where
  "funding sw o1 =
    Option.bind (so_use_id o1) (\<lambda>use.
      if oo_pre_hook_dead (so_observations o1) \<noteq> None \<or> traded_sibling sw o1 \<noteq> None then None
      else map_option sf_observation
        (find (\<lambda>f. sf_use_id f = use \<and> sf_pre_hook_nonce f = sh_nonce (so_pre_hook o1)) (sw_fundings sw)))"

definition delivery_order :: "swap_operation \<Rightarrow> swap_order \<Rightarrow> swap_order option" where
  "delivery_order sw traded =
    (if oo_delivered (so_observations traded) \<noteq> None then Some traded
     else Option.bind (oo_traded (so_observations traded)) (\<lambda>trade.
       Option.bind (so_use_id traded) (\<lambda>use.
         find (\<lambda>o1. so_use_id o1 = Some use \<and> oo_traded (so_observations o1) = None
             \<and> (case oo_bridge_handoff (so_observations o1) of
                  None \<Rightarrow> False | Some handoff \<Rightarrow> bh_observation handoff = trade)) (sw_orders sw))))"

definition trade_order :: "swap_operation \<Rightarrow> swap_order \<Rightarrow> swap_order option" where
  "trade_order sw delivery =
    (if oo_traded (so_observations delivery) \<noteq> None
     then map_option (\<lambda>_. delivery) (oo_delivered (so_observations delivery))
     else Option.bind (oo_bridge_handoff (so_observations delivery)) (\<lambda>handoff.
       Option.bind (so_use_id delivery) (\<lambda>use.
         find (\<lambda>o1. so_use_id o1 = Some use \<and> oo_traded (so_observations o1) = Some (bh_observation handoff)
             \<and> oo_delivered (so_observations o1) = None) (sw_orders sw))))"

definition order_admits_attempt :: "swap_operation \<Rightarrow> swap_order \<Rightarrow> bool" where
  "order_admits_attempt sw o1 =
    (if oo_traded (so_observations o1) \<noteq> None then
       has_ended o1 \<or> (case delivery_order sw o1 of None \<Rightarrow> False | Some d \<Rightarrow> destination_delivered d)
     else if oo_bridge_handoff (so_observations o1) \<noteq> None then
       trade_order sw o1 \<noteq> None \<and> destination_delivered o1
     else has_ended o1 \<or> traded_sibling sw o1 \<noteq> None)"

definition admits_attempt :: "swap_operation \<Rightarrow> bool" where
  "admits_attempt sw = list_all (order_admits_attempt sw) (sw_orders sw)"

record swap_speed_up =
  sp_swap_use :: swap_use_id
  sp_order :: order_uid
  sp_pre_hook_nonce :: u256

text \<open>\<open>SwapAccountRefusal\<close>: why an account cannot take a swap use.\<close>

datatype swap_account_refusal =
    AddressUnknown | UnsupportedDelegate | SetupUnconfirmed | RecoveryOnly | RegisteredInPublic
  | ClaimedByAnotherSwap | UnfinishedWork | PreviousOrderLive | SpeedUpOrderChanged | SpeedUpNonceUsed
  | SpeedUpUnsupported | BridgeUndelivered | BridgeRefunding | BridgeNeedsAttention
  | BridgeHeldOnDestination | EarlierDeliveryHeld | EarlierDeliveryUnresolved | StateUnverified
  | ReceivingBalance | ReceivingBalanceUnknown
  | EarlierShieldBlocked b256 | EarlierShieldPending b256 | EarlierShieldUnknown b256

definition competes :: "swap_order \<Rightarrow> swap_order \<Rightarrow> bool" where
  "competes open1 o1 \<longleftrightarrow>
    so_use_id o1 = so_use_id open1 \<and> sh_nonce (so_pre_hook o1) = sh_nonce (so_pre_hook open1)"

definition refuse_speed_up :: "swap_operation \<Rightarrow> swap_speed_up \<Rightarrow> swap_account_refusal option" where
  "refuse_speed_up sw speed_up =
    (if sw_orders sw = [] then Some SpeedUpOrderChanged
     else
       let open1 = last (sw_orders sw) in
       if \<not> (so_uid open1 = sp_order speed_up \<and> so_use_id open1 = Some (sp_swap_use speed_up)
           \<and> sh_nonce (so_pre_hook open1) = sp_pre_hook_nonce speed_up)
       then Some SpeedUpOrderChanged
       else if private_bridge (so_delivery open1) \<noteq> None then Some SpeedUpUnsupported
       else if list_ex (\<lambda>o1. competes open1 o1 \<and> oo_pre_hook_executed (so_observations o1) \<noteq> None) (sw_orders sw)
         \<or> list_ex (\<lambda>f. Some (sf_use_id f) = so_use_id open1
             \<and> sf_pre_hook_nonce f = sh_nonce (so_pre_hook open1)) (sw_fundings sw)
       then Some SpeedUpNonceUsed
       else if list_all (\<lambda>o1.
           let observed = so_observations o1 in
           if so_uid o1 = so_uid open1 then
             oo_traded observed = None \<and> oo_pre_hook_dead observed = None \<and> oo_expired observed = None
             \<and> oo_bridge_handoff observed = None
           else if competes open1 o1 then oo_traded observed = None \<and> oo_bridge_handoff observed = None
           else order_admits_attempt sw o1) (sw_orders sw)
       then None
       else Some SpeedUpOrderChanged)"

definition admits_speed_up :: "swap_operation \<Rightarrow> swap_speed_up \<Rightarrow> bool" where
  "admits_speed_up sw speed_up = (refuse_speed_up sw speed_up = None)"

definition settled_within :: "u64 \<Rightarrow> swap_observation option \<Rightarrow> bool" where
  "settled_within cutoff event = (case event of None \<Rightarrow> False | Some e \<Rightarrow> bn_number (ob_block e) \<le> cutoff)"

definition order_settled_at :: "swap_operation \<Rightarrow> swap_order \<Rightarrow> u64 \<Rightarrow> bool" where
  "order_settled_at sw o1 cutoff =
    (case (if oo_traded (so_observations o1) \<noteq> None then (Some o1, delivery_order sw o1)
           else if oo_bridge_handoff (so_observations o1) \<noteq> None then (trade_order sw o1, Some o1)
           else (None, None)) of
       (Some traded, Some delivery) \<Rightarrow>
         settled_within cutoff (oo_traded (so_observations traded))
         \<and> settled_within cutoff (oo_delivered (so_observations delivery)) \<and> destination_delivered delivery
     | _ \<Rightarrow> False)"

definition has_use_ids :: "swap_operation \<Rightarrow> bool" where
  "has_use_ids sw = list_ex (\<lambda>o1. so_use_id o1 \<noteq> None) (sw_orders sw)"

definition assign_use :: "swap_use_id \<Rightarrow> swap_operation \<Rightarrow> swap_operation" where
  "assign_use use sw = sw\<lparr>sw_orders := map (\<lambda>o1. o1\<lparr>so_use_id := Some use\<rparr>) (sw_orders sw)\<rparr>"

section \<open>Trades and deliveries\<close>

text \<open>
  Within one use a trade is recorded on one attempt, and a hand-off of it on one: what the code's
  comments call the order a receipt belongs to.
\<close>

definition paired_once :: "swap_operation \<Rightarrow> bool" where
  "paired_once sw \<longleftrightarrow>
    (\<forall>a \<in> set (sw_orders sw). \<forall>b \<in> set (sw_orders sw).
       so_use_id a = so_use_id b \<and> so_use_id a \<noteq> None \<longrightarrow>
       (oo_traded (so_observations a) = oo_traded (so_observations b) \<and> oo_traded (so_observations a) \<noteq> None \<longrightarrow> a = b)
       \<and> (oo_traded (so_observations a) = None \<and> oo_traded (so_observations b) = None
          \<and> map_option bh_observation (oo_bridge_handoff (so_observations a))
            = map_option bh_observation (oo_bridge_handoff (so_observations b))
          \<and> oo_bridge_handoff (so_observations a) \<noteq> None \<longrightarrow> a = b))"

lemma paired_trade:
  assumes "paired_once sw" "a \<in> set (sw_orders sw)" "b \<in> set (sw_orders sw)"
    "so_use_id a = so_use_id b" "so_use_id a \<noteq> None"
    "oo_traded (so_observations a) = oo_traded (so_observations b)" "oo_traded (so_observations a) \<noteq> None"
  shows "a = b"
  using assms unfolding paired_once_def by blast

lemma find_unique:
  assumes "x \<in> set xs" "P x" "\<And>y. y \<in> set xs \<Longrightarrow> P y \<Longrightarrow> y = x"
  shows "find P xs = Some x"
proof -
  obtain y where y: "find P xs = Some y" using assms(1,2) by (metis find_None_iff2 not_None_eq)
  then have "y \<in> set xs" "P y" by (auto simp: find_Some_iff)
  then show ?thesis using assms(3) y by blast
qed

lemma find_Some_in: "find P xs = Some x \<Longrightarrow> x \<in> set xs \<and> P x"
  by (induction xs) (auto split: if_splits)

lemma trade_of_delivery:
  assumes "paired_once sw" "t \<in> set (sw_orders sw)" "oo_traded (so_observations t) \<noteq> None"
    and d: "delivery_order sw t = Some d"
  shows "trade_order sw d = Some t"
proof (cases "oo_delivered (so_observations t)")
  case (Some w)
  then show ?thesis using assms(3) d by (auto simp: delivery_order_def trade_order_def)
next
  case None
  then obtain trade use where t: "oo_traded (so_observations t) = Some trade" "so_use_id t = Some use"
    and found: "find (\<lambda>o1. so_use_id o1 = Some use \<and> oo_traded (so_observations o1) = None
        \<and> (case oo_bridge_handoff (so_observations o1) of
             None \<Rightarrow> False | Some handoff \<Rightarrow> bh_observation handoff = trade)) (sw_orders sw) = Some d"
    using d assms(3) by (auto simp: delivery_order_def bind_eq_Some_conv split: if_splits)
  from find_Some_in [OF found] obtain handoff where
    dd: "so_use_id d = Some use" "oo_traded (so_observations d) = None"
      "oo_bridge_handoff (so_observations d) = Some handoff" "bh_observation handoff = trade"
    by (auto split: option.splits)
  have "find (\<lambda>o1. so_use_id o1 = Some use \<and> oo_traded (so_observations o1) = Some trade
      \<and> oo_delivered (so_observations o1) = None) (sw_orders sw) = Some t"
  proof (rule find_unique [OF assms(2)])
    fix y assume "y \<in> set (sw_orders sw)" "so_use_id y = Some use \<and> oo_traded (so_observations y) = Some trade
      \<and> oo_delivered (so_observations y) = None"
    then show "y = t" using paired_trade [OF assms(1) _ assms(2), of y] t by simp
  qed (use t None in simp)
  then show ?thesis using dd by (simp add: trade_order_def)
qed

end
