(* ===== verification/PublicSwapRecords.thy ===== *)
theory PublicSwapRecords
  imports SwapOrders Transactions
begin

text \<open>
  The record of a swap that a Public account pays for and a stealth account's use delivers:
  \<open>PublicSwapRecord\<close> of \<open>crates/wallet-ops/src/vault/executors/public_swap.rs\<close> and what it says of the swap,
  whether its order can still fill, its hook batch can still run and tracking has something left to find.
  The expiry that an order's identifier carries (\<open>OrderUid::valid_to\<close>, of the contract bindings) is the
  parameter \<open>valid_to\<close>. A signature is a word, signed bytes are bytes.
\<close>

section \<open>Approval\<close>

record swap_approved_account =
  aa_address :: "address option"
  aa_setup :: bool

definition admits_account :: "address \<Rightarrow> bool \<Rightarrow> swap_approved_account \<Rightarrow> bool" where
  "admits_account address setup approved \<longleftrightarrow>
    aa_setup approved = setup \<and> (case aa_address approved of None \<Rightarrow> True | Some a \<Rightarrow> a = address)"

record public_swap_intent =
  in_bridged_token :: address
  in_order :: bool

record public_swap_approval =
  pv_bounds :: swap_approved_bounds
  pv_price_verified :: "bool option"
  pv_price_acknowledged :: bool
  pv_sell_token :: address
  pv_on_shield_failure :: bridge_shield_failure
  pv_destination :: swap_approved_account
  pv_max_gas_cost :: u256

section \<open>Transactions\<close>

datatype public_transaction_kind =
    ApprovalReset | ApprovalTransaction | DepositTransaction | InvalidationTransaction | WithdrawalTransaction

record public_swap_inclusion =
  ic_observation :: swap_observation
  ic_succeeded :: bool
  ic_finalized :: bool

record public_swap_transaction =
  pt_kind :: public_transaction_kind
  pt_transaction :: transaction_request
  pt_hash :: b256
  pt_inclusion :: "public_swap_inclusion option"
  pt_submitted_from_block :: "u64 option"
  pt_deposit_scan_from_block :: "u64 option"
  pt_signed :: "bytes option"
  pt_ruled_out :: "swap_observation option"

definition is_live_deposit :: "public_swap_transaction \<Rightarrow> bool" where
  "is_live_deposit t \<longleftrightarrow> pt_kind t = DepositTransaction \<and> pt_ruled_out t = None"

section \<open>The signed path\<close>

record public_swap_permit =
  pm_nonce :: u256
  pm_deadline :: u32
  pm_value :: u256
  pm_signature :: "520 word"

record public_swap_hook_batch =
  hb_calldata :: bytes
  hb_nonce :: b256
  hb_deadline :: u32

record public_swap_order =
  po_uid :: order_uid
  po_buy_token :: address
  po_proxy :: address
  po_batch :: public_swap_hook_batch
  po_submission :: swap_submission
  po_submission_status :: swap_submission_status
  po_permit :: "public_swap_permit option"

definition new_public_order ::
    "order_uid \<Rightarrow> address \<Rightarrow> address \<Rightarrow> public_swap_hook_batch \<Rightarrow> swap_submission \<Rightarrow> public_swap_order" where
  "new_public_order uid buy_token proxy batch submission =
    \<lparr>po_uid = uid, po_buy_token = buy_token, po_proxy = proxy, po_batch = batch, po_submission = submission,
     po_submission_status = SubmissionPending, po_permit = None\<rparr>"

datatype public_swap_path = DepositPath | OrderPath public_swap_order

section \<open>The record\<close>

record public_swap_proxy_holding =
  ph_observation :: swap_observation
  ph_amount :: u256

record public_swap_deposited =
  de_input_amount :: u256
  de_output_amount :: u256

record public_swap_observations =
  pb_traded :: "swap_observation option"
  pb_trade_amounts :: "swap_trade_amounts option"
  pb_expired :: "swap_observation option"
  pb_cancelled :: "swap_observation option"
  pb_held_by_proxy :: "public_swap_proxy_holding option"
  pb_deposit_ruled_out :: "swap_observation option"
  pb_withdrawn :: "swap_observation option"
  pb_bridge_handoff :: "bridge_handoff option"
  pb_deposited :: "public_swap_deposited option"
  pb_bridge_outcome :: "bridge_outcome option"
  pb_bridge_refund :: "swap_observation option"

record public_swap_record =
  pu_approval :: public_swap_approval
  pu_intent :: public_swap_intent
  pu_transactions :: "public_swap_transaction list"
  pu_path :: "public_swap_path option"
  pu_bridge :: "across_order_terms option"
  pu_observations :: public_swap_observations

definition new_public_swap :: "public_swap_approval \<Rightarrow> public_swap_intent \<Rightarrow> public_swap_record" where
  "new_public_swap approval intent =
    \<lparr>pu_approval = approval, pu_intent = intent, pu_transactions = [], pu_path = None, pu_bridge = None,
     pu_observations =
       \<lparr>pb_traded = None, pb_trade_amounts = None, pb_expired = None, pb_cancelled = None, pb_held_by_proxy = None,
        pb_deposit_ruled_out = None, pb_withdrawn = None, pb_bridge_handoff = None, pb_deposited = None,
        pb_bridge_outcome = None, pb_bridge_refund = None\<rparr>\<rparr>"

definition order_of_path :: "public_swap_path option \<Rightarrow> public_swap_order option" where
  "order_of_path path = (case path of Some (OrderPath o1) \<Rightarrow> Some o1 | _ \<Rightarrow> None)"

definition public_order :: "public_swap_record \<Rightarrow> public_swap_order option" where
  "public_order swap = order_of_path (pu_path swap)"

definition live_deposits :: "public_swap_record \<Rightarrow> public_swap_transaction list" where
  "live_deposits swap = filter is_live_deposit (pu_transactions swap)"

definition deposit_handed_off :: "public_swap_record \<Rightarrow> bool" where
  "deposit_handed_off swap = (live_deposits swap \<noteq> [])"

definition public_unsigned :: "public_swap_record \<Rightarrow> bool" where
  "public_unsigned swap =
    (case pu_path swap of
       None \<Rightarrow> True
     | Some DepositPath \<Rightarrow> \<not> deposit_handed_off swap
     | Some (OrderPath _) \<Rightarrow> False)"

definition order_can_fill :: "(order_uid \<Rightarrow> u32) \<Rightarrow> u64 \<Rightarrow> public_swap_record \<Rightarrow> bool" where
  "order_can_fill valid_to now swap =
    (case public_order swap of
       None \<Rightarrow> False
     | Some o1 \<Rightarrow>
         pb_traded (pu_observations swap) = None \<and> pb_cancelled (pu_observations swap) = None
         \<and> now \<le> ucast (valid_to (po_uid o1)))"

definition batch_can_run :: "u64 \<Rightarrow> public_swap_record \<Rightarrow> bool" where
  "batch_can_run now swap =
    (case public_order swap of
       None \<Rightarrow> False
     | Some o1 \<Rightarrow>
         pb_bridge_handoff (pu_observations swap) = None \<and> now \<le> ucast (hb_deadline (po_batch o1)))"

definition proxy_holds_proceeds :: "public_swap_record \<Rightarrow> bool" where
  "proxy_holds_proceeds swap \<longleftrightarrow>
    pb_held_by_proxy (pu_observations swap) \<noteq> None \<and> pb_bridge_handoff (pu_observations swap) = None
    \<and> pb_withdrawn (pu_observations swap) = None"

definition deposit_reverted :: "public_swap_transaction \<Rightarrow> bool" where
  "deposit_reverted t =
    (case pt_inclusion t of None \<Rightarrow> False | Some i \<Rightarrow> ic_finalized i \<and> \<not> ic_succeeded i)"

definition public_swap_finished :: "bool \<Rightarrow> u64 \<Rightarrow> public_swap_record \<Rightarrow> bool" where
  "public_swap_finished stopped now swap =
    (let observed = pu_observations swap in
     if pb_bridge_handoff observed \<noteq> None then
       (case pb_bridge_outcome observed of
          Some (DeliveredVerified _ _ _ _) \<Rightarrow> True
        | Some (DeliveredReported _ _ _) \<Rightarrow> True
        | Some (HeldOnDestination _ _ _) \<Rightarrow> True
        | Some Refunding \<Rightarrow> pb_bridge_refund observed \<noteq> None
        | Some NeedsAttention \<Rightarrow> False
        | None \<Rightarrow> False)
     else if pb_withdrawn observed \<noteq> None \<and> pb_deposit_ruled_out observed \<noteq> None
       \<or> stopped \<and> public_unsigned swap then True
     else
       (case pu_path swap of
          None \<Rightarrow> False
        | Some DepositPath \<Rightarrow> live_deposits swap \<noteq> [] \<and> list_all deposit_reverted (live_deposits swap)
        | Some (OrderPath o1) \<Rightarrow>
            pb_traded observed = None \<and> (pb_expired observed \<noteq> None \<or> pb_cancelled observed \<noteq> None)
            \<and> ucast (hb_deadline (po_batch o1)) < now))"

section \<open>Good records\<close>

text \<open>
  The path is of the kind that the swap was claimed for and recorded with its deposit terms, a transaction
  is recorded once, at most one deposit is live and only on the deposit path, and only an order is
  invalidated or withdrawn from its proxy.
\<close>

definition path_claimed :: "public_swap_path \<Rightarrow> public_swap_intent \<Rightarrow> bool" where
  "path_claimed path intent =
    (case path of
       DepositPath \<Rightarrow> \<not> in_order intent
     | OrderPath o1 \<Rightarrow> in_order intent \<and> po_buy_token o1 = in_bridged_token intent)"

definition transactions_ok :: "public_swap_path option \<Rightarrow> public_swap_transaction list \<Rightarrow> bool" where
  "transactions_ok path ts \<longleftrightarrow>
    distinct (map pt_hash ts)
    \<and> length (filter is_live_deposit ts) \<le> 1 \<and> (filter is_live_deposit ts \<noteq> [] \<longrightarrow> path = Some DepositPath)
    \<and> (order_of_path path = None \<longrightarrow>
        list_all (\<lambda>t. pt_kind t \<noteq> InvalidationTransaction \<and> pt_kind t \<noteq> WithdrawalTransaction) ts)"

definition public_swap_ok :: "public_swap_record \<Rightarrow> bool" where
  "public_swap_ok swap \<longleftrightarrow>
    pred_option (\<lambda>path. path_claimed path (pu_intent swap)) (pu_path swap)
    \<and> (pu_bridge swap = None \<longleftrightarrow> pu_path swap = None)
    \<and> transactions_ok (pu_path swap) (pu_transactions swap)"

text \<open>
  What stays of a signed order and of a transaction that was handed off: the order but for what the
  orderbook answered, with its deposit terms, its intent and its approval but for the account's address,
  which is bound later; and a transaction's kind, request and hash.
\<close>

definition order_signed :: "public_swap_order \<Rightarrow> public_swap_order" where
  "order_signed o1 = o1\<lparr>po_submission_status := SubmissionPending\<rparr>"

definition approval_fixed :: "public_swap_approval \<Rightarrow> public_swap_approval" where
  "approval_fixed approval = approval\<lparr>pv_destination := (pv_destination approval)\<lparr>aa_address := None\<rparr>\<rparr>"

definition sent_transactions ::
    "public_swap_record \<Rightarrow> (public_transaction_kind \<times> transaction_request \<times> b256) list" where
  "sent_transactions swap = map (\<lambda>t. (pt_kind t, pt_transaction t, pt_hash t)) (pu_transactions swap)"

definition signed_order_terms ::
    "public_swap_record \<Rightarrow> (public_swap_order \<times> across_order_terms option \<times> public_swap_intent \<times> public_swap_approval) option" where
  "signed_order_terms swap =
    map_option (\<lambda>o1. (order_signed o1, pu_bridge swap, pu_intent swap, approval_fixed (pu_approval swap))) (public_order swap)"

lemma new_public_swap_ok [simp]: "public_swap_ok (new_public_swap approval intent)"
  by (simp add: public_swap_ok_def transactions_ok_def new_public_swap_def)

lemma new_public_swap_facts [simp]:
  "signed_order_terms (new_public_swap approval intent) = None" "sent_transactions (new_public_swap approval intent) = []"
  by (simp_all add: signed_order_terms_def sent_transactions_def public_order_def order_of_path_def new_public_swap_def)

text \<open>A finished swap stays finished as time passes.\<close>

lemma finished_later:
  "public_swap_finished stopped now swap \<Longrightarrow> now \<le> later \<Longrightarrow> public_swap_finished stopped later swap"
  by (cases "pb_bridge_handoff (pu_observations swap)"; cases "pu_path swap")
    (auto simp: public_swap_finished_def Let_def split: if_splits public_swap_path.splits)

end
