(* ===== verification/ExecutorRecords.thy ===== *)
theory ExecutorRecords
  imports PublicSwapRecords
begin

text \<open>
  The encrypted record of an executor (a stealth account): \<open>ExecutorRecord\<close> of
  \<open>crates/wallet-ops/src/vault/executors.rs\<close>, its part in swaps (\<open>vault/executors/swap_use.rs\<close>,
  \<open>swap.rs\<close>). Texts are strings, times are seconds.
\<close>

section \<open>Data\<close>

type_synonym operation_id = u128

record swap_approved_accounts =
  aa_source :: swap_approved_account
  aa_destination :: "swap_approved_account option"

record swap_approval_tokens =
  at_sell :: address
  at_buy :: address

record swap_approval =
  sa_bounds :: swap_approved_bounds
  sa_price_verified :: "bool option"
  sa_price_acknowledged :: bool
  sa_delivery :: swap_delivery
  sa_tokens :: "swap_approval_tokens option"
  sa_accounts :: "swap_approved_accounts option"

datatype payload_purpose =
    OperationPayload | RecoveryPayload | SwapPreHook | SwapPostHook | SwapDestinationShield

datatype record_origin = Reserved | Discovered

datatype executor_asset = NativeAsset | Erc20 address | Erc721 address u256

datatype destination_outcome = Shielded block_num_hash b256 | Held block_num_hash b256 | Unfilled

record destination_record =
  sd_origin_chain :: u64
  sd_origin_operation :: operation_id
  sd_destination_token :: address
  sd_outcome :: "destination_outcome option"

record nonce_observation =
  no_block :: block_num_hash
  no_nonce :: u256

record nonce_watermark =
  nw_nonce :: u256
  nw_block :: u64

definition watermark_of :: "nonce_observation \<Rightarrow> nonce_watermark" where
  "watermark_of observed = \<lparr>nw_nonce = no_nonce observed, nw_block = bn_number (no_block observed)\<rparr>"

datatype payload_state = PayloadPending | PayloadResolved

record payload_context =
  px_calldata :: bytes
  px_observed :: nonce_observation
  px_inputs :: "input_identity list"

datatype execution_result = Reverted | MissingEffects | Executed

record payload_inclusion =
  pi_block :: block_num_hash
  pi_transaction_hash :: b256
  pi_result :: execution_result

record issued_payload =
  ip_nonce :: u256
  ip_delegate :: address
  ip_hash :: b256
  ip_purpose :: payload_purpose
  ip_transaction_hashes :: "b256 list"
  ip_context :: payload_context
  ip_inclusion :: "payload_inclusion option"

record use_observation =
  uo_block :: block_num_hash
  uo_checked_at :: u64
  uo_nonce :: "u256 option"

record use_check =
  uc_observation :: "use_observation option"
  uc_unavailable :: bool

datatype swap_use_role =
    Source (source_approval: "swap_approval option") (source_destination: "operation_id option")
  | Destination (origin_chain: u64) (origin_operation: operation_id) (role_token: address)
      (role_shields: "b256 list") (role_outcome: "destination_outcome option")
  | PublicSourceDestination (origin_chain: u64) (role_source: address) (role_token: address)
      (role_shields: "b256 list") (role_outcome: "destination_outcome option")
      (role_swap: public_swap_record)

record swap_use_record =
  su_id :: swap_use_id
  su_started_at :: "u64 option"
  su_fresh :: bool
  su_stopped :: bool
  su_role :: swap_use_role
  su_stopped_before_order :: bool

record executor_record =
  er_version :: u32
  er_origin :: record_origin
  er_operation :: operation_id
  er_index :: u32
  er_address :: "address option"
  er_delegate :: address
  er_retired :: bool
  er_created_at :: "u64 option"
  er_restored_at :: "u64 option"
  er_purpose_summary :: "string option"
  er_assets :: "executor_asset list"
  er_hidden :: bool
  er_use_check :: use_check
  er_issued :: "issued_payload list"
  er_nonce_observation :: "nonce_observation option"
  er_nonce_watermark :: "nonce_watermark option"
  er_settled_nonce :: "u256 option"
  er_public_account_uuid :: "string option"
  er_swap :: "swap_operation option"
  er_swap_setup_stopped :: bool
  er_released_payloads :: "b256 list"
  er_swap_uses :: "swap_use_record list"
  er_active_swap_use :: "swap_use_id option"

definition LEGACY_VERSION :: u32 where "LEGACY_VERSION = 1"
definition VERSION :: u32 where "VERSION = 2"

section \<open>The nonce watermark and settlement\<close>

text \<open>\<open>max_by_key\<close> returns the last of several greatest elements.\<close>

fun max_watermark :: "nonce_watermark list \<Rightarrow> nonce_watermark option" where
  "max_watermark [] = None"
| "max_watermark (w # ws) =
    (case max_watermark ws of
       None \<Rightarrow> Some w
     | Some v \<Rightarrow> if nw_nonce v < nw_nonce w then Some w else Some v)"

definition executed_watermark :: "issued_payload \<Rightarrow> nonce_watermark option" where
  "executed_watermark p =
    (case ip_inclusion p of
       Some inclusion \<Rightarrow>
         if pi_result inclusion = Executed
         then Some \<lparr>nw_nonce = saturating_add (ip_nonce p) 1, nw_block = bn_number (pi_block inclusion)\<rparr> else None
     | None \<Rightarrow> None)"

definition watermark :: "executor_record \<Rightarrow> nonce_watermark option" where
  "watermark r =
    (case er_nonce_watermark r of
       Some w \<Rightarrow> Some w
     | None \<Rightarrow>
         max_watermark (List.map_filter executed_watermark (er_issued r)
           @ (case er_nonce_observation r of None \<Rightarrow> [] | Some observed \<Rightarrow> [watermark_of observed])))"

definition nonce_resolved :: "u256 \<Rightarrow> executor_record \<Rightarrow> bool" where
  "nonce_resolved nonce r = (case watermark r of None \<Rightarrow> False | Some w \<Rightarrow> nonce < nw_nonce w)"

definition payload_state_of :: "b256 \<Rightarrow> executor_record \<Rightarrow> payload_state option" where
  "payload_state_of hash r =
    map_option (\<lambda>p. if nonce_resolved (ip_nonce p) r then PayloadResolved else PayloadPending)
      (find (\<lambda>p. ip_hash p = hash) (er_issued r))"

definition nonce_settled :: "u256 \<Rightarrow> executor_record \<Rightarrow> bool" where
  "nonce_settled nonce r \<longleftrightarrow>
    nonce_resolved nonce r \<and> (case er_settled_nonce r of None \<Rightarrow> False | Some s \<Rightarrow> nonce < s)"

definition set_nonce_watermark :: "nonce_watermark \<Rightarrow> executor_record \<Rightarrow> executor_record" where
  "set_nonce_watermark w r =
    (let r1 = r\<lparr>er_nonce_watermark := Some w\<rparr>
     in case er_settled_nonce r1 of
          Some s \<Rightarrow> if nw_nonce w < s then r1\<lparr>er_settled_nonce := Some (nw_nonce w)\<rparr> else r1
        | None \<Rightarrow> r1)"

text \<open>\<open>Option\<close>'s order: \<open>None\<close> is below every \<open>Some\<close>.\<close>

definition max_settled :: "u256 option \<Rightarrow> u256 \<Rightarrow> u256 option" where
  "max_settled settled nonce = (case settled of None \<Rightarrow> Some nonce | Some s \<Rightarrow> Some (max s nonce))"

definition apply_synced :: "nonce_watermark option \<Rightarrow> u64 \<Rightarrow> executor_record \<Rightarrow> executor_record" where
  "apply_synced resolved last_scanned r =
    (let (r1, settled1) =
           (case resolved of
              Some w \<Rightarrow>
                if (case watermark r of None \<Rightarrow> True | Some old \<Rightarrow> nw_nonce old < nw_nonce w)
                then (r\<lparr>er_nonce_watermark := Some w\<rparr>, max_settled (er_settled_nonce r) (nw_nonce w))
                else (r, er_settled_nonce r)
            | None \<Rightarrow> (r, er_settled_nonce r));
         settled2 =
           (case watermark r1 of
              Some w \<Rightarrow> if nw_block w \<le> last_scanned then max_settled settled1 (nw_nonce w) else settled1
            | None \<Rightarrow> settled1)
     in r1\<lparr>er_settled_nonce := settled2\<rparr>)"

definition require_reconciliation :: "executor_record \<Rightarrow> executor_record" where
  "require_reconciliation r = r\<lparr>er_nonce_watermark := watermark r, er_nonce_observation := None\<rparr>"

section \<open>Swap hooks\<close>

definition swap_orders_of :: "executor_record \<Rightarrow> swap_order list" where
  "swap_orders_of r = (case er_swap r of None \<Rightarrow> [] | Some sw \<Rightarrow> sw_orders sw)"

definition releases_swap_inputs :: "b256 \<Rightarrow> executor_record \<Rightarrow> bool" where
  "releases_swap_inputs pre_hook r \<longleftrightarrow>
    er_nonce_observation r \<noteq> None
    \<and> list_ex (\<lambda>o1. sh_payload (so_pre_hook o1) = pre_hook \<and> has_ended o1) (swap_orders_of r)"

definition swap_reserved_inputs :: "executor_record \<Rightarrow> input_identity list" where
  "swap_reserved_inputs r =
    concat (map (\<lambda>p. px_inputs (ip_context p))
      (filter (\<lambda>p. ip_purpose p = SwapPreHook \<and> \<not> releases_swap_inputs (ip_hash p) r) (er_issued r)))"

definition swap_pre_hook_expired :: "b256 \<Rightarrow> executor_record \<Rightarrow> bool" where
  "swap_pre_hook_expired pre_hook r \<longleftrightarrow>
    er_nonce_observation r \<noteq> None
    \<and> list_ex (\<lambda>o1. sh_payload (so_pre_hook o1) = pre_hook
        \<and> oo_pre_hook_executed (so_observations o1) = None
        \<and> (case oo_pre_hook_dead (so_observations o1) of None \<Rightarrow> False | Some death \<Rightarrow> pd_cause death = ExpiredDeath))
        (swap_orders_of r)"

definition is_outstanding_at :: "issued_payload \<Rightarrow> u256 \<Rightarrow> executor_record \<Rightarrow> bool" where
  "is_outstanding_at p current r \<longleftrightarrow>
    ip_nonce p = current \<and> (ip_purpose p \<noteq> SwapPreHook \<or> \<not> swap_pre_hook_expired (ip_hash p) r)"

definition observed_past :: "executor_record \<Rightarrow> u256 \<Rightarrow> bool" where
  "observed_past r nonce = (case er_nonce_observation r of None \<Rightarrow> False | Some observed \<Rightarrow> nonce < no_nonce observed)"

definition swap_hook_nonce_passed :: "issued_payload \<Rightarrow> executor_record \<Rightarrow> bool" where
  "swap_hook_nonce_passed p r \<longleftrightarrow>
    ip_purpose p \<in> {SwapPreHook, SwapPostHook, SwapDestinationShield} \<and> observed_past r (ip_nonce p)"

definition has_unresolved_issued_work :: "executor_record \<Rightarrow> bool" where
  "has_unresolved_issued_work r =
    list_ex (\<lambda>p. \<not> nonce_resolved (ip_nonce p) r \<and> \<not> swap_hook_nonce_passed p r) (er_issued r)"

definition records_future_nonce :: "u256 \<Rightarrow> executor_record \<Rightarrow> bool" where
  "records_future_nonce current r =
    list_ex (\<lambda>p. current < ip_nonce p
      \<and> (ip_purpose p \<noteq> SwapPostHook \<or> checked_add current 1 \<noteq> Some (ip_nonce p))) (er_issued r)"

definition has_competing_payloads :: "executor_record \<Rightarrow> bool" where
  "has_competing_payloads r =
    list_ex (\<lambda>p.
      (case er_nonce_observation r of None \<Rightarrow> True | Some observed \<Rightarrow> no_nonce observed \<le> ip_nonce p)
      \<and> (ip_purpose p \<notin> {SwapPreHook, SwapPostHook, SwapDestinationShield}
         \<or> (case er_nonce_observation r of None \<Rightarrow> True
            | Some observed \<Rightarrow> is_outstanding_at p (no_nonce observed) r))) (er_issued r)"

definition older_post_hook :: "u256 \<Rightarrow> swap_order \<Rightarrow> bool" where
  "older_post_hook nonce o1 \<longleftrightarrow>
    sh_nonce (so_pre_hook o1) = nonce
    \<and> (case oo_pre_hook_dead (so_observations o1) of None \<Rightarrow> False | Some death \<Rightarrow> pd_cause death = OlderPostHook)"

definition swap_hook_at :: "u256 \<Rightarrow> bool \<Rightarrow> bool \<Rightarrow> executor_record \<Rightarrow> b256 option" where
  "swap_hook_at nonce pre_hook post_hook r =
    Option.bind (er_swap r) (\<lambda>sw.
      case (if pre_hook then
              find (\<lambda>o1. sh_nonce (so_pre_hook o1) = nonce \<and> oo_pre_hook_executed (so_observations o1) \<noteq> None)
                (sw_orders sw)
            else None) of
        Some o1 \<Rightarrow> Some (sh_payload (so_pre_hook o1))
      | None \<Rightarrow>
          (case List.map_filter (\<lambda>o1.
               (case so_post_hook o1 of
                  None \<Rightarrow> None
                | Some hook \<Rightarrow>
                    if post_hook \<and> sh_nonce hook = nonce \<and> post_hook_evidence (so_observations o1)
                    then Some hook else None)) (sw_orders sw) of
             hook # _ \<Rightarrow> Some (sh_payload hook)
           | [] \<Rightarrow>
               if \<not> list_ex (older_post_hook nonce) (sw_orders sw) then None
               else (case filter (\<lambda>hook. sh_nonce hook = nonce) (List.map_filter so_post_hook (sw_orders sw)) of
                       [hook] \<Rightarrow> Some (sh_payload hook)
                     | _ \<Rightarrow> None)))"

definition swap_hook_winner :: "u256 \<Rightarrow> executor_record \<Rightarrow> b256 option" where
  "swap_hook_winner nonce r = swap_hook_at nonce (er_nonce_observation r \<noteq> None) (observed_past r nonce) r"

definition resolved_swap_hook :: "u256 \<Rightarrow> executor_record \<Rightarrow> b256 option" where
  "resolved_swap_hook nonce r = swap_hook_at nonce (nonce_resolved nonce r) (nonce_resolved nonce r) r"


section \<open>Reserved inputs\<close>

definition reserving_payloads_before_release :: "executor_record \<Rightarrow> issued_payload list" where
  "reserving_payloads_before_release r =
    filter (\<lambda>p.
      if nonce_resolved (ip_nonce p) r then \<not> nonce_settled (ip_nonce p) r
      else ip_purpose p \<noteq> SwapPreHook \<or> \<not> releases_swap_inputs (ip_hash p) r) (er_issued r)"

definition reserving_payloads :: "executor_record \<Rightarrow> issued_payload list" where
  "reserving_payloads r =
    filter (\<lambda>p. ip_hash p \<notin> set (er_released_payloads r)) (reserving_payloads_before_release r)"

definition add_once :: "'a \<Rightarrow> 'a list \<Rightarrow> 'a list" where
  "add_once x xs = (if x \<in> set xs then xs else xs @ [x])"

definition reserved_inputs :: "executor_record \<Rightarrow> input_identity list" where
  "reserved_inputs r = fold add_once (concat (map (\<lambda>p. px_inputs (ip_context p)) (reserving_payloads r))) []"

section \<open>Swap uses\<close>

definition swap_use :: "swap_use_id \<Rightarrow> executor_record \<Rightarrow> swap_use_record option" where
  "swap_use use r = find (\<lambda>u. su_id u = use) (er_swap_uses r)"

definition active_use :: "executor_record \<Rightarrow> swap_use_record option" where
  "active_use r = Option.bind (er_active_swap_use r) (\<lambda>use. swap_use use r)"

text \<open>An assignment through \<open>swap_use_mut\<close>, which finds the first use with the identifier.\<close>

fun update_use :: "swap_use_id \<Rightarrow> (swap_use_record \<Rightarrow> swap_use_record) \<Rightarrow> swap_use_record list \<Rightarrow> swap_use_record list" where
  "update_use use f [] = []"
| "update_use use f (u # us) = (if su_id u = use then f u # us else u # update_use use f us)"

definition destination_view :: "swap_use_record \<Rightarrow> destination_record option" where
  "destination_view u =
    (case su_role u of
       Destination chain operation token _ outcome \<Rightarrow>
         Some \<lparr>sd_origin_chain = chain, sd_origin_operation = operation, sd_destination_token = token,
           sd_outcome = outcome\<rparr>
     | _ \<Rightarrow> None)"

definition swap_destination :: "executor_record \<Rightarrow> destination_record option" where
  "swap_destination r = (if er_swap_uses r = [] then None else destination_view (last (er_swap_uses r)))"

definition destination_operation :: "executor_record \<Rightarrow> operation_id option" where
  "destination_operation r =
    (if er_swap_uses r = [] then None
     else case su_role (last (er_swap_uses r)) of Source _ destination \<Rightarrow> destination | _ \<Rightarrow> None)"

definition swap_use_orders :: "swap_use_id \<Rightarrow> executor_record \<Rightarrow> swap_order list" where
  "swap_use_orders use r = filter (\<lambda>o1. so_use_id o1 = Some use) (swap_orders_of r)"

definition has_swap_use_order :: "swap_use_id \<Rightarrow> executor_record \<Rightarrow> bool" where
  "has_swap_use_order use r = (swap_use_orders use r \<noteq> [])"

definition is_shielded :: "destination_outcome option \<Rightarrow> bool" where
  "is_shielded x = (case x of Some (Shielded _ _) \<Rightarrow> True | _ \<Rightarrow> False)"

definition swap_shield_delivered :: "b256 \<Rightarrow> executor_record \<Rightarrow> bool" where
  "swap_shield_delivered hash r =
    list_ex (\<lambda>u.
      (case su_role u of
         Source _ _ \<Rightarrow> False
       | role \<Rightarrow> is_shielded (role_outcome role) \<and> hash \<in> set (role_shields role))) (er_swap_uses r)"

definition links_swap_destination :: "swap_use_id \<Rightarrow> operation_id \<Rightarrow> executor_record \<Rightarrow> bool" where
  "links_swap_destination use destination r =
    (case swap_use use r of
       None \<Rightarrow> False
     | Some u \<Rightarrow> (case su_role u of Source _ (Some linked) \<Rightarrow> linked = destination | _ \<Rightarrow> False))"

text \<open>The chain and operation of the destination account that a source use names.\<close>

definition private_chain :: "swap_delivery \<Rightarrow> u64 option" where
  "private_chain d = map_option bd_destination_chain (private_bridge d)"

definition swap_use_destination :: "swap_use_id \<Rightarrow> executor_record \<Rightarrow> (u64 \<times> operation_id) option" where
  "swap_use_destination use r =
    Option.bind (swap_use use r) (\<lambda>u.
      case su_role u of
        Source approval (Some destination) \<Rightarrow>
          (case Option.bind approval (\<lambda>a. private_chain (sa_delivery a)) of
             Some chain \<Rightarrow> Some (chain, destination)
           | None \<Rightarrow>
               (case List.map_filter (\<lambda>o1. private_chain (so_delivery o1)) (swap_use_orders use r) of
                  chain # _ \<Rightarrow> Some (chain, destination)
                | [] \<Rightarrow> None))
      | _ \<Rightarrow> None)"

definition serves_swap_use :: "swap_use_id \<Rightarrow> u64 \<Rightarrow> operation_id \<Rightarrow> executor_record \<Rightarrow> bool" where
  "serves_swap_use use chain operation r =
    (case swap_use use r of
       None \<Rightarrow> False
     | Some u \<Rightarrow> (case su_role u of Destination c op _ _ _ \<Rightarrow> c = chain \<and> op = operation | _ \<Rightarrow> False))"

datatype swap_use_release = Released | IssuedWorkRemains

definition cancel_swap_use :: "swap_use_id \<Rightarrow> executor_record \<Rightarrow> swap_use_release \<times> executor_record" where
  "cancel_swap_use use r =
    (case swap_use use r of
       None \<Rightarrow> (Released, r)
     | Some u \<Rightarrow>
         let r1 = r\<lparr>er_swap_uses :=
               update_use use (\<lambda>u. u\<lparr>su_stopped := True, su_stopped_before_order := True\<rparr>) (er_swap_uses r)\<rparr>;
             (destination, shielded) =
               (case su_role u of Source _ _ \<Rightarrow> (False, False) | role \<Rightarrow> (True, role_shields role \<noteq> []))
         in if su_fresh u \<and> er_active_swap_use r1 = Some use then
              let r2 = r1\<lparr>er_swap_setup_stopped := True, er_retired := er_retired r1 \<or> destination\<rparr>
              in (if has_unresolved_issued_work r2 then IssuedWorkRemains else Released, r2)
            else if shielded then (IssuedWorkRemains, r1)
            else (Released,
              if er_active_swap_use r1 = Some use then r1\<lparr>er_active_swap_use := None\<rparr> else r1))"

definition replaceable_swap_use :: "swap_use_id \<Rightarrow> executor_record \<Rightarrow> swap_use_record option" where
  "replaceable_swap_use use r =
    (case swap_use use r of
       None \<Rightarrow> None
     | Some u \<Rightarrow>
         if er_retired r \<and> er_issued r = [] \<and> er_active_swap_use r = Some use \<and> su_fresh u \<and> \<not> su_stopped u
         then Some u else None)"

text \<open>The stored format follows the content.\<close>

definition format_version :: "executor_record \<Rightarrow> u32" where
  "format_version r =
    (if er_swap_uses r = [] \<and> er_active_swap_use r = None
       \<and> \<not> (case er_swap r of None \<Rightarrow> False | Some sw \<Rightarrow> has_use_ids sw)
     then LEGACY_VERSION else VERSION)"

definition release_replaced_swap_use :: "swap_use_id \<Rightarrow> executor_record \<Rightarrow> executor_record" where
  "release_replaced_swap_use use r =
    (let r1 = r\<lparr>er_swap_uses := filter (\<lambda>u. su_id u \<noteq> use) (er_swap_uses r), er_active_swap_use := None,
           er_purpose_summary := None\<rparr>
     in r1\<lparr>er_version := format_version r1\<rparr>)"

definition begin_first_swap_use :: "swap_use_id \<Rightarrow> swap_use_role \<Rightarrow> executor_record \<Rightarrow> executor_record" where
  "begin_first_swap_use use role r =
    r\<lparr>er_swap_uses := er_swap_uses r @
         [\<lparr>su_id = use, su_started_at = er_created_at r, su_fresh = True, su_stopped = False, su_role = role,
           su_stopped_before_order = False\<rparr>],
       er_active_swap_use := Some use\<rparr>"

definition begin_later_swap_use ::
    "u64 option \<Rightarrow> swap_use_id \<Rightarrow> swap_use_role \<Rightarrow> executor_record \<Rightarrow> executor_record" where
  "begin_later_swap_use timestamp use role r =
    r\<lparr>er_assets :=
         (case role of Source _ _ \<Rightarrow> er_assets r | _ \<Rightarrow> add_once (Erc20 (role_token role)) (er_assets r)),
       er_swap_uses := er_swap_uses r @
         [\<lparr>su_id = use, su_started_at = timestamp, su_fresh = False, su_stopped = False, su_role = role,
           su_stopped_before_order = False\<rparr>],
       er_active_swap_use := Some use,
       er_swap_setup_stopped := False\<rparr>"

text \<open>The outcome of a destination's shield, from the origin's private Bridge orders to it.\<close>

definition orders_to :: "swap_use_id \<Rightarrow> address \<Rightarrow> executor_record \<Rightarrow> swap_order list" where
  "orders_to use receiver r =
    filter (\<lambda>o1. so_use_id o1 = Some use
      \<and> (case so_delivery o1 of Bridge b \<Rightarrow> bridge_is_private b \<and> bd_receiver b = receiver | _ \<Rightarrow> False))
      (swap_orders_of r)"

definition swap_destination_outcome :: "swap_use_id \<Rightarrow> address \<Rightarrow> executor_record \<Rightarrow> destination_outcome option" where
  "swap_destination_outcome use receiver r =
    (let outcomes = map (\<lambda>o1. oo_bridge_outcome (so_observations o1)) (orders_to use receiver r) in
     case List.map_filter (\<lambda>x. case x of Some (DeliveredVerified block hash _ True) \<Rightarrow> Some (Shielded block hash)
         | _ \<Rightarrow> None) outcomes of
       x # _ \<Rightarrow> Some x
     | [] \<Rightarrow>
         (case List.map_filter (\<lambda>x. case x of Some (HeldOnDestination block hash _) \<Rightarrow> Some (Held block hash)
             | _ \<Rightarrow> None) outcomes of
            x # _ \<Rightarrow> Some x
          | [] \<Rightarrow> if outcomes \<noteq> [] \<and> last outcomes = Some Refunding then Some Unfilled else None))"

text \<open>The loop of \<open>settled_swaps_at\<close> over the uses: the delivered shields, or \<open>None\<close> for an unsettled one.\<close>

fun delivered_shields :: "u64 \<Rightarrow> swap_use_record list \<Rightarrow> b256 list option" where
  "delivered_shields cutoff [] = Some []"
| "delivered_shields cutoff (u # us) =
    (case su_role u of
       Source _ _ \<Rightarrow> delivered_shields cutoff us
     | role \<Rightarrow>
         (case role_outcome role of
            Some (Shielded block _) \<Rightarrow>
              if bn_number block \<le> cutoff then map_option ((@) (role_shields role)) (delivered_shields cutoff us)
              else if role_shields role = [] then delivered_shields cutoff us else None
          | _ \<Rightarrow> if role_shields role = [] then delivered_shields cutoff us else None))"

definition settled_swaps_at :: "u64 \<Rightarrow> executor_record \<Rightarrow> bool" where
  "settled_swaps_at cutoff r =
    (case delivered_shields cutoff (er_swap_uses r) of
       None \<Rightarrow> False
     | Some shields \<Rightarrow>
         (case er_nonce_observation r of None \<Rightarrow> False | Some observed \<Rightarrow> bn_number (no_block observed) \<le> cutoff)
         \<and> \<not> (swap_orders_of r = [] \<and> shields = [])
         \<and> (case er_swap r of
              None \<Rightarrow> True | Some sw \<Rightarrow> list_all (\<lambda>o1. order_settled_at sw o1 cutoff) (sw_orders sw))
         \<and> list_all (\<lambda>p.
             (case ip_purpose p of
                OperationPayload \<Rightarrow> nonce_resolved (ip_nonce p) r
              | RecoveryPayload \<Rightarrow> False
              | SwapDestinationShield \<Rightarrow> ip_hash p \<in> set shields
              | _ \<Rightarrow> list_ex (\<lambda>o1. sh_payload (so_pre_hook o1) = ip_hash p
                  \<or> (case so_post_hook o1 of None \<Rightarrow> False | Some hook \<Rightarrow> sh_payload hook = ip_hash p))
                  (swap_orders_of r))) (er_issued r))"

end
