(* ===== verification/ExecutorWire.thy ===== *)
theory ExecutorWire
  imports ExecutorRecords
begin

text \<open>
  The stored shape of an executor's record: \<open>ExecutorRecordWire\<close> of
  \<open>crates/wallet-ops/src/vault/executors/swap_use.rs\<close> and its two conversions. Version 1 holds one
  swap's links in \<open>swap\<close> and \<open>swap_approval\<close>; version 2 holds them as swap uses. Serialization and
  encryption of the shape itself are library code and are not modelled.
\<close>

record executor_record_wire =
  ew_version :: u32
  ew_origin :: record_origin
  ew_operation :: operation_id
  ew_index :: u32
  ew_address :: "address option"
  ew_delegate :: address
  ew_retired :: bool
  ew_created_at :: "u64 option"
  ew_restored_at :: "u64 option"
  ew_purpose_summary :: "string option"
  ew_assets :: "executor_asset list"
  ew_hidden :: bool
  ew_use_check :: use_check
  ew_issued :: "issued_payload list"
  ew_nonce_observation :: "nonce_observation option"
  ew_public_account_uuid :: "string option"
  ew_swap :: "swap_operation option"
  ew_swap_approval :: "swap_approval option"
  ew_swap_setup_stopped :: bool
  ew_released_payloads :: "b256 list"
  ew_swap_uses :: "swap_use_record list"
  ew_active_swap_use :: "swap_use_id option"
  ew_nonce_watermark :: "nonce_watermark option"
  ew_settled_nonce :: "u256 option"

datatype wire_error = LegacyCarriesUses | CurrentCarriesLinks

definition known_version :: "u32 \<Rightarrow> bool" where
  "known_version v \<longleftrightarrow> LEGACY_VERSION \<le> v \<and> v \<le> VERSION"

text \<open>The fields that both shapes share, with the swap links as given.\<close>

definition record_of_wire ::
    "executor_record_wire \<Rightarrow> swap_operation option \<Rightarrow> swap_use_record list \<Rightarrow> swap_use_id option \<Rightarrow> executor_record" where
  "record_of_wire w swap uses active =
    \<lparr>er_version = ew_version w, er_origin = ew_origin w, er_operation = ew_operation w, er_index = ew_index w,
     er_address = ew_address w, er_delegate = ew_delegate w, er_retired = ew_retired w,
     er_created_at = ew_created_at w, er_restored_at = ew_restored_at w,
     er_purpose_summary = ew_purpose_summary w, er_assets = ew_assets w, er_hidden = ew_hidden w,
     er_use_check = ew_use_check w, er_issued = ew_issued w, er_nonce_observation = ew_nonce_observation w,
     er_nonce_watermark = ew_nonce_watermark w, er_settled_nonce = ew_settled_nonce w,
     er_public_account_uuid = ew_public_account_uuid w, er_swap = swap,
     er_swap_setup_stopped = ew_swap_setup_stopped w, er_released_payloads = ew_released_payloads w,
     er_swap_uses = uses, er_active_swap_use = active\<rparr>"

text \<open>The links of a version-1 record as the one use they project to.\<close>

definition legacy_links :: "executor_record_wire \<Rightarrow> swap_operation option \<times> swap_use_record list \<times> swap_use_id option" where
  "legacy_links w =
    (let id = ew_operation w;
         (swap, uses) =
           (if ew_swap w \<noteq> None \<or> ew_swap_approval w \<noteq> None then
              (map_option (assign_use id) (ew_swap w),
               ew_swap_uses w @ [\<lparr>su_id = id, su_started_at = ew_created_at w, su_fresh = True,
                 su_stopped = ew_swap_setup_stopped w, su_role = Source (ew_swap_approval w) None,
                 su_stopped_before_order = False\<rparr>])
            else (ew_swap w, ew_swap_uses w))
     in (swap, uses, if uses = [] then None else Some (su_id (last uses))))"

definition record_from_wire :: "executor_record_wire \<Rightarrow> wire_error + executor_record" where
  "record_from_wire w =
    (let has_use_metadata = (ew_swap_uses w \<noteq> [] \<or> ew_active_swap_use w \<noteq> None
           \<or> (case ew_swap w of None \<Rightarrow> False | Some sw \<Rightarrow> has_use_ids sw));
         has_legacy_links = (ew_swap_approval w \<noteq> None)
     in if ew_version w = LEGACY_VERSION \<and> has_use_metadata then Inl LegacyCarriesUses
        else if ew_version w = VERSION \<and> has_legacy_links then Inl CurrentCarriesLinks
        else
          let (swap, uses, active) =
                (if ew_version w = LEGACY_VERSION then legacy_links w
                 else (ew_swap w, ew_swap_uses w, ew_active_swap_use w));
              r = record_of_wire w swap uses active
          in Inr (if known_version (ew_version w) then r\<lparr>er_version := format_version r\<rparr> else r))"

definition wire_of_record :: "executor_record \<Rightarrow> executor_record_wire" where
  "wire_of_record r =
    \<lparr>ew_version = format_version r, ew_origin = er_origin r, ew_operation = er_operation r,
     ew_index = er_index r, ew_address = er_address r, ew_delegate = er_delegate r,
     ew_retired = er_retired r, ew_created_at = er_created_at r, ew_restored_at = er_restored_at r,
     ew_purpose_summary = er_purpose_summary r, ew_assets = er_assets r, ew_hidden = er_hidden r,
     ew_use_check = er_use_check r, ew_issued = er_issued r, ew_nonce_observation = er_nonce_observation r,
     ew_public_account_uuid = er_public_account_uuid r, ew_swap = er_swap r, ew_swap_approval = None,
     ew_swap_setup_stopped = er_swap_setup_stopped r, ew_released_payloads = er_released_payloads r,
     ew_swap_uses = er_swap_uses r, ew_active_swap_use = er_active_swap_use r,
     ew_nonce_watermark = er_nonce_watermark r, ew_settled_nonce = er_settled_nonce r\<rparr>"

section \<open>Round trip\<close>

text \<open>
  A record in memory: its version follows its content, and a record that has a swap has the metadata of
  a use, so that it is of version 2. Decoding gives only such records (for the versions the store accepts), and they survive.
\<close>

definition record_in_form :: "executor_record \<Rightarrow> bool" where
  "record_in_form r \<longleftrightarrow> er_version r = format_version r \<and> (er_swap r \<noteq> None \<longrightarrow> format_version r = VERSION)"

lemma versions [simp]: "LEGACY_VERSION \<noteq> VERSION" "VERSION \<noteq> LEGACY_VERSION"
  "known_version LEGACY_VERSION" "known_version VERSION"
  by (simp_all add: LEGACY_VERSION_def VERSION_def known_version_def)

lemma known_version_iff: "known_version v \<longleftrightarrow> v = LEGACY_VERSION \<or> v = VERSION"
proof -
  have "v = 1 \<or> v = 2" if "1 \<le> v" "v \<le> 2" for v :: u32
  proof -
    have "unat v = unat (1 :: u32) \<or> unat v = unat (2 :: u32)" using that by (auto simp: word_le_nat_alt)
    then show ?thesis by (simp only: word_unat_eq_iff)
  qed
  then show ?thesis by (auto simp: known_version_def LEGACY_VERSION_def VERSION_def)
qed

lemma format_version_cases: "format_version r = LEGACY_VERSION \<or> format_version r = VERSION"
  by (simp add: format_version_def)

lemma format_version_update [simp]: "format_version (r\<lparr>er_version := v\<rparr>) = format_version r"
  by (simp add: format_version_def)

lemma record_of_wire_of_record:
  "record_of_wire (wire_of_record r) (er_swap r) (er_swap_uses r) (er_active_swap_use r)
    = r\<lparr>er_version := format_version r\<rparr>"
  by (cases r) (simp add: record_of_wire_def wire_of_record_def format_version_def)

lemma record_of_wire_simps [simp]:
  "er_version (record_of_wire w swap uses active) = ew_version w"
  "er_swap (record_of_wire w swap uses active) = swap"
  "er_swap_uses (record_of_wire w swap uses active) = uses"
  "er_active_swap_use (record_of_wire w swap uses active) = active"
  by (simp_all add: record_of_wire_def)

lemma wire_of_record_simps [simp]:
  "ew_version (wire_of_record r) = format_version r" "ew_swap (wire_of_record r) = er_swap r"
  "ew_swap_uses (wire_of_record r) = er_swap_uses r" "ew_swap_approval (wire_of_record r) = None"
  "ew_active_swap_use (wire_of_record r) = er_active_swap_use r"
  by (simp_all add: wire_of_record_def)

lemma version_written: "er_version r = format_version r \<Longrightarrow> r\<lparr>er_version := format_version r\<rparr> = r"
  by (cases r) simp

lemma wire_round_trip:
  assumes "record_in_form r"
  shows "record_from_wire (wire_of_record r) = Inr r"
proof (cases "format_version r = LEGACY_VERSION")
  case True
  then have legacy: "er_swap_uses r = []" "er_active_swap_use r = None" "er_swap r = None"
    using assms by (auto simp: format_version_def record_in_form_def split: if_splits)
  have "legacy_links (wire_of_record r) = (er_swap r, er_swap_uses r, er_active_swap_use r)"
    using legacy by (simp add: legacy_links_def)
  moreover have "record_of_wire (wire_of_record r) None [] None = r"
    using record_of_wire_of_record [of r] version_written [of r] assms legacy by (simp add: record_in_form_def)
  ultimately show ?thesis using True legacy version_written [of r] assms
    by (simp add: record_from_wire_def record_in_form_def Let_def)
next
  case False
  then have "format_version r = VERSION" using format_version_cases by blast
  then show ?thesis using assms version_written [of r]
    by (simp add: record_from_wire_def record_in_form_def record_of_wire_of_record Let_def)
qed

lemma legacy_swap_projected:
  assumes "record_from_wire (wire_of_record r) = Inr r" "er_swap r \<noteq> None"
  shows "format_version r = VERSION"
proof (rule ccontr)
  assume "format_version r \<noteq> VERSION"
  then have legacy: "format_version r = LEGACY_VERSION" using format_version_cases by blast
  obtain swap uses active where links: "legacy_links (wire_of_record r) = (swap, uses, active)"
    by (cases "legacy_links (wire_of_record r)")
  then have "uses \<noteq> []" using assms(2) by (auto simp: legacy_links_def Let_def)
  moreover have "er_swap_uses r = uses"
    using assms(1) links legacy
    by (auto simp: record_from_wire_def Let_def split: if_splits dest: arg_cong [where f = er_swap_uses])
  ultimately show False using legacy by (auto simp: format_version_def split: if_splits)
qed

lemma has_use_ids_assigned: "has_use_ids (assign_use use sw) = (sw_orders sw \<noteq> [])"
  by (cases "sw_orders sw") (simp_all add: has_use_ids_def assign_use_def)

lemma legacy_decoded_in_form:
  assumes "ew_version w = LEGACY_VERSION" "record_from_wire w = Inr r"
  shows "record_in_form r"
proof -
  obtain swap uses active where links: "legacy_links w = (swap, uses, active)" by (cases "legacy_links w")
  then have "r = (record_of_wire w swap uses active)\<lparr>er_version := format_version (record_of_wire w swap uses active)\<rparr>"
    using assms by (auto simp: record_from_wire_def Let_def split: if_splits)
  moreover have "swap \<noteq> None \<Longrightarrow> uses \<noteq> []"
    using links by (auto simp: legacy_links_def Let_def split: if_splits)
  ultimately show ?thesis by (auto simp: record_in_form_def format_version_def)
qed

text \<open>
  C9: Stored records round-trip. A record whose version follows its content is read back unchanged after
  it is written exactly when it has no swap or is of version 2: a swap in a version-1 row is projected to a
  swap use when it is read. A version-1 row that decodes gives a record of this form, so the projection
  is stable: the record is written in the format its content asks for and read again it is the same.
\<close>

theorem executor_wire_round_trip:
  "(er_version r = format_version r \<longrightarrow>
      (record_from_wire (wire_of_record r) = Inr r \<longleftrightarrow> er_swap r = None \<or> format_version r = VERSION))
    \<and> (ew_version w = LEGACY_VERSION \<longrightarrow> record_from_wire w = Inr r \<longrightarrow>
        er_version r = format_version r \<and> (er_swap r = None \<or> format_version r = VERSION)
        \<and> record_from_wire (wire_of_record r) = Inr r)"
  using wire_round_trip legacy_swap_projected legacy_decoded_in_form unfolding record_in_form_def by blast

end
