(* ===== verification/ExecutorStore.thy ===== *)
theory ExecutorStore
  imports ExecutorWire "HOL-Library.AList"
begin

text \<open>
  The store of executor records: \<open>ExecutorStore\<close> of \<open>crates/wallet-ops/src/vault/executors.rs\<close> and
  \<open>vault/executors/spare.rs\<close>, its rows, the allocation of account indices and the reservations. A
  \<open>chain_store\<close> holds the rows of one wallet and chain: the stored shapes of the operation records by key
  and the allocation row; a vault is one such store per chain. Each operation runs under the record
  lock, so it is one step, and it writes its rows in one database transaction (\<open>put_rows\<close>).

  \<open>store_env\<close> is what an operation reads outside the store: whether the lock and the wallet are available,
  the clock, fresh random identifiers (\<open>None\<close> when the system's source fails), the delegates that the
  deployment lists for a chain with their capability, the account and the expiry that an order's
  identifier names (\<open>OrderUid::owner\<close> and \<open>OrderUid::valid_to\<close> of the contract bindings, which are not part
  of the repository), and the chains whose rows the database lists for the wallet, ascending. The encryption
  of rows and failures of the database are not modelled.
\<close>

section \<open>State\<close>

datatype store_error =
    Unavailable | InvalidRecord | Decode wire_error | Exhausted | OperationMismatch | OutstandingNonce
  | InputReserved | SwapUseActive | SwapAttemptOutstanding | SwapSpeedUpRefused | SwapUseTermsChanged
  | PublicSwapSourceShared | PublicSwapBuysSameToken swap_use_id u64 "u64 option"
  | PublicSwapSellsSameToken swap_use_id u64 "u64 option"

record executor_spare =
  sx_index :: u32
  sx_address :: "address option"
  sx_delegate :: address

record allocation =
  al_version :: u32
  al_next_index :: u32
  al_spare :: "executor_spare option"

record chain_store =
  cs_operations :: "(operation_id \<times> executor_record_wire) list"
  cs_allocation :: "allocation option"

type_synonym vault = "u64 \<Rightarrow> chain_store"

record store_env =
  se_locked :: bool
  se_wallet :: bool
  se_now :: "u64 option"
  se_random :: "nat \<Rightarrow> operation_id option"
  se_delegates :: "u64 \<Rightarrow> (address \<times> nat) list option"
  se_uid_owner :: "order_uid \<Rightarrow> address"
  se_uid_valid_to :: "order_uid \<Rightarrow> u32"
  se_chains :: "u64 list"

text \<open>The result of an operation and the state it leaves: a chain's store or the whole vault.\<close>

type_synonym ('a, 's) outcome = "(store_error + 'a) \<times> 's"

definition ALLOCATION_VERSION :: u32 where "ALLOCATION_VERSION = 2"
definition INDEX_LIMIT :: u32 where "INDEX_LIMIT = 2 ^ 31"
definition POSITION_START :: u32 where "POSITION_START = 1000000"
definition POSITION_END :: u32 where "POSITION_END = 1000063"

definition default_allocation :: allocation where
  "default_allocation = \<lparr>al_version = ALLOCATION_VERSION, al_next_index = 0, al_spare = None\<rparr>"

datatype row = OperationRow operation_id executor_record | AllocationRow allocation

fun put_row :: "row \<Rightarrow> chain_store \<Rightarrow> chain_store" where
  "put_row (OperationRow key r) cs =
    cs\<lparr>cs_operations := AList.update key (wire_of_record r) (cs_operations cs)\<rparr>"
| "put_row (AllocationRow a) cs = cs\<lparr>cs_allocation := Some a\<rparr>"

definition put_rows :: "row list \<Rightarrow> chain_store \<Rightarrow> chain_store" where
  "put_rows rows cs = fold put_row rows cs"

text \<open>Run \<open>f\<close> when the lock is taken and \<open>require_wallet\<close> holds.\<close>

definition guarded :: "store_env \<Rightarrow> ('s \<Rightarrow> ('a, 's) outcome) \<Rightarrow> 's \<Rightarrow> ('a, 's) outcome" where
  "guarded env f s = (if se_locked env \<and> se_wallet env then f s else (Inl Unavailable, s))"

definition bind_outcome :: "('a, 's) outcome \<Rightarrow> ('a \<Rightarrow> 's \<Rightarrow> ('b, 's) outcome) \<Rightarrow> ('b, 's) outcome" where
  "bind_outcome x f = (case x of (Inl e, s) \<Rightarrow> (Inl e, s) | (Inr a, s) \<Rightarrow> f a s)"

section \<open>Reading rows\<close>

definition valid_row :: "operation_id \<Rightarrow> executor_record \<Rightarrow> bool" where
  "valid_row key r \<longleftrightarrow> known_version (er_version r) \<and> er_operation r = key \<and> er_index r < INDEX_LIMIT"

definition open_row :: "operation_id \<Rightarrow> executor_record_wire \<Rightarrow> store_error + executor_record" where
  "open_row key w =
    (case record_from_wire w of
       Inl e \<Rightarrow> Inl (Decode e)
     | Inr r \<Rightarrow> if valid_row key r then Inr r else Inl InvalidRecord)"

fun open_rows :: "(operation_id \<times> executor_record_wire) list \<Rightarrow> store_error + executor_record list" where
  "open_rows [] = Inr []"
| "open_rows ((key, w) # rest) =
    and_then (open_row key w) (\<lambda>r. and_then (open_rows rest) (\<lambda>rs. Inr (r # rs)))"

text \<open>Rows are listed by key and then sorted by index.\<close>

definition records :: "chain_store \<Rightarrow> store_error + executor_record list" where
  "records cs = and_then (open_rows (sort_key fst (cs_operations cs))) (\<lambda>rs. Inr (sort_key er_index rs))"

definition record_of :: "operation_id \<Rightarrow> chain_store \<Rightarrow> store_error + executor_record option" where
  "record_of operation cs =
    (case map_of (cs_operations cs) operation of
       None \<Rightarrow> Inr None
     | Some w \<Rightarrow> and_then (open_row operation w) (\<lambda>r. Inr (Some r)))"

definition ordinary_index :: "u32 \<Rightarrow> store_error + u32" where
  "ordinary_index index =
    (let i = (if POSITION_START \<le> index \<and> index \<le> POSITION_END then POSITION_END + 1 else index)
     in if INDEX_LIMIT \<le> i then Inl Exhausted else Inr i)"

section \<open>Allocation\<close>

text \<open>The record of an account that no operation was given, or that was found again.\<close>

definition blank_record :: "operation_id \<Rightarrow> u32 \<Rightarrow> address option \<Rightarrow> address \<Rightarrow> executor_record" where
  "blank_record operation index address delegate =
    \<lparr>er_version = LEGACY_VERSION, er_origin = Discovered, er_operation = operation, er_index = index,
     er_address = address, er_delegate = delegate, er_retired = True, er_created_at = None,
     er_restored_at = None, er_purpose_summary = None, er_assets = [], er_hidden = False,
     er_use_check = \<lparr>uc_observation = None, uc_unavailable = False\<rparr>, er_issued = [],
     er_nonce_observation = None, er_nonce_watermark = None, er_settled_nonce = None,
     er_public_account_uuid = None, er_swap = None, er_swap_setup_stopped = False,
     er_released_payloads = [], er_swap_uses = [], er_active_swap_use = None\<rparr>"

definition retain_spare :: "store_env \<Rightarrow> allocation \<Rightarrow> store_error + (allocation \<times> row list)" where
  "retain_spare env a =
    (case al_spare a of
       None \<Rightarrow> Inr (a, [])
     | Some spare \<Rightarrow>
         (case se_random env 0 of
            None \<Rightarrow> Inl Unavailable
          | Some operation \<Rightarrow>
              Inr (a\<lparr>al_spare := None\<rparr>,
                [OperationRow operation
                  (blank_record operation (sx_index spare) (sx_address spare) (sx_delegate spare))])))"

definition allocation_valid :: "allocation \<Rightarrow> bool" where
  "allocation_valid a \<longleftrightarrow>
    LEGACY_VERSION \<le> al_version a \<and> al_version a \<le> ALLOCATION_VERSION \<and> al_next_index a \<le> INDEX_LIMIT
    \<and> (case al_spare a of
         None \<Rightarrow> True
       | Some spare \<Rightarrow> sx_index spare < al_next_index a \<and> ordinary_index (sx_index spare) = Inr (sx_index spare))"

text \<open>
  Records establish a lower bound of the counter, and a spare that an older allocation row brought back
  below a record's index is dropped or retained in a write of its own.
\<close>

definition load_allocation :: "store_env \<Rightarrow> chain_store \<Rightarrow> (allocation, chain_store) outcome" where
  "load_allocation env cs =
    (let stored = (case cs_allocation cs of None \<Rightarrow> default_allocation | Some a \<Rightarrow> a) in
     if \<not> allocation_valid stored then (Inl InvalidRecord, cs)
     else
       (case records cs of
          Inl e \<Rightarrow> (Inl e, cs)
        | Inr rs \<Rightarrow>
            let a = stored\<lparr>al_version := ALLOCATION_VERSION,
                  al_next_index := fold (\<lambda>r n. max n (er_index r + 1)) rs (al_next_index stored)\<rparr> in
            (case al_spare a of
               None \<Rightarrow> (Inr a, cs)
             | Some spare \<Rightarrow>
                 if \<not> list_ex (\<lambda>r. sx_index spare \<le> er_index r) rs then (Inr a, cs)
                 else
                   (case (if list_ex (\<lambda>r. er_index r = sx_index spare) rs then Inr (a\<lparr>al_spare := None\<rparr>, [])
                          else retain_spare env a) of
                      Inl e \<Rightarrow> (Inl e, cs)
                    | Inr (a1, rows) \<Rightarrow> (Inr a1, put_rows (rows @ [AllocationRow a1]) cs)))))"

definition next_index :: "store_env \<Rightarrow> chain_store \<Rightarrow> (u32, chain_store) outcome" where
  "next_index env cs =
    (if \<not> se_locked env then (Inl Unavailable, cs)
     else bind_outcome (load_allocation env cs) (\<lambda>a cs1. (Inr (al_next_index a), cs1)))"

text \<open>Displace the spare when \<open>P\<close> holds of it.\<close>

definition displace_spare ::
    "store_env \<Rightarrow> (executor_spare \<Rightarrow> bool) \<Rightarrow> allocation \<Rightarrow> store_error + (allocation \<times> row list)" where
  "displace_spare env P a =
    (case al_spare a of
       Some spare \<Rightarrow> if P spare then retain_spare env a else Inr (a, [])
     | None \<Rightarrow> Inr (a, []))"

definition raise_floor :: "store_env \<Rightarrow> u32 \<Rightarrow> chain_store \<Rightarrow> (unit, chain_store) outcome" where
  "raise_floor env floor cs =
    (if INDEX_LIMIT < floor then (Inl Exhausted, cs)
     else guarded env (\<lambda>cs.
       bind_outcome (load_allocation env cs) (\<lambda>a cs1.
         case displace_spare env (\<lambda>spare. sx_index spare < floor)
             (a\<lparr>al_next_index := max (al_next_index a) floor\<rparr>) of
           Inl e \<Rightarrow> (Inl e, cs1)
         | Inr (a1, rows) \<Rightarrow> (Inr (), put_rows (rows @ [AllocationRow a1]) cs1))) cs)"

text \<open>A fresh account for an operation without a record; the rows are not written yet.\<close>

definition allocate_record ::
    "store_env \<Rightarrow> operation_id \<Rightarrow> address \<Rightarrow> string option \<Rightarrow> executor_asset list \<Rightarrow> (swap_use_id \<times> swap_use_role) option
      \<Rightarrow> chain_store \<Rightarrow> (executor_record \<times> row list, chain_store) outcome" where
  "allocate_record env operation delegate purpose assets first_use cs =
    bind_outcome (load_allocation env cs) (\<lambda>a cs1.
      (and_then (displace_spare env (\<lambda>spare. sx_delegate spare \<noteq> delegate) a) (\<lambda>(a1, rows).
         and_then
           (case al_spare a1 of
              Some spare \<Rightarrow> Inr (sx_index spare, sx_address spare, a1\<lparr>al_spare := None\<rparr>)
            | None \<Rightarrow>
                and_then (ordinary_index (al_next_index a1)) (\<lambda>index.
                  Inr (index, None, a1\<lparr>al_next_index := index + 1\<rparr>)))
           (\<lambda>(index, address, a2).
              let r = (blank_record operation index address delegate)\<lparr>er_origin := Reserved, er_retired := False,
                    er_created_at := se_now env, er_purpose_summary := purpose, er_assets := assets\<rparr>;
                  r1 = (case first_use of None \<Rightarrow> r | Some (use, role) \<Rightarrow> begin_first_swap_use use role r);
                  r2 = r1\<lparr>er_version := format_version r1\<rparr>
              in Inr (r2, rows @ [AllocationRow a2, OperationRow operation r2]))), cs1))"

section \<open>Delegates\<close>

definition accepted :: "store_env \<Rightarrow> u64 \<Rightarrow> address \<Rightarrow> nat option" where
  "accepted env chain delegate =
    Option.bind (se_delegates env chain) (\<lambda>listed. map_option snd (find (\<lambda>(a, _). a = delegate) listed))"

definition interchangeable :: "store_env \<Rightarrow> u64 \<Rightarrow> address \<Rightarrow> address \<Rightarrow> bool" where
  "interchangeable env chain stored delegate \<longleftrightarrow>
    stored = delegate
    \<or> (case accepted env chain stored of
         None \<Rightarrow> False | Some capability \<Rightarrow> accepted env chain delegate = Some capability)"

definition retarget :: "store_env \<Rightarrow> u64 \<Rightarrow> address \<Rightarrow> executor_record \<Rightarrow> store_error + executor_record" where
  "retarget env chain delegate r =
    (if \<not> interchangeable env chain (er_delegate r) delegate then Inl OperationMismatch
     else Inr (r\<lparr>er_delegate := delegate\<rparr>))"

section \<open>Reservations\<close>

record reservation_links =
  rl_swap_approval :: "swap_approval option"
  rl_destination_operation :: "operation_id option"
  rl_swap_destination :: "destination_record option"

text \<open>A swap's reservation is its account's first use.\<close>

definition first_use_of :: "operation_id \<Rightarrow> reservation_links \<Rightarrow> (swap_use_id \<times> swap_use_role) option" where
  "first_use_of operation links =
    (case rl_swap_destination links of
       Some d \<Rightarrow>
         Some (sd_origin_operation d,
           Destination (sd_origin_chain d) (sd_origin_operation d) (sd_destination_token d) [] None)
     | None \<Rightarrow>
         if rl_swap_approval links \<noteq> None \<or> rl_destination_operation links \<noteq> None
         then Some (operation, Source (rl_swap_approval links) (rl_destination_operation links))
         else None)"

definition without_outcome :: "destination_record option \<Rightarrow> destination_record option" where
  "without_outcome d = map_option (\<lambda>d. d\<lparr>sd_outcome := None\<rparr>) d"

definition reserve_record ::
    "store_env \<Rightarrow> u64 \<Rightarrow> operation_id \<Rightarrow> address \<Rightarrow> string option \<Rightarrow> executor_asset list \<Rightarrow> reservation_links
      \<Rightarrow> chain_store \<Rightarrow> (executor_record, chain_store) outcome" where
  "reserve_record env chain operation delegate purpose assets links =
    guarded env (\<lambda>cs.
      case record_of operation cs of
        Inl e \<Rightarrow> (Inl e, cs)
      | Inr (Some existing) \<Rightarrow>
          if er_origin existing \<noteq> Reserved
            \<or> destination_operation existing \<noteq> rl_destination_operation links
            \<or> without_outcome (swap_destination existing) \<noteq> rl_swap_destination links
          then (Inl OperationMismatch, cs)
          else if er_delegate existing = delegate then (Inr existing, cs)
          else
            (case retarget env chain delegate existing of
               Inl e \<Rightarrow> (Inl e, cs)
             | Inr r \<Rightarrow> (Inr r, put_rows [OperationRow operation r] cs))
      | Inr None \<Rightarrow>
          bind_outcome (allocate_record env operation delegate purpose assets (first_use_of operation links) cs)
            (\<lambda>(r, rows) cs1. (Inr r, put_rows rows cs1)))"

definition reserve_with_swap_approval ::
    "store_env \<Rightarrow> u64 \<Rightarrow> operation_id \<Rightarrow> address \<Rightarrow> string option \<Rightarrow> executor_asset list
      \<Rightarrow> swap_approval option \<Rightarrow> operation_id option \<Rightarrow> chain_store \<Rightarrow> (executor_record, chain_store) outcome" where
  "reserve_with_swap_approval env chain operation delegate purpose assets approval destination =
    reserve_record env chain operation delegate purpose assets
      \<lparr>rl_swap_approval = approval, rl_destination_operation = destination, rl_swap_destination = None\<rparr>"

definition reserve ::
    "store_env \<Rightarrow> u64 \<Rightarrow> operation_id \<Rightarrow> address \<Rightarrow> string option \<Rightarrow> executor_asset list
      \<Rightarrow> chain_store \<Rightarrow> (executor_record, chain_store) outcome" where
  "reserve env chain operation delegate purpose assets =
    reserve_with_swap_approval env chain operation delegate purpose assets None None"

definition SWAP_DESTINATION_PURPOSE_SUMMARY :: string where
  "SWAP_DESTINATION_PURPOSE_SUMMARY = ''Private swap destination''"

definition reserve_swap_destination ::
    "store_env \<Rightarrow> u64 \<Rightarrow> operation_id \<Rightarrow> address \<Rightarrow> destination_record \<Rightarrow> chain_store \<Rightarrow> (executor_record, chain_store) outcome" where
  "reserve_swap_destination env chain operation delegate destination cs =
    (if sd_origin_chain destination = chain then (Inl OperationMismatch, cs)
     else reserve_record env chain operation delegate (Some SWAP_DESTINATION_PURPOSE_SUMMARY)
       [Erc20 (sd_destination_token destination)]
       \<lparr>rl_swap_approval = None, rl_destination_operation = None,
        rl_swap_destination = Some (destination\<lparr>sd_outcome := None\<rparr>)\<rparr> cs)"

section \<open>The spare account\<close>

definition replace_spare :: "store_env \<Rightarrow> address \<Rightarrow> allocation \<Rightarrow> chain_store \<Rightarrow> (executor_spare, chain_store) outcome" where
  "replace_spare env delegate a cs =
    (case and_then (retain_spare env a) (\<lambda>(a1, rows).
         and_then (ordinary_index (al_next_index a1)) (\<lambda>index. Inr (a1, rows, index))) of
       Inl e \<Rightarrow> (Inl e, cs)
     | Inr (a1, rows, index) \<Rightarrow>
         let spare = \<lparr>sx_index = index, sx_address = None, sx_delegate = delegate\<rparr>;
             a2 = a1\<lparr>al_next_index := index + 1, al_spare := Some spare\<rparr>
         in (Inr spare, put_rows (rows @ [AllocationRow a2]) cs))"

definition reserve_spare :: "store_env \<Rightarrow> address \<Rightarrow> chain_store \<Rightarrow> (executor_spare, chain_store) outcome" where
  "reserve_spare env delegate =
    guarded env (\<lambda>cs.
      bind_outcome (load_allocation env cs) (\<lambda>a cs1.
        case al_spare a of
          Some spare \<Rightarrow>
            if sx_delegate spare = delegate then (Inr spare, cs1)
            else replace_spare env delegate a cs1
        | None \<Rightarrow> replace_spare env delegate a cs1))"

definition bind_spare_address :: "store_env \<Rightarrow> u32 \<Rightarrow> address \<Rightarrow> chain_store \<Rightarrow> (unit, chain_store) outcome" where
  "bind_spare_address env index address =
    guarded env (\<lambda>cs.
      bind_outcome (load_allocation env cs) (\<lambda>a cs1.
        case al_spare a of
          None \<Rightarrow> (Inl OperationMismatch, cs1)
        | Some spare \<Rightarrow>
            if sx_index spare \<noteq> index \<or> sx_address spare \<notin> {None, Some address} then (Inl OperationMismatch, cs1)
            else (Inr (), put_rows [AllocationRow (a\<lparr>al_spare := Some (spare\<lparr>sx_address := Some address\<rparr>)\<rparr>)] cs1)))"

section \<open>Restoring an account\<close>

definition restore_existing ::
    "store_env \<Rightarrow> u64 \<Rightarrow> address \<Rightarrow> address \<Rightarrow> executor_asset list \<Rightarrow> executor_record \<Rightarrow> store_error + executor_record" where
  "restore_existing env chain address delegate assets r =
    (if er_address r \<notin> {None, Some address} \<or> \<not> interchangeable env chain (er_delegate r) delegate
     then Inl OperationMismatch
     else Inr (r\<lparr>er_address := Some address,
       er_restored_at := (case er_restored_at r of None \<Rightarrow> se_now env | Some at \<Rightarrow> Some at),
       er_assets := fold add_once assets (er_assets r)\<rparr>))"

text \<open>The spare at the index becomes the record, with its own delegate; a spare below it is retained.\<close>

definition take_spare_at ::
    "store_env \<Rightarrow> u64 \<Rightarrow> u32 \<Rightarrow> address \<Rightarrow> address \<Rightarrow> allocation \<Rightarrow> store_error + (address \<times> allocation \<times> row list)" where
  "take_spare_at env chain index address delegate a =
    (case al_spare a of
       None \<Rightarrow> Inr (delegate, a, [])
     | Some spare \<Rightarrow>
         if sx_index spare = index then
           if sx_address spare \<notin> {None, Some address} \<or> \<not> interchangeable env chain (sx_delegate spare) delegate
           then Inl OperationMismatch
           else Inr (sx_delegate spare, a\<lparr>al_spare := None\<rparr>, [])
         else if sx_index spare < index then
           and_then (retain_spare env a) (\<lambda>(a1, rows). Inr (delegate, a1, rows))
         else Inr (delegate, a, []))"

definition restore_index ::
    "store_env \<Rightarrow> u64 \<Rightarrow> u32 \<Rightarrow> address \<Rightarrow> address \<Rightarrow> executor_asset list
      \<Rightarrow> chain_store \<Rightarrow> (executor_record, chain_store) outcome" where
  "restore_index env chain index address delegate assets cs =
    (if INDEX_LIMIT \<le> index then (Inl Exhausted, cs)
     else guarded env (\<lambda>cs.
       bind_outcome (load_allocation env cs) (\<lambda>a cs1.
         case records cs1 of
           Inl e \<Rightarrow> (Inl e, cs1)
         | Inr rs \<Rightarrow>
             (case find (\<lambda>r. er_index r = index) rs of
                Some existing \<Rightarrow>
                  (case restore_existing env chain address delegate assets existing of
                     Inl e \<Rightarrow> (Inl e, cs1)
                   | Inr r \<Rightarrow> (Inr r, put_rows [OperationRow (er_operation existing) r] cs1))
              | None \<Rightarrow>
                  (case take_spare_at env chain index address delegate
                      (a\<lparr>al_next_index := max (al_next_index a) (index + 1)\<rparr>) of
                     Inl e \<Rightarrow> (Inl e, cs1)
                   | Inr (delegate1, a1, rows) \<Rightarrow>
                       (case se_random env 1 of
                          None \<Rightarrow> (Inl Unavailable, cs1)
                        | Some operation \<Rightarrow>
                            let r = (blank_record operation index (Some address) delegate1)\<lparr>er_restored_at := se_now env,
                                  er_assets := assets\<rparr>
                            in (Inr r, put_rows (rows @ [AllocationRow a1, OperationRow operation r]) cs1))))))
       cs)"

end
