(* ===== verification/ExecutorUpdates.thy ===== *)
theory ExecutorUpdates
  imports ExecutorStore
begin

text \<open>
  The operations of \<open>ExecutorStore\<close> (\<open>crates/wallet-ops/src/vault/executors.rs\<close>, \<open>vault/executors/swap.rs\<close>) on
  the record of one operation. Each reads the record, applies a change that may refuse, and writes it
  back with the version its content asks for (\<open>update_record\<close>). An operation that reads the record of
  another chain takes the vault as an argument.
\<close>

section \<open>Changes of one record\<close>

definition update_record ::
    "store_env \<Rightarrow> operation_id \<Rightarrow> (chain_store \<Rightarrow> executor_record \<Rightarrow> store_error + executor_record)
      \<Rightarrow> chain_store \<Rightarrow> (executor_record, chain_store) outcome" where
  "update_record env operation change =
    guarded env (\<lambda>cs.
      case record_of operation cs of
        Inl e \<Rightarrow> (Inl e, cs)
      | Inr None \<Rightarrow> (Inl OperationMismatch, cs)
      | Inr (Some r) \<Rightarrow>
          (case change cs r of
             Inl e \<Rightarrow> (Inl e, cs)
           | Inr r1 \<Rightarrow>
               let r2 = r1\<lparr>er_version := format_version r1\<rparr>
               in (Inr r2, put_rows [OperationRow operation r2] cs)))"

definition retarget_delegate ::
    "store_env \<Rightarrow> u64 \<Rightarrow> operation_id \<Rightarrow> address \<Rightarrow> chain_store \<Rightarrow> (executor_record, chain_store) outcome" where
  "retarget_delegate env chain operation delegate =
    update_record env operation (\<lambda>_ r. retarget env chain delegate r)"

definition record_use_check ::
    "store_env \<Rightarrow> operation_id \<Rightarrow> use_observation option \<Rightarrow> chain_store \<Rightarrow> (executor_record, chain_store) outcome" where
  "record_use_check env operation observation =
    update_record env operation (\<lambda>_ r. Inr (r\<lparr>er_use_check :=
      \<lparr>uc_observation = (case observation of None \<Rightarrow> uc_observation (er_use_check r) | Some seen \<Rightarrow> Some seen),
       uc_unavailable = (observation = None)\<rparr>\<rparr>))"

definition bind_address ::
    "store_env \<Rightarrow> operation_id \<Rightarrow> address \<Rightarrow> chain_store \<Rightarrow> (executor_record, chain_store) outcome" where
  "bind_address env operation address =
    update_record env operation (\<lambda>_ r.
      if er_address r \<notin> {None, Some address} then Inl OperationMismatch
      else Inr (r\<lparr>er_address := Some address\<rparr>))"

definition set_hidden :: "store_env \<Rightarrow> operation_id \<Rightarrow> bool \<Rightarrow> chain_store \<Rightarrow> (executor_record, chain_store) outcome" where
  "set_hidden env operation hidden = update_record env operation (\<lambda>_ r. Inr (r\<lparr>er_hidden := hidden\<rparr>))"

definition retire :: "store_env \<Rightarrow> operation_id \<Rightarrow> chain_store \<Rightarrow> (executor_record, chain_store) outcome" where
  "retire env operation = update_record env operation (\<lambda>_ r. Inr (r\<lparr>er_retired := True\<rparr>))"

section \<open>Issuing payloads\<close>

datatype use_expectation = Unchecked | Exact "swap_use_id option"

fun expectation_matches :: "swap_use_id option \<Rightarrow> use_expectation \<Rightarrow> bool" where
  "expectation_matches active Unchecked = True"
| "expectation_matches active (Exact expected) = (expected = active)"

text \<open>
  The use that a destination shield belongs to: the active, not stopped destination use, which the
  origin swap on the other chain must link.
\<close>

definition shield_use_of :: "vault \<Rightarrow> operation_id \<Rightarrow> executor_record \<Rightarrow> store_error + swap_use_id" where
  "shield_use_of v operation r =
    (case active_use r of
       None \<Rightarrow> Inl OperationMismatch
     | Some u \<Rightarrow>
         if su_stopped u then Inl OperationMismatch
         else
           (case su_role u of
              Destination chain origin _ _ _ \<Rightarrow>
                and_then (record_of origin (v chain)) (\<lambda>found.
                  case found of
                    None \<Rightarrow> Inl OperationMismatch
                  | Some origin_record \<Rightarrow>
                      if links_swap_destination (su_id u) operation origin_record then Inr (su_id u)
                      else Inl OperationMismatch)
            | PublicSourceDestination _ _ _ _ _ _ \<Rightarrow> Inr (su_id u)
            | Source _ _ \<Rightarrow> Inl OperationMismatch))"

definition setup_closed :: "executor_record \<Rightarrow> bool" where
  "setup_closed r = (case active_use r of None \<Rightarrow> False | Some u \<Rightarrow> su_stopped u \<or> \<not> su_fresh u)"

definition purpose_refused :: "executor_record \<Rightarrow> issued_payload \<Rightarrow> bool" where
  "purpose_refused r p \<longleftrightarrow>
    (er_public_account_uuid r \<noteq> None \<or> er_swap_setup_stopped r \<or> setup_closed r) \<and> ip_purpose p = OperationPayload
    \<or> ip_purpose p = SwapPreHook \<or> ip_purpose p = SwapPostHook
    \<or> ip_purpose p = SwapDestinationShield
      \<and> (er_retired r \<or> er_swap_setup_stopped r \<or> px_inputs (ip_context p) \<noteq> [])"

definition shares_input :: "input_identity list \<Rightarrow> input_identity list \<Rightarrow> bool" where
  "shares_input reserved inputs = list_ex (\<lambda>x. x \<in> set inputs) reserved"

text \<open>The inputs that the chain's other operations reserve.\<close>

definition reserved_elsewhere :: "operation_id \<Rightarrow> input_identity list \<Rightarrow> executor_record list \<Rightarrow> bool" where
  "reserved_elsewhere operation inputs rs =
    list_ex (\<lambda>other. er_operation other \<noteq> operation \<and> shares_input (reserved_inputs other) inputs) rs"

definition nonce_refused :: "executor_record \<Rightarrow> issued_payload \<Rightarrow> bool" where
  "nonce_refused r p \<longleftrightarrow>
    er_nonce_observation r \<noteq> Some (px_observed (ip_context p))
    \<or> no_nonce (px_observed (ip_context p)) \<noteq> ip_nonce p
    \<or> px_calldata (ip_context p) = []
    \<or> ip_purpose p = OperationPayload
      \<and> list_ex (\<lambda>q. ip_nonce q < ip_nonce p \<and> \<not> nonce_resolved (ip_nonce q) r) (er_issued r)"

definition same_payload :: "issued_payload \<Rightarrow> issued_payload \<Rightarrow> bool" where
  "same_payload q p \<longleftrightarrow>
    ip_nonce q = ip_nonce p \<and> ip_delegate q = ip_delegate p \<and> ip_purpose q = ip_purpose p
    \<and> px_calldata (ip_context q) = px_calldata (ip_context p) \<and> px_inputs (ip_context q) = px_inputs (ip_context p)"

text \<open>An existing payload is reserved again; a new one is appended, and a recovery retires the account.\<close>

definition add_payload :: "issued_payload \<Rightarrow> executor_record \<Rightarrow> store_error + executor_record" where
  "add_payload p r =
    (case find (\<lambda>q. ip_hash q = ip_hash p) (er_issued r) of
       Some existing \<Rightarrow>
         if \<not> same_payload existing p then Inl OperationMismatch
         else Inr (r\<lparr>er_released_payloads := filter (\<lambda>h. h \<noteq> ip_hash p) (er_released_payloads r)\<rparr>)
     | None \<Rightarrow>
         Inr (r\<lparr>er_retired := er_retired r \<or> ip_purpose p = RecoveryPayload, er_issued := er_issued r @ [p]\<rparr>))"

definition reopened :: "destination_outcome option \<Rightarrow> destination_outcome option" where
  "reopened outcome = (if outcome = Some Unfilled then None else outcome)"

fun add_shield :: "b256 \<Rightarrow> swap_use_role \<Rightarrow> swap_use_role" where
  "add_shield h (Source approval destination) = Source approval destination"
| "add_shield h (Destination chain operation token shields outcome) =
    Destination chain operation token (add_once h shields) (reopened outcome)"
| "add_shield h (PublicSourceDestination chain source token shields outcome swap) =
    PublicSourceDestination chain source token (add_once h shields) (reopened outcome) swap"

definition record_shield :: "swap_use_id option \<Rightarrow> b256 \<Rightarrow> executor_record \<Rightarrow> executor_record" where
  "record_shield shield_use h r =
    (case shield_use of
       None \<Rightarrow> r
     | Some use \<Rightarrow> r\<lparr>er_swap_uses :=
         update_use use (\<lambda>u. u\<lparr>su_role := add_shield h (su_role u)\<rparr>) (er_swap_uses r)\<rparr>)"

definition issue_payload ::
    "vault \<Rightarrow> operation_id \<Rightarrow> use_expectation \<Rightarrow> issued_payload \<Rightarrow> chain_store \<Rightarrow> executor_record
      \<Rightarrow> store_error + executor_record" where
  "issue_payload v operation expected p cs r =
    (if \<not> expectation_matches (er_active_swap_use r) expected then Inl SwapUseActive
     else if er_address r = None \<or> ip_delegate p \<noteq> er_delegate r then Inl OperationMismatch
     else and_then
       (if ip_purpose p = SwapDestinationShield
        then and_then (shield_use_of v operation r) (\<lambda>use. Inr (Some use)) else Inr None)
       (\<lambda>shield_use.
          if purpose_refused r p then Inl OperationMismatch
          else and_then (records cs) (\<lambda>rs.
            if reserved_elsewhere operation (px_inputs (ip_context p)) rs then Inl InputReserved
            else if ip_purpose p \<in> {RecoveryPayload, OperationPayload}
              \<and> shares_input (swap_reserved_inputs r) (px_inputs (ip_context p)) then Inl InputReserved
            else if nonce_refused r p then Inl OutstandingNonce
            else and_then (add_payload p r) (\<lambda>r1. Inr (record_shield shield_use (ip_hash p) r1)))))"

definition record_issued_for ::
    "store_env \<Rightarrow> vault \<Rightarrow> operation_id \<Rightarrow> use_expectation \<Rightarrow> issued_payload
      \<Rightarrow> chain_store \<Rightarrow> (executor_record, chain_store) outcome" where
  "record_issued_for env v operation expected p =
    update_record env operation (issue_payload v operation expected p)"

definition record_issued ::
    "store_env \<Rightarrow> vault \<Rightarrow> operation_id \<Rightarrow> issued_payload \<Rightarrow> chain_store \<Rightarrow> (executor_record, chain_store) outcome" where
  "record_issued env v operation p = record_issued_for env v operation Unchecked p"

definition record_swap_destination_shield ::
    "store_env \<Rightarrow> vault \<Rightarrow> operation_id \<Rightarrow> swap_use_id \<Rightarrow> issued_payload
      \<Rightarrow> chain_store \<Rightarrow> (executor_record, chain_store) outcome" where
  "record_swap_destination_shield env v operation use p cs =
    (if ip_purpose p \<noteq> SwapDestinationShield then (Inl OperationMismatch, cs)
     else record_issued_for env v operation (Exact (Some use)) p cs)"

definition record_recovery_issued ::
    "store_env \<Rightarrow> vault \<Rightarrow> operation_id \<Rightarrow> swap_use_id option \<Rightarrow> issued_payload
      \<Rightarrow> chain_store \<Rightarrow> (executor_record, chain_store) outcome" where
  "record_recovery_issued env v operation expected p cs =
    (if ip_purpose p \<noteq> RecoveryPayload then (Inl OperationMismatch, cs)
     else record_issued_for env v operation (Exact expected) p cs)"

section \<open>Nonces\<close>

definition record_synced ::
    "store_env \<Rightarrow> operation_id \<Rightarrow> nonce_watermark option \<Rightarrow> u64 \<Rightarrow> chain_store \<Rightarrow> (executor_record, chain_store) outcome" where
  "record_synced env operation resolved last_scanned =
    update_record env operation (\<lambda>_ r. Inr (apply_synced resolved last_scanned r))"

text \<open>The block of the latest read or resolution; \<open>None\<close> is below every block.\<close>

definition recorded_block :: "executor_record \<Rightarrow> u64 option" where
  "recorded_block r =
    (case (map_option (\<lambda>x. bn_number (no_block x)) (er_nonce_observation r), map_option nw_block (watermark r)) of
       (None, b) \<Rightarrow> b
     | (Some a, None) \<Rightarrow> Some a
     | (Some a, Some b) \<Rightarrow> Some (max a b))"

definition apply_account_read :: "nonce_observation \<Rightarrow> executor_record \<Rightarrow> executor_record" where
  "apply_account_read observed r =
    (if (case recorded_block r of None \<Rightarrow> True | Some block \<Rightarrow> block \<le> bn_number (no_block observed)) then
       set_nonce_watermark (watermark_of observed) (r\<lparr>er_nonce_observation := Some observed\<rparr>)
     else if er_nonce_observation r = None
         \<and> (case watermark r of None \<Rightarrow> False | Some w \<Rightarrow> nw_nonce w = no_nonce observed) then
       r\<lparr>er_nonce_observation := Some observed\<rparr>
     else r)"

definition record_account_read ::
    "store_env \<Rightarrow> operation_id \<Rightarrow> nonce_observation \<Rightarrow> chain_store \<Rightarrow> (executor_record, chain_store) outcome" where
  "record_account_read env operation observed =
    update_record env operation (\<lambda>_ r. Inr (apply_account_read observed r))"

definition invalidate_observation ::
    "store_env \<Rightarrow> operation_id \<Rightarrow> chain_store \<Rightarrow> (executor_record, chain_store) outcome" where
  "invalidate_observation env operation = update_record env operation (\<lambda>_ r. Inr (require_reconciliation r))"

definition refresh_settled_swap_nonce ::
    "store_env \<Rightarrow> executor_record \<Rightarrow> nonce_observation \<Rightarrow> chain_store \<Rightarrow> (executor_record, chain_store) outcome" where
  "refresh_settled_swap_nonce env previous observed =
    update_record env (er_operation previous) (\<lambda>_ r.
      if r \<noteq> previous
        \<or> \<not> settled_swaps_at (bn_number (no_block observed)) r
        \<or> (case er_nonce_observation r of None \<Rightarrow> False | Some old \<Rightarrow> no_nonce observed < no_nonce old)
        \<or> list_ex (\<lambda>p. no_nonce observed \<le> ip_nonce p) (er_issued r)
      then Inl OutstandingNonce
      else Inr (set_nonce_watermark (watermark_of observed) (r\<lparr>er_nonce_observation := Some observed\<rparr>)))"

section \<open>Releases and submissions\<close>

fun release_hashes :: "b256 list \<Rightarrow> executor_record \<Rightarrow> store_error + executor_record" where
  "release_hashes [] r = Inr r"
| "release_hashes (h # hs) r =
    (if \<not> list_ex (\<lambda>p. ip_hash p = h) (er_issued r) then Inl OperationMismatch
     else release_hashes hs (r\<lparr>er_released_payloads := add_once h (er_released_payloads r)\<rparr>))"

definition release_payloads ::
    "store_env \<Rightarrow> operation_id \<Rightarrow> b256 list \<Rightarrow> chain_store \<Rightarrow> (executor_record, chain_store) outcome" where
  "release_payloads env operation hashes = update_record env operation (\<lambda>_ r. release_hashes hashes r)"

definition withdraw_release :: "b256 \<Rightarrow> executor_record \<Rightarrow> executor_record" where
  "withdraw_release h r = r\<lparr>er_released_payloads := filter (\<lambda>x. x \<noteq> h) (er_released_payloads r)\<rparr>"

definition reserve_again :: "operation_id \<Rightarrow> b256 \<Rightarrow> chain_store \<Rightarrow> executor_record \<Rightarrow> store_error + executor_record" where
  "reserve_again operation h cs r =
    (case find (\<lambda>p. ip_hash p = h) (er_issued r) of
       None \<Rightarrow> Inl OperationMismatch
     | Some p \<Rightarrow>
         if h \<notin> set (er_released_payloads r) then Inr r
         else and_then (records cs) (\<lambda>rs.
           if reserved_elsewhere operation (px_inputs (ip_context p)) rs then Inl InputReserved
           else Inr (withdraw_release h r)))"

definition reserve_released ::
    "store_env \<Rightarrow> operation_id \<Rightarrow> b256 \<Rightarrow> chain_store \<Rightarrow> (executor_record, chain_store) outcome" where
  "reserve_released env operation h = update_record env operation (reserve_again operation h)"

text \<open>An assignment to the first payload with the hash.\<close>

fun update_payload :: "b256 \<Rightarrow> (issued_payload \<Rightarrow> issued_payload) \<Rightarrow> issued_payload list \<Rightarrow> issued_payload list" where
  "update_payload h f [] = []"
| "update_payload h f (p # ps) = (if ip_hash p = h then f p # ps else p # update_payload h f ps)"

definition submit_payload :: "b256 \<Rightarrow> b256 \<Rightarrow> executor_record \<Rightarrow> store_error + executor_record" where
  "submit_payload h transaction r =
    (case find (\<lambda>p. ip_hash p = h) (er_issued r) of
       None \<Rightarrow> Inl OperationMismatch
     | Some _ \<Rightarrow>
         Inr (withdraw_release h (r\<lparr>er_issued := update_payload h
           (\<lambda>p. p\<lparr>ip_transaction_hashes := add_once transaction (ip_transaction_hashes p)\<rparr>) (er_issued r)\<rparr>)))"

definition record_submission ::
    "store_env \<Rightarrow> operation_id \<Rightarrow> b256 \<Rightarrow> b256 \<Rightarrow> chain_store \<Rightarrow> (executor_record, chain_store) outcome" where
  "record_submission env operation h transaction =
    update_record env operation (\<lambda>_ r. submit_payload h transaction r)"

end
