(* ===== verification/SwapAdmission.thy ===== *)
theory SwapAdmission
  imports ExecutorUpdates
begin

text \<open>
  Whether a stealth account can take a swap use: \<open>crates/wallet-ops/src/vault/executors/swap_admission.rs\<close>.
  Account lists, quotes, the claim under the store's lock and signing admission all judge an account
  with \<open>swap_account_refusal\<close>, on recorded, fresh or included evidence.
\<close>

section \<open>What is asked\<close>

datatype swap_account_role = SourceAccount | DestinationAccount address

datatype swap_account_use = NewUse | ClaimedUse swap_use_id | SpeedUpUse swap_speed_up

datatype swap_evidence = RecordedEvidence | FreshEvidence | IncludedEvidence u64 u256

record swap_earlier_shield =
  es_swap_use :: swap_use_id
  es_token :: address
  es_transaction_hash :: b256

datatype swap_shield_verdict = ShieldResolved | ShieldBlocked | ShieldPending | ShieldUnknown

definition awaits_observation :: "swap_account_refusal \<Rightarrow> bool" where
  "awaits_observation refusal \<longleftrightarrow>
    refusal \<notin> {AddressUnknown, UnsupportedDelegate, RecoveryOnly, RegisteredInPublic, ClaimedByAnotherSwap,
      SpeedUpOrderChanged, SpeedUpNonceUsed, SpeedUpUnsupported}"

section \<open>Facts of the record\<close>

fun find_map :: "('a \<Rightarrow> 'b option) \<Rightarrow> 'a list \<Rightarrow> 'b option" where
  "find_map f [] = None"
| "find_map f (x # xs) = (case f x of Some y \<Rightarrow> Some y | None \<Rightarrow> find_map f xs)"

definition source_role :: "swap_use_role \<Rightarrow> bool" where
  "source_role role = (case role of Source _ _ \<Rightarrow> True | _ \<Rightarrow> False)"

definition unresolved_swap_setup_nonce :: "swap_use_id \<Rightarrow> executor_record \<Rightarrow> u256 option" where
  "unresolved_swap_setup_nonce use r =
    Option.bind (er_nonce_observation r) (\<lambda>seen.
      if (case swap_use use r of None \<Rightarrow> True | Some u \<Rightarrow> su_fresh u \<and> source_role (su_role u))
        \<and> \<not> nonce_resolved (no_nonce seen) r
        \<and> list_ex (\<lambda>p. ip_purpose p = OperationPayload \<and> ip_nonce p = no_nonce seen) (er_issued r)
      then Some (no_nonce seen) else None)"

definition earlier_swap_shields :: "swap_use_id option \<Rightarrow> executor_record \<Rightarrow> swap_earlier_shield list" where
  "earlier_swap_shields except r =
    List.map_filter (\<lambda>u.
      if Some (su_id u) = except \<or> source_role (su_role u) then None
      else
        (case role_outcome (su_role u) of
           Some (Shielded _ hash) \<Rightarrow>
             Some \<lparr>es_swap_use = su_id u, es_token = role_token (su_role u), es_transaction_hash = hash\<rparr>
         | _ \<Rightarrow> None)) (er_swap_uses r)"

definition active_use_finished :: "executor_record \<Rightarrow> bool" where
  "active_use_finished r =
    (case er_active_swap_use r of
       None \<Rightarrow> True
     | Some active \<Rightarrow>
         (case swap_use active r of
            None \<Rightarrow> False
          | Some u \<Rightarrow>
              if source_role (su_role u) then has_swap_use_order active r else role_shields (su_role u) \<noteq> []))"

definition cancelled_fresh_source :: "executor_record \<Rightarrow> bool" where
  "cancelled_fresh_source r =
    (case active_use r of
       None \<Rightarrow> False
     | Some u \<Rightarrow> su_fresh u \<and> su_stopped u \<and> source_role (su_role u) \<and> \<not> has_swap_use_order (su_id u) r)"

definition setup_executed :: "executor_record \<Rightarrow> bool" where
  "setup_executed r =
    list_ex (\<lambda>p. ip_purpose p = OperationPayload \<and> nonce_resolved (ip_nonce p) r) (er_issued r)"

definition own_shields :: "swap_use_id option \<Rightarrow> executor_record \<Rightarrow> b256 list" where
  "own_shields claimed r =
    (case Option.bind claimed (\<lambda>use. swap_use use r) of
       None \<Rightarrow> []
     | Some u \<Rightarrow> if source_role (su_role u) then [] else role_shields (su_role u))"

definition has_executable_work :: "executor_record \<Rightarrow> swap_use_id option \<Rightarrow> bool \<Rightarrow> bool" where
  "has_executable_work r claimed setup_included =
    (if list_ex (\<lambda>p. ip_purpose p = RecoveryPayload \<and> \<not> nonce_resolved (ip_nonce p) r) (er_issued r) then True
     else
       let shield_outstanding =
             list_ex (\<lambda>p. ip_purpose p = SwapDestinationShield \<and> ip_hash p \<notin> set (own_shields claimed r)
               \<and> \<not> swap_hook_nonce_passed p r) (er_issued r)
       in if shield_outstanding \<or> er_swap r \<noteq> None then shield_outstanding
          else list_ex (\<lambda>p. ip_purpose p \<noteq> SwapDestinationShield
            \<and> \<not> (setup_included \<and> ip_purpose p = OperationPayload)
            \<and> \<not> nonce_resolved (ip_nonce p) r) (er_issued r))"

definition bridge_refusal :: "swap_operation \<Rightarrow> swap_order \<Rightarrow> swap_account_refusal option" where
  "bridge_refusal sw o1 =
    (let observed = so_observations o1 in
     if oo_delivered observed = None \<or> \<not> is_bridge (so_delivery o1)
       \<or> oo_traded observed = None \<and> trade_order sw o1 = None
     then None
     else
       (case oo_bridge_outcome observed of
          None \<Rightarrow> Some BridgeUndelivered
        | Some Refunding \<Rightarrow> Some BridgeRefunding
        | Some NeedsAttention \<Rightarrow> Some BridgeNeedsAttention
        | Some (HeldOnDestination _ _ _) \<Rightarrow> Some BridgeHeldOnDestination
        | Some (DeliveredVerified _ _ _ _) \<Rightarrow> None
        | Some (DeliveredReported _ _ _) \<Rightarrow> None))"

section \<open>The refusal\<close>

definition role_fits :: "swap_account_role \<Rightarrow> swap_use_role \<Rightarrow> bool" where
  "role_fits role claimed =
    (case role of
       SourceAccount \<Rightarrow> source_role claimed
     | DestinationAccount token \<Rightarrow> \<not> source_role claimed \<and> role_token claimed = token)"

text \<open>The use that claims the account, or the refusal when another one does.\<close>

definition claimed_use ::
    "executor_record \<Rightarrow> swap_account_role \<Rightarrow> swap_account_use \<Rightarrow> bool \<Rightarrow> swap_account_refusal + swap_use_id option" where
  "claimed_use r role wanted cancelled_source =
    (let by_id = (\<lambda>use.
           if er_active_swap_use r \<noteq> Some use
             \<or> \<not> (case swap_use use r of None \<Rightarrow> True | Some u \<Rightarrow> role_fits role (su_role u))
           then Inl ClaimedByAnotherSwap else Inr (Some use))
     in case wanted of
          NewUse \<Rightarrow>
            if \<not> cancelled_source \<and> \<not> active_use_finished r then Inl ClaimedByAnotherSwap else Inr None
        | ClaimedUse use \<Rightarrow> by_id use
        | SpeedUpUse speed_up \<Rightarrow> by_id (sp_swap_use speed_up))"

definition next_to_setup :: "u256 option \<Rightarrow> u256 \<Rightarrow> bool" where
  "next_to_setup pending_setup nonce \<longleftrightarrow>
    Option.bind pending_setup (\<lambda>setup. checked_add setup 1) = Some nonce"

definition own_setup :: "executor_record \<Rightarrow> swap_use_id option \<Rightarrow> swap_evidence \<Rightarrow> bool" where
  "own_setup r claimed evidence \<longleftrightarrow>
    evidence = RecordedEvidence
    \<and> (case claimed of
         None \<Rightarrow> False
       | Some use \<Rightarrow> (case swap_use use r of None \<Rightarrow> True | Some u \<Rightarrow> su_fresh u))"

definition pending_setup :: "executor_record \<Rightarrow> swap_account_role \<Rightarrow> swap_use_id option \<Rightarrow> u256 option" where
  "pending_setup r role claimed =
    (case role of
       SourceAccount \<Rightarrow> Option.bind claimed (\<lambda>use. unresolved_swap_setup_nonce use r)
     | DestinationAccount _ \<Rightarrow> None)"

definition setup_confirmed ::
    "executor_record \<Rightarrow> swap_account_role \<Rightarrow> swap_use_id option \<Rightarrow> swap_evidence \<Rightarrow> bool" where
  "setup_confirmed r role claimed evidence =
    (case evidence of
       RecordedEvidence \<Rightarrow> own_setup r claimed evidence \<or> setup_executed r
     | FreshEvidence \<Rightarrow> setup_executed r
     | IncludedEvidence _ nonce \<Rightarrow> next_to_setup (pending_setup r role claimed) nonce)"

text \<open>The rule for the account's earlier orders: a retry waits for all of them, a speed-up names one.\<close>

definition order_refusal ::
    "executor_record \<Rightarrow> swap_account_role \<Rightarrow> swap_account_use \<Rightarrow> swap_use_id option \<Rightarrow> swap_evidence
      \<Rightarrow> swap_account_refusal option" where
  "order_refusal r role wanted claimed evidence =
    (case wanted of
       SpeedUpUse speed_up \<Rightarrow>
         if role \<noteq> SourceAccount then Some SpeedUpUnsupported
         else
           (case er_swap r of
              None \<Rightarrow> Some SpeedUpOrderChanged
            | Some sw \<Rightarrow>
                (case refuse_speed_up sw speed_up of
                   Some refusal \<Rightarrow> Some refusal
                 | None \<Rightarrow>
                     let nonce = sp_pre_hook_nonce speed_up;
                         at_observed = (case er_nonce_observation r of None \<Rightarrow> True | Some seen \<Rightarrow> no_nonce seen = nonce);
                         next_nonce = next_to_setup (pending_setup r role claimed);
                         nonce_current =
                           (case evidence of
                              FreshEvidence \<Rightarrow> at_observed
                            | RecordedEvidence \<Rightarrow> at_observed \<or> next_nonce nonce
                            | IncludedEvidence _ included \<Rightarrow> included = nonce \<and> next_nonce included)
                     in if nonce_current then None else Some SpeedUpNonceUsed))
     | _ \<Rightarrow>
         (case er_swap r of
            None \<Rightarrow> None
          | Some sw \<Rightarrow>
              if admits_attempt sw then None
              else Some (case find_map (bridge_refusal sw) (sw_orders sw) of
                None \<Rightarrow> PreviousOrderLive | Some refusal \<Rightarrow> refusal)))"

definition delivery_refusal :: "swap_use_id option \<Rightarrow> swap_use_record \<Rightarrow> swap_account_refusal option" where
  "delivery_refusal claimed earlier =
    (if Some (su_id earlier) = claimed \<or> source_role (su_role earlier) \<or> role_shields (su_role earlier) = [] then None
     else
       (case role_outcome (su_role earlier) of
          Some (Shielded _ _) \<Rightarrow> None
        | Some (Held _ _) \<Rightarrow> Some EarlierDeliveryHeld
        | Some Unfilled \<Rightarrow> Some EarlierDeliveryUnresolved
        | None \<Rightarrow> Some EarlierDeliveryUnresolved))"

definition is_included :: "swap_evidence \<Rightarrow> bool" where
  "is_included evidence = (case evidence of IncludedEvidence _ _ \<Rightarrow> True | _ \<Rightarrow> False)"

definition swap_account_refusal ::
    "store_env \<Rightarrow> executor_record \<Rightarrow> u64 \<Rightarrow> swap_account_role \<Rightarrow> swap_account_use \<Rightarrow> swap_evidence
      \<Rightarrow> swap_account_refusal option" where
  "swap_account_refusal env r chain role wanted evidence =
    (let retired = (case role of
           SourceAccount \<Rightarrow> er_retired r \<and> er_swap r = None
         | DestinationAccount _ \<Rightarrow> er_retired r);
         cancelled_source = (role = SourceAccount \<and> wanted = NewUse \<and> cancelled_fresh_source r)
     in if er_address r = None then Some AddressUnknown
        else if accepted env chain (er_delegate r) = None then Some UnsupportedDelegate
        else if er_public_account_uuid r \<noteq> None then Some RegisteredInPublic
        else if retired \<or> er_swap_setup_stopped r \<and> \<not> cancelled_source then Some RecoveryOnly
        else
          (case claimed_use r role wanted cancelled_source of
             Inl refusal \<Rightarrow> Some refusal
           | Inr claimed \<Rightarrow>
               if evidence \<noteq> RecordedEvidence \<and> er_nonce_observation r = None then Some StateUnverified
               else if \<not> setup_confirmed r role claimed evidence then Some SetupUnconfirmed
               else
                 (case order_refusal r role wanted claimed evidence of
                    Some refusal \<Rightarrow> Some refusal
                  | None \<Rightarrow>
                      (case find_map (delivery_refusal claimed) (er_swap_uses r) of
                         Some refusal \<Rightarrow> Some refusal
                       | None \<Rightarrow>
                           if \<not> own_setup r claimed evidence
                             \<and> has_executable_work r claimed (is_included evidence)
                           then Some UnfinishedWork else None))))"

definition swap_receiving_balance_refusal :: "u256 option \<Rightarrow> swap_account_refusal option" where
  "swap_receiving_balance_refusal balance =
    (case balance of
       None \<Rightarrow> Some ReceivingBalanceUnknown
     | Some b \<Rightarrow> if b = 0 then None else Some ReceivingBalance)"

definition swap_earlier_shield_refusal :: "swap_earlier_shield \<Rightarrow> swap_shield_verdict \<Rightarrow> swap_account_refusal option" where
  "swap_earlier_shield_refusal shield verdict =
    (let hash = es_transaction_hash shield in
     case verdict of
       ShieldResolved \<Rightarrow> None
     | ShieldBlocked \<Rightarrow> Some (EarlierShieldBlocked hash)
     | ShieldPending \<Rightarrow> Some (EarlierShieldPending hash)
     | ShieldUnknown \<Rightarrow> Some (EarlierShieldUnknown hash))"

end
