(* ===== verification/SwapClaims.thy ===== *)
theory SwapClaims
  imports SwapAdmission
begin

text \<open>
  The operations of \<open>ExecutorStore\<close> that keep the accounts of a swap use in step on two chains: claiming
  a pair, cancelling, stopping and replacing (\<open>crates/wallet-ops/src/vault/executors/swap_use.rs\<close>), and the
  reconciliation of destination accounts with their origin swaps (\<open>vault/executors.rs\<close>). They read and
  write the stores of several chains of one vault, all rows in one transaction (\<open>put_batch\<close>).
\<close>

section \<open>Several chains\<close>

type_synonym batch = "(u64 \<times> row) list"

definition put_batch :: "batch \<Rightarrow> vault \<Rightarrow> vault" where
  "put_batch rows v = fold (\<lambda>(chain, row) v. v(chain := put_row row (v chain))) rows v"

text \<open>An operation on one chain's store, as an operation on the vault.\<close>

definition on_chain :: "u64 \<Rightarrow> (chain_store \<Rightarrow> ('a, chain_store) outcome) \<Rightarrow> vault \<Rightarrow> ('a, vault) outcome" where
  "on_chain chain f v = (case f (v chain) of (x, cs) \<Rightarrow> (x, v(chain := cs)))"

text \<open>The identifiers drawn after the first two.\<close>

definition later_draws :: "store_env \<Rightarrow> store_env" where
  "later_draws env = env\<lparr>se_random := \<lambda>n. se_random env (n + 2)\<rparr>"

text \<open>The end of an operation: an error, or a result written with its rows.\<close>

definition commit :: "(store_error + 'a \<times> batch) \<Rightarrow> vault \<Rightarrow> ('a, vault) outcome" where
  "commit x v = (case x of Inl e \<Rightarrow> (Inl e, v) | Inr (a, rows) \<Rightarrow> (Inr a, put_batch rows v))"

definition found_record :: "operation_id \<Rightarrow> chain_store \<Rightarrow> store_error + executor_record" where
  "found_record operation cs = and_then (record_of operation cs) (\<lambda>found. ok_or found OperationMismatch)"

section \<open>Claims\<close>

datatype swap_account_choice = NewAccount (choice_operation: operation_id) | ExistingAccount (choice_operation: operation_id)

record swap_destination_claim =
  dc_chain_id :: u64
  dc_account :: swap_account_choice
  dc_delegate :: address
  dc_destination_token :: address

record swap_pair_claim =
  pc_id :: swap_use_id
  pc_source :: swap_account_choice
  pc_delegate :: address
  pc_purpose_summary :: "string option"
  pc_assets :: "executor_asset list"
  pc_approval :: swap_approval
  pc_destination :: "swap_destination_claim option"

record claimed_swap_pair =
  cp_source :: executor_record
  cp_destination :: "executor_record option"

definition admits_swap_use ::
    "store_env \<Rightarrow> executor_record \<Rightarrow> u64 \<Rightarrow> swap_account_role \<Rightarrow> swap_use_id \<Rightarrow> bool" where
  "admits_swap_use env r chain role use \<longleftrightarrow>
    swap_use use r = None \<and> swap_account_refusal env r chain role NewUse RecordedEvidence = None"

definition admit_swap_account ::
    "store_env \<Rightarrow> swap_account_choice \<Rightarrow> executor_record option \<Rightarrow> u64 \<Rightarrow> swap_account_role \<Rightarrow> swap_use_id
      \<Rightarrow> store_error + unit" where
  "admit_swap_account env choice found chain role use =
    (case (choice, found) of
       (NewAccount _, None) \<Rightarrow> Inr ()
     | (ExistingAccount _, Some r) \<Rightarrow> if admits_swap_use env r chain role use then Inr () else Inl SwapUseActive
     | _ \<Rightarrow> Inl OperationMismatch)"

definition approved_choice :: "swap_approved_account \<Rightarrow> swap_account_choice \<Rightarrow> executor_record option \<Rightarrow> bool" where
  "approved_choice approved choice found =
    (let setup = (case choice of NewAccount _ \<Rightarrow> True | ExistingAccount _ \<Rightarrow> False) in
     case Option.bind found er_address of
       None \<Rightarrow> aa_setup approved = setup
     | Some address \<Rightarrow> admits_account address setup approved)"

definition approved_accounts ::
    "swap_pair_claim \<Rightarrow> executor_record option \<Rightarrow> executor_record option \<Rightarrow> bool" where
  "approved_accounts claim source destination =
    (case sa_accounts (pc_approval claim) of
       None \<Rightarrow> True
     | Some accounts \<Rightarrow>
         approved_choice (aa_source accounts) (pc_source claim) source
         \<and> (case (aa_destination accounts, pc_destination claim) of
              (None, None) \<Rightarrow> True
            | (Some approved, Some d) \<Rightarrow> approved_choice approved (dc_account d) destination
            | _ \<Rightarrow> False))"

definition source_bound :: "operation_id option \<Rightarrow> swap_use_record option \<Rightarrow> bool" where
  "source_bound destination use =
    (case use of
       None \<Rightarrow> False
     | Some u \<Rightarrow> (case su_role u of Source _ linked \<Rightarrow> linked = destination | _ \<Rightarrow> False))"

definition destination_bound ::
    "u64 \<Rightarrow> operation_id \<Rightarrow> swap_destination_claim option \<Rightarrow> swap_use_record option \<Rightarrow> bool" where
  "destination_bound chain source destination use =
    (case destination of
       None \<Rightarrow> True
     | Some d \<Rightarrow>
         (case use of
            None \<Rightarrow> False
          | Some u \<Rightarrow>
              (case su_role u of
                 Destination c op token _ _ \<Rightarrow> c = chain \<and> op = source \<and> token = dc_destination_token d
               | _ \<Rightarrow> False)))"

text \<open>One admitted side of a claim: the existing record with the use added, or a fresh account.\<close>

definition claim_swap_account ::
    "store_env \<Rightarrow> u64 \<Rightarrow> operation_id \<Rightarrow> executor_record option \<Rightarrow> address \<Rightarrow> string option \<Rightarrow> executor_asset list
      \<Rightarrow> swap_use_id \<Rightarrow> swap_use_role \<Rightarrow> vault \<Rightarrow> (executor_record \<times> batch, vault) outcome" where
  "claim_swap_account env chain operation found delegate purpose assets use role v =
    (case found of
       Some r \<Rightarrow>
         let r1 = begin_later_swap_use (se_now env) use role r;
             r2 = r1\<lparr>er_version := format_version r1\<rparr>
         in (Inr (r2, [(chain, OperationRow operation r2)]), v)
     | None \<Rightarrow>
         bind_outcome
           (on_chain chain (allocate_record env operation delegate purpose assets (Some (use, role))) v)
           (\<lambda>(r, rows) v1. (Inr (r, map (Pair chain) rows), v1)))"

definition claim_accounts ::
    "store_env \<Rightarrow> u64 \<Rightarrow> swap_pair_claim \<Rightarrow> executor_record option \<Rightarrow> executor_record option
      \<Rightarrow> vault \<Rightarrow> (claimed_swap_pair, vault) outcome" where
  "claim_accounts env chain claim source destination v =
    (let source_operation = choice_operation (pc_source claim) in
     bind_outcome
       (claim_swap_account env chain source_operation source (pc_delegate claim) (pc_purpose_summary claim)
         (pc_assets claim) (pc_id claim)
         (Source (Some (pc_approval claim))
           (map_option (\<lambda>d. choice_operation (dc_account d)) (pc_destination claim))) v)
       (\<lambda>(r, rows) v1.
          case pc_destination claim of
            None \<Rightarrow> commit (Inr (\<lparr>cp_source = r, cp_destination = None\<rparr>, rows)) v1
          | Some d \<Rightarrow>
              bind_outcome
                (claim_swap_account (later_draws env) (dc_chain_id d) (choice_operation (dc_account d)) destination
                  (dc_delegate d) (Some SWAP_DESTINATION_PURPOSE_SUMMARY) [Erc20 (dc_destination_token d)]
                  (pc_id claim) (Destination chain source_operation (dc_destination_token d) [] None) v1)
                (\<lambda>(r2, rows2) v2.
                   commit (Inr (\<lparr>cp_source = r, cp_destination = Some r2\<rparr>, rows @ rows2)) v2)))"

definition claim_admitted ::
    "store_env \<Rightarrow> u64 \<Rightarrow> swap_pair_claim \<Rightarrow> executor_record option \<Rightarrow> executor_record option \<Rightarrow> store_error + unit" where
  "claim_admitted env chain claim source destination =
    and_then (admit_swap_account env (pc_source claim) source chain SourceAccount (pc_id claim)) (\<lambda>_.
      case pc_destination claim of
        None \<Rightarrow> Inr ()
      | Some d \<Rightarrow>
          admit_swap_account env (dc_account d) destination (dc_chain_id d)
            (DestinationAccount (dc_destination_token d)) (pc_id claim))"

text \<open>The claim once both records are read: a claim that both accounts already hold is returned unchanged.\<close>

definition claim_found ::
    "store_env \<Rightarrow> u64 \<Rightarrow> swap_pair_claim \<Rightarrow> executor_record option \<Rightarrow> executor_record option
      \<Rightarrow> vault \<Rightarrow> (claimed_swap_pair, vault) outcome" where
  "claim_found env chain claim source destination v =
    (let source_use = Option.bind source (swap_use (pc_id claim));
         destination_use = Option.bind destination (swap_use (pc_id claim))
     in if \<not> approved_accounts claim source destination then (Inl OperationMismatch, v)
        else if source_use \<noteq> None \<or> destination_use \<noteq> None then
          (case source of
             None \<Rightarrow> (Inl OperationMismatch, v)
           | Some r \<Rightarrow>
               if source_bound (map_option (\<lambda>d. choice_operation (dc_account d)) (pc_destination claim)) source_use
                 \<and> destination_bound chain (choice_operation (pc_source claim)) (pc_destination claim) destination_use
               then (Inr \<lparr>cp_source = r, cp_destination = destination\<rparr>, v)
               else (Inl OperationMismatch, v))
        else
          (case claim_admitted env chain claim source destination of
             Inl e \<Rightarrow> (Inl e, v)
           | Inr _ \<Rightarrow> claim_accounts env chain claim source destination v))"

definition claim_swap_pair :: "store_env \<Rightarrow> u64 \<Rightarrow> swap_pair_claim \<Rightarrow> vault \<Rightarrow> (claimed_swap_pair, vault) outcome" where
  "claim_swap_pair env chain claim v =
    (if (case pc_destination claim of None \<Rightarrow> False | Some d \<Rightarrow> dc_chain_id d = chain) then (Inl OperationMismatch, v)
     else guarded env (\<lambda>v.
       case and_then (record_of (choice_operation (pc_source claim)) (v chain)) (\<lambda>source.
           and_then
             (case pc_destination claim of
                None \<Rightarrow> Inr None
              | Some d \<Rightarrow> record_of (choice_operation (dc_account d)) (v (dc_chain_id d)))
             (\<lambda>destination. Inr (source, destination))) of
         Inl e \<Rightarrow> (Inl e, v)
       | Inr (source, destination) \<Rightarrow> claim_found env chain claim source destination v) v)"

section \<open>The accounts of a use\<close>

text \<open>The record of the destination account that the source use names, if it names one.\<close>

definition destination_of_use ::
    "u64 \<Rightarrow> operation_id \<Rightarrow> swap_use_id \<Rightarrow> executor_record \<Rightarrow> operation_id option \<Rightarrow> vault
      \<Rightarrow> store_error + (u64 \<times> executor_record) option" where
  "destination_of_use chain source_operation use source destination v =
    (case destination of
       None \<Rightarrow> Inr None
     | Some operation \<Rightarrow>
         and_then (ok_or (swap_use_destination use source) OperationMismatch) (\<lambda>(destination_chain, _).
           and_then (found_record operation (v destination_chain)) (\<lambda>r.
             if serves_swap_use use chain source_operation r then Inr (Some (destination_chain, r))
             else Inl OperationMismatch)))"

text \<open>The source record with the approval and destination of its source use.\<close>

definition source_of_use ::
    "operation_id \<Rightarrow> swap_use_id \<Rightarrow> chain_store
      \<Rightarrow> store_error + (executor_record \<times> swap_approval option \<times> operation_id option)" where
  "source_of_use operation use cs =
    and_then (found_record operation cs) (\<lambda>r.
      case map_option su_role (swap_use use r) of
        Some (Source approval destination) \<Rightarrow> Inr (r, approval, destination)
      | _ \<Rightarrow> Inl OperationMismatch)"

definition swap_use_accounts ::
    "store_env \<Rightarrow> u64 \<Rightarrow> operation_id \<Rightarrow> swap_use_id \<Rightarrow> vault \<Rightarrow> (claimed_swap_pair, vault) outcome" where
  "swap_use_accounts env chain source_operation use =
    guarded env (\<lambda>v.
      (and_then (source_of_use source_operation use (v chain)) (\<lambda>(source, _, destination).
         and_then (destination_of_use chain source_operation use source destination v) (\<lambda>found.
           Inr \<lparr>cp_source = source, cp_destination = map_option snd found\<rparr>)), v))"

definition swap_destination_origin ::
    "store_env \<Rightarrow> u64 \<Rightarrow> operation_id \<Rightarrow> vault \<Rightarrow> (executor_record option, vault) outcome" where
  "swap_destination_origin env chain operation =
    guarded env (\<lambda>v.
      (and_then (record_of operation (v chain)) (\<lambda>found.
         case Option.bind found active_use of
           None \<Rightarrow> Inr None
         | Some u \<Rightarrow>
             (case su_role u of
                Destination origin origin_op _ _ _ \<Rightarrow>
                  and_then (record_of origin_op (v origin)) (\<lambda>origin_record.
                    case origin_record of
                      None \<Rightarrow> Inr None
                    | Some r \<Rightarrow> Inr (if links_swap_destination (su_id u) operation r then Some r else None))
              | _ \<Rightarrow> Inr None)), v))"

section \<open>Cancelling\<close>

record swap_use_cancellation =
  sc_source :: swap_use_release
  sc_destination :: "swap_use_release option"

definition cancel_accounts ::
    "u64 \<Rightarrow> operation_id \<Rightarrow> swap_use_id \<Rightarrow> executor_record \<Rightarrow> (u64 \<times> executor_record) option
      \<Rightarrow> swap_use_cancellation \<times> batch" where
  "cancel_accounts chain source_operation use source destination =
    (let (released, source1) = cancel_swap_use use source;
         source_row = (chain, OperationRow source_operation source1)
     in case destination of
          None \<Rightarrow> (\<lparr>sc_source = released, sc_destination = None\<rparr>, [source_row])
        | Some (destination_chain, r) \<Rightarrow>
            let (released2, r1) = cancel_swap_use use r
            in (\<lparr>sc_source = released, sc_destination = Some released2\<rparr>,
                 [source_row, (destination_chain, OperationRow (er_operation r) r1)]))"

definition cancel_swap_use_locked ::
    "u64 \<Rightarrow> operation_id \<Rightarrow> swap_use_id \<Rightarrow> vault \<Rightarrow> (swap_use_cancellation, vault) outcome" where
  "cancel_swap_use_locked chain source_operation use v =
    commit
      (and_then (source_of_use source_operation use (v chain)) (\<lambda>(source, _, link).
         if has_swap_use_order use source then Inl OperationMismatch
         else and_then (destination_of_use chain source_operation use source link v) (\<lambda>destination.
           Inr (cancel_accounts chain source_operation use source destination)))) v"

definition cancel_claim ::
    "store_env \<Rightarrow> u64 \<Rightarrow> operation_id \<Rightarrow> swap_use_id \<Rightarrow> vault \<Rightarrow> (swap_use_cancellation, vault) outcome" where
  "cancel_claim env chain source_operation use = guarded env (cancel_swap_use_locked chain source_operation use)"

definition cancel_swap_use_by_id ::
    "store_env \<Rightarrow> u64 \<Rightarrow> swap_use_id \<Rightarrow> vault \<Rightarrow> (operation_id \<times> swap_use_cancellation, vault) outcome" where
  "cancel_swap_use_by_id env chain use =
    guarded env (\<lambda>v.
      case records (v chain) of
        Inl e \<Rightarrow> (Inl e, v)
      | Inr rs \<Rightarrow>
          (case find (\<lambda>r. case swap_use use r of None \<Rightarrow> False | Some u \<Rightarrow> source_role (su_role u)) rs of
             None \<Rightarrow> (Inl OperationMismatch, v)
           | Some r \<Rightarrow>
               bind_outcome (cancel_swap_use_locked chain (er_operation r) use v) (\<lambda>c v1.
                 (Inr (er_operation r, c), v1))))"

section \<open>Stopping\<close>

definition stop_use :: "swap_use_id \<Rightarrow> executor_record \<Rightarrow> executor_record" where
  "stop_use use r = r\<lparr>er_swap_uses := update_use use (\<lambda>u. u\<lparr>su_stopped := True\<rparr>) (er_swap_uses r)\<rparr>"

text \<open>The chain and operation of the account on the other side of a use.\<close>

definition counterpart :: "swap_use_record \<Rightarrow> executor_record \<Rightarrow> (u64 \<times> operation_id) option" where
  "counterpart active r =
    (case su_role active of
       Source _ _ \<Rightarrow> swap_use_destination (su_id active) r
     | Destination chain operation _ _ _ \<Rightarrow> Some (chain, operation)
     | PublicSourceDestination _ _ _ _ _ _ \<Rightarrow> None)"

text \<open>That account's record, if it is there and belongs to the use.\<close>

definition linked_account ::
    "u64 \<Rightarrow> vault \<Rightarrow> executor_record \<Rightarrow> swap_use_record \<Rightarrow> store_error + (u64 \<times> executor_record) option" where
  "linked_account chain v r active =
    (case counterpart active r of
       None \<Rightarrow> Inr None
     | Some (other_chain, operation) \<Rightarrow>
         and_then (record_of operation (v other_chain)) (\<lambda>found.
           case found of
             None \<Rightarrow> Inr None
           | Some other \<Rightarrow>
               Inr (if (if source_role (su_role active) then serves_swap_use (su_id active) chain (er_operation r) other
                        else links_swap_destination (su_id active) (er_operation r) other)
                    then Some (other_chain, other) else None)))"

definition is_orderless :: "executor_record \<Rightarrow> swap_use_record \<Rightarrow> (u64 \<times> executor_record) option \<Rightarrow> bool" where
  "is_orderless r active other =
    (let unsigned_public = (case su_role active of
           PublicSourceDestination _ _ _ _ _ swap \<Rightarrow> pu_path swap = None | _ \<Rightarrow> False)
     in if source_role (su_role active) then \<not> has_swap_use_order (su_id active) r
        else unsigned_public
          \<or> (case other of None \<Rightarrow> False | Some (_, origin) \<Rightarrow> \<not> has_swap_use_order (su_id active) origin))"

definition stop_account :: "bool \<Rightarrow> swap_use_id \<Rightarrow> executor_record \<Rightarrow> executor_record" where
  "stop_account orderless use r = (if orderless then snd (cancel_swap_use use r) else stop_use use r)"

definition stop_swap_use_in_batch ::
    "u64 \<Rightarrow> vault \<Rightarrow> executor_record \<Rightarrow> store_error + executor_record \<times> batch" where
  "stop_swap_use_in_batch chain v r =
    (case active_use r of
       None \<Rightarrow> Inr (r, [])
     | Some active \<Rightarrow>
         and_then (linked_account chain v r active) (\<lambda>other.
           let stop = stop_account (is_orderless r active other) (su_id active)
           in Inr (stop r,
                case other of
                  None \<Rightarrow> []
                | Some (other_chain, x) \<Rightarrow> [(other_chain, OperationRow (er_operation x) (stop x))])))"

definition stop_swap_use :: "store_env \<Rightarrow> u64 \<Rightarrow> operation_id \<Rightarrow> vault \<Rightarrow> (executor_record, vault) outcome" where
  "stop_swap_use env chain operation =
    guarded env (\<lambda>v.
      commit
        (and_then (found_record operation (v chain)) (\<lambda>r.
           if active_use r = None then Inr (r, [])
           else and_then (stop_swap_use_in_batch chain v r) (\<lambda>(r1, rows).
             Inr (r1, rows @ [(chain, OperationRow operation r1)])))) v)"

end
