(* ===== verification/SwapReconcile.thy ===== *)
theory SwapReconcile
  imports SwapClaims
begin

text \<open>
  Replacing a retired account of a swap use (\<open>vault/executors/swap_use.rs\<close>) and bringing the destination
  accounts of a chain in line with their origin swaps (\<open>reconcile_swap_destinations_inner\<close> of
  \<open>crates/wallet-ops/src/vault/executors.rs\<close>).
\<close>

section \<open>Replacing an account\<close>

record replaced_swap_account =
  ra_source :: executor_record
  ra_destination :: "executor_record option"

text \<open>
  A fresh account for the use. It keeps the start time of the retired one, so the row that
  \<open>allocate_record\<close> prepared is replaced.
\<close>

definition allocate_swap_replacement ::
    "store_env \<Rightarrow> u64 \<Rightarrow> operation_id \<Rightarrow> address \<Rightarrow> string option \<Rightarrow> executor_asset list
      \<Rightarrow> swap_use_id \<Rightarrow> swap_use_role \<Rightarrow> u64 option \<Rightarrow> vault \<Rightarrow> (executor_record \<times> batch, vault) outcome" where
  "allocate_swap_replacement env chain operation delegate purpose assets use role started_at v =
    bind_outcome
      (on_chain chain (allocate_record env operation delegate purpose assets (Some (use, role))) v)
      (\<lambda>(r, rows) v1.
         let r1 = r\<lparr>er_swap_uses := update_use use (\<lambda>u. u\<lparr>su_started_at := started_at\<rparr>) (er_swap_uses r)\<rparr>;
             kept = filter (\<lambda>row. case row of OperationRow key _ \<Rightarrow> key \<noteq> operation | AllocationRow _ \<Rightarrow> True) rows
         in (Inr (r1, map (Pair chain) (kept @ [OperationRow operation r1])), v1))"

definition forget_source_address :: "swap_approval \<Rightarrow> swap_approval" where
  "forget_source_address approval = approval\<lparr>sa_accounts :=
     map_option (\<lambda>a. a\<lparr>aa_source := (aa_source a)\<lparr>aa_address := None\<rparr>\<rparr>) (sa_accounts approval)\<rparr>"

text \<open>The approval of a replaced destination names no address until the new account is derived.\<close>

definition forget_destination :: "swap_approval \<Rightarrow> swap_approval" where
  "forget_destination approval =
    approval\<lparr>sa_accounts :=
        map_option (\<lambda>a. a\<lparr>aa_destination := map_option (\<lambda>d. d\<lparr>aa_address := None\<rparr>) (aa_destination a)\<rparr>)
          (sa_accounts approval),
      sa_delivery :=
        (case private_bridge (sa_delivery approval) of
           Some b \<Rightarrow> Bridge (b\<lparr>bd_receiver := 0\<rparr>)
         | None \<Rightarrow> sa_delivery approval)\<rparr>"

fun relink_origin :: "operation_id \<Rightarrow> swap_use_role \<Rightarrow> swap_use_role" where
  "relink_origin operation (Destination chain _ token shields outcome) =
    Destination chain operation token shields outcome"
| "relink_origin operation (Source approval destination) = Source approval destination"
| "relink_origin operation (PublicSourceDestination chain source token shields outcome swap) =
    PublicSourceDestination chain source token shields outcome swap"

definition with_role :: "swap_use_id \<Rightarrow> (swap_use_role \<Rightarrow> swap_use_role) \<Rightarrow> executor_record \<Rightarrow> executor_record" where
  "with_role use f r =
    r\<lparr>er_swap_uses := update_use use (\<lambda>u. u\<lparr>su_role := f (su_role u)\<rparr>) (er_swap_uses r)\<rparr>"

definition replace_source ::
    "store_env \<Rightarrow> u64 \<Rightarrow> operation_id \<Rightarrow> swap_use_id \<Rightarrow> operation_id \<Rightarrow> executor_record \<Rightarrow> swap_approval option
      \<Rightarrow> operation_id option \<Rightarrow> (u64 \<times> executor_record) option \<Rightarrow> vault \<Rightarrow> (replaced_swap_account, vault) outcome" where
  "replace_source env chain source_operation use replacement source approval link destination v =
    (case and_then (ok_or (replaceable_swap_use use source) OperationMismatch) (\<lambda>u.
         if er_swap source \<noteq> None then Inl OperationMismatch
         else and_then (record_of replacement (v chain)) (\<lambda>found.
           if found \<noteq> None then Inl OperationMismatch else Inr (su_started_at u))) of
       Inl e \<Rightarrow> (Inl e, v)
     | Inr started_at \<Rightarrow>
         bind_outcome
           (allocate_swap_replacement env chain replacement (er_delegate source) (er_purpose_summary source)
             (er_assets source) use (Source (map_option forget_source_address approval) link)
             started_at v)
           (\<lambda>(r, rows) v1.
              let linked = map_option (\<lambda>(c, x). (c, with_role use (relink_origin replacement) x)) destination;
                  linked_rows = (case linked of None \<Rightarrow> [] | Some (c, x) \<Rightarrow> [(c, OperationRow (er_operation x) x)])
              in commit (Inr (\<lparr>ra_source = r, ra_destination = map_option snd linked\<rparr>,
                   rows @ linked_rows
                     @ [(chain, OperationRow source_operation (release_replaced_swap_use use source))])) v1))"

text \<open>The start time and token of a destination use that can be replaced.\<close>

definition replaceable_destination :: "swap_use_id \<Rightarrow> executor_record \<Rightarrow> (u64 option \<times> address) option" where
  "replaceable_destination use r =
    (case replaceable_swap_use use r of
       None \<Rightarrow> None
     | Some u \<Rightarrow>
         (case su_role u of Destination _ _ token _ _ \<Rightarrow> Some (su_started_at u, token) | _ \<Rightarrow> None))"

definition replace_destination ::
    "store_env \<Rightarrow> u64 \<Rightarrow> operation_id \<Rightarrow> swap_use_id \<Rightarrow> operation_id \<Rightarrow> executor_record \<Rightarrow> swap_approval option
      \<Rightarrow> (u64 \<times> executor_record) option \<Rightarrow> vault \<Rightarrow> (replaced_swap_account, vault) outcome" where
  "replace_destination env chain source_operation use replacement source approval destination v =
    (case and_then (ok_or destination OperationMismatch) (\<lambda>(c, retired).
         and_then (ok_or (replaceable_destination use retired) OperationMismatch) (\<lambda>(started_at, token).
           and_then (record_of replacement (v c)) (\<lambda>found.
             if found \<noteq> None then Inl OperationMismatch else Inr (c, retired, started_at, token)))) of
       Inl e \<Rightarrow> (Inl e, v)
     | Inr (c, retired, started_at, token) \<Rightarrow>
         bind_outcome
           (allocate_swap_replacement env c replacement (er_delegate retired)
             (Some SWAP_DESTINATION_PURPOSE_SUMMARY) [Erc20 token] use
             (Destination chain source_operation token [] None) started_at v)
           (\<lambda>(r, rows) v1.
              let source1 =
                    with_role use (\<lambda>_. Source (map_option forget_destination approval) (Some replacement)) source
              in commit (Inr (\<lparr>ra_source = source1, ra_destination = Some r\<rparr>,
                   rows @ [(chain, OperationRow source_operation source1),
                     (c, OperationRow (er_operation retired) (release_replaced_swap_use use retired))])) v1))"

datatype swap_use_side = SourceSide | DestinationSide

definition replace_swap_use_account ::
    "store_env \<Rightarrow> u64 \<Rightarrow> operation_id \<Rightarrow> swap_use_id \<Rightarrow> swap_use_side \<Rightarrow> operation_id
      \<Rightarrow> vault \<Rightarrow> (replaced_swap_account, vault) outcome" where
  "replace_swap_use_account env chain source_operation use side replacement =
    guarded env (\<lambda>v.
      case and_then (source_of_use source_operation use (v chain)) (\<lambda>(source, approval, link).
          if has_swap_use_order use source then Inl OperationMismatch
          else and_then (destination_of_use chain source_operation use source link v)
            (\<lambda>destination. Inr (source, approval, link, destination))) of
        Inl e \<Rightarrow> (Inl e, v)
      | Inr (source, approval, link, destination) \<Rightarrow>
          (case side of
             SourceSide \<Rightarrow>
               replace_source env chain source_operation use replacement source approval link
                 destination v
           | DestinationSide \<Rightarrow>
               replace_destination env chain source_operation use replacement source approval destination v))"

section \<open>Reconciling destinations\<close>

definition next_destination_outcome ::
    "destination_outcome option \<Rightarrow> destination_outcome option \<Rightarrow> destination_outcome option" where
  "next_destination_outcome known derived =
    (case known of
       Some (Shielded _ _) \<Rightarrow> known
     | Some (Held _ _) \<Rightarrow> known
     | Some Unfilled \<Rightarrow> derived
     | None \<Rightarrow> derived)"

definition is_filled :: "destination_outcome option \<Rightarrow> bool" where
  "is_filled x = (case x of Some (Shielded _ _) \<Rightarrow> True | Some (Held _ _) \<Rightarrow> True | _ \<Rightarrow> False)"

text \<open>The identity of a destination use, its origin swap and its outcome.\<close>

definition destination_link ::
    "swap_use_record \<Rightarrow> (swap_use_id \<times> u64 \<times> operation_id \<times> destination_outcome option) option" where
  "destination_link u =
    (case su_role u of
       Destination chain operation _ _ outcome \<Rightarrow> Some (su_id u, chain, operation, outcome)
     | _ \<Rightarrow> None)"

fun note_outcome :: "destination_outcome option \<Rightarrow> swap_use_role \<Rightarrow> swap_use_role" where
  "note_outcome next (Destination chain operation token shields outcome) =
    Destination chain operation token shields (if is_filled next \<and> shields = [] then outcome else next)"
| "note_outcome next (Source approval destination) = Source approval destination"
| "note_outcome next (PublicSourceDestination chain source token shields outcome swap) =
    PublicSourceDestination chain source token shields outcome swap"

definition note_use :: "bool \<Rightarrow> destination_outcome option \<Rightarrow> swap_use_record \<Rightarrow> swap_use_record" where
  "note_use stop next u =
    (case su_role u of
       Destination _ _ _ _ _ \<Rightarrow> u\<lparr>su_stopped := su_stopped u \<or> stop, su_role := note_outcome next (su_role u)\<rparr>
     | _ \<Rightarrow> u)"

text \<open>The origin records that were read, by chain and operation.\<close>

type_synonym origins = "((u64 \<times> operation_id) \<times> executor_record option) list"

definition read_origin :: "vault \<Rightarrow> u64 \<times> operation_id \<Rightarrow> origins \<Rightarrow> store_error + (executor_record option \<times> origins)" where
  "read_origin v key origins =
    (case map_of origins key of
       Some found \<Rightarrow> Inr (found, origins)
     | None \<Rightarrow>
         and_then (record_of (snd key) (v (fst key))) (\<lambda>found. Inr (found, origins @ [(key, found)])))"

definition reconcile_linked ::
    "swap_use_id \<Rightarrow> destination_outcome option \<Rightarrow> executor_record \<Rightarrow> executor_record
      \<Rightarrow> executor_record \<times> executor_record" where
  "reconcile_linked use known r origin =
    (let fresh = (er_active_swap_use r = Some use
           \<and> (case swap_use use r of None \<Rightarrow> False | Some u \<Rightarrow> su_fresh u));
         setup_stopped = (er_swap_setup_stopped origin \<and> known = None);
         stopped = (setup_stopped \<or> (case swap_use use origin of None \<Rightarrow> False | Some u \<Rightarrow> su_stopped u));
         (origin1, r1) =
           (if stopped \<and> \<not> has_swap_use_order use origin
            then (snd (cancel_swap_use use origin), snd (cancel_swap_use use r))
            else if setup_stopped \<and> fresh
            then (origin, r\<lparr>er_swap_setup_stopped := True, er_retired := True\<rparr>)
            else (origin, r));
         derived = Option.bind (er_address r1) (\<lambda>address. swap_destination_outcome use address origin1);
         r2 = r1\<lparr>er_swap_uses :=
           update_use use (note_use stopped (next_destination_outcome known derived)) (er_swap_uses r1)\<rparr>
     in (r2, origin1))"

definition retire_orphan :: "bool \<Rightarrow> swap_use_id \<Rightarrow> executor_record \<Rightarrow> executor_record" where
  "retire_orphan retire_orphans use r =
    (let fresh = (er_active_swap_use r = Some use
           \<and> (case swap_use use r of None \<Rightarrow> False | Some u \<Rightarrow> su_fresh u))
     in r\<lparr>er_retired := er_retired r \<or> retire_orphans \<and> fresh \<and> er_issued r = []\<rparr>)"

definition reconcile_use ::
    "vault \<Rightarrow> bool \<Rightarrow> swap_use_id \<times> u64 \<times> operation_id \<times> destination_outcome option
      \<Rightarrow> executor_record \<times> origins \<Rightarrow> store_error + (executor_record \<times> origins)" where
  "reconcile_use v retire_orphans link state =
    (case (link, state) of
       ((use, chain, operation, known), (r, origins)) \<Rightarrow>
         and_then (read_origin v (chain, operation) origins) (\<lambda>(found, origins1).
           case found of
             Some origin \<Rightarrow>
               if links_swap_destination use (er_operation r) origin then
                 let (r1, origin1) = reconcile_linked use known r origin
                 in Inr (r1, AList.update (chain, operation) (Some origin1) origins1)
               else Inr (retire_orphan retire_orphans use r, origins1)
           | None \<Rightarrow> Inr (retire_orphan retire_orphans use r, origins1)))"

fun reconcile_uses ::
    "vault \<Rightarrow> bool \<Rightarrow> (swap_use_id \<times> u64 \<times> operation_id \<times> destination_outcome option) list
      \<Rightarrow> executor_record \<times> origins \<Rightarrow> store_error + (executor_record \<times> origins)" where
  "reconcile_uses v retire_orphans [] state = Inr state"
| "reconcile_uses v retire_orphans (link # links) state =
    and_then (reconcile_use v retire_orphans link state) (reconcile_uses v retire_orphans links)"

fun reconcile_records ::
    "u64 \<Rightarrow> vault \<Rightarrow> bool \<Rightarrow> executor_record list \<Rightarrow> origins \<Rightarrow> store_error + (batch \<times> origins)" where
  "reconcile_records chain v retire_orphans [] origins = Inr ([], origins)"
| "reconcile_records chain v retire_orphans (r # rs) origins =
    and_then (reconcile_uses v retire_orphans (List.map_filter destination_link (er_swap_uses r)) (r, origins))
      (\<lambda>(r1, origins1).
         and_then (reconcile_records chain v retire_orphans rs origins1) (\<lambda>(rows, origins2).
           Inr ((if r1 \<noteq> r then [(chain, OperationRow (er_operation r1) r1)] else []) @ rows, origins2)))"

text \<open>The rows of the origins that changed. Their records were read before, so reading again finds them.\<close>

fun origin_rows :: "vault \<Rightarrow> origins \<Rightarrow> store_error + batch" where
  "origin_rows v [] = Inr []"
| "origin_rows v (((chain, operation), found) # rest) =
    (case found of
       None \<Rightarrow> origin_rows v rest
     | Some origin \<Rightarrow>
         and_then (record_of operation (v chain)) (\<lambda>stored.
           and_then (origin_rows v rest) (\<lambda>rows.
             Inr ((if stored \<noteq> Some origin then [(chain, OperationRow operation origin)] else []) @ rows))))"

definition reconcile_swap_destinations_inner ::
    "store_env \<Rightarrow> u64 \<Rightarrow> bool \<Rightarrow> vault \<Rightarrow> (bool, vault) outcome" where
  "reconcile_swap_destinations_inner env chain retire_orphans =
    guarded env (\<lambda>v.
      commit
        (and_then (records (v chain)) (\<lambda>rs.
           and_then (reconcile_records chain v retire_orphans rs []) (\<lambda>(rows, origins).
             and_then (origin_rows v origins) (\<lambda>rows2.
               Inr (rows @ rows2 \<noteq> [], rows @ rows2))))) v)"

definition reconcile_swap_destinations :: "store_env \<Rightarrow> u64 \<Rightarrow> vault \<Rightarrow> (bool, vault) outcome" where
  "reconcile_swap_destinations env chain = reconcile_swap_destinations_inner env chain False"

definition reconcile_swap_destinations_on_load :: "store_env \<Rightarrow> u64 \<Rightarrow> vault \<Rightarrow> (bool, vault) outcome" where
  "reconcile_swap_destinations_on_load env chain = reconcile_swap_destinations_inner env chain True"

end
