(* ===== verification/SwapAttempts.thy ===== *)
theory SwapAttempts
  imports SwapAdmission
begin

text \<open>
  The orders that a swap places: \<open>record_swap_attempt\<close> and \<open>record_swap_attempt_on_included_setup\<close> of
  \<open>crates/wallet-ops/src/vault/executors/swap.rs\<close> with what they check of the account, the submission of
  an order and the approval that is kept before it is placed. Each is one change of the account's record
  (\<open>update_record\<close>) and reads other records under the same lock.
\<close>

section \<open>What earlier attempts fix\<close>

definition admits_accounts ::
    "swap_approved_accounts \<Rightarrow> address \<times> bool \<Rightarrow> (address \<times> bool) option \<Rightarrow> bool" where
  "admits_accounts approved source destination \<longleftrightarrow>
    admits_account (fst source) (snd source) (aa_source approved)
    \<and> (case (aa_destination approved, destination) of
         (None, None) \<Rightarrow> True
       | (Some account, Some (address, setup)) \<Rightarrow> admits_account address setup account
       | _ \<Rightarrow> False)"

definition swap_bridges_to_track :: "executor_record \<Rightarrow> swap_order list" where
  "swap_bridges_to_track r =
    filter (\<lambda>o1. is_bridge (so_delivery o1) \<and> oo_bridge_handoff (so_observations o1) \<noteq> None
      \<and> oo_bridge_outcome (so_observations o1) = None) (swap_orders_of r)"

definition swap_use_keeps_terms ::
    "swap_use_id \<Rightarrow> address \<Rightarrow> address \<Rightarrow> swap_delivery \<Rightarrow> executor_record \<Rightarrow> bool" where
  "swap_use_keeps_terms use sell buy delivery r =
    (case er_swap r of
       None \<Rightarrow> True
     | Some sw \<Rightarrow>
         private_bridge delivery \<noteq> None
         \<or> list_all (\<lambda>o1. st_sell_token (order_terms sw o1) = sell \<and> st_buy_token (order_terms sw o1) = buy
             \<and> so_delivery o1 = delivery) (swap_use_orders use r))"

definition use_approval :: "swap_use_record \<Rightarrow> swap_approval option" where
  "use_approval u = (case su_role u of Source approval _ \<Rightarrow> approval | _ \<Rightarrow> None)"

definition latest_approval :: "executor_record \<Rightarrow> swap_approval option" where
  "latest_approval r = (if er_swap_uses r = [] then None else use_approval (last (er_swap_uses r)))"

definition swap_approval_tokens :: "executor_record \<Rightarrow> (address \<times> address) option" where
  "swap_approval_tokens r =
    (case Option.bind (latest_approval r) sa_tokens of
       Some tokens \<Rightarrow> Some (at_sell tokens, at_buy tokens)
     | None \<Rightarrow>
         (case List.map_filter (\<lambda>asset. case asset of Erc20 token \<Rightarrow> Some token | _ \<Rightarrow> None) (er_assets r) of
            sell # buy # _ \<Rightarrow> Some (sell, buy)
          | _ \<Rightarrow> None))"

definition swap_post_hook_took_nonce :: "u256 \<Rightarrow> executor_record \<Rightarrow> bool" where
  "swap_post_hook_took_nonce nonce r =
    list_ex (\<lambda>o1.
      (case so_post_hook o1 of None \<Rightarrow> False | Some hook \<Rightarrow> sh_nonce hook = nonce)
        \<and> post_hook_evidence (so_observations o1) \<and> observed_past r nonce
      \<or> older_post_hook nonce o1) (swap_orders_of r)"

definition bridge_terms_fit :: "swap_delivery \<Rightarrow> bridge_order_terms option \<Rightarrow> bool" where
  "bridge_terms_fit delivery bridge =
    (case (delivery, bridge) of
       (Bridge d, Some terms) \<Rightarrow>
         terms_provider terms = bd_provider d \<and> has_valid_surplus d \<and> has_valid_private_delivery d
         \<and> (case terms of
              AcrossTerms t \<Rightarrow>
                (ac_recipient t \<noteq> None) = bridge_is_private d \<and> (ac_message_hash t \<noteq> None) = bridge_is_private d
            | NearIntentsTerms _ \<Rightarrow> True)
     | (NonEvmBridge _, Some terms) \<Rightarrow> (case terms of NearIntentsTerms _ \<Rightarrow> True | _ \<Rightarrow> False)
     | (Bridge _, None) \<Rightarrow> False
     | (NonEvmBridge _, None) \<Rightarrow> False
     | (_, terms) \<Rightarrow> terms = None)"

section \<open>Attempts\<close>

record swap_attempt =
  tt_use_id :: swap_use_id
  tt_terms :: swap_terms
  tt_proof :: swap_proof
  tt_uid :: order_uid
  tt_submission :: "swap_submission option"
  tt_delivery :: swap_delivery
  tt_bounds :: swap_approved_bounds
  tt_invalidates :: "order_uid option"
  tt_pre_hook :: issued_payload
  tt_post_hook :: "issued_payload option"
  tt_bridge :: "bridge_order_terms option"
  tt_speed_up :: "order_uid option"

definition hook_of :: "issued_payload \<Rightarrow> swap_hook" where
  "hook_of p = \<lparr>sh_nonce = ip_nonce p, sh_payload = ip_hash p\<rparr>"

text \<open>The use that the order belongs to: the latest, a source, not stopped. \<open>Inr\<close> gives the destination it links.\<close>

definition attempt_use :: "swap_attempt \<Rightarrow> u256 option \<Rightarrow> executor_record \<Rightarrow> store_error + operation_id option" where
  "attempt_use t included r =
    (if er_active_swap_use r \<noteq> Some (tt_use_id t) then Inl SwapUseActive
     else if er_swap_uses r = [] then Inl OperationMismatch
     else
       let u = last (er_swap_uses r) in
       if su_id u \<noteq> tt_use_id t \<or> su_stopped u then Inl OperationMismatch
       else
         (case su_role u of
            Source _ destination \<Rightarrow>
              if included \<noteq> None \<and> \<not> su_fresh u then Inl OperationMismatch else Inr destination
          | _ \<Rightarrow> Inl OperationMismatch))"

text \<open>A private Bridge order pays the destination account that serves this use.\<close>

definition serves_order ::
    "u64 \<Rightarrow> operation_id \<Rightarrow> swap_use_id \<Rightarrow> bridge_delivery \<Rightarrow> executor_record \<Rightarrow> bool" where
  "serves_order chain operation use b r \<longleftrightarrow>
    er_address r = Some (bd_receiver b)
    \<and> (case swap_use use r of
         None \<Rightarrow> False
       | Some u \<Rightarrow>
           (case su_role u of
              Destination origin origin_op token _ _ \<Rightarrow>
                origin = chain \<and> origin_op = operation \<and> token = bd_destination_token b
            | _ \<Rightarrow> False))"

definition attempt_destination ::
    "vault \<Rightarrow> u64 \<Rightarrow> operation_id \<Rightarrow> operation_id option \<Rightarrow> swap_attempt \<Rightarrow> store_error + unit" where
  "attempt_destination v chain operation destination t =
    (case private_bridge (tt_delivery t) of
       None \<Rightarrow> Inr ()
     | Some b \<Rightarrow>
         and_then
           (case destination of Some d \<Rightarrow> record_of d (v (bd_destination_chain b)) | None \<Rightarrow> Inr None)
           (\<lambda>found.
              if (case found of None \<Rightarrow> False | Some r \<Rightarrow> serves_order chain operation (tt_use_id t) b r) then Inr ()
              else Inl OperationMismatch))"

definition issued_hash :: "b256 \<Rightarrow> executor_record \<Rightarrow> bool" where
  "issued_hash h r = list_ex (\<lambda>p. ip_hash p = h) (er_issued r)"

definition post_hook_misfits :: "swap_attempt \<Rightarrow> executor_record \<Rightarrow> bool" where
  "post_hook_misfits t r =
    (case tt_post_hook t of
       None \<Rightarrow> False
     | Some hook \<Rightarrow>
         ip_delegate hook \<noteq> er_delegate r \<or> ip_purpose hook \<noteq> SwapPostHook \<or> ip_hash (tt_pre_hook t) = ip_hash hook
         \<or> issued_hash (ip_hash hook) r \<or> px_inputs (ip_context hook) \<noteq> [])"

definition attempt_misfits :: "store_env \<Rightarrow> swap_attempt \<Rightarrow> executor_record \<Rightarrow> bool" where
  "attempt_misfits env t r \<longleftrightarrow>
    er_retired r \<and> er_swap r = None
    \<or> er_swap_setup_stopped r
    \<or> er_address r \<noteq> Some (se_uid_owner env (tt_uid t))
    \<or> er_public_account_uuid r \<noteq> None
    \<or> (case er_swap r of None \<Rightarrow> False | Some sw \<Rightarrow> st_recipient (sw_terms sw) \<noteq> st_recipient (tt_terms t))
    \<or> ip_delegate (tt_pre_hook t) \<noteq> er_delegate r
    \<or> ip_purpose (tt_pre_hook t) \<noteq> SwapPreHook
    \<or> issued_hash (ip_hash (tt_pre_hook t)) r
    \<or> (tt_post_hook t \<noteq> None) \<noteq> has_post_hook (tt_delivery t)
    \<or> \<not> bridge_terms_fit (tt_delivery t) (tt_bridge t)
    \<or> post_hook_misfits t r
    \<or> pf_inputs (tt_proof t) = []
    \<or> px_inputs (ip_context (tt_pre_hook t)) \<noteq> pf_inputs (tt_proof t)
    \<or> list_ex (\<lambda>o1. so_uid o1 = tt_uid t) (swap_orders_of r)
    \<or> (case tt_invalidates t of None \<Rightarrow> False | Some old \<Rightarrow> list_all (\<lambda>o1. so_uid o1 \<noteq> old) (swap_orders_of r))
    \<or> \<not> list_ex (\<lambda>p. ip_hash p = st_setup_payload (tt_terms t) \<and> ip_purpose p = OperationPayload) (er_issued r)"

text \<open>A speed-up replaces the use's latest order, which is still open, for a lower buy amount.\<close>

definition speeds_up :: "swap_attempt \<Rightarrow> order_uid \<Rightarrow> executor_record \<Rightarrow> bool" where
  "speeds_up t open1 r =
    (case er_swap r of
       None \<Rightarrow> False
     | Some sw \<Rightarrow>
         admits_speed_up sw \<lparr>sp_swap_use = tt_use_id t, sp_order = open1, sp_pre_hook_nonce = ip_nonce (tt_pre_hook t)\<rparr>
         \<and> tt_invalidates t = Some open1 \<and> tt_proof t = sw_proof sw
         \<and> sw_orders sw \<noteq> []
         \<and> (let latest = last (sw_orders sw) in
            bo_sell_amount (tt_bounds t) = bo_sell_amount (so_bounds latest)
            \<and> spend_amount (tt_bounds t) = spend_amount (so_bounds latest)
            \<and> bo_buy_amount (tt_bounds t) < bo_buy_amount (so_bounds latest)
            \<and> tt_delivery t = so_delivery latest))"

definition attempt_order_refusal :: "swap_attempt \<Rightarrow> executor_record \<Rightarrow> store_error option" where
  "attempt_order_refusal t r =
    (case tt_speed_up t of
       None \<Rightarrow>
         if (case er_swap r of None \<Rightarrow> True | Some sw \<Rightarrow> admits_attempt sw) then None else Some SwapAttemptOutstanding
     | Some open1 \<Rightarrow> if speeds_up t open1 r then None else Some SwapSpeedUpRefused)"

text \<open>A setup whose nonce is unresolved could spend the notes of the pre-hook first.\<close>

definition setup_spends :: "swap_attempt \<Rightarrow> executor_record \<Rightarrow> bool" where
  "setup_spends t r =
    list_ex (\<lambda>p. ip_purpose p = OperationPayload \<and> \<not> nonce_resolved (ip_nonce p) r
      \<and> shares_input (px_inputs (ip_context p)) (pf_inputs (tt_proof t))) (er_issued r)"

definition setup_admitted :: "swap_attempt \<Rightarrow> u256 option \<Rightarrow> executor_record \<Rightarrow> bool" where
  "setup_admitted t included r =
    (let nonce = ip_nonce (tt_pre_hook t);
         seen = no_nonce (px_observed (ip_context (tt_pre_hook t)))
     in case included of
          None \<Rightarrow>
            seen = nonce
            \<and> list_ex (\<lambda>p. ip_hash p = st_setup_payload (tt_terms t) \<and> nonce_resolved (ip_nonce p) r) (er_issued r)
        | Some at \<Rightarrow>
            unresolved_swap_setup_nonce (tt_use_id t) r = Some seen \<and> checked_add seen 1 = Some nonce \<and> at = nonce
            \<and> (case find (\<lambda>p. ip_hash p = st_setup_payload (tt_terms t)) (er_issued r) of
                 None \<Rightarrow> False | Some setup \<Rightarrow> ip_nonce setup = seen))"

text \<open>What may be unresolved below the pre-hook's nonce.\<close>

definition below_admitted :: "swap_attempt \<Rightarrow> u256 option \<Rightarrow> executor_record \<Rightarrow> issued_payload \<Rightarrow> bool" where
  "below_admitted t included r p \<longleftrightarrow>
    (let seen = px_observed (ip_context (tt_pre_hook t)) in
     included \<noteq> None \<and> ip_purpose p = OperationPayload \<and> ip_nonce p = no_nonce seen
     \<or> ip_purpose p = SwapPostHook
       \<and> (swap_post_hook_took_nonce (ip_nonce p) r
          \<or> (case er_swap r of
               None \<Rightarrow> False
             | Some sw \<Rightarrow>
                 list_ex (\<lambda>o1. (case so_post_hook o1 of None \<Rightarrow> False | Some hook \<Rightarrow> sh_payload hook = ip_hash p)
                   \<and> order_settled_at sw o1 (bn_number (no_block seen))) (sw_orders sw)))
     \<or> ip_purpose p = SwapDestinationShield \<and> swap_shield_delivered (ip_hash p) r
     \<or> list_ex (\<lambda>o1. sh_payload (so_pre_hook o1) = ip_hash p) (swap_orders_of r))"

definition attempt_nonce_refused :: "swap_attempt \<Rightarrow> u256 option \<Rightarrow> executor_record \<Rightarrow> bool" where
  "attempt_nonce_refused t included r \<longleftrightarrow>
    (let pre = tt_pre_hook t in
     er_nonce_observation r \<noteq> Some (px_observed (ip_context pre))
     \<or> \<not> setup_admitted t included r
     \<or> px_calldata (ip_context pre) = []
     \<or> (case tt_post_hook t of
          None \<Rightarrow> False
        | Some hook \<Rightarrow>
            px_observed (ip_context hook) \<noteq> px_observed (ip_context pre)
            \<or> checked_add (ip_nonce pre) 1 \<noteq> Some (ip_nonce hook)
            \<or> px_calldata (ip_context hook) = [])
     \<or> list_ex (\<lambda>p. ip_nonce p < ip_nonce pre \<and> \<not> nonce_resolved (ip_nonce p) r
         \<and> \<not> below_admitted t included r p) (er_issued r))"

text \<open>The order as it is recorded. The attempt's number is a \<open>u32\<close> that wraps.\<close>

definition attempt_order :: "swap_attempt \<Rightarrow> swap_order list \<Rightarrow> swap_order" where
  "attempt_order t orders =
    \<lparr>so_terms = Some (tt_terms t),
     so_attempt = (if orders = [] then 0 else so_attempt (last orders) + 1),
     so_uid = tt_uid t, so_delivery = tt_delivery t, so_bounds = tt_bounds t,
     so_pre_hook = hook_of (tt_pre_hook t), so_post_hook = map_option hook_of (tt_post_hook t),
     so_invalidates = tt_invalidates t, so_observations = unobserved, so_submission = tt_submission t,
     so_submission_status = SubmissionPending, so_bridge = tt_bridge t, so_use_id = Some (tt_use_id t)\<rparr>"

text \<open>The tokens that the account can hold from this order; the marker of the native asset is not an ERC-20.\<close>

definition attempt_tokens :: "swap_attempt \<Rightarrow> address list" where
  "attempt_tokens t =
    st_sell_token (tt_terms t)
      # (if tt_delivery t = Reshield \<or> is_bridge (tt_delivery t) then [st_buy_token (tt_terms t)] else [])"

definition add_tokens :: "address list \<Rightarrow> executor_asset list \<Rightarrow> executor_asset list" where
  "add_tokens tokens assets =
    fold (\<lambda>token assets. if token = 0 then assets else add_once (Erc20 token) assets) tokens assets"

definition place_order :: "swap_attempt \<Rightarrow> executor_record \<Rightarrow> executor_record" where
  "place_order t r =
    (let o1 = attempt_order t (swap_orders_of r) in
     r\<lparr>er_swap := Some (case er_swap r of
           Some sw \<Rightarrow> sw\<lparr>sw_proof := tt_proof t, sw_orders := sw_orders sw @ [o1]\<rparr>
         | None \<Rightarrow> \<lparr>sw_terms = tt_terms t, sw_proof = tt_proof t, sw_orders = [o1], sw_fundings = []\<rparr>),
       er_issued := er_issued r @ tt_pre_hook t # (case tt_post_hook t of None \<Rightarrow> [] | Some hook \<Rightarrow> [hook]),
       er_assets := add_tokens (attempt_tokens t) (er_assets r),
       er_hidden := False\<rparr>)"

definition attempt_change ::
    "store_env \<Rightarrow> vault \<Rightarrow> u64 \<Rightarrow> operation_id \<Rightarrow> swap_attempt \<Rightarrow> u256 option \<Rightarrow> chain_store \<Rightarrow> executor_record
      \<Rightarrow> store_error + executor_record" where
  "attempt_change env v chain operation t included cs r =
    and_then (attempt_use t included r) (\<lambda>destination.
      and_then (attempt_destination v chain operation destination t) (\<lambda>_.
        if attempt_misfits env t r then Inl OperationMismatch
        else if \<not> swap_use_keeps_terms (tt_use_id t) (st_sell_token (tt_terms t)) (st_buy_token (tt_terms t))
            (tt_delivery t) r then Inl SwapUseTermsChanged
        else
          (case attempt_order_refusal t r of
             Some e \<Rightarrow> Inl e
           | None \<Rightarrow>
               and_then (records cs) (\<lambda>rs.
                 if reserved_elsewhere operation (pf_inputs (tt_proof t)) rs then Inl InputReserved
                 else if setup_spends t r then Inl InputReserved
                 else if attempt_nonce_refused t included r then Inl OutstandingNonce
                 else Inr (place_order t r)))))"

definition record_swap_attempt_at ::
    "store_env \<Rightarrow> vault \<Rightarrow> u64 \<Rightarrow> operation_id \<Rightarrow> swap_attempt \<Rightarrow> u256 option
      \<Rightarrow> chain_store \<Rightarrow> (executor_record, chain_store) outcome" where
  "record_swap_attempt_at env v chain operation t included =
    update_record env operation (attempt_change env v chain operation t included)"

definition record_swap_attempt ::
    "store_env \<Rightarrow> vault \<Rightarrow> u64 \<Rightarrow> operation_id \<Rightarrow> swap_attempt
      \<Rightarrow> chain_store \<Rightarrow> (executor_record, chain_store) outcome" where
  "record_swap_attempt env v chain operation t = record_swap_attempt_at env v chain operation t None"

definition record_swap_attempt_on_included_setup ::
    "store_env \<Rightarrow> vault \<Rightarrow> u64 \<Rightarrow> operation_id \<Rightarrow> swap_attempt \<Rightarrow> u256
      \<Rightarrow> chain_store \<Rightarrow> (executor_record, chain_store) outcome" where
  "record_swap_attempt_on_included_setup env v chain operation t nonce =
    record_swap_attempt_at env v chain operation t (Some nonce)"

section \<open>Changes of one order\<close>

text \<open>An assignment to the first order with the identifier.\<close>

fun replace_order :: "order_uid \<Rightarrow> swap_order \<Rightarrow> swap_order list \<Rightarrow> swap_order list" where
  "replace_order uid o1 [] = []"
| "replace_order uid o1 (x # xs) = (if so_uid x = uid then o1 # xs else x # replace_order uid o1 xs)"

definition find_order :: "order_uid \<Rightarrow> executor_record \<Rightarrow> swap_order option" where
  "find_order uid r = find (\<lambda>o1. so_uid o1 = uid) (swap_orders_of r)"

definition put_order :: "order_uid \<Rightarrow> swap_order \<Rightarrow> executor_record \<Rightarrow> executor_record" where
  "put_order uid o1 r =
    r\<lparr>er_swap := map_option (\<lambda>sw. sw\<lparr>sw_orders := replace_order uid o1 (sw_orders sw)\<rparr>) (er_swap r)\<rparr>"

definition change_order ::
    "order_uid \<Rightarrow> (swap_order \<Rightarrow> store_error + swap_order) \<Rightarrow> executor_record \<Rightarrow> store_error + executor_record" where
  "change_order uid f r =
    (case find_order uid r of
       None \<Rightarrow> Inl OperationMismatch
     | Some o1 \<Rightarrow> and_then (f o1) (\<lambda>o2. Inr (put_order uid o2 r)))"

section \<open>Submission and approval\<close>

definition submit_order :: "swap_submission_status \<Rightarrow> swap_order \<Rightarrow> swap_order" where
  "submit_order status o1 =
    (if so_submission_status o1 = SubmissionAccepted then o1 else o1\<lparr>so_submission_status := status\<rparr>)"

definition order_hooks :: "swap_order \<Rightarrow> b256 list" where
  "order_hooks o1 =
    sh_payload (so_pre_hook o1) # (case so_post_hook o1 of None \<Rightarrow> [] | Some hook \<Rightarrow> [sh_payload hook])"

definition submission_change :: "order_uid \<Rightarrow> swap_submission_status \<Rightarrow> executor_record \<Rightarrow> store_error + executor_record" where
  "submission_change uid status r =
    (case find_order uid r of
       None \<Rightarrow> Inl OperationMismatch
     | Some o1 \<Rightarrow>
         let r1 = put_order uid (submit_order status o1) r in
         Inr (if status = SubmissionRejected then r1
              else r1\<lparr>er_released_payloads := filter (\<lambda>h. h \<notin> set (order_hooks o1)) (er_released_payloads r1)\<rparr>))"

definition record_swap_submission ::
    "store_env \<Rightarrow> operation_id \<Rightarrow> order_uid \<Rightarrow> swap_submission_status
      \<Rightarrow> chain_store \<Rightarrow> (executor_record, chain_store) outcome" where
  "record_swap_submission env operation uid status =
    update_record env operation (\<lambda>_ r. submission_change uid status r)"

text \<open>A replaced approval keeps the chain that cancellation finds the linked destination on.\<close>

definition approval_keeps_chain :: "swap_approval option \<Rightarrow> swap_approval \<Rightarrow> bool" where
  "approval_keeps_chain known approval =
    (case (map_option sa_delivery known, sa_delivery approval) of
       (Some (Bridge previous), Bridge replacement) \<Rightarrow>
         bridge_is_private previous \<and> bridge_is_private replacement
         \<and> bd_destination_chain previous = bd_destination_chain replacement
     | _ \<Rightarrow> False)"

text \<open>Beside an order placed on an included setup only the setup's fee limit may change.\<close>

definition setup_fee_only :: "swap_use_id \<Rightarrow> swap_approval \<Rightarrow> executor_record \<Rightarrow> bool" where
  "setup_fee_only expected approval r \<longleftrightarrow>
    unresolved_swap_setup_nonce expected r \<noteq> None
    \<and> (case latest_approval r of
         None \<Rightarrow> False
       | Some known \<Rightarrow>
           approval\<lparr>sa_bounds := (sa_bounds approval)\<lparr>bo_source_setup_fee := bo_source_setup_fee (sa_bounds known)\<rparr>\<rparr>
             = known)"

definition approval_change :: "swap_use_id \<Rightarrow> swap_approval \<Rightarrow> executor_record \<Rightarrow> store_error + executor_record" where
  "approval_change expected approval r =
    (if er_address r = None \<or> er_swap_setup_stopped r \<or> er_active_swap_use r \<noteq> Some expected
       \<or> er_swap_uses r = []
     then Inl OperationMismatch
     else
       let u = last (er_swap_uses r);
           has_orders = has_swap_use_order (su_id u) r
       in if su_id u \<noteq> expected \<or> su_stopped u \<or> has_orders \<and> \<not> setup_fee_only expected approval r
          then Inl OperationMismatch
          else
            (case su_role u of
               Source known destination \<Rightarrow>
                 if destination \<noteq> None \<and> \<not> approval_keeps_chain known approval then Inl OperationMismatch
                 else Inr (r\<lparr>er_swap_uses := butlast (er_swap_uses r) @ [u\<lparr>su_role := Source (Some approval) destination\<rparr>]\<rparr>)
             | _ \<Rightarrow> Inl OperationMismatch))"

definition record_swap_approval ::
    "store_env \<Rightarrow> operation_id \<Rightarrow> swap_use_id \<Rightarrow> swap_approval
      \<Rightarrow> chain_store \<Rightarrow> (executor_record, chain_store) outcome" where
  "record_swap_approval env operation expected approval =
    update_record env operation (\<lambda>_ r. approval_change expected approval r)"

end
