(* ===== verification/SwapSettlement.thy ===== *)
theory SwapSettlement
  imports SwapAttempts
begin

text \<open>
  What is recorded of a placed order: its observations and the swap's fundings, a settlement with its
  trade, credit and hand-off to a bridge, the orderbook's fee, and the bridge's outcome and refund
  (\<open>crates/wallet-ops/src/vault/executors/swap.rs\<close>). \<open>InvalidRecord\<close> is here the refusal of evidence that
  does not fit.
\<close>

section \<open>Observations\<close>

text \<open>The number of the block that the account was last reconciled at.\<close>

definition confirmed_block :: "executor_record \<Rightarrow> store_error + u64" where
  "confirmed_block r =
    (case er_nonce_observation r of None \<Rightarrow> Inl OutstandingNonce | Some seen \<Rightarrow> Inr (bn_number (no_block seen)))"

definition observations_change ::
    "order_uid \<Rightarrow> order_observations \<Rightarrow> executor_record \<Rightarrow> store_error + executor_record" where
  "observations_change uid obs r =
    and_then (confirmed_block r) (\<lambda>confirmed.
      if list_ex (\<lambda>block. confirmed < bn_number block) (observed_blocks obs)
        \<or> oo_trade_amounts obs \<noteq> None \<and> oo_traded obs = None
      then Inl InvalidRecord
      else change_order uid (\<lambda>o1. Inr (o1\<lparr>so_observations := obs\<rparr>)) r)"

definition record_swap_observations ::
    "store_env \<Rightarrow> operation_id \<Rightarrow> order_uid \<Rightarrow> order_observations
      \<Rightarrow> chain_store \<Rightarrow> (executor_record, chain_store) outcome" where
  "record_swap_observations env operation uid obs =
    update_record env operation (\<lambda>_ r. observations_change uid obs r)"

definition same_funding :: "swap_funding \<Rightarrow> swap_funding \<Rightarrow> bool" where
  "same_funding a b \<longleftrightarrow> sf_use_id a = sf_use_id b \<and> sf_pre_hook_nonce a = sf_pre_hook_nonce b"

text \<open>No funding follows an earlier one of its use and nonce.\<close>

fun funded_twice :: "swap_funding list \<Rightarrow> swap_funding list \<Rightarrow> bool" where
  "funded_twice earlier [] = False"
| "funded_twice earlier (f # fs) \<longleftrightarrow> list_ex (\<lambda>e. same_funding e f) earlier \<or> funded_twice (earlier @ [f]) fs"

definition funding_of_order :: "swap_operation \<Rightarrow> swap_funding \<Rightarrow> bool" where
  "funding_of_order sw f =
    list_ex (\<lambda>o1. so_use_id o1 = Some (sf_use_id f) \<and> sh_nonce (so_pre_hook o1) = sf_pre_hook_nonce f) (sw_orders sw)"

definition fundings_change :: "swap_funding list \<Rightarrow> executor_record \<Rightarrow> store_error + executor_record" where
  "fundings_change fundings r =
    and_then (confirmed_block r) (\<lambda>confirmed.
      if list_ex (\<lambda>f. confirmed < bn_number (ob_block (sf_observation f))
          \<or> ob_transaction_hash (sf_observation f) = None) fundings
        \<or> funded_twice [] fundings
      then Inl InvalidRecord
      else
        (case er_swap r of
           None \<Rightarrow> Inl OperationMismatch
         | Some sw \<Rightarrow>
             if \<not> list_all (funding_of_order sw) fundings then Inl OperationMismatch
             else Inr (r\<lparr>er_swap := Some (sw\<lparr>sw_fundings := fundings\<rparr>)\<rparr>)))"

definition record_swap_fundings ::
    "store_env \<Rightarrow> operation_id \<Rightarrow> swap_funding list \<Rightarrow> chain_store \<Rightarrow> (executor_record, chain_store) outcome" where
  "record_swap_fundings env operation fundings =
    update_record env operation (\<lambda>_ r. fundings_change fundings r)"

section \<open>Settlements\<close>

record settlement_evidence =
  ev_traded :: swap_observation
  ev_amounts :: swap_trade_amounts
  ev_credit :: "swap_shield_observation option"
  ev_handoff :: "bridge_handoff option"
  ev_delivery :: order_uid

text \<open>Whether the credit fits the delivery, whether the hand-off does, and whether they deliver it.\<close>

definition settlement_fits :: "settlement_evidence \<Rightarrow> swap_order \<Rightarrow> bool \<times> bool \<times> bool" where
  "settlement_fits ev o1 =
    (case so_delivery o1 of
       Reshield \<Rightarrow>
         ((case ev_credit ev of None \<Rightarrow> True | Some c \<Rightarrow> bo_private_minimum (so_bounds o1) \<le> sb_private_amount c),
          ev_handoff ev = None, ev_credit ev \<noteq> None)
     | External _ \<Rightarrow> (ev_credit ev = None, ev_handoff ev = None, True)
     | Bridge b \<Rightarrow>
         (ev_credit ev = None
            \<or> bd_surplus b = ReshieldSurplus \<and> bd_provider b = Across \<and> ev_handoff ev \<noteq> None,
          (case ev_handoff ev of
             None \<Rightarrow> True
           | Some h \<Rightarrow> bh_observation h = ev_traded ev \<and> (bh_deposit_id h \<noteq> None) = (bd_provider b = Across)),
          ev_handoff ev \<noteq> None)
     | NonEvmBridge _ \<Rightarrow>
         (ev_credit ev = None,
          (case ev_handoff ev of
             None \<Rightarrow> True | Some h \<Rightarrow> bh_observation h = ev_traded ev \<and> bh_deposit_id h = None),
          ev_handoff ev \<noteq> None))"

text \<open>A value that is known already differs from the one given.\<close>

definition contradicts :: "'a option \<Rightarrow> 'a \<Rightarrow> bool" where
  "contradicts known x = (case known of None \<Rightarrow> False | Some k \<Rightarrow> k \<noteq> x)"

definition settle_order :: "settlement_evidence \<Rightarrow> swap_order \<Rightarrow> store_error + swap_order" where
  "settle_order ev o1 =
    (let obs = so_observations o1;
         (credit_fits, handoff_fits, delivered) = settlement_fits ev o1
     in if ob_transaction_hash (ev_traded ev) = None \<or> \<not> credit_fits \<or> \<not> handoff_fits
          \<or> (case ev_credit ev of None \<Rightarrow> False | Some c \<Rightarrow> sb_observation c \<noteq> ev_traded ev)
          \<or> contradicts (oo_traded obs) (ev_traded ev)
          \<or> (case ev_handoff ev of None \<Rightarrow> False | Some h \<Rightarrow> contradicts (oo_bridge_handoff obs) h)
        then Inl InvalidRecord
        else
          let obs1 = obs\<lparr>oo_traded := Some (ev_traded ev),
                oo_trade_amounts := Some (kept_trade_amounts obs (ev_amounts ev)),
                oo_settlement_credit := or_else (ev_credit ev) (oo_settlement_credit obs),
                oo_bridge_handoff := or_else (ev_handoff ev) (oo_bridge_handoff obs)\<rparr>
          in Inr (o1\<lparr>so_observations :=
               (if delivered then obs1\<lparr>oo_delivered := Some (ev_traded ev), oo_undelivered := None\<rparr> else obs1)\<rparr>))"

text \<open>A settlement whose Across deposit is another attempt's than the traded order.\<close>

definition public_across :: "swap_order \<Rightarrow> bool" where
  "public_across o1 \<longleftrightarrow>
    (case so_delivery o1 of Bridge b \<Rightarrow> bd_provider b = Across \<and> \<not> bridge_is_private b | _ \<Rightarrow> False)
    \<and> (case so_bridge o1 of Some (AcrossTerms _) \<Rightarrow> True | _ \<Rightarrow> False)"

definition split_refused :: "settlement_evidence \<Rightarrow> bridge_handoff \<Rightarrow> swap_order \<Rightarrow> swap_order \<Rightarrow> bool" where
  "split_refused ev handoff trade delivery \<longleftrightarrow>
    so_use_id trade = None \<or> so_use_id trade \<noteq> so_use_id delivery
    \<or> \<not> public_across trade \<or> \<not> public_across delivery
    \<or> ob_transaction_hash (ev_traded ev) = None \<or> bh_deposit_id handoff = None
    \<or> bh_observation handoff \<noteq> ev_traded ev
    \<or> \<not> (case ev_credit ev of
           None \<Rightarrow> True
         | Some c \<Rightarrow>
             sb_observation c = ev_traded ev
             \<and> (case so_delivery delivery of Bridge b \<Rightarrow> bd_surplus b = ReshieldSurplus | _ \<Rightarrow> False))
    \<or> contradicts (oo_traded (so_observations trade)) (ev_traded ev)
    \<or> oo_bridge_handoff (so_observations trade) \<noteq> None \<or> oo_delivered (so_observations trade) \<noteq> None
    \<or> oo_traded (so_observations delivery) \<noteq> None
    \<or> contradicts (oo_bridge_handoff (so_observations delivery)) handoff"

definition split_traded :: "settlement_evidence \<Rightarrow> swap_order \<Rightarrow> swap_order" where
  "split_traded ev o1 =
    (let obs = so_observations o1 in
     o1\<lparr>so_observations := obs\<lparr>oo_trade_amounts := Some (kept_trade_amounts obs (ev_amounts ev)),
       oo_traded := Some (ev_traded ev), oo_undelivered := None\<rparr>\<rparr>)"

definition split_delivered :: "settlement_evidence \<Rightarrow> bridge_handoff \<Rightarrow> swap_order \<Rightarrow> swap_order" where
  "split_delivered ev handoff o1 =
    (let obs = so_observations o1 in
     o1\<lparr>so_observations := obs\<lparr>oo_bridge_handoff := Some handoff, oo_delivered := Some (ev_traded ev),
       oo_settlement_credit := or_else (ev_credit ev) (oo_settlement_credit obs), oo_undelivered := None\<rparr>\<rparr>)"

definition record_split_settlement ::
    "order_uid \<Rightarrow> settlement_evidence \<Rightarrow> executor_record \<Rightarrow> store_error + executor_record" where
  "record_split_settlement uid ev r =
    (case (find_order uid r, find_order (ev_delivery ev) r) of
       (Some trade, Some delivery) \<Rightarrow>
         (case ev_handoff ev of
            None \<Rightarrow> Inl InvalidRecord
          | Some handoff \<Rightarrow>
              if split_refused ev handoff trade delivery then Inl InvalidRecord
              else Inr (put_order (ev_delivery ev) (split_delivered ev handoff delivery)
                (put_order uid (split_traded ev trade) r)))
     | _ \<Rightarrow> Inl OperationMismatch)"

definition settlement_change ::
    "order_uid \<Rightarrow> settlement_evidence \<Rightarrow> executor_record \<Rightarrow> store_error + executor_record" where
  "settlement_change uid ev r =
    (if ev_delivery ev \<noteq> uid then record_split_settlement uid ev r else change_order uid (settle_order ev) r)"

definition record_swap_settlement ::
    "store_env \<Rightarrow> operation_id \<Rightarrow> order_uid \<Rightarrow> settlement_evidence
      \<Rightarrow> chain_store \<Rightarrow> (executor_record, chain_store) outcome" where
  "record_swap_settlement env operation uid ev =
    update_record env operation (\<lambda>_ r. settlement_change uid ev r)"

section \<open>The orderbook's fee\<close>

definition charge_fee :: "u256 \<Rightarrow> address \<Rightarrow> swap_order \<Rightarrow> store_error + swap_order" where
  "charge_fee fee token o1 =
    (let obs = so_observations o1 in
     if oo_traded obs = None then Inl InvalidRecord
     else
       (case oo_trade_amounts obs of
          None \<Rightarrow> Inl InvalidRecord
        | Some amounts \<Rightarrow>
            Inr (if tm_executed_fee amounts = None
                 then o1\<lparr>so_observations := obs\<lparr>oo_trade_amounts :=
                   Some (amounts\<lparr>tm_executed_fee := Some fee, tm_executed_fee_token := Some token\<rparr>)\<rparr>\<rparr>
                 else o1)))"

definition record_swap_executed_fee ::
    "store_env \<Rightarrow> operation_id \<Rightarrow> order_uid \<Rightarrow> u256 \<Rightarrow> address
      \<Rightarrow> chain_store \<Rightarrow> (executor_record, chain_store) outcome" where
  "record_swap_executed_fee env operation uid fee token =
    update_record env operation (\<lambda>_ r. change_order uid (charge_fee fee token) r)"

section \<open>The bridge's outcome and refund\<close>

definition across_order :: "swap_order \<Rightarrow> bool" where
  "across_order o1 = (case so_bridge o1 of Some (AcrossTerms _) \<Rightarrow> True | _ \<Rightarrow> False)"

definition order_rules :: "bool \<Rightarrow> swap_order \<Rightarrow> bridge_outcome_rules" where
  "order_rules private o1 =
    (let obs = so_observations o1 in
     \<lparr>rules_handed_off = (oo_bridge_handoff obs \<noteq> None), rules_private = private,
      rules_destination_minimum = bo_destination_minimum (so_bounds o1), rules_across = across_order o1,
      rules_known = oo_bridge_outcome obs, rules_refund_verified = (oo_bridge_refund obs \<noteq> None)\<rparr>)"

definition outcome_change :: "bridge_outcome \<Rightarrow> swap_order \<Rightarrow> store_error + swap_order" where
  "outcome_change x o1 =
    and_then
      (case so_delivery o1 of
         Bridge b \<Rightarrow> Inr (bridge_is_private b) | NonEvmBridge _ \<Rightarrow> Inr False | _ \<Rightarrow> Inl OperationMismatch)
      (\<lambda>private.
         if \<not> admits_outcome (order_rules private o1) x then Inl InvalidRecord
         else Inr (o1\<lparr>so_observations := (so_observations o1)\<lparr>oo_bridge_outcome := Some x\<rparr>\<rparr>))"

definition record_swap_bridge_outcome ::
    "store_env \<Rightarrow> operation_id \<Rightarrow> order_uid \<Rightarrow> bridge_outcome
      \<Rightarrow> chain_store \<Rightarrow> (executor_record, chain_store) outcome" where
  "record_swap_bridge_outcome env operation uid x =
    update_record env operation (\<lambda>_ r. change_order uid (outcome_change x) r)"

definition refund_change :: "swap_observation \<Rightarrow> swap_order \<Rightarrow> store_error + swap_order" where
  "refund_change refund o1 =
    (let obs = so_observations o1 in
     if \<not> bridge_refund_admitted (across_order o1) (oo_bridge_outcome obs) (oo_bridge_handoff obs) (oo_bridge_refund obs) refund
     then Inl InvalidRecord
     else Inr (o1\<lparr>so_observations := obs\<lparr>oo_bridge_refund := Some refund\<rparr>\<rparr>))"

definition record_swap_bridge_refund ::
    "store_env \<Rightarrow> operation_id \<Rightarrow> order_uid \<Rightarrow> swap_observation
      \<Rightarrow> chain_store \<Rightarrow> (executor_record, chain_store) outcome" where
  "record_swap_bridge_refund env operation uid refund =
    update_record env operation (\<lambda>_ r. change_order uid (refund_change refund) r)"

end
