(* ===== verification/PublicSwaps.thy ===== *)
theory PublicSwaps
  imports SwapReconcile SwapSettlement
begin

text \<open>
  The operations on swaps that a Public account pays for, on the store of the chain they deliver to:
  \<open>crates/wallet-ops/src/vault/executors/public_swap.rs\<close>. A claim is checked against the account and against
  the Public account's other swaps on every chain (\<open>wallet_records\<close>); what is signed, sent and observed of
  the swap is then recorded in its use, live or stopped.
\<close>

section \<open>The swap of a use\<close>

definition public_swap :: "swap_use_record \<Rightarrow> public_swap_record option" where
  "public_swap u = (case su_role u of PublicSourceDestination _ _ _ _ _ swap \<Rightarrow> Some swap | _ \<Rightarrow> None)"

definition public_swap_use :: "swap_use_id \<Rightarrow> executor_record \<Rightarrow> (swap_use_record \<times> public_swap_record) option" where
  "public_swap_use use r = Option.bind (swap_use use r) (\<lambda>u. map_option (Pair u) (public_swap u))"

definition public_swaps_to_track :: "store_env \<Rightarrow> executor_record \<Rightarrow> (swap_use_id \<times> public_swap_record) list" where
  "public_swaps_to_track env r =
    (let now = (case se_now env of None \<Rightarrow> 0 | Some now \<Rightarrow> now) in
     List.map_filter (\<lambda>u.
       Option.bind (public_swap u) (\<lambda>swap.
         if public_swap_finished (su_stopped u) now swap then None else Some (su_id u, swap))) (er_swap_uses r))"

text \<open>What a bridge's outcome means for the account's shield.\<close>

definition public_destination_outcome :: "bridge_outcome \<Rightarrow> destination_outcome option" where
  "public_destination_outcome x =
    (case x of
       DeliveredVerified block hash _ shielded \<Rightarrow> if shielded then Some (Shielded block hash) else None
     | HeldOnDestination block hash _ \<Rightarrow> Some (Held block hash)
     | Refunding \<Rightarrow> Some Unfilled
     | DeliveredReported _ _ _ \<Rightarrow> None
     | NeedsAttention \<Rightarrow> None)"

section \<open>Claims\<close>

datatype public_account_scope = PrivateWalletScope string | GlobalScope

record public_swap_claim =
  pq_id :: swap_use_id
  pq_origin_chain :: u64
  pq_source :: address
  pq_source_scope :: public_account_scope
  pq_account :: swap_account_choice
  pq_delegate :: address
  pq_destination_token :: address
  pq_bridged_token :: address
  pq_order :: bool
  pq_approval :: public_swap_approval
  pq_now :: u64

record public_swap_source_terms =
  sr_id :: "swap_use_id option"
  sr_origin_chain :: u64
  sr_source :: address
  sr_source_scope :: public_account_scope
  sr_sell_token :: address
  sr_bridged_token :: address
  sr_order :: bool
  sr_now :: u64

definition source_terms :: "public_swap_claim \<Rightarrow> public_swap_source_terms" where
  "source_terms claim =
    \<lparr>sr_id = Some (pq_id claim), sr_origin_chain = pq_origin_chain claim, sr_source = pq_source claim,
     sr_source_scope = pq_source_scope claim, sr_sell_token = pv_sell_token (pq_approval claim),
     sr_bridged_token = pq_bridged_token claim, sr_order = pq_order claim, sr_now = pq_now claim\<rparr>"

text \<open>Every record of the wallet with its chain.\<close>

fun chain_records :: "vault \<Rightarrow> u64 list \<Rightarrow> store_error + (u64 \<times> executor_record) list" where
  "chain_records v [] = Inr []"
| "chain_records v (c # cs) =
    and_then (records (v c)) (\<lambda>rs. and_then (chain_records v cs) (\<lambda>rest. Inr (map (Pair c) rs @ rest)))"

definition wallet_records :: "store_env \<Rightarrow> vault \<Rightarrow> store_error + (u64 \<times> executor_record) list" where
  "wallet_records env v = chain_records v (se_chains env)"

text \<open>
  An order of another swap that the Public account pays for on the origin chain, with its chain and use,
  and whether it is claimed but neither signed nor stopped.
\<close>

type_synonym competitor = "u64 \<times> swap_use_id \<times> public_swap_record \<times> bool"

definition competing_order ::
    "public_swap_source_terms \<Rightarrow> u64 \<Rightarrow> swap_use_record \<Rightarrow> competitor option" where
  "competing_order terms chain u =
    (case su_role u of
       PublicSourceDestination origin source _ _ _ swap \<Rightarrow>
         if Some (su_id u) \<noteq> sr_id terms \<and> origin = sr_origin_chain terms \<and> source = sr_source terms
           \<and> in_order (pu_intent swap)
         then Some (chain, su_id u, swap, pu_path swap = None \<and> \<not> su_stopped u) else None
     | _ \<Rightarrow> None)"

definition competing_orders ::
    "public_swap_source_terms \<Rightarrow> (u64 \<times> executor_record) list \<Rightarrow> competitor list" where
  "competing_orders terms rs =
    concat (map (\<lambda>(chain, r). List.map_filter (competing_order terms chain) (er_swap_uses r)) rs)"

definition buys_same_token ::
    "(order_uid \<Rightarrow> u32) \<Rightarrow> public_swap_source_terms \<Rightarrow> competitor \<Rightarrow> store_error option" where
  "buys_same_token valid_to terms other =
    (case other of
       (chain, use, swap, idle) \<Rightarrow>
         if in_bridged_token (pu_intent swap) \<noteq> sr_bridged_token terms then None
         else
           let beyond_deadline =
                 (order_can_fill valid_to (sr_now terms) swap \<or> proxy_holds_proceeds swap \<or> idle)
           in if beyond_deadline \<or> batch_can_run (sr_now terms) swap
              then Some (PublicSwapBuysSameToken use chain
                (if beyond_deadline then None
                 else map_option (\<lambda>o1. ucast (hb_deadline (po_batch o1)) + 1) (public_order swap)))
              else None)"

definition sells_same_token ::
    "(order_uid \<Rightarrow> u32) \<Rightarrow> public_swap_source_terms \<Rightarrow> competitor \<Rightarrow> store_error option" where
  "sells_same_token valid_to terms other =
    (case other of
       (chain, use, swap, idle) \<Rightarrow>
         if pv_sell_token (pu_approval swap) = sr_sell_token terms
           \<and> (order_can_fill valid_to (sr_now terms) swap \<or> idle)
         then Some (PublicSwapSellsSameToken use chain
           (map_option (\<lambda>o1. ucast (valid_to (po_uid o1))) (public_order swap)))
         else None)"

definition admit_public_swap_source ::
    "(order_uid \<Rightarrow> u32) \<Rightarrow> public_swap_source_terms \<Rightarrow> (u64 \<times> executor_record) list \<Rightarrow> store_error + unit" where
  "admit_public_swap_source valid_to terms rs =
    (if sr_source_scope terms = GlobalScope then Inl PublicSwapSourceShared
     else
       let orders = competing_orders terms rs in
       (case (if sr_order terms then find_map (buys_same_token valid_to terms) orders else None) of
          Some e \<Rightarrow> Inl e
        | None \<Rightarrow>
            (case find_map (sells_same_token valid_to terms) orders of
               Some e \<Rightarrow> Inl e
             | None \<Rightarrow> Inr ())))"

definition public_bound :: "public_swap_claim \<Rightarrow> swap_use_record \<Rightarrow> bool" where
  "public_bound claim held =
    (case su_role held of
       PublicSourceDestination origin source token _ _ _ \<Rightarrow>
         origin = pq_origin_chain claim \<and> source = pq_source claim \<and> token = pq_destination_token claim
     | _ \<Rightarrow> False)"

definition claimed_role :: "public_swap_claim \<Rightarrow> swap_use_role" where
  "claimed_role claim =
    PublicSourceDestination (pq_origin_chain claim) (pq_source claim) (pq_destination_token claim) [] None
      (new_public_swap (pq_approval claim)
        \<lparr>in_bridged_token = pq_bridged_token claim, in_order = pq_order claim\<rparr>)"

definition claim_public_swap ::
    "store_env \<Rightarrow> u64 \<Rightarrow> public_swap_claim \<Rightarrow> vault \<Rightarrow> (executor_record, vault) outcome" where
  "claim_public_swap env chain claim v =
    (if pq_origin_chain claim = chain then (Inl OperationMismatch, v)
     else guarded env (\<lambda>v.
       case record_of (choice_operation (pq_account claim)) (v chain) of
         Inl e \<Rightarrow> (Inl e, v)
       | Inr found \<Rightarrow>
           (case Option.bind found (\<lambda>r. map_option (Pair r) (swap_use (pq_id claim) r)) of
              Some (r, held) \<Rightarrow> (if public_bound claim held then Inr r else Inl OperationMismatch, v)
            | None \<Rightarrow>
                if \<not> approved_choice (pv_destination (pq_approval claim)) (pq_account claim) found
                then (Inl OperationMismatch, v)
                else
                  (case and_then
                      (admit_swap_account env (pq_account claim) found chain
                        (DestinationAccount (pq_destination_token claim)) (pq_id claim))
                      (\<lambda>_. and_then (wallet_records env v)
                        (admit_public_swap_source (se_uid_valid_to env) (source_terms claim))) of
                     Inl e \<Rightarrow> (Inl e, v)
                   | Inr _ \<Rightarrow>
                       bind_outcome
                         (claim_swap_account env chain (choice_operation (pq_account claim)) found (pq_delegate claim)
                           (Some SWAP_DESTINATION_PURPOSE_SUMMARY) [Erc20 (pq_destination_token claim)]
                           (pq_id claim) (claimed_role claim) v)
                         (\<lambda>claimed v1. commit (Inr claimed) v1)))) v)"

text \<open>The refusal that a claim with the terms would get for its Public account.\<close>

definition public_swap_source_conflict ::
    "store_env \<Rightarrow> u64 \<Rightarrow> public_swap_source_terms \<Rightarrow> vault \<Rightarrow> (store_error option, vault) outcome" where
  "public_swap_source_conflict env chain terms v =
    (if sr_origin_chain terms = chain then (Inl OperationMismatch, v)
     else guarded env (\<lambda>v.
       (and_then (wallet_records env v) (\<lambda>rs.
          Inr (case admit_public_swap_source (se_uid_valid_to env) terms rs of Inl e \<Rightarrow> Some e | Inr _ \<Rightarrow> None)), v)) v)"

section \<open>Changes of a swap\<close>

fun set_swap :: "public_swap_record \<Rightarrow> swap_use_role \<Rightarrow> swap_use_role" where
  "set_swap swap (PublicSourceDestination chain source token shields outcome _) =
    PublicSourceDestination chain source token shields outcome swap"
| "set_swap swap (Source approval destination) = Source approval destination"
| "set_swap swap (Destination chain operation token shields outcome) =
    Destination chain operation token shields outcome"

text \<open>A change of the use's swap, stopped or not, and of one that was not stopped.\<close>

definition public_swap_mut ::
    "swap_use_id \<Rightarrow> (public_swap_record \<Rightarrow> store_error + public_swap_record) \<Rightarrow> executor_record
      \<Rightarrow> store_error + executor_record" where
  "public_swap_mut use f r =
    (case public_swap_use use r of
       None \<Rightarrow> Inl OperationMismatch
     | Some (_, swap) \<Rightarrow> and_then (f swap) (\<lambda>swap1. Inr (with_role use (set_swap swap1) r)))"

definition live_public_swap ::
    "swap_use_id \<Rightarrow> (public_swap_record \<Rightarrow> store_error + public_swap_record) \<Rightarrow> executor_record
      \<Rightarrow> store_error + executor_record" where
  "live_public_swap use f r =
    (case swap_use use r of
       None \<Rightarrow> Inl OperationMismatch
     | Some u \<Rightarrow> if su_stopped u then Inl OperationMismatch else public_swap_mut use f r)"

section \<open>Approval and destination\<close>

definition reapprove :: "public_swap_approval \<Rightarrow> public_swap_record \<Rightarrow> store_error + public_swap_record" where
  "reapprove approval swap =
    (if \<not> public_unsigned swap
       \<or> pv_sell_token approval \<noteq> pv_sell_token (pu_approval swap)
       \<or> pv_destination approval \<noteq> pv_destination (pu_approval swap)
       \<or> bo_destination_minimum (pv_bounds approval) = None
       \<or> aa_setup (pv_destination approval) \<and> bo_destination_setup_fee (pv_bounds approval) = None
     then Inl OperationMismatch
     else Inr (swap\<lparr>pu_approval := approval, pu_path := None, pu_bridge := None\<rparr>))"

definition reapprove_public_swap ::
    "store_env \<Rightarrow> operation_id \<Rightarrow> swap_use_id \<Rightarrow> public_swap_approval
      \<Rightarrow> chain_store \<Rightarrow> (executor_record, chain_store) outcome" where
  "reapprove_public_swap env operation use approval =
    update_record env operation (\<lambda>_ r.
      if er_active_swap_use r \<noteq> Some use \<or> er_retired r \<or> er_swap_setup_stopped r then Inl OperationMismatch
      else live_public_swap use (reapprove approval) r)"

definition cancel_public_swap ::
    "store_env \<Rightarrow> operation_id \<Rightarrow> swap_use_id \<Rightarrow> chain_store \<Rightarrow> (swap_use_release, chain_store) outcome" where
  "cancel_public_swap env operation use =
    guarded env (\<lambda>cs.
      case found_record operation cs of
        Inl e \<Rightarrow> (Inl e, cs)
      | Inr r \<Rightarrow>
          if (case public_swap_use use r of None \<Rightarrow> True | Some (_, swap) \<Rightarrow> \<not> public_unsigned swap)
          then (Inl OperationMismatch, cs)
          else
            let (released, r1) = cancel_swap_use use r
            in (Inr released, put_rows [OperationRow operation r1] cs))"

definition bind_destination :: "address \<Rightarrow> bool \<Rightarrow> public_swap_record \<Rightarrow> store_error + public_swap_record" where
  "bind_destination address setup swap =
    (if \<not> admits_account address setup (pv_destination (pu_approval swap)) then Inl OperationMismatch
     else Inr (swap\<lparr>pu_approval := (pu_approval swap)\<lparr>pv_destination :=
       (pv_destination (pu_approval swap))\<lparr>aa_address := Some address\<rparr>\<rparr>\<rparr>))"

definition bind_public_swap_destination ::
    "store_env \<Rightarrow> operation_id \<Rightarrow> swap_use_id \<Rightarrow> address \<Rightarrow> chain_store \<Rightarrow> (executor_record, chain_store) outcome" where
  "bind_public_swap_destination env operation use address =
    update_record env operation (\<lambda>_ r.
      and_then (ok_or (swap_use use r) OperationMismatch) (\<lambda>u.
        if er_address r \<noteq> Some address then Inl OperationMismatch
        else live_public_swap use (bind_destination address (su_fresh u)) r))"

definition public_swap_destination_setup_fee ::
    "store_env \<Rightarrow> operation_id \<Rightarrow> chain_store \<Rightarrow> (swap_setup_fee_limit option, chain_store) outcome" where
  "public_swap_destination_setup_fee env operation =
    guarded env (\<lambda>cs.
      (and_then (record_of operation cs) (\<lambda>found.
         Inr (Option.bind found (\<lambda>r. Option.bind (active_use r) (\<lambda>u. Option.bind (public_swap u) (\<lambda>swap.
           bo_destination_setup_fee (pv_bounds (pu_approval swap))))))), cs))"

section \<open>The signed path\<close>

definition sign_path :: "public_swap_path \<Rightarrow> across_order_terms \<Rightarrow> public_swap_record \<Rightarrow> store_error + public_swap_record" where
  "sign_path path bridge swap =
    (let signed = swap\<lparr>pu_path := Some path, pu_bridge := Some bridge\<rparr> in
     if \<not> path_claimed path (pu_intent swap) then Inl OperationMismatch
     else
       (case pu_path swap of
          None \<Rightarrow> Inr signed
        | Some recorded \<Rightarrow>
            if recorded = path \<and> pu_bridge swap = Some bridge then Inr swap
            else if path \<noteq> DepositPath \<or> recorded \<noteq> path \<or> \<not> public_unsigned swap then Inl OperationMismatch
            else Inr signed))"

definition record_public_swap_path ::
    "store_env \<Rightarrow> operation_id \<Rightarrow> swap_use_id \<Rightarrow> public_swap_path \<Rightarrow> across_order_terms
      \<Rightarrow> chain_store \<Rightarrow> (executor_record, chain_store) outcome" where
  "record_public_swap_path env operation use path bridge =
    update_record env operation (\<lambda>_ r. live_public_swap use (sign_path path bridge) r)"

definition submit_public_order :: "swap_submission_status \<Rightarrow> public_swap_record \<Rightarrow> store_error + public_swap_record" where
  "submit_public_order status swap =
    (case pu_path swap of
       Some (OrderPath o1) \<Rightarrow>
         Inr (if po_submission_status o1 = SubmissionAccepted then swap
              else swap\<lparr>pu_path := Some (OrderPath (o1\<lparr>po_submission_status := status\<rparr>))\<rparr>)
     | _ \<Rightarrow> Inl OperationMismatch)"

definition record_public_swap_submission ::
    "store_env \<Rightarrow> operation_id \<Rightarrow> swap_use_id \<Rightarrow> swap_submission_status
      \<Rightarrow> chain_store \<Rightarrow> (executor_record, chain_store) outcome" where
  "record_public_swap_submission env operation use status =
    update_record env operation (\<lambda>_ r. public_swap_mut use (submit_public_order status) r)"

section \<open>What is observed\<close>

definition record_public_swap_observations ::
    "store_env \<Rightarrow> operation_id \<Rightarrow> swap_use_id \<Rightarrow> public_swap_observations
      \<Rightarrow> chain_store \<Rightarrow> (executor_record, chain_store) outcome" where
  "record_public_swap_observations env operation use observations =
    update_record env operation (\<lambda>_ r. public_swap_mut use (\<lambda>swap. Inr (swap\<lparr>pu_observations := observations\<rparr>)) r)"

definition public_rules :: "public_swap_record \<Rightarrow> bridge_outcome_rules" where
  "public_rules swap =
    (let observed = pu_observations swap in
     \<lparr>rules_handed_off = (pb_bridge_handoff observed \<noteq> None), rules_private = True,
      rules_destination_minimum = bo_destination_minimum (pv_bounds (pu_approval swap)), rules_across = True,
      rules_known = pb_bridge_outcome observed, rules_refund_verified = (pb_bridge_refund observed \<noteq> None)\<rparr>)"

fun note_bridge_outcome :: "bridge_outcome \<Rightarrow> swap_use_role \<Rightarrow> store_error + swap_use_role" where
  "note_bridge_outcome x (PublicSourceDestination chain source token shields outcome swap) =
    (let next = next_destination_outcome outcome (public_destination_outcome x);
         swap1 = swap\<lparr>pu_observations := (pu_observations swap)\<lparr>pb_bridge_outcome := Some x\<rparr>\<rparr>
     in if \<not> admits_outcome (public_rules swap) x then Inl InvalidRecord
        else Inr (PublicSourceDestination chain source token shields
          (if is_filled next \<and> shields = [] then outcome else next) swap1))"
| "note_bridge_outcome x (Source approval destination) = Inl OperationMismatch"
| "note_bridge_outcome x (Destination chain operation token shields outcome) = Inl OperationMismatch"

definition public_outcome_change :: "swap_use_id \<Rightarrow> bridge_outcome \<Rightarrow> executor_record \<Rightarrow> store_error + executor_record" where
  "public_outcome_change use x r =
    and_then (ok_or (swap_use use r) OperationMismatch) (\<lambda>u.
      and_then (note_bridge_outcome x (su_role u)) (\<lambda>role. Inr (with_role use (\<lambda>_. role) r)))"

definition record_public_swap_bridge_outcome ::
    "store_env \<Rightarrow> operation_id \<Rightarrow> swap_use_id \<Rightarrow> bridge_outcome
      \<Rightarrow> chain_store \<Rightarrow> (executor_record, chain_store) outcome" where
  "record_public_swap_bridge_outcome env operation use x =
    update_record env operation (\<lambda>_ r. public_outcome_change use x r)"

definition refund_public_swap :: "swap_observation \<Rightarrow> public_swap_record \<Rightarrow> store_error + public_swap_record" where
  "refund_public_swap refund swap =
    (let observed = pu_observations swap in
     if \<not> bridge_refund_admitted True (pb_bridge_outcome observed) (pb_bridge_handoff observed)
         (pb_bridge_refund observed) refund
     then Inl InvalidRecord
     else Inr (swap\<lparr>pu_observations := observed\<lparr>pb_bridge_refund := Some refund\<rparr>\<rparr>))"

definition record_public_swap_bridge_refund ::
    "store_env \<Rightarrow> operation_id \<Rightarrow> swap_use_id \<Rightarrow> swap_observation
      \<Rightarrow> chain_store \<Rightarrow> (executor_record, chain_store) outcome" where
  "record_public_swap_bridge_refund env operation use refund =
    update_record env operation (\<lambda>_ r. public_swap_mut use (refund_public_swap refund) r)"

section \<open>Transactions\<close>

definition transaction_admitted :: "public_transaction_kind \<Rightarrow> public_swap_record \<Rightarrow> bool" where
  "transaction_admitted kind swap =
    (case kind of
       ApprovalReset \<Rightarrow> True
     | ApprovalTransaction \<Rightarrow> True
     | DepositTransaction \<Rightarrow> pu_path swap = Some DepositPath
     | InvalidationTransaction \<Rightarrow> public_order swap \<noteq> None
     | WithdrawalTransaction \<Rightarrow> public_order swap \<noteq> None)"

definition add_transaction :: "public_swap_transaction \<Rightarrow> public_swap_record \<Rightarrow> store_error + public_swap_record" where
  "add_transaction t swap =
    (if \<not> transaction_admitted (pt_kind t) swap then Inl OperationMismatch
     else
       (case find (\<lambda>x. pt_hash x = pt_hash t) (pu_transactions swap) of
          Some recorded \<Rightarrow>
            if pt_kind recorded = pt_kind t \<and> pt_transaction recorded = pt_transaction t then Inr swap
            else Inl OperationMismatch
        | None \<Rightarrow>
            if pt_kind t = DepositTransaction \<and> deposit_handed_off swap then Inl OperationMismatch
            else Inr (swap\<lparr>pu_transactions := pu_transactions swap @ [t]\<rparr>)))"

definition record_public_swap_transaction ::
    "store_env \<Rightarrow> operation_id \<Rightarrow> swap_use_id \<Rightarrow> public_swap_transaction
      \<Rightarrow> chain_store \<Rightarrow> (executor_record, chain_store) outcome" where
  "record_public_swap_transaction env operation use t =
    update_record env operation (\<lambda>_ r. public_swap_mut use (add_transaction t) r)"

text \<open>A change of the first transaction that \<open>P\<close> holds of.\<close>

fun update_transaction ::
    "(public_swap_transaction \<Rightarrow> bool) \<Rightarrow> (public_swap_transaction \<Rightarrow> store_error + public_swap_transaction)
      \<Rightarrow> public_swap_transaction list \<Rightarrow> store_error + public_swap_transaction list" where
  "update_transaction P f [] = Inl OperationMismatch"
| "update_transaction P f (t # ts) =
    (if P t then and_then (f t) (\<lambda>t1. Inr (t1 # ts))
     else and_then (update_transaction P f ts) (\<lambda>ts1. Inr (t # ts1)))"

definition change_transaction ::
    "(public_swap_transaction \<Rightarrow> bool) \<Rightarrow> (public_swap_transaction \<Rightarrow> store_error + public_swap_transaction)
      \<Rightarrow> public_swap_record \<Rightarrow> store_error + public_swap_record" where
  "change_transaction P f swap =
    and_then (update_transaction P f (pu_transactions swap)) (\<lambda>ts. Inr (swap\<lparr>pu_transactions := ts\<rparr>))"

definition included_finally :: "public_swap_transaction \<Rightarrow> bool" where
  "included_finally t = (case pt_inclusion t of None \<Rightarrow> False | Some i \<Rightarrow> ic_finalized i)"

definition include_transaction ::
    "public_swap_inclusion \<Rightarrow> public_swap_transaction \<Rightarrow> store_error + public_swap_transaction" where
  "include_transaction inclusion t =
    (if pt_ruled_out t \<noteq> None then Inl InvalidRecord
     else Inr (if \<not> included_finally t \<or> ic_finalized inclusion then t\<lparr>pt_inclusion := Some inclusion\<rparr> else t))"

definition record_public_swap_inclusion ::
    "store_env \<Rightarrow> operation_id \<Rightarrow> swap_use_id \<Rightarrow> b256 \<Rightarrow> public_swap_inclusion
      \<Rightarrow> chain_store \<Rightarrow> (executor_record, chain_store) outcome" where
  "record_public_swap_inclusion env operation use h inclusion =
    update_record env operation (\<lambda>_ r.
      public_swap_mut use (change_transaction (\<lambda>t. pt_hash t = h) (include_transaction inclusion)) r)"

definition deposit_with_hash :: "b256 \<Rightarrow> public_swap_transaction \<Rightarrow> bool" where
  "deposit_with_hash h t \<longleftrightarrow> pt_hash t = h \<and> pt_kind t = DepositTransaction"

definition advance_scan :: "u64 \<Rightarrow> public_swap_transaction \<Rightarrow> store_error + public_swap_transaction" where
  "advance_scan next_block t =
    Inr (t\<lparr>pt_deposit_scan_from_block :=
      Some (max (case pt_deposit_scan_from_block t of None \<Rightarrow> 0 | Some b \<Rightarrow> b) next_block)\<rparr>)"

definition record_public_swap_deposit_scan ::
    "store_env \<Rightarrow> operation_id \<Rightarrow> swap_use_id \<Rightarrow> b256 \<Rightarrow> u64
      \<Rightarrow> chain_store \<Rightarrow> (executor_record, chain_store) outcome" where
  "record_public_swap_deposit_scan env operation use h next_block =
    update_record env operation (\<lambda>_ r.
      public_swap_mut use (change_transaction (deposit_with_hash h) (advance_scan next_block)) r)"

definition rule_out :: "swap_observation \<Rightarrow> public_swap_transaction \<Rightarrow> store_error + public_swap_transaction" where
  "rule_out ev t =
    (if included_finally t \<or> contradicts (pt_ruled_out t) ev then Inl InvalidRecord
     else Inr (t\<lparr>pt_ruled_out := Some ev\<rparr>))"

definition record_public_swap_deposit_ruled_out ::
    "store_env \<Rightarrow> operation_id \<Rightarrow> swap_use_id \<Rightarrow> b256 \<Rightarrow> swap_observation
      \<Rightarrow> chain_store \<Rightarrow> (executor_record, chain_store) outcome" where
  "record_public_swap_deposit_ruled_out env operation use h ev =
    update_record env operation (\<lambda>_ r.
      public_swap_mut use (change_transaction (deposit_with_hash h) (rule_out ev)) r)"

end
