(* ===== verification/ExecutorInvariants.thy ===== *)
theory ExecutorInvariants
  imports PublicSwaps "HOL-Library.Sublist"
begin

text \<open>
  What the executor store keeps of its accounts: a record stays decodable and in its stored form, an
  account index belongs to one record, and what is known of an account is not lost (\<open>continues\<close>). The
  lemmas treat a store as the map of its accounts (\<open>account\<close>) and a write as one change of it.
\<close>

section \<open>Records\<close>

definition stored :: "executor_record \<Rightarrow> executor_record" where
  "stored r = r\<lparr>er_version := format_version r\<rparr>"

definition swap_identified :: "executor_record \<Rightarrow> bool" where
  "swap_identified r = (case er_swap r of None \<Rightarrow> True | Some sw \<Rightarrow> has_use_ids sw)"

text \<open>
  A use of an account on \<open>chain\<close> with the given payloads: a destination's origin is on another chain, its
  shields are payloads the account issued, and only a use that signed a shield has a fill. A swap paid by a
  Public account is paid on another chain too, and its record is good.
\<close>

definition delivery_ok :: "b256 list \<Rightarrow> b256 list \<Rightarrow> destination_outcome option \<Rightarrow> bool" where
  "delivery_ok hashes shields outcome \<longleftrightarrow> set shields \<subseteq> set hashes \<and> (is_filled outcome \<longrightarrow> shields \<noteq> [])"

definition role_ok :: "u64 \<Rightarrow> b256 list \<Rightarrow> swap_use_role \<Rightarrow> bool" where
  "role_ok chain hashes role =
    (case role of
       Source _ _ \<Rightarrow> True
     | Destination origin _ _ shields outcome \<Rightarrow> origin \<noteq> chain \<and> delivery_ok hashes shields outcome
     | PublicSourceDestination origin _ _ shields outcome swap \<Rightarrow>
         origin \<noteq> chain \<and> delivery_ok hashes shields outcome \<and> public_swap_ok swap)"

text \<open>
  An account's orders and the hooks among its payloads, given as purpose and hook: each order's hooks are
  payloads it issued, the post-hook at the next nonce and only for a delivery that has one, and each
  issued hook is an order's. Identifiers are distinct, attempts are counted, all orders have the recipient
  of the first, and an order that is no private Bridge order has the tokens and delivery of the earlier
  ones of its use. Amounts come with their trade, and each funding is of one use and nonce of the orders.
\<close>

definition issued_hooks :: "issued_payload list \<Rightarrow> (payload_purpose \<times> swap_hook) list" where
  "issued_hooks ps = map (\<lambda>p. (ip_purpose p, hook_of p)) ps"

definition amounts_ok :: "order_observations \<Rightarrow> bool" where
  "amounts_ok obs \<longleftrightarrow> oo_trade_amounts obs \<noteq> None \<longrightarrow> oo_traded obs \<noteq> None"

definition order_ok :: "(payload_purpose \<times> swap_hook) list \<Rightarrow> swap_operation \<Rightarrow> swap_order \<Rightarrow> bool" where
  "order_ok hooks sw o1 \<longleftrightarrow>
    so_use_id o1 \<noteq> None \<and> so_terms o1 \<noteq> None
    \<and> st_recipient (order_terms sw o1) = st_recipient (sw_terms sw)
    \<and> (SwapPreHook, so_pre_hook o1) \<in> set hooks
    \<and> (so_post_hook o1 \<noteq> None) = has_post_hook (so_delivery o1)
    \<and> (case so_post_hook o1 of
         None \<Rightarrow> True
       | Some hook \<Rightarrow>
           (SwapPostHook, hook) \<in> set hooks \<and> checked_add (sh_nonce (so_pre_hook o1)) 1 = Some (sh_nonce hook))
    \<and> bridge_terms_fit (so_delivery o1) (so_bridge o1)
    \<and> amounts_ok (so_observations o1)"

definition keeps_use_terms :: "swap_order \<Rightarrow> swap_order \<Rightarrow> bool" where
  "keeps_use_terms earlier later \<longleftrightarrow>
    so_use_id earlier = so_use_id later \<longrightarrow> private_bridge (so_delivery later) = None \<longrightarrow>
      map_option st_sell_token (so_terms earlier) = map_option st_sell_token (so_terms later)
      \<and> map_option st_buy_token (so_terms earlier) = map_option st_buy_token (so_terms later)
      \<and> so_delivery earlier = so_delivery later"

definition hook_of_order :: "swap_operation \<Rightarrow> payload_purpose \<times> swap_hook \<Rightarrow> bool" where
  "hook_of_order sw x \<longleftrightarrow>
    (fst x = SwapPreHook \<longrightarrow> snd x \<in> set (map so_pre_hook (sw_orders sw)))
    \<and> (fst x = SwapPostHook \<longrightarrow> Some (snd x) \<in> set (map so_post_hook (sw_orders sw)))"

definition orders_ok :: "(payload_purpose \<times> swap_hook) list \<Rightarrow> swap_operation \<Rightarrow> bool" where
  "orders_ok hooks sw \<longleftrightarrow>
    sw_orders sw \<noteq> [] \<and> list_all (order_ok hooks sw) (sw_orders sw)
    \<and> distinct (map so_uid (sw_orders sw))
    \<and> map so_attempt (sw_orders sw) = map of_nat [0..<length (sw_orders sw)]
    \<and> sorted_wrt keeps_use_terms (sw_orders sw)
    \<and> list_all (hook_of_order sw) hooks
    \<and> list_all (funding_of_order sw) (sw_fundings sw) \<and> \<not> funded_twice [] (sw_fundings sw)"

definition swap_ok :: "(payload_purpose \<times> swap_hook) list \<Rightarrow> swap_operation option \<Rightarrow> bool" where
  "swap_ok hooks swap =
    (case swap of
       None \<Rightarrow> list_all (\<lambda>x. fst x \<noteq> SwapPreHook \<and> fst x \<noteq> SwapPostHook) hooks
     | Some sw \<Rightarrow> orders_ok hooks sw)"

definition body_ok :: "u64 \<Rightarrow> executor_record \<Rightarrow> bool" where
  "body_ok chain r \<longleftrightarrow>
    swap_identified r \<and> er_index r < INDEX_LIMIT
    \<and> distinct (map su_id (er_swap_uses r))
    \<and> list_all (\<lambda>u. role_ok chain (map ip_hash (er_issued r)) (su_role u)) (er_swap_uses r)
    \<and> distinct (map ip_hash (er_issued r))
    \<and> swap_ok (issued_hooks (er_issued r)) (er_swap r)"

definition record_ok :: "u64 \<Rightarrow> executor_record \<Rightarrow> bool" where
  "record_ok chain r \<longleftrightarrow> body_ok chain r \<and> er_version r = format_version r"

text \<open>The identity of a payload: all of it but the transactions that carried it and its inclusion.\<close>

definition payload_identity :: "issued_payload \<Rightarrow> b256 \<times> u256 \<times> address \<times> payload_purpose \<times> payload_context" where
  "payload_identity p = (ip_hash p, ip_nonce p, ip_delegate p, ip_purpose p, ip_context p)"

text \<open>The identity of an order: all of it but what is observed of it and its submission's status.\<close>

definition order_identity :: "swap_order \<Rightarrow> swap_order" where
  "order_identity o1 = o1\<lparr>so_observations := unobserved, so_submission_status := SubmissionPending\<rparr>"

definition orders_of :: "swap_operation option \<Rightarrow> swap_order list" where
  "orders_of swap = (case swap of None \<Rightarrow> [] | Some sw \<Rightarrow> sw_orders sw)"

text \<open>
  What is recorded of a use for good: its fill, the order that a Public account signed for it, and the
  transactions that account handed off.
\<close>

datatype use_fact =
    FillFact destination_outcome
  | SignedFact "public_swap_order \<times> across_order_terms option \<times> public_swap_intent \<times> public_swap_approval"
  | SentFact "public_transaction_kind \<times> transaction_request \<times> b256"

definition fill_facts :: "destination_outcome option \<Rightarrow> use_fact list" where
  "fill_facts outcome = (case outcome of None \<Rightarrow> [] | Some x \<Rightarrow> if is_filled outcome then [FillFact x] else [])"

definition public_facts :: "public_swap_record \<Rightarrow> use_fact list" where
  "public_facts swap =
    (case signed_order_terms swap of None \<Rightarrow> [] | Some terms \<Rightarrow> [SignedFact terms])
    @ map SentFact (sent_transactions swap)"

fun use_facts :: "swap_use_role \<Rightarrow> use_fact list" where
  "use_facts (Source _ _) = []"
| "use_facts (Destination _ _ _ _ outcome) = fill_facts outcome"
| "use_facts (PublicSourceDestination _ _ _ _ outcome swap) = fill_facts outcome @ public_facts swap"

definition facts_of :: "swap_use_record list \<Rightarrow> (swap_use_id \<times> use_fact) set" where
  "facts_of us = {(su_id u, x) | u x. u \<in> set us \<and> x \<in> set (use_facts (su_role u))}"

definition continues :: "executor_record \<Rightarrow> executor_record \<Rightarrow> bool" where
  "continues r r' \<longleftrightarrow>
    er_operation r' = er_operation r \<and> er_index r' = er_index r \<and> er_origin r' = er_origin r
    \<and> er_created_at r' = er_created_at r
    \<and> (er_address r = None \<or> er_address r' = er_address r)
    \<and> (er_retired r \<longrightarrow> er_retired r')
    \<and> er_public_account_uuid r' = er_public_account_uuid r
    \<and> prefix (map payload_identity (er_issued r)) (map payload_identity (er_issued r'))
    \<and> prefix (map order_identity (orders_of (er_swap r))) (map order_identity (orders_of (er_swap r')))
    \<and> facts_of (er_swap_uses r) \<subseteq> facts_of (er_swap_uses r')"

text \<open>What the inputs that an account reserves depend on.\<close>

definition same_reservations :: "executor_record \<Rightarrow> executor_record \<Rightarrow> bool" where
  "same_reservations r r' \<longleftrightarrow>
    er_issued r' = er_issued r \<and> er_released_payloads r' = er_released_payloads r \<and> er_swap r' = er_swap r
    \<and> er_nonce_observation r' = er_nonce_observation r \<and> er_nonce_watermark r' = er_nonce_watermark r
    \<and> er_settled_nonce r' = er_settled_nonce r"

lemma continues_refl [simp]: "continues r r"
  by (simp add: continues_def)

lemma continues_trans: "continues r s \<Longrightarrow> continues s t \<Longrightarrow> continues r t"
  by (auto simp: continues_def intro: prefix_order.trans)

lemma facts_of_simps [simp]:
  "facts_of [] = {}" "facts_of (u # us) = Pair (su_id u) ` set (use_facts (su_role u)) \<union> facts_of us"
  "facts_of (us @ ws) = facts_of us \<union> facts_of ws"
  by (auto simp: facts_of_def)

lemma swap_orders_of: "swap_orders_of r = orders_of (er_swap r)"
  by (simp add: swap_orders_of_def orders_of_def)

lemma issued_hooks_simps [simp]:
  "issued_hooks [] = []" "issued_hooks (p # ps) = (ip_purpose p, hook_of p) # issued_hooks ps"
  "issued_hooks (ps @ qs) = issued_hooks ps @ issued_hooks qs"
  by (simp_all add: issued_hooks_def)

lemma swap_ok_unissued [simp]: "swap_ok [] None"
  by (simp add: swap_ok_def)

lemmas record_fields = body_ok_def continues_def swap_identified_def same_reservations_def

lemma stored_simps [simp]:
  "er_version (stored r) = format_version r" "er_operation (stored r) = er_operation r"
  "er_index (stored r) = er_index r" "er_swap (stored r) = er_swap r" "er_issued (stored r) = er_issued r"
  "er_swap_uses (stored r) = er_swap_uses r" "er_address (stored r) = er_address r"
  "er_active_swap_use (stored r) = er_active_swap_use r" "format_version (stored r) = format_version r"
  "body_ok chain (stored r) = body_ok chain r"
  "continues r (stored s) = continues r s" "continues (stored r) s = continues r s"
  "same_reservations r (stored r)" "same_reservations (stored r) r"
  by (simp_all add: stored_def record_fields)

lemma record_ok_stored [simp]: "record_ok chain (stored r) = body_ok chain r"
  by (simp add: record_ok_def)

lemma stored_fixed: "record_ok chain r \<Longrightarrow> stored r = r"
  using version_written by (simp add: record_ok_def stored_def)

lemma in_form_stored: "swap_identified r \<Longrightarrow> record_in_form (stored r)"
  by (auto simp: record_in_form_def swap_identified_def format_version_def split: option.splits)

lemma wire_of_stored: "wire_of_record (stored r) = wire_of_record r"
  by (simp add: wire_of_record_def stored_def)

lemma open_written:
  assumes "body_ok chain r" "er_operation r = key"
  shows "open_row key (wire_of_record r) = Inr (stored r)"
proof -
  have "record_from_wire (wire_of_record r) = Inr (stored r)"
    using wire_round_trip [OF in_form_stored] assms wire_of_stored by (simp add: body_ok_def)
  moreover have "valid_row key (stored r)"
    using assms format_version_cases [of r] by (auto simp: valid_row_def body_ok_def)
  ultimately show ?thesis by (simp add: open_row_def)
qed

section \<open>Accounts of a store\<close>

definition account :: "chain_store \<Rightarrow> operation_id \<Rightarrow> executor_record option" where
  "account cs key =
    (case map_of (cs_operations cs) key of
       None \<Rightarrow> None
     | Some w \<Rightarrow> (case open_row key w of Inr r \<Rightarrow> Some r | Inl _ \<Rightarrow> None))"

definition current_allocation :: "chain_store \<Rightarrow> allocation" where
  "current_allocation cs =
    (case cs_allocation cs of None \<Rightarrow> default_allocation | Some a \<Rightarrow> a)\<lparr>al_version := ALLOCATION_VERSION\<rparr>"

text \<open>Every index given out lies below the counter, and below the spare's.\<close>

definition index_below :: "allocation \<Rightarrow> u32 \<Rightarrow> bool" where
  "index_below a index \<longleftrightarrow>
    index < al_next_index a \<and> (case al_spare a of None \<Rightarrow> True | Some spare \<Rightarrow> index < sx_index spare)"

definition store_ok :: "u64 \<Rightarrow> chain_store \<Rightarrow> bool" where
  "store_ok chain cs \<longleftrightarrow>
    distinct (map fst (cs_operations cs))
    \<and> (\<forall>key \<in> set (map fst (cs_operations cs)). account cs key \<noteq> None)
    \<and> (\<forall>key r. account cs key = Some r \<longrightarrow>
        record_ok chain r \<and> er_operation r = key \<and> index_below (current_allocation cs) (er_index r))
    \<and> (\<forall>key key' r r'. account cs key = Some r \<and> account cs key' = Some r' \<and> er_index r = er_index r'
        \<longrightarrow> key = key')
    \<and> (case cs_allocation cs of None \<Rightarrow> True | Some a \<Rightarrow> allocation_valid a)"

definition vault_ok :: "vault \<Rightarrow> bool" where
  "vault_ok v \<longleftrightarrow> (\<forall>chain. store_ok chain (v chain))"

lemma account_put:
  assumes "body_ok chain r" "er_operation r = key"
  shows "account (put_row (OperationRow key r) cs) = (account cs)(key \<mapsto> stored r)"
  using open_written [OF assms] by (auto simp: account_def AList.update_conv' fun_eq_iff)

lemma account_allocation [simp]: "account (put_row (AllocationRow a) cs) = account cs"
  by (simp add: account_def fun_eq_iff)

lemma current_put [simp]:
  "current_allocation (put_row (OperationRow key r) cs) = current_allocation cs"
  "current_allocation (put_row (AllocationRow a) cs) = a\<lparr>al_version := ALLOCATION_VERSION\<rparr>"
  by (simp_all add: current_allocation_def)

lemma current_fields [simp]:
  "al_version (current_allocation cs) = ALLOCATION_VERSION"
  by (simp add: current_allocation_def)

lemma store_okD:
  assumes "store_ok chain cs"
  shows "distinct (map fst (cs_operations cs))"
    "key \<in> set (map fst (cs_operations cs)) \<Longrightarrow> account cs key \<noteq> None"
    "account cs key = Some r \<Longrightarrow> record_ok chain r"
    "account cs key = Some r \<Longrightarrow> er_operation r = key"
    "account cs key = Some r \<Longrightarrow> index_below (current_allocation cs) (er_index r)"
    "account cs key = Some r \<Longrightarrow> account cs key' = Some r' \<Longrightarrow> er_index r = er_index r' \<Longrightarrow> key = key'"
    "cs_allocation cs = Some a \<Longrightarrow> allocation_valid a"
  using assms unfolding store_ok_def by (blast, blast, blast, blast, blast, blast, simp)

lemma store_okI:
  assumes "distinct (map fst (cs_operations cs))"
    "\<And>key. key \<in> set (map fst (cs_operations cs)) \<Longrightarrow> account cs key \<noteq> None"
    "\<And>key r. account cs key = Some r \<Longrightarrow> record_ok chain r"
    "\<And>key r. account cs key = Some r \<Longrightarrow> er_operation r = key"
    "\<And>key r. account cs key = Some r \<Longrightarrow> index_below (current_allocation cs) (er_index r)"
    "\<And>key key' r r'. account cs key = Some r \<Longrightarrow> account cs key' = Some r' \<Longrightarrow> er_index r = er_index r' \<Longrightarrow> key = key'"
    "\<And>a. cs_allocation cs = Some a \<Longrightarrow> allocation_valid a"
  shows "store_ok chain cs"
  using assms unfolding store_ok_def by (auto split: option.split)

lemma put_row_parts [simp]:
  "cs_operations (put_row (AllocationRow a) cs) = cs_operations cs"
  "cs_allocation (put_row (AllocationRow a) cs) = Some a"
  "cs_allocation (put_row (OperationRow key r) cs) = cs_allocation cs"
  "fst ` set (cs_operations (put_row (OperationRow key r) cs)) = insert key (fst ` set (cs_operations cs))"
  "distinct (map fst (cs_operations cs)) \<Longrightarrow> distinct (map fst (cs_operations (put_row (OperationRow key r) cs)))"
  by (simp_all add: dom_update distinct_update)

lemma put_commute:
  "put_row (AllocationRow a) (put_row (OperationRow key r) cs) = put_row (OperationRow key r) (put_row (AllocationRow a) cs)"
  by simp

declare put_row.simps [simp del]

section \<open>Reading a good store\<close>

lemma record_of_ok: "store_ok chain cs \<Longrightarrow> record_of operation cs = Inr (account cs operation)"
proof -
  assume ok: "store_ok chain cs"
  show ?thesis
  proof (cases "map_of (cs_operations cs) operation")
    case None
    then show ?thesis by (simp add: record_of_def account_def)
  next
    case (Some w)
    then have "operation \<in> set (map fst (cs_operations cs))" by (force dest: map_of_SomeD)
    then have "account cs operation \<noteq> None" using store_okD(2) [OF ok] by blast
    then show ?thesis using Some by (auto simp: record_of_def account_def split: sum.splits)
  qed
qed

lemma found_record_ok:
  "store_ok chain cs \<Longrightarrow> found_record operation cs = ok_or (account cs operation) OperationMismatch"
  by (simp add: found_record_def record_of_ok)

lemma open_rows_all:
  "(\<And>key w. (key, w) \<in> set xs \<Longrightarrow> open_row key w = Inr (f key w)) \<Longrightarrow> open_rows xs = Inr (map (\<lambda>(key, w). f key w) xs)"
  by (induction xs rule: open_rows.induct) auto

lemma records_ok:
  assumes "store_ok chain cs"
  obtains rs where "records cs = Inr rs" "\<And>r. r \<in> set rs \<longleftrightarrow> account cs (er_operation r) = Some r"
    "distinct (map er_operation rs)"
proof -
  define f where "f = (\<lambda>key (w :: executor_record_wire). the (account cs key))"
  have opened: "open_row key w = Inr (f key w) \<and> account cs key = Some (f key w)"
    if "(key, w) \<in> set (cs_operations cs)" for key w
  proof -
    have "map_of (cs_operations cs) key = Some w" using that store_okD(1) [OF assms] by (simp add: map_of_is_SomeI)
    moreover have "account cs key \<noteq> None" using that store_okD(2) [OF assms] by force
    ultimately show ?thesis by (auto simp: account_def f_def split: sum.splits)
  qed
  define xs where "xs = sort_key fst (cs_operations cs)"
  define rs where "rs = map (\<lambda>(key, w). f key w) xs"
  have "open_rows xs = Inr rs" using opened by (auto simp: rs_def xs_def intro!: open_rows_all)
  then have "records cs = Inr (sort_key er_index rs)" by (simp add: records_def xs_def)
  moreover have "r \<in> set (sort_key er_index rs) \<longleftrightarrow> account cs (er_operation r) = Some r" for r
  proof
    assume "r \<in> set (sort_key er_index rs)"
    then obtain key w where "(key, w) \<in> set (cs_operations cs)" "r = f key w" by (auto simp: rs_def xs_def)
    then show "account cs (er_operation r) = Some r" using opened store_okD(4) [OF assms] by metis
  next
    assume found: "account cs (er_operation r) = Some r"
    then obtain w where "map_of (cs_operations cs) (er_operation r) = Some w" by (auto simp: account_def split: option.splits)
    then have "(er_operation r, w) \<in> set (cs_operations cs)" by (rule map_of_SomeD)
    moreover have "f (er_operation r) w = r" using found by (simp add: f_def)
    ultimately show "r \<in> set (sort_key er_index rs)" by (force simp: rs_def xs_def)
  qed
  moreover have "map er_operation rs = map fst xs"
    using opened store_okD(4) [OF assms] by (auto simp: rs_def xs_def)
  then have "mset (map er_operation (sort_key er_index rs)) = mset (map fst (cs_operations cs))"
    by (metis mset_map mset_sort xs_def)
  then have "distinct (map er_operation (sort_key er_index rs))"
    using store_okD(1) [OF assms] by (metis mset_eq_imp_distinct_iff)
  ultimately show thesis using that by blast
qed

lemma index_succ:
  assumes "index < INDEX_LIMIT"
  shows "index < index + 1" "index + 1 \<le> INDEX_LIMIT"
proof -
  have "unat index < 2 ^ 31" using assms by (simp add: INDEX_LIMIT_def word_less_nat_alt)
  then have "unat (index + 1) = unat index + 1" by (simp add: unat_word_ariths)
  then show "index < index + 1" "index + 1 \<le> INDEX_LIMIT"
    using assms by (simp_all add: INDEX_LIMIT_def word_less_nat_alt word_le_nat_alt)
qed

lemma index_bounded: "index < INDEX_LIMIT \<Longrightarrow> index + 1 \<le> bound \<longleftrightarrow> index < bound"
  using index_succ(1) [of index] by (metis (no_types) inc_le order_less_le_trans)

lemma record_index: "store_ok chain cs \<Longrightarrow> account cs key = Some r \<Longrightarrow> er_index r < INDEX_LIMIT"
  using store_okD(3) by (auto simp: record_ok_def body_ok_def)

lemma default_valid: "allocation_valid default_allocation"
  by (simp add: allocation_valid_def default_allocation_def ALLOCATION_VERSION_def LEGACY_VERSION_def)

lemma current_valid: "store_ok chain cs \<Longrightarrow> allocation_valid (current_allocation cs)"
  using store_okD(7) [of chain cs] default_valid
  by (cases "cs_allocation cs")
    (auto simp: current_allocation_def allocation_valid_def ALLOCATION_VERSION_def LEGACY_VERSION_def
      split: option.splits)

lemma fold_max_below:
  "(\<And>x. x \<in> set xs \<Longrightarrow> f x \<le> n) \<Longrightarrow> fold (\<lambda>x n. max n (f x)) xs n = (n :: u32)"
  by (induction xs) (simp_all add: max_absorb1)

lemma load_allocation_ok:
  assumes "store_ok chain cs"
  shows "load_allocation env cs = (Inr (current_allocation cs), cs)"
proof -
  obtain rs where rs: "records cs = Inr rs" "\<And>r. r \<in> set rs \<longleftrightarrow> account cs (er_operation r) = Some r"
    by (rule records_ok [OF assms]) blast
  have below: "index_below (current_allocation cs) (er_index r)" "er_index r < INDEX_LIMIT" if "r \<in> set rs" for r
    using that rs(2) store_okD(5) [OF assms] record_index [OF assms] by blast+
  let ?stored = "case cs_allocation cs of None \<Rightarrow> default_allocation | Some a \<Rightarrow> a"
  have valid: "allocation_valid ?stored" using store_okD(7) [OF assms] default_valid by (auto split: option.split)
  have fields: "al_next_index (current_allocation cs) = al_next_index ?stored"
    "al_spare (current_allocation cs) = al_spare ?stored"
    by (simp_all add: current_allocation_def)
  have next_kept: "fold (\<lambda>r n. max n (er_index r + 1)) rs (al_next_index ?stored) = al_next_index ?stored"
    using below fields by (auto intro!: fold_max_below simp: index_below_def index_bounded)
  have "\<not> list_ex (\<lambda>r. sx_index spare \<le> er_index r) rs" if "al_spare ?stored = Some spare" for spare
    using below(1) fields that by (auto simp: list_ex_iff index_below_def not_le)
  then show ?thesis
    using valid rs(1) next_kept
    by (cases "al_spare ?stored") (auto simp: load_allocation_def Let_def current_allocation_def)
qed

lemma put_rows_simps [simp]: "put_rows [] cs = cs" "put_rows (row # rows) cs = put_rows rows (put_row row cs)"
  "put_rows (rows @ rows') cs = put_rows rows' (put_rows rows cs)"
  by (simp_all add: put_rows_def)

lemma blank_body [simp]: "index < INDEX_LIMIT \<Longrightarrow> body_ok chain (blank_record operation index address delegate)"
  "er_index (blank_record operation index address delegate) = index"
  "er_operation (blank_record operation index address delegate) = operation"
  "er_issued (blank_record operation index address delegate) = []"
  by (simp_all add: body_ok_def blank_record_def swap_identified_def)

section \<open>Allocating accounts\<close>

lemma ordinary_index_bounds:
  assumes "ordinary_index n = Inr index"
  shows "n \<le> index" "index < INDEX_LIMIT" "\<not> (POSITION_START \<le> index \<and> index \<le> POSITION_END)"
    "ordinary_index index = Inr index"
proof -
  have "n \<le> (1000064 :: u32)" if "n \<le> (1000063 :: u32)" using that by (rule order_trans) simp
  then show "n \<le> index" "index < INDEX_LIMIT" "\<not> (POSITION_START \<le> index \<and> index \<le> POSITION_END)"
    "ordinary_index index = Inr index"
    using assms by (auto simp: ordinary_index_def Let_def POSITION_START_def POSITION_END_def not_le split: if_splits)
qed

lemma displaced_cases:
  assumes "displace_spare env P a = Inr (a1, rows)"
  obtains (kept) "a1 = a" "rows = []" "\<And>spare. al_spare a = Some spare \<Longrightarrow> \<not> P spare"
  | (displaced) spare key where "al_spare a = Some spare" "P spare" "se_random env 0 = Some key" "a1 = a\<lparr>al_spare := None\<rparr>"
      "rows = [OperationRow key (blank_record key (sx_index spare) (sx_address spare) (sx_delegate spare))]"
  using assms by (auto simp: displace_spare_def retain_spare_def split: option.splits if_splits)

lemma retain_is_displace: "retain_spare env a = displace_spare env (\<lambda>_. True) a"
  by (simp add: displace_spare_def retain_spare_def split: option.split)

text \<open>A drawn identifier is not in use.\<close>

definition unused :: "chain_store \<Rightarrow> operation_id option \<Rightarrow> bool" where
  "unused cs drawn = (case drawn of None \<Rightarrow> True | Some key \<Rightarrow> account cs key = None)"

text \<open>
  A fresh account. \<open>allocate_record\<close> writes nothing itself; its rows are the allocation's and then the
  record, whose index no account has.
\<close>

definition free_index :: "chain_store \<Rightarrow> u32 \<Rightarrow> bool" where
  "free_index cs index \<longleftrightarrow> (\<forall>key r. account cs key = Some r \<longrightarrow> er_index r \<noteq> index)"

definition new_record_ok :: "u64 \<Rightarrow> operation_id \<Rightarrow> (swap_use_id \<times> swap_use_role) option \<Rightarrow> executor_record \<Rightarrow> bool" where
  "new_record_ok chain operation first_use r \<longleftrightarrow>
    er_operation r = operation \<and> er_version r = format_version r \<and> er_origin r = Reserved \<and> \<not> er_retired r
    \<and> er_issued r = [] \<and> er_swap r = None \<and> er_index r < INDEX_LIMIT
    \<and> ordinary_index (er_index r) = Inr (er_index r)
    \<and> map (\<lambda>u. (su_id u, su_role u)) (er_swap_uses r) = (case first_use of None \<Rightarrow> [] | Some u \<Rightarrow> [u])
    \<and> er_active_swap_use r = map_option fst first_use"

lemma new_record_body:
  assumes "new_record_ok chain operation first_use r"
    and "\<And>use role. first_use = Some (use, role) \<Longrightarrow> role_ok chain [] role"
  shows "body_ok chain r"
proof (cases first_use)
  case None
  then show ?thesis using assms(1) by (simp add: body_ok_def new_record_ok_def swap_identified_def)
next
  case (Some p)
  then obtain u where u: "er_swap_uses r = [u]" "su_role u = snd p"
    using assms(1) by (auto simp: new_record_ok_def)
  then have "role_ok chain [] (su_role u)" using assms(2) [of "fst p" "snd p"] Some by simp
  then show ?thesis using assms(1) u(1) by (simp add: body_ok_def new_record_ok_def swap_identified_def)
qed

section \<open>Writes that keep the accounts\<close>

text \<open>
  The contract of a relation between a record and what it becomes. It relates a record to every later
  one that continues it with the same reservations, and never forgets that a record is continued. \<open>N\<close>
  is what a new record and all that becomes of it satisfies.
\<close>

locale record_relation =
  fixes R :: "executor_record \<Rightarrow> executor_record \<Rightarrow> bool"
    and N :: "executor_record \<Rightarrow> bool"
  assumes related_quiet: "continues r s \<Longrightarrow> same_reservations r s \<Longrightarrow> R r s"
    and related_trans: "R r s \<Longrightarrow> R s t \<Longrightarrow> R r t"
    and related_continues: "R r s \<Longrightarrow> continues r s"
    and new_unissued: "er_issued r = [] \<Longrightarrow> N r"
    and new_related: "N r \<Longrightarrow> R r s \<Longrightarrow> N s"
begin

definition evolves :: "u64 \<Rightarrow> executor_record \<Rightarrow> executor_record \<Rightarrow> bool" where
  "evolves chain r s \<longleftrightarrow> (body_ok chain r \<longrightarrow> body_ok chain s) \<and> R r s"

text \<open>The store stays good, and every account goes on in it.\<close>

definition keeps :: "u64 \<Rightarrow> chain_store \<Rightarrow> chain_store \<Rightarrow> bool" where
  "keeps chain cs cs' \<longleftrightarrow>
    store_ok chain cs' \<and> (\<forall>key r. account cs key = Some r \<longrightarrow> (\<exists>s. account cs' key = Some s \<and> R r s))
    \<and> (\<forall>key s. account cs key = None \<longrightarrow> account cs' key = Some s \<longrightarrow> N s)"

lemma related_refl [simp]: "R r r"
  by (simp add: related_quiet same_reservations_def)

lemma related_stored [simp]: "R r (stored s) = R r s"
proof -
  have "R s (stored s)" "R (stored s) s" by (simp_all add: related_quiet)
  then show ?thesis using related_trans by blast
qed

lemma evolves_refl [simp]: "evolves chain r r"
  by (simp add: evolves_def)

lemma evolves_trans: "evolves chain r s \<Longrightarrow> evolves chain s t \<Longrightarrow> evolves chain r t"
  using related_trans by (auto simp: evolves_def)

lemma evolves_stored [simp]: "evolves chain r (stored s) = evolves chain r s"
  by (simp add: evolves_def)

lemma evolves_continues: "evolves chain r s \<Longrightarrow> continues r s"
  by (simp add: evolves_def related_continues)

lemma evolves_quiet:
  "(body_ok chain r \<Longrightarrow> body_ok chain s) \<Longrightarrow> continues r s \<Longrightarrow> same_reservations r s \<Longrightarrow> evolves chain r s"
  by (simp add: evolves_def related_quiet)

lemma keeps_refl: "store_ok chain cs \<Longrightarrow> keeps chain cs cs"
  by (simp add: keeps_def)

lemma keeps_trans:
  assumes "keeps chain cs cs1" "keeps chain cs1 cs2"
  shows "keeps chain cs cs2"
proof -
  have "\<exists>t. account cs2 key = Some t \<and> R r t" if "account cs key = Some r" for key r
    using assms that related_trans unfolding keeps_def by meson
  moreover have "N t" if "account cs key = None" "account cs2 key = Some t" for key t
  proof (cases "account cs1 key")
    case None
    then show ?thesis using assms(2) that(2) unfolding keeps_def by blast
  next
    case (Some s)
    then have "N s" "R s t" using assms that unfolding keeps_def by force+
    then show ?thesis by (rule new_related)
  qed
  ultimately show ?thesis using assms(2) unfolding keeps_def by blast
qed

lemma keepsD: "keeps chain cs cs' \<Longrightarrow> store_ok chain cs'"
  by (simp add: keeps_def)

lemma keeps_index:
  assumes "keeps chain cs cs'" "account cs key = Some r"
  obtains s where "account cs' key = Some s" "er_index s = er_index r"
  using assms related_continues unfolding keeps_def continues_def by metis

lemma put_operation:
  assumes ok: "store_ok chain cs" and r: "body_ok chain r" "er_operation r = key"
    and index: "index_below (current_allocation cs) (er_index r)"
    and only: "\<And>key' r'. key' \<noteq> key \<Longrightarrow> account cs key' = Some r' \<Longrightarrow> er_index r' \<noteq> er_index r"
    and goes_on: "\<And>old. account cs key = Some old \<Longrightarrow> R old r"
    and issued: "account cs key = None \<Longrightarrow> er_issued r = []"
  shows "keeps chain cs (put_row (OperationRow key r) cs)"
proof -
  let ?cs = "put_row (OperationRow key r) cs"
  note acc = account_put [OF r, of cs]
  have "store_ok chain ?cs"
  proof (rule store_okI)
    show "distinct (map fst (cs_operations ?cs))" using store_okD(1) [OF ok] by simp
    show "account ?cs k \<noteq> None" if "k \<in> set (map fst (cs_operations ?cs))" for k
      using that acc store_okD(2) [OF ok] by auto
    show "record_ok chain s" if "account ?cs k = Some s" for k s
      using that acc r store_okD(3) [OF ok] by (auto split: if_splits)
    show "er_operation s = k" if "account ?cs k = Some s" for k s
      using that acc r store_okD(4) [OF ok] by (auto split: if_splits)
    show "index_below (current_allocation ?cs) (er_index s)" if "account ?cs k = Some s" for k s
      using that acc index store_okD(5) [OF ok] by (auto split: if_splits)
    show "k = k'" if "account ?cs k = Some s" "account ?cs k' = Some s'" "er_index s = er_index s'" for k k' s s'
    proof -
      have "\<not> (k = key \<and> k' \<noteq> key)" "\<not> (k \<noteq> key \<and> k' = key)"
        using that acc only [of k' s'] only [of k s] by (auto split: if_splits)
      then show ?thesis using that acc store_okD(6) [OF ok] by (auto split: if_splits)
    qed
    show "allocation_valid a" if "cs_allocation ?cs = Some a" for a
      using that store_okD(7) [OF ok] by simp
  qed
  then show ?thesis using acc goes_on issued by (auto simp: keeps_def new_unissued split: if_splits)
qed

lemma put_known:
  assumes ok: "store_ok chain cs" and known: "account cs key = Some old" and r: "evolves chain old r"
  shows "keeps chain cs (put_row (OperationRow key r) cs)"
proof (rule put_operation [OF ok])
  have same: "er_operation r = er_operation old" "er_index r = er_index old" "R old r"
    using r evolves_continues [OF r] by (auto simp: evolves_def continues_def)
  show "body_ok chain r" using r store_okD(3) [OF ok known] by (simp add: evolves_def record_ok_def)
  show "er_operation r = key" using same store_okD(4) [OF ok known] by simp
  show "index_below (current_allocation cs) (er_index r)" using same store_okD(5) [OF ok known] by simp
  show "er_index r' \<noteq> er_index r" if "key' \<noteq> key" "account cs key' = Some r'" for key' r'
    using that same store_okD(6) [OF ok that(2) known] by auto
  show "R old' r" if "account cs key = Some old'" for old' using that known same by simp
  show "er_issued r = []" if "account cs key = None" using that known by simp
qed

lemma put_allocation:
  assumes ok: "store_ok chain cs" and a: "allocation_valid a"
    and index: "\<And>key r. account cs key = Some r \<Longrightarrow> index_below a (er_index r)"
  shows "keeps chain cs (put_row (AllocationRow a) cs)"
proof -
  have "store_ok chain (put_row (AllocationRow a) cs)"
    using store_okD [OF ok] a index by (intro store_okI) (auto simp: index_below_def)
  then show ?thesis by (auto simp: keeps_def)
qed

text \<open>
  The write of a raised counter with the displaced spare's record. The counter's indices from
  \<open>al_next_index a\<close> on stay free.
\<close>

lemma put_displaced:
  assumes ok: "store_ok chain cs" and moved: "displace_spare env P a = Inr (a1, rows)"
    and fresh: "unused cs (se_random env 0)"
    and a: "al_spare a = al_spare (current_allocation cs)" "al_next_index (current_allocation cs) \<le> al_next_index a"
    and a2: "allocation_valid a2" "al_next_index a \<le> al_next_index a2"
      "\<forall>spare. al_spare a2 = Some spare \<longrightarrow> al_spare a1 = Some spare \<or> al_next_index a \<le> sx_index spare"
  defines "cs1 \<equiv> put_rows (rows @ [AllocationRow a2]) cs"
  shows "keeps chain cs cs1"
    "account cs1 key = Some r \<Longrightarrow> er_index r < al_next_index a \<and> (\<forall>spare. al_spare a1 = Some spare \<longrightarrow> er_index r < sx_index spare)"
    "account cs1 key \<noteq> account cs key \<Longrightarrow> se_random env 0 = Some key"
    "current_allocation cs1 = a2\<lparr>al_version := ALLOCATION_VERSION\<rparr>"
proof -
  have current: "allocation_valid (current_allocation cs)" by (rule current_valid [OF ok])
  have old: "er_index r < al_next_index a" "al_spare a = Some spare \<Longrightarrow> er_index r < sx_index spare"
    if "account cs key = Some r" for key r spare
    using store_okD(5) [OF ok that] a by (auto simp: index_below_def)
  have "keeps chain cs cs1
    \<and> (\<forall>key r. account cs1 key = Some r \<longrightarrow>
        er_index r < al_next_index a \<and> (\<forall>spare. al_spare a1 = Some spare \<longrightarrow> er_index r < sx_index spare))
    \<and> (\<forall>key. account cs1 key \<noteq> account cs key \<longrightarrow> se_random env 0 = Some key)
    \<and> current_allocation cs1 = a2\<lparr>al_version := ALLOCATION_VERSION\<rparr>"
    using moved
  proof (cases rule: displaced_cases)
    case kept
    have "index_below a2 (er_index r)" if "account cs key = Some r" for key r
      using old [OF that] a2(2,3) kept by (auto simp: index_below_def split: option.split)
    then have "keeps chain cs cs1" using put_allocation [OF ok a2(1)] kept by (simp add: cs1_def)
    then show ?thesis using old kept by (auto simp: cs1_def)
  next
    case (displaced spare k)
    let ?new = "blank_record k (sx_index spare) (sx_address spare) (sx_delegate spare)"
    have spare: "sx_index spare < al_next_index a" "sx_index spare < INDEX_LIMIT"
      using current displaced(1) a by (auto simp: allocation_valid_def split: option.splits)
    let ?cs = "put_row (AllocationRow a2) cs"
    have cs1: "cs1 = put_row (OperationRow k ?new) ?cs"
      using displaced by (simp add: cs1_def put_commute)
    have later: "al_next_index a \<le> sx_index s" if "al_spare a2 = Some s" for s
      using a2(3) that displaced by simp
    have "index_below a2 (er_index r)" if "account cs key = Some r" for key r
      using old(1) [OF that] a2(2) later by (fastforce simp: index_below_def split: option.split)
    then have first: "keeps chain cs ?cs" by (rule put_allocation [OF ok a2(1)])
    have "keeps chain ?cs cs1" unfolding cs1
    proof (rule put_operation [OF keepsD [OF first]])
      show "index_below (current_allocation ?cs) (er_index ?new)"
        using spare a2(2) later by (fastforce simp: index_below_def split: option.split)
      show "er_index r' \<noteq> er_index ?new" if "account ?cs key' = Some r'" for key' r'
        using that old(2) [of key' r' spare] displaced by auto
      show "R old ?new" if "account ?cs k = Some old" for old
        using that fresh displaced by (simp add: unused_def)
    qed (use spare in simp_all)
    moreover have "account cs1 = (account cs)(k \<mapsto> stored ?new)"
      using account_put [of chain ?new k ?cs] spare by (simp add: cs1)
    ultimately show ?thesis
      using first keeps_trans displaced old spare by (auto simp: cs1 split: if_splits)
  qed
  then show "keeps chain cs cs1"
    "account cs1 key = Some r \<Longrightarrow> er_index r < al_next_index a \<and> (\<forall>spare. al_spare a1 = Some spare \<longrightarrow> er_index r < sx_index spare)"
    "account cs1 key \<noteq> account cs key \<Longrightarrow> se_random env 0 = Some key"
    "current_allocation cs1 = a2\<lparr>al_version := ALLOCATION_VERSION\<rparr>"
    by blast+
qed

lemma allocate_record_ok:
  assumes ok: "store_ok chain cs" and new: "account cs operation = None"
    and fresh: "unused cs (se_random env 0)" "se_random env 0 \<noteq> Some operation"
    and run: "allocate_record env operation delegate purpose assets first_use cs = (x, cs')"
  obtains (refused) e where "cs' = cs" "x = Inl e" "e = Exhausted \<or> e = Unavailable"
  | (allocated) r rows where "cs' = cs" "x = Inr (r, rows @ [OperationRow operation r])"
      "new_record_ok chain operation first_use r" "free_index cs (er_index r)"
      "\<And>key r'. OperationRow key r' \<in> set rows \<Longrightarrow> key \<noteq> operation"
      "keeps chain cs (put_rows rows cs)"
      "\<And>key. account (put_rows rows cs) key \<noteq> account cs key \<Longrightarrow> se_random env 0 = Some key"
      "\<And>r'. body_ok chain r' \<Longrightarrow> er_operation r' = operation \<Longrightarrow> er_index r' = er_index r \<Longrightarrow> er_issued r' = []
        \<Longrightarrow> keeps chain (put_rows rows cs) (put_row (OperationRow operation r') (put_rows rows cs))"
proof -
  let ?a = "current_allocation cs"
  let ?P = "\<lambda>spare. sx_delegate spare \<noteq> delegate"
  have valid: "allocation_valid ?a" by (rule current_valid [OF ok])
  show thesis
  proof (cases "displace_spare env ?P ?a")
    case (Inl e)
    then have "cs' = cs" "x = Inl e" using run by (auto simp: allocate_record_def load_allocation_ok [OF ok] bind_outcome_def)
    moreover have "e = Unavailable" using Inl by (auto simp: displace_spare_def retain_spare_def split: option.splits if_splits)
    ultimately show thesis using refused by blast
  next
    case (Inr moved)
    obtain a1 rows where moved: "displace_spare env ?P ?a = Inr (a1, rows)" using Inr by (cases moved) auto
    define taken where "taken = (case al_spare a1 of
        Some spare \<Rightarrow> Inr (sx_index spare, sx_address spare, a1\<lparr>al_spare := None\<rparr>)
      | None \<Rightarrow> and_then (ordinary_index (al_next_index a1)) (\<lambda>index. Inr (index, None, a1\<lparr>al_next_index := index + 1\<rparr>)))"
    show thesis
    proof (cases taken)
      case (Inl e)
      then have "cs' = cs" "x = Inl e"
        using run by (auto simp: allocate_record_def load_allocation_ok [OF ok] bind_outcome_def moved taken_def)
      moreover have "e = Exhausted"
        using Inl by (auto simp: taken_def ordinary_index_def Let_def and_then_eq_Inl split: option.splits if_splits)
      ultimately show thesis using refused by blast
    next
      case (Inr t)
      then obtain index address a2 where taken: "taken = Inr (index, address, a2)" by (cases t) auto
      define r0 where "r0 = (blank_record operation index address delegate)\<lparr>er_origin := Reserved, er_retired := False,
          er_created_at := se_now env, er_purpose_summary := purpose, er_assets := assets\<rparr>"
      define r1 where "r1 = (case first_use of None \<Rightarrow> r0 | Some (use, role) \<Rightarrow> begin_first_swap_use use role r0)"
      define r where "r = r1\<lparr>er_version := format_version r1\<rparr>"
      have "(x, cs') = (Inr (r, (rows @ [AllocationRow a2]) @ [OperationRow operation r]), cs)"
        unfolding run [symmetric] allocate_record_def load_allocation_ok [OF ok] bind_outcome_def
          r_def r1_def r0_def Let_def
        using taken by (simp add: moved taken_def)
      then have result: "cs' = cs" "x = Inr (r, (rows @ [AllocationRow a2]) @ [OperationRow operation r])" by simp_all
      have a1: "al_version a1 = ALLOCATION_VERSION" "al_next_index a1 = al_next_index ?a"
        "al_spare a1 = None \<or> al_spare a1 = al_spare ?a"
        using moved by (cases rule: displaced_cases; simp)+
      have index: "index < INDEX_LIMIT" "ordinary_index index = Inr index" "index < al_next_index a2"
        "al_spare a2 = None" "al_next_index ?a \<le> al_next_index a2" "al_version a2 = ALLOCATION_VERSION"
        "al_next_index a2 \<le> INDEX_LIMIT" "al_next_index ?a \<le> index \<or> (\<exists>spare. al_spare a1 = Some spare \<and> index = sx_index spare)"
        using taken a1 valid ordinary_index_bounds [of "al_next_index a1" index] index_succ [of index]
        by (auto simp: taken_def allocation_valid_def and_then_eq_Inr split: option.splits)
      have a2: "allocation_valid a2"
        using index(4,6,7) by (simp add: allocation_valid_def ALLOCATION_VERSION_def LEGACY_VERSION_def)
      define cs1 where "cs1 = put_rows (rows @ [AllocationRow a2]) cs"
      have no_spare: "\<forall>spare. al_spare a2 = Some spare \<longrightarrow> al_spare a1 = Some spare \<or> al_next_index ?a \<le> sx_index spare"
        using index(4) by simp
      note put = put_displaced [OF ok moved fresh(1) refl order_refl a2 index(5) no_spare, folded cs1_def]
      have free: "er_index r' \<noteq> index" if "account cs1 key = Some r'" for key r'
        using put(2) [OF that] index(8) by auto
      have untouched: "account cs1 operation = None" using put(3) [of operation] new fresh(2) by metis
      have free_old: "free_index cs index"
        unfolding free_index_def using keeps_index [OF put(1)] free by metis
      show thesis
      proof (rule allocated [OF result])
        show "new_record_ok chain operation first_use r"
          using index by (auto simp: new_record_ok_def r_def r1_def r0_def begin_first_swap_use_def blank_record_def
            split: option.split)
        have same: "er_index r = index"
          by (auto simp: r_def r1_def r0_def begin_first_swap_use_def blank_record_def split: option.split)
        show "free_index cs (er_index r)" using free_old same by simp
        show "key \<noteq> operation" if "OperationRow key r' \<in> set (rows @ [AllocationRow a2])" for key r'
          using moved that fresh(2) by (cases rule: displaced_cases) auto
        show "keeps chain cs (put_rows (rows @ [AllocationRow a2]) cs)" using put(1) by (simp only: cs1_def)
        show "se_random env 0 = Some key" if "account (put_rows (rows @ [AllocationRow a2]) cs) key \<noteq> account cs key" for key
          using put(3) that by (simp only: cs1_def)
        fix r' assume r': "body_ok chain r'" "er_operation r' = operation" "er_index r' = er_index r" "er_issued r' = []"
        have "keeps chain cs1 (put_row (OperationRow operation r') cs1)"
        proof (rule put_operation [OF keepsD [OF put(1)] r'(1,2)])
          show "index_below (current_allocation cs1) (er_index r')"
            using index r'(3) same put(4) by (simp add: index_below_def)
          show "er_index s \<noteq> er_index r'" if "account cs1 key' = Some s" for key' s
            using free [OF that] r'(3) same by simp
        qed (use untouched r'(4) in simp_all)
        then show "keeps chain (put_rows (rows @ [AllocationRow a2]) cs)
          (put_row (OperationRow operation r') (put_rows (rows @ [AllocationRow a2]) cs))" by (simp only: cs1_def)
      qed
    qed
  qed
qed

end

end
