(* ===== verification/ExecutorOperations.thy ===== *)
theory ExecutorOperations
  imports ExecutorInvariants
begin

text \<open>
  The operations of the executor store keep its accounts (\<open>keeps\<close>), and one that is refused leaves the
  store as it was and never finds an undecodable or invalid row (\<open>fine\<close>). What holds for every relation
  that allows quiet changes is shown in the locale \<open>record_relation\<close>: the operations on the allocation and
  those that leave a record's payloads and nonces alone. The others are shown for \<open>continues\<close>.
\<close>

section \<open>Changes that leave payloads and nonces alone\<close>

definition store_fault :: "store_error \<Rightarrow> bool" where
  "store_fault e = (case e of InvalidRecord \<Rightarrow> True | Decode _ \<Rightarrow> True | _ \<Rightarrow> False)"

lemma store_fault_simps [simp]:
  "store_fault InvalidRecord" "store_fault (Decode d)" "\<not> store_fault Unavailable" "\<not> store_fault Exhausted"
  "\<not> store_fault OperationMismatch" "\<not> store_fault OutstandingNonce" "\<not> store_fault InputReserved"
  "\<not> store_fault SwapUseActive" "\<not> store_fault SwapAttemptOutstanding" "\<not> store_fault SwapSpeedUpRefused"
  "\<not> store_fault SwapUseTermsChanged" "\<not> store_fault PublicSwapSourceShared"
  "\<not> store_fault (PublicSwapBuysSameToken use c until)" "\<not> store_fault (PublicSwapSellsSameToken use c until)"
  by (simp_all add: store_fault_def)

definition public_role :: "swap_use_role \<Rightarrow> bool" where
  "public_role role = (case role of PublicSourceDestination _ _ _ _ _ _ \<Rightarrow> True | _ \<Rightarrow> False)"

lemma role_ok_more:
  "role_ok chain hashes role \<Longrightarrow> set hashes \<subseteq> set hashes' \<Longrightarrow> role_ok chain hashes' role"
  by (auto simp: role_ok_def delivery_ok_def split: swap_use_role.splits)

lemma update_use_ids:
  "(\<And>u. su_id (f u) = su_id u) \<Longrightarrow> map su_id (update_use use f us) = map su_id us"
  by (induction us) auto

lemma update_use_all:
  "(\<And>u. u \<in> set us \<Longrightarrow> P u \<Longrightarrow> P (f u)) \<Longrightarrow> list_all P us \<Longrightarrow> list_all P (update_use use f us)"
  by (induction us) auto

lemma update_use_facts:
  assumes "\<And>u. u \<in> set us \<Longrightarrow> su_id u = use
      \<Longrightarrow> su_id (f u) = su_id u \<and> set (use_facts (su_role u)) \<subseteq> set (use_facts (su_role (f u)))"
  shows "facts_of us \<subseteq> facts_of (update_use use f us)"
  using assms
proof (induction us)
  case (Cons u us)
  have "facts_of us \<subseteq> facts_of (update_use use f us)" using Cons by simp
  then show ?case using Cons.prems [of u] by auto
qed simp

text \<open>A change of one use that keeps it good and what is recorded of it for good.\<close>

definition use_change :: "u64 \<Rightarrow> b256 list \<Rightarrow> (swap_use_record \<Rightarrow> swap_use_record) \<Rightarrow> swap_use_record \<Rightarrow> bool" where
  "use_change chain hashes f u \<longleftrightarrow>
    su_id (f u) = su_id u \<and> (role_ok chain hashes (su_role u) \<longrightarrow> role_ok chain hashes (su_role (f u)))
    \<and> set (use_facts (su_role u)) \<subseteq> set (use_facts (su_role (f u)))"

lemma use_body:
  assumes ids: "\<And>u. su_id (f u) = su_id u"
    and change: "\<And>u. u \<in> set (er_swap_uses r) \<Longrightarrow> su_id u = use \<Longrightarrow> use_change chain (map ip_hash (er_issued r)) f u"
    and body: "body_ok chain r"
  shows "body_ok chain (r\<lparr>er_swap_uses := update_use use f (er_swap_uses r)\<rparr>)"
proof -
  let ?ok = "\<lambda>u. role_ok chain (map ip_hash (er_issued r)) (su_role u)"
  have "list_all ?ok us \<Longrightarrow> set us \<subseteq> set (er_swap_uses r) \<Longrightarrow> list_all ?ok (update_use use f us)" for us
    using change by (induction us) (auto simp: use_change_def)
  then have "list_all ?ok (update_use use f (er_swap_uses r))" using body by (simp add: body_ok_def)
  then show ?thesis using body update_use_ids [of f, OF ids] by (simp add: body_ok_def swap_identified_def)
qed

lemma use_continues:
  assumes "\<And>u. u \<in> set (er_swap_uses r) \<Longrightarrow> su_id u = use \<Longrightarrow> use_change chain hashes f u"
  shows "continues r (r\<lparr>er_swap_uses := update_use use f (er_swap_uses r)\<rparr>)"
    "same_reservations r (r\<lparr>er_swap_uses := update_use use f (er_swap_uses r)\<rparr>)"
proof -
  have "facts_of (er_swap_uses r) \<subseteq> facts_of (update_use use f (er_swap_uses r))"
    using assms by (intro update_use_facts) (simp add: use_change_def)
  then show "continues r (r\<lparr>er_swap_uses := update_use use f (er_swap_uses r)\<rparr>)"
    "same_reservations r (r\<lparr>er_swap_uses := update_use use f (er_swap_uses r)\<rparr>)"
    by (simp_all add: continues_def same_reservations_def)
qed

lemma find_None_hash: "find (\<lambda>q. ip_hash q = h) ps = None \<longleftrightarrow> h \<notin> ip_hash ` set ps"
  by (induction ps) auto

lemma displace_fault: "displace_spare env P a = Inl e \<Longrightarrow> \<not> store_fault e"
  by (auto simp: displace_spare_def retain_spare_def split: option.splits if_splits)

lemma current_bounds:
  assumes "store_ok chain cs"
  shows "al_next_index (current_allocation cs) \<le> INDEX_LIMIT"
    "al_spare (current_allocation cs) = Some spare \<Longrightarrow> sx_index spare < al_next_index (current_allocation cs)
      \<and> ordinary_index (sx_index spare) = Inr (sx_index spare)"
  using current_valid [OF assms] by (auto simp: allocation_valid_def)

lemma displaced_fields:
  assumes "displace_spare env P a = Inr (a1, rows)"
  shows "al_version a1 = al_version a" "al_next_index a1 = al_next_index a" "al_spare a1 = None \<or> al_spare a1 = al_spare a"
    "al_spare a1 = Some spare \<Longrightarrow> al_spare a = Some spare \<and> \<not> P spare"
  using assms by (cases rule: displaced_cases; auto)+

lemma take_spare_displaces:
  assumes "take_spare_at env chain index address delegate a = Inr (delegate1, a1, rows)"
  obtains (other) P where "displace_spare env P a = Inr (a1, rows)"
      "\<And>spare. al_spare a1 = Some spare \<Longrightarrow> index < sx_index spare"
  | (spare) spare where "al_spare a = Some spare" "sx_index spare = index" "a1 = a\<lparr>al_spare := None\<rparr>" "rows = []"
proof (cases "\<exists>spare. al_spare a = Some spare \<and> sx_index spare = index")
  case True
  then show thesis using assms spare by (auto simp: take_spare_at_def split: if_splits)
next
  case False
  let ?P = "\<lambda>spare. sx_index spare < index"
  have moved: "displace_spare env ?P a = Inr (a1, rows)"
    using assms False by (auto simp: take_spare_at_def displace_spare_def and_then_eq_Inr split: option.splits if_splits)
  moreover have "index < sx_index spare" if "al_spare a1 = Some spare" for spare
    using displaced_fields(4) [OF moved that] False by auto
  ultimately show thesis using other by blast
qed

lemma take_spare_fault: "take_spare_at env chain index address delegate a = Inl e \<Longrightarrow> \<not> store_fault e"
  using displace_fault
  by (auto simp: take_spare_at_def retain_is_displace and_then_eq_Inl split: option.splits if_splits)

context record_relation
begin

definition fine :: "u64 \<Rightarrow> chain_store \<Rightarrow> ('a, chain_store) outcome \<Rightarrow> bool" where
  "fine chain cs out \<longleftrightarrow>
    keeps chain cs (snd out) \<and> (\<forall>e. fst out = Inl e \<longrightarrow> snd out = cs \<and> \<not> store_fault e)"

definition change_fine :: "u64 \<Rightarrow> executor_record \<Rightarrow> store_error + executor_record \<Rightarrow> bool" where
  "change_fine chain r result =
    (case result of Inl e \<Rightarrow> \<not> store_fault e | Inr r' \<Rightarrow> evolves chain r r')"

lemma fine_refused: "store_ok chain cs \<Longrightarrow> \<not> store_fault e \<Longrightarrow> fine chain cs (Inl e, cs)"
  by (simp add: fine_def keeps_refl)

lemma fine_accepted: "keeps chain cs cs' \<Longrightarrow> fine chain cs (Inr x, cs')"
  by (simp add: fine_def)

lemma fine_guarded: "store_ok chain cs \<Longrightarrow> fine chain cs (f cs) \<Longrightarrow> fine chain cs (guarded env f cs)"
  by (simp add: guarded_def fine_refused)

lemma update_record_fine:
  assumes ok: "store_ok chain cs"
    and change: "\<And>r. account cs operation = Some r \<Longrightarrow> record_ok chain r \<Longrightarrow> change_fine chain r (change cs r)"
  shows "fine chain cs (update_record env operation change cs)"
proof (cases "account cs operation")
  case None
  then show ?thesis
    by (simp add: update_record_def guarded_def record_of_ok [OF ok] fine_refused [OF ok])
next
  case (Some r)
  note fine = change [OF Some store_okD(3) [OF ok Some]]
  show ?thesis
  proof (cases "change cs r")
    case (Inl e)
    then show ?thesis using fine
      by (simp add: update_record_def guarded_def record_of_ok [OF ok] Some fine_refused [OF ok] change_fine_def)
  next
    case (Inr r1)
    then have "evolves chain r (stored r1)" using fine by (simp add: change_fine_def)
    then have "keeps chain cs (put_row (OperationRow operation (stored r1)) cs)" by (rule put_known [OF ok Some])
    then show ?thesis using Inr
      by (simp add: update_record_def guarded_def record_of_ok [OF ok] Some fine_refused [OF ok] fine_accepted
        Let_def stored_def)
  qed
qed

text \<open>Operations that take evidence may refuse it with \<open>InvalidRecord\<close>.\<close>

definition harmless_change :: "u64 \<Rightarrow> executor_record \<Rightarrow> store_error + executor_record \<Rightarrow> bool" where
  "harmless_change chain r result =
    (case result of Inl e \<Rightarrow> store_fault e \<longrightarrow> e = InvalidRecord | Inr r' \<Rightarrow> evolves chain r r')"

lemma harmless_change_simps [simp]:
  "harmless_change chain r (Inl e) \<longleftrightarrow> (store_fault e \<longrightarrow> e = InvalidRecord)"
  "harmless_change chain r (Inr r') \<longleftrightarrow> evolves chain r r'"
  by (simp_all add: harmless_change_def)

definition harmless :: "u64 \<Rightarrow> chain_store \<Rightarrow> ('a, chain_store) outcome \<Rightarrow> bool" where
  "harmless chain cs out \<longleftrightarrow>
    keeps chain cs (snd out)
    \<and> (\<forall>e. fst out = Inl e \<longrightarrow> snd out = cs \<and> (store_fault e \<longrightarrow> e = InvalidRecord))"

lemma update_record_harmless:
  assumes ok: "store_ok chain cs"
    and change: "\<And>r. account cs operation = Some r \<Longrightarrow> record_ok chain r \<Longrightarrow> harmless_change chain r (change cs r)"
  shows "harmless chain cs (update_record env operation change cs)"
proof -
  define strict where "strict = (\<lambda>cs r. case change cs r of Inl e \<Rightarrow> Inl OperationMismatch | Inr r' \<Rightarrow> Inr r')"
  have "fine chain cs (update_record env operation strict cs)"
    using change
    by (intro update_record_fine [OF ok])
      (force simp: strict_def change_fine_def harmless_change_def split: sum.splits)
  moreover have "snd (update_record env operation strict cs) = snd (update_record env operation change cs)"
    by (auto simp: update_record_def guarded_def strict_def record_of_ok [OF ok] Let_def split: option.split sum.split)
  ultimately have "keeps chain cs (snd (update_record env operation change cs))"
    by (simp add: fine_def)
  moreover have "snd (update_record env operation change cs) = cs \<and> (store_fault e \<longrightarrow> e = InvalidRecord)"
    if "fst (update_record env operation change cs) = Inl e" for e
    using that change store_okD(3) [OF ok]
    by (auto simp: update_record_def guarded_def record_of_ok [OF ok] Let_def harmless_change_def
      split: option.splits sum.splits if_splits)
  ultimately show ?thesis by (simp add: harmless_def)
qed

lemma use_evolves:
  assumes "\<And>u. su_id (f u) = su_id u" "\<And>u. u \<in> set (er_swap_uses r) \<Longrightarrow> su_id u = use
      \<Longrightarrow> use_change chain (map ip_hash (er_issued r)) f u"
  shows "evolves chain r (r\<lparr>er_swap_uses := update_use use f (er_swap_uses r)\<rparr>)"
  using use_body [of f r use chain] use_continues [of r use chain "map ip_hash (er_issued r)" f] assms
  by (auto intro: evolves_quiet)

lemma flags_evolve:
  "evolves chain r (r\<lparr>er_active_swap_use := active\<rparr>)"
  "evolves chain r (r\<lparr>er_swap_setup_stopped := stopped, er_retired := er_retired r \<or> retired\<rparr>)"
  "evolves chain r (r\<lparr>er_swap_setup_stopped := stopped, er_retired := True\<rparr>)"
  "evolves chain r (r\<lparr>er_swap_setup_stopped := stopped\<rparr>)"
  "evolves chain r (r\<lparr>er_retired := er_retired r \<or> retired\<rparr>)"
  by (rule evolves_quiet; simp add: record_fields)+

lemma cancel_evolves [simp]: "evolves chain r (snd (cancel_swap_use use r))"
proof (cases "swap_use use r")
  case None
  then show ?thesis by (simp add: cancel_swap_use_def)
next
  case (Some u)
  define r1 where "r1 = r\<lparr>er_swap_uses :=
    update_use use (\<lambda>u. u\<lparr>su_stopped := True, su_stopped_before_order := True\<rparr>) (er_swap_uses r)\<rparr>"
  have "evolves chain r r1" unfolding r1_def by (rule use_evolves) (simp_all add: use_change_def)
  moreover have "evolves chain r1 (snd (cancel_swap_use use r))"
    unfolding cancel_swap_use_def Some r1_def [symmetric] Let_def
    by (auto simp: flags_evolve split: swap_use_role.split prod.split)
  ultimately show ?thesis by (rule evolves_trans)
qed

lemma stop_use_evolves [simp]: "evolves chain r (stop_use use r)"
  unfolding stop_use_def by (rule use_evolves) (simp_all add: use_change_def)

lemma relink_evolves [simp]: "evolves chain r (with_role use (relink_origin operation) r)"
  unfolding with_role_def
proof (rule use_evolves)
  show "use_change chain (map ip_hash (er_issued r)) (\<lambda>u. u\<lparr>su_role := relink_origin operation (su_role u)\<rparr>) u" for u
    by (cases "su_role u") (simp_all add: use_change_def role_ok_def)
qed simp

lemma role_evolves:
  assumes "swap_use use r = Some u" "body_ok chain r"
    and "role_ok chain (map ip_hash (er_issued r)) (su_role u) \<Longrightarrow> role_ok chain (map ip_hash (er_issued r)) (f (su_role u))"
    and "set (use_facts (su_role u)) \<subseteq> set (use_facts (f (su_role u)))"
  shows "evolves chain r (with_role use f r)"
  unfolding with_role_def
proof (rule use_evolves)
  fix w assume "w \<in> set (er_swap_uses r)" "su_id w = use"
  then have "w = u" using assms(1,2) by (auto simp: swap_use_def find_Some_iff body_ok_def distinct_map inj_on_def)
  then show "use_change chain (map ip_hash (er_issued r)) (\<lambda>u. u\<lparr>su_role := f (su_role u)\<rparr>) w"
    using assms(3,4) by (simp add: use_change_def)
qed simp

lemma source_role_evolves:
  assumes "source_role (su_role u)" "swap_use use r = Some u" "body_ok chain r"
  shows "evolves chain r (with_role use (\<lambda>_. Source approval link) r)"
  using assms(1) by (intro role_evolves [OF assms(2,3)]) (auto simp: role_ok_def source_role_def split: swap_use_role.splits)

lemma retire_orphan_evolves [simp]: "evolves chain r (retire_orphan orphans use r)"
  by (simp add: retire_orphan_def flags_evolve Let_def)

text \<open>
  Nothing is recorded for good of a use that no Public account pays for and whose account issued nothing.
\<close>

lemma unissued_facts:
  assumes "body_ok chain r" "er_issued r = []" "u \<in> set (er_swap_uses r)" "\<not> public_role (su_role u)"
  shows "use_facts (su_role u) = []"
  using assms by (cases "su_role u") (auto simp: body_ok_def list_all_iff role_ok_def delivery_ok_def fill_facts_def
    public_role_def split: option.split)

lemma release_replaced_evolves:
  assumes body: "body_ok chain r" and use: "replaceable_swap_use use r = Some u" "\<not> public_role (su_role u)"
  shows "evolves chain r (release_replaced_swap_use use r)"
proof -
  have u: "er_issued r = []" "swap_use use r = Some u"
    using use(1) by (auto simp: replaceable_swap_use_def split: option.splits if_splits)
  have "w = u" if "w \<in> set (er_swap_uses r)" "su_id w = use" for w
    using that u(2) body by (auto simp: swap_use_def find_Some_iff body_ok_def distinct_map inj_on_def)
  then have "use_facts (su_role w) = []" if "w \<in> set (er_swap_uses r)" "su_id w = use" for w
    using that unissued_facts [OF body u(1)] use(2) by blast
  then have "facts_of (er_swap_uses r) \<subseteq> facts_of (filter (\<lambda>u. su_id u \<noteq> use) (er_swap_uses r))"
    by (force simp: facts_of_def)
  then show ?thesis
    using body
    by (intro evolves_quiet)
      (auto simp: release_replaced_swap_use_def Let_def continues_def same_reservations_def body_ok_def
        swap_identified_def list_all_iff distinct_map_filter)
qed

lemma later_use_evolves:
  assumes "swap_use use r = None" "role_ok chain [] role"
  shows "evolves chain r (begin_later_swap_use now use role r)"
proof (rule evolves_quiet)
  have "use \<notin> su_id ` set (er_swap_uses r)" using assms(1) by (auto simp: swap_use_def find_None_iff)
  then show "body_ok chain (begin_later_swap_use now use role r)" if "body_ok chain r"
    using that role_ok_more [OF assms(2)] by (auto simp: begin_later_swap_use_def body_ok_def swap_identified_def)
qed (auto simp: begin_later_swap_use_def continues_def same_reservations_def)

lemma restore_existing_evolves:
  "restore_existing env chain' address delegate assets r = Inr r' \<Longrightarrow> evolves chain r r'"
  by (rule evolves_quiet) (auto simp: restore_existing_def record_fields split: if_splits)

lemma retarget_evolves: "retarget env chain' delegate r = Inr r' \<Longrightarrow> evolves chain r r'"
  by (rule evolves_quiet) (auto simp: retarget_def record_fields split: if_splits)

lemma retarget_fault: "retarget env chain' delegate r = Inl e \<Longrightarrow> \<not> store_fault e"
  by (auto simp: retarget_def split: if_splits)

lemma quiet_operations_fine:
  assumes ok: "store_ok chain cs"
  shows "fine chain cs (retarget_delegate env chain' operation delegate cs)"
    "fine chain cs (record_use_check env operation observation cs)"
    "fine chain cs (bind_address env operation address cs)"
    "fine chain cs (set_hidden env operation hidden cs)"
    "fine chain cs (retire env operation cs)"
proof -
  show "fine chain cs (retarget_delegate env chain' operation delegate cs)"
    unfolding retarget_delegate_def
    by (rule update_record_fine [OF ok]) (auto simp: change_fine_def intro: retarget_evolves dest: retarget_fault split: sum.split)
  have quiet: "evolves chain r s" if "(body_ok chain r \<longrightarrow> body_ok chain s) \<and> continues r s \<and> same_reservations r s" for r s
    using that evolves_quiet by blast
  show "fine chain cs (record_use_check env operation observation cs)" "fine chain cs (bind_address env operation address cs)"
    "fine chain cs (set_hidden env operation hidden cs)" "fine chain cs (retire env operation cs)"
    unfolding record_use_check_def bind_address_def set_hidden_def retire_def
    by (rule update_record_fine [OF ok]; auto simp: change_fine_def record_fields intro!: quiet)+
qed

lemma next_index_fine: "store_ok chain cs \<Longrightarrow> fine chain cs (next_index env cs)"
  by (simp add: next_index_def load_allocation_ok bind_outcome_def fine_refused fine_accepted keeps_refl)

lemma raise_floor_fine:
  assumes ok: "store_ok chain cs" and fresh: "unused cs (se_random env 0)"
  shows "fine chain cs (raise_floor env floor cs)"
proof (cases "INDEX_LIMIT < floor")
  case True
  then show ?thesis by (simp add: raise_floor_def fine_refused [OF ok])
next
  case False
  let ?a = "current_allocation cs"
  let ?a1 = "?a\<lparr>al_next_index := max (al_next_index ?a) floor\<rparr>"
  let ?P = "\<lambda>spare. sx_index spare < floor"
  have "fine chain cs (case displace_spare env ?P ?a1 of
      Inl e \<Rightarrow> (Inl e, cs) | Inr (a2, rows) \<Rightarrow> (Inr (), put_rows (rows @ [AllocationRow a2]) cs))"
  proof (cases "displace_spare env ?P ?a1")
    case (Inl e)
    then show ?thesis using displace_fault [OF Inl] by (simp add: fine_refused [OF ok])
  next
    case (Inr moved)
    then obtain a2 rows where moved: "displace_spare env ?P ?a1 = Inr (a2, rows)" by (cases moved) auto
    note fields = displaced_fields [OF moved]
    have "al_next_index a2 \<le> INDEX_LIMIT" using fields(2) False current_bounds(1) [OF ok] by (simp add: max_def not_less)
    moreover have "sx_index spare < al_next_index a2 \<and> ordinary_index (sx_index spare) = Inr (sx_index spare)"
      if "al_spare a2 = Some spare" for spare
      using fields(2) fields(4) [OF that] current_bounds(2) [OF ok, of spare] by (auto simp: less_max_iff_disj)
    ultimately have "allocation_valid a2"
      using fields(1) by (auto simp: allocation_valid_def ALLOCATION_VERSION_def LEGACY_VERSION_def split: option.split)
    then have "keeps chain cs (put_rows (rows @ [AllocationRow a2]) cs)"
      using put_displaced(1) [OF ok moved fresh] fields(2) by simp
    then show ?thesis using moved by (simp add: fine_accepted)
  qed
  then show ?thesis using False
    by (simp add: raise_floor_def fine_guarded [OF ok] load_allocation_ok [OF ok] bind_outcome_def)
qed

lemma replace_spare_fine:
  assumes ok: "store_ok chain cs" and fresh: "unused cs (se_random env 0)"
  shows "fine chain cs (replace_spare env delegate (current_allocation cs) cs)"
proof -
  let ?a = "current_allocation cs"
  show ?thesis
  proof (cases "retain_spare env ?a")
    case (Inl e)
    then have "\<not> store_fault e" using displace_fault by (simp add: retain_is_displace)
    then show ?thesis using Inl by (simp add: replace_spare_def fine_refused [OF ok])
  next
    case (Inr moved)
    then obtain a1 rows where moved: "retain_spare env ?a = Inr (a1, rows)" by (cases moved) auto
    note displaced = moved [unfolded retain_is_displace]
    note fields = displaced_fields [OF displaced]
    show ?thesis
    proof (cases "ordinary_index (al_next_index a1)")
      case (Inl e)
      then have "e = Exhausted" by (auto simp: ordinary_index_def Let_def split: if_splits)
      then show ?thesis using Inl moved by (simp add: replace_spare_def fine_refused [OF ok])
    next
      case (Inr index)
      note bounds = ordinary_index_bounds [OF Inr] index_succ [of index]
      define a2 where "a2 = a1\<lparr>al_next_index := index + 1,
        al_spare := Some \<lparr>sx_index = index, sx_address = None, sx_delegate = delegate\<rparr>\<rparr>"
      have "allocation_valid a2"
        using bounds fields(1) by (simp add: a2_def allocation_valid_def ALLOCATION_VERSION_def LEGACY_VERSION_def)
      moreover have "al_next_index ?a \<le> index" "al_next_index ?a \<le> al_next_index a2"
        using bounds fields(2) by (auto simp: a2_def)
      ultimately have "keeps chain cs (put_rows (rows @ [AllocationRow a2]) cs)"
        using put_displaced(1) [OF ok displaced fresh] by (simp add: a2_def)
      then show ?thesis using moved Inr by (simp add: replace_spare_def Let_def fine_accepted a2_def)
    qed
  qed
qed

lemma reserve_spare_fine:
  assumes ok: "store_ok chain cs" and fresh: "unused cs (se_random env 0)"
  shows "fine chain cs (reserve_spare env delegate cs)"
  unfolding reserve_spare_def
  using replace_spare_fine [OF assms] fine_accepted [OF keeps_refl [OF ok]]
  by (intro fine_guarded [OF ok]) (auto simp: load_allocation_ok [OF ok] bind_outcome_def split: option.split)

lemma bind_spare_address_fine:
  assumes ok: "store_ok chain cs"
  shows "fine chain cs (bind_spare_address env index address cs)"
proof -
  let ?a = "current_allocation cs"
  have "keeps chain cs (put_row (AllocationRow (?a\<lparr>al_spare := Some (spare\<lparr>sx_address := Some address\<rparr>)\<rparr>)) cs)"
    if "al_spare ?a = Some spare" for spare
    using that current_valid [OF ok] store_okD(5) [OF ok]
    by (intro put_allocation [OF ok]) (auto simp: allocation_valid_def index_below_def)
  then show ?thesis
    unfolding bind_spare_address_def
    by (intro fine_guarded [OF ok])
      (auto simp: load_allocation_ok [OF ok] bind_outcome_def fine_accepted intro!: fine_refused [OF ok]
        split: option.split)
qed

lemma reserve_record_fine:
  assumes ok: "store_ok chain cs"
    and fresh: "unused cs (se_random env 0)" "se_random env 0 \<noteq> Some operation"
    and foreign: "\<And>d. rl_swap_destination links = Some d \<Longrightarrow> sd_origin_chain d \<noteq> chain"
  shows "fine chain cs (reserve_record env chain' operation delegate purpose assets links cs)"
proof (cases "account cs operation")
  case None
  obtain x cs' where run: "allocate_record env operation delegate purpose assets (first_use_of operation links) cs = (x, cs')"
    by fastforce
  have role: "role_ok chain [] role" if "first_use_of operation links = Some (use, role)" for use role
    using that foreign by (auto simp: first_use_of_def role_ok_def delivery_ok_def is_filled_def split: option.splits if_splits)
  have "fine chain cs (bind_outcome (x, cs') (\<lambda>(r, rows) cs1. (Inr r, put_rows rows cs1)))"
    using ok None fresh run
  proof (cases rule: allocate_record_ok)
    case (refused e)
    then show ?thesis by (auto simp: bind_outcome_def fine_refused [OF ok])
  next
    case (allocated r rows)
    have "body_ok chain r" "er_operation r = operation" "er_issued r = []"
      using new_record_body [OF allocated(3) role] allocated(3) by (auto simp: new_record_ok_def)
    then have "keeps chain cs (put_row (OperationRow operation r) (put_rows rows cs))"
      using allocated(6) allocated(8) [OF _ _ refl] keeps_trans by blast
    then show ?thesis using allocated(1,2) by (simp add: bind_outcome_def fine_accepted)
  qed
  then show ?thesis
    using None by (simp add: reserve_record_def guarded_def record_of_ok [OF ok] run fine_refused [OF ok])
next
  case (Some existing)
  have "fine chain cs (case retarget env chain' delegate existing of
      Inl e \<Rightarrow> (Inl e, cs) | Inr r \<Rightarrow> (Inr r, put_rows [OperationRow operation r] cs))"
  proof (cases "retarget env chain' delegate existing")
    case (Inl e)
    then show ?thesis using retarget_fault [OF Inl] by (simp add: fine_refused [OF ok])
  next
    case (Inr r)
    have "keeps chain cs (put_row (OperationRow operation r) cs)"
      using put_known [OF ok Some retarget_evolves [OF Inr]] .
    then show ?thesis using Inr by (simp add: fine_accepted)
  qed
  then show ?thesis
    using Some
    by (simp add: reserve_record_def guarded_def record_of_ok [OF ok] fine_refused [OF ok] fine_accepted keeps_refl [OF ok])
qed

lemma reserve_fine:
  assumes "store_ok chain cs" "unused cs (se_random env 0)" "se_random env 0 \<noteq> Some operation"
  shows "fine chain cs (reserve_with_swap_approval env chain' operation delegate purpose assets approval destination cs)"
    "fine chain cs (reserve env chain' operation delegate purpose assets cs)"
    "fine chain cs (reserve_swap_destination env chain operation delegate d cs)"
proof -
  show swap: "fine chain cs (reserve_with_swap_approval env chain' operation delegate purpose assets approval destination cs)"
    for approval destination
    unfolding reserve_with_swap_approval_def by (rule reserve_record_fine [OF assms]) simp
  then show "fine chain cs (reserve env chain' operation delegate purpose assets cs)" by (simp add: reserve_def)
  show "fine chain cs (reserve_swap_destination env chain operation delegate d cs)"
    unfolding reserve_swap_destination_def
    by (auto simp: fine_refused [OF assms(1)] intro!: reserve_record_fine [OF assms])
qed

text \<open>A restored account takes an index that no record has, whatever becomes of the spare.\<close>

lemma put_restored:
  assumes ok: "store_ok chain cs" and fresh: "unused cs (se_random env 0)"
    and index: "index < INDEX_LIMIT" "free_index cs index"
    and taken: "take_spare_at env chain' index address delegate
      (current_allocation cs\<lparr>al_next_index := max (al_next_index (current_allocation cs)) (index + 1)\<rparr>)
      = Inr (delegate1, a1, rows)"
    and r: "body_ok chain r" "er_operation r = operation" "er_index r = index" "er_issued r = []"
    and new: "account cs operation = None" "se_random env 0 \<noteq> Some operation"
  shows "keeps chain cs (put_rows (rows @ [AllocationRow a1, OperationRow operation r]) cs)"
proof -
  let ?a = "current_allocation cs"
  let ?a1 = "?a\<lparr>al_next_index := max (al_next_index ?a) (index + 1)\<rparr>"
  define cs1 where "cs1 = put_rows (rows @ [AllocationRow a1]) cs"
  have above: "al_next_index ?a1 \<le> INDEX_LIMIT" "index < al_next_index ?a1"
    using current_bounds(1) [OF ok] index_succ [OF index(1)] by (auto simp: max_def)
  have "keeps chain cs cs1 \<and> account cs1 operation = None \<and> index_below (current_allocation cs1) index
    \<and> free_index cs1 index"
    using taken
  proof (cases rule: take_spare_displaces)
    case (other P)
    note fields = displaced_fields [OF other(1)]
    have spare: "sx_index spare < al_next_index ?a1 \<and> ordinary_index (sx_index spare) = Inr (sx_index spare)"
      if "al_spare ?a = Some spare" for spare
      using current_bounds(2) [OF ok that] by (auto simp: less_max_iff_disj)
    have "allocation_valid a1"
      using fields spare above by (auto simp: allocation_valid_def ALLOCATION_VERSION_def LEGACY_VERSION_def split: option.split)
    then have put: "keeps chain cs cs1" "account cs1 key \<noteq> account cs key \<Longrightarrow> se_random env 0 = Some key"
      "current_allocation cs1 = a1\<lparr>al_version := ALLOCATION_VERSION\<rparr>" for key
      using put_displaced [OF ok other(1) fresh, of a1] fields(2) by (simp_all add: cs1_def)
    have "free_index cs1 index"
      using other(1)
    proof (cases rule: displaced_cases)
      case kept
      then show ?thesis using index(2) by (simp add: cs1_def free_index_def)
    next
      case (displaced spare key)
      have "sx_index spare \<noteq> index" using taken displaced by (auto simp: take_spare_at_def split: if_splits)
      have acc: "account cs1 =
          (account cs)(key \<mapsto> stored (blank_record key (sx_index spare) (sx_address spare) (sx_delegate spare)))"
        using displaced current_bounds(2) [OF ok, of spare] ordinary_index_bounds(2)
        by (auto simp: cs1_def account_put)
      have "er_index s \<noteq> index" if "account cs1 k = Some s" for k s
      proof (cases "k = key")
        case True
        then have "er_index s = sx_index spare" using that acc by auto
        then show ?thesis using \<open>sx_index spare \<noteq> index\<close> by simp
      next
        case False
        then have "account cs k = Some s" using that acc by simp
        then show ?thesis using index(2) unfolding free_index_def by blast
      qed
      then show ?thesis by (simp add: free_index_def)
    qed
    moreover have "account cs1 operation = None" using put(2) new by metis
    moreover have "index_below (current_allocation cs1) index"
      using put(3) other(2) above fields(2) by (auto simp: index_below_def split: option.split)
    ultimately show ?thesis using put(1) by blast
  next
    case (spare spare)
    have "allocation_valid a1"
      using spare above by (simp add: allocation_valid_def ALLOCATION_VERSION_def LEGACY_VERSION_def)
    then have "keeps chain cs cs1"
      using put_allocation [OF ok, of a1] store_okD(5) [OF ok] spare by (auto simp: cs1_def index_below_def less_max_iff_disj)
    then show ?thesis
      using spare new index above by (simp add: cs1_def index_below_def free_index_def)
  qed
  then have "keeps chain cs1 (put_row (OperationRow operation r) cs1)" "keeps chain cs cs1"
    using put_operation [OF keepsD r(1,2), of cs cs1] r(3,4) by (auto simp: free_index_def)
  then show ?thesis using keeps_trans by (auto simp: cs1_def)
qed

lemma restore_index_fine:
  assumes ok: "store_ok chain cs" and fresh: "unused cs (se_random env 0)" "unused cs (se_random env 1)"
    and drawn: "\<And>key. se_random env 1 = Some key \<Longrightarrow> se_random env 0 \<noteq> Some key"
  shows "fine chain cs (restore_index env chain' index address delegate assets cs)"
proof (cases "INDEX_LIMIT \<le> index")
  case True
  then show ?thesis by (simp add: restore_index_def fine_refused [OF ok])
next
  case False
  obtain rs where rs: "records cs = Inr rs" "\<And>r. r \<in> set rs \<longleftrightarrow> account cs (er_operation r) = Some r"
    by (rule records_ok [OF ok]) blast
  let ?a = "current_allocation cs\<lparr>al_next_index := max (al_next_index (current_allocation cs)) (index + 1)\<rparr>"
  show ?thesis
  proof (cases "find (\<lambda>r. er_index r = index) rs")
    case (Some existing)
    then have found: "account cs (er_operation existing) = Some existing" using rs(2) [of existing] by (auto simp: find_Some_iff in_set_conv_nth)
    show ?thesis
    proof (cases "restore_existing env chain' address delegate assets existing")
      case (Inl e)
      then have "e = OperationMismatch" by (auto simp: restore_existing_def split: if_splits)
      then show ?thesis using Some Inl False
        by (simp add: restore_index_def guarded_def load_allocation_ok [OF ok] bind_outcome_def rs(1) fine_refused [OF ok])
    next
      case (Inr r)
      then have "keeps chain cs (put_row (OperationRow (er_operation existing) r) cs)"
        using put_known [OF ok found restore_existing_evolves] by blast
      then show ?thesis using Some Inr False
        by (simp add: restore_index_def guarded_def load_allocation_ok [OF ok] bind_outcome_def rs(1)
          fine_refused [OF ok] fine_accepted)
    qed
  next
    case None
    then have free: "free_index cs index" using rs(2) store_okD(4) [OF ok] by (fastforce simp: find_None_iff free_index_def)
    show ?thesis
    proof (cases "take_spare_at env chain' index address delegate ?a")
      case (Inl e)
      then show ?thesis using None False take_spare_fault [OF Inl]
        by (simp add: restore_index_def guarded_def load_allocation_ok [OF ok] bind_outcome_def rs(1) fine_refused [OF ok])
    next
      case (Inr t)
      then obtain delegate1 a1 rows where taken: "take_spare_at env chain' index address delegate ?a = Inr (delegate1, a1, rows)"
        by (cases t) auto
      show ?thesis
      proof (cases "se_random env 1")
        case None_drawn: None
        then show ?thesis using None False taken
          by (simp add: restore_index_def guarded_def load_allocation_ok [OF ok] bind_outcome_def rs(1) fine_refused [OF ok])
      next
        case (Some operation)
        define r where "r = (blank_record operation index (Some address) delegate1)\<lparr>er_restored_at := se_now env, er_assets := assets\<rparr>"
        have "body_ok chain r" "er_operation r = operation" "er_index r = index" "er_issued r = []"
          using False by (auto simp: r_def body_ok_def swap_identified_def blank_record_def)
        then have "keeps chain cs (put_rows (rows @ [AllocationRow a1, OperationRow operation r]) cs)"
          using put_restored [OF ok fresh(1) _ free taken] False fresh(2) drawn Some by (auto simp: unused_def)
        then show ?thesis using None False taken Some
          by (simp add: restore_index_def guarded_def load_allocation_ok [OF ok] bind_outcome_def rs(1)
            fine_refused [OF ok] fine_accepted Let_def r_def)
      qed
    qed
  qed
qed

end

section \<open>Operations on payloads and nonces\<close>

interpretation continuing: record_relation continues "\<lambda>_. True"
  by unfold_locales (auto intro: continues_trans)

lemma continuing_evolves: "continuing.evolves chain r s \<longleftrightarrow> (body_ok chain r \<longrightarrow> body_ok chain s) \<and> continues r s"
  by (simp add: continuing.evolves_def)

lemma update_payload_parts:
  assumes "\<And>p. payload_identity (f p) = payload_identity p"
  shows "map payload_identity (update_payload h f ps) = map payload_identity ps"
    "map ip_hash (update_payload h f ps) = map ip_hash ps"
    "issued_hooks (update_payload h f ps) = issued_hooks ps"
  using assms by (induction ps) (auto simp: payload_identity_def hook_of_def)

text \<open>A payload that is no hook changes nothing for the orders.\<close>

lemma order_ok_more: "order_ok hooks sw o1 \<Longrightarrow> set hooks \<subseteq> set hooks' \<Longrightarrow> order_ok hooks' sw o1"
  by (auto simp: order_ok_def split: option.splits)

lemma swap_ok_more:
  "swap_ok hooks swap \<Longrightarrow> fst x \<noteq> SwapPreHook \<Longrightarrow> fst x \<noteq> SwapPostHook \<Longrightarrow> swap_ok (hooks @ [x]) swap"
  by (auto simp: swap_ok_def orders_ok_def hook_of_order_def list_all_iff intro: order_ok_more split: option.splits)

lemma watermark_evolves [simp]:
  "continuing.evolves chain r (set_nonce_watermark w r)" "continuing.evolves chain r (require_reconciliation r)"
  "continuing.evolves chain r (apply_synced resolved scanned r)" "continuing.evolves chain r (apply_account_read observed r)"
  "continuing.evolves chain r (set_nonce_watermark w (r\<lparr>er_nonce_observation := seen\<rparr>))"
  "continuing.evolves chain r (withdraw_release h r)"
  by (auto simp: continuing_evolves record_fields set_nonce_watermark_def require_reconciliation_def apply_synced_def
    apply_account_read_def withdraw_release_def Let_def split: option.split)

lemma release_hashes_parts:
  "release_hashes hs r = Inr r' \<Longrightarrow> \<exists>released. r' = r\<lparr>er_released_payloads := released\<rparr> \<and> set (er_released_payloads r) \<subseteq> set released"
proof (induction hs r rule: release_hashes.induct)
  case (1 r)
  then show ?case by (intro exI [of _ "er_released_payloads r"]) simp
next
  case (2 h hs r)
  then obtain released where "r' = r\<lparr>er_released_payloads := released\<rparr>"
    "set (add_once h (er_released_payloads r)) \<subseteq> set released"
    by (auto split: if_splits)
  then show ?case by (auto simp: add_once_def split: if_splits)
qed

lemma release_hashes_evolves: "release_hashes hs r = Inr r' \<Longrightarrow> continuing.evolves chain r r'"
  by (drule release_hashes_parts) (auto simp: continuing_evolves record_fields)

lemma release_hashes_fault: "release_hashes hs r = Inl e \<Longrightarrow> \<not> store_fault e"
  by (induction hs r rule: release_hashes.induct) (auto split: if_splits)

lemma submit_evolves: "submit_payload h transaction r = Inr r' \<Longrightarrow> continuing.evolves chain r r'"
  by (auto simp: submit_payload_def continuing_evolves record_fields withdraw_release_def update_payload_parts
    payload_identity_def split: option.splits)

lemma append_payload_evolves:
  assumes "ip_hash p \<notin> ip_hash ` set (er_issued r)" "ip_purpose p \<noteq> SwapPreHook" "ip_purpose p \<noteq> SwapPostHook"
  shows "continuing.evolves chain r (r\<lparr>er_retired := er_retired r \<or> retired, er_issued := er_issued r @ [p]\<rparr>)"
proof -
  have "role_ok chain (map ip_hash (er_issued r)) role \<Longrightarrow> role_ok chain (map ip_hash (er_issued r @ [p])) role" for role
    by (rule role_ok_more) auto
  then show ?thesis using assms swap_ok_more [of "issued_hooks (er_issued r)" "er_swap r" "(ip_purpose p, hook_of p)"]
    by (auto simp: continuing_evolves record_fields list_all_iff)
qed

lemma add_payload_evolves:
  assumes "add_payload p r = Inr r'" "\<not> purpose_refused r p"
  shows "continuing.evolves chain r r'" "ip_hash p \<in> ip_hash ` set (er_issued r')"
proof -
  have "continuing.evolves chain r r' \<and> ip_hash p \<in> ip_hash ` set (er_issued r')"
  proof (cases "find (\<lambda>q. ip_hash q = ip_hash p) (er_issued r)")
    case None
    have "ip_purpose p \<noteq> SwapPreHook" "ip_purpose p \<noteq> SwapPostHook" using assms(2) by (auto simp: purpose_refused_def)
    then show ?thesis
      using assms(1) None append_payload_evolves find_None_hash [of "ip_hash p" "er_issued r"] by (auto simp: add_payload_def)
  next
    case (Some q)
    then have "r' = withdraw_release (ip_hash p) r"
      using assms(1) by (simp add: add_payload_def withdraw_release_def split: if_splits)
    moreover have "ip_hash p \<in> ip_hash ` set (er_issued r)" using Some find_None_hash by (metis option.distinct(1))
    moreover have "continuing.evolves chain r (withdraw_release (ip_hash p) r)" by simp
    moreover have "er_issued (withdraw_release (ip_hash p) r) = er_issued r" by (simp add: withdraw_release_def)
    ultimately show ?thesis by (simp only:)
  qed
  then show "continuing.evolves chain r r'" "ip_hash p \<in> ip_hash ` set (er_issued r')" by simp_all
qed

lemma record_shield_evolves:
  assumes "h \<in> ip_hash ` set (er_issued r)"
  shows "continuing.evolves chain r (record_shield shield_use h r)"
proof (cases shield_use)
  case None
  then show ?thesis by (simp add: record_shield_def)
next
  case (Some use)
  have "use_change chain (map ip_hash (er_issued r)) (\<lambda>u. u\<lparr>su_role := add_shield h (su_role u)\<rparr>) u" for u
    using assms
    by (cases "su_role u")
      (auto simp: use_change_def role_ok_def delivery_ok_def fill_facts_def add_once_def reopened_def is_filled_def
        split: option.splits destination_outcome.splits if_splits)
  then show ?thesis unfolding record_shield_def Some option.case by (intro continuing.use_evolves) auto
qed

lemma payload_operations_fine:
  assumes ok: "store_ok chain cs"
  shows "continuing.fine chain cs (record_synced env operation resolved scanned cs)"
    "continuing.fine chain cs (record_account_read env operation observed cs)"
    "continuing.fine chain cs (invalidate_observation env operation cs)"
    "continuing.fine chain cs (refresh_settled_swap_nonce env previous observed cs)"
    "continuing.fine chain cs (release_payloads env operation hashes cs)"
    "continuing.fine chain cs (record_submission env operation h transaction cs)"
  unfolding record_synced_def record_account_read_def invalidate_observation_def refresh_settled_swap_nonce_def
    release_payloads_def record_submission_def
  by (rule continuing.update_record_fine [OF ok];
      auto simp: continuing.change_fine_def release_hashes_evolves release_hashes_fault submit_evolves
        submit_payload_def [of _ _ _] dest: submit_evolves split: sum.split option.splits)+

lemma reserve_released_fine:
  assumes ok: "store_ok chain cs"
  shows "continuing.fine chain cs (reserve_released env operation h cs)"
proof -
  obtain rs where rs: "records cs = Inr rs" by (rule records_ok [OF ok]) blast
  show ?thesis
    unfolding reserve_released_def
    by (rule continuing.update_record_fine [OF ok]) (auto simp: continuing.change_fine_def reserve_again_def rs split: option.split)
qed

lemma shield_use_fault:
  assumes "vault_ok v" "shield_use_of v operation r = Inl e"
  shows "\<not> store_fault e"
proof -
  have "record_of k (v c) = Inr (account (v c) k)" for k c
    using assms(1) record_of_ok [of c "v c"] by (simp add: vault_ok_def)
  then show ?thesis
    using assms(2) by (auto simp: shield_use_of_def split: option.splits if_splits swap_use_role.splits)
qed

lemma issue_payload_fine:
  assumes "vault_ok v" and ok: "store_ok chain cs"
  shows "continuing.change_fine chain r (issue_payload v operation expected p cs r)"
proof -
  obtain rs where rs: "records cs = Inr rs" by (rule records_ok [OF ok]) blast
  have add: "continuing.change_fine chain r (and_then (add_payload p r) (\<lambda>r1. Inr (record_shield use (ip_hash p) r1)))"
    if "\<not> purpose_refused r p" for use
  proof (cases "add_payload p r")
    case (Inl e)
    then show ?thesis by (auto simp: continuing.change_fine_def add_payload_def split: option.splits if_splits)
  next
    case (Inr r1)
    then show ?thesis using continuing.evolves_trans [OF add_payload_evolves(1) [OF Inr that] record_shield_evolves [OF add_payload_evolves(2) [OF Inr that]]]
      by (simp add: continuing.change_fine_def)
  qed
  show ?thesis
    using add shield_use_fault [OF assms(1), of operation r]
    by (auto simp: issue_payload_def rs continuing.change_fine_def [of _ _ "Inl _"] and_then_def [of "shield_use_of v operation r"]
      split: sum.split)
qed

lemma record_issued_fine:
  assumes "vault_ok v" "store_ok chain cs"
  shows "continuing.fine chain cs (record_issued env v operation p cs)"
    "continuing.fine chain cs (record_swap_destination_shield env v operation use p cs)"
    "continuing.fine chain cs (record_recovery_issued env v operation active p cs)"
proof -
  have issued: "continuing.fine chain cs (record_issued_for env v operation expected p cs)" for expected
    unfolding record_issued_for_def by (rule continuing.update_record_fine [OF assms(2)]) (rule issue_payload_fine [OF assms])
  then show "continuing.fine chain cs (record_issued env v operation p cs)"
    "continuing.fine chain cs (record_swap_destination_shield env v operation use p cs)"
    "continuing.fine chain cs (record_recovery_issued env v operation active p cs)"
    by (auto simp: record_issued_def record_swap_destination_shield_def record_recovery_issued_def
      intro!: continuing.fine_refused [OF assms(2)])
qed

end
