(* ===== verification/VaultOperations.thy ===== *)
theory VaultOperations
  imports ExecutorOperations
begin

text \<open>
  The operations on the accounts of a swap use keep the accounts of every chain, and one that is refused
  leaves the vault as it was (\<open>sound\<close>).
\<close>

section \<open>Vaults\<close>

text \<open>The random identifiers of an operation are new and differ from each other.\<close>

definition fresh_draws :: "store_env \<Rightarrow> vault \<Rightarrow> operation_id list \<Rightarrow> bool" where
  "fresh_draws env v operations \<longleftrightarrow>
    (\<forall>n key. se_random env n = Some key \<longrightarrow>
      (\<forall>chain. account (v chain) key = None) \<and> key \<notin> set operations \<and> (\<forall>m. m \<noteq> n \<longrightarrow> se_random env m \<noteq> Some key))"

lemma vault_okD: "vault_ok v \<Longrightarrow> store_ok chain (v chain)"
  by (simp add: vault_ok_def)

lemma fresh_unused: "fresh_draws env v operations \<Longrightarrow> unused (v chain) (se_random env n)"
  by (auto simp: fresh_draws_def unused_def split: option.split)

lemma fresh_named: "fresh_draws env v operations \<Longrightarrow> operation \<in> set operations \<Longrightarrow> se_random env n \<noteq> Some operation"
  by (auto simp: fresh_draws_def)

lemma fresh_distinct: "fresh_draws env v operations \<Longrightarrow> se_random env n = Some key \<Longrightarrow> m \<noteq> n \<Longrightarrow> se_random env m \<noteq> Some key"
  by (auto simp: fresh_draws_def)

lemma fresh_later: "fresh_draws env v operations \<Longrightarrow> fresh_draws (later_draws env) v operations"
  by (auto simp: fresh_draws_def later_draws_def)

lemma vault_record_of: "vault_ok v \<Longrightarrow> record_of operation (v chain) = Inr (account (v chain) operation)"
  using record_of_ok vault_okD by blast

lemma vault_found_record:
  "vault_ok v \<Longrightarrow> found_record operation (v chain) = ok_or (account (v chain) operation) OperationMismatch"
  using found_record_ok vault_okD by blast

lemma vault_account:
  assumes "vault_ok v" "account (v chain) key = Some r"
  shows "record_ok chain r" "body_ok chain r" "er_operation r = key"
  using store_okD(3,4) [OF vault_okD [OF assms(1)] assms(2)] by (auto simp: record_ok_def)

lemma put_batch_simps [simp]:
  "put_batch [] v = v"
  "put_batch ((chain, row) # rows) v = put_batch rows (v(chain := put_row row (v chain)))"
  "put_batch (rows @ rows') v = put_batch rows' (put_batch rows v)"
  by (simp_all add: put_batch_def)

lemma put_batch_chain: "put_batch (map (Pair chain) rows) v = v(chain := put_rows rows (v chain))"
  by (induction rows arbitrary: v) auto

fun row_key :: "u64 \<times> row \<Rightarrow> u64 \<times> operation_id" where
  "row_key (chain, OperationRow key r) = (chain, key)"
| "row_key (chain, AllocationRow a) = (chain, 0)"

section \<open>The two sides of a use\<close>

lemma serves_elsewhere:
  assumes "serves_swap_use use chain operation r" "body_ok c r"
  shows "c \<noteq> chain"
proof -
  obtain u where "swap_use use r = Some u" "\<exists>token shields outcome. su_role u = Destination chain operation token shields outcome"
    using assms(1) by (auto simp: serves_swap_use_def split: option.splits swap_use_role.splits)
  moreover from this have "role_ok c (map ip_hash (er_issued r)) (su_role u)"
    using assms(2) by (auto simp: body_ok_def swap_use_def list_all_iff find_Some_iff)
  ultimately show ?thesis by (auto simp: role_ok_def)
qed

lemma source_of_use_ok:
  assumes "vault_ok v"
  shows "source_of_use operation use (v chain) = Inl e \<Longrightarrow> \<not> store_fault e"
    "source_of_use operation use (v chain) = Inr (r, approval, link) \<Longrightarrow>
      account (v chain) operation = Some r \<and> map_option su_role (swap_use use r) = Some (Source approval link)"
  by (auto simp: source_of_use_def vault_found_record [OF assms] ok_or_def and_then_def
    split: option.splits swap_use_role.splits)

lemma destination_of_use_ok:
  assumes "vault_ok v"
  shows "destination_of_use chain operation use source link v = Inl e \<Longrightarrow> \<not> store_fault e"
    "destination_of_use chain operation use source link v = Inr (Some (c, r)) \<Longrightarrow>
      account (v c) (er_operation r) = Some r \<and> serves_swap_use use chain operation r \<and> c \<noteq> chain"
proof -
  show "destination_of_use chain operation use source link v = Inl e \<Longrightarrow> \<not> store_fault e"
    by (auto simp: destination_of_use_def vault_found_record [OF assms] and_then_eq_Inl ok_or_eq_Inl
      split: option.splits if_splits)
  assume "destination_of_use chain operation use source link v = Inr (Some (c, r))"
  then obtain k where k: "account (v c) k = Some r" "serves_swap_use use chain operation r"
    by (auto simp: destination_of_use_def vault_found_record [OF assms] and_then_eq_Inr ok_or_eq_Inr
      split: option.splits if_splits)
  then show "account (v c) (er_operation r) = Some r \<and> serves_swap_use use chain operation r \<and> c \<noteq> chain"
    using vault_account [OF assms k(1)] serves_elsewhere by blast
qed

section \<open>Facts of the operations\<close>

lemma find_append_None: "find P xs = None \<Longrightarrow> find P (xs @ ys) = find P ys"
  by (induction xs) (auto split: if_splits)

lemma admit_fault: "admit_swap_account env choice found chain role use = Inl e \<Longrightarrow> \<not> store_fault e"
  by (auto simp: admit_swap_account_def split: prod.splits swap_account_choice.splits option.splits if_splits)

lemma claim_admitted_fault: "claim_admitted env chain claim source destination = Inl e \<Longrightarrow> \<not> store_fault e"
  by (auto simp: claim_admitted_def and_then_eq_Inl dest: admit_fault split: option.splits)

definition claim_operations :: "swap_pair_claim \<Rightarrow> operation_id list" where
  "claim_operations claim =
    choice_operation (pc_source claim)
      # (case pc_destination claim of None \<Rightarrow> [] | Some d \<Rightarrow> [choice_operation (dc_account d)])"

text \<open>The record on the other side of the active use, if it is there and belongs to the use.\<close>

lemma linked_account_ok:
  assumes ok: "vault_ok v" and r: "account (v chain) operation = Some r"
    and active: "swap_use (su_id active) r = Some active"
  shows "linked_account chain v r active \<noteq> Inl e"
    "linked_account chain v r active = Inr (Some (c, x)) \<Longrightarrow> account (v c) (er_operation x) = Some x \<and> c \<noteq> chain"
proof -
  show "linked_account chain v r active \<noteq> Inl e"
    by (auto simp: linked_account_def vault_record_of [OF ok] split: option.split)
  assume "linked_account chain v r active = Inr (Some (c, x))"
  then obtain k where k: "counterpart active r = Some (c, k)" "account (v c) k = Some x"
    "if source_role (su_role active) then serves_swap_use (su_id active) chain (er_operation r) x
     else links_swap_destination (su_id active) (er_operation r) x"
    by (auto simp: linked_account_def vault_record_of [OF ok] split: option.splits if_splits)
  have "c \<noteq> chain"
  proof (cases "source_role (su_role active)")
    case True
    then show ?thesis using k(3) serves_elsewhere vault_account(2) [OF ok k(2)] by auto
  next
    case False
    then have "\<exists>token shields outcome. su_role active = Destination c k token shields outcome"
      using k(1) by (auto simp: counterpart_def source_role_def split: swap_use_role.splits)
    then have "serves_swap_use (su_id active) c k r" using active by (auto simp: serves_swap_use_def)
    then show ?thesis using serves_elsewhere vault_account(2) [OF ok r] by blast
  qed
  then show "account (v c) (er_operation x) = Some x \<and> c \<noteq> chain" using k(2) vault_account(3) [OF ok k(2)] by simp
qed

lemma active_use_found: "active_use r = Some u \<Longrightarrow> swap_use (su_id u) r = Some u"
  by (auto simp: active_use_def swap_use_def find_Some_iff bind_eq_Some_conv)

lemma replaceable_some: "replaceable_swap_use use r = Some u \<Longrightarrow> swap_use use r = Some u"
  by (auto simp: replaceable_swap_use_def split: option.splits if_splits)

context record_relation
begin

section \<open>Results on the vault\<close>

definition vault_keeps :: "vault \<Rightarrow> vault \<Rightarrow> bool" where
  "vault_keeps v v' \<longleftrightarrow> (\<forall>chain. keeps chain (v chain) (v' chain))"

definition sound :: "vault \<Rightarrow> ('a, vault) outcome \<Rightarrow> bool" where
  "sound v out \<longleftrightarrow> vault_keeps v (snd out) \<and> (\<forall>e. fst out = Inl e \<longrightarrow> snd out = v \<and> \<not> store_fault e)"

lemma vault_keeps_refl: "vault_ok v \<Longrightarrow> vault_keeps v v"
  by (simp add: vault_keeps_def vault_ok_def keeps_refl)

lemma vault_keeps_trans: "vault_keeps v v1 \<Longrightarrow> vault_keeps v1 v2 \<Longrightarrow> vault_keeps v v2"
  unfolding vault_keeps_def using keeps_trans by blast

lemma vault_keeps_ok: "vault_keeps v v' \<Longrightarrow> vault_ok v'"
  by (auto simp: vault_keeps_def vault_ok_def dest: keepsD)

lemma vault_keeps_upd: "vault_ok v \<Longrightarrow> keeps chain (v chain) cs \<Longrightarrow> vault_keeps v (v(chain := cs))"
  by (simp add: vault_keeps_def vault_okD keeps_refl)

lemma sound_refused: "vault_ok v \<Longrightarrow> \<not> store_fault e \<Longrightarrow> sound v (Inl e, v)"
  by (simp add: sound_def vault_keeps_refl)

lemma sound_accepted: "vault_keeps v v' \<Longrightarrow> sound v (Inr x, v')"
  by (simp add: sound_def)

lemma sound_guarded: "vault_ok v \<Longrightarrow> sound v (f v) \<Longrightarrow> sound v (guarded env f v)"
  by (simp add: guarded_def sound_refused)

lemma sound_on_chain: "vault_ok v \<Longrightarrow> fine chain (v chain) (f (v chain)) \<Longrightarrow> sound v (on_chain chain f v)"
  by (auto simp: on_chain_def sound_def fine_def vault_keeps_upd split: prod.split)

section \<open>Batches\<close>

text \<open>Rows of records the vault holds, each for another account.\<close>

definition known_rows :: "vault \<Rightarrow> batch \<Rightarrow> bool" where
  "known_rows v rows \<longleftrightarrow>
    (\<forall>(chain, row) \<in> set rows. \<exists>key old r. row = OperationRow key r \<and> account (v chain) key = Some old \<and> evolves chain old r)"

lemma put_known_rows:
  "vault_ok v \<Longrightarrow> known_rows v rows \<Longrightarrow> distinct (map row_key rows) \<Longrightarrow> vault_keeps v (put_batch rows v)"
proof (induction rows arbitrary: v)
  case Nil
  then show ?case by (simp add: vault_keeps_refl)
next
  case (Cons entry rows)
  obtain chain key old r where entry: "entry = (chain, OperationRow key r)"
    and known: "account (v chain) key = Some old" and step: "evolves chain old r"
    using Cons.prems(2) by (cases entry) (auto simp: known_rows_def)
  let ?v = "v(chain := put_row (OperationRow key r) (v chain))"
  have one: "vault_keeps v ?v"
    using put_known [OF vault_okD [OF Cons.prems(1)] known step] by (rule vault_keeps_upd [OF Cons.prems(1)])
  have "body_ok chain r" "er_operation r = key"
    using step vault_account [OF Cons.prems(1) known] evolves_continues [OF step] by (auto simp: evolves_def continues_def)
  then have acc: "account (?v c) k = account (v c) k" if "(c, k) \<noteq> (chain, key)" for c k
    using that by (auto simp: account_put)
  have "known_rows ?v rows"
    unfolding known_rows_def
  proof (safe)
    fix c row assume "(c, row) \<in> set rows"
    moreover from this obtain k o1 s where "row = OperationRow k s" "account (v c) k = Some o1" "evolves c o1 s"
      using Cons.prems(2) by (fastforce simp: known_rows_def)
    moreover from calculation have "(c, k) \<noteq> (chain, key)" using Cons.prems(3) entry by force
    ultimately show "\<exists>k o1 s. row = OperationRow k s \<and> account (?v c) k = Some o1 \<and> evolves c o1 s"
      using acc by metis
  qed
  moreover have "distinct (map row_key rows)" using Cons.prems(3) by simp
  ultimately have "vault_keeps ?v (put_batch rows ?v)" by (rule Cons.IH [OF vault_keeps_ok [OF one]])
  then show ?case using one vault_keeps_trans entry by auto
qed

lemma commit_sound:
  assumes "vault_ok v"
    and "\<And>e. x = Inl e \<Longrightarrow> \<not> store_fault e"
    and "\<And>a rows. x = Inr (a, rows) \<Longrightarrow> vault_keeps v (put_batch rows v)"
  shows "sound v (commit x v)"
  using assms by (cases x) (auto simp: commit_def sound_refused sound_accepted)

section \<open>Claims\<close>

lemma claim_swap_account_cases:
  assumes ok: "vault_ok v" and found: "found = account (v chain) operation"
    and fresh: "fresh_draws env v operations" "operation \<in> set operations"
    and role: "role_ok chain [] role" and another: "\<forall>r. found = Some r \<longrightarrow> swap_use use r = None"
    and run: "claim_swap_account env chain operation found delegate purpose assets use role v = (x, v')"
  obtains (refused) e where "v' = v" "x = Inl e" "\<not> store_fault e"
  | (claimed) r rows where "v' = v" "x = Inr (r, map (Pair chain) rows)" "keeps chain (v chain) (put_rows rows (v chain))"
      "account (put_rows rows (v chain)) operation = Some (stored r)"
      "Some (use, role) = map_option (\<lambda>u. (su_id u, su_role u)) (active_use r)"
proof (cases "account (v chain) operation")
  case (Some r0)
  define r where "r = stored (begin_later_swap_use (se_now env) use role r0)"
  have none: "swap_use use r0 = None" using another found Some by simp
  have step: "evolves chain r0 r" using later_use_evolves [OF none role] by (simp add: r_def)
  have body: "body_ok chain r" "er_operation r = operation"
    using step vault_account [OF ok Some] evolves_continues [OF step] by (auto simp: evolves_def continues_def)
  have "v' = v" "x = Inr (r, map (Pair chain) [OperationRow operation r])"
    using run found Some by (auto simp: claim_swap_account_def Let_def r_def stored_def)
  moreover have "keeps chain (v chain) (put_rows [OperationRow operation r] (v chain))"
    using put_known [OF vault_okD [OF ok] Some step] by simp
  moreover have "account (put_rows [OperationRow operation r] (v chain)) operation = Some (stored r)"
    using account_put [OF body] by simp
  moreover have "Some (use, role) = map_option (\<lambda>u. (su_id u, su_role u)) (active_use r)"
    using none by (auto simp: active_use_def r_def begin_later_swap_use_def swap_use_def find_append_None)
  ultimately show thesis by (rule claimed)
next
  case None
  obtain y cs' where run': "allocate_record env operation delegate purpose assets (Some (use, role)) (v chain) = (y, cs')"
    by fastforce
  note result = run [unfolded claim_swap_account_def found None option.case on_chain_def run']
  show thesis
    using vault_okD [OF ok] None fresh_unused [OF fresh(1)] fresh_named [OF fresh] run'
  proof (cases rule: allocate_record_ok)
    case (refused e)
    have "v' = v" "x = Inl e" using result refused(1,2) by (auto simp: bind_outcome_def)
    then show thesis using refused(3) that(1) by auto
  next
    case (allocated r rows)
    have r: "body_ok chain r" "er_operation r = operation" and unissued: "er_issued r = []"
      using new_record_body [OF allocated(3)] allocated(3) role by (auto simp: new_record_ok_def)
    have "v' = v" "x = Inr (r, map (Pair chain) (rows @ [OperationRow operation r]))"
      using result allocated(1,2) by (auto simp: bind_outcome_def)
    moreover have "keeps chain (v chain) (put_rows (rows @ [OperationRow operation r]) (v chain))"
      using allocated(6) allocated(8) [OF r refl unissued] keeps_trans by auto
    moreover have "account (put_rows (rows @ [OperationRow operation r]) (v chain)) operation = Some (stored r)"
      using account_put [OF r] by simp
    moreover have "Some (use, role) = map_option (\<lambda>u. (su_id u, su_role u)) (active_use r)"
      using allocated(3) by (cases "er_swap_uses r") (auto simp: new_record_ok_def active_use_def swap_use_def)
    ultimately show thesis by (rule claimed)
  qed
qed

lemma claim_accounts_sound:
  assumes ok: "vault_ok v" and other: "\<And>d. pc_destination claim = Some d \<Longrightarrow> dc_chain_id d \<noteq> chain"
    and fresh: "fresh_draws env v operations" "choice_operation (pc_source claim) \<in> set operations"
      "\<And>d. pc_destination claim = Some d \<Longrightarrow> choice_operation (dc_account d) \<in> set operations"
    and source: "source = account (v chain) (choice_operation (pc_source claim))"
      "\<forall>r. source = Some r \<longrightarrow> swap_use (pc_id claim) r = None"
    and destination: "\<And>d. pc_destination claim = Some d \<Longrightarrow>
        destination = account (v (dc_chain_id d)) (choice_operation (dc_account d))
        \<and> (\<forall>r. destination = Some r \<longrightarrow> swap_use (pc_id claim) r = None)"
  shows "sound v (claim_accounts env chain claim source destination v)"
proof -
  let ?operation = "choice_operation (pc_source claim)"
  let ?role = "Source (Some (pc_approval claim)) (map_option (\<lambda>d. choice_operation (dc_account d)) (pc_destination claim))"
  obtain x v' where run: "claim_swap_account env chain ?operation source (pc_delegate claim) (pc_purpose_summary claim)
      (pc_assets claim) (pc_id claim) ?role v = (x, v')" by fastforce
  have role: "role_ok chain [] ?role" by (simp add: role_ok_def)
  show ?thesis
    using ok source(1) fresh(1,2) role source(2) run
  proof (cases rule: claim_swap_account_cases)
    case (refused e)
    then show ?thesis by (simp add: claim_accounts_def Let_def run bind_outcome_def sound_refused [OF ok])
  next
    case (claimed r rows)
    have first: "vault_keeps v (put_batch (map (Pair chain) rows) v)"
      unfolding put_batch_chain by (rule vault_keeps_upd [OF ok claimed(3)])
    show ?thesis
    proof (cases "pc_destination claim")
      case None
      then show ?thesis using claimed first unfolding claim_accounts_def Let_def run
        by (simp add: bind_outcome_def commit_def sound_accepted)
    next
      case (Some d)
      let ?role2 = "Destination chain ?operation (dc_destination_token d) [] None"
      obtain x2 v2 where run2: "claim_swap_account (later_draws env) (dc_chain_id d) (choice_operation (dc_account d))
          destination (dc_delegate d) (Some SWAP_DESTINATION_PURPOSE_SUMMARY) [Erc20 (dc_destination_token d)]
          (pc_id claim) ?role2 v = (x2, v2)" by fastforce
      have role2: "role_ok (dc_chain_id d) [] ?role2" using other [OF Some] by (simp add: role_ok_def delivery_ok_def is_filled_def)
      have destination2: "destination = account (v (dc_chain_id d)) (choice_operation (dc_account d))"
        "\<forall>r. destination = Some r \<longrightarrow> swap_use (pc_id claim) r = None"
        using destination [OF Some] by blast+
      show ?thesis
        using ok destination2(1) fresh_later [OF fresh(1)] fresh(3) [OF Some] role2 destination2(2) run2
      proof (cases rule: claim_swap_account_cases)
        case (refused e)
        then show ?thesis using claimed(1,2) Some run2 unfolding claim_accounts_def Let_def run
          by (simp add: bind_outcome_def sound_refused [OF ok])
      next
        case second: (claimed r2 rows2)
        let ?v1 = "put_batch (map (Pair chain) rows) v"
        have "?v1 (dc_chain_id d) = v (dc_chain_id d)" using other [OF Some] by (simp add: put_batch_chain)
        then have "vault_keeps ?v1 (put_batch (map (Pair (dc_chain_id d)) rows2) ?v1)"
          unfolding put_batch_chain [of "dc_chain_id d"]
          using vault_keeps_upd [OF vault_keeps_ok [OF first], of "dc_chain_id d"] second(3) by metis
        then have "vault_keeps v (put_batch (map (Pair (dc_chain_id d)) rows2) ?v1)"
          using first vault_keeps_trans by blast
        then show ?thesis using claimed(1,2) second(1,2) Some run2 unfolding claim_accounts_def Let_def run
          by (simp add: bind_outcome_def commit_def sound_accepted)
      qed
    qed
  qed
qed

lemma claim_swap_pair_sound:
  assumes ok: "vault_ok v" and fresh: "fresh_draws env v (claim_operations claim)"
  shows "sound v (claim_swap_pair env chain claim v)"
proof (cases "\<exists>d. pc_destination claim = Some d \<and> dc_chain_id d = chain")
  case True
  then show ?thesis by (auto simp: claim_swap_pair_def sound_refused [OF ok])
next
  case False
  let ?source = "account (v chain) (choice_operation (pc_source claim))"
  define destination where "destination = (case pc_destination claim of None \<Rightarrow> None
    | Some d \<Rightarrow> account (v (dc_chain_id d)) (choice_operation (dc_account d)))"
  have claim: "sound v (claim_accounts env chain claim ?source destination v)"
    if "Option.bind ?source (swap_use (pc_id claim)) = None" "Option.bind destination (swap_use (pc_id claim)) = None"
    by (rule claim_accounts_sound [OF ok _ fresh])
      (use False that in \<open>auto simp: claim_operations_def destination_def\<close>)
  have "sound v (claim_found env chain claim ?source destination v)"
    using claim claim_admitted_fault [of env chain claim ?source destination]
    unfolding claim_found_def Let_def
    by (auto simp: sound_accepted [OF vault_keeps_refl [OF ok]] simp del: Option.bind_eq_None_conv
      intro!: sound_refused [OF ok] split: option.split sum.split)
  then show ?thesis
    using False
    by (cases "pc_destination claim")
      (auto simp: claim_swap_pair_def destination_def vault_record_of [OF ok] intro!: sound_guarded [OF ok])
qed

section \<open>Cancelling and stopping\<close>

lemma swap_use_accounts_sound: "vault_ok v \<Longrightarrow> sound v (swap_use_accounts env chain operation use v)"
  unfolding swap_use_accounts_def
  by (intro sound_guarded)
    (auto simp: sound_def vault_keeps_refl and_then_eq_Inl dest: source_of_use_ok(1) destination_of_use_ok(1))

lemma swap_destination_origin_sound:
  assumes ok: "vault_ok v"
  shows "sound v (swap_destination_origin env chain operation v)"
  unfolding swap_destination_origin_def
  by (intro sound_guarded ok)
    (auto simp: sound_def vault_keeps_refl [OF ok] vault_record_of [OF ok] split: option.splits swap_use_role.splits)

lemma two_rows_keep:
  assumes ok: "vault_ok v" and source: "account (v chain) operation = Some r" "evolves chain r r1"
    and other: "account (v c) k = Some s" "evolves c s s1" "c \<noteq> chain"
  shows "vault_keeps v (put_batch [(chain, OperationRow operation r1), (c, OperationRow k s1)] v)"
    "vault_keeps v (put_batch [(c, OperationRow k s1), (chain, OperationRow operation r1)] v)"
    "vault_keeps v (put_batch [(chain, OperationRow operation r1)] v)"
proof -
  have "known_rows v [(chain, OperationRow operation r1), (c, OperationRow k s1)]"
    "known_rows v [(c, OperationRow k s1), (chain, OperationRow operation r1)]"
    "known_rows v [(chain, OperationRow operation r1)]"
    using source other by (auto simp: known_rows_def)
  then show "vault_keeps v (put_batch [(chain, OperationRow operation r1), (c, OperationRow k s1)] v)"
    "vault_keeps v (put_batch [(c, OperationRow k s1), (chain, OperationRow operation r1)] v)"
    "vault_keeps v (put_batch [(chain, OperationRow operation r1)] v)"
    using other(3) by (auto intro!: put_known_rows [OF ok] simp del: put_batch_simps)
qed

lemma one_row_keeps:
  assumes "vault_ok v" "account (v chain) operation = Some r" "evolves chain r r1"
  shows "vault_keeps v (put_batch [(chain, OperationRow operation r1)] v)"
  using assms by (auto intro!: put_known_rows simp: known_rows_def simp del: put_batch_simps)

lemma cancel_locked_sound:
  assumes ok: "vault_ok v"
  shows "sound v (cancel_swap_use_locked chain operation use v)"
  unfolding cancel_swap_use_locked_def
proof (rule commit_sound [OF ok], goal_cases)
  case (1 e)
  then show ?case
    using source_of_use_ok(1) [OF ok] destination_of_use_ok(1) [OF ok]
    by (auto simp: and_then_eq_Inl split: if_splits)
next
  case (2 a rows)
  then obtain r approval link destination where
    source: "source_of_use operation use (v chain) = Inr (r, approval, link)"
    and found: "destination_of_use chain operation use r link v = Inr destination"
    and result: "(a, rows) = cancel_accounts chain operation use r destination"
    by (auto simp: and_then_eq_Inr split: if_splits)
  have r: "account (v chain) operation = Some r" using source_of_use_ok(2) [OF ok source] by simp
  show ?case
  proof (cases destination)
    case None
    then have "rows = [(chain, OperationRow operation (snd (cancel_swap_use use r)))]"
      using result by (auto simp: cancel_accounts_def Let_def split: prod.splits)
    then show ?thesis using one_row_keeps [OF ok r cancel_evolves] by simp
  next
    case (Some p)
    then obtain c s where s: "destination = Some (c, s)" by (cases p) auto
    then have rows: "rows = [(chain, OperationRow operation (snd (cancel_swap_use use r))),
        (c, OperationRow (er_operation s) (snd (cancel_swap_use use s)))]"
      using result by (auto simp: cancel_accounts_def Let_def split: prod.splits)
    have "account (v c) (er_operation s) = Some s" "c \<noteq> chain"
      using destination_of_use_ok(2) [OF ok found [unfolded s]] by blast+
    then show ?thesis unfolding rows by (rule two_rows_keep(1) [OF ok r cancel_evolves _ cancel_evolves])
  qed
qed

lemma cancel_sound:
  assumes ok: "vault_ok v"
  shows "sound v (cancel_claim env chain operation use v)" "sound v (cancel_swap_use_by_id env chain use v)"
proof -
  show "sound v (cancel_claim env chain operation use v)"
    unfolding cancel_claim_def by (rule sound_guarded [OF ok]) (rule cancel_locked_sound [OF ok])
  obtain rs where rs: "records (v chain) = Inr rs" by (rule records_ok [OF vault_okD [OF ok]]) blast
  have "sound v (bind_outcome (cancel_swap_use_locked chain k use v) (\<lambda>c v1. (Inr (k, c), v1)))" for k
    using cancel_locked_sound [OF ok, of chain k use]
    by (auto simp: bind_outcome_def sound_def split: prod.split sum.split)
  then show "sound v (cancel_swap_use_by_id env chain use v)"
    unfolding cancel_swap_use_by_id_def
    by (intro sound_guarded [OF ok]) (auto simp: rs sound_refused [OF ok] split: option.split)
qed

lemma stop_account_evolves [simp]: "evolves chain r (stop_account orderless use r)"
  by (simp add: stop_account_def)

lemma stop_in_batch_ok:
  assumes ok: "vault_ok v" and r: "account (v chain) operation = Some r"
  shows "stop_swap_use_in_batch chain v r \<noteq> Inl e"
    "stop_swap_use_in_batch chain v r = Inr (r1, rows) \<Longrightarrow>
      evolves chain r r1
      \<and> (rows = [] \<or> (\<exists>c s s1. rows = [(c, OperationRow (er_operation s) s1)]
            \<and> account (v c) (er_operation s) = Some s \<and> evolves c s s1 \<and> c \<noteq> chain))"
proof -
  note linked = linked_account_ok [OF ok r active_use_found]
  show "stop_swap_use_in_batch chain v r \<noteq> Inl e"
    using linked(1) by (auto simp: stop_swap_use_in_batch_def and_then_eq_Inl Let_def split: option.split)
  assume run: "stop_swap_use_in_batch chain v r = Inr (r1, rows)"
  show "evolves chain r r1
      \<and> (rows = [] \<or> (\<exists>c s s1. rows = [(c, OperationRow (er_operation s) s1)]
            \<and> account (v c) (er_operation s) = Some s \<and> evolves c s s1 \<and> c \<noteq> chain))"
  proof (cases "active_use r")
    case None
    then show ?thesis using run by (simp add: stop_swap_use_in_batch_def)
  next
    case (Some active)
    then obtain other where other: "linked_account chain v r active = Inr other"
      and result: "r1 = stop_account (is_orderless r active other) (su_id active) r"
        "rows = (case other of None \<Rightarrow> [] | Some (c, x) \<Rightarrow>
          [(c, OperationRow (er_operation x) (stop_account (is_orderless r active other) (su_id active) x))])"
      using run by (auto simp: stop_swap_use_in_batch_def and_then_eq_Inr Let_def)
    show ?thesis
    proof (cases other)
      case None
      then show ?thesis using result by simp
    next
      case (Some p)
      then obtain c x where p: "other = Some (c, x)" by (cases p) auto
      then have "account (v c) (er_operation x) = Some x" "c \<noteq> chain"
        using linked(2) [OF \<open>active_use r = Some active\<close>] other by blast+
      then show ?thesis using result p stop_account_evolves by auto
    qed
  qed
qed

lemma stop_swap_use_sound:
  assumes ok: "vault_ok v"
  shows "sound v (stop_swap_use env chain operation v)"
  unfolding stop_swap_use_def
proof (rule sound_guarded [OF ok], rule commit_sound [OF ok], goal_cases)
  case (1 e)
  then show ?case
    using stop_in_batch_ok(1) [OF ok]
    by (auto simp: vault_found_record [OF ok] and_then_eq_Inl ok_or_eq_Inl ok_or_eq_Inr split: if_splits)
next
  case (2 a rows)
  then obtain r where r: "account (v chain) operation = Some r"
    and run: "(if active_use r = None then Inr (r, [])
      else and_then (stop_swap_use_in_batch chain v r) (\<lambda>(r1, rows). Inr (r1, rows @ [(chain, OperationRow operation r1)])))
      = Inr (a, rows)"
    by (auto simp: vault_found_record [OF ok] and_then_eq_Inr ok_or_eq_Inr)
  show ?case
  proof (cases "active_use r = None")
    case True
    then show ?thesis using run by (simp add: vault_keeps_refl [OF ok])
  next
    case False
    then obtain r1 rows1 where stop: "stop_swap_use_in_batch chain v r = Inr (r1, rows1)"
      and rows: "rows = rows1 @ [(chain, OperationRow operation r1)]"
      using run by (auto simp: and_then_eq_Inr)
    note parts = stop_in_batch_ok(2) [OF ok r stop]
    show ?thesis
    proof (cases "rows1 = []")
      case True
      then show ?thesis using one_row_keeps [OF ok r] parts rows by simp
    next
      case False
      then obtain c s s1 where rows1: "rows1 = [(c, OperationRow (er_operation s) s1)]"
        and s: "account (v c) (er_operation s) = Some s" "evolves c s s1" "c \<noteq> chain"
        using parts by blast
      show ?thesis unfolding rows rows1 using two_rows_keep(2) [OF ok r _ s] parts by simp
    qed
  qed
qed

section \<open>Replacing an account\<close>

text \<open>The rows of a replacement leave every account but the new one and the displaced spare's alone.\<close>

lemma replacement_cases:
  assumes ok: "vault_ok v" and new: "account (v chain) operation = None"
    and fresh: "fresh_draws env v operations" "operation \<in> set operations" and role: "role_ok chain [] role"
    and run: "allocate_swap_replacement env chain operation delegate purpose assets use role started_at v = (x, v')"
  obtains (refused) e where "v' = v" "x = Inl e" "\<not> store_fault e"
  | (allocated) r rows where "v' = v" "x = Inr (r, map (Pair chain) rows)" "keeps chain (v chain) (put_rows rows (v chain))"
      "\<And>key. key \<noteq> operation \<Longrightarrow> account (v chain) key \<noteq> None \<Longrightarrow>
        account (put_rows rows (v chain)) key = account (v chain) key"
proof -
  obtain y cs' where run': "allocate_record env operation delegate purpose assets (Some (use, role)) (v chain) = (y, cs')"
    by fastforce
  note result = run [unfolded allocate_swap_replacement_def on_chain_def run']
  show thesis
    using vault_okD [OF ok] new fresh_unused [OF fresh(1)] fresh_named [OF fresh] run'
  proof (cases rule: allocate_record_ok)
    case (refused e)
    have "v' = v" "x = Inl e" using result refused(1,2) by (auto simp: bind_outcome_def)
    then show thesis using refused(3) that(1) by auto
  next
    case (allocated r rows)
    define r1 where "r1 = r\<lparr>er_swap_uses := update_use use (\<lambda>u. u\<lparr>su_started_at := started_at\<rparr>) (er_swap_uses r)\<rparr>"
    have r: "body_ok chain r" "er_operation r = operation"
      using new_record_body [OF allocated(3)] allocated(3) role by (auto simp: new_record_ok_def)
    moreover have step: "evolves chain r r1" unfolding r1_def by (rule use_evolves) (simp_all add: use_change_def)
    ultimately have r1: "body_ok chain r1" "er_operation r1 = operation" "er_index r1 = er_index r"
      "er_issued r1 = []"
      using allocated(3) evolves_continues [OF step] by (auto simp: evolves_def continues_def new_record_ok_def r1_def)
    have "filter (\<lambda>row. case row of OperationRow key _ \<Rightarrow> key \<noteq> operation | AllocationRow _ \<Rightarrow> True) rows = rows"
      using allocated(5) by (auto simp: filter_id_conv split: row.split)
    then have "v' = v" "x = Inr (r1, map (Pair chain) (rows @ [OperationRow operation r1]))"
      using result allocated(1,2) by (auto simp: bind_outcome_def Let_def r1_def)
    moreover have "keeps chain (v chain) (put_rows (rows @ [OperationRow operation r1]) (v chain))"
      using allocated(6) allocated(8) [OF r1] keeps_trans by auto
    moreover have "account (put_rows (rows @ [OperationRow operation r1]) (v chain)) key = account (v chain) key"
      if "key \<noteq> operation" "account (v chain) key \<noteq> None" for key
    proof -
      have "account (put_rows rows (v chain)) key = account (v chain) key"
        using allocated(7) [of key] that(2) fresh(1) unfolding fresh_draws_def by metis
      then show ?thesis using that(1) account_put [OF r1(1,2)] by simp
    qed
    ultimately show thesis by (rule that(2))
  qed
qed

text \<open>Rows written after a replacement, of accounts on the two chains of the use.\<close>

lemma put_after_replacement:
  assumes ok: "vault_ok v" and rows: "keeps chain (v chain) (put_rows rows (v chain))"
    and kept: "\<And>key. key \<noteq> operation \<Longrightarrow> account (v chain) key \<noteq> None \<Longrightarrow>
        account (put_rows rows (v chain)) key = account (v chain) key"
    and known: "known_rows v later" "distinct (map row_key later)" "(chain, operation) \<notin> row_key ` set later"
  shows "vault_keeps v (put_batch (map (Pair chain) rows @ later) v)"
proof -
  let ?v = "v(chain := put_rows rows (v chain))"
  have first: "vault_keeps v ?v" by (rule vault_keeps_upd [OF ok rows])
  have "known_rows ?v later"
    unfolding known_rows_def
  proof safe
    fix c row assume row: "(c, row) \<in> set later"
    then obtain key old r where parts: "row = OperationRow key r" "account (v c) key = Some old" "evolves c old r"
      using known(1) by (fastforce simp: known_rows_def)
    have "\<not> (c = chain \<and> key = operation)" using known(3) row parts(1) by force
    then have "account (?v c) key = Some old" using kept [of key] parts(2) by auto
    then show "\<exists>key old r. row = OperationRow key r \<and> account (?v c) key = Some old \<and> evolves c old r"
      using parts by blast
  qed
  then have "vault_keeps ?v (put_batch later ?v)" by (rule put_known_rows [OF vault_keeps_ok [OF first] _ known(2)])
  then show ?thesis using first vault_keeps_trans by (auto simp: put_batch_chain)
qed

lemma replace_source_sound:
  assumes ok: "vault_ok v" and fresh: "fresh_draws env v [replacement]"
    and source: "account (v chain) operation = Some source"
      "map_option su_role (swap_use use source) = Some (Source approval link)"
    and destination: "\<And>c r. destination = Some (c, r) \<Longrightarrow> account (v c) (er_operation r) = Some r \<and> c \<noteq> chain"
  shows "sound v (replace_source env chain operation use replacement source approval link destination v)"
proof -
  let ?check = "and_then (ok_or (replaceable_swap_use use source) OperationMismatch) (\<lambda>u.
         if er_swap source \<noteq> None then Inl OperationMismatch
         else and_then (record_of replacement (v chain)) (\<lambda>found.
           if found \<noteq> None then Inl OperationMismatch else Inr (su_started_at u)))"
  show ?thesis
  proof (cases ?check)
    case (Inl e)
    then have "\<not> store_fault e"
      by (auto simp: and_then_eq_Inl ok_or_eq_Inl ok_or_eq_Inr vault_record_of [OF ok] split: if_splits)
    then show ?thesis unfolding replace_source_def Inl by (simp add: sound_refused [OF ok])
  next
    case (Inr started_at)
    then have new: "account (v chain) replacement = None"
      by (auto simp: and_then_eq_Inr vault_record_of [OF ok] split: if_splits)
    let ?role = "Source (map_option forget_source_address approval) link"
    obtain x v' where run: "allocate_swap_replacement env chain replacement (er_delegate source) (er_purpose_summary source)
        (er_assets source) use ?role started_at v = (x, v')" by fastforce
    have role: "role_ok chain [] ?role" "replacement \<in> set [replacement]" by (simp_all add: role_ok_def)
    show ?thesis
      using ok new fresh role(2,1) run
    proof (cases rule: replacement_cases)
      case (refused e)
      then show ?thesis unfolding replace_source_def Inr sum.case run by (simp add: bind_outcome_def sound_refused [OF ok])
    next
      case (allocated r rows)
      define linked where "linked = map_option (\<lambda>(c, x). (c, with_role use (relink_origin replacement) x)) destination"
      define later where "later = (case linked of None \<Rightarrow> [] | Some (c, x) \<Rightarrow> [(c, OperationRow (er_operation x) x)])
        @ [(chain, OperationRow operation (release_replaced_swap_use use source))]"
      have same: "er_operation (with_role use f x) = er_operation x" for f x by (simp add: with_role_def)
      obtain u where u: "replaceable_swap_use use source = Some u" using Inr by (auto simp: and_then_eq_Inr ok_or_eq_Inr)
      then have "su_role u = Source approval link" using source(2) replaceable_some by fastforce
      then have "\<not> public_role (su_role u)" by (simp add: public_role_def)
      note released = release_replaced_evolves [OF vault_account(2) [OF ok source(1)] u this]
      have "operation \<noteq> replacement" using source(1) new by auto
      then have "known_rows v later" "distinct (map row_key later)" "(chain, replacement) \<notin> row_key ` set later"
        using source(1) destination released
        by (auto simp: later_def linked_def known_rows_def same split: option.splits)
      then have "vault_keeps v (put_batch (map (Pair chain) rows @ later) v)"
        using put_after_replacement [OF ok allocated(3), of replacement later] allocated(4) by blast
      then show ?thesis
        unfolding replace_source_def Inr sum.case run
        using allocated(1,2) sound_accepted by (simp add: bind_outcome_def commit_def Let_def linked_def later_def)
    qed
  qed
qed

end

end
