(* ===== verification/ReconcileOperations.thy ===== *)
theory ReconcileOperations
  imports VaultOperations
begin

text \<open>
  Replacing an account of a use and reconciling the destination accounts of a chain keep the accounts of
  the vault. Reconciliation writes each account at most once: the chain's own records, and origins on
  other chains.
\<close>

section \<open>Links of a record\<close>

lemma note_use_id: "su_id (note_use stop next u) = su_id u"
  by (simp add: note_use_def split: swap_use_role.split)

text \<open>A link names the outcome that its use has in the record.\<close>

definition link_current :: "executor_record \<Rightarrow> swap_use_id \<Rightarrow> destination_outcome option \<Rightarrow> bool" where
  "link_current r use known \<longleftrightarrow>
    (\<forall>u \<in> set (er_swap_uses r). su_id u = use \<longrightarrow>
      (case su_role u of Destination _ _ _ _ outcome \<Rightarrow> outcome = known | _ \<Rightarrow> True))"

lemma note_use_change:
  assumes "case su_role u of Destination _ _ _ _ outcome \<Rightarrow> outcome = known | _ \<Rightarrow> True"
  shows "use_change chain hashes (note_use stop (next_destination_outcome known derived)) u"
proof (cases "su_role u")
  case (Destination c k token shields outcome)
  then show ?thesis using assms
    by (auto simp: use_change_def note_use_def role_ok_def delivery_ok_def fill_facts_def
      next_destination_outcome_def is_filled_def split: option.splits destination_outcome.splits if_splits)
qed (simp_all add: use_change_def note_use_def)

text \<open>The other uses keep their roles.\<close>

definition others_kept :: "swap_use_id \<Rightarrow> executor_record \<Rightarrow> executor_record \<Rightarrow> bool" where
  "others_kept use r s \<longleftrightarrow>
    (\<forall>u \<in> set (er_swap_uses s). su_id u \<noteq> use \<longrightarrow> (\<exists>w \<in> set (er_swap_uses r). su_id w = su_id u \<and> su_role w = su_role u))"

lemma update_use_others:
  "(\<And>u. su_id (f u) = su_id u) \<Longrightarrow> u \<in> set (update_use use f us) \<Longrightarrow> su_id u \<noteq> use \<Longrightarrow> u \<in> set us"
  by (induction us) (auto split: if_splits)

lemma update_use_roles:
  "(\<And>u. su_id (f u) = su_id u \<and> su_role (f u) = su_role u) \<Longrightarrow>
    map (\<lambda>u. (su_id u, su_role u)) (update_use use f us) = map (\<lambda>u. (su_id u, su_role u)) us"
  by (induction us) auto

lemma cancel_roles:
  "map (\<lambda>u. (su_id u, su_role u)) (er_swap_uses (snd (cancel_swap_use use r)))
    = map (\<lambda>u. (su_id u, su_role u)) (er_swap_uses r)"
  by (auto simp: cancel_swap_use_def Let_def update_use_roles split: option.split swap_use_role.split prod.split)

lemma same_roles_current:
  "map (\<lambda>u. (su_id u, su_role u)) (er_swap_uses s) = map (\<lambda>u. (su_id u, su_role u)) (er_swap_uses r)
    \<Longrightarrow> u \<in> set (er_swap_uses s) \<Longrightarrow> \<exists>w \<in> set (er_swap_uses r). su_id w = su_id u \<and> su_role w = su_role u"
proof -
  assume same: "map (\<lambda>u. (su_id u, su_role u)) (er_swap_uses s) = map (\<lambda>u. (su_id u, su_role u)) (er_swap_uses r)"
    and u: "u \<in> set (er_swap_uses s)"
  from u have "(su_id u, su_role u) \<in> set (map (\<lambda>u. (su_id u, su_role u)) (er_swap_uses s))" by simp
  then have "(su_id u, su_role u) \<in> set (map (\<lambda>u. (su_id u, su_role u)) (er_swap_uses r))"
    by (simp only: same)
  then show ?thesis by auto
qed

lemma link_current_same:
  assumes "map (\<lambda>u. (su_id u, su_role u)) (er_swap_uses s) = map (\<lambda>u. (su_id u, su_role u)) (er_swap_uses r)"
    and "link_current r use known"
  shows "link_current s use known"
  using same_roles_current [OF assms(1)] assms(2) unfolding link_current_def by metis

lemma others_kept_current: "others_kept use r s \<Longrightarrow> use' \<noteq> use \<Longrightarrow> link_current r use' known \<Longrightarrow> link_current s use' known"
  unfolding others_kept_def link_current_def by metis

lemma links_good:
  assumes "body_ok chain r"
  defines "links \<equiv> List.map_filter destination_link (er_swap_uses r)"
  shows "\<forall>(use, c, k, known) \<in> set links. c \<noteq> chain \<and> link_current r use known" "distinct (map fst links)"
proof -
  have entry: "\<exists>u token shields. u \<in> set (er_swap_uses r) \<and> su_id u = use \<and> su_role u = Destination c k token shields known"
    if "(use, c, k, known) \<in> set links" for use c k known
    using that by (force simp: links_def List.map_filter_def destination_link_def split: swap_use_role.splits)
  have unique: "u = w" if "u \<in> set (er_swap_uses r)" "w \<in> set (er_swap_uses r)" "su_id u = su_id w" for u w
    using assms(1) that by (auto simp: body_ok_def distinct_map inj_on_def)
  have "c \<noteq> chain \<and> link_current r use known" if link: "(use, c, k, known) \<in> set links" for use c k known
  proof -
    obtain u token shields where u: "u \<in> set (er_swap_uses r)" "su_id u = use" "su_role u = Destination c k token shields known"
      using entry [OF link] by blast
    have "link_current r use known" unfolding link_current_def
    proof (intro ballI impI)
      fix w assume "w \<in> set (er_swap_uses r)" "su_id w = use"
      then have "w = u" using unique u by auto
      then show "case su_role w of Destination _ _ _ _ outcome \<Rightarrow> outcome = known | _ \<Rightarrow> True" using u by simp
    qed
    moreover have "c \<noteq> chain" using u assms(1) by (auto simp: body_ok_def list_all_iff role_ok_def)
    ultimately show ?thesis by blast
  qed
  then show "\<forall>(use, c, k, known) \<in> set links. c \<noteq> chain \<and> link_current r use known" by auto
  have "map fst links = map su_id (filter (\<lambda>u. destination_link u \<noteq> None) (er_swap_uses r))"
    unfolding links_def by (induction "er_swap_uses r") (auto simp: List.map_filter_def destination_link_def split: swap_use_role.splits)
  then show "distinct (map fst links)" using assms(1) by (simp add: body_ok_def distinct_map_filter)
qed

context record_relation
begin

section \<open>Replacing\<close>

lemma replace_destination_sound:
  assumes ok: "vault_ok v" and fresh: "fresh_draws env v [replacement]"
    and source: "account (v chain) operation = Some source"
      "map_option su_role (swap_use use source) = Some (Source approval link)"
    and destination: "\<And>c r. destination = Some (c, r) \<Longrightarrow> account (v c) (er_operation r) = Some r \<and> c \<noteq> chain"
  shows "sound v (replace_destination env chain operation use replacement source approval destination v)"
proof -
  let ?check = "and_then (ok_or destination OperationMismatch) (\<lambda>(c, retired).
         and_then (ok_or (replaceable_destination use retired) OperationMismatch) (\<lambda>(started_at, token).
           and_then (record_of replacement (v c)) (\<lambda>found.
             if found \<noteq> None then Inl OperationMismatch else Inr (c, retired, started_at, token))))"
  show ?thesis
  proof (cases ?check)
    case (Inl e)
    then have "\<not> store_fault e"
      by (auto simp: and_then_eq_Inl ok_or_eq_Inl ok_or_eq_Inr vault_record_of [OF ok]
        split: if_splits)
    then show ?thesis unfolding replace_destination_def Inl by (simp add: sound_refused [OF ok])
  next
    case (Inr found)
    obtain c retired started_at token where found: "found = (c, retired, started_at, token)" by (cases found) auto
    have parts: "destination = Some (c, retired)" "account (v c) replacement = None"
      using Inr found
      by (auto simp: and_then_eq_Inr ok_or_eq_Inr vault_record_of [OF ok] split: if_splits)
    let ?role = "Destination chain operation token [] None"
    obtain x v' where run: "allocate_swap_replacement env c replacement (er_delegate retired)
        (Some SWAP_DESTINATION_PURPOSE_SUMMARY) [Erc20 token] use ?role started_at v = (x, v')" by fastforce
    note side = destination [OF parts(1)]
    have role: "role_ok c [] ?role" "replacement \<in> set [replacement]" using side by (auto simp: role_ok_def delivery_ok_def is_filled_def)
    show ?thesis
      using ok parts(2) fresh role(2,1) run
    proof (cases rule: replacement_cases)
      case (refused e)
      then show ?thesis unfolding replace_destination_def Inr found sum.case prod.case run
        by (simp add: bind_outcome_def sound_refused [OF ok])
    next
      case (allocated r rows)
      define source1 where "source1 = with_role use (\<lambda>_. Source (map_option forget_destination approval) (Some replacement)) source"
      define later where "later = [(chain, OperationRow operation source1),
        (c, OperationRow (er_operation retired) (release_replaced_swap_use use retired))]"
      obtain u where "swap_use use source = Some u" "source_role (su_role u)"
        using source(2) by (auto simp: source_role_def)
      then have "evolves chain source source1"
        unfolding source1_def using source_role_evolves vault_account(2) [OF ok source(1)] by blast
      moreover obtain w where w: "replaceable_swap_use use retired = Some w" "\<not> public_role (su_role w)"
        using Inr found parts(1)
        by (auto simp: and_then_eq_Inr ok_or_eq_Inr replaceable_destination_def public_role_def
          split: option.splits swap_use_role.splits)
      then have "evolves c retired (release_replaced_swap_use use retired)"
        using release_replaced_evolves vault_account(2) [OF ok, of c] side by blast
      moreover have "er_operation retired \<noteq> replacement" using side parts(2) by auto
      ultimately have "known_rows v later" "distinct (map row_key later)" "(c, replacement) \<notin> row_key ` set later"
        using source side by (auto simp: later_def known_rows_def)
      then have "vault_keeps v (put_batch (map (Pair c) rows @ later) v)"
        using put_after_replacement [OF ok allocated(3), of replacement later] allocated(4) by blast
      then show ?thesis
        unfolding replace_destination_def Inr found sum.case prod.case run
        using allocated(1,2)
        by (simp add: bind_outcome_def commit_def Let_def source1_def later_def sound_accepted del: put_batch_simps)
    qed
  qed
qed

lemma replace_swap_use_account_sound:
  assumes ok: "vault_ok v" and fresh: "fresh_draws env v [replacement]"
  shows "sound v (replace_swap_use_account env chain operation use side replacement v)"
  unfolding replace_swap_use_account_def
proof (rule sound_guarded [OF ok])
  let ?found = "and_then (source_of_use operation use (v chain)) (\<lambda>(source, approval, link).
      if has_swap_use_order use source then Inl OperationMismatch
      else and_then (destination_of_use chain operation use source link v)
        (\<lambda>destination. Inr (source, approval, link, destination)))"
  show "sound v (case ?found of
        Inl e \<Rightarrow> (Inl e, v)
      | Inr (source, approval, link, destination) \<Rightarrow>
          (case side of
             SourceSide \<Rightarrow> replace_source env chain operation use replacement source approval link destination v
           | DestinationSide \<Rightarrow> replace_destination env chain operation use replacement source approval destination v))"
  proof (cases ?found)
    case (Inl e)
    then have "\<not> store_fault e"
      using source_of_use_ok(1) [OF ok] destination_of_use_ok(1) [OF ok] by (auto simp: and_then_eq_Inl split: if_splits)
    then show ?thesis unfolding Inl by (simp add: sound_refused [OF ok])
  next
    case (Inr t)
    obtain source approval link destination where t: "t = (source, approval, link, destination)" by (cases t) auto
    have found: "source_of_use operation use (v chain) = Inr (source, approval, link)"
      "destination_of_use chain operation use source link v = Inr destination"
      using Inr t by (auto simp: and_then_eq_Inr split: if_splits)
    have known: "account (v chain) operation = Some source"
      "map_option su_role (swap_use use source) = Some (Source approval link)"
      using source_of_use_ok(2) [OF ok found(1)] by simp_all
    have other: "account (v c) (er_operation r) = Some r \<and> c \<noteq> chain" if "destination = Some (c, r)" for c r
      using destination_of_use_ok(2) [OF ok, of chain operation use source link c r] found(2) that by simp
    have "sound v (replace_source env chain operation use replacement source approval link destination v)"
      by (rule replace_source_sound [OF ok fresh known]) (rule other)
    moreover have "sound v (replace_destination env chain operation use replacement source approval destination v)"
      by (rule replace_destination_sound [OF ok fresh known]) (rule other)
    ultimately show ?thesis unfolding Inr t sum.case prod.case by (cases side) simp_all
  qed
qed

section \<open>Reconciling\<close>

lemma reconcile_linked_evolves:
  assumes run: "reconcile_linked use known r origin = (r1, origin1)" and current: "link_current r use known"
  shows "evolves chain r r1" "evolves c origin origin1" "others_kept use r r1"
proof -
  define b where "b = (er_swap_setup_stopped origin \<and> known = None \<or> (case swap_use use origin of None \<Rightarrow> False | Some u \<Rightarrow> su_stopped u))"
  define fresh where "fresh = (er_active_swap_use r = Some use \<and> (case swap_use use r of None \<Rightarrow> False | Some u \<Rightarrow> su_fresh u))"
  obtain origin' r' where step: "(origin', r') =
      (if b \<and> \<not> has_swap_use_order use origin then (snd (cancel_swap_use use origin), snd (cancel_swap_use use r))
       else if (er_swap_setup_stopped origin \<and> known = None) \<and> fresh
       then (origin, r\<lparr>er_swap_setup_stopped := True, er_retired := True\<rparr>) else (origin, r))"
    by (metis surj_pair)
  have parts: "evolves chain r r'" "evolves c origin origin'"
    "map (\<lambda>u. (su_id u, su_role u)) (er_swap_uses r') = map (\<lambda>u. (su_id u, su_role u)) (er_swap_uses r)"
    using step by (auto simp: flags_evolve cancel_roles split: if_splits)
  obtain derived where result: "r1 = r'\<lparr>er_swap_uses :=
      update_use use (note_use b (next_destination_outcome known derived)) (er_swap_uses r')\<rparr>" "origin1 = origin'"
    using run unfolding reconcile_linked_def Let_def b_def [symmetric] fresh_def [symmetric] step [symmetric]
    by auto
  have "link_current r' use known" using link_current_same [OF parts(3) current] .
  then have "evolves chain r' r1" unfolding result(1)
    by (intro use_evolves note_use_change) (auto simp: note_use_id link_current_def)
  then show "evolves chain r r1" using parts(1) evolves_trans by blast
  show "evolves c origin origin1" using parts(2) result(2) by simp
  show "others_kept use r r1"
    unfolding others_kept_def
  proof (intro ballI impI)
    fix u assume "u \<in> set (er_swap_uses r1)" "su_id u \<noteq> use"
    then have "u \<in> set (er_swap_uses r')" using update_use_others [OF note_use_id] by (simp add: result(1))
    then show "\<exists>w \<in> set (er_swap_uses r). su_id w = su_id u \<and> su_role w = su_role u"
      by (rule same_roles_current [OF parts(3)])
  qed
qed

text \<open>The origins read so far: one entry for each, carried on from its record on another chain.\<close>

definition origins_ok :: "u64 \<Rightarrow> vault \<Rightarrow> origins \<Rightarrow> bool" where
  "origins_ok chain v origins \<longleftrightarrow>
    distinct (map fst origins)
    \<and> (\<forall>c k found. ((c, k), found) \<in> set origins \<longrightarrow> c \<noteq> chain
        \<and> (\<forall>r. found = Some r \<longrightarrow> (\<exists>old. account (v c) k = Some old \<and> evolves c old r)))"

lemma origins_okD:
  assumes "origins_ok chain v origins" "((c, k), Some r) \<in> set origins"
  shows "c \<noteq> chain" "\<exists>old. account (v c) k = Some old \<and> evolves c old r"
  using assms unfolding origins_ok_def by blast+

lemma read_origin_ok:
  assumes ok: "vault_ok v" and origins: "origins_ok chain v origins" and c: "c \<noteq> chain"
  obtains found origins1 where "read_origin v (c, k) origins = Inr (found, origins1)" "origins_ok chain v origins1"
    "((c, k), found) \<in> set origins1"
proof (cases "map_of origins (c, k)")
  case (Some found)
  then show thesis using that origins by (auto simp: read_origin_def dest: map_of_SomeD)
next
  case None
  define found where "found = account (v c) k"
  have "read_origin v (c, k) origins = Inr (found, origins @ [((c, k), found)])"
    using None by (simp add: read_origin_def vault_record_of [OF ok] found_def)
  moreover have "(c, k) \<notin> fst ` set origins" using None by (simp add: map_of_eq_None_iff)
  then have "origins_ok chain v (origins @ [((c, k), found)])"
    using origins c by (auto simp: origins_ok_def found_def)
  ultimately show thesis using that by auto
qed

lemma update_origin_ok:
  assumes origins: "origins_ok chain v origins" and known: "((c, k), Some r) \<in> set origins" and step: "evolves c r r1"
  shows "origins_ok chain v (AList.update (c, k) (Some r1) origins)"
proof -
  have dist: "distinct (map fst origins)" using origins by (simp add: origins_ok_def)
  have entry: "found = Some r1 \<and> (c', k') = (c, k) \<or> ((c', k'), found) \<in> set origins"
    if "((c', k'), found) \<in> set (AList.update (c, k) (Some r1) origins)" for c' k' found
  proof -
    have "map_of (AList.update (c, k) (Some r1) origins) (c', k') = Some found"
      using that dist by (simp add: distinct_update map_of_is_SomeI)
    then show ?thesis by (auto simp: AList.update_conv' split: if_splits dest: map_of_SomeD)
  qed
  obtain old where "account (v c) k = Some old" "evolves c old r" "c \<noteq> chain"
    using origins_okD [OF origins known] by blast
  then have new: "c \<noteq> chain" "\<exists>old. account (v c) k = Some old \<and> evolves c old r1"
    using step evolves_trans by blast+
  show ?thesis
    unfolding origins_ok_def
  proof (intro conjI allI impI)
    show "distinct (map fst (AList.update (c, k) (Some r1) origins))" using dist by (rule distinct_update)
    fix c' k' found assume "((c', k'), found) \<in> set (AList.update (c, k) (Some r1) origins)"
    note cases = entry [OF this]
    show "c' \<noteq> chain" using cases new(1) origins unfolding origins_ok_def by blast
    show "\<exists>old. account (v c') k' = Some old \<and> evolves c' old s" if "found = Some s" for s
      using cases new(2) origins that unfolding origins_ok_def by blast
  qed
qed

lemma reconcile_use_ok:
  assumes ok: "vault_ok v" and origins: "origins_ok chain v origins" and c: "c \<noteq> chain"
    and current: "link_current r use known"
  obtains r1 origins1 where "reconcile_use v orphans (use, c, k, known) (r, origins) = Inr (r1, origins1)"
    "evolves chain r r1" "origins_ok chain v origins1" "others_kept use r r1"
proof -
  obtain found origins1 where read: "read_origin v (c, k) origins = Inr (found, origins1)"
    and good: "origins_ok chain v origins1" "((c, k), found) \<in> set origins1"
    by (rule read_origin_ok [OF ok origins c])
  show thesis
  proof (cases "\<exists>origin. found = Some origin \<and> links_swap_destination use (er_operation r) origin")
    case True
    then obtain origin where origin: "found = Some origin" "links_swap_destination use (er_operation r) origin" by blast
    obtain r1 origin1 where linked: "reconcile_linked use known r origin = (r1, origin1)" by fastforce
    note evolve = reconcile_linked_evolves [OF linked current]
    have "origins_ok chain v (AList.update (c, k) (Some origin1) origins1)"
      using update_origin_ok [OF good(1)] good(2) origin(1) evolve(2) by blast
    then show thesis using that evolve(1,3) read origin linked by (simp add: reconcile_use_def)
  next
    case False
    then have "reconcile_use v orphans (use, c, k, known) (r, origins) = Inr (retire_orphan orphans use r, origins1)"
      using read by (auto simp: reconcile_use_def split: option.split)
    moreover have "others_kept use r (retire_orphan orphans use r)"
      by (auto simp: others_kept_def retire_orphan_def Let_def)
    ultimately show thesis using that good(1) retire_orphan_evolves by blast
  qed
qed

lemma reconcile_uses_ok:
  assumes "vault_ok v" "origins_ok chain v origins"
    "\<forall>(use, c, k, known) \<in> set links. c \<noteq> chain \<and> link_current r use known" "distinct (map fst links)"
  shows "\<exists>r1 origins1. reconcile_uses v orphans links (r, origins) = Inr (r1, origins1)
    \<and> evolves chain r r1 \<and> origins_ok chain v origins1"
  using assms
proof (induction links arbitrary: r origins)
  case (Cons link links)
  obtain use c k known where link: "link = (use, c, k, known)" by (cases link) auto
  have here: "c \<noteq> chain" "link_current r use known" using Cons.prems(3) link by auto
  obtain r1 origins1 where one: "reconcile_use v orphans link (r, origins) = Inr (r1, origins1)"
    "evolves chain r r1" "origins_ok chain v origins1" "others_kept use r r1"
    unfolding link by (rule reconcile_use_ok [OF Cons.prems(1,2) here, of orphans k])
  have "link_current r1 use' known'" if "(use', c', k', known') \<in> set links" for use' c' k' known'
  proof (rule others_kept_current [OF one(4)])
    show "use' \<noteq> use" using that Cons.prems(4) link by force
    show "link_current r use' known'" using that Cons.prems(3) by auto
  qed
  then obtain r2 origins2 where "reconcile_uses v orphans links (r1, origins1) = Inr (r2, origins2)"
    "evolves chain r1 r2" "origins_ok chain v origins2"
    using Cons.IH [OF Cons.prems(1) one(3), of r1] Cons.prems(3,4) by fastforce
  then show ?case using one evolves_trans by force
qed simp

text \<open>The rows of the chain's own records.\<close>

lemma reconcile_records_ok:
  assumes ok: "vault_ok v"
  shows "origins_ok chain v origins \<Longrightarrow> (\<And>r. r \<in> set rs \<Longrightarrow> account (v chain) (er_operation r) = Some r)
    \<Longrightarrow> \<exists>rows origins1. reconcile_records chain v orphans rs origins = Inr (rows, origins1)
      \<and> origins_ok chain v origins1 \<and> known_rows v rows
      \<and> (distinct (map er_operation rs) \<longrightarrow> distinct (map row_key rows))
      \<and> row_key ` set rows \<subseteq> Pair chain ` er_operation ` set rs"
proof (induction rs arbitrary: origins)
  case Nil
  then show ?case by (simp add: known_rows_def)
next
  case (Cons r rs)
  have r: "account (v chain) (er_operation r) = Some r" using Cons.prems(2) by simp
  obtain r1 origins1 where one: "reconcile_uses v orphans (List.map_filter destination_link (er_swap_uses r)) (r, origins)
      = Inr (r1, origins1)" "evolves chain r r1" "origins_ok chain v origins1"
    using reconcile_uses_ok [OF ok Cons.prems(1) links_good [OF vault_account(2) [OF ok r]]] by blast
  obtain rows origins2 where rest: "reconcile_records chain v orphans rs origins1 = Inr (rows, origins2)"
    "origins_ok chain v origins2" "known_rows v rows" "distinct (map er_operation rs) \<longrightarrow> distinct (map row_key rows)"
    "row_key ` set rows \<subseteq> Pair chain ` er_operation ` set rs"
    using Cons.IH [OF one(3)] Cons.prems(2) by auto
  have same: "er_operation r1 = er_operation r" using evolves_continues [OF one(2)] by (simp add: continues_def)
  let ?mine = "if r1 \<noteq> r then [(chain, OperationRow (er_operation r1) r1)] else []"
  have "known_rows v (?mine @ rows)" using r rest(3) one(2) same by (auto simp: known_rows_def)
  moreover have "distinct (map row_key (?mine @ rows))" if "distinct (map er_operation (r # rs))"
    using that rest(4,5) same by auto
  moreover have "row_key ` set (?mine @ rows) \<subseteq> Pair chain ` er_operation ` set (r # rs)"
    using rest(5) same by auto
  ultimately show ?case using one(1) rest(1,2) by (simp add: same)
qed

lemma origin_rows_ok:
  assumes ok: "vault_ok v"
  shows "origins_ok chain v origins \<Longrightarrow> \<exists>rows. origin_rows v origins = Inr rows
    \<and> known_rows v rows \<and> distinct (map row_key rows) \<and> row_key ` set rows \<subseteq> fst ` set origins"
proof (induction origins)
  case Nil
  then show ?case by (simp add: known_rows_def)
next
  case (Cons entry rest)
  obtain c k found where entry: "entry = ((c, k), found)" by (cases entry) auto
  have later: "origins_ok chain v rest" "(c, k) \<notin> fst ` set rest"
    using Cons.prems entry by (auto simp: origins_ok_def)
  obtain rows where rows: "origin_rows v rest = Inr rows" "known_rows v rows" "distinct (map row_key rows)"
    "row_key ` set rows \<subseteq> fst ` set rest"
    using Cons.IH [OF later(1)] by blast
  show ?case
  proof (cases found)
    case None
    then show ?thesis using rows entry by auto
  next
    case (Some origin)
    then obtain old where old: "account (v c) k = Some old" "evolves c old origin"
      using origins_okD(2) [OF Cons.prems, of c k origin] entry by auto
    let ?mine = "if account (v c) k \<noteq> Some origin then [(c, OperationRow k origin)] else []"
    have "origin_rows v (entry # rest) = Inr (?mine @ rows)"
      using entry Some rows(1) by (simp add: vault_record_of [OF ok])
    moreover have "known_rows v (?mine @ rows)" using old rows(2) by (auto simp: known_rows_def)
    moreover have "distinct (map row_key (?mine @ rows))" using rows(3,4) later(2) by auto
    moreover have "row_key ` set (?mine @ rows) \<subseteq> fst ` set (entry # rest)" using rows(4) entry by auto
    ultimately show ?thesis by blast
  qed
qed

lemma reconcile_sound:
  assumes ok: "vault_ok v"
  shows "sound v (reconcile_swap_destinations_inner env chain orphans v)"
proof -
  obtain rs where rs: "records (v chain) = Inr rs" "\<And>r. r \<in> set rs \<longleftrightarrow> account (v chain) (er_operation r) = Some r"
    "distinct (map er_operation rs)"
    by (rule records_ok [OF vault_okD [OF ok, of chain]]) (rule that)
  have "origins_ok chain v []" by (simp add: origins_ok_def)
  then obtain rows origins where rows: "reconcile_records chain v orphans rs [] = Inr (rows, origins)"
    "origins_ok chain v origins" "known_rows v rows" "distinct (map row_key rows)"
    "row_key ` set rows \<subseteq> Pair chain ` er_operation ` set rs"
    using reconcile_records_ok [OF ok, of chain "[]" rs orphans] rs by blast
  obtain rows2 where rows2: "origin_rows v origins = Inr rows2" "known_rows v rows2" "distinct (map row_key rows2)"
    "row_key ` set rows2 \<subseteq> fst ` set origins"
    using origin_rows_ok [OF ok rows(2)] by blast
  have "c \<noteq> chain" if "((c, k), found) \<in> set origins" for c k found
    using rows(2) that unfolding origins_ok_def by blast
  then have "chain \<notin> fst ` fst ` set origins" by force
  moreover have "k \<in> row_key ` set rows \<Longrightarrow> fst k = chain" for k
    by (drule subsetD [OF rows(5)]) (elim imageE, simp)
  moreover have "k \<in> row_key ` set rows2 \<Longrightarrow> fst k \<in> fst ` fst ` set origins" for k
    using subsetD [OF rows2(4), of k] by (rule imageI)
  ultimately have "row_key ` set rows \<inter> row_key ` set rows2 = {}" by (metis IntE equals0I)
  then have "distinct (map row_key (rows @ rows2))" using rows(4) rows2(3) by simp
  moreover have "known_rows v (rows @ rows2)" using rows(3) rows2(2) by (auto simp: known_rows_def)
  ultimately have "vault_keeps v (put_batch (rows @ rows2) v)" using put_known_rows [OF ok] by blast
  then show ?thesis
    unfolding reconcile_swap_destinations_inner_def
    by (intro sound_guarded [OF ok] commit_sound [OF ok]) (auto simp: rs(1) rows(1) rows2(1))
qed

end

end
