(* ===== verification/SwapOrderOperations.thy ===== *)
theory SwapOrderOperations
  imports VaultOperations
begin

text \<open>
  The operations on the orders of a swap keep the accounts of a chain: an attempt adds one order with its
  hooks, and what is recorded of an order later changes neither its terms nor its hooks. Those that take
  evidence refuse it with \<open>InvalidRecord\<close> (\<open>harmless\<close>); the others are \<open>fine\<close>.
\<close>

section \<open>An order in its list\<close>

lemma identity_fields:
  assumes "order_identity a = order_identity b"
  shows "so_terms a = so_terms b" "so_attempt a = so_attempt b" "so_uid a = so_uid b" "so_delivery a = so_delivery b"
    "so_bounds a = so_bounds b" "so_pre_hook a = so_pre_hook b" "so_post_hook a = so_post_hook b"
    "so_invalidates a = so_invalidates b" "so_submission a = so_submission b" "so_bridge a = so_bridge b"
    "so_use_id a = so_use_id b"
  using assms by (cases a; cases b; simp add: order_identity_def)+

lemma order_identity_updates [simp]:
  "order_identity (o1\<lparr>so_observations := obs\<rparr>) = order_identity o1"
  "order_identity (o1\<lparr>so_submission_status := status\<rparr>) = order_identity o1"
  by (simp_all add: order_identity_def)

lemma replace_order_map:
  "find (\<lambda>o1. so_uid o1 = uid) xs = Some o1 \<Longrightarrow> f o2 = f o1 \<Longrightarrow> map f (replace_order uid o2 xs) = map f xs"
  by (induction xs) (auto split: if_splits)

lemma replace_order_length [simp]: "length (replace_order uid o1 xs) = length xs"
  by (induction xs) auto

lemma replace_order_all: "list_all P xs \<Longrightarrow> P o1 \<Longrightarrow> list_all P (replace_order uid o1 xs)"
  by (induction xs) auto

lemma found_order: "find (\<lambda>o1. so_uid o1 = uid) xs = Some o1 \<Longrightarrow> o1 \<in> set xs \<and> so_uid o1 = uid"
  by (auto simp: find_Some_iff)

lemma keeps_use_terms_identity:
  "keeps_use_terms (order_identity a) (order_identity b) = keeps_use_terms a b"
  by (simp add: keeps_use_terms_def order_identity_def)

lemma sorted_terms_identity: "sorted_wrt keeps_use_terms (map order_identity xs) = sorted_wrt keeps_use_terms xs"
  by (simp add: sorted_wrt_map keeps_use_terms_identity)

lemma order_ok_identity:
  assumes "order_ok hooks sw o1" "order_identity o2 = order_identity o1" "amounts_ok (so_observations o2)"
    "sw_terms sw' = sw_terms sw"
  shows "order_ok hooks sw' o2"
  using assms identity_fields [OF assms(2)] by (auto simp: order_ok_def order_terms_def split: option.splits)

lemma funding_of_order_map:
  "funding_of_order sw f \<longleftrightarrow>
    (Some (sf_use_id f), sf_pre_hook_nonce f) \<in> set (map (\<lambda>o1. (so_use_id o1, sh_nonce (so_pre_hook o1))) (sw_orders sw))"
  unfolding funding_of_order_def list_ex_iff set_map image_iff prod.inject by metis

lemma has_use_ids_map: "has_use_ids sw \<longleftrightarrow> (\<exists>use \<in> set (map so_use_id (sw_orders sw)). use \<noteq> None)"
  by (simp add: has_use_ids_def list_ex_iff)

lemma order_ok_terms:
  assumes "sw_terms sw' = sw_terms sw"
  shows "order_ok hooks sw' = order_ok hooks sw"
proof (rule ext)
  show "order_ok hooks sw' o1 = order_ok hooks sw o1" for o1
    unfolding order_ok_def order_terms_def assms ..
qed

text \<open>Other observations or another status of one order.\<close>

lemma orders_ok_replace:
  assumes ok: "orders_ok hooks sw" and found: "find (\<lambda>o1. so_uid o1 = uid) (sw_orders sw) = Some o1"
    and same: "order_identity o2 = order_identity o1" and amounts: "amounts_ok (so_observations o2)"
  shows "orders_ok hooks (sw\<lparr>sw_orders := replace_order uid o2 (sw_orders sw)\<rparr>)"
proof -
  let ?sw = "sw\<lparr>sw_orders := replace_order uid o2 (sw_orders sw)\<rparr>"
  note fields = identity_fields [OF same]
  have maps: "map so_uid (sw_orders ?sw) = map so_uid (sw_orders sw)" "map so_attempt (sw_orders ?sw) = map so_attempt (sw_orders sw)"
    "map so_pre_hook (sw_orders ?sw) = map so_pre_hook (sw_orders sw)"
    "map so_post_hook (sw_orders ?sw) = map so_post_hook (sw_orders sw)"
    "map (\<lambda>o1. (so_use_id o1, sh_nonce (so_pre_hook o1))) (sw_orders ?sw)
      = map (\<lambda>o1. (so_use_id o1, sh_nonce (so_pre_hook o1))) (sw_orders sw)"
    "map order_identity (sw_orders ?sw) = map order_identity (sw_orders sw)"
    using fields same by (simp_all add: replace_order_map [OF found])
  have "sw_orders ?sw \<noteq> []" using ok maps(1) by (auto simp: orders_ok_def)
  moreover have "list_all (order_ok hooks ?sw) (sw_orders ?sw)"
  proof -
    have "list_all (order_ok hooks sw) (sw_orders sw)" using ok by (simp add: orders_ok_def)
    moreover from this have "order_ok hooks sw o2"
      using found_order [OF found] same amounts by (auto simp: list_all_iff intro: order_ok_identity)
    ultimately have "list_all (order_ok hooks sw) (sw_orders ?sw)" by (simp add: replace_order_all)
    then show ?thesis by (auto simp: list_all_iff order_ok_def order_terms_def)
  qed
  moreover have "sorted_wrt keeps_use_terms (sw_orders ?sw)"
    using ok maps(6) sorted_terms_identity by (metis orders_ok_def)
  moreover have "hook_of_order ?sw = hook_of_order sw"
    unfolding fun_eq_iff hook_of_order_def maps by simp
  moreover have "funding_of_order ?sw = funding_of_order sw"
    unfolding fun_eq_iff funding_of_order_map maps by simp
  ultimately show ?thesis using ok maps(1,2) by (simp add: orders_ok_def)
qed

lemma put_order_evolves:
  assumes found: "find_order uid r = Some o1" and same: "order_identity o2 = order_identity o1"
    and amounts: "amounts_ok (so_observations o1) \<Longrightarrow> amounts_ok (so_observations o2)"
  shows "continuing.evolves chain r (put_order uid o2 r)"
proof (cases "er_swap r")
  case None
  then show ?thesis using found by (simp add: find_order_def swap_orders_of_def)
next
  case (Some sw)
  then have sw: "find (\<lambda>o1. so_uid o1 = uid) (sw_orders sw) = Some o1" using found by (simp add: find_order_def swap_orders_of_def)
  have "swap_ok (issued_hooks (er_issued r)) (er_swap (put_order uid o2 r))"
    if "swap_ok (issued_hooks (er_issued r)) (er_swap r)"
  proof -
    have ok: "orders_ok (issued_hooks (er_issued r)) sw" using that Some by (simp add: swap_ok_def)
    then have "amounts_ok (so_observations o1)"
      using found_order [OF sw] by (auto simp: orders_ok_def order_ok_def list_all_iff)
    then show ?thesis using orders_ok_replace [OF ok sw same amounts] Some by (simp add: put_order_def swap_ok_def)
  qed
  moreover have "map so_use_id (replace_order uid o2 (sw_orders sw)) = map so_use_id (sw_orders sw)"
    "map order_identity (replace_order uid o2 (sw_orders sw)) = map order_identity (sw_orders sw)"
    using identity_fields(11) [OF same] same by (simp_all add: replace_order_map [OF sw])
  then have "has_use_ids (sw\<lparr>sw_orders := replace_order uid o2 (sw_orders sw)\<rparr>) = has_use_ids sw"
    "map order_identity (orders_of (er_swap (put_order uid o2 r))) = map order_identity (orders_of (er_swap r))"
    using Some by (simp_all add: has_use_ids_map put_order_def orders_of_def del: set_map)
  ultimately show ?thesis using Some
    by (simp add: continuing_evolves body_ok_def continues_def swap_identified_def put_order_def)
qed

section \<open>Evidence\<close>

lemma or_else_simps [simp]: "or_else None y = y" "or_else (Some x) y = Some x"
  by (simp_all add: or_else_def)

text \<open>A change of one order's observations that keeps the amounts with their trade.\<close>

definition order_change_ok :: "(swap_order \<Rightarrow> store_error + swap_order) \<Rightarrow> bool" where
  "order_change_ok f \<longleftrightarrow>
    (\<forall>o1 o2. f o1 = Inr o2 \<longrightarrow> order_identity o2 = order_identity o1
      \<and> (amounts_ok (so_observations o1) \<longrightarrow> amounts_ok (so_observations o2)))
    \<and> (\<forall>o1 e. f o1 = Inl e \<longrightarrow> store_fault e \<longrightarrow> e = InvalidRecord)"

lemma settle_order_ok: "order_change_ok (settle_order ev)"
  by (auto simp: order_change_ok_def settle_order_def amounts_ok_def Let_def split: prod.splits if_splits)

lemma charge_fee_ok: "order_change_ok (charge_fee fee token)"
  by (auto simp: order_change_ok_def charge_fee_def amounts_ok_def Let_def split: option.splits if_splits)

lemma outcome_change_ok: "order_change_ok (outcome_change x)"
  by (auto simp: order_change_ok_def outcome_change_def amounts_ok_def and_then_eq_Inr and_then_eq_Inl
    split: swap_delivery.splits if_splits)

lemma refund_change_ok: "order_change_ok (refund_change refund)"
  by (auto simp: order_change_ok_def refund_change_def amounts_ok_def Let_def split: if_splits)

lemma replace_observations_ok: "amounts_ok obs \<Longrightarrow> order_change_ok (\<lambda>o1. Inr (o1\<lparr>so_observations := obs\<rparr>))"
  by (simp add: order_change_ok_def)

lemma change_order_harmless:
  assumes "order_change_ok f"
  shows "continuing.harmless_change chain r (change_order uid f r)"
proof (cases "find_order uid r")
  case None
  then show ?thesis by (simp add: change_order_def)
next
  case (Some o1)
  show ?thesis
  proof (cases "f o1")
    case (Inl e)
    then show ?thesis using assms Some by (auto simp: change_order_def order_change_ok_def)
  next
    case (Inr o2)
    then have "continuing.evolves chain r (put_order uid o2 r)"
      using assms by (intro put_order_evolves [OF Some]) (auto simp: order_change_ok_def)
    then show ?thesis using Some Inr by (simp add: change_order_def)
  qed
qed

lemma confirmed_cases: "confirmed_block r = Inl OutstandingNonce \<or> (\<exists>n. confirmed_block r = Inr n)"
  by (simp add: confirmed_block_def split: option.split)

lemma observations_harmless: "continuing.harmless_change chain r (observations_change uid obs r)"
  using confirmed_cases [of r] change_order_harmless [OF replace_observations_ok]
  by (auto simp: observations_change_def amounts_ok_def)

lemma fundings_harmless: "continuing.harmless_change chain r (fundings_change fundings r)"
proof -
  have "continuing.evolves chain r (r\<lparr>er_swap := Some (sw\<lparr>sw_fundings := fundings\<rparr>)\<rparr>)"
    if "er_swap r = Some sw" "list_all (funding_of_order sw) fundings" "\<not> funded_twice [] fundings" for sw
  proof -
    have "order_ok hooks (sw\<lparr>sw_fundings := fundings\<rparr>) = order_ok hooks sw" for hooks
      by (rule order_ok_terms) simp
    moreover have "funding_of_order (sw\<lparr>sw_fundings := fundings\<rparr>) = funding_of_order sw"
      "hook_of_order (sw\<lparr>sw_fundings := fundings\<rparr>) = hook_of_order sw"
      by (simp_all add: fun_eq_iff funding_of_order_def hook_of_order_def)
    ultimately show ?thesis using that
      by (simp add: continuing_evolves body_ok_def continues_def swap_identified_def swap_ok_def orders_ok_def
        orders_of_def has_use_ids_def)
  qed
  then show ?thesis
    using confirmed_cases [of r] by (auto simp: fundings_change_def split: option.split)
qed

lemma find_put_order:
  assumes "uid' \<noteq> uid" "find_order uid' r = Some o1" "so_uid o2 = uid"
  shows "find_order uid' (put_order uid o2 r) = Some o1"
proof -
  have "find (\<lambda>x. so_uid x = uid') xs = Some o1 \<Longrightarrow> find (\<lambda>x. so_uid x = uid') (replace_order uid o2 xs) = Some o1" for xs
    using assms(1,3) by (induction xs) (auto split: if_splits)
  then show ?thesis using assms(2) by (auto simp: find_order_def swap_orders_of_def put_order_def split: option.splits)
qed

lemma split_harmless:
  assumes "ev_delivery ev \<noteq> uid"
  shows "continuing.harmless_change chain r (record_split_settlement uid ev r)"
proof -
  have "continuing.evolves chain r (put_order (ev_delivery ev) (split_delivered ev handoff delivery)
      (put_order uid (split_traded ev trade) r))"
    if found: "find_order uid r = Some trade" "find_order (ev_delivery ev) r = Some delivery" for trade delivery handoff
  proof (rule continuing.evolves_trans)
    show "continuing.evolves chain r (put_order uid (split_traded ev trade) r)"
      by (rule put_order_evolves [OF found(1)]) (simp_all add: split_traded_def Let_def amounts_ok_def)
    have "so_uid (split_traded ev trade) = uid"
      using found(1) by (auto simp: split_traded_def Let_def find_order_def find_Some_iff)
    then have "find_order (ev_delivery ev) (put_order uid (split_traded ev trade) r) = Some delivery"
      by (rule find_put_order [OF assms found(2)])
    then show "continuing.evolves chain (put_order uid (split_traded ev trade) r)
        (put_order (ev_delivery ev) (split_delivered ev handoff delivery) (put_order uid (split_traded ev trade) r))"
      by (rule put_order_evolves) (simp_all add: split_delivered_def Let_def amounts_ok_def)
  qed
  then show ?thesis by (auto simp: record_split_settlement_def split: option.split)
qed

lemma settlement_harmless: "continuing.harmless_change chain r (settlement_change uid ev r)"
  using split_harmless change_order_harmless [OF settle_order_ok] by (simp add: settlement_change_def)

lemma evidence_harmless:
  assumes ok: "store_ok chain cs"
  shows "continuing.harmless chain cs (record_swap_observations env operation uid obs cs)"
    "continuing.harmless chain cs (record_swap_fundings env operation fundings cs)"
    "continuing.harmless chain cs (record_swap_settlement env operation uid ev cs)"
    "continuing.harmless chain cs (record_swap_executed_fee env operation uid fee token cs)"
    "continuing.harmless chain cs (record_swap_bridge_outcome env operation uid x cs)"
    "continuing.harmless chain cs (record_swap_bridge_refund env operation uid refund cs)"
  unfolding record_swap_observations_def record_swap_fundings_def record_swap_settlement_def
    record_swap_executed_fee_def record_swap_bridge_outcome_def record_swap_bridge_refund_def
  by (rule continuing.update_record_harmless [OF ok]; simp add: observations_harmless fundings_harmless settlement_harmless
    change_order_harmless charge_fee_ok outcome_change_ok refund_change_ok)+

section \<open>Placing an order\<close>

definition hook_payloads :: "swap_attempt \<Rightarrow> issued_payload list" where
  "hook_payloads t = tt_pre_hook t # (case tt_post_hook t of None \<Rightarrow> [] | Some hook \<Rightarrow> [hook])"

lemma order_list_extended:
  assumes old: "orders_ok hooks sw"
    and new: "order_ok (hooks @ added) (sw\<lparr>sw_proof := proof1, sw_orders := sw_orders sw @ [o1]\<rparr>) o1"
      "so_uid o1 \<notin> so_uid ` set (sw_orders sw)" "so_attempt o1 = so_attempt (last (sw_orders sw)) + 1"
      "\<And>e. e \<in> set (sw_orders sw) \<Longrightarrow> keeps_use_terms e o1"
    and hooks: "list_all (hook_of_order (sw\<lparr>sw_proof := proof1, sw_orders := sw_orders sw @ [o1]\<rparr>)) added"
  shows "orders_ok (hooks @ added) (sw\<lparr>sw_proof := proof1, sw_orders := sw_orders sw @ [o1]\<rparr>)"
proof -
  let ?sw = "sw\<lparr>sw_proof := proof1, sw_orders := sw_orders sw @ [o1]\<rparr>"
  have ne: "sw_orders sw \<noteq> []" and attempts: "map so_attempt (sw_orders sw) = map of_nat [0..<length (sw_orders sw)]"
    using old by (simp_all add: orders_ok_def)
  have "so_attempt (last (sw_orders sw)) = of_nat (length (sw_orders sw) - 1)"
    using attempts ne by (metis (no_types, lifting) last_map last_upt length_0_conv length_map map_is_Nil_conv upt_eq_Nil_conv gr_zeroI)
  then have "so_attempt o1 = of_nat (length (sw_orders sw))"
    using new(3) ne by (simp add: of_nat_diff Suc_leI)
  moreover have "list_all (order_ok (hooks @ added) ?sw) (sw_orders sw)"
    using old order_ok_more [of hooks sw _ "hooks @ added"] order_ok_terms [of ?sw sw "hooks @ added"]
    by (auto simp: orders_ok_def list_all_iff)
  moreover have "list_all (hook_of_order ?sw) hooks" "list_all (funding_of_order ?sw) (sw_fundings sw)"
    using old by (auto simp: orders_ok_def list_all_iff hook_of_order_def funding_of_order_def)
  ultimately show ?thesis
    using old new hooks by (simp add: orders_ok_def sorted_wrt_append)
qed

lemma checks_of_attempt:
  assumes "\<not> attempt_misfits env t r" "\<not> attempt_nonce_refused t included r"
  shows "ip_purpose (tt_pre_hook t) = SwapPreHook" "ip_hash (tt_pre_hook t) \<notin> ip_hash ` set (er_issued r)"
    "(tt_post_hook t \<noteq> None) = has_post_hook (tt_delivery t)" "bridge_terms_fit (tt_delivery t) (tt_bridge t)"
    "tt_uid t \<notin> so_uid ` set (swap_orders_of r)"
    "px_inputs (ip_context (tt_pre_hook t)) = pf_inputs (tt_proof t)"
    "er_swap r = Some sw \<Longrightarrow> st_recipient (sw_terms sw) = st_recipient (tt_terms t)"
    "tt_post_hook t = Some hook \<Longrightarrow> ip_purpose hook = SwapPostHook \<and> ip_hash hook \<noteq> ip_hash (tt_pre_hook t)
      \<and> ip_hash hook \<notin> ip_hash ` set (er_issued r) \<and> px_inputs (ip_context hook) = []
      \<and> checked_add (ip_nonce (tt_pre_hook t)) 1 = Some (ip_nonce hook)"
    "er_address r \<noteq> None" "ip_delegate (tt_pre_hook t) = er_delegate r"
    "er_nonce_observation r = Some (px_observed (ip_context (tt_pre_hook t)))"
  using assms
  by (auto simp: attempt_misfits_def attempt_nonce_refused_def issued_hash_def post_hook_misfits_def list_ex_iff Let_def)

lemma attempt_order_simps [simp]:
  "so_terms (attempt_order t os) = Some (tt_terms t)" "so_uid (attempt_order t os) = tt_uid t"
  "so_delivery (attempt_order t os) = tt_delivery t" "so_bounds (attempt_order t os) = tt_bounds t"
  "so_pre_hook (attempt_order t os) = hook_of (tt_pre_hook t)"
  "so_post_hook (attempt_order t os) = map_option hook_of (tt_post_hook t)"
  "so_observations (attempt_order t os) = unobserved" "so_bridge (attempt_order t os) = tt_bridge t"
  "so_use_id (attempt_order t os) = Some (tt_use_id t)" "so_submission_status (attempt_order t os) = SubmissionPending"
  "so_invalidates (attempt_order t os) = tt_invalidates t"
  by (simp_all add: attempt_order_def)

lemma unobserved_simps [simp]:
  "oo_pre_hook_executed unobserved = None" "oo_traded unobserved = None" "oo_trade_amounts unobserved = None"
  "oo_delivered unobserved = None" "oo_pre_hook_dead unobserved = None" "oo_bridge_handoff unobserved = None"
  "oo_bridge_outcome unobserved = None" "oo_bridge_refund unobserved = None" "oo_expired unobserved = None"
  by (simp_all add: unobserved_def)

lemma hook_of_simps [simp]: "sh_nonce (hook_of p) = ip_nonce p" "sh_payload (hook_of p) = ip_hash p"
  by (simp_all add: hook_of_def)

lemma attempt_order_ok:
  assumes "\<not> attempt_misfits env t r" "\<not> attempt_nonce_refused t included r"
    and "st_recipient (sw_terms sw) = st_recipient (tt_terms t)"
  shows "order_ok (hooks @ issued_hooks (hook_payloads t)) sw (attempt_order t os)"
proof -
  note checks = checks_of_attempt [OF assms(1,2)]
  show ?thesis using checks(1,3,4) checks(8) assms(3)
    by (cases "tt_post_hook t") (simp_all add: order_ok_def order_terms_def hook_payloads_def amounts_ok_def)
qed

lemma attempt_hooks:
  assumes "\<not> attempt_misfits env t r" "\<not> attempt_nonce_refused t included r" "attempt_order t os \<in> set (sw_orders sw)"
  shows "list_all (hook_of_order sw) (issued_hooks (hook_payloads t))"
proof -
  note checks = checks_of_attempt [OF assms(1,2)]
  have "hook_of (tt_pre_hook t) \<in> so_pre_hook ` set (sw_orders sw)"
    "map_option hook_of (tt_post_hook t) \<in> so_post_hook ` set (sw_orders sw)"
    using assms(3) by (force simp: image_iff)+
  then show ?thesis using checks(1,8) by (cases "tt_post_hook t") (auto simp: hook_payloads_def hook_of_order_def)
qed

lemma placed_orders_ok:
  assumes checks: "\<not> attempt_misfits env t r" "\<not> attempt_nonce_refused t included r"
    and terms: "swap_use_keeps_terms (tt_use_id t) (st_sell_token (tt_terms t)) (st_buy_token (tt_terms t)) (tt_delivery t) r"
    and ok: "swap_ok (issued_hooks (er_issued r)) (er_swap r)"
  shows "swap_ok (issued_hooks (er_issued (place_order t r))) (er_swap (place_order t r))"
proof (cases "er_swap r")
  case None
  then show ?thesis
    using ok attempt_order_ok [OF checks, of "\<lparr>sw_terms = tt_terms t, sw_proof = tt_proof t,
        sw_orders = [attempt_order t []], sw_fundings = []\<rparr>" "issued_hooks (er_issued r)" "[]"]
      attempt_hooks [OF checks, of "[]" "\<lparr>sw_terms = tt_terms t, sw_proof = tt_proof t,
        sw_orders = [attempt_order t []], sw_fundings = []\<rparr>"]
    by (auto simp: place_order_def Let_def swap_orders_of_def swap_ok_def orders_ok_def hook_payloads_def attempt_order_def
      hook_of_order_def list_all_iff)
next
  case (Some sw)
  let ?o = "attempt_order t (sw_orders sw)"
  let ?sw = "sw\<lparr>sw_proof := tt_proof t, sw_orders := sw_orders sw @ [?o]\<rparr>"
  note facts = checks_of_attempt [OF checks]
  have old: "orders_ok (issued_hooks (er_issued r)) sw" using ok Some by (simp add: swap_ok_def)
  have "orders_ok (issued_hooks (er_issued r) @ issued_hooks (hook_payloads t)) ?sw"
  proof (rule order_list_extended [OF old])
    show "order_ok (issued_hooks (er_issued r) @ issued_hooks (hook_payloads t)) ?sw ?o"
      using facts(7) [OF Some] by (intro attempt_order_ok [OF checks]) simp
    show "so_uid ?o \<notin> so_uid ` set (sw_orders sw)" using facts(5) Some by (simp add: swap_orders_of_def)
    show "so_attempt ?o = so_attempt (last (sw_orders sw)) + 1" using old by (simp add: attempt_order_def orders_ok_def)
    show "keeps_use_terms e ?o" if "e \<in> set (sw_orders sw)" for e
    proof -
      have "so_terms e \<noteq> None" using that old by (auto simp: orders_ok_def order_ok_def list_all_iff)
      then show ?thesis using that terms Some
        by (auto simp: keeps_use_terms_def swap_use_keeps_terms_def swap_use_orders_def swap_orders_of_def list_all_iff
          order_terms_def)
    qed
    show "list_all (hook_of_order ?sw) (issued_hooks (hook_payloads t))"
      by (rule attempt_hooks [OF checks, of "sw_orders sw"]) simp
  qed
  then show ?thesis using Some by (simp add: place_order_def Let_def swap_orders_of_def swap_ok_def hook_payloads_def)
qed

lemma place_order_evolves:
  assumes checks: "\<not> attempt_misfits env t r" "\<not> attempt_nonce_refused t included r"
    and terms: "swap_use_keeps_terms (tt_use_id t) (st_sell_token (tt_terms t)) (st_buy_token (tt_terms t)) (tt_delivery t) r"
  shows "continuing.evolves chain r (place_order t r)"
proof -
  note facts = checks_of_attempt [OF checks]
  have fields: "er_swap_uses (place_order t r) = er_swap_uses r" "er_index (place_order t r) = er_index r"
    "er_issued (place_order t r) = er_issued r @ hook_payloads t"
    "orders_of (er_swap (place_order t r)) = orders_of (er_swap r) @ [attempt_order t (swap_orders_of r)]"
    by (simp_all add: place_order_def Let_def hook_payloads_def orders_of_def swap_orders_of_def split: option.split)
  have "swap_identified (place_order t r)"
    using fields(4) by (auto simp: swap_identified_def has_use_ids_def orders_of_def list_ex_iff split: option.splits)
  moreover have "distinct (map ip_hash (er_issued r)) \<Longrightarrow> distinct (map ip_hash (er_issued r @ hook_payloads t))"
    using facts(2) facts(8) by (cases "tt_post_hook t") (auto simp: hook_payloads_def)
  moreover have "role_ok chain (map ip_hash (er_issued r)) role
      \<Longrightarrow> role_ok chain (map ip_hash (er_issued r @ hook_payloads t)) role" for role
    by (rule role_ok_more) auto
  ultimately have "body_ok chain r \<Longrightarrow> body_ok chain (place_order t r)"
    using placed_orders_ok [OF checks terms] fields(1-3) by (auto simp: body_ok_def list_all_iff)
  moreover have "continues r (place_order t r)"
    unfolding continues_def fields by (simp add: place_order_def Let_def)
  ultimately show ?thesis by (simp add: continuing_evolves)
qed

lemma attempt_use_fault: "attempt_use t included r = Inl e \<Longrightarrow> \<not> store_fault e"
  by (auto simp: attempt_use_def Let_def split: if_splits swap_use_role.splits)

lemma attempt_destination_fault:
  assumes "vault_ok v" "attempt_destination v chain operation destination t = Inl e"
  shows "\<not> store_fault e"
proof -
  have "record_of k (v c) = Inr (account (v c) k)" for k c
    using assms(1) record_of_ok [of c "v c"] by (simp add: vault_ok_def)
  then show ?thesis
    using assms(2) by (auto simp: attempt_destination_def split: option.splits if_splits)
qed

lemma attempt_order_fault: "attempt_order_refusal t r = Some e \<Longrightarrow> \<not> store_fault e"
  by (auto simp: attempt_order_refusal_def split: option.splits if_splits)

lemma attempt_accepted:
  assumes "attempt_change env v chain operation t included cs r = Inr r'"
  obtains destination rs where "attempt_use t included r = Inr destination"
    "attempt_destination v chain operation destination t = Inr ()" "\<not> attempt_misfits env t r"
    "swap_use_keeps_terms (tt_use_id t) (st_sell_token (tt_terms t)) (st_buy_token (tt_terms t)) (tt_delivery t) r"
    "attempt_order_refusal t r = None" "records cs = Inr rs" "\<not> reserved_elsewhere operation (pf_inputs (tt_proof t)) rs"
    "\<not> setup_spends t r" "\<not> attempt_nonce_refused t included r" "r' = place_order t r"
  using assms by (auto simp: attempt_change_def and_then_eq_Inr split: if_splits option.splits)

lemma attempt_change_fine:
  assumes vault: "vault_ok v" and ok: "store_ok chain cs"
  shows "continuing.change_fine chain r (attempt_change env v chain operation t included cs r)"
proof (cases "attempt_change env v chain operation t included cs r")
  case (Inl e)
  obtain rs where rs: "records cs = Inr rs" by (rule records_ok [OF ok]) blast
  have "\<not> store_fault e"
    using Inl attempt_use_fault attempt_destination_fault [OF vault] attempt_order_fault
    by (auto simp: attempt_change_def and_then_eq_Inl rs split: if_splits option.splits)
  then show ?thesis using Inl by (simp add: continuing.change_fine_def)
next
  case (Inr r')
  then show ?thesis
    by (rule attempt_accepted) (simp add: continuing.change_fine_def Inr place_order_evolves)
qed

lemma attempt_fine:
  assumes "vault_ok v" "store_ok chain cs"
  shows "continuing.fine chain cs (record_swap_attempt_at env v chain operation t included cs)"
  unfolding record_swap_attempt_at_def
  by (rule continuing.update_record_fine [OF assms(2)]) (rule attempt_change_fine [OF assms])

section \<open>Submission and approval\<close>

lemma submission_evolves:
  assumes "submission_change uid status r = Inr r'"
  shows "continuing.evolves chain r r'"
proof -
  obtain o1 where o1: "find_order uid r = Some o1" using assms by (auto simp: submission_change_def split: option.splits)
  let ?r = "put_order uid (submit_order status o1) r"
  have first: "continuing.evolves chain r ?r"
    by (rule put_order_evolves [OF o1]) (simp_all add: submit_order_def)
  have "r' = ?r \<or> (\<exists>released. r' = ?r\<lparr>er_released_payloads := released\<rparr>)"
    using assms o1 by (auto simp: submission_change_def Let_def split: if_splits)
  then have "continuing.evolves chain ?r r'" by (auto simp: continuing_evolves record_fields)
  then show ?thesis by (rule continuing.evolves_trans [OF first])
qed

lemma submission_fine:
  assumes "store_ok chain cs"
  shows "continuing.fine chain cs (record_swap_submission env operation uid status cs)"
proof -
  have "continuing.change_fine chain r (submission_change uid status r)" for r
  proof (cases "submission_change uid status r")
    case (Inl e)
    then have "e = OperationMismatch" by (auto simp: submission_change_def Let_def split: option.splits)
    then show ?thesis using Inl by (simp add: continuing.change_fine_def)
  next
    case (Inr r')
    then show ?thesis using submission_evolves by (simp add: continuing.change_fine_def)
  qed
  then show ?thesis unfolding record_swap_submission_def by (rule continuing.update_record_fine [OF assms])
qed

lemma last_use_replaced:
  assumes "us \<noteq> []" "su_id u = su_id (last us)" "use_facts (su_role (last us)) = []"
  shows "map su_id (butlast us @ [u]) = map su_id us"
    "facts_of us \<subseteq> facts_of (butlast us @ [u])"
proof -
  obtain vs w where us: "us = vs @ [w]" using assms(1) by (metis append_butlast_last_id)
  show "map su_id (butlast us @ [u]) = map su_id us" using assms(2) by (simp add: us)
  show "facts_of us \<subseteq> facts_of (butlast us @ [u])" using assms(3) by (auto simp: us)
qed

context record_relation
begin

lemma approval_evolves:
  assumes "approval_change expected approval r = Inr r'"
  shows "evolves chain r r'"
proof -
  define u where "u = last (er_swap_uses r)"
  obtain known destination where role: "su_role u = Source known destination"
    and ne: "er_swap_uses r \<noteq> []"
    and r': "r' = r\<lparr>er_swap_uses := butlast (er_swap_uses r) @ [u\<lparr>su_role := Source (Some approval) destination\<rparr>]\<rparr>"
    using assms by (auto simp: approval_change_def Let_def u_def split: if_splits swap_use_role.splits)
  let ?u = "u\<lparr>su_role := Source (Some approval) destination\<rparr>"
  have kept: "map su_id (butlast (er_swap_uses r) @ [?u]) = map su_id (er_swap_uses r)" "facts_of (er_swap_uses r) \<subseteq> facts_of (er_swap_uses r')"
    using last_use_replaced [OF ne, of ?u] role by (simp_all add: u_def [symmetric] r')
  have "body_ok chain r'" if "body_ok chain r"
  proof -
    have "list_all (\<lambda>u. role_ok chain (map ip_hash (er_issued r)) (su_role u)) (butlast (er_swap_uses r) @ [?u])"
      using that by (auto simp: body_ok_def list_all_iff role_ok_def dest: in_set_butlastD)
    then show ?thesis using that kept(1) by (simp add: body_ok_def swap_identified_def r')
  qed
  then show ?thesis
    using kept(2) by (intro evolves_quiet) (auto simp: r' continues_def same_reservations_def)
qed

lemma approval_fine:
  assumes "store_ok chain cs"
  shows "fine chain cs (record_swap_approval env operation expected approval cs)"
proof -
  have "change_fine chain r (approval_change expected approval r)" for r
  proof (cases "approval_change expected approval r")
    case (Inl e)
    then have "e = OperationMismatch" by (auto simp: approval_change_def Let_def split: if_splits swap_use_role.splits)
    then show ?thesis using Inl by (simp add: change_fine_def)
  next
    case (Inr r')
    then show ?thesis using approval_evolves by (simp add: change_fine_def)
  qed
  then show ?thesis unfolding record_swap_approval_def by (rule update_record_fine [OF assms])
qed

end

end
