(* ===== verification/PublicSwapOperations.thy ===== *)
theory PublicSwapOperations
  imports VaultOperations
begin

text \<open>
  The operations on swaps that a Public account pays for keep the accounts of the vault: a claim adds one
  use, and what is recorded of a swap keeps its record good (\<open>public_swap_ok\<close>), its signed order and the
  transactions that were handed off. They leave payloads, orders of stealth accounts and nonces alone, so
  the facts are shown in the locale \<open>record_relation\<close>.
\<close>

section \<open>Changes of a swap\<close>

definition swap_change_ok :: "(public_swap_record \<Rightarrow> store_error + public_swap_record) \<Rightarrow> bool" where
  "swap_change_ok f \<longleftrightarrow>
    (\<forall>swap swap1. f swap = Inr swap1 \<longrightarrow>
      (public_swap_ok swap \<longrightarrow> public_swap_ok swap1) \<and> set (public_facts swap) \<subseteq> set (public_facts swap1))
    \<and> (\<forall>swap e. f swap = Inl e \<longrightarrow> store_fault e \<longrightarrow> e = InvalidRecord)"

lemma swap_change_okI:
  assumes "\<And>swap swap1. f swap = Inr swap1 \<Longrightarrow> public_swap_ok swap \<Longrightarrow> public_swap_ok swap1"
    and "\<And>swap swap1. f swap = Inr swap1 \<Longrightarrow> set (public_facts swap) \<subseteq> set (public_facts swap1)"
    and "\<And>swap e. f swap = Inl e \<Longrightarrow> e = OperationMismatch \<or> e = InvalidRecord"
  shows "swap_change_ok f"
  using assms unfolding swap_change_ok_def by (metis store_fault_simps(5))

lemma unsigned_order: "public_unsigned swap \<Longrightarrow> order_of_path (pu_path swap) = None"
  by (auto simp: public_unsigned_def order_of_path_def split: option.splits public_swap_path.splits)

lemma unsigned_deposits:
  "public_swap_ok swap \<Longrightarrow> public_unsigned swap \<Longrightarrow> filter is_live_deposit (pu_transactions swap) = []"
  by (auto simp: public_swap_ok_def transactions_ok_def public_unsigned_def deposit_handed_off_def live_deposits_def
    split: option.splits public_swap_path.splits)

text \<open>Another path of a swap that signed nothing.\<close>

lemma unsigned_transactions_ok:
  assumes "public_swap_ok swap" "public_unsigned swap"
  shows "transactions_ok path (pu_transactions swap)"
proof -
  have "distinct (map pt_hash (pu_transactions swap))"
    "list_all (\<lambda>t. pt_kind t \<noteq> InvalidationTransaction \<and> pt_kind t \<noteq> WithdrawalTransaction) (pu_transactions swap)"
    using assms(1) unsigned_order [OF assms(2)] unfolding public_swap_ok_def transactions_ok_def by blast+
  then show ?thesis using unsigned_deposits [OF assms] by (simp add: transactions_ok_def)
qed

lemma unsigned_facts:
  "public_unsigned swap \<Longrightarrow> public_facts swap = map SentFact (sent_transactions swap)"
  by (simp add: public_facts_def signed_order_terms_def public_order_def unsigned_order)

lemma sent_kept:
  "pu_transactions swap1 = pu_transactions swap \<Longrightarrow> set (map SentFact (sent_transactions swap)) \<subseteq> set (public_facts swap1)"
  by (simp add: public_facts_def sent_transactions_def)

lemma reapprove_ok: "swap_change_ok (reapprove approval)"
proof (rule swap_change_okI)
  fix swap swap1 assume "reapprove approval swap = Inr swap1"
  then have parts: "public_unsigned swap" "swap1 = swap\<lparr>pu_approval := approval, pu_path := None, pu_bridge := None\<rparr>"
    by (auto simp: reapprove_def split: if_splits)
  show "public_swap_ok swap \<Longrightarrow> public_swap_ok swap1"
    using unsigned_transactions_ok [of swap None] parts by (simp add: public_swap_ok_def)
  show "set (public_facts swap) \<subseteq> set (public_facts swap1)"
    unfolding unsigned_facts [OF parts(1)] by (rule sent_kept) (simp add: parts(2))
qed (auto simp: reapprove_def split: if_splits)

lemma sign_path_ok: "swap_change_ok (sign_path path bridge)"
proof (rule swap_change_okI)
  fix swap swap1 assume run: "sign_path path bridge swap = Inr swap1"
  then consider "swap1 = swap"
    | "public_unsigned swap" "path_claimed path (pu_intent swap)" "swap1 = swap\<lparr>pu_path := Some path, pu_bridge := Some bridge\<rparr>"
    by (auto simp: sign_path_def public_unsigned_def Let_def split: option.splits if_splits)
  note cases = this
  show "public_swap_ok swap1" if "public_swap_ok swap"
    using cases unsigned_transactions_ok [OF that] that by cases (simp_all add: public_swap_ok_def)
  show "set (public_facts swap) \<subseteq> set (public_facts swap1)"
    using cases
  proof cases
    case 2
    show ?thesis unfolding unsigned_facts [OF 2(1)] by (rule sent_kept) (simp add: 2(3))
  qed simp
qed (auto simp: sign_path_def Let_def split: if_splits option.splits)

text \<open>Changes that leave the path and the transactions alone.\<close>

lemma observed_ok:
  "public_swap_ok (swap\<lparr>pu_observations := observed\<rparr>) = public_swap_ok swap"
  "public_facts (swap\<lparr>pu_observations := observed\<rparr>) = public_facts swap"
  by (simp_all add: public_swap_ok_def public_order_def public_facts_def signed_order_terms_def sent_transactions_def)

lemma observations_ok: "swap_change_ok (\<lambda>swap. Inr (swap\<lparr>pu_observations := observed\<rparr>))"
  by (simp add: swap_change_ok_def observed_ok)

lemma refund_ok: "swap_change_ok (refund_public_swap refund)"
  by (rule swap_change_okI) (auto simp: refund_public_swap_def Let_def observed_ok split: if_splits)

lemma bind_ok: "swap_change_ok (bind_destination address setup)"
  by (rule swap_change_okI)
    (auto simp: bind_destination_def public_swap_ok_def public_order_def public_facts_def
      signed_order_terms_def sent_transactions_def approval_fixed_def split: if_splits)

lemma submit_ok: "swap_change_ok (submit_public_order status)"
  by (rule swap_change_okI)
    (auto simp: submit_public_order_def public_swap_ok_def transactions_ok_def path_claimed_def public_order_def
      order_of_path_def public_facts_def signed_order_terms_def sent_transactions_def order_signed_def
      split: if_splits option.splits public_swap_path.splits)

section \<open>Transactions\<close>

lemma find_hash_None: "find (\<lambda>x. pt_hash x = h) ts = None \<longleftrightarrow> h \<notin> pt_hash ` set ts"
  by (induction ts) auto

lemma add_transaction_ok: "swap_change_ok (add_transaction t)"
proof (rule swap_change_okI)
  fix swap swap1 assume run: "add_transaction t swap = Inr swap1"
  show "public_swap_ok swap1" if ok: "public_swap_ok swap"
  proof (cases "find (\<lambda>x. pt_hash x = pt_hash t) (pu_transactions swap)")
    case None
    then have swap1: "swap1 = swap\<lparr>pu_transactions := pu_transactions swap @ [t]\<rparr>" "transaction_admitted (pt_kind t) swap"
      "pt_kind t = DepositTransaction \<Longrightarrow> filter is_live_deposit (pu_transactions swap) = []"
      using run by (auto simp: add_transaction_def deposit_handed_off_def live_deposits_def split: if_splits)
    have "pt_hash t \<notin> pt_hash ` set (pu_transactions swap)" using None by (simp add: find_hash_None)
    moreover have "is_live_deposit t \<Longrightarrow> pt_kind t = DepositTransaction" by (simp add: is_live_deposit_def)
    ultimately have "transactions_ok (pu_path swap) (pu_transactions swap @ [t])"
      using swap1(2,3) ok
      by (auto simp: public_swap_ok_def transactions_ok_def transaction_admitted_def public_order_def)
    then show ?thesis using ok swap1(1) by (simp add: public_swap_ok_def)
  qed (use run ok in \<open>auto simp: add_transaction_def split: if_splits\<close>)
  show "set (public_facts swap) \<subseteq> set (public_facts swap1)"
    using run by (auto simp: add_transaction_def public_facts_def signed_order_terms_def sent_transactions_def public_order_def
      split: if_splits option.splits)
qed (auto simp: add_transaction_def split: if_splits option.splits)

text \<open>A change of one transaction that keeps what was sent and revives no deposit.\<close>

definition transaction_change_ok :: "(public_swap_transaction \<Rightarrow> store_error + public_swap_transaction) \<Rightarrow> bool" where
  "transaction_change_ok f \<longleftrightarrow>
    (\<forall>t t1. f t = Inr t1 \<longrightarrow>
      (pt_kind t1, pt_transaction t1, pt_hash t1) = (pt_kind t, pt_transaction t, pt_hash t)
      \<and> (is_live_deposit t1 \<longrightarrow> is_live_deposit t))
    \<and> (\<forall>t e. f t = Inl e \<longrightarrow> e = InvalidRecord)"

lemma update_transaction_parts:
  assumes "transaction_change_ok f" "update_transaction P f ts = Inr ts1"
  shows "map (\<lambda>t. (pt_kind t, pt_transaction t, pt_hash t)) ts1 = map (\<lambda>t. (pt_kind t, pt_transaction t, pt_hash t)) ts"
    "length (filter is_live_deposit ts1) \<le> length (filter is_live_deposit ts)"
proof -
  have "map (\<lambda>t. (pt_kind t, pt_transaction t, pt_hash t)) ts1 = map (\<lambda>t. (pt_kind t, pt_transaction t, pt_hash t)) ts
    \<and> length (filter is_live_deposit ts1) \<le> length (filter is_live_deposit ts)"
    using assms
  proof (induction ts arbitrary: ts1)
    case (Cons t ts)
    show ?case
    proof (cases "P t")
      case True
      then obtain t1 where "f t = Inr t1" "ts1 = t1 # ts" using Cons.prems(2) by (auto simp: and_then_eq_Inr)
      then show ?thesis using assms(1) by (auto simp: transaction_change_ok_def)
    next
      case False
      then obtain ts2 where "update_transaction P f ts = Inr ts2" "ts1 = t # ts2"
        using Cons.prems(2) by (auto simp: and_then_eq_Inr)
      then show ?thesis using Cons.IH [OF assms(1)] by auto
    qed
  qed simp
  then show "map (\<lambda>t. (pt_kind t, pt_transaction t, pt_hash t)) ts1 = map (\<lambda>t. (pt_kind t, pt_transaction t, pt_hash t)) ts"
    "length (filter is_live_deposit ts1) \<le> length (filter is_live_deposit ts)" by simp_all
qed

lemma update_transaction_refused:
  assumes "transaction_change_ok f" "update_transaction P f ts = Inl e"
  shows "e = OperationMismatch \<or> e = InvalidRecord"
  using assms(2)
  by (induction ts) (use assms(1) in \<open>auto simp: transaction_change_ok_def and_then_eq_Inl split: if_splits\<close>)

lemma change_transaction_ok:
  assumes f: "transaction_change_ok f"
  shows "swap_change_ok (change_transaction P f)"
proof (rule swap_change_okI)
  fix swap swap1 assume "change_transaction P f swap = Inr swap1"
  then obtain ts where run: "update_transaction P f (pu_transactions swap) = Inr ts"
    and swap1: "swap1 = swap\<lparr>pu_transactions := ts\<rparr>"
    by (auto simp: change_transaction_def and_then_eq_Inr)
  note parts = update_transaction_parts [OF f run]
  have hashes: "map pt_hash ts = map pt_hash (pu_transactions swap)"
    using arg_cong [OF parts(1), of "map (\<lambda>(_, _, h). h)"] by (simp add: comp_def)
  have kinds: "map pt_kind ts = map pt_kind (pu_transactions swap)"
    using arg_cong [OF parts(1), of "map (\<lambda>(kind, _). kind)"] by (simp add: comp_def)
  have "list_all P (map pt_kind ts) = list_all P (map pt_kind (pu_transactions swap))" for P by (simp only: kinds)
  then have allowed: "list_all (\<lambda>t. P (pt_kind t)) ts = list_all (\<lambda>t. P (pt_kind t)) (pu_transactions swap)" for P
    by (simp add: list_all_iff)
  show "public_swap_ok swap1" if "public_swap_ok swap"
  proof -
    have "filter is_live_deposit ts \<noteq> [] \<Longrightarrow> filter is_live_deposit (pu_transactions swap) \<noteq> []"
      using parts(2) by (metis le_zero_eq length_0_conv)
    then have "transactions_ok (pu_path swap) (pu_transactions swap) \<Longrightarrow> transactions_ok (pu_path swap) ts"
      using parts(2) hashes allowed [of "\<lambda>k. k \<noteq> InvalidationTransaction \<and> k \<noteq> WithdrawalTransaction"]
      unfolding transactions_ok_def by auto
    then show ?thesis using that by (simp add: public_swap_ok_def swap1)
  qed
  show "set (public_facts swap) \<subseteq> set (public_facts swap1)"
    using parts(1) by (simp add: public_facts_def signed_order_terms_def sent_transactions_def public_order_def swap1)
qed (use update_transaction_refused [OF f] in \<open>auto simp: change_transaction_def and_then_eq_Inl\<close>)

lemma transaction_changes_ok:
  "transaction_change_ok (include_transaction inclusion)" "transaction_change_ok (advance_scan next_block)"
  "transaction_change_ok (rule_out ev)"
  by (auto simp: transaction_change_ok_def include_transaction_def advance_scan_def rule_out_def is_live_deposit_def
    split: if_splits)

section \<open>The operations\<close>

context record_relation
begin

lemma swap_mut_harmless:
  assumes "record_ok chain r" "swap_change_ok f"
  shows "harmless_change chain r (public_swap_mut use f r)"
proof (cases "public_swap_use use r")
  case None
  then show ?thesis by (simp add: public_swap_mut_def)
next
  case (Some found)
  then obtain u c source token shields outcome swap where u: "found = (u, swap)" "swap_use use r = Some u"
      "su_role u = PublicSourceDestination c source token shields outcome swap"
    by (cases found) (auto simp: public_swap_use_def public_swap_def bind_eq_Some_conv split: swap_use_role.splits)
  show ?thesis
  proof (cases "f swap")
    case (Inl e)
    then show ?thesis using assms(2) Some u by (auto simp: public_swap_mut_def swap_change_ok_def)
  next
    case (Inr swap1)
    then have "public_swap_ok swap \<Longrightarrow> public_swap_ok swap1" "set (public_facts swap) \<subseteq> set (public_facts swap1)"
      using assms(2) by (auto simp: swap_change_ok_def)
    then have "evolves chain r (with_role use (set_swap swap1) r)"
      using assms(1) u by (intro role_evolves [OF u(2)]) (auto simp: record_ok_def role_ok_def)
    then show ?thesis using Inr Some u by (simp add: public_swap_mut_def)
  qed
qed

lemma live_swap_harmless:
  "record_ok chain r \<Longrightarrow> swap_change_ok f \<Longrightarrow> harmless_change chain r (live_public_swap use f r)"
  using swap_mut_harmless by (auto simp: live_public_swap_def split: option.split)

lemma public_outcome_harmless:
  assumes "record_ok chain r"
  shows "harmless_change chain r (public_outcome_change use x r)"
proof (cases "swap_use use r")
  case None
  then show ?thesis by (simp add: public_outcome_change_def ok_or_def)
next
  case (Some u)
  show ?thesis
  proof (cases "note_bridge_outcome x (su_role u)")
    case (Inl e)
    then have "e = OperationMismatch \<or> e = InvalidRecord" by (cases "su_role u") (auto simp: Let_def split: if_splits)
    then show ?thesis using Inl Some by (auto simp: public_outcome_change_def ok_or_def)
  next
    case (Inr role)
    then obtain c source token shields outcome swap where u: "su_role u = PublicSourceDestination c source token shields outcome swap"
      by (cases "su_role u") auto
    define outcome1 where "outcome1 = next_destination_outcome outcome (public_destination_outcome x)"
    have role: "role = PublicSourceDestination c source token shields
        (if is_filled outcome1 \<and> shields = [] then outcome else outcome1)
        (swap\<lparr>pu_observations := (pu_observations swap)\<lparr>pb_bridge_outcome := Some x\<rparr>\<rparr>)"
      using Inr u by (auto simp: outcome1_def Let_def split: if_splits)
    have filled: "outcome1 = outcome" if "is_filled outcome"
      using that by (auto simp: outcome1_def next_destination_outcome_def is_filled_def
        split: option.splits destination_outcome.splits)
    have "evolves chain r (with_role use (\<lambda>_. role) r)"
    proof (rule role_evolves [OF Some])
      show "body_ok chain r" using assms by (simp add: record_ok_def)
      show "role_ok chain (map ip_hash (er_issued r)) role" if "role_ok chain (map ip_hash (er_issued r)) (su_role u)"
        using that by (auto simp: role_ok_def u role delivery_ok_def observed_ok)
      show "set (use_facts (su_role u)) \<subseteq> set (use_facts role)"
        using filled by (auto simp: u role fill_facts_def observed_ok split: option.splits if_splits)
    qed
    then show ?thesis using Inr Some by (simp add: public_outcome_change_def ok_or_def)
  qed
qed

lemma public_evidence_harmless:
  assumes ok: "store_ok chain cs"
  shows "harmless chain cs (record_public_swap_bridge_outcome env operation use x cs)"
    "harmless chain cs (record_public_swap_bridge_refund env operation use refund cs)"
    "harmless chain cs (record_public_swap_inclusion env operation use h inclusion cs)"
    "harmless chain cs (record_public_swap_deposit_ruled_out env operation use h ev cs)"
  unfolding record_public_swap_bridge_outcome_def record_public_swap_bridge_refund_def record_public_swap_inclusion_def
    record_public_swap_deposit_ruled_out_def
  by (rule update_record_harmless [OF ok];
    simp add: public_outcome_harmless swap_mut_harmless refund_ok change_transaction_ok transaction_changes_ok)+

text \<open>A change that is harmless and never refuses its evidence is fine.\<close>

lemma harmless_fine:
  assumes "harmless_change chain r result" "result \<noteq> Inl InvalidRecord"
  shows "change_fine chain r result"
  using assms by (cases result) (auto simp: change_fine_def)

lemma live_swap_mismatch: "(\<And>swap. f swap \<noteq> Inl InvalidRecord) \<Longrightarrow> live_public_swap use f r \<noteq> Inl InvalidRecord"
  "(\<And>swap. f swap \<noteq> Inl InvalidRecord) \<Longrightarrow> public_swap_mut use f r \<noteq> Inl InvalidRecord"
  by (auto simp: live_public_swap_def public_swap_mut_def and_then_eq_Inl split: option.split)

lemma swap_refusals:
  "reapprove approval swap \<noteq> Inl InvalidRecord" "bind_destination address setup swap \<noteq> Inl InvalidRecord"
  "sign_path path bridge swap \<noteq> Inl InvalidRecord" "submit_public_order status swap \<noteq> Inl InvalidRecord"
  "add_transaction t swap \<noteq> Inl InvalidRecord"
  by (auto simp: reapprove_def bind_destination_def sign_path_def submit_public_order_def add_transaction_def Let_def
    split: option.split public_swap_path.split)

lemma scan_mismatch: "change_transaction P (advance_scan b) swap \<noteq> Inl InvalidRecord"
proof -
  have "update_transaction P (advance_scan b) ts \<noteq> Inl InvalidRecord" for ts
    by (induction ts) (auto simp: advance_scan_def and_then_eq_Inl)
  then show ?thesis by (simp add: change_transaction_def and_then_eq_Inl)
qed

lemma public_operations_fine:
  assumes ok: "store_ok chain cs"
  shows "fine chain cs (reapprove_public_swap env operation use approval cs)"
    "fine chain cs (bind_public_swap_destination env operation use address cs)"
    "fine chain cs (record_public_swap_path env operation use path bridge cs)"
    "fine chain cs (record_public_swap_submission env operation use status cs)"
    "fine chain cs (record_public_swap_observations env operation use observed cs)"
    "fine chain cs (record_public_swap_transaction env operation use t cs)"
    "fine chain cs (record_public_swap_deposit_scan env operation use h next_block cs)"
proof -
  have live: "change_fine chain r (live_public_swap use f r)"
    if "record_ok chain r" "swap_change_ok f" "\<And>swap. f swap \<noteq> Inl InvalidRecord" for r f
    by (rule harmless_fine [OF live_swap_harmless live_swap_mismatch(1)]) (use that in blast)+
  have any: "change_fine chain r (public_swap_mut use f r)"
    if "record_ok chain r" "swap_change_ok f" "\<And>swap. f swap \<noteq> Inl InvalidRecord" for r f
    by (rule harmless_fine [OF swap_mut_harmless live_swap_mismatch(2)]) (use that in blast)+
  have mismatch: "change_fine chain r (Inl OperationMismatch)" for r by (simp add: change_fine_def)
  show "fine chain cs (reapprove_public_swap env operation use approval cs)"
    "fine chain cs (bind_public_swap_destination env operation use address cs)"
    "fine chain cs (record_public_swap_path env operation use path bridge cs)"
    "fine chain cs (record_public_swap_submission env operation use status cs)"
    "fine chain cs (record_public_swap_observations env operation use observed cs)"
    "fine chain cs (record_public_swap_transaction env operation use t cs)"
    "fine chain cs (record_public_swap_deposit_scan env operation use h next_block cs)"
    unfolding reapprove_public_swap_def bind_public_swap_destination_def record_public_swap_path_def
      record_public_swap_submission_def record_public_swap_observations_def record_public_swap_transaction_def
      record_public_swap_deposit_scan_def
    by (rule update_record_fine [OF ok]; simp add: live any mismatch reapprove_ok bind_ok sign_path_ok submit_ok
      observations_ok add_transaction_ok change_transaction_ok transaction_changes_ok swap_refusals scan_mismatch ok_or_def
      split: option.split)+
qed

lemma cancel_public_fine:
  assumes ok: "store_ok chain cs"
  shows "fine chain cs (cancel_public_swap env operation use cs)"
proof (cases "account cs operation")
  case None
  then show ?thesis by (simp add: cancel_public_swap_def guarded_def found_record_ok [OF ok] ok_or_def fine_refused [OF ok])
next
  case (Some r)
  have "keeps chain cs (put_row (OperationRow operation (snd (cancel_swap_use use r))) cs)"
    by (rule put_known [OF ok Some cancel_evolves])
  then show ?thesis
    by (auto simp: cancel_public_swap_def guarded_def found_record_ok [OF ok] ok_or_def Some Let_def
      intro: fine_refused [OF ok] fine_accepted split: prod.split)
qed

end

section \<open>Claims\<close>

lemma chain_records_ok:
  assumes "vault_ok v"
  obtains rs where "chain_records v listed = Inr rs"
    "\<And>c r. (c, r) \<in> set rs \<longleftrightarrow> c \<in> set listed \<and> account (v c) (er_operation r) = Some r"
proof -
  have "\<exists>rs. chain_records v listed = Inr rs
    \<and> (\<forall>c r. (c, r) \<in> set rs \<longleftrightarrow> c \<in> set listed \<and> account (v c) (er_operation r) = Some r)"
  proof (induction listed)
    case (Cons c listed)
    obtain rs where rs: "records (v c) = Inr rs" "\<And>r. r \<in> set rs \<longleftrightarrow> account (v c) (er_operation r) = Some r"
      by (rule records_ok [OF vault_okD [OF assms, of c]]) blast
    then show ?case using Cons by auto
  qed simp
  then show thesis using that by blast
qed

lemma find_map_Some: "find_map f xs = Some y \<Longrightarrow> \<exists>x \<in> set xs. f x = Some y"
  by (induction f xs rule: find_map.induct) (auto split: option.splits)

lemma find_map_None: "find_map f xs = None \<longleftrightarrow> (\<forall>x \<in> set xs. f x = None)"
  by (induction xs) (auto split: option.splits)

lemma source_fault: "admit_public_swap_source valid_to terms rs = Inl e \<Longrightarrow> \<not> store_fault e"
  by (auto simp: admit_public_swap_source_def Let_def buys_same_token_def sells_same_token_def
    dest!: find_map_Some split: if_splits option.splits prod.splits)

context record_relation
begin

lemma claim_public_sound:
  assumes ok: "vault_ok v" and fresh: "fresh_draws env v [choice_operation (pq_account claim)]"
  shows "sound v (claim_public_swap env chain claim v)"
proof (cases "pq_origin_chain claim = chain")
  case True
  then show ?thesis by (simp add: claim_public_swap_def sound_refused [OF ok])
next
  case False
  let ?operation = "choice_operation (pq_account claim)"
  let ?found = "account (v chain) ?operation"
  obtain x v' where run: "claim_swap_account env chain ?operation ?found (pq_delegate claim)
      (Some SWAP_DESTINATION_PURPOSE_SUMMARY) [Erc20 (pq_destination_token claim)] (pq_id claim) (claimed_role claim) v = (x, v')"
    by fastforce
  have role: "role_ok chain [] (claimed_role claim)" "?operation \<in> set [?operation]"
    using False by (simp_all add: claimed_role_def role_ok_def delivery_ok_def is_filled_def)
  have claimed: "sound v (bind_outcome (x, v') (\<lambda>claimed v1. commit (Inr claimed) v1))"
    if "\<forall>r. ?found = Some r \<longrightarrow> swap_use (pq_id claim) r = None"
    using ok refl fresh role(2,1) that run
  proof (cases rule: claim_swap_account_cases)
    case (refused e)
    then show ?thesis by (simp add: bind_outcome_def sound_refused [OF ok])
  next
    case (claimed r rows)
    then show ?thesis
      using vault_keeps_upd [OF ok claimed(3)]
      by (simp add: bind_outcome_def commit_def sound_accepted put_batch_chain [symmetric] del: put_batch_simps)
  qed
  obtain rs where rs: "wallet_records env v = Inr rs"
    unfolding wallet_records_def by (rule chain_records_ok [OF ok, of "se_chains env"]) blast
  have admitted: "\<not> store_fault e"
    if "and_then (admit_swap_account env (pq_account claim) ?found chain role use)
        (\<lambda>_. and_then (wallet_records env v) (admit_public_swap_source valid_to terms)) = Inl e" for role use valid_to terms e
    using that rs by (auto simp: and_then_eq_Inl dest: admit_fault source_fault)
  have sound: "sound v (case Option.bind ?found (\<lambda>r. map_option (Pair r) (swap_use (pq_id claim) r)) of
      Some (r, held) \<Rightarrow> (if public_bound claim held then Inr r else Inl OperationMismatch, v)
    | None \<Rightarrow>
        if refused then (Inl OperationMismatch, v)
        else (case and_then (admit_swap_account env (pq_account claim) ?found chain role use)
            (\<lambda>_. and_then (wallet_records env v) (admit_public_swap_source valid_to terms)) of
          Inl e \<Rightarrow> (Inl e, v)
        | Inr _ \<Rightarrow> bind_outcome (x, v') (\<lambda>claimed v1. commit (Inr claimed) v1)))" for refused role use valid_to terms
  proof (cases "Option.bind ?found (\<lambda>r. map_option (Pair r) (swap_use (pq_id claim) r))")
    case None
    then have "\<forall>r. ?found = Some r \<longrightarrow> swap_use (pq_id claim) r = None" by auto
    from claimed [OF this] admitted show ?thesis
      unfolding None option.case by (auto intro: sound_refused [OF ok] split: sum.split)
  next
    case (Some found)
    then show ?thesis
      by (cases found) (auto intro: sound_refused [OF ok] sound_accepted vault_keeps_refl [OF ok])
  qed
  show ?thesis
    unfolding claim_public_swap_def if_not_P [OF False]
    by (rule sound_guarded [OF ok]) (simp only: vault_record_of [OF ok] sum.case run sound)
qed

end

end
