(* ===== verification/ExecutorMachine.thy ===== *)
theory ExecutorMachine
  imports ReconcileOperations SwapOrderOperations PublicSwapOperations
begin

text \<open>
  The executor store as a state machine: the operations of \<open>ExecutorStore\<close> on the stores of a vault, one
  call after another as the record lock orders them, and what holds in every state they reach.
\<close>

section \<open>Calls\<close>

definition plain :: "('a, 's) outcome \<Rightarrow> (unit, 's) outcome" where
  "plain out = (case out of (Inl e, s) \<Rightarrow> (Inl e, s) | (Inr _, s) \<Rightarrow> (Inr (), s))"

text \<open>The calls on a swap that a Public account pays for.\<close>

datatype public_swap_call =
    Reapprove public_swap_approval
  | CancelPublic
  | BindDestination address
  | SignPath public_swap_path across_order_terms
  | SubmitPublicOrder swap_submission_status
  | ObservePublicSwap public_swap_observations
  | NotePublicOutcome bridge_outcome
  | NotePublicRefund swap_observation
  | SendTransaction public_swap_transaction
  | IncludeTransaction b256 public_swap_inclusion
  | ScanDeposit b256 u64
  | RuleOutDeposit b256 swap_observation

fun run_public_call ::
    "store_env \<Rightarrow> operation_id \<Rightarrow> swap_use_id \<Rightarrow> public_swap_call \<Rightarrow> chain_store \<Rightarrow> (unit, chain_store) outcome" where
  "run_public_call env operation use (Reapprove approval) cs = plain (reapprove_public_swap env operation use approval cs)"
| "run_public_call env operation use CancelPublic cs = plain (cancel_public_swap env operation use cs)"
| "run_public_call env operation use (BindDestination address) cs =
    plain (bind_public_swap_destination env operation use address cs)"
| "run_public_call env operation use (SignPath path bridge) cs =
    plain (record_public_swap_path env operation use path bridge cs)"
| "run_public_call env operation use (SubmitPublicOrder status) cs =
    plain (record_public_swap_submission env operation use status cs)"
| "run_public_call env operation use (ObservePublicSwap observed) cs =
    plain (record_public_swap_observations env operation use observed cs)"
| "run_public_call env operation use (NotePublicOutcome x) cs =
    plain (record_public_swap_bridge_outcome env operation use x cs)"
| "run_public_call env operation use (NotePublicRefund refund) cs =
    plain (record_public_swap_bridge_refund env operation use refund cs)"
| "run_public_call env operation use (SendTransaction t) cs = plain (record_public_swap_transaction env operation use t cs)"
| "run_public_call env operation use (IncludeTransaction h inclusion) cs =
    plain (record_public_swap_inclusion env operation use h inclusion cs)"
| "run_public_call env operation use (ScanDeposit h next_block) cs =
    plain (record_public_swap_deposit_scan env operation use h next_block cs)"
| "run_public_call env operation use (RuleOutDeposit h ev) cs =
    plain (record_public_swap_deposit_ruled_out env operation use h ev cs)"

fun public_evidence :: "public_swap_call \<Rightarrow> bool" where
  "public_evidence (NotePublicOutcome _) = True"
| "public_evidence (NotePublicRefund _) = True"
| "public_evidence (IncludeTransaction _ _) = True"
| "public_evidence (RuleOutDeposit _ _) = True"
| "public_evidence _ = False"

datatype executor_call =
    RaiseFloor u32
  | Reserve operation_id address "string option" "executor_asset list"
  | ReserveSwap operation_id address "string option" "executor_asset list" "swap_approval option" "operation_id option"
  | ReserveDestination operation_id address destination_record
  | ReserveSpare address
  | BindSpareAddress u32 address
  | RestoreIndex u32 address address "executor_asset list"
  | RetargetDelegate operation_id address
  | RecordUseCheck operation_id "use_observation option"
  | BindAddress operation_id address
  | SetHidden operation_id bool
  | Retire operation_id
  | RecordIssued operation_id issued_payload
  | RecordShield operation_id swap_use_id issued_payload
  | RecordRecovery operation_id "swap_use_id option" issued_payload
  | RecordSynced operation_id "nonce_watermark option" u64
  | RecordAccountRead operation_id nonce_observation
  | InvalidateObservation operation_id
  | RefreshSettledNonce executor_record nonce_observation
  | ReleasePayloads operation_id "b256 list"
  | ReserveReleased operation_id b256
  | RecordSubmission operation_id b256 b256
  | ClaimPair swap_pair_claim
  | CancelUse operation_id swap_use_id
  | CancelUseById swap_use_id
  | StopUse operation_id
  | ReplaceAccount operation_id swap_use_id swap_use_side operation_id
  | Reconcile bool
  | RecordAttempt operation_id swap_attempt
  | RecordAttemptOnSetup operation_id swap_attempt u256
  | RecordOrderSubmission operation_id order_uid swap_submission_status
  | RecordApproval operation_id swap_use_id swap_approval
  | RecordObservations operation_id order_uid order_observations
  | RecordFundings operation_id "swap_funding list"
  | RecordSettlement operation_id order_uid settlement_evidence
  | RecordExecutedFee operation_id order_uid u256 address
  | RecordBridgeOutcome operation_id order_uid bridge_outcome
  | RecordBridgeRefund operation_id order_uid swap_observation
  | ClaimPublic public_swap_claim
  | PublicSwapCall operation_id swap_use_id public_swap_call

fun run_call :: "store_env \<Rightarrow> u64 \<Rightarrow> executor_call \<Rightarrow> vault \<Rightarrow> (unit, vault) outcome" where
  "run_call env chain (RaiseFloor floor) v = plain (on_chain chain (raise_floor env floor) v)"
| "run_call env chain (Reserve operation delegate purpose assets) v =
    plain (on_chain chain (reserve env chain operation delegate purpose assets) v)"
| "run_call env chain (ReserveSwap operation delegate purpose assets approval destination) v =
    plain (on_chain chain (reserve_with_swap_approval env chain operation delegate purpose assets approval destination) v)"
| "run_call env chain (ReserveDestination operation delegate destination) v =
    plain (on_chain chain (reserve_swap_destination env chain operation delegate destination) v)"
| "run_call env chain (ReserveSpare delegate) v = plain (on_chain chain (reserve_spare env delegate) v)"
| "run_call env chain (BindSpareAddress index address) v =
    plain (on_chain chain (bind_spare_address env index address) v)"
| "run_call env chain (RestoreIndex index address delegate assets) v =
    plain (on_chain chain (restore_index env chain index address delegate assets) v)"
| "run_call env chain (RetargetDelegate operation delegate) v =
    plain (on_chain chain (retarget_delegate env chain operation delegate) v)"
| "run_call env chain (RecordUseCheck operation observation) v =
    plain (on_chain chain (record_use_check env operation observation) v)"
| "run_call env chain (BindAddress operation address) v = plain (on_chain chain (bind_address env operation address) v)"
| "run_call env chain (SetHidden operation hidden) v = plain (on_chain chain (set_hidden env operation hidden) v)"
| "run_call env chain (Retire operation) v = plain (on_chain chain (retire env operation) v)"
| "run_call env chain (RecordIssued operation p) v = plain (on_chain chain (record_issued env v operation p) v)"
| "run_call env chain (RecordShield operation use p) v =
    plain (on_chain chain (record_swap_destination_shield env v operation use p) v)"
| "run_call env chain (RecordRecovery operation active p) v =
    plain (on_chain chain (record_recovery_issued env v operation active p) v)"
| "run_call env chain (RecordSynced operation resolved scanned) v =
    plain (on_chain chain (record_synced env operation resolved scanned) v)"
| "run_call env chain (RecordAccountRead operation observed) v =
    plain (on_chain chain (record_account_read env operation observed) v)"
| "run_call env chain (InvalidateObservation operation) v =
    plain (on_chain chain (invalidate_observation env operation) v)"
| "run_call env chain (RefreshSettledNonce previous observed) v =
    plain (on_chain chain (refresh_settled_swap_nonce env previous observed) v)"
| "run_call env chain (ReleasePayloads operation hashes) v =
    plain (on_chain chain (release_payloads env operation hashes) v)"
| "run_call env chain (ReserveReleased operation h) v = plain (on_chain chain (reserve_released env operation h) v)"
| "run_call env chain (RecordSubmission operation h transaction) v =
    plain (on_chain chain (record_submission env operation h transaction) v)"
| "run_call env chain (ClaimPair claim) v = plain (claim_swap_pair env chain claim v)"
| "run_call env chain (CancelUse operation use) v = plain (cancel_claim env chain operation use v)"
| "run_call env chain (CancelUseById use) v = plain (cancel_swap_use_by_id env chain use v)"
| "run_call env chain (StopUse operation) v = plain (stop_swap_use env chain operation v)"
| "run_call env chain (ReplaceAccount operation use side replacement) v =
    plain (replace_swap_use_account env chain operation use side replacement v)"
| "run_call env chain (Reconcile orphans) v = plain (reconcile_swap_destinations_inner env chain orphans v)"
| "run_call env chain (RecordAttempt operation t) v =
    plain (on_chain chain (record_swap_attempt env v chain operation t) v)"
| "run_call env chain (RecordAttemptOnSetup operation t nonce) v =
    plain (on_chain chain (record_swap_attempt_on_included_setup env v chain operation t nonce) v)"
| "run_call env chain (RecordOrderSubmission operation uid status) v =
    plain (on_chain chain (record_swap_submission env operation uid status) v)"
| "run_call env chain (RecordApproval operation use approval) v =
    plain (on_chain chain (record_swap_approval env operation use approval) v)"
| "run_call env chain (RecordObservations operation uid obs) v =
    plain (on_chain chain (record_swap_observations env operation uid obs) v)"
| "run_call env chain (RecordFundings operation fundings) v =
    plain (on_chain chain (record_swap_fundings env operation fundings) v)"
| "run_call env chain (RecordSettlement operation uid ev) v =
    plain (on_chain chain (record_swap_settlement env operation uid ev) v)"
| "run_call env chain (RecordExecutedFee operation uid fee token) v =
    plain (on_chain chain (record_swap_executed_fee env operation uid fee token) v)"
| "run_call env chain (RecordBridgeOutcome operation uid x) v =
    plain (on_chain chain (record_swap_bridge_outcome env operation uid x) v)"
| "run_call env chain (RecordBridgeRefund operation uid refund) v =
    plain (on_chain chain (record_swap_bridge_refund env operation uid refund) v)"
| "run_call env chain (ClaimPublic claim) v = plain (claim_public_swap env chain claim v)"
| "run_call env chain (PublicSwapCall operation use call) v =
    on_chain chain (run_public_call env operation use call) v"

text \<open>The identifiers that a call gives to new records.\<close>

fun new_operations :: "executor_call \<Rightarrow> operation_id list" where
  "new_operations (Reserve operation _ _ _) = [operation]"
| "new_operations (ReserveSwap operation _ _ _ _ _) = [operation]"
| "new_operations (ReserveDestination operation _ _) = [operation]"
| "new_operations (ClaimPair claim) = claim_operations claim"
| "new_operations (ReplaceAccount _ _ _ replacement) = [replacement]"
| "new_operations (ClaimPublic claim) = [choice_operation (pq_account claim)]"
| "new_operations _ = []"

type_synonym executor_label = "store_env \<times> u64 \<times> executor_call"

inductive executor_step :: "vault \<Rightarrow> executor_label \<Rightarrow> vault \<Rightarrow> bool" where
  executor_call: "fresh_draws env v (new_operations call) \<Longrightarrow>
    executor_step v (env, chain, call) (snd (run_call env chain call v))"

inductive_cases executor_stepE: "executor_step v (env, chain, call) v'"

definition empty_vault :: vault where
  "empty_vault = (\<lambda>_. \<lparr>cs_operations = [], cs_allocation = None\<rparr>)"

section \<open>Calls that leave payloads and nonces alone\<close>

lemma empty_vault_ok: "vault_ok empty_vault"
  by (simp add: vault_ok_def store_ok_def empty_vault_def account_def)

fun quiet_call :: "executor_call \<Rightarrow> bool" where
  "quiet_call (RecordIssued _ _) = False"
| "quiet_call (RecordShield _ _ _) = False"
| "quiet_call (RecordRecovery _ _ _) = False"
| "quiet_call (RecordSynced _ _ _) = False"
| "quiet_call (RecordAccountRead _ _) = False"
| "quiet_call (InvalidateObservation _) = False"
| "quiet_call (RefreshSettledNonce _ _) = False"
| "quiet_call (ReleasePayloads _ _) = False"
| "quiet_call (ReserveReleased _ _) = False"
| "quiet_call (RecordSubmission _ _ _) = False"
| "quiet_call (RecordAttempt _ _) = False"
| "quiet_call (RecordAttemptOnSetup _ _ _) = False"
| "quiet_call (RecordOrderSubmission _ _ _) = False"
| "quiet_call (RecordObservations _ _ _) = False"
| "quiet_call (RecordFundings _ _) = False"
| "quiet_call (RecordSettlement _ _ _) = False"
| "quiet_call (RecordExecutedFee _ _ _ _) = False"
| "quiet_call (RecordBridgeOutcome _ _ _) = False"
| "quiet_call (RecordBridgeRefund _ _ _) = False"
| "quiet_call _ = True"

text \<open>The calls that take evidence, and refuse it with \<open>InvalidRecord\<close>.\<close>

fun evidence_call :: "executor_call \<Rightarrow> bool" where
  "evidence_call (RecordObservations _ _ _) = True"
| "evidence_call (RecordFundings _ _) = True"
| "evidence_call (RecordSettlement _ _ _) = True"
| "evidence_call (RecordExecutedFee _ _ _ _) = True"
| "evidence_call (RecordBridgeOutcome _ _ _) = True"
| "evidence_call (RecordBridgeRefund _ _ _) = True"
| "evidence_call (PublicSwapCall _ _ call) = public_evidence call"
| "evidence_call _ = False"

context record_relation
begin

text \<open>What a call leaves is good, and its accounts are related to the earlier ones.\<close>

definition call_sound :: "vault \<Rightarrow> executor_call \<Rightarrow> ('a, vault) outcome \<Rightarrow> bool" where
  "call_sound v call out \<longleftrightarrow>
    vault_keeps v (snd out)
    \<and> (\<forall>e. fst out = Inl e \<longrightarrow> snd out = v \<and> (store_fault e \<longrightarrow> e = InvalidRecord \<and> evidence_call call))"

lemma sound_call: "sound v out \<Longrightarrow> call_sound v call (plain out)" "sound v out \<Longrightarrow> call_sound v call out"
  by (auto simp: call_sound_def sound_def plain_def split: prod.splits sum.splits)

lemma chain_call: "vault_ok v \<Longrightarrow> fine chain (v chain) (f (v chain)) \<Longrightarrow> call_sound v call (plain (on_chain chain f v))"
  by (rule sound_call(1) [OF sound_on_chain])

lemma harmless_call:
  assumes "vault_ok v" "harmless chain (v chain) (f (v chain))" "evidence_call call"
  shows "call_sound v call (plain (on_chain chain f v))" "call_sound v call (on_chain chain f v)"
  using assms vault_keeps_upd [OF assms(1)] vault_keeps_refl [OF assms(1)]
  by (auto simp: call_sound_def harmless_def plain_def on_chain_def split: prod.splits sum.splits)

lemma public_call_fine:
  assumes ok: "store_ok chain cs"
  shows "harmless chain cs (run_public_call env operation use call cs)"
    "\<not> public_evidence call \<Longrightarrow> fine chain cs (run_public_call env operation use call cs)"
proof -
  have plain: "fine chain cs out \<Longrightarrow> fine chain cs (plain out)" "fine chain cs out \<Longrightarrow> harmless chain cs (plain out)"
    "harmless chain cs out \<Longrightarrow> harmless chain cs (plain out)" for out :: "('a, chain_store) outcome"
    by (auto simp: fine_def harmless_def plain_def split: prod.splits sum.splits)
  show "harmless chain cs (run_public_call env operation use call cs)"
    by (cases call)
      (simp_all add: plain public_operations_fine [OF ok] cancel_public_fine [OF ok] public_evidence_harmless [OF ok])
  show "fine chain cs (run_public_call env operation use call cs)" if "\<not> public_evidence call"
    using that
    by (cases call) (simp_all add: plain public_operations_fine [OF ok] cancel_public_fine [OF ok])
qed

lemma quiet_call_sound:
  assumes ok: "vault_ok v" and fresh: "fresh_draws env v (new_operations call)" and quiet: "quiet_call call"
  shows "call_sound v call (run_call env chain call v)"
proof -
  note store = vault_okD [OF ok, of chain]
  note unused = fresh_unused [OF fresh, of chain]
  note named = fresh_named [OF fresh]
  have restored: "fine chain (v chain) (restore_index env chain index address delegate assets (v chain))"
    for index address delegate assets
    using fresh_distinct [OF fresh, of 1] by (intro restore_index_fine [OF store unused unused]) auto
  have public: "call_sound v k (on_chain chain (run_public_call env operation use c) v)"
    if "\<not> public_evidence c" for k operation use c
    by (rule sound_call(2), rule sound_on_chain [OF ok], rule public_call_fine(2) [OF store that])
  show ?thesis
  proof (cases "evidence_call call")
    case True
    then show ?thesis
      using quiet by (cases call) (simp_all add: harmless_call [OF ok] public_call_fine [OF store])
  next
    case False
    then show ?thesis
      using quiet fresh named
      by (cases call)
        (auto intro!: sound_call(1) public cancel_sound [OF ok] stop_swap_use_sound [OF ok] reconcile_sound [OF ok]
          claim_swap_pair_sound [OF ok] claim_public_sound [OF ok] replace_swap_use_account_sound [OF ok]
          sound_on_chain [OF ok] raise_floor_fine [OF store unused] reserve_fine [OF store unused]
          reserve_spare_fine [OF store unused] bind_spare_address_fine [OF store] restored quiet_operations_fine [OF store]
          approval_fine [OF store])
  qed
qed

end

text \<open>Every call: an account goes on in it.\<close>

lemma run_call_sound:
  assumes ok: "vault_ok v" and fresh: "fresh_draws env v (new_operations call)"
  shows "continuing.call_sound v call (run_call env chain call v)"
proof -
  note store = vault_okD [OF ok, of chain]
  consider "quiet_call call" | "\<not> quiet_call call" "evidence_call call" | "\<not> quiet_call call" "\<not> evidence_call call" by blast
  then show ?thesis
  proof cases
    case 1
    then show ?thesis by (rule continuing.quiet_call_sound [OF ok fresh])
  next
    case 2
    then show ?thesis
      by (cases call) (auto intro!: continuing.harmless_call [OF ok] evidence_harmless [OF store])
  next
    case 3
    then show ?thesis
      by (cases call)
        (auto intro!: continuing.chain_call [OF ok] payload_operations_fine [OF store] record_issued_fine [OF ok store]
          reserve_released_fine [OF store] attempt_fine [OF ok store] submission_fine [OF store]
          simp: record_swap_attempt_def record_swap_attempt_on_included_setup_def)
  qed
qed

interpretation executor_machine: transition_system "\<lambda>v. v = empty_vault" executor_step vault_ok
proof
  show "vault_ok v" if "v = empty_vault" for v using that empty_vault_ok by simp
  show "vault_ok v'" if "executor_step v l v'" "vault_ok v" for v l v'
    using that(1)
  proof cases
    case (executor_call env call chain)
    then have "continuing.vault_keeps v v'"
      using run_call_sound [OF that(2), of env call chain] by (simp add: continuing.call_sound_def)
    then show ?thesis by (rule continuing.vault_keeps_ok)
  qed
qed

end
