(* ===== verification/InputReservations.thy ===== *)
theory InputReservations
  imports ExecutorMachine
begin

text \<open>
  The private inputs that the payloads of an account can still spend, and why no two operations of a chain
  hold the same one. A payload is live until its nonce is settled, the user releases it, or, for a swap's
  pre-hook, it is recorded that it never runs. Live inputs are reserved (\<open>reserved_inputs\<close>), and what a call
  reserves is checked against the other operations' reservations (\<open>takes\<close>).
\<close>

section \<open>Live inputs\<close>

lemma set_fold_add_once: "set (fold add_once xs ys) = set xs \<union> set ys"
  by (induction xs arbitrary: ys) (auto simp: add_once_def)

definition ended_hook :: "b256 \<Rightarrow> executor_record \<Rightarrow> bool" where
  "ended_hook h r = list_ex (\<lambda>o1. sh_payload (so_pre_hook o1) = h \<and> has_ended o1) (swap_orders_of r)"

definition live :: "executor_record \<Rightarrow> issued_payload \<Rightarrow> bool" where
  "live r p \<longleftrightarrow>
    p \<in> set (er_issued r) \<and> ip_hash p \<notin> set (er_released_payloads r) \<and> \<not> nonce_settled (ip_nonce p) r
    \<and> \<not> (ip_purpose p = SwapPreHook \<and> ended_hook (ip_hash p) r)"

definition live_inputs :: "executor_record \<Rightarrow> input_identity list" where
  "live_inputs r = concat (map (\<lambda>p. px_inputs (ip_context p)) (filter (live r) (er_issued r)))"

lemma live_inputs_iff: "x \<in> set (live_inputs r) \<longleftrightarrow> (\<exists>p. live r p \<and> x \<in> set (px_inputs (ip_context p)))"
  by (auto simp: live_inputs_def live_def)

lemma live_reserving: "live r p \<Longrightarrow> p \<in> set (reserving_payloads r)"
  by (auto simp: live_def reserving_payloads_def reserving_payloads_before_release_def nonce_settled_def ended_hook_def
    releases_swap_inputs_def)

lemma reserving_live: "\<not> list_ex has_ended (swap_orders_of r) \<Longrightarrow> p \<in> set (reserving_payloads r) \<longleftrightarrow> live r p"
  by (auto simp: live_def reserving_payloads_def reserving_payloads_before_release_def nonce_settled_def ended_hook_def
    releases_swap_inputs_def list_ex_iff)

lemma live_reserved: "set (live_inputs r) \<subseteq> set (reserved_inputs r)"
  using live_reserving by (fastforce simp: live_inputs_iff reserved_inputs_def set_fold_add_once)

lemma reserved_live: "\<not> list_ex has_ended (swap_orders_of r) \<Longrightarrow> set (reserved_inputs r) = set (live_inputs r)"
  using reserving_live by (fastforce simp: live_inputs_iff reserved_inputs_def set_fold_add_once)

text \<open>What a record reserves, it reserved before.\<close>

definition reserves_no_more :: "executor_record \<Rightarrow> executor_record \<Rightarrow> bool" where
  "reserves_no_more r s \<longleftrightarrow>
    continues r s \<and> (\<forall>p. live s p \<longrightarrow> (\<exists>q. live r q \<and> px_inputs (ip_context q) = px_inputs (ip_context p)))"

definition reserves_nothing :: "executor_record \<Rightarrow> bool" where
  "reserves_nothing r \<longleftrightarrow> (\<forall>p. \<not> live r p)"

lemma same_watermark:
  assumes "er_issued s = er_issued r" "er_nonce_observation s = er_nonce_observation r"
    "er_nonce_watermark s = er_nonce_watermark r"
  shows "watermark s = watermark r"
  unfolding watermark_def assms ..

lemma settled_fields:
  assumes "er_issued s = er_issued r" "er_nonce_observation s = er_nonce_observation r"
    "er_nonce_watermark s = er_nonce_watermark r" "er_settled_nonce s = er_settled_nonce r"
  shows "nonce_settled n s = nonce_settled n r"
  unfolding nonce_settled_def nonce_resolved_def same_watermark [OF assms(1-3)] assms(4) ..

lemma same_ended: "er_swap s = er_swap r \<Longrightarrow> ended_hook h s = ended_hook h r"
  by (simp add: ended_hook_def swap_orders_of_def)

lemma same_settled: "same_reservations r s \<Longrightarrow> nonce_settled n s = nonce_settled n r"
  by (rule settled_fields) (simp_all add: same_reservations_def)

interpretation shrinking: record_relation reserves_no_more reserves_nothing
proof
  show "reserves_no_more r s" if "continues r s" "same_reservations r s" for r s
    using that same_settled [OF that(2)] same_ended [of s r]
    by (auto simp: reserves_no_more_def live_def same_reservations_def)
  show "reserves_no_more r t" if "reserves_no_more r s" "reserves_no_more s t" for r s t
    using that continues_trans unfolding reserves_no_more_def by metis
  show "continues r s" if "reserves_no_more r s" for r s using that by (simp add: reserves_no_more_def)
  show "reserves_nothing r" if "er_issued r = []" for r using that by (simp add: reserves_nothing_def live_def)
  show "reserves_nothing s" if "reserves_nothing r" "reserves_no_more r s" for r s
    using that by (auto simp: reserves_nothing_def reserves_no_more_def)
qed

section \<open>Changes that shrink the reservations\<close>

lemma reserves_no_moreI:
  assumes "continues r s" "er_issued s = er_issued r" "er_swap s = er_swap r"
    "set (er_released_payloads r) \<subseteq> set (er_released_payloads s)"
    and "\<And>p. p \<in> set (er_issued r) \<Longrightarrow> nonce_settled (ip_nonce p) r \<Longrightarrow> nonce_settled (ip_nonce p) s"
  shows "reserves_no_more r s"
  using assms(1,2,4,5) same_ended [OF assms(3)] unfolding reserves_no_more_def live_def by (metis subsetD)

lemma settled_below: "nonce_settled n r \<Longrightarrow> \<exists>w. watermark r = Some w \<and> n < nw_nonce w"
  by (auto simp: nonce_settled_def nonce_resolved_def split: option.splits)

lemma settled_iff:
  "nonce_settled n r \<longleftrightarrow>
    (\<exists>w s. watermark r = Some w \<and> n < nw_nonce w \<and> er_settled_nonce r = Some s \<and> n < s)"
  by (auto simp: nonce_settled_def nonce_resolved_def split: option.splits)

lemma watermark_updates [simp]:
  "watermark (r\<lparr>er_nonce_watermark := Some w\<rparr>) = Some w"
  "watermark (r\<lparr>er_nonce_watermark := Some w, er_nonce_observation := seen\<rparr>) = Some w"
  "watermark (r\<lparr>er_nonce_observation := seen, er_nonce_watermark := Some w\<rparr>) = Some w"
  by (simp_all add: watermark_def)

lemma watermark_settled [simp]: "watermark (r\<lparr>er_settled_nonce := settled\<rparr>) = watermark r"
  by (rule same_watermark) simp_all

lemma invalidate_shrinks: "reserves_no_more r (require_reconciliation r)"
proof (rule reserves_no_moreI)
  show "continues r (require_reconciliation r)"
    using watermark_evolves(2) [of undefined r] by (simp add: continuing_evolves)
  show "nonce_settled n (require_reconciliation r)" if "nonce_settled n r" for n
    using that by (auto simp: settled_iff require_reconciliation_def)
qed (simp_all add: require_reconciliation_def)

lemma max_settled_above: "max_settled settled m = Some s \<Longrightarrow> settled = Some t \<Longrightarrow> t \<le> s"
  by (auto simp: max_settled_def)

lemma synced_shrinks: "reserves_no_more r (apply_synced resolved scanned r)"
proof (rule reserves_no_moreI)
  show "continues r (apply_synced resolved scanned r)"
    using watermark_evolves(3) [of undefined r] by (simp add: continuing_evolves)
  fix p assume "nonce_settled (ip_nonce p) r"
  then obtain w s where settled: "watermark r = Some w" "ip_nonce p < nw_nonce w" "er_settled_nonce r = Some s" "ip_nonce p < s"
    by (auto simp: settled_iff)
  have raised: "\<exists>t. max_settled x m = Some t \<and> ip_nonce p < t" if "x = Some y" "ip_nonce p < y" for x y m
    using that by (auto simp: max_settled_def less_max_iff_disj)
  show "nonce_settled (ip_nonce p) (apply_synced resolved scanned r)"
  proof (cases "\<exists>x. resolved = Some x \<and> nw_nonce w < nw_nonce x")
    case True
    then obtain x where x: "resolved = Some x" "nw_nonce w < nw_nonce x" by blast
    obtain t where "max_settled (Some s) (nw_nonce x) = Some t" "ip_nonce p < t" using raised settled(4) by blast
    then show ?thesis
      using x settled raised [of "Some t" t] order.strict_trans [OF settled(2) x(2)]
      by (simp add: apply_synced_def settled_iff)
  next
    case False
    then have "apply_synced resolved scanned r = r\<lparr>er_settled_nonce :=
        (if nw_block w \<le> scanned then max_settled (Some s) (nw_nonce w) else Some s)\<rparr>"
      using settled(1,3) by (cases resolved) (auto simp: apply_synced_def)
    then show ?thesis using settled raised [of "Some s" s] by (simp add: settled_iff)
  qed
qed (auto simp: apply_synced_def Let_def split: option.split)

lemma settled_after_read:
  assumes "nonce_settled n r" "n < nw_nonce w"
  shows "nonce_settled n (set_nonce_watermark w (r\<lparr>er_nonce_observation := seen\<rparr>))"
  using assms
  by (auto simp: settled_iff set_nonce_watermark_def Let_def)

text \<open>A read that does not lower the watermark.\<close>

definition read_in_order :: "nonce_observation \<Rightarrow> executor_record \<Rightarrow> bool" where
  "read_in_order observed r \<longleftrightarrow>
    (case watermark r of None \<Rightarrow> True | Some w \<Rightarrow> nw_nonce w \<le> no_nonce observed)"

lemma max_watermark_above:
  "(\<exists>w. max_watermark ws = Some w \<and> n < nw_nonce w) \<longleftrightarrow> (\<exists>w \<in> set ws. n < nw_nonce w)"
proof (induction ws)
  case (Cons w ws)
  then show ?case by (cases "max_watermark ws") (auto split: if_splits)
qed simp

lemma resolved_iff:
  "nonce_resolved n r \<longleftrightarrow>
    (case er_nonce_watermark r of
       Some w \<Rightarrow> n < nw_nonce w
     | None \<Rightarrow> (\<exists>p \<in> set (er_issued r). \<exists>w. executed_watermark p = Some w \<and> n < nw_nonce w) \<or> observed_past r n)"
proof (cases "er_nonce_watermark r")
  case None
  let ?ws = "List.map_filter executed_watermark (er_issued r)
    @ (case er_nonce_observation r of None \<Rightarrow> [] | Some observed \<Rightarrow> [watermark_of observed])"
  have "nonce_resolved n r \<longleftrightarrow> (\<exists>w. max_watermark ?ws = Some w \<and> n < nw_nonce w)"
    using None by (auto simp: nonce_resolved_def watermark_def split: option.splits)
  also have "\<dots> \<longleftrightarrow> (\<exists>w \<in> set ?ws. n < nw_nonce w)" by (rule max_watermark_above)
  also have "\<dots> \<longleftrightarrow> (\<exists>p \<in> set (er_issued r). \<exists>w. executed_watermark p = Some w \<and> n < nw_nonce w) \<or> observed_past r n"
    by (auto simp: List.map_filter_def observed_past_def watermark_of_def split: option.splits) force+
  finally show ?thesis using None by simp
qed (simp add: nonce_resolved_def watermark_def)

lemma account_read_shrinks:
  assumes "read_in_order observed r"
  shows "reserves_no_more r (apply_account_read observed r)"
proof (rule reserves_no_moreI)
  show "continues r (apply_account_read observed r)"
    using watermark_evolves(4) [of undefined r] by (simp add: continuing_evolves)
  show "er_issued (apply_account_read observed r) = er_issued r" "er_swap (apply_account_read observed r) = er_swap r"
    "set (er_released_payloads r) \<subseteq> set (er_released_payloads (apply_account_read observed r))"
    by (auto simp: apply_account_read_def set_nonce_watermark_def Let_def split: option.split)
  fix p assume settled: "nonce_settled (ip_nonce p) r"
  then obtain w where w: "watermark r = Some w" "ip_nonce p < nw_nonce w" using settled_below by blast
  then have "ip_nonce p < no_nonce observed" using assms by (auto simp: read_in_order_def)
  then have set_read: "nonce_settled (ip_nonce p) (set_nonce_watermark (watermark_of observed) (r\<lparr>er_nonce_observation := Some observed\<rparr>))"
    by (intro settled_after_read [OF settled]) (simp add: watermark_of_def)
  have "nonce_settled (ip_nonce p) (r\<lparr>er_nonce_observation := Some observed\<rparr>)" if "er_nonce_observation r = None"
    using settled that by (auto simp: nonce_settled_def resolved_iff observed_past_def split: option.splits)
  then show "nonce_settled (ip_nonce p) (apply_account_read observed r)"
    using set_read settled by (auto simp: apply_account_read_def)
qed

lemma release_shrinks:
  assumes "release_hashes hashes r = Inr r'"
  shows "reserves_no_more r r'"
proof -
  obtain released where r': "r' = r\<lparr>er_released_payloads := released\<rparr>" "set (er_released_payloads r) \<subseteq> set released"
    using release_hashes_parts [OF assms] by blast
  have "continues r r'" using release_hashes_evolves [OF assms] by (simp add: continuing_evolves)
  then show ?thesis
    using r' by (intro reserves_no_moreI) (simp_all add: settled_fields [of "r\<lparr>er_released_payloads := released\<rparr>" r])
qed

lemma update_payload_set:
  assumes "\<And>q. g (f q) = g q"
  shows "map g (update_payload h f ps) = map g ps"
  using assms by (induction ps) auto

lemma update_payload_images:
  assumes "\<And>q. g (f q) = g q" and "p \<in> set (update_payload h f ps)"
  obtains q where "q \<in> set ps" "g q = g p"
  using update_payload_set [of g f h ps] assms by (metis imageE image_eqI image_set)

lemma submission_shrinks:
  assumes "submit_payload h transaction r = Inr r'" "h \<notin> set (er_released_payloads r)"
  shows "reserves_no_more r r'"
proof -
  define f :: "issued_payload \<Rightarrow> issued_payload" where "f = (\<lambda>p. p\<lparr>ip_transaction_hashes := add_once transaction (ip_transaction_hashes p)\<rparr>)"
  have "er_issued r' = update_payload h f (er_issued r)" "set (er_released_payloads r') = set (er_released_payloads r)"
    and same: "er_nonce_watermark r' = er_nonce_watermark r" "er_settled_nonce r' = er_settled_nonce r"
      "er_nonce_observation r' = er_nonce_observation r"
    and swap: "er_swap r' = er_swap r"
    using assms by (auto simp: submit_payload_def withdraw_release_def f_def split: option.splits)
  note r' = this(1,2)
  let ?g = "\<lambda>p. (ip_hash p, ip_nonce p, ip_purpose p, px_inputs (ip_context p), executed_watermark p)"
  have g: "?g (f p) = ?g p" for p unfolding f_def executed_watermark_def by (cases "ip_inclusion p") simp_all
  have executed: "executed_watermark (f p) = executed_watermark p" for p using g by simp
  have "executed_watermark ` set (er_issued r') = executed_watermark ` set (er_issued r)"
    using arg_cong [OF update_payload_set [of executed_watermark f h "er_issued r", OF executed], of set] r'(1) by simp
  then have carried: "(\<exists>p \<in> set (er_issued r'). \<exists>w. executed_watermark p = Some w \<and> n < nw_nonce w)
      \<longleftrightarrow> (\<exists>p \<in> set (er_issued r). \<exists>w. executed_watermark p = Some w \<and> n < nw_nonce w)" for n
    by (metis (mono_tags, lifting) imageE image_eqI)
  have settled: "nonce_settled n r' = nonce_settled n r" for n
    unfolding nonce_settled_def resolved_iff observed_past_def same carried ..
  have "\<exists>q. live r q \<and> px_inputs (ip_context q) = px_inputs (ip_context p)" if "live r' p" for p
  proof -
    have "p \<in> set (update_payload h f (er_issued r))" using that r' by (simp add: live_def)
    then obtain q where "q \<in> set (er_issued r)" "?g q = ?g p" by (rule update_payload_images [of ?g f, OF g])
    then show ?thesis using that r'(2) settled same_ended [OF swap] by (auto simp: live_def)
  qed
  moreover have "continues r r'" using submit_evolves [OF assms(1)] by (simp add: continuing_evolves)
  ultimately show ?thesis by (simp add: reserves_no_more_def)
qed

section \<open>Payloads that reserve inputs\<close>

definition apart :: "chain_store \<Rightarrow> bool" where
  "apart cs \<longleftrightarrow>
    (\<forall>key key' r r'. account cs key = Some r \<and> account cs key' = Some r' \<and> key \<noteq> key'
      \<longrightarrow> set (live_inputs r) \<inter> set (live_inputs r') = {})"

definition inputs_apart :: "vault \<Rightarrow> bool" where
  "inputs_apart v \<longleftrightarrow> (\<forall>chain. apart (v chain))"

text \<open>What \<open>r'\<close> reserves, \<open>r\<close> reserved or no other account of the chain does.\<close>

definition takes :: "chain_store \<Rightarrow> operation_id \<Rightarrow> executor_record \<Rightarrow> executor_record \<Rightarrow> bool" where
  "takes cs operation r r' \<longleftrightarrow>
    (\<forall>x \<in> set (live_inputs r'). x \<in> set (live_inputs r)
      \<or> (\<forall>key s. key \<noteq> operation \<longrightarrow> account cs key = Some s \<longrightarrow> x \<notin> set (live_inputs s)))"

lemma reserves_no_more_inputs:
  "reserves_no_more r s \<Longrightarrow> set (live_inputs s) \<subseteq> set (live_inputs r)"
  by (auto simp: live_inputs_iff reserves_no_more_def) metis

lemma shrinks_takes: "reserves_no_more r s \<Longrightarrow> takes cs operation r s"
  using reserves_no_more_inputs by (auto simp: takes_def)

lemma stored_live [simp]: "live_inputs (stored r) = live_inputs r"
proof -
  have "nonce_settled n (stored r) = nonce_settled n r" for n by (rule settled_fields) (simp_all add: stored_def)
  moreover have "ended_hook h (stored r) = ended_hook h r" for h by (rule same_ended) simp
  ultimately have "live (stored r) = live r" by (simp add: fun_eq_iff live_def stored_def)
  then show ?thesis by (simp add: live_inputs_def stored_def)
qed

lemma keeps_apart:
  assumes "shrinking.keeps chain cs cs'" "store_ok chain cs" "apart cs"
  shows "apart cs'"
proof -
  have origin: "\<exists>r. account cs key = Some r \<and> x \<in> set (live_inputs r)"
    if s: "account cs' key = Some s" and x: "x \<in> set (live_inputs s)" for key s x
  proof (cases "account cs key")
    case None
    then have "reserves_nothing s" using assms(1) s unfolding shrinking.keeps_def by blast
    then show ?thesis using x by (simp add: live_inputs_iff reserves_nothing_def)
  next
    case (Some r)
    then have "reserves_no_more r s" using assms(1) s unfolding shrinking.keeps_def by force
    then have "x \<in> set (live_inputs r)" using x reserves_no_more_inputs by blast
    then show ?thesis using Some by simp
  qed
  show ?thesis
    unfolding apart_def
  proof (intro allI impI equals0I, elim conjE IntE)
    fix key key' s s' x
    assume *: "account cs' key = Some s" "account cs' key' = Some s'" "key \<noteq> key'"
      "x \<in> set (live_inputs s)" "x \<in> set (live_inputs s')"
    obtain r where r: "account cs key = Some r" "x \<in> set (live_inputs r)" using origin [OF *(1,4)] by auto
    obtain r' where r': "account cs key' = Some r'" "x \<in> set (live_inputs r')" using origin [OF *(2,5)] by auto
    have "set (live_inputs r) \<inter> set (live_inputs r') = {}"
      using assms(3) r(1) r'(1) *(3) unfolding apart_def by simp
    then show False using r(2) r'(2) by (auto dest: equals0D)
  qed
qed

lemma put_apart:
  assumes apart: "apart cs" and known: "account cs operation = Some r"
    and body: "body_ok chain r'" "er_operation r' = operation" and takes: "takes cs operation r r'"
  shows "apart (put_row (OperationRow operation r') cs)"
proof -
  note acc = account_put [OF body, of cs]
  have others: "set (live_inputs s) \<inter> set (live_inputs r') = {}"
    if "account cs key = Some s" "key \<noteq> operation" for key s
    using that takes known apart unfolding takes_def apart_def by blast
  show ?thesis
    unfolding apart_def acc
  proof (intro allI impI, elim conjE)
    fix k k' s s'
    assume *: "((account cs)(operation \<mapsto> stored r')) k = Some s" "((account cs)(operation \<mapsto> stored r')) k' = Some s'" "k \<noteq> k'"
    show "set (live_inputs s) \<inter> set (live_inputs s') = {}"
    proof (cases "k = operation")
      case True
      then have "s = stored r'" "account cs k' = Some s'" "k' \<noteq> operation" using * by simp_all
      then show ?thesis using others [of k' s'] by auto
    next
      case False
      then have s: "account cs k = Some s" using *(1) by simp
      show ?thesis
      proof (cases "k' = operation")
        case True
        then have "s' = stored r'" using *(2) by simp
        then show ?thesis using others [OF s False] by simp
      next
        case False
        then have "account cs k' = Some s'" using *(2) by simp
        then show ?thesis using s *(3) apart unfolding apart_def by blast
      qed
    qed
  qed
qed

lemma update_apart:
  assumes ok: "store_ok chain cs" and apart: "apart cs"
    and change: "\<And>r r'. account cs operation = Some r \<Longrightarrow> body_ok chain r \<Longrightarrow> change cs r = Inr r'
      \<Longrightarrow> continuing.evolves chain r r' \<and> takes cs operation r r'"
  shows "apart (snd (update_record env operation change cs))"
proof (cases "account cs operation")
  case None
  then show ?thesis using apart by (simp add: update_record_def guarded_def record_of_ok [OF ok])
next
  case (Some r)
  have body: "body_ok chain r" "er_operation r = operation"
    using store_okD(3,4) [OF ok Some] by (simp_all add: record_ok_def)
  show ?thesis
  proof (cases "change cs r")
    case (Inl e)
    then show ?thesis using apart Some by (simp add: update_record_def guarded_def record_of_ok [OF ok])
  next
    case (Inr r')
    have r': "body_ok chain (stored r')" "er_operation (stored r') = operation" "takes cs operation r (stored r')"
      using change [OF Some body(1) Inr] body by (auto simp: continuing_evolves continues_def takes_def)
    then have "apart (put_row (OperationRow operation (stored r')) cs)" by (rule put_apart [OF apart Some])
    then show ?thesis using apart Some Inr
      by (simp add: update_record_def guarded_def record_of_ok [OF ok] Let_def stored_def)
  qed
qed

text \<open>A change that shrinks the reservations.\<close>

lemma shrinking_apart:
  assumes "store_ok chain cs" "apart cs"
    and "\<And>r r'. account cs operation = Some r \<Longrightarrow> change cs r = Inr r'
      \<Longrightarrow> continuing.evolves chain r r' \<and> reserves_no_more r r'"
  shows "apart (snd (update_record env operation change cs))"
proof (rule update_apart [OF assms(1,2)])
  fix r r' assume *: "account cs operation = Some r" "body_ok chain r" "change cs r = Inr r'"
  then have "continuing.evolves chain r r'" "reserves_no_more r r'" using assms(3) by blast+
  then show "continuing.evolves chain r r' \<and> takes cs operation r r'"
    using shrinks_takes by blast
qed

lemma elsewhere_free:
  assumes "store_ok chain cs" "records cs = Inr rs" "\<not> reserved_elsewhere operation inputs rs"
    and "account cs key = Some s" "key \<noteq> operation" "x \<in> set inputs"
  shows "x \<notin> set (reserved_inputs s)"
proof -
  have "er_operation s = key" using store_okD(4) [OF assms(1,4)] .
  then have "s \<in> set rs" using records_ok [OF assms(1)] assms(2,4) by (metis sum.inject(2))
  then show ?thesis
    using assms(3,5,6) \<open>er_operation s = key\<close>
    by (auto simp: reserved_elsewhere_def shares_input_def list_ex_iff)
qed

text \<open>What a change reserves anew are inputs that no other operation of the chain reserves.\<close>

lemma claims_takes:
  assumes ok: "store_ok chain cs" and rs: "records cs = Inr rs" "\<not> reserved_elsewhere operation inputs rs"
    and only: "\<And>p. live r' p \<Longrightarrow> live r p \<or> set (px_inputs (ip_context p)) \<subseteq> set inputs"
  shows "takes cs operation r r'"
  unfolding takes_def
proof (rule ballI)
  fix x assume "x \<in> set (live_inputs r')"
  then obtain p where p: "live r' p" "x \<in> set (px_inputs (ip_context p))" using live_inputs_iff by blast
  show "x \<in> set (live_inputs r) \<or> (\<forall>key s. key \<noteq> operation \<longrightarrow> account cs key = Some s \<longrightarrow> x \<notin> set (live_inputs s))"
    using only [OF p(1)] p(2) live_inputs_iff [of x r] elsewhere_free [OF ok rs] live_reserved by blast
qed

lemma withdrawn_reserving:
  "live (withdraw_release h r) p \<Longrightarrow> live r p \<or> p \<in> set (er_issued r) \<and> ip_hash p = h"
  by (auto simp: live_def withdraw_release_def settled_fields [of "r\<lparr>er_released_payloads := _\<rparr>" r]
    same_ended [of "r\<lparr>er_released_payloads := _\<rparr>" r])

lemma same_hash: "body_ok chain r \<Longrightarrow> p \<in> set (er_issued r) \<Longrightarrow> q \<in> set (er_issued r) \<Longrightarrow> ip_hash p = ip_hash q \<Longrightarrow> p = q"
  by (auto simp: body_ok_def distinct_map inj_on_def)

lemma find_hash: "find (\<lambda>p. ip_hash p = h) ps = Some p \<Longrightarrow> p \<in> set ps \<and> ip_hash p = h"
  by (auto simp: find_Some_iff)

lemma reserve_again_takes:
  assumes ok: "store_ok chain cs" and body: "body_ok chain r" and again: "reserve_again operation h cs r = Inr r'"
  shows "takes cs operation r r'"
proof -
  obtain p where p: "find (\<lambda>p. ip_hash p = h) (er_issued r) = Some p"
    using again by (auto simp: reserve_again_def split: option.splits)
  obtain rs where rs: "records cs = Inr rs" by (rule records_ok [OF ok]) blast
  show ?thesis
  proof (cases "r' = r")
    case True
    then show ?thesis by (simp add: takes_def)
  next
    case False
    then have r': "r' = withdraw_release h r" and free: "\<not> reserved_elsewhere operation (px_inputs (ip_context p)) rs"
      using again p rs by (auto simp: reserve_again_def and_then_def split: if_splits)
    show ?thesis
      using withdrawn_reserving same_hash [OF body] find_hash [OF p] r'
      by (intro claims_takes [OF ok rs free]) blast
  qed
qed

lemma settled_append:
  assumes "nonce_settled n r" and "er_issued s = er_issued r @ ps"
    and same: "er_nonce_observation s = er_nonce_observation r" "er_nonce_watermark s = er_nonce_watermark r"
      "er_settled_nonce s = er_settled_nonce r"
  shows "nonce_settled n s"
  using assms unfolding nonce_settled_def resolved_iff observed_past_def same
  by (cases "er_nonce_watermark r") auto

lemma shield_reserving: "live (record_shield use h r) p = live r p"
proof -
  have "nonce_settled n (record_shield use h r) = nonce_settled n r" for n
    by (rule settled_fields) (simp_all add: record_shield_def split: option.split)
  moreover have "ended_hook h' (record_shield use h r) = ended_hook h' r" for h'
    by (rule same_ended) (simp add: record_shield_def split: option.split)
  ultimately show ?thesis by (simp add: live_def record_shield_def split: option.split)
qed

lemma added_reserving:
  assumes body: "body_ok chain r" and added: "add_payload p r = Inr r1" and q: "live r1 q"
  shows "live r q \<or> px_inputs (ip_context q) = px_inputs (ip_context p)"
proof (cases "find (\<lambda>q. ip_hash q = ip_hash p) (er_issued r)")
  case None
  then have "r1 = r\<lparr>er_retired := er_retired r \<or> ip_purpose p = RecoveryPayload, er_issued := er_issued r @ [p]\<rparr>"
    using added by (simp add: add_payload_def)
  then show ?thesis using q settled_append [of "ip_nonce q" r r1 "[p]"] same_ended [of r1 r] by (auto simp: live_def)
next
  case (Some old)
  then have "same_payload old p" "r1 = withdraw_release (ip_hash p) r"
    using added by (auto simp: add_payload_def withdraw_release_def split: if_splits)
  then show ?thesis
    using q withdrawn_reserving [of "ip_hash p" r q] same_hash [OF body, of q old] find_hash [OF Some]
    by (auto simp: same_payload_def)
qed

lemma issue_takes:
  assumes ok: "store_ok chain cs" and body: "body_ok chain r" "body_ok chain r'"
    and issued: "issue_payload v operation expected p cs r = Inr r'"
  shows "takes cs operation r r'"
proof -
  obtain rs where rs: "records cs = Inr rs" by (rule records_ok [OF ok]) blast
  obtain use r1 where free: "\<not> reserved_elsewhere operation (px_inputs (ip_context p)) rs"
    and r1: "add_payload p r = Inr r1" "r' = record_shield use (ip_hash p) r1"
    using issued rs by (auto simp: issue_payload_def and_then_eq_Inr split: if_splits)
  show ?thesis
    using added_reserving [OF body(1) r1(1)] r1(2) shield_reserving
    by (intro claims_takes [OF ok rs free]) (metis subset_refl)
qed

end
