(* ===== verification/OrderlyRuns.thy ===== *)
theory OrderlyRuns
  imports InputReservations
begin

text \<open>
  The runs of the executor store in which no input becomes live again without a check, and the orders of
  swaps in them. A call is \<open>orderly\<close> unless it sends a payload or an order that was released, records a
  read of the nonce that lowers the watermark, or records observations that revive a dead pre-hook, as
  after a reorganization. Every other call keeps the live inputs of a chain's operations apart.
\<close>

section \<open>Orders and live inputs\<close>

lemma put_order_orders:
  assumes "find_order uid r = Some o1"
  shows "set (swap_orders_of r) - {o1} \<subseteq> set (swap_orders_of (put_order uid o2 r))"
    "o2 \<in> set (swap_orders_of (put_order uid o2 r))"
proof -
  have "find (\<lambda>x. so_uid x = uid) xs = Some o1 \<Longrightarrow> set xs - {o1} \<subseteq> set (replace_order uid o2 xs) \<and> o2 \<in> set (replace_order uid o2 xs)" for xs
    by (induction xs) (auto split: if_splits)
  then have "set (swap_orders_of r) - {o1} \<subseteq> set (swap_orders_of (put_order uid o2 r)) \<and> o2 \<in> set (swap_orders_of (put_order uid o2 r))"
    using assms by (cases "er_swap r") (auto simp: find_order_def swap_orders_of_def put_order_def)
  then show "set (swap_orders_of r) - {o1} \<subseteq> set (swap_orders_of (put_order uid o2 r))"
    "o2 \<in> set (swap_orders_of (put_order uid o2 r))" by blast+
qed

lemma put_order_same [simp]:
  "er_issued (put_order uid o2 r) = er_issued r" "er_released_payloads (put_order uid o2 r) = er_released_payloads r"
  "er_operation (put_order uid o2 r) = er_operation r"
  by (simp_all add: put_order_def)

lemma put_order_settled [simp]: "nonce_settled n (put_order uid o2 r) = nonce_settled n r"
  by (rule settled_fields) (simp_all add: put_order_def)

text \<open>Other observations of an order revive no pre-hook when the order is still ended if it was.\<close>

lemma put_order_shrinks:
  assumes found: "find_order uid r = Some o1" and same: "order_identity o2 = order_identity o1"
    and amounts: "amounts_ok (so_observations o1) \<Longrightarrow> amounts_ok (so_observations o2)"
    and ended: "has_ended o1 \<Longrightarrow> has_ended o2"
  shows "reserves_no_more r (put_order uid o2 r)"
proof -
  have "ended_hook h (put_order uid o2 r)" if was: "ended_hook h r" for h
  proof -
    obtain x where x: "x \<in> set (swap_orders_of r)" "sh_payload (so_pre_hook x) = h" "has_ended x"
      using was unfolding ended_hook_def list_ex_iff by blast
    show ?thesis
    proof (cases "x = o1")
      case True
      then have "sh_payload (so_pre_hook o2) = h" "has_ended o2" using x ended identity_fields(6) [OF same] by simp_all
      then show ?thesis using put_order_orders(2) [OF found, of o2] unfolding ended_hook_def list_ex_iff by blast
    next
      case False
      then show ?thesis using x put_order_orders(1) [OF found] unfolding ended_hook_def list_ex_iff by blast
    qed
  qed
  moreover have "continues r (put_order uid o2 r)"
    using put_order_evolves [OF found same amounts, of undefined] by (simp add: continuing_evolves)
  ultimately show ?thesis by (auto simp: reserves_no_more_def live_def)
qed

lemma ended_observations:
  "oo_pre_hook_dead (so_observations o2) = oo_pre_hook_dead (so_observations o1)
    \<Longrightarrow> oo_pre_hook_executed (so_observations o2) = oo_pre_hook_executed (so_observations o1) \<Longrightarrow> has_ended o2 = has_ended o1"
  by (simp add: has_ended_def)

definition keeps_ended :: "(swap_order \<Rightarrow> store_error + swap_order) \<Rightarrow> bool" where
  "keeps_ended f \<longleftrightarrow> order_change_ok f \<and> (\<forall>o1 o2. f o1 = Inr o2 \<longrightarrow> has_ended o1 \<longrightarrow> has_ended o2)"

lemma evidence_keeps_ended:
  "keeps_ended (settle_order ev)" "keeps_ended (charge_fee fee token)" "keeps_ended (outcome_change x)"
  "keeps_ended (refund_change refund)"
  by (auto simp: keeps_ended_def settle_order_ok charge_fee_ok outcome_change_ok refund_change_ok settle_order_def
    charge_fee_def outcome_change_def refund_change_def and_then_eq_Inr has_ended_def Let_def
    split: prod.splits if_splits option.splits)

lemma change_order_shrinks:
  assumes "keeps_ended f" "change_order uid f r = Inr r'"
  shows "continuing.evolves chain r r' \<and> reserves_no_more r r'"
proof -
  obtain o1 o2 where *: "find_order uid r = Some o1" "f o1 = Inr o2" "r' = put_order uid o2 r"
    using assms(2) by (auto simp: change_order_def and_then_eq_Inr split: option.splits)
  have o2: "order_identity o2 = order_identity o1" "amounts_ok (so_observations o1) \<Longrightarrow> amounts_ok (so_observations o2)"
    "has_ended o1 \<Longrightarrow> has_ended o2"
    using assms(1) *(2) by (auto simp: keeps_ended_def order_change_ok_def)
  show ?thesis using put_order_shrinks [OF *(1) o2] put_order_evolves [OF *(1) o2(1,2)] *(3) by simp
qed

lemma settlement_shrinks:
  assumes "settlement_change uid ev r = Inr r'"
  shows "continuing.evolves chain r r' \<and> reserves_no_more r r'"
proof (cases "ev_delivery ev = uid")
  case True
  then show ?thesis using change_order_shrinks [OF evidence_keeps_ended(1)] assms by (simp add: settlement_change_def)
next
  case False
  then obtain trade delivery handoff where
    found: "find_order uid r = Some trade" "find_order (ev_delivery ev) r = Some delivery"
    and r': "r' = put_order (ev_delivery ev) (split_delivered ev handoff delivery) (put_order uid (split_traded ev trade) r)"
    using assms by (auto simp: settlement_change_def record_split_settlement_def split: option.splits if_splits)
  have uid: "so_uid (split_traded ev trade) = uid"
    using found(1) by (auto simp: split_traded_def Let_def find_order_def find_Some_iff)
  have "reserves_no_more r (put_order uid (split_traded ev trade) r)"
    by (rule put_order_shrinks [OF found(1)]) (simp_all add: split_traded_def Let_def amounts_ok_def has_ended_def)
  moreover have "reserves_no_more (put_order uid (split_traded ev trade) r) r'"
    unfolding r' by (rule put_order_shrinks [OF find_put_order [OF False found(2) uid]])
      (simp_all add: split_delivered_def Let_def amounts_ok_def has_ended_def)
  ultimately have "reserves_no_more r r'" by (rule shrinking.related_trans)
  moreover have "continuing.evolves chain r r'" using settlement_harmless [of chain r uid ev] assms by simp
  ultimately show ?thesis by blast
qed

lemma fundings_shrink:
  assumes "fundings_change fundings r = Inr r'"
  shows "continuing.evolves chain r r' \<and> reserves_no_more r r'"
proof -
  obtain sw where sw: "er_swap r = Some sw" "r' = r\<lparr>er_swap := Some (sw\<lparr>sw_fundings := fundings\<rparr>)\<rparr>"
    using assms by (auto simp: fundings_change_def and_then_eq_Inr split: option.splits if_splits)
  have evolves: "continuing.evolves chain r r'" "continuing.evolves undefined r r'"
    using fundings_harmless [of _ r fundings] assms by (metis continuing.harmless_change_simps(2))+
  have "nonce_settled n r' = nonce_settled n r" for n by (rule settled_fields) (simp_all add: sw(2))
  moreover have "ended_hook h r' = ended_hook h r" for h using sw by (simp add: ended_hook_def swap_orders_of_def)
  ultimately have "reserves_no_more r r'"
    using evolves(2) sw(2) by (auto simp: reserves_no_more_def live_def continuing_evolves)
  then show ?thesis using evolves(1) by blast
qed

lemma placed_live:
  assumes accepted: "attempt_change env v chain operation t included cs r = Inr r'" and p: "live r' p"
  shows "live r p \<or> set (px_inputs (ip_context p)) \<subseteq> set (pf_inputs (tt_proof t))"
proof -
  obtain checks: "\<not> attempt_misfits env t r" "\<not> attempt_nonce_refused t included r" and r': "r' = place_order t r"
    using accepted by (rule attempt_accepted)
  note facts = checks_of_attempt [OF checks]
  have fields: "er_issued r' = er_issued r @ hook_payloads t" "er_released_payloads r' = er_released_payloads r"
    "swap_orders_of r' = swap_orders_of r @ [attempt_order t (swap_orders_of r)]"
    by (simp_all add: r' place_order_def Let_def hook_payloads_def swap_orders_of_def split: option.split)
  have settled: "nonce_settled (ip_nonce p) r \<Longrightarrow> nonce_settled (ip_nonce p) r'"
    by (rule settled_append [OF _ fields(1)]) (simp_all add: r' place_order_def Let_def)
  show ?thesis
  proof (cases "p \<in> set (er_issued r)")
    case True
    then show ?thesis using p settled fields by (auto simp: live_def ended_hook_def)
  next
    case False
    then have "p \<in> set (hook_payloads t)" using p fields(1) by (auto simp: live_def)
    then show ?thesis using facts(6) facts(8) by (cases "tt_post_hook t") (auto simp: hook_payloads_def)
  qed
qed

lemma attempt_takes:
  assumes ok: "store_ok chain cs" and accepted: "attempt_change env v chain' operation t included cs r = Inr r'"
  shows "takes cs operation r r'"
proof -
  obtain rs where rs: "records cs = Inr rs" "\<not> reserved_elsewhere operation (pf_inputs (tt_proof t)) rs"
    using accepted by (rule attempt_accepted)
  then show ?thesis using placed_live [OF accepted] by (intro claims_takes [OF ok rs])
qed

lemma submission_change_shrinks:
  assumes "submission_change uid status r = Inr r'" "find_order uid r = Some o1"
    and "status = SubmissionRejected \<or> list_all (\<lambda>h. h \<notin> set (er_released_payloads r)) (order_hooks o1)"
  shows "reserves_no_more r r'"
proof -
  let ?r = "put_order uid (submit_order status o1) r"
  have "reserves_no_more r ?r"
    by (rule put_order_shrinks [OF assms(2)]) (simp_all add: submit_order_def has_ended_def)
  moreover have "filter (\<lambda>h. h \<notin> set (order_hooks o1)) (er_released_payloads r) = er_released_payloads r"
    if "status \<noteq> SubmissionRejected"
    using that assms(3) by (auto simp: filter_id_conv list_all_iff)
  then have "r' = ?r"
    using assms(1,2) by (auto simp: submission_change_def Let_def split: if_splits)
  ultimately show ?thesis by simp
qed

section \<open>Orderly runs\<close>

text \<open>
  A call that makes no input live again unchecked: a read of the nonce does not lower the watermark, a
  payload or an order that is sent has not been released, and observations of an order do not revive its
  pre-hook.
\<close>

fun orderly :: "vault \<Rightarrow> u64 \<Rightarrow> executor_call \<Rightarrow> bool" where
  "orderly v chain (RecordAccountRead operation observed) =
    (case account (v chain) operation of None \<Rightarrow> True | Some r \<Rightarrow> read_in_order observed r)"
| "orderly v chain (RecordSubmission operation h transaction) =
    (case account (v chain) operation of None \<Rightarrow> True | Some r \<Rightarrow> h \<notin> set (er_released_payloads r))"
| "orderly v chain (RecordOrderSubmission operation uid status) =
    (case account (v chain) operation of
       None \<Rightarrow> True
     | Some r \<Rightarrow>
         (case find_order uid r of
            None \<Rightarrow> True
          | Some o1 \<Rightarrow>
              status = SubmissionRejected
              \<or> list_all (\<lambda>h. h \<notin> set (er_released_payloads r)) (order_hooks o1)))"
| "orderly v chain (RecordObservations operation uid obs) =
    (case account (v chain) operation of
       None \<Rightarrow> True
     | Some r \<Rightarrow>
         (case find_order uid r of
            None \<Rightarrow> True
          | Some o1 \<Rightarrow> has_ended o1 \<longrightarrow> has_ended (o1\<lparr>so_observations := obs\<rparr>)))"
| "orderly v chain call = True"

inductive orderly_step :: "vault \<Rightarrow> executor_label \<Rightarrow> vault \<Rightarrow> bool" where
  orderly_call: "executor_step v (env, chain, call) v' \<Longrightarrow> orderly v chain call \<Longrightarrow> orderly_step v (env, chain, call) v'"

lemma refresh_shrinks:
  assumes "\<not> list_ex (\<lambda>p. no_nonce observed \<le> ip_nonce p) (er_issued r)"
  shows "reserves_no_more r (set_nonce_watermark (watermark_of observed) (r\<lparr>er_nonce_observation := Some observed\<rparr>))"
proof (rule reserves_no_moreI)
  show "continues r (set_nonce_watermark (watermark_of observed) (r\<lparr>er_nonce_observation := Some observed\<rparr>))"
    using watermark_evolves(5) [of undefined r] by (simp add: continuing_evolves)
  show "nonce_settled (ip_nonce p) (set_nonce_watermark (watermark_of observed) (r\<lparr>er_nonce_observation := Some observed\<rparr>))"
    if "p \<in> set (er_issued r)" "nonce_settled (ip_nonce p) r" for p
    using that assms by (intro settled_after_read) (auto simp: list_ex_iff watermark_of_def not_le)
qed (auto simp: set_nonce_watermark_def Let_def split: option.split)

lemma payload_calls_apart:
  assumes ok: "store_ok chain cs" and apart: "apart cs"
  shows "apart (snd (record_synced env operation resolved scanned cs))"
    "(\<And>r. account cs operation = Some r \<Longrightarrow> read_in_order observed r) \<Longrightarrow>
      apart (snd (record_account_read env operation observed cs))"
    "apart (snd (invalidate_observation env operation cs))"
    "apart (snd (refresh_settled_swap_nonce env previous observed cs))"
    "apart (snd (release_payloads env operation hashes cs))"
    "(\<And>r. account cs operation = Some r \<Longrightarrow> h \<notin> set (er_released_payloads r)) \<Longrightarrow>
      apart (snd (record_submission env operation h transaction cs))"
  unfolding record_synced_def record_account_read_def invalidate_observation_def refresh_settled_swap_nonce_def
    release_payloads_def record_submission_def
  by (rule shrinking_apart [OF ok apart];
      auto simp: synced_shrinks account_read_shrinks invalidate_shrinks refresh_shrinks release_shrinks
        submission_shrinks release_hashes_evolves submit_evolves split: if_splits)+

lemma reserving_calls_apart:
  assumes vault: "vault_ok v" and ok: "store_ok chain cs" and apart: "apart cs"
  shows "apart (snd (reserve_released env operation h cs))"
    "apart (snd (record_issued env v operation p cs))"
    "apart (snd (record_swap_destination_shield env v operation use p cs))"
    "apart (snd (record_recovery_issued env v operation active p cs))"
proof -
  obtain rs where rs: "records cs = Inr rs" by (rule records_ok [OF ok]) blast
  show "apart (snd (reserve_released env operation h cs))"
    unfolding reserve_released_def
  proof (rule update_apart [OF ok apart])
    fix r r' assume r: "account cs operation = Some r" "body_ok chain r" "reserve_again operation h cs r = Inr r'"
    then have "r' = r \<or> r' = withdraw_release h r"
      by (auto simp: reserve_again_def and_then_eq_Inr split: option.splits if_splits)
    then show "continuing.evolves chain r r' \<and> takes cs operation r r'" using reserve_again_takes [OF ok r(2,3)] by auto
  qed
  have issued: "apart (snd (record_issued_for env v operation expected p cs))" for expected
    unfolding record_issued_for_def
  proof (rule update_apart [OF ok apart])
    fix r r' assume r: "account cs operation = Some r" "body_ok chain r" "issue_payload v operation expected p cs r = Inr r'"
    then have evolves: "continuing.evolves chain r r'"
      using issue_payload_fine [OF vault ok, of r operation expected p] by (simp add: continuing.change_fine_def)
    then show "continuing.evolves chain r r' \<and> takes cs operation r r'"
      using issue_takes [OF ok r(2) _ r(3)] r(2) by (simp add: continuing_evolves)
  qed
  then show "apart (snd (record_issued env v operation p cs))"
    "apart (snd (record_swap_destination_shield env v operation use p cs))"
    "apart (snd (record_recovery_issued env v operation active p cs))"
    using apart by (simp_all add: record_issued_def record_swap_destination_shield_def record_recovery_issued_def)
qed

lemma order_calls_apart:
  assumes vault: "vault_ok v" and ok: "store_ok chain cs" and apart: "apart cs"
  shows "apart (snd (record_swap_attempt_at env v chain operation t included cs))"
    "(\<And>r o1. account cs operation = Some r \<Longrightarrow> find_order uid r = Some o1 \<Longrightarrow>
        status = SubmissionRejected \<or> list_all (\<lambda>h. h \<notin> set (er_released_payloads r)) (order_hooks o1)) \<Longrightarrow>
      apart (snd (record_swap_submission env operation uid status cs))"
    "(\<And>r o1. account cs operation = Some r \<Longrightarrow> find_order uid r = Some o1 \<Longrightarrow>
        has_ended o1 \<longrightarrow> has_ended (o1\<lparr>so_observations := obs\<rparr>)) \<Longrightarrow>
      apart (snd (record_swap_observations env operation uid obs cs))"
proof -
  show "apart (snd (record_swap_attempt_at env v chain operation t included cs))"
    unfolding record_swap_attempt_at_def
  proof (rule update_apart [OF ok apart])
    fix r r' assume r: "account cs operation = Some r" "attempt_change env v chain operation t included cs r = Inr r'"
    then have "continuing.evolves chain r r'"
      using attempt_change_fine [OF vault ok, of r env operation t included] by (simp add: continuing.change_fine_def)
    then show "continuing.evolves chain r r' \<and> takes cs operation r r'" using attempt_takes [OF ok r(2)] by blast
  qed
  show "apart (snd (record_swap_submission env operation uid status cs))"
    if sent: "\<And>r o1. account cs operation = Some r \<Longrightarrow> find_order uid r = Some o1 \<Longrightarrow>
        status = SubmissionRejected \<or> list_all (\<lambda>h. h \<notin> set (er_released_payloads r)) (order_hooks o1)"
    unfolding record_swap_submission_def
  proof (rule shrinking_apart [OF ok apart])
    fix r r' assume r: "account cs operation = Some r" "submission_change uid status r = Inr r'"
    then obtain o1 where o1: "find_order uid r = Some o1" by (auto simp: submission_change_def split: option.splits)
    then have "reserves_no_more r r'" using submission_change_shrinks [OF r(2)] sent [OF r(1)] by blast
    then show "continuing.evolves chain r r' \<and> reserves_no_more r r'" using submission_evolves [OF r(2)] by blast
  qed
  show "apart (snd (record_swap_observations env operation uid obs cs))"
    if still: "\<And>r o1. account cs operation = Some r \<Longrightarrow> find_order uid r = Some o1 \<Longrightarrow>
        has_ended o1 \<longrightarrow> has_ended (o1\<lparr>so_observations := obs\<rparr>)"
    unfolding record_swap_observations_def
  proof (rule shrinking_apart [OF ok apart])
    fix r r' assume r: "account cs operation = Some r" "observations_change uid obs r = Inr r'"
    then obtain o1 where o1: "find_order uid r = Some o1" "r' = put_order uid (o1\<lparr>so_observations := obs\<rparr>) r" "amounts_ok obs"
      by (auto simp: observations_change_def change_order_def and_then_eq_Inr amounts_ok_def split: option.splits if_splits)
    then have "reserves_no_more r r'" unfolding o1(2) using still [OF r(1) o1(1)]
      by (intro put_order_shrinks [OF o1(1)]) simp_all
    then show "continuing.evolves chain r r' \<and> reserves_no_more r r'"
      using observations_harmless [of chain r uid obs] r(2) by simp
  qed
qed

lemma evidence_apart:
  assumes ok: "store_ok chain cs" and apart: "apart cs"
  shows "apart (snd (record_swap_fundings env operation fundings cs))"
    "apart (snd (record_swap_settlement env operation uid ev cs))"
    "apart (snd (record_swap_executed_fee env operation uid fee token cs))"
    "apart (snd (record_swap_bridge_outcome env operation uid x cs))"
    "apart (snd (record_swap_bridge_refund env operation uid refund cs))"
  unfolding record_swap_fundings_def record_swap_settlement_def record_swap_executed_fee_def
    record_swap_bridge_outcome_def record_swap_bridge_refund_def
  by (rule shrinking_apart [OF ok apart], erule fundings_shrink settlement_shrinks
    change_order_shrinks [OF evidence_keeps_ended(2)] change_order_shrinks [OF evidence_keeps_ended(3)]
    change_order_shrinks [OF evidence_keeps_ended(4)])+

lemma chain_apart:
  assumes "inputs_apart v" "apart (snd (f (v chain)))"
  shows "inputs_apart (snd (plain (on_chain chain f v)))"
  using assms by (auto simp: inputs_apart_def plain_def on_chain_def split: prod.split sum.split)

lemma run_call_apart:
  assumes ok: "vault_ok v" and apart: "inputs_apart v" and fresh: "fresh_draws env v (new_operations call)"
    and orderly: "orderly v chain call"
  shows "inputs_apart (snd (run_call env chain call v))"
proof (cases "quiet_call call")
  case True
  have "shrinking.call_sound v call (run_call env chain call v)" by (rule shrinking.quiet_call_sound [OF ok fresh True])
  then show ?thesis
    using keeps_apart vault_okD [OF ok] apart unfolding shrinking.call_sound_def shrinking.vault_keeps_def inputs_apart_def by blast
next
  case False
  note store = vault_okD [OF ok, of chain]
  have here: "apart (v chain)" using apart by (simp add: inputs_apart_def)
  show ?thesis
    using False orderly
    by (cases call)
      (auto intro!: chain_apart [OF apart] payload_calls_apart [OF store here] reserving_calls_apart [OF ok store here]
        order_calls_apart [OF ok store here] evidence_apart [OF store here]
        simp: record_swap_attempt_def record_swap_attempt_on_included_setup_def)
qed

lemma empty_apart: "inputs_apart empty_vault"
  by (simp add: inputs_apart_def apart_def empty_vault_def account_def)

interpretation orderly_machine: transition_system "\<lambda>v. v = empty_vault" orderly_step "\<lambda>v. vault_ok v \<and> inputs_apart v"
proof
  show "vault_ok v \<and> inputs_apart v" if "v = empty_vault" for v using that empty_vault_ok empty_apart by simp
  show "vault_ok v' \<and> inputs_apart v'" if "orderly_step v l v'" "vault_ok v \<and> inputs_apart v" for v l v'
    using that(1)
  proof cases
    case (orderly_call env chain call)
    have "vault_ok v'" using executor_machine.step_inv [OF orderly_call(2)] that(2) by blast
    moreover have "inputs_apart v'"
      using orderly_call(2)
    proof (rule executor_stepE)
      assume "v' = snd (run_call env chain call v)" "fresh_draws env v (new_operations call)"
      then show "inputs_apart v'" using run_call_apart that(2) orderly_call(3) by blast
    qed
    ultimately show ?thesis ..
  qed
qed

end
