(* ===== verification/ExecutorProperties.thy ===== *)
theory ExecutorProperties
  imports OrderlyRuns
begin

text \<open>
  What the executor store promises, as properties of its runs: its rows decode, a refused call writes
  nothing, an account is not lost and its index is not given again, no two operations reserve one input,
  and what the calls that reserve accounts, issue payloads and claim swap accounts leave behind. The
  last section is a small run, on which the properties are applied.
\<close>

section \<open>Calls on one record\<close>

abbreviation executor_reach :: "vault \<Rightarrow> bool" where
  "executor_reach \<equiv> reach (\<lambda>v. v = empty_vault) executor_step"

lemma update_accepted:
  assumes "store_ok chain cs" "fst (update_record env operation change cs) = Inr r'"
  obtains r r1 where "account cs operation = Some r" "change cs r = Inr r1" "r' = stored r1"
    "snd (update_record env operation change cs) = put_row (OperationRow operation (stored r1)) cs"
  using assms
  by (auto simp: update_record_def guarded_def record_of_ok Let_def stored_def split: if_splits option.splits sum.splits)

lemma update_accepts:
  assumes "store_ok chain cs" "account cs operation = Some r" "change cs r = Inr r1" "se_locked env" "se_wallet env"
  shows "update_record env operation change cs = (Inr (stored r1), put_row (OperationRow operation (stored r1)) cs)"
  using assms by (simp add: update_record_def guarded_def record_of_ok Let_def stored_def)

section \<open>Every row decodes\<close>

text \<open>
  C6: The store is well typed. In every state that calls on an empty vault reach, each stored row of each
  chain decodes to a valid record of its operation: the version its content asks for, an index below
  2^31, distinct uses and payloads, a swap destination whose origin is on another chain and whose shields
  are payloads that the account issued, and orders whose hooks are payloads that it issued. The allocation
  row is valid, and the counter is above every index.
\<close>

theorem executor_store_well_typed:
  assumes "executor_reach v"
  shows "(map_of (cs_operations (v chain)) key = Some w \<longrightarrow>
      (\<exists>r. open_row key w = Inr r \<and> record_ok chain r \<and> er_operation r = key
        \<and> er_index r < al_next_index (current_allocation (v chain))))
    \<and> (cs_allocation (v chain) = Some a \<longrightarrow> allocation_valid a)"
proof -
  have ok: "store_ok chain (v chain)" using executor_machine.reach_inv [OF assms] by (rule vault_okD)
  have "\<exists>r. open_row key w = Inr r \<and> record_ok chain r \<and> er_operation r = key
      \<and> er_index r < al_next_index (current_allocation (v chain))"
    if w: "map_of (cs_operations (v chain)) key = Some w"
  proof -
    have "key \<in> set (map fst (cs_operations (v chain)))" using w by (force dest: map_of_SomeD)
    then obtain r where r: "account (v chain) key = Some r" using store_okD(2) [OF ok] by blast
    then have "open_row key w = Inr r" using w by (auto simp: account_def split: sum.splits)
    then show ?thesis using store_okD(3-5) [OF ok r] by (auto simp: index_below_def)
  qed
  then show ?thesis using store_okD(7) [OF ok] by blast
qed

section \<open>Refused calls\<close>

text \<open>
  C7: A refused call writes nothing. When a call on a reachable vault returns an error, every chain's store is
  as it was before, also where the call changes accounts of two chains. The error is never that a stored
  row does not decode, and \<open>InvalidRecord\<close> is only the answer to evidence of an order, or of a swap
  that a Public account pays for, that does not fit it, never that a stored row is invalid.
\<close>

theorem refused_call_writes_nothing:
  assumes "executor_reach v" "fresh_draws env v (new_operations call)"
    and "fst (run_call env chain call v) = Inl e"
  shows "snd (run_call env chain call v) = v \<and> (e = InvalidRecord \<longrightarrow> evidence_call call) \<and> e \<noteq> Decode d"
proof -
  have "continuing.call_sound v call (run_call env chain call v)"
    by (rule run_call_sound [OF executor_machine.reach_inv [OF assms(1)] assms(2)])
  then show ?thesis using assms(3) by (auto simp: continuing.call_sound_def)
qed

section \<open>Accounts go on\<close>

lemma trace_keeps:
  assumes "trace executor_step v ls v'" "vault_ok v"
  shows "continuing.vault_keeps v v'"
  using assms
proof (induction rule: trace.induct)
  case (trace_Nil v)
  then show ?case by (rule continuing.vault_keeps_refl)
next
  case (trace_Cons v l t ls u)
  have "continuing.vault_keeps v t"
    using trace_Cons.hyps(1) run_call_sound [OF trace_Cons.prems] by cases (auto simp: continuing.call_sound_def)
  then show ?case using trace_Cons.IH continuing.vault_keeps_ok continuing.vault_keeps_trans by blast
qed

text \<open>
  C2: An account is never lost, and its index never serves another operation. Whatever calls follow, the
  operation's record is still there, with the same index and origin, its address once bound, its
  payloads and its orders in their order, with all that was signed and approved for them, the fills
  recorded for its uses, the orders that Public accounts signed for it and the transactions they sent, and a
  retired account stays retired; and no other operation of the chain has its index.
\<close>

theorem account_goes_on:
  assumes "executor_reach v" "trace executor_step v ls v'" "account (v chain) key = Some r"
  shows "\<exists>s. account (v' chain) key = Some s \<and> continues r s
    \<and> (\<forall>key' s'. account (v' chain) key' = Some s' \<longrightarrow> er_index s' = er_index r \<longrightarrow> key' = key)"
proof -
  have kept: "continuing.keeps chain (v chain) (v' chain)"
    using trace_keeps [OF assms(2) executor_machine.reach_inv [OF assms(1)]] by (simp add: continuing.vault_keeps_def)
  then obtain s where s: "account (v' chain) key = Some s" "continues r s"
    using assms(3) unfolding continuing.keeps_def by blast
  have "er_index s = er_index r" using s(2) by (simp add: continues_def)
  then have "key' = key" if "account (v' chain) key' = Some s'" "er_index s' = er_index r" for key' s'
    using store_okD(6) [OF continuing.keepsD [OF kept] that(1) s(1)] that(2) by simp
  then show ?thesis using s by blast
qed

section \<open>Reserved inputs\<close>

text \<open>
  C3: No two operations hold the same private input. In every state that orderly calls reach, the inputs that
  the live payloads of one operation spend (unsettled, not released, not a pre-hook recorded as dead) are
  disjoint from those of any other operation of the chain; and so are the inputs they reserve, when neither
  has a dead pre-hook.
\<close>

theorem inputs_reserved_once:
  assumes "reach (\<lambda>v. v = empty_vault) orderly_step v"
    and "account (v chain) key = Some r" "account (v chain) key' = Some r'" "key \<noteq> key'"
  shows "set (live_inputs r) \<inter> set (live_inputs r') = {}
    \<and> (\<not> list_ex has_ended (swap_orders_of r) \<longrightarrow> \<not> list_ex has_ended (swap_orders_of r') \<longrightarrow>
        set (reserved_inputs r) \<inter> set (reserved_inputs r') = {})"
proof -
  have "set (live_inputs r) \<inter> set (live_inputs r') = {}"
    using orderly_machine.reach_inv [OF assms(1)] assms(2-4) unfolding inputs_apart_def apart_def by blast
  then show ?thesis using reserved_live [of r] reserved_live [of r'] by simp
qed

section \<open>Reserving an account\<close>

lemma first_use_delegate:
  "er_delegate (case first_use of None \<Rightarrow> r | Some (use, role) \<Rightarrow> begin_first_swap_use use role r) = er_delegate r"
  by (simp add: begin_first_swap_use_def split: option.split prod.split)

lemma allocated_delegate:
  assumes "allocate_record env operation delegate purpose assets first_use cs = (Inr (r, rows), cs')"
  shows "er_delegate r = delegate"
proof -
  obtain a cs1 where "load_allocation env cs = (Inr a, cs1)"
    using assms by (auto simp: allocate_record_def bind_outcome_def split: sum.splits prod.splits)
  then show ?thesis
    using assms
    by (auto simp: allocate_record_def bind_outcome_def and_then_eq_Inr Let_def first_use_delegate blank_record_def)
qed

text \<open>
  A reservation gives the operation an account of its own. If the reservation of an operation that has no
  record succeeds, the account is stored, reserved and not retired, for the delegate that was asked for;
  its index is below 2^31, outside the range kept for positions, and no account of the chain had it. The
  same reservation made again, with whatever purpose, returns that account and writes nothing.
\<close>

theorem reservation_gives_own_account:
  assumes "executor_reach v" "fresh_draws env v [operation]" "account (v chain) operation = None"
    and "reserve env chain operation delegate purpose assets (v chain) = (Inr r, cs)"
  shows "account cs operation = Some r \<and> er_origin r = Reserved \<and> \<not> er_retired r \<and> er_issued r = [] \<and> er_delegate r = delegate
    \<and> er_index r < INDEX_LIMIT \<and> \<not> (POSITION_START \<le> er_index r \<and> er_index r \<le> POSITION_END)
    \<and> (\<forall>key s. account (v chain) key = Some s \<longrightarrow> er_index s \<noteq> er_index r)
    \<and> (se_locked env' \<and> se_wallet env' \<longrightarrow> reserve env' chain operation delegate purpose' assets' cs = (Inr r, cs))"
proof -
  note ok = vault_okD [OF executor_machine.reach_inv [OF assms(1)], of chain]
  note drawn = fresh_unused [OF assms(2), of chain 0] fresh_named [OF assms(2), of operation 0, simplified]
  obtain x cs1 where run: "allocate_record env operation delegate purpose assets None (v chain) = (x, cs1)" by fastforce
  have result: "bind_outcome (x, cs1) (\<lambda>(r, rows) cs1. (Inr r, put_rows rows cs1)) = (Inr r, cs)"
    using assms(4) run
    by (auto simp: reserve_def reserve_with_swap_approval_def reserve_record_def guarded_def record_of_ok [OF ok] assms(3)
      first_use_of_def split: if_splits)
  show ?thesis
    using ok assms(3) drawn run
  proof (cases rule: continuing.allocate_record_ok)
    case (refused e)
    then show ?thesis using result by (simp add: bind_outcome_def)
  next
    case (allocated r0 rows)
    have r0: "r0 = r" and cs: "cs = put_row (OperationRow operation r) (put_rows rows (v chain))"
      using result allocated(1,2) by (auto simp: bind_outcome_def)
    note new = allocated(3,4) [unfolded r0]
    have body: "body_ok chain r" "er_operation r = operation" "stored r = r" "er_issued r = []"
      using new_record_body [OF new(1)] new(1) version_written by (auto simp: new_record_ok_def stored_def)
    have found: "account cs operation = Some r" using account_put [OF body(1,2)] body(3) by (simp add: cs)
    have delegate: "er_delegate r = delegate" using allocated_delegate run allocated(2) r0 by metis
    have "continuing.keeps chain (put_rows rows (v chain)) cs"
      unfolding cs using allocated(8) [OF body(1,2) _ body(4)] r0 by simp
    then have "store_ok chain cs" by (rule continuing.keepsD)
    moreover have "er_swap_uses r = []" "er_origin r = Reserved" using new(1) by (simp_all add: new_record_ok_def)
    ultimately have "reserve env' chain operation delegate purpose' assets' cs = (Inr r, cs)"
      if "se_locked env'" "se_wallet env'"
      using that found delegate
      by (simp add: reserve_def reserve_with_swap_approval_def reserve_record_def guarded_def record_of_ok
        destination_operation_def swap_destination_def without_outcome_def)
    moreover have "ordinary_index (er_index r) = Inr (er_index r)" using new(1) by (simp add: new_record_ok_def)
    ultimately show ?thesis
      using found delegate new(1) body(4) new(2) ordinary_index_bounds(2,3)
      by (auto simp: new_record_ok_def free_index_def)
  qed
qed

section \<open>Issuing a payload\<close>

lemma added_payload:
  assumes "add_payload p r = Inr r1"
  shows "\<exists>q \<in> set (er_issued r1). ip_hash q = ip_hash p \<and> same_payload q p"
    "ip_hash p \<in> ip_hash ` set (er_issued r) \<Longrightarrow> ip_hash p \<notin> set (er_released_payloads r1)"
proof -
  have "(\<exists>q \<in> set (er_issued r1). ip_hash q = ip_hash p \<and> same_payload q p)
    \<and> (ip_hash p \<in> ip_hash ` set (er_issued r) \<longrightarrow> ip_hash p \<notin> set (er_released_payloads r1))"
  proof (cases "find (\<lambda>q. ip_hash q = ip_hash p) (er_issued r)")
    case None
    have "er_issued r1 = er_issued r @ [p]" using assms None by (auto simp: add_payload_def)
    moreover have "same_payload p p" by (simp add: same_payload_def)
    ultimately show ?thesis using None find_None_hash by force
  next
    case (Some q)
    have "same_payload q p" using assms Some by (auto simp: add_payload_def split: if_splits)
    moreover have "r1 = withdraw_release (ip_hash p) r"
      using assms Some by (simp add: add_payload_def withdraw_release_def split: if_splits)
    ultimately show ?thesis using find_hash [OF Some] by (auto simp: withdraw_release_def)
  qed
  then show "\<exists>q \<in> set (er_issued r1). ip_hash q = ip_hash p \<and> same_payload q p"
    "ip_hash p \<in> ip_hash ` set (er_issued r) \<Longrightarrow> ip_hash p \<notin> set (er_released_payloads r1)" by simp_all
qed

text \<open>
  C17: What a payload that is recorded was checked for. If a call to record a payload succeeds, the account is
  bound and the payload is for its delegate, its nonce is the one that the account's latest read observed,
  no other operation of the chain reserves an input of it, and an operation's payload comes only after
  every payload with a lower nonce is resolved. Afterwards the account holds the payload, a release of it
  before is withdrawn, and the rest of the chain's accounts are unchanged.
\<close>

theorem recorded_payload_checked:
  assumes "executor_reach v" "account (v chain) operation = Some r"
    and "record_issued env v operation p (v chain) = (Inr r', cs)"
  shows "er_address r \<noteq> None \<and> ip_delegate p = er_delegate r
    \<and> (\<exists>observed. er_nonce_observation r = Some observed \<and> no_nonce observed = ip_nonce p)
    \<and> (\<forall>key s. key \<noteq> operation \<longrightarrow> account (v chain) key = Some s \<longrightarrow>
        set (reserved_inputs s) \<inter> set (px_inputs (ip_context p)) = {})
    \<and> (ip_purpose p = OperationPayload \<longrightarrow> (\<forall>q \<in> set (er_issued r). ip_nonce q < ip_nonce p \<longrightarrow> nonce_resolved (ip_nonce q) r))
    \<and> account cs = (account (v chain))(operation \<mapsto> r')
    \<and> (\<exists>q \<in> set (er_issued r'). ip_hash q = ip_hash p \<and> same_payload q p)
    \<and> (ip_hash p \<in> ip_hash ` set (er_issued r) \<longrightarrow> ip_hash p \<notin> set (er_released_payloads r'))"
proof -
  have vault: "vault_ok v" by (rule executor_machine.reach_inv [OF assms(1)])
  note ok = vault_okD [OF vault, of chain]
  have body: "body_ok chain r" "er_operation r = operation" using vault_account [OF vault assms(2)] by simp_all
  obtain r1 where issued: "issue_payload v operation Unchecked p (v chain) r = Inr r1" and r': "r' = stored r1"
      "cs = put_row (OperationRow operation (stored r1)) (v chain)"
    using update_accepted [OF ok, of env operation "issue_payload v operation Unchecked p" r'] assms(2,3)
    by (auto simp: record_issued_def record_issued_for_def)
  have evolves: "continuing.evolves chain r r1"
    using issue_payload_fine [OF vault ok, of r operation Unchecked p] issued by (simp add: continuing.change_fine_def)
  then have stored: "body_ok chain (stored r1)" "er_operation (stored r1) = operation"
    using body by (auto simp: continuing_evolves continues_def)
  obtain rs where rs: "records (v chain) = Inr rs" by (rule records_ok [OF ok]) blast
  obtain use r2 where checks: "er_address r \<noteq> None" "ip_delegate p = er_delegate r"
      "\<not> reserved_elsewhere operation (px_inputs (ip_context p)) rs" "\<not> nonce_refused r p" "\<not> purpose_refused r p"
    and added: "add_payload p r = Inr r2" "r1 = record_shield use (ip_hash p) r2"
    using issued rs by (auto simp: issue_payload_def and_then_eq_Inr split: if_splits)
  have free: "set (reserved_inputs s) \<inter> set (px_inputs (ip_context p)) = {}"
    if "key \<noteq> operation" "account (v chain) key = Some s" for key s
  proof (intro equals0I, elim IntE)
    fix x assume "x \<in> set (reserved_inputs s)" "x \<in> set (px_inputs (ip_context p))"
    then show False using elsewhere_free [OF ok rs checks(3) that(2,1)] by simp
  qed
  have same: "er_issued r' = er_issued r2" "er_released_payloads r' = er_released_payloads r2"
    by (simp_all add: r'(1) added(2) record_shield_def stored_def split: option.split)
  have observed: "\<exists>observed. er_nonce_observation r = Some observed \<and> no_nonce observed = ip_nonce p"
    using checks(4) by (auto simp: nonce_refused_def)
  have resolved: "nonce_resolved (ip_nonce q) r"
    if "ip_purpose p = OperationPayload" "q \<in> set (er_issued r)" "ip_nonce q < ip_nonce p" for q
    using checks(4) that by (auto simp: nonce_refused_def list_ex_iff)
  have others: "account cs = (account (v chain))(operation \<mapsto> r')" using account_put [OF stored] stored_fixed [of chain "stored r1"] stored(1)
    by (simp add: r')
  show ?thesis
    unfolding same
    by (intro conjI allI impI ballI)
      (rule checks(1,2) observed free resolved others added_payload [OF added(1)]; assumption)+
qed

section \<open>Swap pairs\<close>

lemma claim_accounts_linked:
  assumes ok: "vault_ok v" and d: "pc_destination claim = Some d" and other: "dc_chain_id d \<noteq> chain"
    and fresh: "fresh_draws env v (claim_operations claim)"
    and source: "source = account (v chain) (choice_operation (pc_source claim))"
      "\<forall>r. source = Some r \<longrightarrow> swap_use (pc_id claim) r = None"
    and destination: "destination = account (v (dc_chain_id d)) (choice_operation (dc_account d))"
      "\<forall>r. destination = Some r \<longrightarrow> swap_use (pc_id claim) r = None"
    and run: "claim_accounts env chain claim source destination v = (Inr pair, v')"
  shows "\<exists>r s. account (v' chain) (choice_operation (pc_source claim)) = Some r
    \<and> account (v' (dc_chain_id d)) (choice_operation (dc_account d)) = Some s
    \<and> links_swap_destination (pc_id claim) (choice_operation (dc_account d)) r
    \<and> serves_swap_use (pc_id claim) chain (choice_operation (pc_source claim)) s"
proof -
  let ?operation = "choice_operation (pc_source claim)"
  let ?role = "Source (Some (pc_approval claim)) (Some (choice_operation (dc_account d)))"
  let ?role2 = "Destination chain ?operation (dc_destination_token d) [] None"
  have named: "?operation \<in> set (claim_operations claim)" "choice_operation (dc_account d) \<in> set (claim_operations claim)"
    using d by (simp_all add: claim_operations_def)
  have roles: "role_ok chain [] ?role" "role_ok (dc_chain_id d) [] ?role2"
    using other by (simp_all add: role_ok_def delivery_ok_def is_filled_def)
  obtain x v1 where run1: "claim_swap_account env chain ?operation source (pc_delegate claim) (pc_purpose_summary claim)
      (pc_assets claim) (pc_id claim) ?role v = (x, v1)" by fastforce
  obtain x2 v2 where run2: "claim_swap_account (later_draws env) (dc_chain_id d) (choice_operation (dc_account d))
      destination (dc_delegate d) (Some SWAP_DESTINATION_PURPOSE_SUMMARY) [Erc20 (dc_destination_token d)]
      (pc_id claim) ?role2 v = (x2, v2)" by fastforce
  note result = run [unfolded claim_accounts_def Let_def d option.map option.case run1]
  show ?thesis
    using ok source(1) fresh named(1) roles(1) source(2) run1
  proof (cases rule: continuing.claim_swap_account_cases)
    case (refused e)
    then show ?thesis using result by (simp add: bind_outcome_def)
  next
    case (claimed r rows)
    note result1 = result [unfolded claimed(1,2) bind_outcome_def prod.case sum.case run2]
    show ?thesis
      using ok destination(1) fresh_later [OF fresh] named(2) roles(2) destination(2) run2
    proof (cases rule: continuing.claim_swap_account_cases)
      case (refused e)
      then show ?thesis using result1 by simp
    next
      case second: (claimed s rows2)
      have v': "v' = put_batch (map (Pair chain) rows @ map (Pair (dc_chain_id d)) rows2) v"
        using result1 second(1,2) by (simp add: commit_def)
      have "v' chain = put_rows rows (v chain)" "v' (dc_chain_id d) = put_rows rows2 (v (dc_chain_id d))"
        using other unfolding v' put_batch_simps by (simp_all add: put_batch_chain)
      moreover have "\<exists>u. active_use r = Some u \<and> su_id u = pc_id claim \<and> su_role u = ?role"
        using claimed(5) by (cases "active_use r") simp_all
      then obtain u where u: "active_use r = Some u" "su_id u = pc_id claim" "su_role u = ?role" by blast
      moreover have "\<exists>w. active_use s = Some w \<and> su_id w = pc_id claim \<and> su_role w = ?role2"
        using second(5) by (cases "active_use s") simp_all
      then obtain w where w: "active_use s = Some w" "su_id w = pc_id claim" "su_role w = ?role2" by blast
      moreover have "swap_use (pc_id claim) (stored r) = Some u" "swap_use (pc_id claim) (stored s) = Some w"
        using active_use_found [OF u(1)] active_use_found [OF w(1)] u(2) w(2) by (simp_all add: swap_use_def)
      ultimately show ?thesis using claimed(4) second(4) by (auto simp: links_swap_destination_def serves_swap_use_def)
    qed
  qed
qed

text \<open>
  C16: A claim of a pair of accounts links them both. If a claim with a destination account succeeds, then
  the source account's record on the swap's chain names the destination account, and the destination
  account's record on its own, different chain names the swap that it serves, under the same use
  identifier. Where either account already has a use of this identifier, the claim only confirms that this
  is so: it answers with the two records as they are and changes no chain's store.
\<close>

theorem claim_links_both_accounts:
  assumes "executor_reach v" "fresh_draws env v (claim_operations claim)" "pc_destination claim = Some d"
    and "claim_swap_pair env chain claim v = (Inr pair, v')"
  shows "\<exists>r s. account (v' chain) (choice_operation (pc_source claim)) = Some r
    \<and> account (v' (dc_chain_id d)) (choice_operation (dc_account d)) = Some s
    \<and> links_swap_destination (pc_id claim) (choice_operation (dc_account d)) r
    \<and> serves_swap_use (pc_id claim) chain (choice_operation (pc_source claim)) s
    \<and> dc_chain_id d \<noteq> chain
    \<and> ((\<exists>r0 u. account (v chain) (choice_operation (pc_source claim)) = Some r0 \<and> swap_use (pc_id claim) r0 = Some u)
        \<or> (\<exists>s0 u. account (v (dc_chain_id d)) (choice_operation (dc_account d)) = Some s0
              \<and> swap_use (pc_id claim) s0 = Some u)
      \<longrightarrow> v' = v \<and> pair = \<lparr>cp_source = r, cp_destination = Some s\<rparr>)"
proof -
  have ok: "vault_ok v" by (rule executor_machine.reach_inv [OF assms(1)])
  let ?source = "account (v chain) (choice_operation (pc_source claim))"
  let ?destination = "account (v (dc_chain_id d)) (choice_operation (dc_account d))"
  have other: "dc_chain_id d \<noteq> chain" using assms(3,4) by (auto simp: claim_swap_pair_def split: if_splits)
  have run: "claim_found env chain claim ?source ?destination v = (Inr pair, v')"
    using assms(3,4) other by (auto simp: claim_swap_pair_def guarded_def vault_record_of [OF ok] split: if_splits)
  show ?thesis
  proof (cases "Option.bind ?source (swap_use (pc_id claim)) = None \<and> Option.bind ?destination (swap_use (pc_id claim)) = None")
    case True
    then have "claim_accounts env chain claim ?source ?destination v = (Inr pair, v')"
      using run by (auto simp: claim_found_def Let_def simp del: Option.bind_eq_None_conv split: if_splits sum.splits)
    moreover have "\<forall>r. ?source = Some r \<longrightarrow> swap_use (pc_id claim) r = None"
      "\<forall>r. ?destination = Some r \<longrightarrow> swap_use (pc_id claim) r = None" using True by auto
    ultimately show ?thesis using claim_accounts_linked [OF ok assms(3) other assms(2) refl _ refl] other by fastforce
  next
    case False
    then obtain r where r: "?source = Some r" "v' = v" "pair = \<lparr>cp_source = r, cp_destination = ?destination\<rparr>"
      "source_bound (Some (choice_operation (dc_account d))) (Option.bind ?source (swap_use (pc_id claim)))"
      "destination_bound chain (choice_operation (pc_source claim)) (Some d) (Option.bind ?destination (swap_use (pc_id claim)))"
      using run assms(3) by (auto simp: claim_found_def Let_def simp del: Option.bind_eq_None_conv split: if_splits option.splits)
    then show ?thesis using other
      by (auto simp: source_bound_def destination_bound_def links_swap_destination_def serves_swap_use_def
        bind_eq_Some_conv split: option.splits swap_use_role.splits)
  qed
qed

section \<open>A small run\<close>

text \<open>
  An environment in which every call is allowed, and an account just reserved. An order's identifier is
  the digest, the owner's 20 bytes and the 4 bytes of its validity.
\<close>

definition open_env :: store_env where
  "open_env = \<lparr>se_locked = True, se_wallet = True, se_now = Some 5, se_random = (\<lambda>_. None),
    se_delegates = (\<lambda>_. None), se_uid_owner = (\<lambda>uid. ucast (drop_bit 32 uid)),
    se_uid_valid_to = (\<lambda>uid. ucast uid), se_chains = [1, 2]\<rparr>"

definition fresh_account :: "operation_id \<Rightarrow> u32 \<Rightarrow> address \<Rightarrow> executor_record" where
  "fresh_account operation index delegate =
    (blank_record operation index None delegate)\<lparr>er_origin := Reserved, er_retired := False, er_created_at := Some 5\<rparr>"

lemma open_env_simps [simp]:
  "se_locked open_env" "se_wallet open_env" "se_now open_env = Some 5" "se_random open_env n = None"
  by (simp_all add: open_env_def)

lemma open_env_fresh [simp]: "fresh_draws open_env v operations"
  by (simp add: fresh_draws_def)

lemma fresh_account_body [simp]: "index < INDEX_LIMIT \<Longrightarrow> body_ok chain (fresh_account operation index delegate)"
  "er_operation (fresh_account operation index delegate) = operation" "er_index (fresh_account operation index delegate) = index"
  by (simp_all add: fresh_account_def body_ok_def blank_record_def swap_identified_def)

lemma reserve_accepts:
  assumes "store_ok chain cs" "account cs operation = None" "al_spare (current_allocation cs) = None"
    "ordinary_index (al_next_index (current_allocation cs)) = Inr index"
  shows "reserve open_env chain' operation delegate None [] cs =
    (Inr (fresh_account operation index delegate),
     put_rows [AllocationRow (current_allocation cs\<lparr>al_next_index := index + 1\<rparr>),
       OperationRow operation (fresh_account operation index delegate)] cs)"
  using assms(2-4)
  by (simp add: reserve_def reserve_with_swap_approval_def reserve_record_def guarded_def record_of_ok [OF assms(1)]
    allocate_record_def load_allocation_ok [OF assms(1)] bind_outcome_def displace_spare_def first_use_of_def Let_def
    fresh_account_def blank_record_def format_version_def LEGACY_VERSION_def)

text \<open>Two accounts, the first of them bound and its nonce read.\<close>

definition first_read :: nonce_observation where
  "first_read = \<lparr>no_block = \<lparr>bn_number = 7, bn_hash = 8\<rparr>, no_nonce = 0\<rparr>"

definition first_payload :: issued_payload where
  "first_payload = \<lparr>ip_nonce = 0, ip_delegate = 11, ip_hash = 21, ip_purpose = OperationPayload, ip_transaction_hashes = [],
    ip_context = \<lparr>px_calldata = [1], px_observed = first_read,
      px_inputs = [\<lparr>ei_tree = 0, ei_position = 3, ei_commitment = 4\<rparr>]\<rparr>, ip_inclusion = None\<rparr>"

definition first_calls :: "executor_call list" where
  "first_calls = [Reserve 1 11 None [], Reserve 2 11 None [], BindAddress 1 12, RecordAccountRead 1 first_read,
    RecordIssued 1 first_payload]"

fun run_calls :: "executor_call list \<Rightarrow> vault \<Rightarrow> vault" where
  "run_calls [] v = v"
| "run_calls (call # calls) v = run_calls calls (snd (run_call open_env 1 call v))"

lemma run_calls_trace: "trace executor_step v (map (\<lambda>call. (open_env, 1, call)) calls) (run_calls calls v)"
  by (induction calls arbitrary: v) (auto intro!: trace.intros executor_call)

lemma run_calls_reach: "executor_reach v \<Longrightarrow> executor_reach (run_calls calls v)"
  by (rule reach_trace [OF run_calls_trace])

lemma reach_empty: "executor_reach empty_vault"
  by (rule reach_start) (rule refl)

definition first_vault :: "nat \<Rightarrow> vault" where
  "first_vault n = run_calls (take n first_calls) empty_vault"

lemma first_reach: "executor_reach (first_vault n)"
  unfolding first_vault_def by (rule run_calls_reach [OF reach_empty])

lemmas first_ok = vault_okD [OF executor_machine.reach_inv [OF first_reach], of 1]

lemma first_vault_steps:
  "first_vault 1 = snd (run_call open_env 1 (Reserve 1 11 None []) (first_vault 0))"
  "first_vault 2 = snd (run_call open_env 1 (Reserve 2 11 None []) (first_vault 1))"
  "first_vault 3 = snd (run_call open_env 1 (BindAddress 1 12) (first_vault 2))"
  "first_vault 4 = snd (run_call open_env 1 (RecordAccountRead 1 first_read) (first_vault 3))"
  "first_vault 5 = snd (run_call open_env 1 (RecordIssued 1 first_payload) (first_vault 4))"
  by (simp_all add: first_vault_def first_calls_def)

lemma reserve_step:
  assumes "store_ok 1 (v 1)" "account (v 1) operation = None" "al_spare (current_allocation (v 1)) = None"
    "ordinary_index (al_next_index (current_allocation (v 1))) = Inr index"
  shows "snd (run_call open_env 1 (Reserve operation delegate None []) v) 1 =
    put_row (OperationRow operation (fresh_account operation index delegate))
      (put_row (AllocationRow (current_allocation (v 1)\<lparr>al_next_index := index + 1\<rparr>)) (v 1))"
  by (simp add: plain_def on_chain_def reserve_accepts [OF assms])

lemma update_step:
  assumes "store_ok 1 (v 1)" "account (v 1) operation = Some r" "change (v 1) r = Inr r1"
  shows "snd (plain (on_chain 1 (update_record open_env operation change) v)) 1 = put_row (OperationRow operation (stored r1)) (v 1)"
  by (simp add: plain_def on_chain_def update_accepts [of 1 "v 1" operation r change, OF assms])

lemma fresh_account_stored [simp]: "index < INDEX_LIMIT \<Longrightarrow> stored (fresh_account operation index delegate) = fresh_account operation index delegate"
  by (simp add: stored_def fresh_account_def blank_record_def format_version_def)

lemma first_reserved:
  "account (first_vault 1 1) = [1 \<mapsto> fresh_account 1 0 11]"
  "account (first_vault 2 1) = [1 \<mapsto> fresh_account 1 0 11, 2 \<mapsto> fresh_account 2 1 11]"
  "reserve open_env 1 2 11 None [] (first_vault 1 1) = (Inr (fresh_account 2 1 11), first_vault 2 1)"
proof -
  have empty: "account (first_vault 0 1) = Map.empty" "al_spare (current_allocation (first_vault 0 1)) = None"
    "ordinary_index (al_next_index (current_allocation (first_vault 0 1))) = Inr 0"
    by (simp_all add: first_vault_def empty_vault_def account_def current_allocation_def default_allocation_def
      ordinary_index_def POSITION_START_def INDEX_LIMIT_def fun_eq_iff)
  have one: "first_vault 1 1 = put_row (OperationRow 1 (fresh_account 1 0 11))
      (put_row (AllocationRow (current_allocation (first_vault 0 1)\<lparr>al_next_index := 1\<rparr>)) (first_vault 0 1))"
    using reserve_step [of "first_vault 0", OF first_ok _ empty(2,3), of 1] empty(1)
    unfolding first_vault_steps(1) by simp
  have limit: "(0 :: u32) < INDEX_LIMIT" "(1 :: u32) < INDEX_LIMIT" by (simp_all add: INDEX_LIMIT_def)
  show acc: "account (first_vault 1 1) = [1 \<mapsto> fresh_account 1 0 11]" unfolding one using empty(1) limit by (simp add: account_put)
  have alloc: "al_next_index (current_allocation (first_vault 1 1)) = 1" "al_spare (current_allocation (first_vault 1 1)) = None"
    unfolding one using empty(2) by simp_all
  have ordinary: "ordinary_index (al_next_index (current_allocation (first_vault 1 1))) = Inr 1"
    unfolding alloc by (simp add: ordinary_index_def POSITION_START_def INDEX_LIMIT_def Let_def word_le_nat_alt)
  have two: "first_vault 2 1 = put_row (OperationRow 2 (fresh_account 2 1 11))
      (put_row (AllocationRow (current_allocation (first_vault 1 1)\<lparr>al_next_index := 2\<rparr>)) (first_vault 1 1))"
    using reserve_step [of "first_vault 1", OF first_ok _ alloc(2) ordinary, of 2] acc
    unfolding first_vault_steps(2) by simp
  then show "account (first_vault 2 1) = [1 \<mapsto> fresh_account 1 0 11, 2 \<mapsto> fresh_account 2 1 11]"
    using acc limit by (simp add: account_put)
  have new: "account (first_vault 1 1) 2 = None" unfolding acc by simp
  show "reserve open_env 1 2 11 None [] (first_vault 1 1) = (Inr (fresh_account 2 1 11), first_vault 2 1)"
    unfolding two using reserve_accepts [OF first_ok new alloc(2) ordinary] by simp
qed

definition bound_account :: executor_record where
  "bound_account = (fresh_account 1 0 11)\<lparr>er_address := Some 12\<rparr>"

definition read_account :: executor_record where
  "read_account = bound_account\<lparr>er_nonce_observation := Some first_read, er_nonce_watermark := Some (watermark_of first_read)\<rparr>"

definition issued_account :: executor_record where
  "issued_account = read_account\<lparr>er_issued := [first_payload]\<rparr>"

lemma first_accounts:
  "account (first_vault 3 1) = [1 \<mapsto> bound_account, 2 \<mapsto> fresh_account 2 1 11]"
  "account (first_vault 4 1) = [1 \<mapsto> read_account, 2 \<mapsto> fresh_account 2 1 11]"
  "account (first_vault 5 1) = [1 \<mapsto> issued_account, 2 \<mapsto> fresh_account 2 1 11]"
  "record_issued open_env (first_vault 4) 1 first_payload (first_vault 4 1) = (Inr issued_account, first_vault 5 1)"
proof -
  have limit: "(0 :: u32) < INDEX_LIMIT" by (simp add: INDEX_LIMIT_def)
  have bodies: "body_ok 1 bound_account" "body_ok 1 read_account" "body_ok 1 issued_account"
    using limit
    by (simp_all add: issued_account_def read_account_def bound_account_def body_ok_def fresh_account_def blank_record_def
      swap_identified_def swap_ok_def first_payload_def)
  have stored: "stored bound_account = bound_account" "stored read_account = read_account" "stored issued_account = issued_account"
    by (simp_all add: stored_def issued_account_def read_account_def bound_account_def fresh_account_def blank_record_def
      format_version_def)
  have operations: "er_operation bound_account = 1" "er_operation read_account = 1" "er_operation issued_account = 1"
    by (simp_all add: issued_account_def read_account_def bound_account_def fresh_account_def blank_record_def)
  have unbound: "er_address (fresh_account 1 0 11) = None" by (simp add: fresh_account_def blank_record_def)
  have "first_vault 3 1 = put_row (OperationRow 1 (stored bound_account)) (first_vault 2 1)"
    unfolding first_vault_steps(3) run_call.simps bind_address_def bound_account_def
    by (rule update_step [where r = "fresh_account 1 0 11"]) (simp_all add: first_ok first_reserved unbound)
  then show three: "account (first_vault 3 1) = [1 \<mapsto> bound_account, 2 \<mapsto> fresh_account 2 1 11]"
    using bodies operations stored by (auto simp: account_put first_reserved)
  have "apply_account_read first_read bound_account = read_account"
    by (simp add: apply_account_read_def recorded_block_def watermark_def set_nonce_watermark_def
      read_account_def bound_account_def fresh_account_def blank_record_def)
  then have "first_vault 4 1 = put_row (OperationRow 1 (stored read_account)) (first_vault 3 1)"
    unfolding first_vault_steps(4) run_call.simps record_account_read_def
    using three by (intro update_step [where r = bound_account]) (simp_all add: first_ok)
  then show four: "account (first_vault 4 1) = [1 \<mapsto> read_account, 2 \<mapsto> fresh_account 2 1 11]"
    using bodies operations stored three by (auto simp: account_put)
  obtain rs where rs: "records (first_vault 4 1) = Inr rs" "\<And>r. r \<in> set rs \<longleftrightarrow> account (first_vault 4 1) (er_operation r) = Some r"
    by (rule records_ok [OF first_ok]) blast
  have "r = read_account \<or> r = fresh_account 2 1 11" if "r \<in> set rs" for r
    using that by (auto simp: rs(2) four split: if_splits)
  moreover have "reserved_inputs (fresh_account 2 1 11) = []"
    by (simp add: reserved_inputs_def reserving_payloads_def reserving_payloads_before_release_def fresh_account_def blank_record_def)
  ultimately have "\<not> reserved_elsewhere 1 inputs rs" for inputs
    using operations(2) by (fastforce simp: reserved_elsewhere_def list_ex_iff shares_input_def)
  then have "issue_payload (first_vault 4) 1 Unchecked first_payload (first_vault 4 1) read_account = Inr issued_account"
    by (simp add: issue_payload_def rs(1) purpose_refused_def setup_closed_def active_use_def nonce_refused_def add_payload_def
      record_shield_def shares_input_def swap_reserved_inputs_def
      issued_account_def read_account_def bound_account_def fresh_account_def blank_record_def first_payload_def first_read_def)
  then have issued: "record_issued open_env (first_vault 4) 1 first_payload (first_vault 4 1)
      = (Inr issued_account, put_row (OperationRow 1 issued_account) (first_vault 4 1))"
    using update_accepts [of 1 "first_vault 4 1" 1 read_account "issue_payload (first_vault 4) 1 Unchecked first_payload" issued_account open_env,
      OF first_ok] four stored(3)
    by (simp add: record_issued_def record_issued_for_def)
  have five: "first_vault 5 1 = put_row (OperationRow 1 issued_account) (first_vault 4 1)"
    unfolding first_vault_steps(5) using issued by (simp add: plain_def on_chain_def)
  then show "account (first_vault 5 1) = [1 \<mapsto> issued_account, 2 \<mapsto> fresh_account 2 1 11]"
    using bodies operations stored four by (auto simp: account_put)
  show "record_issued open_env (first_vault 4) 1 first_payload (first_vault 4 1) = (Inr issued_account, first_vault 5 1)"
    using issued five by simp
qed

lemma first_orderly: "reach (\<lambda>v. v = empty_vault) orderly_step (first_vault 5)"
proof -
  have step: "orderly_step v (open_env, 1, call) (snd (run_call open_env 1 call v))" if "orderly v 1 call" for v call
    using that by (intro orderly_call executor_call) simp_all
  have zero: "reach (\<lambda>v. v = empty_vault) orderly_step (first_vault 0)"
    by (rule reach_start) (simp add: first_vault_def)
  have one: "reach (\<lambda>v. v = empty_vault) orderly_step (first_vault 1)"
    unfolding first_vault_steps(1) by (rule reach_step [OF zero], rule step) simp
  have two: "reach (\<lambda>v. v = empty_vault) orderly_step (first_vault 2)"
    unfolding first_vault_steps(2) by (rule reach_step [OF one], rule step) simp
  have three: "reach (\<lambda>v. v = empty_vault) orderly_step (first_vault 3)"
    unfolding first_vault_steps(3) by (rule reach_step [OF two], rule step) simp
  have unread: "watermark bound_account = None"
    by (simp add: watermark_def bound_account_def fresh_account_def blank_record_def)
  have four: "reach (\<lambda>v. v = empty_vault) orderly_step (first_vault 4)"
    unfolding first_vault_steps(4) by (rule reach_step [OF three], rule step) (simp add: first_accounts(1) read_in_order_def unread)
  show ?thesis unfolding first_vault_steps(5) by (rule reach_step [OF four], rule step) simp
qed

lemma issued_account_reserves: "reserved_inputs issued_account = [\<lparr>ei_tree = 0, ei_position = 3, ei_commitment = 4\<rparr>]"
  by (simp add: reserved_inputs_def reserving_payloads_def reserving_payloads_before_release_def nonce_resolved_def
    watermark_def watermark_of_def add_once_def issued_account_def read_account_def bound_account_def fresh_account_def blank_record_def
    first_payload_def first_read_def)

text \<open>Here the first account reserves an input, so the second does not.\<close>

theorem inputs_reserved_once_witness:
  "reserved_inputs issued_account = [\<lparr>ei_tree = 0, ei_position = 3, ei_commitment = 4\<rparr>]
    \<and> account (first_vault 5 1) 1 = Some issued_account \<and> account (first_vault 5 1) 2 = Some (fresh_account 2 1 11)
    \<and> set (live_inputs issued_account) \<inter> set (live_inputs (fresh_account 2 1 11)) = {}"
proof -
  have found: "account (first_vault 5 1) 1 = Some issued_account" "account (first_vault 5 1) 2 = Some (fresh_account 2 1 11)"
    by (simp_all add: first_accounts)
  show ?thesis using inputs_reserved_once [OF first_orderly found] found issued_account_reserves by simp
qed

theorem executor_store_well_typed_witness:
  "\<exists>w r. map_of (cs_operations (first_vault 5 1)) 1 = Some w \<and> open_row 1 w = Inr r \<and> record_ok 1 r
    \<and> er_issued r = [first_payload]"
proof -
  have "account (first_vault 5 1) 1 = Some issued_account" by (simp add: first_accounts)
  then obtain w where w: "map_of (cs_operations (first_vault 5 1)) 1 = Some w" "open_row 1 w = Inr issued_account"
    by (auto simp: account_def split: option.splits sum.splits)
  then have "record_ok 1 issued_account" using executor_store_well_typed [OF first_reach [of 5]] by (metis sum.inject(2))
  then show ?thesis using w by (auto simp: issued_account_def)
qed

text \<open>The first account is bound to another address.\<close>

theorem refused_call_writes_nothing_witness:
  "fst (run_call open_env 1 (BindAddress 1 13) (first_vault 5)) = Inl OperationMismatch
    \<and> snd (run_call open_env 1 (BindAddress 1 13) (first_vault 5)) = first_vault 5"
proof -
  have "fst (run_call open_env 1 (BindAddress 1 13) (first_vault 5)) = Inl OperationMismatch"
    by (simp add: bind_address_def update_record_def guarded_def plain_def on_chain_def record_of_ok [OF first_ok] first_accounts
      issued_account_def read_account_def bound_account_def)
  then show ?thesis using refused_call_writes_nothing [OF first_reach open_env_fresh] by blast
qed

theorem account_goes_on_witness:
  "account (first_vault 2 1) 1 = Some (fresh_account 1 0 11)
    \<and> (\<exists>s. account (first_vault 5 1) 1 = Some s \<and> continues (fresh_account 1 0 11) s \<and> er_issued s = [first_payload])"
proof -
  have "run_calls (drop 2 first_calls) (first_vault 2) = first_vault 5"
    by (simp add: first_vault_def first_calls_def)
  then have "trace executor_step (first_vault 2) (map (\<lambda>call. (open_env, 1, call)) (drop 2 first_calls)) (first_vault 5)"
    using run_calls_trace by metis
  moreover have found: "account (first_vault 2 1) 1 = Some (fresh_account 1 0 11)" by (simp add: first_reserved)
  ultimately obtain s where "account (first_vault 5 1) 1 = Some s" "continues (fresh_account 1 0 11) s"
    using account_goes_on [OF first_reach] by blast
  then show ?thesis using found by (auto simp: first_accounts issued_account_def)
qed

theorem recorded_payload_checked_witness:
  "record_issued open_env (first_vault 4) 1 first_payload (first_vault 4 1) = (Inr issued_account, first_vault 5 1)
    \<and> er_address read_account = Some 12 \<and> account (first_vault 5 1) 1 = Some issued_account"
proof -
  have found: "account (first_vault 4 1) 1 = Some read_account" by (simp add: first_accounts)
  have "er_address read_account \<noteq> None \<and> account (first_vault 5 1) = (account (first_vault 4 1))(1 \<mapsto> issued_account)"
    using recorded_payload_checked [OF first_reach found first_accounts(4)] by blast
  then show ?thesis using first_accounts(4) by (simp add: read_account_def bound_account_def)
qed

theorem reservation_gives_own_account_witness:
  "reserve open_env 1 2 11 None [] (first_vault 1 1) = (Inr (fresh_account 2 1 11), first_vault 2 1)
    \<and> account (first_vault 2 1) 2 = Some (fresh_account 2 1 11)
    \<and> reserve open_env 1 2 11 (Some ''again'') [] (first_vault 2 1) = (Inr (fresh_account 2 1 11), first_vault 2 1)"
proof -
  have new: "account (first_vault 1 1) 2 = None" unfolding first_reserved(1) by simp
  have run: "reserve open_env 1 2 11 None [] (first_vault 1 1) = (Inr (fresh_account 2 1 11), first_vault 2 1)"
    by (rule first_reserved)
  show ?thesis
    using run reservation_gives_own_account [OF first_reach open_env_fresh new run, of open_env "Some ''again''" "[]"] by simp
qed

text \<open>A claim of two new accounts.\<close>

definition plain_bounds :: swap_approved_bounds where
  "plain_bounds = \<lparr>bo_sell_amount = 100, bo_unshield_amount = None, bo_unshield_fee_bps = 0, bo_buy_amount = 50,
    bo_private_minimum = 40, bo_shield_fee_bps = 0, bo_slippage_bps = 0, bo_pre_hook_gas_limit = 0,
    bo_post_hook_gas_limit = None, bo_hook_cost = None, bo_anchors = [], bo_destination_minimum = None,
    bo_gas_share_bps = None, bo_gas_estimate = None, bo_gas_allowance = None, bo_gas_price_wei = None,
    bo_valid_for_secs = None, bo_destination_shield_fee_bps = None, bo_delivery_allowance = None,
    bo_destination_setup_fee = None, bo_source_setup_fee = None\<rparr>"

definition plain_approval :: swap_approval where
  "plain_approval = \<lparr>sa_bounds = plain_bounds, sa_price_verified = None, sa_price_acknowledged = False,
    sa_delivery = Reshield, sa_tokens = None, sa_accounts = None\<rparr>"

definition first_claim :: swap_pair_claim where
  "first_claim = \<lparr>pc_id = 9, pc_source = NewAccount 1, pc_delegate = 11, pc_purpose_summary = None, pc_assets = [],
    pc_approval = plain_approval,
    pc_destination = Some \<lparr>dc_chain_id = 2, dc_account = NewAccount 2, dc_delegate = 11, dc_destination_token = 33\<rparr>\<rparr>"

theorem claim_links_both_accounts_witness:
  "\<exists>pair v'. claim_swap_pair open_env 1 first_claim empty_vault = (Inr pair, v')
    \<and> (\<exists>r s. account (v' 1) 1 = Some r \<and> account (v' 2) 2 = Some s
        \<and> links_swap_destination 9 2 r \<and> serves_swap_use 9 1 1 s)"
proof -
  have empty: "store_ok chain (empty_vault chain)" "account (empty_vault chain) key = None"
    "current_allocation (empty_vault chain) = \<lparr>al_version = ALLOCATION_VERSION, al_next_index = 0, al_spare = None\<rparr>" for chain key
    using vault_okD [OF empty_vault_ok] by (simp_all add: empty_vault_def account_def current_allocation_def default_allocation_def)
  have ordinary: "ordinary_index 0 = Inr 0" by (simp add: ordinary_index_def POSITION_START_def INDEX_LIMIT_def)
  have "\<exists>pair v'. claim_swap_pair open_env 1 first_claim empty_vault = (Inr pair, v')"
    by (simp add: claim_swap_pair_def first_claim_def plain_approval_def guarded_def record_of_ok [OF empty(1)] empty(2) claim_found_def
      approved_accounts_def claim_admitted_def admit_swap_account_def claim_accounts_def claim_swap_account_def on_chain_def
      allocate_record_def load_allocation_ok [OF empty(1)] empty(3) ordinary displace_spare_def bind_outcome_def commit_def Let_def)
  then obtain pair v' where run: "claim_swap_pair open_env 1 first_claim empty_vault = (Inr pair, v')" by blast
  have "\<exists>d. pc_destination first_claim = Some d \<and> dc_chain_id d = 2 \<and> choice_operation (dc_account d) = 2"
    "choice_operation (pc_source first_claim) = 1" "pc_id first_claim = 9"
    by (simp_all add: first_claim_def)
  then show ?thesis
    using claim_links_both_accounts [OF reach_empty open_env_fresh _ run] run by auto
qed

text \<open>A version-1 row with a swap's approval: it becomes the account's one use.\<close>

definition legacy_row :: executor_record_wire where
  "legacy_row = (wire_of_record (fresh_account 7 0 11))\<lparr>ew_swap_approval :=
    Some plain_approval\<rparr>"

theorem executor_wire_round_trip_witness:
  "\<exists>r. record_from_wire legacy_row = Inr r \<and> map su_id (er_swap_uses r) = [7] \<and> er_active_swap_use r = Some 7
    \<and> record_from_wire (wire_of_record r) = Inr r"
proof -
  have version: "ew_version legacy_row = LEGACY_VERSION"
    by (simp add: legacy_row_def fresh_account_def blank_record_def format_version_def)
  have "ew_swap_uses (wire_of_record (fresh_account 7 0 11)) = []" "ew_swap (wire_of_record (fresh_account 7 0 11)) = None"
    "ew_active_swap_use (wire_of_record (fresh_account 7 0 11)) = None" "ew_operation (wire_of_record (fresh_account 7 0 11)) = 7"
    by (simp_all add: fresh_account_def blank_record_def wire_of_record_def)
  then have fields: "ew_swap_uses legacy_row = []" "ew_swap legacy_row = None" "ew_active_swap_use legacy_row = None"
    "ew_operation legacy_row = 7" "ew_swap_approval legacy_row \<noteq> None"
    by (simp_all add: legacy_row_def)
  have "\<exists>r. record_from_wire legacy_row = Inr r \<and> map su_id (er_swap_uses r) = [7] \<and> er_active_swap_use r = Some 7"
    using fields by (simp add: record_from_wire_def Let_def version legacy_links_def)
  then obtain r where r: "record_from_wire legacy_row = Inr r \<and> map su_id (er_swap_uses r) = [7] \<and> er_active_swap_use r = Some 7" ..
  then have "record_from_wire (wire_of_record r) = Inr r"
    using executor_wire_round_trip [of r legacy_row] version by simp
  then show ?thesis using r by (intro exI [of _ r]) simp
qed

text \<open>
  A reservation of an operation that has an account moves the account to the delegate that is asked for,
  when both delegates are listed with one capability.
\<close>

lemma existing_reservation_retargets:
  "reserve (open_env\<lparr>se_delegates := (\<lambda>_. Some [(11, 0), (22, 0)])\<rparr>) 1 1 22 None [] (first_vault 2 1) =
    (Inr ((fresh_account 1 0 11)\<lparr>er_delegate := 22\<rparr>),
     put_row (OperationRow 1 ((fresh_account 1 0 11)\<lparr>er_delegate := 22\<rparr>)) (first_vault 2 1))"
proof -
  have found: "record_of 1 (first_vault 2 1) = Inr (Some (fresh_account 1 0 11))"
    by (simp add: record_of_ok [OF first_ok] first_reserved)
  have fields: "er_origin (fresh_account 1 0 11) = Reserved" "er_swap_uses (fresh_account 1 0 11) = []"
    "er_delegate (fresh_account 1 0 11) = 11"
    by (simp_all add: fresh_account_def blank_record_def)
  show ?thesis
    by (simp add: reserve_def reserve_with_swap_approval_def reserve_record_def guarded_def found fields destination_operation_def
      swap_destination_def without_outcome_def retarget_def interchangeable_def accepted_def)
qed

end
