(* ===== verification/OrderProperties.thy ===== *)
theory OrderProperties
  imports ExecutorProperties
begin

text \<open>
  What the executor store promises of a swap's orders: they match the payloads the account issued and keep
  the terms of their use, a new attempt is admitted only when the earlier ones allow it, and what was
  recorded of an order is not replaced by later evidence. The last section is a run in which an account
  places an order, on which the properties are applied.
\<close>

section \<open>Orders and hooks\<close>

lemma reached_orders:
  assumes "executor_reach v" "account (v chain) key = Some r" "er_swap r = Some sw"
  shows "orders_ok (issued_hooks (er_issued r)) sw"
  using vault_account [OF executor_machine.reach_inv [OF assms(1)] assms(2)] assms(3) by (simp add: body_ok_def swap_ok_def)

lemma checked_succ: "checked_add a 1 = Some b \<Longrightarrow> unat b = unat a + 1" for a b :: u256
  by (simp add: checked_add_iff)

text \<open>
  C15: Orders match the hooks that were signed for them. In every reachable state, each order of an account's swap
  has a pre-hook among the payloads the account issued, and a post-hook exactly when its delivery has one,
  issued as well and signed for the next nonce; each hook the account issued is an order's. The orders are
  distinct, and numbered in the order they were placed.
\<close>

theorem orders_match_hooks:
  assumes "executor_reach v" "account (v chain) operation = Some r" "er_swap r = Some sw"
  shows "(\<forall>o1 \<in> set (sw_orders sw).
        (\<exists>p \<in> set (er_issued r). ip_purpose p = SwapPreHook \<and> hook_of p = so_pre_hook o1)
        \<and> (so_post_hook o1 \<noteq> None) = has_post_hook (so_delivery o1)
        \<and> (\<forall>hook. so_post_hook o1 = Some hook \<longrightarrow>
            (\<exists>p \<in> set (er_issued r). ip_purpose p = SwapPostHook \<and> hook_of p = hook)
            \<and> unat (sh_nonce hook) = unat (sh_nonce (so_pre_hook o1)) + 1))
    \<and> (\<forall>p \<in> set (er_issued r).
        (ip_purpose p = SwapPreHook \<longrightarrow> (\<exists>o1 \<in> set (sw_orders sw). so_pre_hook o1 = hook_of p))
        \<and> (ip_purpose p = SwapPostHook \<longrightarrow> (\<exists>o1 \<in> set (sw_orders sw). so_post_hook o1 = Some (hook_of p))))
    \<and> distinct (map so_uid (sw_orders sw)) \<and> map so_attempt (sw_orders sw) = map of_nat [0..<length (sw_orders sw)]"
proof -
  have ok: "orders_ok (issued_hooks (er_issued r)) sw" by (rule reached_orders [OF assms])
  have hook: "\<exists>p \<in> set (er_issued r). ip_purpose p = purpose \<and> hook_of p = hook"
    if "(purpose, hook) \<in> set (issued_hooks (er_issued r))" for purpose hook
    using that by (auto simp: issued_hooks_def)
  have orders: "order_ok (issued_hooks (er_issued r)) sw o1" if "o1 \<in> set (sw_orders sw)" for o1
    using that ok by (simp add: orders_ok_def list_all_iff)
  have "hook_of_order sw (ip_purpose p, hook_of p)" if "p \<in> set (er_issued r)" for p
    using that ok by (auto simp: orders_ok_def list_all_iff issued_hooks_def)
  then have "\<forall>p \<in> set (er_issued r).
        (ip_purpose p = SwapPreHook \<longrightarrow> (\<exists>o1 \<in> set (sw_orders sw). so_pre_hook o1 = hook_of p))
        \<and> (ip_purpose p = SwapPostHook \<longrightarrow> (\<exists>o1 \<in> set (sw_orders sw). so_post_hook o1 = Some (hook_of p)))"
    by (fastforce simp: hook_of_order_def)
  moreover have "(\<exists>p \<in> set (er_issued r). ip_purpose p = SwapPreHook \<and> hook_of p = so_pre_hook o1)
        \<and> (so_post_hook o1 \<noteq> None) = has_post_hook (so_delivery o1)"
    if "o1 \<in> set (sw_orders sw)" for o1
    using orders [OF that] hook by (auto simp: order_ok_def)
  moreover have "(\<exists>p \<in> set (er_issued r). ip_purpose p = SwapPostHook \<and> hook_of p = hook)
            \<and> unat (sh_nonce hook) = unat (sh_nonce (so_pre_hook o1)) + 1"
    if "o1 \<in> set (sw_orders sw)" "so_post_hook o1 = Some hook" for o1 hook
  proof -
    have "(SwapPostHook, hook) \<in> set (issued_hooks (er_issued r))"
      "checked_add (sh_nonce (so_pre_hook o1)) 1 = Some (sh_nonce hook)"
      using orders [OF that(1)] that(2) by (simp_all add: order_ok_def)
    then show ?thesis using assms(3) by (intro conjI hook checked_succ)
  qed
  ultimately show ?thesis using ok unfolding orders_ok_def by blast
qed

text \<open>
  The attempts of one use keep its terms. In every reachable state, an order that is not a private
  Bridge order sells and buys the same tokens by the same delivery as every earlier order of its use, and
  all orders of the account go to one recipient.
\<close>

theorem attempts_keep_terms:
  assumes "executor_reach v" "account (v chain) operation = Some r" "er_swap r = Some sw"
    and "i < j" "j < length (sw_orders sw)"
  shows "st_recipient (order_terms sw (sw_orders sw ! i)) = st_recipient (order_terms sw (sw_orders sw ! j))
    \<and> (so_use_id (sw_orders sw ! i) = so_use_id (sw_orders sw ! j) \<and> private_bridge (so_delivery (sw_orders sw ! j)) = None \<longrightarrow>
        so_delivery (sw_orders sw ! i) = so_delivery (sw_orders sw ! j)
        \<and> st_sell_token (order_terms sw (sw_orders sw ! i)) = st_sell_token (order_terms sw (sw_orders sw ! j))
        \<and> st_buy_token (order_terms sw (sw_orders sw ! i)) = st_buy_token (order_terms sw (sw_orders sw ! j)))"
proof -
  have ok: "orders_ok (issued_hooks (er_issued r)) sw" by (rule reached_orders [OF assms(1-3)])
  have "order_ok (issued_hooks (er_issued r)) sw (sw_orders sw ! k)" if "k < length (sw_orders sw)" for k
    using that ok by (simp add: orders_ok_def list_all_length)
  then have both: "order_ok (issued_hooks (er_issued r)) sw (sw_orders sw ! i)"
    "order_ok (issued_hooks (er_issued r)) sw (sw_orders sw ! j)" using assms(4,5) by simp_all
  have "keeps_use_terms (sw_orders sw ! i) (sw_orders sw ! j)"
    using ok assms(4,5) by (auto simp: orders_ok_def intro: sorted_wrt_nth_less)
  then show ?thesis using both by (auto simp: keeps_use_terms_def order_ok_def order_terms_def split: option.splits)
qed

section \<open>New attempts\<close>

lemma placed:
  assumes "executor_reach v" "account (v chain) operation = Some r"
    and "record_swap_attempt_at env v chain operation t included (v chain) = (Inr r', cs)"
  shows "attempt_change env v chain operation t included (v chain) r = Inr (place_order t r)"
    "r' = stored (place_order t r)" "account cs = (account (v chain))(operation \<mapsto> r')"
proof -
  have vault: "vault_ok v" by (rule executor_machine.reach_inv [OF assms(1)])
  note ok = vault_okD [OF vault, of chain]
  have body: "body_ok chain r" "er_operation r = operation" using vault_account [OF vault assms(2)] by simp_all
  obtain r1 where r1: "attempt_change env v chain operation t included (v chain) r = Inr r1" "r' = stored r1"
      "cs = put_row (OperationRow operation (stored r1)) (v chain)"
    using update_accepted [OF ok, of env operation "attempt_change env v chain operation t included" r'] assms(2,3)
    by (auto simp: record_swap_attempt_at_def)
  from r1(1) have placed: "r1 = place_order t r" by (rule attempt_accepted)
  then show "attempt_change env v chain operation t included (v chain) r = Inr (place_order t r)"
    "r' = stored (place_order t r)" using r1 by simp_all
  have "continuing.evolves chain r r1"
    using attempt_change_fine [OF vault ok, of r env operation t included] r1(1) by (simp add: continuing.change_fine_def)
  then have "body_ok chain (stored r1)" "er_operation (stored r1) = operation"
    using body by (auto simp: continuing_evolves continues_def)
  then show "account cs = (account (v chain))(operation \<mapsto> r')"
    using account_put [of chain "stored r1" operation "v chain"] r1(2,3) by (simp add: stored_def)
qed

text \<open>
  C14: What an attempt is admitted on. If an attempt is recorded, the account is claimed by the attempt's
  use, was bound to the order's owner and is not registered as a Public account; no other operation of the
  chain reserves an input of the proof, and no unresolved setup of the account spends one; the pre-hook was
  prepared on the read that the account has, block and nonce, and holds that read's nonce once its setup's
  nonce is resolved, or the nonce after it on an included setup. Afterwards the order stands last, pending and unobserved, with
  its hooks issued, and the chain's other accounts are unchanged.
\<close>

theorem attempt_checked:
  assumes "executor_reach v" "account (v chain) operation = Some r"
    and "record_swap_attempt_at env v chain operation t included (v chain) = (Inr r', cs)"
  shows "er_active_swap_use r = Some (tt_use_id t) \<and> er_address r = Some (se_uid_owner env (tt_uid t))
    \<and> er_public_account_uuid r = None
    \<and> (\<forall>key s. key \<noteq> operation \<longrightarrow> account (v chain) key = Some s \<longrightarrow>
        set (reserved_inputs s) \<inter> set (pf_inputs (tt_proof t)) = {})
    \<and> (\<forall>p \<in> set (er_issued r). ip_purpose p = OperationPayload \<longrightarrow> \<not> nonce_resolved (ip_nonce p) r \<longrightarrow>
        set (px_inputs (ip_context p)) \<inter> set (pf_inputs (tt_proof t)) = {})
    \<and> (\<exists>seen. er_nonce_observation r = Some seen \<and> px_observed (ip_context (tt_pre_hook t)) = seen
        \<and> unat (ip_nonce (tt_pre_hook t)) = unat (no_nonce seen) + (if included = None then 0 else 1))
    \<and> (included = None \<longrightarrow> (\<exists>p \<in> set (er_issued r).
        ip_hash p = st_setup_payload (tt_terms t) \<and> nonce_resolved (ip_nonce p) r))
    \<and> swap_orders_of r' = swap_orders_of r @ [attempt_order t (swap_orders_of r)]
    \<and> er_issued r' = er_issued r @ tt_pre_hook t # (case tt_post_hook t of None \<Rightarrow> [] | Some hook \<Rightarrow> [hook])
    \<and> account cs = (account (v chain))(operation \<mapsto> r')"
proof -
  note placed = placed [OF assms]
  note ok = vault_okD [OF executor_machine.reach_inv [OF assms(1)], of chain]
  obtain destination rs where checks: "attempt_use t included r = Inr destination" "\<not> attempt_misfits env t r"
    "records (v chain) = Inr rs" "\<not> reserved_elsewhere operation (pf_inputs (tt_proof t)) rs"
    "\<not> setup_spends t r" "\<not> attempt_nonce_refused t included r"
    using placed(1) by (rule attempt_accepted)
  have "er_active_swap_use r = Some (tt_use_id t)" using checks(1) by (auto simp: attempt_use_def split: if_splits)
  moreover have "er_address r = Some (se_uid_owner env (tt_uid t))" "er_public_account_uuid r = None"
    using checks(2) by (auto simp: attempt_misfits_def)
  moreover have "set (reserved_inputs s) \<inter> set (pf_inputs (tt_proof t)) = {}"
    if "key \<noteq> operation" "account (v chain) key = Some s" for key s
    using elsewhere_free [OF ok checks(3,4) that(2,1)] by blast
  moreover have "set (px_inputs (ip_context p)) \<inter> set (pf_inputs (tt_proof t)) = {}"
    if "p \<in> set (er_issued r)" "ip_purpose p = OperationPayload" "\<not> nonce_resolved (ip_nonce p) r" for p
    using that checks(5) by (auto simp: setup_spends_def shares_input_def list_ex_iff)
  moreover have "\<exists>seen. er_nonce_observation r = Some seen \<and> px_observed (ip_context (tt_pre_hook t)) = seen
        \<and> unat (ip_nonce (tt_pre_hook t)) = unat (no_nonce seen) + (if included = None then 0 else 1)"
    using checks(6) checked_succ by (auto simp: attempt_nonce_refused_def setup_admitted_def Let_def split: option.splits)
  moreover have "\<exists>p \<in> set (er_issued r). ip_hash p = st_setup_payload (tt_terms t) \<and> nonce_resolved (ip_nonce p) r"
    if "included = None"
    using that checks(6) by (auto simp: attempt_nonce_refused_def setup_admitted_def Let_def list_ex_iff)
  moreover have "swap_orders_of r' = swap_orders_of r @ [attempt_order t (swap_orders_of r)]"
    "er_issued r' = er_issued r @ tt_pre_hook t # (case tt_post_hook t of None \<Rightarrow> [] | Some hook \<Rightarrow> [hook])"
    using placed(2) by (simp_all add: stored_def place_order_def Let_def swap_orders_of_def split: option.split)
  ultimately show ?thesis using placed(3) by blast
qed

text \<open>
  C19: A retry waits for the earlier attempts. If an attempt that speeds up none is recorded, no earlier
  attempt of the account is still open: one whose pre-hook ran without being traded away has traded with
  its delivery complete, or handed off a trade that the bridge delivered, and any other is recorded dead,
  or another attempt of its use at its nonce traded.
\<close>

theorem retry_waits_for_earlier:
  assumes "executor_reach v" "account (v chain) operation = Some r" "tt_speed_up t = None"
    and "record_swap_attempt_at env v chain operation t included (v chain) = (Inr r', cs)"
    and "er_swap r = Some sw" "o1 \<in> set (sw_orders sw)" "traded_sibling sw o1 = None"
  shows "(oo_pre_hook_dead (so_observations o1) \<noteq> None \<and> oo_pre_hook_executed (so_observations o1) = None)
    \<or> (oo_traded (so_observations o1) \<noteq> None \<and> (\<exists>d. delivery_order sw o1 = Some d \<and> destination_delivered d))
    \<or> (oo_bridge_handoff (so_observations o1) \<noteq> None \<and> trade_order sw o1 \<noteq> None \<and> destination_delivered o1)"
proof -
  have "attempt_order_refusal t r = None" using placed(1) [OF assms(1,2,4)] by (rule attempt_accepted)
  then have "admits_attempt sw" using assms(3,5) by (simp add: attempt_order_refusal_def split: if_splits)
  then have "order_admits_attempt sw o1" using assms(6) by (simp add: admits_attempt_def list_all_iff)
  then show ?thesis using assms(7) by (auto simp: order_admits_attempt_def has_ended_def split: if_splits option.splits)
qed

text \<open>
  C18: A speed-up replaces one open order. If an attempt that speeds up an order is recorded, that order is
  the account's latest, of the same use and at the pre-hook's nonce; it has not traded, expired, died or
  handed off, and no attempt of the use at that nonce ran its pre-hook, traded, handed off or was funded.
  The new order invalidates it, keeps its proof, its sell amount, its private spend and its delivery, and
  asks for a lower buy amount: at most one of the two can trade.
\<close>

theorem speed_up_replaces_open_order:
  assumes "executor_reach v" "account (v chain) operation = Some r" "tt_speed_up t = Some open1"
    and "record_swap_attempt_at env v chain operation t included (v chain) = (Inr r', cs)"
  shows "\<exists>sw latest. er_swap r = Some sw \<and> sw_orders sw \<noteq> [] \<and> latest = last (sw_orders sw)
    \<and> so_uid latest = open1 \<and> so_use_id latest = Some (tt_use_id t)
    \<and> sh_nonce (so_pre_hook latest) = ip_nonce (tt_pre_hook t)
    \<and> oo_pre_hook_dead (so_observations latest) = None \<and> oo_expired (so_observations latest) = None
    \<and> (\<forall>o1 \<in> set (sw_orders sw). so_use_id o1 = so_use_id latest \<longrightarrow> sh_nonce (so_pre_hook o1) = sh_nonce (so_pre_hook latest) \<longrightarrow>
        oo_pre_hook_executed (so_observations o1) = None \<and> oo_traded (so_observations o1) = None
        \<and> oo_bridge_handoff (so_observations o1) = None)
    \<and> (\<forall>f \<in> set (sw_fundings sw). \<not> (sf_use_id f = tt_use_id t \<and> sf_pre_hook_nonce f = ip_nonce (tt_pre_hook t)))
    \<and> tt_invalidates t = Some open1 \<and> tt_proof t = sw_proof sw \<and> tt_delivery t = so_delivery latest
    \<and> bo_sell_amount (tt_bounds t) = bo_sell_amount (so_bounds latest)
    \<and> spend_amount (tt_bounds t) = spend_amount (so_bounds latest)
    \<and> bo_buy_amount (tt_bounds t) < bo_buy_amount (so_bounds latest)"
proof -
  have "attempt_order_refusal t r = None" using placed(1) [OF assms(1,2,4)] by (rule attempt_accepted)
  then have "speeds_up t open1 r" using assms(3) by (simp add: attempt_order_refusal_def split: if_splits)
  then obtain sw where sw: "er_swap r = Some sw" "sw_orders sw \<noteq> []"
    and admits: "admits_speed_up sw \<lparr>sp_swap_use = tt_use_id t, sp_order = open1, sp_pre_hook_nonce = ip_nonce (tt_pre_hook t)\<rparr>"
    and terms: "tt_invalidates t = Some open1" "tt_proof t = sw_proof sw"
      "tt_delivery t = so_delivery (last (sw_orders sw))"
      "bo_sell_amount (tt_bounds t) = bo_sell_amount (so_bounds (last (sw_orders sw)))"
      "spend_amount (tt_bounds t) = spend_amount (so_bounds (last (sw_orders sw)))"
      "bo_buy_amount (tt_bounds t) < bo_buy_amount (so_bounds (last (sw_orders sw)))"
    by (auto simp: speeds_up_def Let_def split: option.splits)
  let ?latest = "last (sw_orders sw)"
  have in_list: "?latest \<in> set (sw_orders sw)" using sw(2) by simp
  have named: "so_uid ?latest = open1" "so_use_id ?latest = Some (tt_use_id t)"
      "sh_nonce (so_pre_hook ?latest) = ip_nonce (tt_pre_hook t)"
    and unused: "\<not> list_ex (\<lambda>o1. competes ?latest o1 \<and> oo_pre_hook_executed (so_observations o1) \<noteq> None) (sw_orders sw)"
      "\<not> list_ex (\<lambda>f. Some (sf_use_id f) = so_use_id ?latest \<and> sf_pre_hook_nonce f = sh_nonce (so_pre_hook ?latest)) (sw_fundings sw)"
    and still_open: "\<And>o1. o1 \<in> set (sw_orders sw) \<Longrightarrow> competes ?latest o1
        \<Longrightarrow> oo_traded (so_observations o1) = None \<and> oo_bridge_handoff (so_observations o1) = None"
      "oo_pre_hook_dead (so_observations ?latest) = None \<and> oo_expired (so_observations ?latest) = None"
    using admits sw(2)
    by (simp_all add: admits_speed_up_def refuse_speed_up_def Let_def list_all_iff split: if_splits) (metis in_list)+
  have "oo_pre_hook_executed (so_observations o1) = None \<and> oo_traded (so_observations o1) = None
        \<and> oo_bridge_handoff (so_observations o1) = None"
    if "o1 \<in> set (sw_orders sw)" "so_use_id o1 = so_use_id ?latest" "sh_nonce (so_pre_hook o1) = sh_nonce (so_pre_hook ?latest)" for o1
    using that unused(1) still_open(1) [OF that(1)] by (auto simp: list_ex_iff competes_def)
  moreover have "\<not> (sf_use_id f = tt_use_id t \<and> sf_pre_hook_nonce f = ip_nonce (tt_pre_hook t))"
    if "f \<in> set (sw_fundings sw)" for f
    using that unused(2) named(2,3) by (auto simp: list_ex_iff)
  ultimately show ?thesis using sw named terms still_open(2) by blast
qed

text \<open>
  C40: An approval is replaced only before the order it stands for. If an approval is recorded, the account
  is bound and claimed by the expected use, which is its latest, not stopped, and a source. Beside an order
  of that use it changes nothing but the setup's fee limit; and where the use links a destination account,
  it is a private Bridge delivery to the chain of the one before.
\<close>

theorem approval_replaced_before_order:
  assumes "executor_reach v" "account (v chain) operation = Some r"
    and "record_swap_approval env operation use approval (v chain) = (Inr r', cs)"
  shows "\<exists>u known destination. er_address r \<noteq> None \<and> er_active_swap_use r = Some use
    \<and> er_swap_uses r \<noteq> [] \<and> u = last (er_swap_uses r) \<and> su_id u = use \<and> \<not> su_stopped u
    \<and> su_role u = Source known destination
    \<and> (has_swap_use_order use r \<longrightarrow> (\<exists>old. known = Some old \<and>
        approval\<lparr>sa_bounds := (sa_bounds approval)\<lparr>bo_source_setup_fee := bo_source_setup_fee (sa_bounds old)\<rparr>\<rparr> = old))
    \<and> (destination \<noteq> None \<longrightarrow> (\<exists>old. known = Some old \<and>
        (\<exists>chain'. private_chain (sa_delivery old) = Some chain' \<and> private_chain (sa_delivery approval) = Some chain')))
    \<and> er_swap_uses r' = butlast (er_swap_uses r) @ [u\<lparr>su_role := Source (Some approval) destination\<rparr>]"
proof -
  note ok = vault_okD [OF executor_machine.reach_inv [OF assms(1)], of chain]
  obtain r1 where r1: "approval_change use approval r = Inr r1" "r' = stored r1"
    using update_accepted [OF ok, of env operation "\<lambda>_ r. approval_change use approval r" r'] assms(2,3)
    by (auto simp: record_swap_approval_def)
  let ?u = "last (er_swap_uses r)"
  obtain known destination where role: "su_role ?u = Source known destination"
    using r1(1) by (cases "su_role ?u") (auto simp: approval_change_def Let_def split: if_splits)
  have facts: "er_address r \<noteq> None" "er_active_swap_use r = Some use" "er_swap_uses r \<noteq> []" "su_id ?u = use"
    "\<not> su_stopped ?u" "has_swap_use_order use r \<Longrightarrow> setup_fee_only use approval r"
    "destination \<noteq> None \<Longrightarrow> approval_keeps_chain known approval"
    "er_swap_uses r1 = butlast (er_swap_uses r) @ [?u\<lparr>su_role := Source (Some approval) destination\<rparr>]"
    using r1(1) role by (auto simp: approval_change_def Let_def split: if_splits)
  have "\<exists>old. known = Some old \<and>
        approval\<lparr>sa_bounds := (sa_bounds approval)\<lparr>bo_source_setup_fee := bo_source_setup_fee (sa_bounds old)\<rparr>\<rparr> = old"
    if "has_swap_use_order use r"
    using facts(6) [OF that] role facts(3)
    by (auto simp: setup_fee_only_def latest_approval_def use_approval_def split: option.splits)
  moreover have "\<exists>old. known = Some old \<and>
        (\<exists>chain'. private_chain (sa_delivery old) = Some chain' \<and> private_chain (sa_delivery approval) = Some chain')"
    if "destination \<noteq> None"
    using facts(7) [OF that]
    by (auto simp: approval_keeps_chain_def private_chain_def private_bridge_def split: option.splits swap_delivery.splits)
  moreover have "er_swap_uses r' = butlast (er_swap_uses r) @ [?u\<lparr>su_role := Source (Some approval) destination\<rparr>]"
    using facts(8) r1(2) by simp
  ultimately show ?thesis using facts(1-5) role by blast
qed

end
