(* ===== verification/OrderEvidence.thy ===== *)
theory OrderEvidence
  imports OrderProperties
begin

text \<open>
  What is recorded of an order stays recorded. Only \<open>record_swap_observations\<close>, which replaces an order's
  observations after a reorganization, takes its evidence back; every other call keeps a trade, a hand-off, a
  verified refund, the orderbook's fee and an accepted submission, and replaces a bridge's outcome only as
  \<open>outcome_moves\<close> says.
\<close>

section \<open>Evidence of an order\<close>

text \<open>
  How one call may change the outcome that a bridge gives: an order that needs attention may get any outcome,
  a reported delivery becomes a verified one or a refund, and a refund that was only announced becomes the
  fill that was found. Over a run the outcome takes such moves one after another, so a reported delivery can
  become a refund first and then the fill.
\<close>

fun outcome_moves :: "bridge_outcome \<Rightarrow> bridge_outcome \<Rightarrow> bool" where
  "outcome_moves NeedsAttention y = True"
| "outcome_moves (DeliveredReported amount hash tx) y =
    (case y of
       DeliveredReported a h t \<Rightarrow> a = amount \<and> h = hash \<and> t = tx
     | DeliveredVerified _ _ _ _ \<Rightarrow> True
     | Refunding \<Rightarrow> True
     | _ \<Rightarrow> False)"
| "outcome_moves Refunding y =
    (case y of Refunding \<Rightarrow> True | DeliveredVerified _ _ _ _ \<Rightarrow> True | HeldOnDestination _ _ _ \<Rightarrow> True | _ \<Rightarrow> False)"
| "outcome_moves x y = (x = y)"

definition same_once_known :: "'a option \<Rightarrow> 'a option \<Rightarrow> bool" where
  "same_once_known x y \<longleftrightarrow> x = None \<or> y = x"

definition known_fee :: "order_observations \<Rightarrow> u256 option" where
  "known_fee obs = Option.bind (oo_trade_amounts obs) tm_executed_fee"

text \<open>Of one order, with \<open>Q\<close> for what may happen to its bridge's outcome.\<close>

definition evidence_goes_on :: "(bridge_outcome \<Rightarrow> bridge_outcome \<Rightarrow> bool) \<Rightarrow> swap_order \<Rightarrow> swap_order \<Rightarrow> bool" where
  "evidence_goes_on Q a b \<longleftrightarrow>
    so_uid b = so_uid a
    \<and> (let x = so_observations a; y = so_observations b in
     same_once_known (oo_traded x) (oo_traded y) \<and> same_once_known (oo_bridge_handoff x) (oo_bridge_handoff y)
     \<and> same_once_known (oo_bridge_refund x) (oo_bridge_refund y)
     \<and> same_once_known (known_fee x) (known_fee y)
     \<and> (oo_delivered x \<noteq> None \<longrightarrow> oo_delivered y \<noteq> None)
     \<and> (oo_pre_hook_executed x = oo_pre_hook_executed y) \<and> (oo_pre_hook_dead x = oo_pre_hook_dead y)
     \<and> (case oo_bridge_outcome x of
          None \<Rightarrow> True | Some k \<Rightarrow> (case oo_bridge_outcome y of None \<Rightarrow> False | Some n \<Rightarrow> Q k n))
     \<and> (so_submission_status a = SubmissionAccepted \<longrightarrow> so_submission_status b = SubmissionAccepted))"

lemma outcome_moves_refl [simp]: "outcome_moves x x"
  by (cases x) auto

lemma same_once_known_simps [simp]: "same_once_known x x" "same_once_known None y"
  by (simp_all add: same_once_known_def)

lemma same_once_known_trans: "same_once_known x y \<Longrightarrow> same_once_known y z \<Longrightarrow> same_once_known x z"
  by (auto simp: same_once_known_def)

lemma evidence_refl: "(\<And>x. Q x x) \<Longrightarrow> evidence_goes_on Q a a"
  by (simp add: evidence_goes_on_def Let_def split: option.split)

lemma evidence_mono: "evidence_goes_on P a b \<Longrightarrow> (\<And>x y. P x y \<Longrightarrow> Q x y) \<Longrightarrow> evidence_goes_on Q a b"
  by (auto simp: evidence_goes_on_def Let_def split: option.splits)

lemma evidence_trans:
  "evidence_goes_on Q a b \<Longrightarrow> evidence_goes_on Q b c \<Longrightarrow> (\<And>x y z. Q x y \<Longrightarrow> Q y z \<Longrightarrow> Q x z) \<Longrightarrow> evidence_goes_on Q a c"
  by (auto simp: evidence_goes_on_def Let_def intro: same_once_known_trans split: option.splits)

section \<open>Evidence of an account\<close>

text \<open>What is recorded of the orders with one identifier goes on.\<close>

definition keeps_evidence ::
    "(bridge_outcome \<Rightarrow> bridge_outcome \<Rightarrow> bool) \<Rightarrow> order_uid \<Rightarrow> executor_record \<Rightarrow> executor_record \<Rightarrow> bool" where
  "keeps_evidence Q uid r s \<longleftrightarrow>
    length (swap_orders_of r) \<le> length (swap_orders_of s)
    \<and> (\<forall>i < length (swap_orders_of r). so_uid (swap_orders_of r ! i) = uid \<longrightarrow>
        evidence_goes_on Q (swap_orders_of r ! i) (swap_orders_of s ! i))"

lemma same_swap_evidence: "er_swap s = er_swap r \<Longrightarrow> (\<And>x. Q x x) \<Longrightarrow> keeps_evidence Q uid r s"
  by (simp add: keeps_evidence_def swap_orders_of_def evidence_refl)

lemma same_swap_moves [simp]: "er_swap s = er_swap r \<Longrightarrow> keeps_evidence outcome_moves uid r s"
  by (rule same_swap_evidence) simp_all

lemma keeps_evidence_mono: "keeps_evidence P uid r s \<Longrightarrow> (\<And>x y. P x y \<Longrightarrow> Q x y) \<Longrightarrow> keeps_evidence Q uid r s"
  unfolding keeps_evidence_def using evidence_mono by blast

lemma keeps_evidence_trans:
  assumes "keeps_evidence Q uid r s" "keeps_evidence Q uid s t" "\<And>x y z. Q x y \<Longrightarrow> Q y z \<Longrightarrow> Q x z"
  shows "keeps_evidence Q uid r t"
  unfolding keeps_evidence_def
proof (intro conjI allI impI)
  show "length (swap_orders_of r) \<le> length (swap_orders_of t)" using assms(1,2) by (auto simp: keeps_evidence_def)
  fix i assume i: "i < length (swap_orders_of r)" "so_uid (swap_orders_of r ! i) = uid"
  then have "evidence_goes_on Q (swap_orders_of r ! i) (swap_orders_of s ! i)" "i < length (swap_orders_of s)"
    using assms(1) by (auto simp: keeps_evidence_def)
  moreover from this i(2) have "so_uid (swap_orders_of s ! i) = uid" by (simp add: evidence_goes_on_def)
  ultimately show "evidence_goes_on Q (swap_orders_of r ! i) (swap_orders_of t ! i)"
    using assms(2) evidence_trans [OF _ _ assms(3)] by (auto simp: keeps_evidence_def)
qed

lemma keeps_evidence_rtranclp:
  "keeps_evidence Q\<^sup>*\<^sup>* uid r s \<Longrightarrow> keeps_evidence Q\<^sup>*\<^sup>* uid s t \<Longrightarrow> keeps_evidence Q\<^sup>*\<^sup>* uid r t"
  by (rule keeps_evidence_trans) (auto intro: rtranclp_trans)

lemma stored_evidence [simp]: "keeps_evidence Q uid r (stored s) = keeps_evidence Q uid r s"
  by (simp add: keeps_evidence_def swap_orders_of_def)

interpretation evidence: record_relation "\<lambda>r s. continues r s \<and> keeps_evidence (=) uid r s" "\<lambda>_. True" for uid :: order_uid
  by unfold_locales
    (auto simp: same_reservations_def same_swap_evidence intro: continues_trans keeps_evidence_trans)

lemma put_order_evidence:
  assumes "find_order uid r = Some o1" "so_uid o2 = uid" "\<And>x. Q x x" "key = uid \<Longrightarrow> evidence_goes_on Q o1 o2"
  shows "keeps_evidence Q key r (put_order uid o2 r)"
proof -
  have "find (\<lambda>x. so_uid x = uid) xs = Some o1 \<Longrightarrow> i < length xs \<Longrightarrow> so_uid (xs ! i) = key
      \<Longrightarrow> evidence_goes_on Q (xs ! i) (replace_order uid o2 xs ! i)" for xs i
  proof (induction xs arbitrary: i)
    case (Cons x xs)
    then show ?case using assms(4) by (cases i) (auto simp: evidence_refl [OF assms(3)] split: if_splits)
  qed simp
  then show ?thesis using assms(1)
    by (cases "er_swap r") (auto simp: keeps_evidence_def find_order_def swap_orders_of_def put_order_def)
qed

text \<open>The changes of one order.\<close>

definition evidence_change :: "(swap_order \<Rightarrow> store_error + swap_order) \<Rightarrow> bool" where
  "evidence_change f \<longleftrightarrow>
    (\<forall>o1 o2. f o1 = Inr o2 \<longrightarrow> amounts_ok (so_observations o1) \<longrightarrow> evidence_goes_on outcome_moves o1 o2)"

lemma or_else_known: "(\<not> (\<exists>h. x = Some h \<and> contradicts k h)) \<Longrightarrow> same_once_known k (or_else x k)"
  by (cases x; cases k) (auto simp: same_once_known_def contradicts_def)

lemma not_contradicted: "\<not> contradicts k x \<Longrightarrow> same_once_known k (Some x)"
  by (cases k) (auto simp: same_once_known_def contradicts_def)

lemma kept_fee:
  assumes "amounts_ok obs" "oo_trade_amounts obs' = Some (kept_trade_amounts obs amounts)"
  shows "same_once_known (known_fee obs) (known_fee obs')"
  using assms
  by (cases "oo_trade_amounts obs")
    (auto simp: same_once_known_def known_fee_def kept_trade_amounts_def amounts_ok_def or_else_def split: option.splits)

lemma settle_evidence: "evidence_change (settle_order ev)"
  unfolding evidence_change_def
proof (intro allI impI)
  fix o1 o2 assume settled: "settle_order ev o1 = Inr o2" and amounts: "amounts_ok (so_observations o1)"
  let ?x = "so_observations o1" and ?y = "so_observations o2"
  have ok: "\<not> contradicts (oo_traded ?x) (ev_traded ev)"
    "\<not> (\<exists>h. ev_handoff ev = Some h \<and> contradicts (oo_bridge_handoff ?x) h)"
    using settled by (auto simp: settle_order_def Let_def split: prod.splits if_splits option.splits)
  have fields: "oo_traded ?y = Some (ev_traded ev)" "oo_bridge_handoff ?y = or_else (ev_handoff ev) (oo_bridge_handoff ?x)"
    "oo_trade_amounts ?y = Some (kept_trade_amounts ?x (ev_amounts ev))" "oo_bridge_refund ?y = oo_bridge_refund ?x"
    "oo_bridge_outcome ?y = oo_bridge_outcome ?x" "oo_delivered ?x \<noteq> None \<Longrightarrow> oo_delivered ?y \<noteq> None"
    "so_uid o2 = so_uid o1" "so_submission_status o2 = so_submission_status o1" "oo_pre_hook_executed ?y = oo_pre_hook_executed ?x"
    "oo_pre_hook_dead ?y = oo_pre_hook_dead ?x"
    using settled by (auto simp: settle_order_def Let_def split: prod.splits if_splits)
  show "evidence_goes_on outcome_moves o1 o2"
    using not_contradicted [OF ok(1)] or_else_known [OF ok(2)] kept_fee [OF amounts fields(3)] fields
    by (auto simp: evidence_goes_on_def Let_def split: option.split)
qed

lemma charge_evidence: "evidence_change (charge_fee fee token)"
  by (auto simp: evidence_change_def charge_fee_def evidence_goes_on_def known_fee_def same_once_known_def Let_def
    split: option.splits if_splits)

lemma admitted_goes_on: "admits_outcome rules x \<Longrightarrow> rules_known rules = Some k \<Longrightarrow> outcome_moves k x"
  by (cases k; cases x) (auto simp: admits_outcome_def outcome_is_final_def Let_def split: if_splits)

lemma outcome_evidence: "evidence_change (outcome_change x)"
  unfolding evidence_change_def
proof (intro allI impI)
  fix o1 o2 assume "outcome_change x o1 = Inr o2"
  then obtain secret where admits: "admits_outcome (order_rules secret o1) x"
    and o2: "o2 = o1\<lparr>so_observations := (so_observations o1)\<lparr>oo_bridge_outcome := Some x\<rparr>\<rparr>"
    by (auto simp: outcome_change_def and_then_eq_Inr split: if_splits)
  have "outcome_moves k x" if "oo_bridge_outcome (so_observations o1) = Some k" for k
    using admitted_goes_on [OF admits] that by (simp add: order_rules_def Let_def)
  then show "evidence_goes_on outcome_moves o1 o2" by (auto simp: o2 evidence_goes_on_def Let_def known_fee_def split: option.split)
qed

lemma refund_evidence: "evidence_change (refund_change refund)"
  by (auto simp: evidence_change_def refund_change_def bridge_refund_admitted_def evidence_goes_on_def known_fee_def
    same_once_known_def Let_def split: option.splits if_splits)

lemma found_amounts:
  assumes "body_ok chain r" "find_order uid r = Some o1"
  shows "amounts_ok (so_observations o1)"
proof -
  obtain sw where sw: "er_swap r = Some sw" "o1 \<in> set (sw_orders sw)"
    using assms(2) by (auto simp: find_order_def swap_orders_of_def find_Some_iff split: option.splits)
  then show ?thesis using assms(1) by (auto simp: body_ok_def swap_ok_def orders_ok_def order_ok_def list_all_iff)
qed

lemma change_order_evidence:
  assumes "evidence_change f" "body_ok chain r" "change_order uid f r = Inr r'"
  shows "keeps_evidence outcome_moves key r r'"
proof -
  obtain o1 o2 where *: "find_order uid r = Some o1" "f o1 = Inr o2" "r' = put_order uid o2 r"
    using assms(3) by (auto simp: change_order_def and_then_eq_Inr split: option.splits)
  then have kept: "evidence_goes_on outcome_moves o1 o2"
    using assms(1) found_amounts [OF assms(2) *(1)] by (auto simp: evidence_change_def)
  then have "so_uid o2 = uid" using *(1) by (auto simp: evidence_goes_on_def find_order_def find_Some_iff)
  then show ?thesis unfolding *(3) by (rule put_order_evidence [OF *(1)]) (simp_all add: kept)
qed

lemma other_order_evidence:
  assumes "change_order uid (\<lambda>o1. Inr (o1\<lparr>so_observations := obs\<rparr>)) r = Inr r'" "uid \<noteq> key"
  shows "keeps_evidence outcome_moves key r r'"
proof -
  obtain o1 where *: "find_order uid r = Some o1" "r' = put_order uid (o1\<lparr>so_observations := obs\<rparr>) r"
    using assms(1) by (auto simp: change_order_def and_then_eq_Inr split: option.splits)
  then have "so_uid o1 = uid" by (simp add: find_order_def find_Some_iff) blast
  then show ?thesis unfolding *(2) using assms(2) by (intro put_order_evidence [OF *(1)]) simp_all
qed

lemma settlement_evidence:
  assumes body: "body_ok chain r" and settled: "settlement_change uid ev r = Inr r'"
  shows "keeps_evidence outcome_moves key r r'"
proof (cases "ev_delivery ev = uid")
  case True
  then show ?thesis using settled change_order_evidence [OF settle_evidence body] by (simp add: settlement_change_def)
next
  case False
  then obtain trade delivery handoff where
    found: "find_order uid r = Some trade" "find_order (ev_delivery ev) r = Some delivery"
    and fits: "\<not> split_refused ev handoff trade delivery"
    and r': "r' = put_order (ev_delivery ev) (split_delivered ev handoff delivery) (put_order uid (split_traded ev trade) r)"
    using settled by (auto simp: settlement_change_def record_split_settlement_def split: option.splits if_splits)
  have uid: "so_uid (split_traded ev trade) = uid" "so_uid (split_delivered ev handoff delivery) = ev_delivery ev"
    using found by (auto simp: split_traded_def split_delivered_def Let_def find_order_def find_Some_iff)
  have "same_once_known (oo_traded (so_observations trade)) (Some (ev_traded ev))"
    "same_once_known (oo_bridge_handoff (so_observations delivery)) (Some handoff)"
    using fits by (auto simp: split_refused_def not_contradicted)
  then have kept: "evidence_goes_on (=) trade (split_traded ev trade)"
      "evidence_goes_on (=) delivery (split_delivered ev handoff delivery)"
    using kept_fee [OF found_amounts [OF body found(1)], of "so_observations (split_traded ev trade)" "ev_amounts ev"]
    by (auto simp: evidence_goes_on_def split_traded_def split_delivered_def known_fee_def Let_def split: option.split)
  have "keeps_evidence (=) key r r'"
    unfolding r'
    by (rule keeps_evidence_trans [OF put_order_evidence [OF found(1) uid(1)]
          put_order_evidence [OF find_put_order [OF False found(2) uid(1)] uid(2)]]) (simp_all add: kept)
  then show ?thesis by (rule keeps_evidence_mono) simp
qed

lemma submission_change_evidence:
  assumes "submission_change uid status r = Inr r'"
  shows "keeps_evidence outcome_moves key r r'"
proof -
  obtain o1 where o1: "find_order uid r = Some o1" using assms by (auto simp: submission_change_def split: option.splits)
  have kept: "evidence_goes_on outcome_moves o1 (submit_order status o1)"
    by (auto simp: submit_order_def evidence_goes_on_def Let_def known_fee_def split: option.split)
  have "so_uid (submit_order status o1) = uid" using o1 by (auto simp: submit_order_def find_order_def find_Some_iff)
  then have "keeps_evidence outcome_moves key r (put_order uid (submit_order status o1) r)"
    by (rule put_order_evidence [OF o1]) (simp_all add: kept)
  moreover have "er_swap r' = er_swap (put_order uid (submit_order status o1) r)"
    using assms o1 by (auto simp: submission_change_def Let_def split: if_splits)
  ultimately show ?thesis by (simp add: keeps_evidence_def swap_orders_of_def)
qed

lemma place_order_evidence: "keeps_evidence outcome_moves key r (place_order t r)"
  by (auto simp: evidence_refl keeps_evidence_def place_order_def Let_def swap_orders_of_def nth_append split: option.split)

lemma fundings_evidence: "fundings_change fundings r = Inr r' \<Longrightarrow> keeps_evidence outcome_moves key r r'"
  by (auto simp: evidence_refl fundings_change_def and_then_eq_Inr keeps_evidence_def swap_orders_of_def split: option.splits if_splits)

section \<open>Every call\<close>

text \<open>A call that replaces the observations of the order \<open>uid\<close> of the account.\<close>

fun observes :: "u64 \<Rightarrow> operation_id \<Rightarrow> order_uid \<Rightarrow> executor_label \<Rightarrow> bool" where
  "observes chain operation uid (env, c, RecordObservations op replaced obs)
    \<longleftrightarrow> c = chain \<and> op = operation \<and> replaced = uid"
| "observes chain operation uid l = False"

definition evidence_after ::
    "(bridge_outcome \<Rightarrow> bridge_outcome \<Rightarrow> bool) \<Rightarrow> u64 \<Rightarrow> operation_id \<Rightarrow> order_uid \<Rightarrow> vault \<Rightarrow> vault \<Rightarrow> bool" where
  "evidence_after Q chain key uid v v' \<longleftrightarrow>
    (\<forall>r. account (v chain) key = Some r \<longrightarrow> (\<exists>s. account (v' chain) key = Some s \<and> keeps_evidence Q uid r s))"

lemma evidence_after_refl: "evidence_after outcome_moves chain key uid v v"
  by (auto simp: evidence_after_def)

lemma update_evidence:
  assumes ok: "vault_ok v"
    and change: "\<And>r r'. account (v c) operation = Some r \<Longrightarrow> body_ok c r \<Longrightarrow> change (v c) r = Inr r'
      \<Longrightarrow> continuing.evolves c r r' \<and> (c = chain \<and> operation = key \<longrightarrow> keeps_evidence outcome_moves uid r r')"
  shows "evidence_after outcome_moves chain key uid v (snd (plain (on_chain c (update_record env operation change) v)))"
proof -
  let ?cs = "snd (update_record env operation change (v c))"
  note store = vault_okD [OF ok, of c]
  have after: "snd (plain (on_chain c (update_record env operation change) v)) = v(c := ?cs)"
    by (auto simp: plain_def on_chain_def split: prod.split sum.split)
  have "\<exists>s. account ((v(c := ?cs)) chain) key = Some s \<and> keeps_evidence outcome_moves uid r s" if r: "account (v chain) key = Some r" for r
  proof (cases "fst (update_record env operation change (v c))")
    case (Inl e)
    then have "?cs = v c"
      by (auto simp: update_record_def guarded_def record_of_ok [OF store] Let_def split: if_splits option.splits sum.splits)
    then show ?thesis using r by (auto intro: same_swap_evidence)
  next
    case (Inr r')
    obtain r0 r1 where *: "account (v c) operation = Some r0" "change (v c) r0 = Inr r1"
        "?cs = put_row (OperationRow operation (stored r1)) (v c)"
      using update_accepted [OF store Inr] .
    have body: "body_ok c r0" "er_operation r0 = operation" using vault_account [OF ok *(1)] by simp_all
    have evolves: "continuing.evolves c r0 r1" "c = chain \<and> operation = key \<longrightarrow> keeps_evidence outcome_moves uid r0 r1"
      using change [OF *(1) body(1) *(2)] by blast+
    have "body_ok c (stored r1)" "er_operation (stored r1) = operation"
      using evolves(1) body by (auto simp: continuing_evolves continues_def)
    then have "account ?cs = (account (v c))(operation \<mapsto> stored r1)"
      using account_put [of c "stored r1" operation "v c"] *(3) by (simp add: stored_def)
    then show ?thesis using r *(1) evolves(2)
      by (cases "c = chain"; cases "operation = key") (auto intro: same_swap_evidence)
  qed
  then show ?thesis unfolding after evidence_after_def by blast
qed

lemma harmless_evolves: "continuing.harmless_change chain r x \<Longrightarrow> x = Inr r' \<Longrightarrow> continuing.evolves chain r r'"
  by simp

lemma issued_swap: "issue_payload v operation expected p cs r = Inr r' \<Longrightarrow> er_swap r' = er_swap r"
  by (auto simp: issue_payload_def and_then_eq_Inr add_payload_def record_shield_def split: if_splits option.splits)

lemma payload_changes:
  "er_swap (apply_synced resolved scanned r) = er_swap r" "er_swap (apply_account_read observed r) = er_swap r"
  "er_swap (require_reconciliation r) = er_swap r" "er_swap (set_nonce_watermark w r) = er_swap r"
  "release_hashes hashes r = Inr r' \<Longrightarrow> er_swap r' = er_swap r"
  "submit_payload h transaction r = Inr r' \<Longrightarrow> er_swap r' = er_swap r"
  "reserve_again operation h cs r = Inr r' \<Longrightarrow> er_swap r' = er_swap r"
  by (auto simp: apply_synced_def apply_account_read_def set_nonce_watermark_def require_reconciliation_def submit_payload_def
    withdraw_release_def reserve_again_def and_then_eq_Inr Let_def dest!: release_hashes_parts split: option.splits if_splits)

lemma same_swap_update:
  assumes "vault_ok v"
    and "\<And>r r'. change (v c) r = Inr r' \<Longrightarrow> continuing.evolves c r r' \<and> er_swap r' = er_swap r"
  shows "evidence_after outcome_moves chain key uid v (snd (plain (on_chain c (update_record env operation change) v)))"
  using assms(2) by (intro update_evidence [OF assms(1)]) (blast intro: same_swap_moves)

lemma reserve_again_cases: "reserve_again operation h cs r = Inr r' \<Longrightarrow> r' = r \<or> r' = withdraw_release h r"
  by (auto simp: reserve_again_def and_then_eq_Inr split: option.splits if_splits)

lemma payload_calls_evidence:
  assumes ok: "vault_ok v"
  shows "evidence_after outcome_moves chain key uid v (snd (run_call env c (RecordSynced operation resolved scanned) v))"
    "evidence_after outcome_moves chain key uid v (snd (run_call env c (RecordAccountRead operation observed) v))"
    "evidence_after outcome_moves chain key uid v (snd (run_call env c (InvalidateObservation operation) v))"
    "evidence_after outcome_moves chain key uid v (snd (run_call env c (RefreshSettledNonce previous observed) v))"
    "evidence_after outcome_moves chain key uid v (snd (run_call env c (ReleasePayloads operation hashes) v))"
    "evidence_after outcome_moves chain key uid v (snd (run_call env c (ReserveReleased operation h) v))"
    "evidence_after outcome_moves chain key uid v (snd (run_call env c (RecordSubmission operation h transaction) v))"
proof -
  show "evidence_after outcome_moves chain key uid v (snd (run_call env c (RecordSynced operation resolved scanned) v))"
    unfolding run_call.simps record_synced_def by (rule same_swap_update [OF ok]) (auto simp: payload_changes)
  show "evidence_after outcome_moves chain key uid v (snd (run_call env c (RecordAccountRead operation observed) v))"
    unfolding run_call.simps record_account_read_def by (rule same_swap_update [OF ok]) (auto simp: payload_changes)
  show "evidence_after outcome_moves chain key uid v (snd (run_call env c (InvalidateObservation operation) v))"
    unfolding run_call.simps invalidate_observation_def by (rule same_swap_update [OF ok]) (auto simp: payload_changes)
  show "evidence_after outcome_moves chain key uid v (snd (run_call env c (RefreshSettledNonce previous observed) v))"
    unfolding run_call.simps refresh_settled_swap_nonce_def
    by (rule same_swap_update [OF ok]) (auto simp: payload_changes split: if_splits)
  show "evidence_after outcome_moves chain key uid v (snd (run_call env c (ReleasePayloads operation hashes) v))"
    unfolding run_call.simps release_payloads_def
    by (rule same_swap_update [OF ok]) (simp add: payload_changes release_hashes_evolves)
  show "evidence_after outcome_moves chain key uid v (snd (run_call env c (ReserveReleased operation h) v))"
    unfolding run_call.simps reserve_released_def
    by (rule same_swap_update [OF ok]) (auto simp: withdraw_release_def dest!: reserve_again_cases intro: watermark_evolves(6) [unfolded withdraw_release_def])
  show "evidence_after outcome_moves chain key uid v (snd (run_call env c (RecordSubmission operation h transaction) v))"
    unfolding run_call.simps record_submission_def
    by (rule same_swap_update [OF ok]) (simp add: payload_changes submit_evolves)
qed

lemma refused_evidence: "evidence_after outcome_moves chain key uid v (snd (plain (on_chain c (\<lambda>cs. (Inl e, cs)) v)))"
  by (auto simp: evidence_after_def plain_def on_chain_def intro: same_swap_evidence)

lemma issue_calls_evidence:
  assumes ok: "vault_ok v"
  shows "evidence_after outcome_moves chain key uid v (snd (run_call env c (RecordIssued operation p) v))"
    "evidence_after outcome_moves chain key uid v (snd (run_call env c (RecordShield operation use p) v))"
    "evidence_after outcome_moves chain key uid v (snd (run_call env c (RecordRecovery operation active p) v))"
proof -
  have issued: "evidence_after outcome_moves chain key uid v (snd (plain (on_chain c (record_issued_for env v operation expected p) v)))" for expected
    unfolding record_issued_for_def
  proof (rule same_swap_update [OF ok])
    fix r r' assume "issue_payload v operation expected p (v c) r = Inr r'"
    then show "continuing.evolves c r r' \<and> er_swap r' = er_swap r"
      using issue_payload_fine [OF ok vault_okD [OF ok, of c], of r operation expected p] issued_swap
      by (auto simp: continuing.change_fine_def)
  qed
  then show "evidence_after outcome_moves chain key uid v (snd (run_call env c (RecordIssued operation p) v))"
    unfolding run_call.simps record_issued_def .
  show "evidence_after outcome_moves chain key uid v (snd (run_call env c (RecordShield operation use p) v))"
    by (cases "ip_purpose p = SwapDestinationShield")
      (simp_all add: record_swap_destination_shield_def [abs_def] issued refused_evidence)
  show "evidence_after outcome_moves chain key uid v (snd (run_call env c (RecordRecovery operation active p) v))"
    by (cases "ip_purpose p = RecoveryPayload") (simp_all add: record_recovery_issued_def [abs_def] issued refused_evidence)
qed

lemma order_calls_evidence:
  assumes ok: "vault_ok v"
  shows "evidence_after outcome_moves chain key uid v (snd (plain (on_chain c (record_swap_attempt_at env v c operation t included) v)))"
    "evidence_after outcome_moves chain key uid v (snd (run_call env c (RecordOrderSubmission operation order status) v))"
    "\<not> (c = chain \<and> operation = key \<and> order = uid) \<Longrightarrow>
      evidence_after outcome_moves chain key uid v (snd (run_call env c (RecordObservations operation order obs) v))"
    "evidence_after outcome_moves chain key uid v (snd (run_call env c (RecordFundings operation fundings) v))"
    "evidence_after outcome_moves chain key uid v (snd (run_call env c (RecordSettlement operation order ev) v))"
    "evidence_after outcome_moves chain key uid v (snd (run_call env c (RecordExecutedFee operation order fee token) v))"
    "evidence_after outcome_moves chain key uid v (snd (run_call env c (RecordBridgeOutcome operation order x) v))"
    "evidence_after outcome_moves chain key uid v (snd (run_call env c (RecordBridgeRefund operation order refund) v))"
proof -
  show "evidence_after outcome_moves chain key uid v (snd (plain (on_chain c (record_swap_attempt_at env v c operation t included) v)))"
    unfolding record_swap_attempt_at_def
  proof (rule update_evidence [OF ok])
    fix r r' assume accepted: "attempt_change env v c operation t included (v c) r = Inr r'"
    then have "r' = place_order t r" by (rule attempt_accepted)
    then show "continuing.evolves c r r' \<and> (c = chain \<and> operation = key \<longrightarrow> keeps_evidence outcome_moves uid r r')"
      using attempt_change_fine [OF ok vault_okD [OF ok, of c], of r env operation t included] accepted place_order_evidence
      by (simp add: continuing.change_fine_def)
  qed
  show "evidence_after outcome_moves chain key uid v (snd (run_call env c (RecordOrderSubmission operation order status) v))"
    unfolding run_call.simps record_swap_submission_def
    by (rule update_evidence [OF ok]) (simp add: submission_evolves submission_change_evidence)
  show "evidence_after outcome_moves chain key uid v (snd (run_call env c (RecordObservations operation order obs) v))"
    if "\<not> (c = chain \<and> operation = key \<and> order = uid)"
    unfolding run_call.simps record_swap_observations_def
  proof (rule update_evidence [OF ok])
    fix r r' assume changed: "observations_change order obs r = Inr r'"
    have "keeps_evidence outcome_moves uid r r'" if "order \<noteq> uid"
      using changed that by (auto simp: observations_change_def and_then_eq_Inr intro: other_order_evidence split: if_splits)
    then show "continuing.evolves c r r' \<and> (c = chain \<and> operation = key \<longrightarrow> keeps_evidence outcome_moves uid r r')"
      using harmless_evolves [OF observations_harmless changed] that by blast
  qed
  show "evidence_after outcome_moves chain key uid v (snd (run_call env c (RecordFundings operation fundings) v))"
    unfolding run_call.simps record_swap_fundings_def
    by (rule update_evidence [OF ok]) (blast intro: harmless_evolves [OF fundings_harmless] fundings_evidence)
  show "evidence_after outcome_moves chain key uid v (snd (run_call env c (RecordSettlement operation order ev) v))"
    unfolding run_call.simps record_swap_settlement_def
    by (rule update_evidence [OF ok]) (blast intro: harmless_evolves [OF settlement_harmless] settlement_evidence)
  have changed: "evidence_after outcome_moves chain key uid v (snd (plain (on_chain c (update_record env operation (\<lambda>_. change_order order f)) v)))"
    if "order_change_ok f" "evidence_change f" for f
    by (rule update_evidence [OF ok])
      (blast intro: harmless_evolves [OF change_order_harmless [OF that(1)]] change_order_evidence [OF that(2)])
  show "evidence_after outcome_moves chain key uid v (snd (run_call env c (RecordExecutedFee operation order fee token) v))"
    "evidence_after outcome_moves chain key uid v (snd (run_call env c (RecordBridgeOutcome operation order x) v))"
    "evidence_after outcome_moves chain key uid v (snd (run_call env c (RecordBridgeRefund operation order refund) v))"
    unfolding run_call.simps record_swap_executed_fee_def record_swap_bridge_outcome_def record_swap_bridge_refund_def
    by (rule changed; rule charge_fee_ok charge_evidence outcome_change_ok outcome_evidence refund_change_ok refund_evidence)+
qed

lemma step_evidence:
  assumes ok: "vault_ok v" and step: "executor_step v l v'" and kept: "\<not> observes chain key uid l"
  shows "evidence_after outcome_moves chain key uid v v'"
proof -
  obtain env c call where l: "l = (env, c, call)" "v' = snd (run_call env c call v)"
      "fresh_draws env v (new_operations call)"
    using step by (auto elim: executor_step.cases)
  show ?thesis
  proof (cases "quiet_call call")
    case True
    have "evidence.call_sound uid v call (run_call env c call v)" by (rule evidence.quiet_call_sound [OF ok l(3) True])
    then have "evidence_after (=) chain key uid v v'"
      unfolding l(2) evidence_after_def evidence.call_sound_def evidence.vault_keeps_def evidence.keeps_def by blast
    then show ?thesis unfolding evidence_after_def using keeps_evidence_mono [of "(=)" uid _ _ outcome_moves] by fastforce
  next
    case False
    then show ?thesis
      using kept unfolding l(2)
      by (cases call)
        (simp_all add: l(1) payload_calls_evidence [OF ok] issue_calls_evidence [OF ok] order_calls_evidence [OF ok]
          del: run_call.simps,
         simp_all add: order_calls_evidence [OF ok] record_swap_attempt_def record_swap_attempt_on_included_setup_def)
  qed
qed

text \<open>Over a run, the outcome takes one move after another.\<close>

lemma trace_evidence:
  assumes "trace executor_step v ls v'" "vault_ok v" "\<forall>l \<in> set ls. \<not> observes chain key uid l"
  shows "evidence_after outcome_moves\<^sup>*\<^sup>* chain key uid v v'"
  using assms
proof (induction rule: trace.induct)
  case (trace_Nil v)
  then show ?case by (auto simp: evidence_after_def intro: same_swap_evidence)
next
  case (trace_Cons v l t ls u)
  have "vault_ok t" using executor_machine.step_inv [OF trace_Cons.hyps(1) trace_Cons.prems(1)] .
  then have later: "evidence_after outcome_moves\<^sup>*\<^sup>* chain key uid t u" using trace_Cons.IH trace_Cons.prems(2) by simp
  have "evidence_after outcome_moves chain key uid v t"
    using step_evidence [OF trace_Cons.prems(1) trace_Cons.hyps(1)] trace_Cons.prems(2) by simp
  then have "evidence_after outcome_moves\<^sup>*\<^sup>* chain key uid v t"
    unfolding evidence_after_def using keeps_evidence_mono [of outcome_moves uid _ _ "outcome_moves\<^sup>*\<^sup>*"] by fastforce
  then show ?case using later unfolding evidence_after_def using keeps_evidence_rtranclp by meson
qed

lemma one_call_evidence:
  assumes "trace executor_step v ls v'" "length ls \<le> 1" "vault_ok v" "\<forall>l \<in> set ls. \<not> observes chain key uid l"
  shows "evidence_after outcome_moves chain key uid v v'"
  using assms(1)
proof cases
  case trace_Nil
  then show ?thesis using evidence_after_refl by simp
next
  case (trace_Cons l t ks)
  then have "ks = []" using assms(2) by simp
  then have "t = v'" using trace_Cons by (auto elim: trace.cases)
  then show ?thesis using step_evidence [OF assms(3)] trace_Cons assms(4) by simp
qed

text \<open>
  C13: What is recorded of an order stays recorded. Over any calls but the replacement of the order's own
  observations, it stays the same order, a recorded trade, hand-off to a bridge, verified refund and orderbook
  fee stay as they are, a delivered order stays delivered, an accepted submission stays accepted, and its
  pre-hook neither dies nor revives. One call changes a bridge's outcome only from one that needs attention,
  from a reported delivery to a verified one or a refund, or from an announced refund to the fill that was
  found; over any calls it takes such changes one after another.
\<close>

theorem recorded_evidence_kept:
  assumes "executor_reach v" "trace executor_step v ls v'"
    and "account (v chain) operation = Some r" "i < length (swap_orders_of r)"
    and "\<forall>l \<in> set ls. \<not> observes chain operation (so_uid (swap_orders_of r ! i)) l"
  shows "\<exists>s. account (v' chain) operation = Some s \<and> i < length (swap_orders_of s)
    \<and> evidence_goes_on outcome_moves\<^sup>*\<^sup>* (swap_orders_of r ! i) (swap_orders_of s ! i)
    \<and> (length ls \<le> 1 \<longrightarrow> evidence_goes_on outcome_moves (swap_orders_of r ! i) (swap_orders_of s ! i))"
proof -
  let ?uid = "so_uid (swap_orders_of r ! i)"
  have ok: "vault_ok v" by (rule executor_machine.reach_inv [OF assms(1)])
  obtain s where s: "account (v' chain) operation = Some s" "keeps_evidence outcome_moves\<^sup>*\<^sup>* ?uid r s"
    using trace_evidence [OF assms(2) ok assms(5)] assms(3) unfolding evidence_after_def by blast
  have one: "keeps_evidence outcome_moves ?uid r s" if "length ls \<le> 1"
    using one_call_evidence [OF assms(2) that ok assms(5)] assms(3) s(1) unfolding evidence_after_def by auto
  show ?thesis
    using assms(4) s(2) one unfolding keeps_evidence_def by (intro exI [of _ s] conjI impI s(1)) auto
qed

end
