(* ===== verification/SettlementProperties.thy ===== *)
theory SettlementProperties
  imports OrderEvidence
begin

text \<open>
  What a settlement writes, and a run of one account that places an order, replaces it by one with a lower
  buy amount, settles that one and places the next: the properties of orders are applied to its states.
\<close>

section \<open>Settlements\<close>

lemma replace_order_at:
  assumes "find (\<lambda>x. so_uid x = uid) xs = Some o1"
  obtains i where "i < length xs" "xs ! i = o1" "so_uid o1 = uid" "\<And>o2. replace_order uid o2 xs = xs[i := o2]"
proof -
  have "\<exists>i < length xs. xs ! i = o1 \<and> so_uid o1 = uid \<and> (\<forall>o2. replace_order uid o2 xs = xs[i := o2])"
    using assms
  proof (induction xs)
    case (Cons x xs)
    show ?case
    proof (cases "so_uid x = uid")
      case False
      then obtain i where "i < length xs" "xs ! i = o1" "so_uid o1 = uid" "\<forall>o2. replace_order uid o2 xs = xs[i := o2]"
        using Cons by auto
      then show ?thesis using False by (intro exI [of _ "Suc i"]) simp
    qed (use Cons.prems in auto)
  qed simp
  then show ?thesis using that by blast
qed

lemma changed_order_at:
  assumes "change_order uid f r = Inr r'"
  obtains i o2 where "i < length (swap_orders_of r)" "so_uid (swap_orders_of r ! i) = uid" "f (swap_orders_of r ! i) = Inr o2"
    "swap_orders_of r' = (swap_orders_of r)[i := o2]" "r' = r\<lparr>er_swap := er_swap r'\<rparr>"
proof -
  obtain o1 o2 where found: "find_order uid r = Some o1" "f o1 = Inr o2" "r' = put_order uid o2 r"
    using assms by (auto simp: change_order_def and_then_eq_Inr split: option.splits)
  obtain i where "i < length (swap_orders_of r)" "swap_orders_of r ! i = o1" "so_uid o1 = uid"
      "replace_order uid o2 (swap_orders_of r) = (swap_orders_of r)[i := o2]"
    using found(1) unfolding find_order_def by (rule replace_order_at) blast
  moreover have "swap_orders_of r' = replace_order uid o2 (swap_orders_of r)" "r' = r\<lparr>er_swap := er_swap r'\<rparr>"
    by (simp_all add: found(3) put_order_def swap_orders_of_def split: option.split)
  ultimately show ?thesis using found(2) that by simp
qed

text \<open>Whether a settlement shows that the order reached its recipient.\<close>

definition settles_delivery :: "settlement_evidence \<Rightarrow> swap_order \<Rightarrow> bool" where
  "settles_delivery ev o1 =
    (case so_delivery o1 of Reshield \<Rightarrow> ev_credit ev \<noteq> None | External _ \<Rightarrow> True | _ \<Rightarrow> ev_handoff ev \<noteq> None)"

lemma settled_parts:
  assumes "settle_order ev o1 = Inr o2"
  shows "oo_traded (so_observations o1) \<in> {None, Some (ev_traded ev)}"
    "\<forall>c. so_delivery o1 = Reshield \<longrightarrow> ev_credit ev = Some c \<longrightarrow>
      sb_observation c = ev_traded ev \<and> bo_private_minimum (so_bounds o1) \<le> sb_private_amount c"
    "\<forall>h. ev_handoff ev = Some h \<longrightarrow> bh_observation h = ev_traded ev \<and> oo_bridge_handoff (so_observations o1) \<in> {None, Some h}"
    "o2 = o1\<lparr>so_observations := (so_observations o1)\<lparr>oo_traded := Some (ev_traded ev),
        oo_trade_amounts := Some (kept_trade_amounts (so_observations o1) (ev_amounts ev)),
        oo_settlement_credit := or_else (ev_credit ev) (oo_settlement_credit (so_observations o1)),
        oo_bridge_handoff := or_else (ev_handoff ev) (oo_bridge_handoff (so_observations o1)),
        oo_delivered := (if settles_delivery ev o1 then Some (ev_traded ev) else oo_delivered (so_observations o1)),
        oo_undelivered := (if settles_delivery ev o1 then None else oo_undelivered (so_observations o1))\<rparr>\<rparr>"
  using assms
  by (auto simp: settle_order_def settlement_fits_def settles_delivery_def contradicts_def Let_def
    split: if_splits option.splits swap_delivery.splits)

text \<open>
  C20: A settlement is recorded as it is. If a settlement whose delivery is the traded order's own is recorded,
  that order has no other trade or hand-off recorded, its hand-off is the trade's, and a shielded order is
  credited at least its private minimum; the order becomes traded, with the amounts, credit and hand-off given,
  and delivered exactly when they show it, while every other order and the account's other fields stay.
\<close>

theorem settlement_recorded:
  assumes "executor_reach v" "account (v chain) operation = Some r" "ev_delivery ev = uid"
    and "record_swap_settlement env operation uid ev (v chain) = (Inr r', cs)"
  shows "\<exists>i o1 obs. i < length (swap_orders_of r) \<and> o1 = swap_orders_of r ! i \<and> obs = so_observations o1 \<and> so_uid o1 = uid
    \<and> oo_traded obs \<in> {None, Some (ev_traded ev)}
    \<and> (\<forall>c. so_delivery o1 = Reshield \<longrightarrow> ev_credit ev = Some c \<longrightarrow>
        sb_observation c = ev_traded ev \<and> bo_private_minimum (so_bounds o1) \<le> sb_private_amount c)
    \<and> (\<forall>h. ev_handoff ev = Some h \<longrightarrow> bh_observation h = ev_traded ev \<and> oo_bridge_handoff obs \<in> {None, Some h})
    \<and> swap_orders_of r' = (swap_orders_of r)[i := o1\<lparr>so_observations := obs\<lparr>oo_traded := Some (ev_traded ev),
        oo_trade_amounts := Some (kept_trade_amounts obs (ev_amounts ev)),
        oo_settlement_credit := or_else (ev_credit ev) (oo_settlement_credit obs),
        oo_bridge_handoff := or_else (ev_handoff ev) (oo_bridge_handoff obs),
        oo_delivered := (if settles_delivery ev o1 then Some (ev_traded ev) else oo_delivered obs),
        oo_undelivered := (if settles_delivery ev o1 then None else oo_undelivered obs)\<rparr>\<rparr>]
    \<and> r' = r\<lparr>er_version := er_version r', er_swap := er_swap r'\<rparr>"
proof -
  note ok = vault_okD [OF executor_machine.reach_inv [OF assms(1)], of chain]
  obtain r1 where r1: "change_order uid (settle_order ev) r = Inr r1" "r' = stored r1"
    using update_accepted [OF ok, of env operation "\<lambda>_ r. settlement_change uid ev r" r'] assms(2-4)
    by (auto simp: record_swap_settlement_def settlement_change_def)
  obtain i o2 where i: "i < length (swap_orders_of r)" "so_uid (swap_orders_of r ! i) = uid"
      "settle_order ev (swap_orders_of r ! i) = Inr o2" "swap_orders_of r1 = (swap_orders_of r)[i := o2]"
      "r1 = r\<lparr>er_swap := er_swap r1\<rparr>"
    using r1(1) by (rule changed_order_at)
  have "swap_orders_of r' = (swap_orders_of r)[i := o2]" using i(4) r1(2) by (simp add: swap_orders_of_def)
  moreover obtain swap where "r1 = r\<lparr>er_swap := swap\<rparr>" using i(5) by blast
  then have "r' = r\<lparr>er_version := er_version r', er_swap := er_swap r'\<rparr>" using r1(2) by (simp add: stored_def)
  ultimately show ?thesis
    unfolding settled_parts(4) [OF i(3)] using i(1,2) settled_parts(1-3) [OF i(3)] by blast
qed

section \<open>Settlements of two attempts\<close>

text \<open>
  An attempt that speeds up another signs the same deposit terms, so that the deposit of a settlement can
  carry the other attempt's terms. Then the trade is recorded on one order and the hand-off on the other, and
  each is found from the other.
\<close>

lemma find_unique_order:
  assumes "x \<in> set xs" "P x" "\<And>y. y \<in> set xs \<Longrightarrow> P y \<Longrightarrow> so_uid y = so_uid x" "distinct (map so_uid xs)"
  shows "find P xs = Some x"
  using assms by (intro find_unique) (auto simp: distinct_map dest: inj_onD)

lemma split_pair_found:
  assumes members: "t \<in> set (sw_orders sw)" "d \<in> set (sw_orders sw)" and dist: "distinct (map so_uid (sw_orders sw))"
    and use: "so_use_id t = Some use" "so_use_id d = Some use"
    and traded: "oo_traded (so_observations t) = Some x" "oo_delivered (so_observations t) = None"
    and handed_off: "oo_traded (so_observations d) = None" "oo_bridge_handoff (so_observations d) = Some handoff"
      "bh_observation handoff = x"
    and rest: "\<And>y. y \<in> set (sw_orders sw) \<Longrightarrow> so_use_id y = Some use \<Longrightarrow> y = t \<or> y = d
      \<or> oo_traded (so_observations y) \<noteq> Some x \<and> map_option bh_observation (oo_bridge_handoff (so_observations y)) \<noteq> Some x"
  shows "delivery_order sw t = Some d" "trade_order sw d = Some t"
proof -
  have "find (\<lambda>o1. so_use_id o1 = Some use \<and> oo_traded (so_observations o1) = None
      \<and> (case oo_bridge_handoff (so_observations o1) of None \<Rightarrow> False | Some h \<Rightarrow> bh_observation h = x)) (sw_orders sw) = Some d"
  proof (rule find_unique_order [OF members(2) _ _ dist])
    fix y assume "y \<in> set (sw_orders sw)" "so_use_id y = Some use \<and> oo_traded (so_observations y) = None
      \<and> (case oo_bridge_handoff (so_observations y) of None \<Rightarrow> False | Some h \<Rightarrow> bh_observation h = x)"
    then show "so_uid y = so_uid d" using rest [of y] traded by (auto split: option.splits)
  qed (use use handed_off in simp)
  then show "delivery_order sw t = Some d" using traded use by (simp add: delivery_order_def)
  have "find (\<lambda>o1. so_use_id o1 = Some use \<and> oo_traded (so_observations o1) = Some x
      \<and> oo_delivered (so_observations o1) = None) (sw_orders sw) = Some t"
  proof (rule find_unique_order [OF members(1) _ _ dist])
    fix y assume "y \<in> set (sw_orders sw)" "so_use_id y = Some use \<and> oo_traded (so_observations y) = Some x
      \<and> oo_delivered (so_observations y) = None"
    then show "so_uid y = so_uid t" using rest [of y] handed_off by auto
  qed (use use traded in simp)
  then show "trade_order sw d = Some t" using handed_off use by (simp add: trade_order_def)
qed

text \<open>Two orders with distinct identifiers are replaced, and the others stay.\<close>

lemma put_two_orders:
  assumes "find_order uid r = Some x" "find_order uid' r = Some y" "uid \<noteq> uid'" "distinct (map so_uid (swap_orders_of r))"
    and new: "so_uid t = uid" "so_uid d = uid'"
  obtains sw where "er_swap (put_order uid' d (put_order uid t r)) = Some sw"
    "map so_uid (sw_orders sw) = map so_uid (swap_orders_of r)" "t \<in> set (sw_orders sw)" "d \<in> set (sw_orders sw)"
    "\<And>z. z \<in> set (sw_orders sw) \<Longrightarrow> z = t \<or> z = d \<or> z \<in> set (swap_orders_of r) \<and> so_uid z \<notin> {uid, uid'}"
proof -
  obtain sw0 where sw0: "er_swap r = Some sw0"
    using assms(1) by (cases "er_swap r") (auto simp: find_order_def swap_orders_of_def)
  define sw where "sw = sw0\<lparr>sw_orders := replace_order uid' d (replace_order uid t (sw_orders sw0))\<rparr>"
  have orders: "swap_orders_of r = sw_orders sw0" by (simp add: swap_orders_of_def sw0)
  have uids: "so_uid x = uid" "so_uid y = uid'" using assms(1,2) by (auto simp: find_order_def find_Some_iff)
  obtain i where i: "i < length (sw_orders sw0)" "sw_orders sw0 ! i = x" "\<And>z. replace_order uid z (sw_orders sw0) = (sw_orders sw0)[i := z]"
    using assms(1) unfolding find_order_def orders by (rule replace_order_at) blast
  have "find_order uid' (put_order uid t r) = Some y"
    by (rule find_put_order [OF assms(3) [symmetric] assms(2) new(1)])
  then obtain j where j: "j < length (sw_orders sw0)" "(sw_orders sw0)[i := t] ! j = y"
      "\<And>z. replace_order uid' z ((sw_orders sw0)[i := t]) = (sw_orders sw0)[i := t, j := z]"
    using i(3) sw0 unfolding find_order_def
    by (elim replace_order_at) (simp_all add: put_order_def swap_orders_of_def)
  have other: "i \<noteq> j" using i j uids new assms(3) by auto
  have list: "sw_orders sw = (sw_orders sw0)[i := t, j := d]" by (simp add: sw_def i(3) j(3))
  show thesis
  proof (rule that [of sw])
    show "er_swap (put_order uid' d (put_order uid t r)) = Some sw" by (simp add: put_order_def sw0 sw_def)
    show "map so_uid (sw_orders sw) = map so_uid (swap_orders_of r)"
      using i j other uids new unfolding list orders by (auto simp: map_update intro!: nth_equalityI simp: nth_list_update)
    show "t \<in> set (sw_orders sw)" "d \<in> set (sw_orders sw)"
      using i(1) j(1) other unfolding list by (auto simp: in_set_conv_nth nth_list_update intro: exI [of _ i])
    fix z assume "z \<in> set (sw_orders sw)"
    then obtain k where k: "k < length (sw_orders sw0)" "z = (sw_orders sw0)[i := t, j := d] ! k"
      unfolding list by (auto simp: in_set_conv_nth)
    have apart: "k = a" if "so_uid (sw_orders sw0 ! k) = so_uid (sw_orders sw0 ! a)" "a < length (sw_orders sw0)" for a
      using that k(1) assms(4) nth_eq_iff_index_eq [of "map so_uid (sw_orders sw0)" k a] by (simp add: orders)
    show "z = t \<or> z = d \<or> z \<in> set (swap_orders_of r) \<and> so_uid z \<notin> {uid, uid'}"
    proof (cases "k = i \<or> k = j")
      case False
      moreover have "sw_orders sw0 ! j = y" using j(2) other by simp
      ultimately show ?thesis using k i(1,2) j(1) uids apart [of i] apart [of j] by (auto simp: orders)
    qed (use k i(1) j(1) other in auto)
  qed
qed

text \<open>
  C21: A split settlement pairs its two orders. If a settlement whose hand-off belongs to another attempt is
  recorded on an account whose orders are distinct, both are orders of one use with a public Across delivery;
  before it the traded one had no hand-off and no delivery of its own, and the other no trade; afterwards the
  traded one has the trade, and the other the hand-off and is delivered. Where moreover no other order of that
  use has this trade or this hand-off, the delivery of the traded order is the other one, whose trade is the
  traded order.
\<close>

theorem split_settlement_pairs:
  assumes "settlement_change uid ev r = Inr r'" "ev_delivery ev \<noteq> uid" "distinct (map so_uid (swap_orders_of r))"
  shows "\<exists>t0 d0 sw t d. find_order uid r = Some t0 \<and> find_order (ev_delivery ev) r = Some d0
    \<and> so_use_id t0 = so_use_id d0 \<and> so_use_id t0 \<noteq> None \<and> public_across t0 \<and> public_across d0
    \<and> oo_bridge_handoff (so_observations t0) = None \<and> oo_delivered (so_observations t0) = None
    \<and> oo_traded (so_observations d0) = None
    \<and> er_swap r' = Some sw \<and> map so_uid (sw_orders sw) = map so_uid (swap_orders_of r)
    \<and> t \<in> set (sw_orders sw) \<and> d \<in> set (sw_orders sw) \<and> so_uid t = uid \<and> so_uid d = ev_delivery ev
    \<and> so_use_id t = so_use_id t0 \<and> so_use_id d = so_use_id d0 \<and> public_across t \<and> public_across d
    \<and> oo_traded (so_observations t) = Some (ev_traded ev) \<and> oo_bridge_handoff (so_observations d) = ev_handoff ev
    \<and> oo_delivered (so_observations d) = Some (ev_traded ev)
    \<and> ((\<forall>o1 \<in> set (swap_orders_of r). so_use_id o1 = so_use_id t0 \<longrightarrow> so_uid o1 \<notin> {uid, ev_delivery ev} \<longrightarrow>
          oo_traded (so_observations o1) \<noteq> Some (ev_traded ev)
          \<and> map_option bh_observation (oo_bridge_handoff (so_observations o1)) \<noteq> Some (ev_traded ev))
      \<longrightarrow> delivery_order sw t = Some d \<and> trade_order sw d = Some t)"
proof -
  obtain t0 d0 handoff where
    found: "find_order uid r = Some t0" "find_order (ev_delivery ev) r = Some d0" "ev_handoff ev = Some handoff"
    and fits: "\<not> split_refused ev handoff t0 d0"
    and r': "r' = put_order (ev_delivery ev) (split_delivered ev handoff d0) (put_order uid (split_traded ev t0) r)"
    using assms(1,2) by (auto simp: settlement_change_def record_split_settlement_def split: option.splits if_splits)
  define t d where "t = split_traded ev t0" and "d = split_delivered ev handoff d0"
  have "so_uid t0 = uid" "so_uid d0 = ev_delivery ev" using found by (auto simp: find_order_def find_Some_iff)
  then have uids: "so_uid t = uid" "so_uid d = ev_delivery ev"
    by (simp_all add: t_def d_def split_traded_def split_delivered_def Let_def)
  obtain sw where sw: "er_swap r' = Some sw" "map so_uid (sw_orders sw) = map so_uid (swap_orders_of r)"
      "t \<in> set (sw_orders sw)" "d \<in> set (sw_orders sw)"
      "\<And>z. z \<in> set (sw_orders sw) \<Longrightarrow> z = t \<or> z = d \<or> z \<in> set (swap_orders_of r) \<and> so_uid z \<notin> {uid, ev_delivery ev}"
    unfolding r' t_def [symmetric] d_def [symmetric]
    by (rule put_two_orders [OF found(1,2) assms(2) [symmetric] assms(3) uids]) blast
  have before: "so_use_id t0 = so_use_id d0" "so_use_id t0 \<noteq> None" "public_across t0" "public_across d0"
      "oo_bridge_handoff (so_observations t0) = None" "oo_delivered (so_observations t0) = None"
      "oo_traded (so_observations d0) = None" "bh_observation handoff = ev_traded ev"
    using fits by (simp_all add: split_refused_def)
  then obtain use where use: "so_use_id t0 = Some use" by auto
  have t: "so_use_id t = so_use_id t0" "public_across t" "oo_traded (so_observations t) = Some (ev_traded ev)"
      "oo_delivered (so_observations t) = None"
    using before by (simp_all add: t_def split_traded_def Let_def public_across_def)
  have d: "so_use_id d = so_use_id d0" "public_across d" "oo_traded (so_observations d) = None"
      "oo_bridge_handoff (so_observations d) = Some handoff" "oo_delivered (so_observations d) = Some (ev_traded ev)"
    using before by (simp_all add: d_def split_delivered_def Let_def public_across_def)
  have "delivery_order sw t = Some d \<and> trade_order sw d = Some t"
    if alone: "\<forall>o1 \<in> set (swap_orders_of r). so_use_id o1 = so_use_id t0 \<longrightarrow> so_uid o1 \<notin> {uid, ev_delivery ev} \<longrightarrow>
      oo_traded (so_observations o1) \<noteq> Some (ev_traded ev)
      \<and> map_option bh_observation (oo_bridge_handoff (so_observations o1)) \<noteq> Some (ev_traded ev)"
  proof -
    have uses: "so_use_id t = Some use" "so_use_id d = Some use" using use before(1) t(1) d(1) by simp_all
    have dist: "distinct (map so_uid (sw_orders sw))" using assms(3) sw(2) by simp
    have others: "y = t \<or> y = d \<or> oo_traded (so_observations y) \<noteq> Some (ev_traded ev)
        \<and> map_option bh_observation (oo_bridge_handoff (so_observations y)) \<noteq> Some (ev_traded ev)"
      if "y \<in> set (sw_orders sw)" "so_use_id y = Some use" for y
      using sw(5) [OF that(1)] that(2) use alone by auto
    show ?thesis using split_pair_found [OF sw(3,4) dist uses t(3,4) d(3,4) before(8) others] by blast
  qed
  then show ?thesis using found before(1-7) sw(1-4) uids t(1-3) d(1,2,4,5) by metis
qed

section \<open>A run of orders\<close>

text \<open>The calls of the run. The account reads its nonce before the setup, after it and after the hooks.\<close>

definition read_at :: "u64 \<Rightarrow> u256 \<Rightarrow> nonce_observation" where
  "read_at block nonce = \<lparr>no_block = \<lparr>bn_number = block, bn_hash = 8\<rparr>, no_nonce = nonce\<rparr>"

definition hook_payload :: "payload_purpose \<Rightarrow> u256 \<Rightarrow> b256 \<Rightarrow> nonce_observation \<Rightarrow> input_identity list \<Rightarrow> issued_payload" where
  "hook_payload purpose nonce h observed inputs = \<lparr>ip_nonce = nonce, ip_delegate = 11, ip_hash = h, ip_purpose = purpose,
    ip_transaction_hashes = [], ip_context = \<lparr>px_calldata = [1], px_observed = observed, px_inputs = inputs\<rparr>, ip_inclusion = None\<rparr>"

definition note_input :: input_identity where
  "note_input = \<lparr>ei_tree = 0, ei_position = 5, ei_commitment = 6\<rparr>"

definition plain_attempt :: "u32 \<Rightarrow> u256 \<Rightarrow> nonce_observation \<Rightarrow> u256 \<Rightarrow> order_uid option \<Rightarrow> swap_attempt" where
  "plain_attempt n nonce observed buy replaced =
    \<lparr>tt_use_id = 7,
     tt_terms = \<lparr>st_sell_token = 51, st_buy_token = 52,
       st_recipient = \<lparr>rc_master_public_key = 1, rc_viewing_public_key = 2\<rparr>, st_setup_payload = 21\<rparr>,
     tt_proof = \<lparr>pf_digest = ucast nonce, pf_inputs = [note_input]\<rparr>,
     tt_uid = 12 * 2 ^ 32 + ucast n, tt_submission = None, tt_delivery = Reshield,
     tt_bounds = plain_bounds\<lparr>bo_buy_amount := buy\<rparr>, tt_invalidates = replaced,
     tt_pre_hook = hook_payload SwapPreHook nonce (31 + 2 * ucast n) observed [note_input],
     tt_post_hook = Some (hook_payload SwapPostHook (nonce + 1) (32 + 2 * ucast n) observed []),
     tt_bridge = None, tt_speed_up = replaced\<rparr>"

definition first_order :: order_uid where
  "first_order = 12 * 2 ^ 32"

definition second_order :: order_uid where
  "second_order = 12 * 2 ^ 32 + 1"

definition first_attempt :: swap_attempt where
  "first_attempt = plain_attempt 0 1 (read_at 9 1) 50 None"

definition faster_attempt :: swap_attempt where
  "faster_attempt = plain_attempt 1 1 (read_at 9 1) 45 (Some first_order)"

definition next_attempt :: swap_attempt where
  "next_attempt = plain_attempt 2 3 (read_at 15 3) 50 None"

definition plain_trade :: settlement_evidence where
  "plain_trade =
    (let trade = \<lparr>ob_block = \<lparr>bn_number = 12, bn_hash = 13\<rparr>, ob_transaction_hash = Some 14\<rparr> in
     \<lparr>ev_traded = trade,
      ev_amounts = \<lparr>tm_sell_amount = 100, tm_buy_amount = 46, tm_fee_amount = 0, tm_gas_used = None, tm_gas_price = None,
        tm_executed_fee = None, tm_executed_fee_token = None\<rparr>,
      ev_credit = Some \<lparr>sb_observation = trade, sb_private_amount = 44, sb_fee = None\<rparr>, ev_handoff = None,
      ev_delivery = second_order\<rparr>)"

definition better_approval :: swap_approval where
  "better_approval = plain_approval\<lparr>sa_bounds := plain_bounds\<lparr>bo_slippage_bps := 30\<rparr>\<rparr>"

definition order_calls :: "executor_call list" where
  "order_calls = [ReserveSwap 7 11 None [] (Some plain_approval) None, BindAddress 7 12,
    RecordAccountRead 7 (read_at 7 0), RecordIssued 7 (hook_payload OperationPayload 0 21 (read_at 7 0) []),
    RecordApproval 7 7 better_approval, RecordAccountRead 7 (read_at 9 1), RecordAttempt 7 first_attempt,
    RecordAttempt 7 faster_attempt, RecordSettlement 7 second_order plain_trade, RecordAccountRead 7 (read_at 15 3),
    RecordAttempt 7 next_attempt]"

definition order_vault :: "nat \<Rightarrow> vault" where
  "order_vault n = run_calls (take n order_calls) empty_vault"

lemma run_calls_append: "run_calls (xs @ ys) v = run_calls ys (run_calls xs v)"
  by (induction xs arbitrary: v) simp_all

lemma order_vault_Suc:
  "n < length order_calls \<Longrightarrow> order_vault (Suc n) = snd (run_call open_env 1 (order_calls ! n) (order_vault n))"
  by (simp add: order_vault_def take_Suc_conv_app_nth run_calls_append)

lemma order_reach: "executor_reach (order_vault n)"
  unfolding order_vault_def by (rule run_calls_reach [OF reach_empty])

lemmas order_store = vault_okD [OF executor_machine.reach_inv [OF order_reach], of 1]

lemma update_call:
  assumes reached: "executor_reach v" and r: "account (v 1) key = Some r" and changed: "change (v 1) r = Inr s"
    and body: "continuing.evolves 1 r s"
    and call: "run_call open_env 1 call v = plain (on_chain 1 (update_record open_env key change) v)"
  shows "account (snd (run_call open_env 1 call v) 1) = (account (v 1))(key \<mapsto> stored s)"
proof -
  have vault: "vault_ok v" by (rule executor_machine.reach_inv [OF reached])
  have "body_ok 1 (stored s)" "er_operation (stored s) = key"
    using body vault_account [OF vault r] by (auto simp: continuing_evolves continues_def)
  then have "account (put_row (OperationRow key (stored s)) (v 1)) = (account (v 1))(key \<mapsto> stored s)"
    using account_put [of 1 "stored s" key "v 1"] by (simp add: stored_def)
  then show ?thesis
    using update_step [of v key r change s] vault_okD [OF vault] r changed unfolding call by simp
qed

text \<open>The accounts that the calls leave.\<close>

definition swap_account :: executor_record where
  "swap_account =
    (fresh_account 7 0 11)\<lparr>er_version := VERSION,
      er_swap_uses := [\<lparr>su_id = 7, su_started_at = Some 5, su_fresh = True, su_stopped = False,
        su_role = Source (Some plain_approval) None, su_stopped_before_order = False\<rparr>],
      er_active_swap_use := Some 7\<rparr>"

lemma swap_reserved: "account (order_vault 1 1) = [7 \<mapsto> swap_account]"
proof -
  have empty: "account (order_vault 0 1) = Map.empty" "al_spare (current_allocation (order_vault 0 1)) = None"
    "ordinary_index (al_next_index (current_allocation (order_vault 0 1))) = Inr 0"
    by (simp_all add: order_vault_def empty_vault_def account_def current_allocation_def default_allocation_def
      ordinary_index_def POSITION_START_def INDEX_LIMIT_def fun_eq_iff)
  have body: "body_ok 1 swap_account" "er_operation swap_account = 7"
    by (simp_all add: swap_account_def fresh_account_def body_ok_def blank_record_def swap_identified_def swap_ok_def
      issued_hooks_def role_ok_def INDEX_LIMIT_def)
  have "order_vault 1 1 = put_row (OperationRow 7 swap_account)
      (put_row (AllocationRow (current_allocation (order_vault 0 1)\<lparr>al_next_index := 1\<rparr>)) (order_vault 0 1))"
    unfolding One_nat_def order_vault_Suc [of 0, simplified order_calls_def, simplified]
    using empty(2,3)
    by (simp add: order_calls_def plain_def on_chain_def reserve_with_swap_approval_def reserve_record_def guarded_def
      record_of_ok [OF order_store] empty(1) allocate_record_def load_allocation_ok [OF order_store] bind_outcome_def
      displace_spare_def first_use_of_def Let_def swap_account_def fresh_account_def blank_record_def format_version_def
      begin_first_swap_use_def LEGACY_VERSION_def VERSION_def)
  moreover have "stored swap_account = swap_account" by (simp add: swap_account_def stored_def format_version_def)
  ultimately show ?thesis using account_put [OF body] empty(1) by simp
qed

definition setup_payload :: issued_payload where
  "setup_payload = hook_payload OperationPayload 0 21 (read_at 7 0) []"

definition read_swap_account :: executor_record where
  "read_swap_account = swap_account\<lparr>er_address := Some 12, er_nonce_observation := Some (read_at 7 0),
    er_nonce_watermark := Some (watermark_of (read_at 7 0))\<rparr>"

definition set_up_account :: executor_record where
  "set_up_account = read_swap_account\<lparr>er_issued := [setup_payload]\<rparr>"

definition approved_account :: executor_record where
  "approved_account = set_up_account\<lparr>er_swap_uses :=
    map (\<lambda>u. u\<lparr>su_role := Source (Some better_approval) None\<rparr>) (er_swap_uses set_up_account)\<rparr>"

definition ready_account :: executor_record where
  "ready_account = apply_account_read (read_at 9 1) approved_account"

definition ordered_account :: executor_record where
  "ordered_account = place_order first_attempt ready_account"

definition sped_up_account :: executor_record where
  "sped_up_account = place_order faster_attempt ordered_account"

lemmas account_defs = approved_account_def set_up_account_def read_swap_account_def swap_account_def fresh_account_def blank_record_def

lemma order_calls_at:
  "order_vault 2 = snd (run_call open_env 1 (BindAddress 7 12) (order_vault 1))"
  "order_vault 3 = snd (run_call open_env 1 (RecordAccountRead 7 (read_at 7 0)) (order_vault 2))"
  "order_vault 4 = snd (run_call open_env 1 (RecordIssued 7 setup_payload) (order_vault 3))"
  "order_vault 5 = snd (run_call open_env 1 (RecordApproval 7 7 better_approval) (order_vault 4))"
  "order_vault 6 = snd (run_call open_env 1 (RecordAccountRead 7 (read_at 9 1)) (order_vault 5))"
  "order_vault 7 = snd (run_call open_env 1 (RecordAttempt 7 first_attempt) (order_vault 6))"
  "order_vault 8 = snd (run_call open_env 1 (RecordAttempt 7 faster_attempt) (order_vault 7))"
  "order_vault 9 = snd (run_call open_env 1 (RecordSettlement 7 second_order plain_trade) (order_vault 8))"
  "order_vault 10 = snd (run_call open_env 1 (RecordAccountRead 7 (read_at 15 3)) (order_vault 9))"
  "order_vault 11 = snd (run_call open_env 1 (RecordAttempt 7 next_attempt) (order_vault 10))"
  by (simp_all add: order_vault_def order_calls_def setup_payload_def del: run_call.simps)

lemma read_step:
  assumes "executor_reach v" "account (v 1) key = Some r"
  shows "account (snd (run_call open_env 1 (RecordAccountRead key observed) v) 1) =
    (account (v 1))(key \<mapsto> stored (apply_account_read observed r))"
  by (rule update_call [OF assms, of "\<lambda>_ r. Inr (apply_account_read observed r)"]) (simp_all add: record_account_read_def)

lemma bind_step:
  assumes "executor_reach v" "account (v 1) key = Some r" "er_address r = None"
  shows "account (snd (run_call open_env 1 (BindAddress key address) v) 1) =
    (account (v 1))(key \<mapsto> stored (r\<lparr>er_address := Some address\<rparr>))"
  by (rule update_call [OF assms(1,2), of "\<lambda>_ r. if er_address r \<notin> {None, Some address} then Inl OperationMismatch
      else Inr (r\<lparr>er_address := Some address\<rparr>)"])
    (simp_all add: assms(3) bind_address_def continuing_evolves record_fields)

lemma only_account:
  assumes "store_ok 1 cs" "account cs = [key \<mapsto> r]" "er_operation r = key" "records cs = Inr rs"
  shows "\<not> reserved_elsewhere key inputs rs"
proof -
  obtain rs' where "records cs = Inr rs'" "\<And>r. r \<in> set rs' \<longleftrightarrow> account cs (er_operation r) = Some r"
    by (rule records_ok [OF assms(1)]) blast
  then show ?thesis using assms by (auto simp: reserved_elsewhere_def list_ex_iff)
qed

lemma issue_step:
  assumes reached: "executor_reach v" and r: "account (v 1) key = Some r"
    and issued: "issue_payload v key Unchecked p (v 1) r = Inr s"
  shows "account (snd (run_call open_env 1 (RecordIssued key p) v) 1) = (account (v 1))(key \<mapsto> stored s)"
proof (rule update_call [OF reached r, of "issue_payload v key Unchecked p"])
  have vault: "vault_ok v" by (rule executor_machine.reach_inv [OF reached])
  show "continuing.evolves 1 r s"
    using issue_payload_fine [OF vault vault_okD [OF vault], of 1 r key Unchecked p] issued
    by (simp add: continuing.change_fine_def)
qed (simp_all add: issued record_issued_def record_issued_for_def)

lemma approval_step:
  assumes "executor_reach v" "account (v 1) key = Some r" "approval_change use approval r = Inr s"
  shows "account (snd (run_call open_env 1 (RecordApproval key use approval) v) 1) = (account (v 1))(key \<mapsto> stored s)"
  by (rule update_call [OF assms(1,2), of "\<lambda>_. approval_change use approval"])
    (simp_all add: assms(3) continuing.approval_evolves [OF assms(3)] record_swap_approval_def)

lemma attempt_step:
  assumes reached: "executor_reach v" and r: "account (v 1) key = Some r"
    and attempted: "attempt_change open_env v 1 key t None (v 1) r = Inr s"
  shows "account (snd (run_call open_env 1 (RecordAttempt key t) v) 1) = (account (v 1))(key \<mapsto> stored s)"
proof (rule update_call [OF reached r, of "attempt_change open_env v 1 key t None"])
  have vault: "vault_ok v" by (rule executor_machine.reach_inv [OF reached])
  show "continuing.evolves 1 r s"
    using attempt_change_fine [OF vault vault_okD [OF vault], of 1 r open_env key t None] attempted
    by (simp add: continuing.change_fine_def)
qed (simp_all add: attempted record_swap_attempt_def record_swap_attempt_at_def)

lemma settlement_step:
  assumes "executor_reach v" "account (v 1) key = Some r" "settlement_change uid ev r = Inr s"
  shows "account (snd (run_call open_env 1 (RecordSettlement key uid ev) v) 1) = (account (v 1))(key \<mapsto> stored s)"
  by (rule update_call [OF assms(1,2), of "\<lambda>_. settlement_change uid ev"])
    (simp_all add: assms(3) harmless_evolves [OF settlement_harmless assms(3)] record_swap_settlement_def)

text \<open>The account up to its approval.\<close>

lemma swap_account_fields [simp]:
  "er_address swap_account = None" "er_operation swap_account = 7" "er_index swap_account = 0" "er_delegate swap_account = 11"
  "er_issued swap_account = []" "er_swap swap_account = None" "\<not> er_retired swap_account" "er_assets swap_account = []"
  "er_public_account_uuid swap_account = None" "er_active_swap_use swap_account = Some 7"
  "er_swap_uses swap_account = [\<lparr>su_id = 7, su_started_at = Some 5, su_fresh = True, su_stopped = False,
        su_role = Source (Some plain_approval) None, su_stopped_before_order = False\<rparr>]"
  "\<not> er_swap_setup_stopped swap_account" "er_nonce_observation swap_account = None" "er_nonce_watermark swap_account = None"
  "er_settled_nonce swap_account = None" "er_released_payloads swap_account = []" "er_version swap_account = VERSION"
  by (simp_all add: swap_account_def fresh_account_def blank_record_def)

lemma approved_run:
  "account (order_vault 3 1) = [7 \<mapsto> read_swap_account]"
  "account (order_vault 4 1) = [7 \<mapsto> set_up_account]"
  "approval_change 7 better_approval set_up_account = Inr approved_account"
  "account (order_vault 5 1) = [7 \<mapsto> approved_account]"
  "account (order_vault 6 1) = [7 \<mapsto> ready_account]"
proof -
  have "account (order_vault 2 1) = [7 \<mapsto> stored (swap_account\<lparr>er_address := Some 12\<rparr>)]"
    unfolding order_calls_at(1) by (subst bind_step [OF order_reach, where r = swap_account]) (simp_all add: swap_reserved [unfolded One_nat_def] del: run_call.simps)
  moreover have "stored (apply_account_read (read_at 7 0) (stored (swap_account\<lparr>er_address := Some 12\<rparr>))) = read_swap_account"
    by (simp add: apply_account_read_def recorded_block_def watermark_def set_nonce_watermark_def stored_def format_version_def
      read_swap_account_def)
  ultimately show three: "account (order_vault 3 1) = [7 \<mapsto> read_swap_account]"
    unfolding order_calls_at(2) by (subst read_step [OF order_reach, where r = "stored (swap_account\<lparr>er_address := Some 12\<rparr>)"]) (simp_all del: run_call.simps)
  obtain rs where rs: "records (order_vault 3 1) = Inr rs" by (rule records_ok [OF order_store]) blast
  have "\<not> reserved_elsewhere 7 inputs rs" for inputs
    by (rule only_account [OF order_store three _ rs]) (simp add: read_swap_account_def)
  then have issued: "issue_payload (order_vault 3) 7 Unchecked setup_payload (order_vault 3 1) read_swap_account = Inr set_up_account"
    by (simp add: issue_payload_def rs purpose_refused_def setup_closed_def active_use_def nonce_refused_def add_payload_def
      record_shield_def shares_input_def swap_reserved_inputs_def set_up_account_def read_swap_account_def setup_payload_def
      hook_payload_def read_at_def swap_use_def)
  have kept: "stored set_up_account = set_up_account"
    by (simp add: stored_def format_version_def set_up_account_def read_swap_account_def)
  show four: "account (order_vault 4 1) = [7 \<mapsto> set_up_account]"
    unfolding order_calls_at(3) by (subst issue_step [OF order_reach, where r = read_swap_account and s = set_up_account]) (simp_all add: three kept issued del: run_call.simps)
  show approval: "approval_change 7 better_approval set_up_account = Inr approved_account"
    by (simp add: approval_change_def approved_account_def set_up_account_def read_swap_account_def Let_def has_swap_use_order_def
      swap_use_orders_def swap_orders_of_def)
  have "stored approved_account = approved_account"
    by (simp add: stored_def format_version_def approved_account_def set_up_account_def read_swap_account_def)
  then show five: "account (order_vault 5 1) = [7 \<mapsto> approved_account]"
    unfolding order_calls_at(4) by (subst approval_step [OF order_reach, where r = set_up_account and s = approved_account]) (simp_all add: four approval del: run_call.simps)
  have "stored ready_account = ready_account"
    by (simp add: stored_def ready_account_def format_version_def apply_account_read_def recorded_block_def watermark_def
      set_nonce_watermark_def approved_account_def set_up_account_def read_swap_account_def read_at_def)
  then show "account (order_vault 6 1) = [7 \<mapsto> ready_account]"
    unfolding order_calls_at(5) by (subst read_step [OF order_reach, where r = approved_account]) (simp_all add: five ready_account_def del: run_call.simps)
qed

text \<open>The orders.\<close>

lemma ready_account_fields [simp]:
  "er_address ready_account = Some 12" "er_operation ready_account = 7" "er_index ready_account = 0" "er_delegate ready_account = 11"
  "er_issued ready_account = [setup_payload]" "er_swap ready_account = None" "\<not> er_retired ready_account" "er_assets ready_account = []"
  "er_public_account_uuid ready_account = None" "er_active_swap_use ready_account = Some 7"
  "er_swap_uses ready_account = [\<lparr>su_id = 7, su_started_at = Some 5, su_fresh = True, su_stopped = False,
        su_role = Source (Some better_approval) None, su_stopped_before_order = False\<rparr>]"
  "\<not> er_swap_setup_stopped ready_account" "er_nonce_observation ready_account = Some (read_at 9 1)"
  "er_nonce_watermark ready_account = Some (watermark_of (read_at 9 1))"
  "er_settled_nonce ready_account = None" "er_released_payloads ready_account = []" "er_version ready_account = VERSION"
  by (simp_all add: ready_account_def apply_account_read_def recorded_block_def watermark_def
      set_nonce_watermark_def approved_account_def set_up_account_def read_swap_account_def read_at_def watermark_of_def)

lemma ordered_account_fields [simp]:
  "er_address ordered_account = Some 12" "er_operation ordered_account = 7" "er_delegate ordered_account = 11"
  "\<not> er_retired ordered_account" "er_public_account_uuid ordered_account = None" "er_active_swap_use ordered_account = Some 7"
  "er_swap_uses ordered_account = er_swap_uses ready_account" "er_issued ordered_account = [setup_payload, tt_pre_hook first_attempt, the (tt_post_hook first_attempt)]"
  "er_swap ordered_account = Some \<lparr>sw_terms = tt_terms first_attempt, sw_proof = tt_proof first_attempt,
    sw_orders = [attempt_order first_attempt []], sw_fundings = []\<rparr>"
  "\<not> er_swap_setup_stopped ordered_account" "er_nonce_observation ordered_account = Some (read_at 9 1)"
  "er_nonce_watermark ordered_account = Some (watermark_of (read_at 9 1))"
  "er_settled_nonce ordered_account = None" "er_released_payloads ordered_account = []" "er_version ordered_account = VERSION"
  by (simp_all add: ordered_account_def place_order_def Let_def swap_orders_of_def first_attempt_def plain_attempt_def del: ready_account_fields(11))

lemmas attempt_defs = attempt_change_def attempt_use_def attempt_destination_def attempt_misfits_def post_hook_misfits_def
  issued_hash_def bridge_terms_fit_def has_post_hook_def swap_use_keeps_terms_def attempt_order_refusal_def setup_spends_def
  attempt_nonce_refused_def setup_admitted_def nonce_resolved_def watermark_def watermark_of_def shares_input_def private_bridge_def checked_add_def

lemma first_placed:
  "attempt_change open_env (order_vault 6) 1 7 first_attempt None (order_vault 6 1) ready_account = Inr ordered_account"
  "account (order_vault 7 1) = [7 \<mapsto> ordered_account]"
proof -
  obtain rs where rs: "records (order_vault 6 1) = Inr rs" by (rule records_ok [OF order_store]) blast
  have "\<not> reserved_elsewhere 7 inputs rs" for inputs
    by (rule only_account [OF order_store approved_run(5) _ rs]) simp
  then show placed: "attempt_change open_env (order_vault 6) 1 7 first_attempt None (order_vault 6 1) ready_account = Inr ordered_account"
    by (simp add: attempt_defs rs swap_orders_of_def first_attempt_def plain_attempt_def hook_payload_def setup_payload_def
      read_at_def open_env_def ordered_account_def Let_def)
  have kept: "stored ordered_account = ordered_account"
    by (simp add: stored_def ordered_account_def place_order_def Let_def format_version_def)
  show "account (order_vault 7 1) = [7 \<mapsto> ordered_account]"
    unfolding order_calls_at(6)
    by (subst attempt_step [OF order_reach, where r = ready_account and s = ordered_account]) (simp_all add: approved_run(5) placed kept del: run_call.simps)
qed

lemma second_placed:
  "attempt_change open_env (order_vault 7) 1 7 faster_attempt None (order_vault 7 1) ordered_account = Inr sped_up_account"
  "account (order_vault 8 1) = [7 \<mapsto> sped_up_account]"
proof -
  obtain rs where rs: "records (order_vault 7 1) = Inr rs" by (rule records_ok [OF order_store]) blast
  have "\<not> reserved_elsewhere 7 inputs rs" for inputs
    by (rule only_account [OF order_store first_placed(2) _ rs]) simp
  then show placed: "attempt_change open_env (order_vault 7) 1 7 faster_attempt None (order_vault 7 1) ordered_account = Inr sped_up_account"
    by (simp add: attempt_defs rs swap_orders_of_def first_attempt_def faster_attempt_def plain_attempt_def hook_payload_def
      setup_payload_def first_order_def swap_use_orders_def order_terms_def
      attempt_order_def speeds_up_def admits_speed_up_def refuse_speed_up_def competes_def spend_amount_def hook_of_def
      read_at_def open_env_def sped_up_account_def Let_def plain_bounds_def)
  have kept: "stored sped_up_account = sped_up_account"
    by (simp add: stored_def sped_up_account_def place_order_def Let_def format_version_def)
  show "account (order_vault 8 1) = [7 \<mapsto> sped_up_account]"
    unfolding order_calls_at(7)
    by (subst attempt_step [OF order_reach, where r = ordered_account and s = sped_up_account]) (simp_all add: first_placed(2) placed kept del: run_call.simps)
qed

lemma sped_up_account_fields [simp]:
  "er_address sped_up_account = Some 12" "er_operation sped_up_account = 7" "er_delegate sped_up_account = 11"
  "\<not> er_retired sped_up_account" "er_public_account_uuid sped_up_account = None" "er_active_swap_use sped_up_account = Some 7"
  "er_swap_uses sped_up_account = er_swap_uses ready_account"
  "er_issued sped_up_account = [setup_payload, tt_pre_hook first_attempt, the (tt_post_hook first_attempt),
    tt_pre_hook faster_attempt, the (tt_post_hook faster_attempt)]"
  "er_swap sped_up_account = Some \<lparr>sw_terms = tt_terms first_attempt, sw_proof = tt_proof faster_attempt,
    sw_orders = [attempt_order first_attempt [], attempt_order faster_attempt [attempt_order first_attempt []]], sw_fundings = []\<rparr>"
  "\<not> er_swap_setup_stopped sped_up_account" "er_nonce_observation sped_up_account = Some (read_at 9 1)"
  "er_nonce_watermark sped_up_account = Some (watermark_of (read_at 9 1))"
  "er_settled_nonce sped_up_account = None" "er_released_payloads sped_up_account = []" "er_version sped_up_account = VERSION"
  by (simp_all add: sped_up_account_def place_order_def Let_def swap_orders_of_def faster_attempt_def plain_attempt_def
    del: ready_account_fields(11))

lemma attempt_fields [simp]:
  "tt_delivery first_attempt = Reshield" "tt_delivery faster_attempt = Reshield"
  "tt_use_id first_attempt = 7" "tt_use_id faster_attempt = 7"
  by (simp_all add: first_attempt_def faster_attempt_def plain_attempt_def)

definition settled_order :: swap_order where
  "settled_order = (attempt_order faster_attempt [attempt_order first_attempt []])\<lparr>so_observations :=
    unobserved\<lparr>oo_traded := Some (ev_traded plain_trade), oo_trade_amounts := Some (ev_amounts plain_trade),
      oo_settlement_credit := ev_credit plain_trade, oo_delivered := Some (ev_traded plain_trade)\<rparr>\<rparr>"

definition settled_account :: executor_record where
  "settled_account = put_order second_order settled_order sped_up_account"

definition later_account :: executor_record where
  "later_account = apply_account_read (read_at 15 3) settled_account"

lemma order_uids [simp]:
  "tt_uid first_attempt = first_order" "tt_uid faster_attempt = second_order"
  "first_order \<noteq> second_order" "second_order \<noteq> first_order"
  by (simp_all add: attempt_order_def first_attempt_def faster_attempt_def plain_attempt_def first_order_def second_order_def)

lemma settled_run:
  "settlement_change second_order plain_trade sped_up_account = Inr settled_account"
  "account (order_vault 9 1) = [7 \<mapsto> settled_account]"
  "account (order_vault 10 1) = [7 \<mapsto> later_account]"
proof -
  have "ev_delivery plain_trade = second_order" by (simp add: plain_trade_def Let_def)
  moreover have "settle_order plain_trade (attempt_order faster_attempt [attempt_order first_attempt []]) = Inr settled_order"
    by (simp add: settle_order_def settlement_fits_def plain_trade_def attempt_order_def faster_attempt_def plain_attempt_def
      unobserved_def contradicts_def settled_order_def kept_trade_amounts_def plain_bounds_def Let_def)
  ultimately show settled: "settlement_change second_order plain_trade sped_up_account = Inr settled_account"
    by (simp add: settlement_change_def change_order_def find_order_def swap_orders_of_def settled_account_def)
  have "stored settled_account = settled_account" "stored later_account = later_account"
    by (simp_all add: stored_def settled_account_def put_order_def format_version_def later_account_def
      apply_account_read_def recorded_block_def watermark_def set_nonce_watermark_def read_at_def watermark_of_def)
  note kept = this
  show nine: "account (order_vault 9 1) = [7 \<mapsto> settled_account]"
    unfolding order_calls_at(8)
    by (subst settlement_step [OF order_reach, where r = sped_up_account and s = settled_account])
      (simp_all add: second_placed(2) settled kept del: run_call.simps)
  then show "account (order_vault 10 1) = [7 \<mapsto> later_account]"
    unfolding order_calls_at(9)
    by (subst read_step [OF order_reach, where r = settled_account])
      (simp_all add: kept later_account_def [symmetric] del: run_call.simps)
qed

definition next_account :: executor_record where
  "next_account = place_order next_attempt later_account"

lemma later_account_fields [simp]:
  "er_address later_account = Some 12" "er_operation later_account = 7" "er_delegate later_account = 11"
  "\<not> er_retired later_account" "er_public_account_uuid later_account = None" "er_active_swap_use later_account = Some 7"
  "er_swap_uses later_account = er_swap_uses ready_account" "er_issued later_account = er_issued sped_up_account"
  "er_swap later_account = Some \<lparr>sw_terms = tt_terms first_attempt, sw_proof = tt_proof faster_attempt,
    sw_orders = [attempt_order first_attempt [], settled_order], sw_fundings = []\<rparr>"
  "\<not> er_swap_setup_stopped later_account" "er_nonce_observation later_account = Some (read_at 15 3)"
  "er_nonce_watermark later_account = Some (watermark_of (read_at 15 3))"
  "er_settled_nonce later_account = None" "er_released_payloads later_account = []" "er_version later_account = VERSION"
  by (simp_all add: later_account_def settled_account_def put_order_def
      apply_account_read_def recorded_block_def watermark_def set_nonce_watermark_def read_at_def watermark_of_def
    del: ready_account_fields(11) sped_up_account_fields(8))

lemma next_placed:
  "attempt_change open_env (order_vault 10) 1 7 next_attempt None (order_vault 10 1) later_account = Inr next_account"
  "account (order_vault 11 1) = [7 \<mapsto> next_account]"
proof -
  obtain rs where rs: "records (order_vault 10 1) = Inr rs" by (rule records_ok [OF order_store]) blast
  have "\<not> reserved_elsewhere 7 inputs rs" for inputs
    by (rule only_account [OF order_store settled_run(3) _ rs]) simp
  then show placed: "attempt_change open_env (order_vault 10) 1 7 next_attempt None (order_vault 10 1) later_account = Inr next_account"
    by (simp add: attempt_defs rs swap_orders_of_def first_attempt_def faster_attempt_def next_attempt_def plain_attempt_def hook_payload_def
      setup_payload_def first_order_def swap_use_orders_def order_terms_def
      attempt_order_def hook_of_def settled_order_def admits_attempt_def order_admits_attempt_def delivery_order_def
      destination_delivered_def is_bridge_def traded_sibling_def
      read_at_def open_env_def next_account_def Let_def plain_bounds_def)
  have kept: "stored next_account = next_account"
    by (simp add: stored_def next_account_def place_order_def Let_def format_version_def)
  show "account (order_vault 11 1) = [7 \<mapsto> next_account]"
    unfolding order_calls_at(10)
    by (subst attempt_step [OF order_reach, where r = later_account and s = next_account])
      (simp_all add: settled_run(3) placed kept del: run_call.simps)
qed

section \<open>The properties on the run\<close>

lemma sped_up_found: "account (order_vault 8 1) 7 = Some sped_up_account"
  by (simp add: second_placed)

text \<open>Two orders stand at one nonce after the speed-up.\<close>

theorem orders_match_hooks_witness:
  "\<exists>sw. er_swap sped_up_account = Some sw \<and> map so_attempt (sw_orders sw) = [0, 1]
    \<and> map (sh_nonce \<circ> so_pre_hook) (sw_orders sw) = [1, 1] \<and> map (map_option sh_nonce \<circ> so_post_hook) (sw_orders sw) = [Some 2, Some 2]
    \<and> (\<forall>p \<in> set (er_issued sped_up_account). ip_purpose p = SwapPreHook \<longrightarrow>
        (\<exists>o1 \<in> set (sw_orders sw). so_pre_hook o1 = hook_of p))"
proof -
  obtain sw where sw: "er_swap sped_up_account = Some sw" by simp
  have "map so_attempt (sw_orders sw) = map of_nat [0..<length (sw_orders sw)]"
    "\<forall>p \<in> set (er_issued sped_up_account). ip_purpose p = SwapPreHook \<longrightarrow>
        (\<exists>o1 \<in> set (sw_orders sw). so_pre_hook o1 = hook_of p)"
    using orders_match_hooks [OF order_reach sped_up_found sw] by blast+
  moreover have "length (sw_orders sw) = 2" "map (sh_nonce \<circ> so_pre_hook) (sw_orders sw) = [1, 1]"
    "map (map_option sh_nonce \<circ> so_post_hook) (sw_orders sw) = [Some 2, Some 2]"
    using sw by (auto simp: attempt_order_def faster_attempt_def first_attempt_def plain_attempt_def hook_of_def hook_payload_def)
  ultimately show ?thesis using sw by (simp add: upt_rec)
qed

theorem attempts_keep_terms_witness:
  "\<exists>sw. er_swap sped_up_account = Some sw \<and> so_uid (sw_orders sw ! 0) = first_order \<and> so_uid (sw_orders sw ! 1) = second_order
    \<and> so_delivery (sw_orders sw ! 0) = so_delivery (sw_orders sw ! 1)
    \<and> st_buy_token (order_terms sw (sw_orders sw ! 0)) = st_buy_token (order_terms sw (sw_orders sw ! 1))"
proof -
  obtain sw where sw: "er_swap sped_up_account = Some sw" by simp
  have parts: "so_uid (sw_orders sw ! 0) = first_order" "so_uid (sw_orders sw ! 1) = second_order" "length (sw_orders sw) = 2"
    "so_use_id (sw_orders sw ! 0) = so_use_id (sw_orders sw ! 1)" "private_bridge (so_delivery (sw_orders sw ! 1)) = None"
    using sw by (auto simp: private_bridge_def)
  have "so_delivery (sw_orders sw ! 0) = so_delivery (sw_orders sw ! 1)
    \<and> st_buy_token (order_terms sw (sw_orders sw ! 0)) = st_buy_token (order_terms sw (sw_orders sw ! 1))"
    using attempts_keep_terms [OF order_reach sped_up_found sw, of 0 1] parts by simp
  then show ?thesis using sw parts by blast
qed

lemma attempt_run:
  assumes "executor_reach v" "account (v 1) key = Some r" "attempt_change open_env v 1 key t included (v 1) r = Inr s" "stored s = s"
  shows "record_swap_attempt_at open_env v 1 key t included (v 1) = (Inr s, put_row (OperationRow key s) (v 1))"
  unfolding record_swap_attempt_at_def
  by (subst update_accepts [OF vault_okD [OF executor_machine.reach_inv [OF assms(1)], of 1] assms(2),
      where change = "attempt_change open_env v 1 key t included", OF assms(3)])
    (simp_all add: assms(4))

lemma runs:
  "record_swap_attempt_at open_env (order_vault 6) 1 7 first_attempt None (order_vault 6 1)
    = (Inr ordered_account, put_row (OperationRow 7 ordered_account) (order_vault 6 1))"
  "record_swap_attempt_at open_env (order_vault 7) 1 7 faster_attempt None (order_vault 7 1)
    = (Inr sped_up_account, put_row (OperationRow 7 sped_up_account) (order_vault 7 1))"
  "record_swap_attempt_at open_env (order_vault 10) 1 7 next_attempt None (order_vault 10 1)
    = (Inr next_account, put_row (OperationRow 7 next_account) (order_vault 10 1))"
  by (rule attempt_run [OF order_reach _ first_placed(1)] attempt_run [OF order_reach _ second_placed(1)]
      attempt_run [OF order_reach _ next_placed(1)];
    simp add: approved_run(5) first_placed(2) settled_run(3) stored_def ordered_account_def sped_up_account_def next_account_def
      place_order_def Let_def format_version_def)+

theorem attempt_checked_witness:
  "fst (record_swap_attempt_at open_env (order_vault 6) 1 7 first_attempt None (order_vault 6 1)) = Inr ordered_account
    \<and> swap_orders_of ordered_account = [attempt_order first_attempt []]
    \<and> er_address ready_account = Some (se_uid_owner open_env first_order)
    \<and> (\<exists>p \<in> set (er_issued ready_account). ip_hash p = 21 \<and> nonce_resolved (ip_nonce p) ready_account)"
proof -
  have found: "account (order_vault 6 1) 7 = Some ready_account" by (simp add: approved_run)
  have payload: "st_setup_payload (tt_terms first_attempt) = 21" by (simp add: first_attempt_def plain_attempt_def)
  have "swap_orders_of ready_account = []" by (simp add: swap_orders_of_def)
  then show ?thesis using attempt_checked [OF order_reach found runs(1)] runs(1) by (simp add: payload)
qed

theorem speed_up_replaces_open_order_witness:
  "fst (record_swap_attempt_at open_env (order_vault 7) 1 7 faster_attempt None (order_vault 7 1)) = Inr sped_up_account
    \<and> so_uid (last (swap_orders_of ordered_account)) = first_order
    \<and> tt_invalidates faster_attempt = Some first_order
    \<and> bo_buy_amount (tt_bounds faster_attempt) < bo_buy_amount (so_bounds (last (swap_orders_of ordered_account)))"
proof -
  have found: "account (order_vault 7 1) 7 = Some ordered_account" by (simp add: first_placed)
  have speed: "tt_speed_up faster_attempt = Some first_order" by (simp add: faster_attempt_def plain_attempt_def)
  obtain sw latest where "er_swap ordered_account = Some sw" "latest = last (sw_orders sw)" "so_uid latest = first_order"
      "tt_invalidates faster_attempt = Some first_order" "bo_buy_amount (tt_bounds faster_attempt) < bo_buy_amount (so_bounds latest)"
    using speed_up_replaces_open_order [OF order_reach found speed runs(2)] by blast
  then show ?thesis using runs(2) by (simp add: swap_orders_of_def)
qed

text \<open>The next order is placed once the second has traded and its proceeds are shielded.\<close>

theorem retry_waits_for_earlier_witness:
  "fst (record_swap_attempt_at open_env (order_vault 10) 1 7 next_attempt None (order_vault 10 1)) = Inr next_account
    \<and> (\<exists>sw. er_swap later_account = Some sw \<and> settled_order \<in> set (sw_orders sw)
        \<and> oo_traded (so_observations settled_order) \<noteq> None
        \<and> (\<exists>d. delivery_order sw settled_order = Some d \<and> destination_delivered d))"
proof -
  have found: "account (order_vault 10 1) 7 = Some later_account" by (simp add: settled_run)
  have speed: "tt_speed_up next_attempt = None" by (simp add: next_attempt_def plain_attempt_def)
  obtain sw where sw: "er_swap later_account = Some sw" "settled_order \<in> set (sw_orders sw)" by simp
  have parts: "so_use_id settled_order = Some 7" "sh_nonce (so_pre_hook settled_order) = 1"
    "oo_pre_hook_dead (so_observations settled_order) = None" "oo_bridge_handoff (so_observations settled_order) = None"
    "oo_traded (so_observations settled_order) \<noteq> None"
    by (simp_all add: settled_order_def faster_attempt_def plain_attempt_def hook_payload_def)
  have "traded_sibling sw settled_order = None"
    using sw(1) parts(1) by (auto simp: traded_sibling_def settled_order_def)
  then have "(\<exists>d. delivery_order sw settled_order = Some d \<and> destination_delivered d)"
    using retry_waits_for_earlier [OF order_reach found speed runs(3) sw(1,2)] parts by blast
  then show ?thesis using runs(3) sw parts(5) by (intro conjI exI [of _ sw]) simp_all
qed

theorem approval_replaced_before_order_witness:
  "\<exists>cs. record_swap_approval open_env 7 7 better_approval (order_vault 4 1) = (Inr approved_account, cs)
    \<and> er_swap_uses approved_account = [(hd (er_swap_uses set_up_account))\<lparr>su_role := Source (Some better_approval) None\<rparr>]"
proof -
  have found: "account (order_vault 4 1) 7 = Some set_up_account" by (simp add: approved_run)
  have "stored approved_account = approved_account"
    by (simp add: stored_def format_version_def approved_account_def set_up_account_def read_swap_account_def)
  then have run: "record_swap_approval open_env 7 7 better_approval (order_vault 4 1)
      = (Inr approved_account, put_row (OperationRow 7 approved_account) (order_vault 4 1))"
    unfolding record_swap_approval_def
    by (subst update_accepts [OF order_store found, where change = "\<lambda>_. approval_change 7 better_approval", OF approved_run(3)])
      simp_all
  obtain destination where "su_role (last (er_swap_uses set_up_account)) = Source (Some plain_approval) destination"
      "er_swap_uses approved_account = butlast (er_swap_uses set_up_account)
        @ [(last (er_swap_uses set_up_account))\<lparr>su_role := Source (Some better_approval) destination\<rparr>]"
    using approval_replaced_before_order [OF order_reach found run]
    by (auto simp: set_up_account_def read_swap_account_def)
  then show ?thesis using run by (simp add: set_up_account_def read_swap_account_def)
qed

theorem recorded_evidence_kept_witness:
  "\<exists>s. account (order_vault 11 1) 7 = Some s \<and> length (swap_orders_of s) = 3
    \<and> oo_traded (so_observations (swap_orders_of s ! 1)) = Some (ev_traded plain_trade)"
proof -
  have found: "account (order_vault 9 1) 7 = Some settled_account" by (simp add: settled_run)
  have orders: "swap_orders_of settled_account = [attempt_order first_attempt [], settled_order]"
    by (simp add: settled_account_def put_order_def swap_orders_of_def)
  have "run_calls (drop 9 order_calls) (order_vault 9) = order_vault 11"
    by (simp add: order_vault_def order_calls_def del: run_call.simps)
  then have calls: "trace executor_step (order_vault 9) (map (\<lambda>call. (open_env, 1, call)) (drop 9 order_calls)) (order_vault 11)"
    using run_calls_trace by metis
  have "\<forall>l \<in> set (map (\<lambda>call. (open_env, 1, call)) (drop 9 order_calls)). \<not> observes 1 7 uid l" for uid
    by (simp add: order_calls_def)
  then obtain s where s: "account (order_vault 11 1) 7 = Some s"
      "evidence_goes_on outcome_moves\<^sup>*\<^sup>* settled_order (swap_orders_of s ! 1)"
    using recorded_evidence_kept [OF order_reach calls found, of 1] orders by auto
  have "oo_traded (so_observations settled_order) = Some (ev_traded plain_trade)" by (simp add: settled_order_def)
  then have "oo_traded (so_observations (swap_orders_of s ! 1)) = Some (ev_traded plain_trade)"
    using s(2) by (simp add: evidence_goes_on_def Let_def same_once_known_def)
  moreover have "s = next_account" using s(1) next_placed(2) by simp
  ultimately show ?thesis using s(1) by (simp add: next_account_def place_order_def Let_def swap_orders_of_def)
qed

theorem settlement_recorded_witness:
  "\<exists>cs. record_swap_settlement open_env 7 second_order plain_trade (order_vault 8 1) = (Inr settled_account, cs)
    \<and> swap_orders_of settled_account ! 0 = swap_orders_of sped_up_account ! 0
    \<and> oo_delivered (so_observations (swap_orders_of settled_account ! 1)) = Some (ev_traded plain_trade)"
proof -
  have "stored settled_account = settled_account"
    by (simp add: stored_def settled_account_def put_order_def format_version_def)
  then have run: "record_swap_settlement open_env 7 second_order plain_trade (order_vault 8 1)
      = (Inr settled_account, put_row (OperationRow 7 settled_account) (order_vault 8 1))"
    unfolding record_swap_settlement_def
    by (subst update_accepts [OF order_store sped_up_found, where change = "\<lambda>_. settlement_change second_order plain_trade",
        OF settled_run(1)]) simp_all
  have trade: "ev_delivery plain_trade = second_order" "ev_credit plain_trade \<noteq> None" by (simp_all add: plain_trade_def Let_def)
  have orders: "swap_orders_of sped_up_account = [attempt_order first_attempt [], attempt_order faster_attempt [attempt_order first_attempt []]]"
    by (simp add: swap_orders_of_def)
  obtain i o1 obs where at: "i < length (swap_orders_of sped_up_account)" "o1 = swap_orders_of sped_up_account ! i" "so_uid o1 = second_order"
    "swap_orders_of settled_account = (swap_orders_of sped_up_account)[i := o1\<lparr>so_observations := obs\<lparr>oo_traded := Some (ev_traded plain_trade),
        oo_trade_amounts := Some (kept_trade_amounts obs (ev_amounts plain_trade)),
        oo_settlement_credit := or_else (ev_credit plain_trade) (oo_settlement_credit obs),
        oo_bridge_handoff := or_else (ev_handoff plain_trade) (oo_bridge_handoff obs),
        oo_delivered := (if settles_delivery plain_trade o1 then Some (ev_traded plain_trade) else oo_delivered obs),
        oo_undelivered := (if settles_delivery plain_trade o1 then None else oo_undelivered obs)\<rparr>\<rparr>]"
    using settlement_recorded [OF order_reach sped_up_found trade(1) run] by blast
  have "i = 1" using at(1-3) by (cases i) (simp_all add: orders)
  then have "oo_delivered (so_observations (swap_orders_of settled_account ! 1)) = Some (ev_traded plain_trade)"
    "swap_orders_of settled_account ! 0 = swap_orders_of sped_up_account ! 0"
    using at trade(2) by (simp_all add: orders settles_delivery_def)
  then show ?thesis using run by blast
qed

text \<open>Two attempts of one public Across delivery, the second of which signed the deposit that the settlement made.\<close>

definition across_attempt :: "order_uid \<Rightarrow> swap_order" where
  "across_attempt uid = (attempt_order first_attempt [])\<lparr>so_uid := uid, so_post_hook := None,
    so_delivery := Bridge \<lparr>bd_provider = Across, bd_destination_chain = 2, bd_receiver = 12, bd_destination_token = 33,
      bd_surplus = KeepInAccount, bd_private = None\<rparr>,
    so_bridge := Some (AcrossTerms \<lparr>ac_spoke_pool = 61, ac_input_token = 52, ac_output_token = 33, ac_input_amount = 46,
      ac_output_amount = 45, ac_quote_timestamp = 5, ac_fill_deadline = 9, ac_exclusive_relayer = 0,
      ac_exclusivity_parameter = 0, ac_recipient = None, ac_message_hash = None\<rparr>)\<rparr>"

definition across_account :: executor_record where
  "across_account = ready_account\<lparr>er_swap := Some \<lparr>sw_terms = tt_terms first_attempt, sw_proof = tt_proof first_attempt,
    sw_orders = [across_attempt first_order, across_attempt second_order], sw_fundings = []\<rparr>\<rparr>"

definition across_trade :: settlement_evidence where
  "across_trade = plain_trade\<lparr>ev_credit := None,
    ev_handoff := Some \<lparr>bh_observation = ev_traded plain_trade, bh_deposit_id = Some 3\<rparr>\<rparr>"

theorem split_settlement_pairs_witness:
  "\<exists>r' sw t d. settlement_change first_order across_trade across_account = Inr r' \<and> er_swap r' = Some sw
    \<and> so_uid t = first_order \<and> so_uid d = second_order \<and> delivery_order sw t = Some d \<and> trade_order sw d = Some t"
proof -
  have trade: "ev_delivery across_trade = second_order" "second_order \<noteq> first_order"
    by (simp_all add: across_trade_def plain_trade_def Let_def)
  have orders: "swap_orders_of across_account = [across_attempt first_order, across_attempt second_order]"
    by (simp add: across_account_def swap_orders_of_def)
  have uid: "so_uid (across_attempt uid) = uid" for uid by (simp add: across_attempt_def)
  have distinct: "distinct (map so_uid (swap_orders_of across_account))" by (simp add: orders uid)
  obtain handoff where handoff: "ev_handoff across_trade = Some handoff" by (simp add: across_trade_def)
  then have "\<not> split_refused across_trade handoff (across_attempt first_order) (across_attempt second_order)"
    by (simp add: split_refused_def across_attempt_def public_across_def bridge_is_private_def contradicts_def across_trade_def
      plain_trade_def Let_def) auto
  then obtain r' where run: "settlement_change first_order across_trade across_account = Inr r'"
    using handoff by (simp add: settlement_change_def record_split_settlement_def find_order_def orders trade uid)
  show ?thesis using split_settlement_pairs [OF run _ distinct] run trade orders uid by fastforce
qed

end
