(* ===== verification/PublicSwapProperties.thy ===== *)
theory PublicSwapProperties
  imports SettlementProperties
begin

text \<open>
  What holds of swaps that a Public account pays for in every state that calls reach: two of its swaps do
  not compete, a record's path, deposits and transactions fit together, what was signed and sent stays, and
  the bridge's outcome reaches the account. A run of one such swap witnesses the properties.
\<close>

section \<open>Claims\<close>

lemma claim_public_new:
  assumes ok: "vault_ok v" and claimed: "fst (claim_public_swap env chain claim v) = Inr r"
    and new: "\<forall>r0. account (v chain) (choice_operation (pq_account claim)) = Some r0 \<longrightarrow> swap_use (pq_id claim) r0 = None"
  obtains rs where "pq_origin_chain claim \<noteq> chain" "wallet_records env v = Inr rs"
    "admit_public_swap_source (se_uid_valid_to env) (source_terms claim) rs = Inr ()"
proof -
  let ?found = "account (v chain) (choice_operation (pq_account claim))"
  obtain rs where rs: "wallet_records env v = Inr rs"
    unfolding wallet_records_def by (rule chain_records_ok [OF ok, of "se_chains env"]) blast
  have none: "Option.bind ?found (\<lambda>r. map_option (Pair r) (swap_use (pq_id claim) r)) = None"
    using new by (cases ?found) simp_all
  have origin: "pq_origin_chain claim \<noteq> chain" using claimed by (auto simp: claim_public_swap_def)
  let ?admitted = "and_then
      (admit_swap_account env (pq_account claim) ?found chain (DestinationAccount (pq_destination_token claim)) (pq_id claim))
      (\<lambda>_. and_then (wallet_records env v) (admit_public_swap_source (se_uid_valid_to env) (source_terms claim)))"
  have "\<exists>x. ?admitted = Inr x"
    using claimed origin
    by (auto simp: claim_public_swap_def guarded_def vault_record_of [OF ok] none split: if_splits sum.splits)
  then have "admit_public_swap_source (se_uid_valid_to env) (source_terms claim) rs = Inr ()"
    using rs by (auto simp: and_then_eq_Inr)
  then show thesis using that origin rs by blast
qed

lemma competing_orders_member:
  assumes "(c, s) \<in> set rs" "u \<in> set (er_swap_uses s)" "competing_order terms c u = Some other"
  shows "other \<in> set (competing_orders terms rs)"
proof -
  have "other \<in> set (List.map_filter (competing_order terms c) (er_swap_uses s))"
    unfolding List.map_filter_def set_map set_filter comp_def
    by (rule image_eqI [where x = u]) (simp_all add: assms(2,3) del: not_None_eq split_paired_Ex)
  then show ?thesis using assms(1) unfolding competing_orders_def by auto
qed

text \<open>
  C22: Two swaps of one Public account do not compete. If a new claim is accepted, the account belongs to this
  wallet alone and pays on another chain, and of any other swap with an order that it pays for on that chain,
  recorded on any chain of the wallet: if it sells the claim's token, its order can no longer fill and its claim
  is signed or stopped; and if the claim too places an order, for the token that the other one buys, then moreover
  the other's hook batch can no longer run and its proxy holds no proceeds.
\<close>

theorem public_claim_excludes_others:
  assumes "executor_reach v" and "fst (claim_public_swap env chain claim v) = Inr r"
    and listed: "\<forall>c key. account (v c) key \<noteq> None \<longrightarrow> c \<in> set (se_chains env)"
    and new: "\<forall>r0. account (v chain) (choice_operation (pq_account claim)) = Some r0 \<longrightarrow> swap_use (pq_id claim) r0 = None"
    and other: "account (v c) key = Some s" "u \<in> set (er_swap_uses s)" "su_id u \<noteq> pq_id claim"
      "su_role u = PublicSourceDestination (pq_origin_chain claim) (pq_source claim) token shields outcome swap"
      "in_order (pu_intent swap)"
  shows "pq_source_scope claim \<noteq> GlobalScope \<and> pq_origin_chain claim \<noteq> chain
    \<and> (pv_sell_token (pu_approval swap) = pv_sell_token (pq_approval claim) \<longrightarrow>
        \<not> order_can_fill (se_uid_valid_to env) (pq_now claim) swap \<and> (pu_path swap \<noteq> None \<or> su_stopped u))
    \<and> (pq_order claim \<and> in_bridged_token (pu_intent swap) = pq_bridged_token claim \<longrightarrow>
        \<not> order_can_fill (se_uid_valid_to env) (pq_now claim) swap \<and> (pu_path swap \<noteq> None \<or> su_stopped u)
        \<and> \<not> proxy_holds_proceeds swap \<and> \<not> batch_can_run (pq_now claim) swap)"
proof -
  have ok: "vault_ok v" by (rule executor_machine.reach_inv [OF assms(1)])
  obtain rs where rs: "pq_origin_chain claim \<noteq> chain" "wallet_records env v = Inr rs"
      "admit_public_swap_source (se_uid_valid_to env) (source_terms claim) rs = Inr ()"
    by (rule claim_public_new [OF ok assms(2) new])
  let ?terms = "source_terms claim"
  let ?other = "(c, su_id u, swap, pu_path swap = None \<and> \<not> su_stopped u)"
  have "(c, s) \<in> set rs"
  proof (rule chain_records_ok [OF ok, of "se_chains env"])
    fix rs' assume rs': "chain_records v (se_chains env) = Inr rs'"
      "\<And>c r. (c, r) \<in> set rs' \<longleftrightarrow> c \<in> set (se_chains env) \<and> account (v c) (er_operation r) = Some r"
    have "er_operation s = key" by (rule vault_account(3) [OF ok other(1)])
    then have "(c, s) \<in> set rs'" using rs'(2) listed other(1) by blast
    then show ?thesis using rs' rs(2) by (simp add: wallet_records_def)
  qed
  then have member: "?other \<in> set (competing_orders ?terms rs)"
    by (rule competing_orders_member [OF _ other(2)]) (use other in \<open>simp add: competing_order_def source_terms_def\<close>)
  have scope: "pq_source_scope claim \<noteq> GlobalScope"
    using rs(3) by (auto simp: admit_public_swap_source_def source_terms_def)
  have "sells_same_token (se_uid_valid_to env) ?terms ?other = None"
    "pq_order claim \<Longrightarrow> buys_same_token (se_uid_valid_to env) ?terms ?other = None"
    using rs(3) scope member
    by (auto simp: admit_public_swap_source_def source_terms_def Let_def find_map_None simp del: split_paired_All
      split: option.splits if_splits)
  then show ?thesis
    using scope rs(1)
    by (auto simp: sells_same_token_def buys_same_token_def source_terms_def Let_def split: if_splits)
qed

text \<open>
  C27: What is asked in advance is what the claim answers. For a claim of a new account under the approved setup,
  if the source's conflict is asked for the claim's terms and an error or a conflict is given, the claim is refused
  with it and writes nothing; if no conflict is given, the claim is accepted, or fails only for want of an index
  or of a fresh identifier.
\<close>

theorem source_conflict_predicts_claim:
  assumes "executor_reach v" "fresh_draws env v [operation]"
    and "account (v chain) operation = None" "pq_account claim = NewAccount operation"
      "aa_setup (pv_destination (pq_approval claim))"
  shows "case fst (public_swap_source_conflict env chain (source_terms claim) v) of
      Inl e \<Rightarrow> claim_public_swap env chain claim v = (Inl e, v)
    | Inr (Some e) \<Rightarrow> claim_public_swap env chain claim v = (Inl e, v)
    | Inr None \<Rightarrow> \<forall>e. fst (claim_public_swap env chain claim v) = Inl e \<longrightarrow> e = Exhausted \<or> e = Unavailable"
proof -
  have ok: "vault_ok v" by (rule executor_machine.reach_inv [OF assms(1)])
  obtain rs where rs: "wallet_records env v = Inr rs"
    unfolding wallet_records_def by (rule chain_records_ok [OF ok, of "se_chains env"]) blast
  show ?thesis
  proof (cases "se_locked env \<and> se_wallet env \<and> pq_origin_chain claim \<noteq> chain")
    case False
    then show ?thesis
      by (auto simp: public_swap_source_conflict_def claim_public_swap_def source_terms_def guarded_def)
  next
    case True
    let ?claimed = "claim_swap_account env chain operation None (pq_delegate claim) (Some SWAP_DESTINATION_PURPOSE_SUMMARY)
      [Erc20 (pq_destination_token claim)] (pq_id claim) (claimed_role claim) v"
    have choice: "choice_operation (pq_account claim) = operation" by (simp add: assms(4))
    have claim: "claim_public_swap env chain claim v =
        (case admit_public_swap_source (se_uid_valid_to env) (source_terms claim) rs of
           Inl e \<Rightarrow> (Inl e, v) | Inr _ \<Rightarrow> bind_outcome ?claimed (\<lambda>claimed v1. commit (Inr claimed) v1))"
      using True assms(3-5) rs
      by (cases "admit_public_swap_source (se_uid_valid_to env) (source_terms claim) rs")
        (simp_all add: claim_public_swap_def choice guarded_def vault_record_of [OF ok] approved_choice_def
          admit_swap_account_def)
    have conflict: "fst (public_swap_source_conflict env chain (source_terms claim) v) =
        Inr (case admit_public_swap_source (se_uid_valid_to env) (source_terms claim) rs of Inl e \<Rightarrow> Some e | Inr _ \<Rightarrow> None)"
      using True rs by (simp add: public_swap_source_conflict_def guarded_def source_terms_def)
    have limit: "e = Exhausted \<or> e = Unavailable"
      if "fst (bind_outcome ?claimed (\<lambda>claimed v1. commit (Inr claimed) v1)) = Inl e" for e
    proof -
      obtain y cs where run: "allocate_record env operation (pq_delegate claim) (Some SWAP_DESTINATION_PURPOSE_SUMMARY)
          [Erc20 (pq_destination_token claim)] (Some (pq_id claim, claimed_role claim)) (v chain) = (y, cs)" by fastforce
      have drawn: "unused (v chain) (se_random env 0)" "se_random env 0 \<noteq> Some operation"
        using fresh_unused [OF assms(2)] fresh_named [OF assms(2)] by simp_all
      show ?thesis
        using vault_okD [OF ok] assms(3) drawn run
      proof (cases rule: continuing.allocate_record_ok)
        case (refused e')
        then show ?thesis using that run by (simp add: claim_swap_account_def on_chain_def bind_outcome_def)
      next
        case (allocated r rows)
        then show ?thesis using that run by (simp add: claim_swap_account_def on_chain_def bind_outcome_def commit_def)
      qed
    qed
    show ?thesis
      using limit unfolding conflict claim
      by (cases "admit_public_swap_source (se_uid_valid_to env) (source_terms claim) rs") simp_all
  qed
qed

section \<open>Records\<close>

lemma use_of_account:
  assumes "vault_ok v" "account (v chain) key = Some r" "u \<in> set (er_swap_uses r)"
  shows "role_ok chain (map ip_hash (er_issued r)) (su_role u)" "swap_use (su_id u) r = Some u"
proof -
  have body: "body_ok chain r" by (rule vault_account(2) [OF assms(1,2)])
  show "role_ok chain (map ip_hash (er_issued r)) (su_role u)" using body assms(3) by (simp add: body_ok_def list_all_iff)
  have "find (\<lambda>w. su_id w = su_id u) us = Some u" if "u \<in> set us" "distinct (map su_id us)" for us
    using that by (induction us) auto
  then show "swap_use (su_id u) r = Some u" using body assms(3) by (simp add: swap_use_def body_ok_def)
qed

text \<open>
  C24: The record of a swap that a Public account pays for is consistent. In every reachable state, the account
  pays on another chain than the one delivered to; the swap's path is the one it was claimed for, an order
  buying the token to be bridged, and is recorded with its deposit terms; no transaction is recorded twice; at most
  one deposit is live, and only on the deposit path; an invalidation or a withdrawal is recorded only beside an
  order; and a fill is recorded only for a use that signed a shield, which is a payload the account issued.
\<close>

theorem public_swaps_consistent:
  assumes "executor_reach v" "account (v chain) key = Some r" "u \<in> set (er_swap_uses r)"
    and "su_role u = PublicSourceDestination origin source token shields outcome swap"
  shows "origin \<noteq> chain
    \<and> (pu_path swap = Some DepositPath \<longrightarrow> \<not> in_order (pu_intent swap))
    \<and> (\<forall>o1. public_order swap = Some o1 \<longrightarrow>
        in_order (pu_intent swap) \<and> po_buy_token o1 = in_bridged_token (pu_intent swap))
    \<and> (pu_bridge swap = None \<longleftrightarrow> pu_path swap = None)
    \<and> distinct (map pt_hash (pu_transactions swap))
    \<and> length (live_deposits swap) \<le> 1 \<and> (live_deposits swap \<noteq> [] \<longrightarrow> pu_path swap = Some DepositPath)
    \<and> (\<forall>t \<in> set (pu_transactions swap).
        pt_kind t = InvalidationTransaction \<or> pt_kind t = WithdrawalTransaction \<longrightarrow> public_order swap \<noteq> None)
    \<and> (is_filled outcome \<longrightarrow> shields \<noteq> []) \<and> set shields \<subseteq> ip_hash ` set (er_issued r)"
proof -
  have "role_ok chain (map ip_hash (er_issued r)) (su_role u)"
    by (rule use_of_account(1) [OF executor_machine.reach_inv [OF assms(1)] assms(2,3)])
  then have parts: "origin \<noteq> chain" "delivery_ok (map ip_hash (er_issued r)) shields outcome"
      "pred_option (\<lambda>path. path_claimed path (pu_intent swap)) (pu_path swap)" "pu_bridge swap = None \<longleftrightarrow> pu_path swap = None"
      "transactions_ok (pu_path swap) (pu_transactions swap)"
    by (simp_all add: assms(4) role_ok_def public_swap_ok_def)
  have "in_order (pu_intent swap) \<and> po_buy_token o1 = in_bridged_token (pu_intent swap)" if "public_order swap = Some o1" for o1
    using that parts(3) by (auto simp: public_order_def order_of_path_def path_claimed_def split: option.splits public_swap_path.splits)
  moreover have "\<not> in_order (pu_intent swap)" if "pu_path swap = Some DepositPath"
    using that parts(3) by (simp add: path_claimed_def)
  moreover have "public_order swap \<noteq> None"
    if "t \<in> set (pu_transactions swap)" "pt_kind t = InvalidationTransaction \<or> pt_kind t = WithdrawalTransaction" for t
    using that parts(5) unfolding public_order_def transactions_ok_def by (auto simp only: list_all_iff)
  ultimately show ?thesis
    using parts by (simp add: transactions_ok_def live_deposits_def delivery_ok_def)
qed

lemma account_continues:
  assumes "executor_reach v" "trace executor_step v ls v'" "account (v chain) key = Some r"
  obtains s where "account (v' chain) key = Some s" "continues r s"
proof -
  have "continuing.keeps chain (v chain) (v' chain)"
    using trace_keeps [OF assms(2) executor_machine.reach_inv [OF assms(1)]] by (simp add: continuing.vault_keeps_def)
  then show thesis using assms(3) that unfolding continuing.keeps_def by blast
qed

lemma public_fact:
  assumes "x \<in> set (use_facts role)" "\<And>fill. x \<noteq> FillFact fill"
  obtains origin source token shields outcome swap
  where "role = PublicSourceDestination origin source token shields outcome swap" "x \<in> set (public_facts swap)"
  using assms by (cases role) (auto simp: fill_facts_def split: option.splits if_splits)

text \<open>
  C23: What a Public account signed and sent stays. Once a swap's order is signed, whatever calls follow, the
  account's record has the swap still, with the same order but for what the orderbook answered, the same deposit terms and
  intent, the approval it was signed under but for the address that the account is bound to, and every
  transaction that was handed off, with its kind, request and hash.
\<close>

theorem signed_public_order_kept:
  assumes "executor_reach v" "trace executor_step v ls v'" "account (v chain) key = Some r" "u \<in> set (er_swap_uses r)"
    and "su_role u = PublicSourceDestination origin source token shields outcome swap" "public_order swap = Some o1"
  shows "\<exists>s w origin' source' token' shields' outcome' swap' o2.
    account (v' chain) key = Some s \<and> swap_use (su_id u) s = Some w
    \<and> su_role w = PublicSourceDestination origin' source' token' shields' outcome' swap'
    \<and> public_order swap' = Some o2 \<and> order_signed o2 = order_signed o1
    \<and> pu_bridge swap' = pu_bridge swap \<and> pu_intent swap' = pu_intent swap
    \<and> approval_fixed (pu_approval swap') = approval_fixed (pu_approval swap)
    \<and> set (sent_transactions swap) \<subseteq> set (sent_transactions swap')"
proof -
  have ok: "vault_ok v'"
    using trace_keeps [OF assms(2) executor_machine.reach_inv [OF assms(1)]] by (rule continuing.vault_keeps_ok)
  obtain s where s: "account (v' chain) key = Some s" "continues r s" by (rule account_continues [OF assms(1-3)])
  let ?terms = "(order_signed o1, pu_bridge swap, pu_intent swap, approval_fixed (pu_approval swap))"
  have kept: "\<exists>w \<in> set (er_swap_uses s). su_id w = su_id u \<and> x \<in> set (use_facts (su_role w))"
    if "x \<in> set (public_facts swap)" for x
  proof -
    have "(su_id u, x) \<in> facts_of (er_swap_uses r)" using that assms(4,5) by (auto simp: facts_of_def)
    then have "(su_id u, x) \<in> facts_of (er_swap_uses s)" using s(2) by (auto simp: continues_def)
    then show ?thesis by (auto simp: facts_of_def)
  qed
  have "SignedFact ?terms \<in> set (public_facts swap)" by (simp add: public_facts_def signed_order_terms_def assms(6))
  then obtain w where w: "w \<in> set (er_swap_uses s)" "su_id w = su_id u" "SignedFact ?terms \<in> set (use_facts (su_role w))"
    using kept by blast
  have found: "swap_use (su_id u) s = Some w" using use_of_account(2) [OF ok s(1) w(1)] w(2) by simp
  obtain origin' source' token' shields' outcome' swap'
    where role: "su_role w = PublicSourceDestination origin' source' token' shields' outcome' swap'"
      "SignedFact ?terms \<in> set (public_facts swap')"
    by (rule public_fact [OF w(3)]) simp_all
  then have terms: "signed_order_terms swap' = Some ?terms" by (auto simp: public_facts_def split: option.splits)
  then obtain o2 where "public_order swap' = Some o2"
    by (cases "public_order swap'") (simp_all add: signed_order_terms_def)
  then have o2: "public_order swap' = Some o2" "order_signed o2 = order_signed o1" "pu_bridge swap' = pu_bridge swap"
      "pu_intent swap' = pu_intent swap" "approval_fixed (pu_approval swap') = approval_fixed (pu_approval swap)"
    using terms by (simp_all add: signed_order_terms_def)
  have "x \<in> set (sent_transactions swap')" if "x \<in> set (sent_transactions swap)" for x
  proof -
    have "SentFact x \<in> set (public_facts swap)" using that by (simp add: public_facts_def)
    then obtain w' where "w' \<in> set (er_swap_uses s)" "su_id w' = su_id u" "SentFact x \<in> set (use_facts (su_role w'))"
      using kept by blast
    moreover from this have "w' = w" using use_of_account(2) [OF ok s(1)] found by fastforce
    ultimately have "SentFact x \<in> set (fill_facts outcome' @ public_facts swap')" by (simp add: role(1))
    then show ?thesis by (auto simp: fill_facts_def public_facts_def split: option.splits if_splits)
  qed
  then show ?thesis using s(1) found role(1) o2 by blast
qed

section \<open>Refusals\<close>

lemma update_refused:
  assumes "store_ok chain cs" "account cs operation = Some r" "change cs r = Inl OperationMismatch"
  shows "snd (update_record env operation change cs) = cs"
    "fst (update_record env operation change cs) \<in> {Inl OperationMismatch, Inl Unavailable}"
  using assms by (simp_all add: update_record_def guarded_def record_of_ok)

text \<open>
  C25: What a Public account signed or sent is not taken back. While a swap's order is signed or a deposit that
  was not ruled out is handed off, cancelling the swap, approving it anew and recording another path or other deposit terms are
  refused, and nothing is written.
\<close>

theorem signed_swap_not_taken_back:
  assumes "executor_reach v" "account (v chain) key = Some r" "u \<in> set (er_swap_uses r)"
    and "su_role u = PublicSourceDestination origin source token shields outcome swap"
    and signed: "public_order swap \<noteq> None \<or> pu_path swap = Some DepositPath \<and> live_deposits swap \<noteq> []"
    and call: "call = CancelPublic \<or> (\<exists>approval. call = Reapprove approval)
      \<or> (\<exists>path bridge. call = SignPath path bridge \<and> (pu_path swap \<noteq> Some path \<or> pu_bridge swap \<noteq> Some bridge))"
  shows "snd (run_public_call env key (su_id u) call (v chain)) = v chain
    \<and> fst (run_public_call env key (su_id u) call (v chain)) \<in> {Inl OperationMismatch, Inl Unavailable}"
proof -
  have ok: "vault_ok v" by (rule executor_machine.reach_inv [OF assms(1)])
  note store = vault_okD [OF ok, of chain]
  have use: "swap_use (su_id u) r = Some u" by (rule use_of_account(2) [OF ok assms(2,3)])
  have found: "public_swap_use (su_id u) r = Some (u, swap)" by (simp add: public_swap_use_def use public_swap_def assms(4))
  have unsigned: "\<not> public_unsigned swap"
    using signed by (auto simp: public_unsigned_def public_order_def order_of_path_def deposit_handed_off_def
      split: option.splits public_swap_path.splits)
  have path: "pu_path swap \<noteq> None" using unsigned by (cases "pu_path swap") (simp_all add: public_unsigned_def)
  have result: "snd (plain out) = v chain \<and> fst (plain out) \<in> {Inl OperationMismatch, Inl Unavailable}"
    if "snd out = v chain" "fst out \<in> {Inl OperationMismatch, Inl Unavailable}" for out :: "('a, chain_store) outcome"
    using that by (auto simp: plain_def split: prod.splits sum.splits)
  from call consider "call = CancelPublic" | approval where "call = Reapprove approval"
    | path bridge where "call = SignPath path bridge" "pu_path swap \<noteq> Some path \<or> pu_bridge swap \<noteq> Some bridge" by blast
  then show ?thesis
  proof cases
    case 1
    show ?thesis unfolding 1 run_public_call.simps
      by (rule result) (simp_all add: cancel_public_swap_def guarded_def found_record_ok [OF store] assms(2) ok_or_def found unsigned)
  next
    case 2
    have "live_public_swap (su_id u) (reapprove approval) r = Inl OperationMismatch"
      by (simp add: live_public_swap_def use public_swap_mut_def found reapprove_def unsigned)
    then show ?thesis unfolding 2 run_public_call.simps reapprove_public_swap_def
      by (intro result update_refused [OF store assms(2)]) simp_all
  next
    case 3
    have "sign_path path bridge swap = Inl OperationMismatch"
      using 3(2) path unsigned by (auto simp: sign_path_def Let_def)
    then have "live_public_swap (su_id u) (sign_path path bridge) r = Inl OperationMismatch"
      by (simp add: live_public_swap_def use public_swap_mut_def found)
    then show ?thesis unfolding 3(1) run_public_call.simps record_public_swap_path_def
      by (intro result update_refused [OF store assms(2)]) simp_all
  qed
qed

section \<open>The bridge's outcome\<close>

lemma with_role_use:
  "swap_use use r = Some u \<Longrightarrow> swap_use use (with_role use f r) = Some (u\<lparr>su_role := f (su_role u)\<rparr>)"
proof -
  have "find (\<lambda>u. su_id u = use) us = Some u \<Longrightarrow>
      find (\<lambda>u. su_id u = use) (update_use use (\<lambda>u. u\<lparr>su_role := f (su_role u)\<rparr>) us) = Some (u\<lparr>su_role := f (su_role u)\<rparr>)" for us
    by (induction us) (auto split: if_splits)
  then show "swap_use use r = Some u \<Longrightarrow> ?thesis" by (simp add: swap_use_def with_role_def)
qed

text \<open>
  C26: The bridge's outcome of a Public account's swap reaches the stealth account. If it is recorded, the deposit
  was handed off, a verified delivery ran the shield and met the approved minimum, and an outcome that was final
  is replaced only as it may be. The swap then has the outcome; the use's known fill stays, and a use without one
  that signed a shield is given what the outcome means for it, a use that signed none is given no fill.
\<close>

theorem public_bridge_outcome_recorded:
  assumes "executor_reach v" "account (v chain) key = Some r" "u \<in> set (er_swap_uses r)"
    and "su_role u = PublicSourceDestination origin source token shields outcome swap"
    and "fst (record_public_swap_bridge_outcome env key (su_id u) x (v chain)) = Inr r'"
  shows "pb_bridge_handoff (pu_observations swap) \<noteq> None
    \<and> (\<forall>block hash amount shielded. x = DeliveredVerified block hash amount shielded \<longrightarrow>
        shielded \<and> (\<exists>minimum. bo_destination_minimum (pv_bounds (pu_approval swap)) = Some minimum \<and> minimum \<le> amount))
    \<and> (\<forall>known. pb_bridge_outcome (pu_observations swap) = Some known \<longrightarrow> outcome_is_final known \<longrightarrow> known \<noteq> x \<longrightarrow>
        known = Refunding \<and> pb_bridge_refund (pu_observations swap) = None
        \<or> (\<exists>block hash amount. known = DeliveredReported block hash amount))
    \<and> account (snd (record_public_swap_bridge_outcome env key (su_id u) x (v chain))) key = Some r'
    \<and> (\<exists>w outcome'. swap_use (su_id u) r' = Some w
        \<and> su_role w = PublicSourceDestination origin source token shields outcome'
            (swap\<lparr>pu_observations := (pu_observations swap)\<lparr>pb_bridge_outcome := Some x\<rparr>\<rparr>)
        \<and> (is_filled outcome \<longrightarrow> outcome' = outcome) \<and> (shields = [] \<longrightarrow> \<not> is_filled outcome')
        \<and> (shields \<noteq> [] \<and> \<not> is_filled outcome \<longrightarrow> outcome' = public_destination_outcome x))"
proof -
  have ok: "vault_ok v" by (rule executor_machine.reach_inv [OF assms(1)])
  note store = vault_okD [OF ok, of chain]
  have use: "swap_use (su_id u) r = Some u" by (rule use_of_account(2) [OF ok assms(2,3)])
  have delivery: "delivery_ok (map ip_hash (er_issued r)) shields outcome"
    using use_of_account(1) [OF ok assms(2,3)] by (simp add: assms(4) role_ok_def)
  let ?out = "record_public_swap_bridge_outcome env key (su_id u) x (v chain)"
  obtain r0 r1 where "account (v chain) key = Some r0" "public_outcome_change (su_id u) x r0 = Inr r1" "r' = stored r1"
      "snd ?out = put_row (OperationRow key (stored r1)) (v chain)"
    using assms(5) unfolding record_public_swap_bridge_outcome_def by (rule update_accepted [OF store])
  then have r1: "public_outcome_change (su_id u) x r = Inr r1" "r' = stored r1"
      "snd ?out = put_row (OperationRow key (stored r1)) (v chain)"
    using assms(2) by simp_all
  define outcome1 where "outcome1 = next_destination_outcome outcome (public_destination_outcome x)"
  define outcome' where "outcome' = (if is_filled outcome1 \<and> shields = [] then outcome else outcome1)"
  define role where "role = PublicSourceDestination origin source token shields outcome'
      (swap\<lparr>pu_observations := (pu_observations swap)\<lparr>pb_bridge_outcome := Some x\<rparr>\<rparr>)"
  have admitted: "admits_outcome (public_rules swap) x" and changed: "r1 = with_role (su_id u) (\<lambda>_. role) r"
    using r1(1) by (auto simp: public_outcome_change_def use ok_or_def assms(4) and_then_eq_Inr Let_def role_def outcome'_def
      outcome1_def split: if_splits)
  have "swap_use (su_id u) r' = Some (u\<lparr>su_role := role\<rparr>)"
    using with_role_use [OF use, of "\<lambda>_. role"] by (simp add: r1(2) changed swap_use_def)
  moreover have "is_filled outcome \<longrightarrow> outcome' = outcome" "shields = [] \<longrightarrow> \<not> is_filled outcome'"
      "shields \<noteq> [] \<and> \<not> is_filled outcome \<longrightarrow> outcome' = public_destination_outcome x"
    using delivery by (auto simp: outcome'_def outcome1_def next_destination_outcome_def is_filled_def delivery_ok_def
      split: option.splits destination_outcome.splits)
  moreover have "account (snd ?out) key = Some r'"
  proof -
    have "continuing.harmless_change chain r (Inr r1)"
      using continuing.public_outcome_harmless [OF vault_account(1) [OF ok assms(2)], of "su_id u" x] r1(1) by simp
    then have "body_ok chain (stored r1)" "er_operation (stored r1) = key"
      using vault_account [OF ok assms(2)] by (auto simp: continuing_evolves continues_def)
    then show ?thesis using account_put [of chain "stored r1" key "v chain"] by (simp add: r1(2,3) stored_def)
  qed
  moreover have "pb_bridge_handoff (pu_observations swap) \<noteq> None"
    using admitted by (simp add: admits_outcome_def public_rules_def Let_def)
  moreover have "shielded \<and> (\<exists>minimum. bo_destination_minimum (pv_bounds (pu_approval swap)) = Some minimum \<and> minimum \<le> amount)"
    if "x = DeliveredVerified block hash amount shielded" for block hash amount shielded
    using admitted that by (auto simp: admits_outcome_def public_rules_def Let_def not_less split: option.splits)
  moreover have "known = Refunding \<and> pb_bridge_refund (pu_observations swap) = None
      \<or> (\<exists>block hash amount. known = DeliveredReported block hash amount)"
    if "pb_bridge_outcome (pu_observations swap) = Some known" "outcome_is_final known" "known \<noteq> x" for known
    using admitted that by (auto simp: admits_outcome_def public_rules_def Let_def split: bridge_outcome.splits)
  ultimately show ?thesis by (auto simp: role_def)
qed

section \<open>A run\<close>

text \<open>
  A new account is claimed for a swap that a Public account pays for on chain 2, its order is signed, and its
  deposit is observed.
\<close>

definition public_approval :: "address \<Rightarrow> public_swap_approval" where
  "public_approval sell_token =
    \<lparr>pv_bounds = plain_bounds\<lparr>bo_destination_minimum := Some 90\<rparr>, pv_price_verified = None, pv_price_acknowledged = False,
     pv_sell_token = sell_token, pv_on_shield_failure = RefundOnOrigin,
     pv_destination = \<lparr>aa_address = None, aa_setup = True\<rparr>, pv_max_gas_cost = 9\<rparr>"

definition public_claim :: "swap_use_id \<Rightarrow> operation_id \<Rightarrow> address \<Rightarrow> address \<Rightarrow> public_swap_claim" where
  "public_claim use operation sell_token bridged_token =
    \<lparr>pq_id = use, pq_origin_chain = 2, pq_source = 77, pq_source_scope = PrivateWalletScope ''w'',
     pq_account = NewAccount operation, pq_delegate = 11, pq_destination_token = 33, pq_bridged_token = bridged_token,
     pq_order = True, pq_approval = public_approval sell_token, pq_now = 100\<rparr>"

definition deposit_terms :: across_order_terms where
  "deposit_terms =
    \<lparr>ac_spoke_pool = 71, ac_input_token = 44, ac_output_token = 33, ac_input_amount = 100, ac_output_amount = 95,
     ac_quote_timestamp = 90, ac_fill_deadline = 300, ac_exclusive_relayer = 0, ac_exclusivity_parameter = 0,
     ac_recipient = None, ac_message_hash = None\<rparr>"

definition placed_order :: public_swap_order where
  "placed_order =
    new_public_order (77 * 2 ^ 32 + 200) 44 88 \<lparr>hb_calldata = [1], hb_nonce = 3, hb_deadline = 200\<rparr>
      \<lparr>sn_signature = 1, sn_quote_id = None\<rparr>"

definition first_swap :: public_swap_record where
  "first_swap = new_public_swap (public_approval 45) \<lparr>in_bridged_token = 44, in_order = True\<rparr>"

definition signed_swap :: public_swap_record where
  "signed_swap = first_swap\<lparr>pu_path := Some (OrderPath placed_order), pu_bridge := Some deposit_terms\<rparr>"

definition deposit_seen :: public_swap_observations where
  "deposit_seen =
    (let trade = \<lparr>ob_block = \<lparr>bn_number = 12, bn_hash = 13\<rparr>, ob_transaction_hash = Some 14\<rparr> in
     (pu_observations first_swap)\<lparr>pb_traded := Some trade,
       pb_bridge_handoff := Some \<lparr>bh_observation = trade, bh_deposit_id = Some 6\<rparr>\<rparr>)"

definition deposited_swap :: public_swap_record where
  "deposited_swap = signed_swap\<lparr>pu_observations := deposit_seen\<rparr>"

definition public_calls :: "executor_call list" where
  "public_calls = [ClaimPublic (public_claim 50 5 45 44),
    PublicSwapCall 5 50 (SignPath (OrderPath placed_order) deposit_terms),
    PublicSwapCall 5 50 (ObservePublicSwap deposit_seen)]"

definition public_vault :: "nat \<Rightarrow> vault" where
  "public_vault n = run_calls (take n public_calls) empty_vault"

lemma public_vault_Suc:
  "n < length public_calls \<Longrightarrow> public_vault (Suc n) = snd (run_call open_env 1 (public_calls ! n) (public_vault n))"
  by (simp add: public_vault_def take_Suc_conv_app_nth run_calls_append)

lemma public_reach: "executor_reach (public_vault n)"
  unfolding public_vault_def by (rule run_calls_reach [OF reach_empty])

lemmas public_ok = executor_machine.reach_inv [OF public_reach]

definition public_use :: "public_swap_record \<Rightarrow> swap_use_record" where
  "public_use swap = \<lparr>su_id = 50, su_started_at = Some 5, su_fresh = True, su_stopped = False,
    su_role = PublicSourceDestination 2 77 33 [] None swap, su_stopped_before_order = False\<rparr>"

definition claimed_record :: "operation_id \<Rightarrow> u32 \<Rightarrow> swap_use_record \<Rightarrow> executor_record" where
  "claimed_record operation index u =
    (fresh_account operation index 11)\<lparr>er_version := VERSION, er_purpose_summary := Some SWAP_DESTINATION_PURPOSE_SUMMARY,
      er_assets := [Erc20 33], er_swap_uses := [u], er_active_swap_use := Some (su_id u)\<rparr>"

lemma claimed_record_simps [simp]:
  "er_operation (claimed_record operation index u) = operation" "er_swap_uses (claimed_record operation index u) = [u]"
  "stored (claimed_record operation index u) = claimed_record operation index u"
  by (simp_all add: claimed_record_def fresh_account_def blank_record_def stored_def format_version_def)

lemma claim_accepts:
  assumes ok: "vault_ok v" and "account (v 1) operation = None" "al_spare (current_allocation (v 1)) = None"
    and "ordinary_index (al_next_index (current_allocation (v 1))) = Inr index" "wallet_records open_env v = Inr rs"
    and "admit_public_swap_source (se_uid_valid_to open_env) (source_terms (public_claim use operation sell bridged)) rs = Inr ()"
  defines "r \<equiv> claimed_record operation index ((public_use (new_public_swap (public_approval sell)
      \<lparr>in_bridged_token = bridged, in_order = True\<rparr>))\<lparr>su_id := use\<rparr>)"
  shows "claim_public_swap open_env 1 (public_claim use operation sell bridged) v =
    (Inr r, v(1 := put_row (OperationRow operation r)
      (put_row (AllocationRow (current_allocation (v 1)\<lparr>al_next_index := index + 1\<rparr>)) (v 1))))"
proof -
  have choice: "pq_account (public_claim use operation sell bridged) = NewAccount operation"
    "pq_origin_chain (public_claim use operation sell bridged) \<noteq> 1"
    "aa_setup (pv_destination (pq_approval (public_claim use operation sell bridged)))"
    "pq_delegate (public_claim use operation sell bridged) = 11" "pq_id (public_claim use operation sell bridged) = use"
    "pq_destination_token (public_claim use operation sell bridged) = 33"
    by (simp_all add: public_claim_def public_approval_def)
  have allocated: "allocate_record open_env operation 11 (Some SWAP_DESTINATION_PURPOSE_SUMMARY) [Erc20 33]
      (Some (use, claimed_role (public_claim use operation sell bridged))) (v 1) =
    (Inr (r, [AllocationRow (current_allocation (v 1)\<lparr>al_next_index := index + 1\<rparr>), OperationRow operation r]), v 1)"
    using assms(3,4)
    by (simp add: allocate_record_def load_allocation_ok [OF vault_okD [OF ok]] bind_outcome_def displace_spare_def Let_def
      begin_first_swap_use_def fresh_account_def blank_record_def format_version_def VERSION_def r_def claimed_record_def
      public_use_def claimed_role_def public_claim_def)
  show ?thesis
    using assms(2,5,6) allocated
    by (simp add: claim_public_swap_def choice guarded_def vault_record_of [OF ok] approved_choice_def admit_swap_account_def
      claim_swap_account_def on_chain_def bind_outcome_def commit_def)
qed

lemma start_facts:
  "account (public_vault 0 c) = Map.empty" "al_spare (current_allocation (public_vault 0 c)) = None"
  "ordinary_index (al_next_index (current_allocation (public_vault 0 c))) = Inr 0"
  by (simp_all add: public_vault_def empty_vault_def account_def current_allocation_def default_allocation_def
    ordinary_index_def POSITION_START_def INDEX_LIMIT_def fun_eq_iff)

lemma no_records: "store_ok c cs \<Longrightarrow> account cs = Map.empty \<Longrightarrow> records cs = Inr []"
  by (erule records_ok) (metis option.distinct(1) list.set_intros(1) neq_Nil_conv)

lemma one_record:
  assumes "store_ok c cs" "account cs = [er_operation r \<mapsto> r]"
  shows "records cs = Inr [r]"
proof (rule records_ok [OF assms(1)])
  fix rs assume rs: "records cs = Inr rs" "\<And>x. x \<in> set rs \<longleftrightarrow> account cs (er_operation x) = Some x" "distinct (map er_operation rs)"
  have "x \<in> set rs \<longleftrightarrow> x = r" for x unfolding rs(2) assms(2) by auto
  then have "set rs = {r}" by blast
  moreover have "distinct rs" using rs(3) by (simp add: distinct_map)
  ultimately have "length rs = card {r}" using distinct_card [of rs] by simp
  then have "rs = [r]" using \<open>set rs = {r}\<close> by (cases rs) auto
  then show ?thesis using rs(1) by simp
qed

lemma public_claimed:
  "claim_public_swap open_env 1 (public_claim 50 5 45 44) (public_vault 0)
    = (Inr (claimed_record 5 0 (public_use first_swap)), public_vault 1)"
  "account (public_vault 1 1) = [5 \<mapsto> claimed_record 5 0 (public_use first_swap)]"
  "current_allocation (public_vault 1 1) = current_allocation (public_vault 0 1)\<lparr>al_next_index := 1\<rparr>"
  "c \<noteq> 1 \<Longrightarrow> public_vault 1 c = public_vault 0 c"
proof -
  let ?r = "claimed_record 5 0 (public_use first_swap)"
  have rs: "wallet_records open_env (public_vault 0) = Inr []"
    using no_records [OF vault_okD [OF public_ok] start_facts(1)] by (simp add: wallet_records_def open_env_def)
  have admitted: "admit_public_swap_source (se_uid_valid_to open_env) (source_terms (public_claim 50 5 45 44)) [] = Inr ()"
    by (simp add: admit_public_swap_source_def source_terms_def public_claim_def competing_orders_def)
  have same: "(public_use first_swap)\<lparr>su_id := 50\<rparr> = public_use first_swap" by (simp add: public_use_def)
  have run: "claim_public_swap open_env 1 (public_claim 50 5 45 44) (public_vault 0) =
    (Inr ?r, (public_vault 0)(1 := put_row (OperationRow 5 ?r)
      (put_row (AllocationRow (current_allocation (public_vault 0 1)\<lparr>al_next_index := 0 + 1\<rparr>)) (public_vault 0 1))))"
    using claim_accepts [OF public_ok _ start_facts(2,3) rs admitted] start_facts(1)
    by (simp add: first_swap_def [symmetric] same)
  moreover have "public_vault 1 = snd (claim_public_swap open_env 1 (public_claim 50 5 45 44) (public_vault 0))"
    using public_vault_Suc [of 0] run by (simp add: public_calls_def plain_def)
  ultimately have one: "public_vault 1 = (public_vault 0)(1 := put_row (OperationRow 5 ?r)
      (put_row (AllocationRow (current_allocation (public_vault 0 1)\<lparr>al_next_index := 1\<rparr>)) (public_vault 0 1)))"
    by simp
  then show "claim_public_swap open_env 1 (public_claim 50 5 45 44) (public_vault 0) = (Inr ?r, public_vault 1)"
    using run by simp
  have body: "body_ok 1 ?r"
    by (simp add: claimed_record_def fresh_account_def body_ok_def blank_record_def swap_identified_def role_ok_def
      public_use_def first_swap_def delivery_ok_def is_filled_def INDEX_LIMIT_def)
  show "account (public_vault 1 1) = [5 \<mapsto> ?r]"
    unfolding one using account_put [OF body, of 5] start_facts(1) by simp
  show "current_allocation (public_vault 1 1) = current_allocation (public_vault 0 1)\<lparr>al_next_index := 1\<rparr>"
    unfolding one by (simp add: current_allocation_def)
  show "c \<noteq> 1 \<Longrightarrow> public_vault 1 c = public_vault 0 c" unfolding one by simp
qed

lemma use_result:
  "swap_use 50 (claimed_record 5 0 (public_use swap)) = Some (public_use swap)"
  "public_swap_mut 50 f (claimed_record 5 0 (public_use swap)) =
    and_then (f swap) (\<lambda>swap1. Inr (claimed_record 5 0 (public_use swap1)))"
  "live_public_swap 50 f (claimed_record 5 0 (public_use swap)) =
    and_then (f swap) (\<lambda>swap1. Inr (claimed_record 5 0 (public_use swap1)))"
proof -
  have role: "with_role 50 (set_swap swap1) (claimed_record 5 0 (public_use swap)) = claimed_record 5 0 (public_use swap1)" for swap1
    by (simp add: with_role_def public_use_def claimed_record_def)
  show use: "swap_use 50 (claimed_record 5 0 (public_use swap)) = Some (public_use swap)"
    by (simp add: swap_use_def public_use_def)
  have "public_swap_use 50 (claimed_record 5 0 (public_use swap)) = Some (public_use swap, swap)"
    unfolding public_swap_use_def use by (simp add: public_swap_def public_use_def)
  then show mut: "public_swap_mut 50 f (claimed_record 5 0 (public_use swap)) =
    and_then (f swap) (\<lambda>swap1. Inr (claimed_record 5 0 (public_use swap1)))"
    by (simp add: public_swap_mut_def role)
  show "live_public_swap 50 f (claimed_record 5 0 (public_use swap)) =
    and_then (f swap) (\<lambda>swap1. Inr (claimed_record 5 0 (public_use swap1)))"
    unfolding live_public_swap_def use option.case mut by (simp add: public_use_def)
qed

lemma public_step:
  assumes ok: "vault_ok v" and known: "account (v 1) = [5 \<mapsto> claimed_record 5 0 (public_use swap)]"
    and change: "change (v 1) (claimed_record 5 0 (public_use swap)) = Inr (claimed_record 5 0 (public_use swap1))"
    and good: "public_swap_ok swap1"
  shows "account (snd (on_chain 1 (\<lambda>cs. plain (update_record open_env 5 change cs)) v) 1)
    = [5 \<mapsto> claimed_record 5 0 (public_use swap1)]"
proof -
  have body: "body_ok 1 (claimed_record 5 0 (public_use swap1))"
    using good
    by (simp add: claimed_record_def fresh_account_def body_ok_def blank_record_def swap_identified_def role_ok_def
      public_use_def delivery_ok_def is_filled_def INDEX_LIMIT_def)
  have "update_record open_env 5 change (v 1) =
      (Inr (claimed_record 5 0 (public_use swap1)), put_row (OperationRow 5 (claimed_record 5 0 (public_use swap1))) (v 1))"
    using update_accepts [of 1 "v 1" 5 _ change, OF vault_okD [OF ok] _ change] known by simp
  then show ?thesis using account_put [OF body, of 5] known by (simp add: on_chain_def plain_def)
qed

lemma signed_swap_good: "public_swap_ok signed_swap" "public_swap_ok deposited_swap"
  "sign_path (OrderPath placed_order) deposit_terms first_swap = Inr signed_swap" "public_order signed_swap = Some placed_order"
  "public_order deposited_swap = Some placed_order"
  by (simp_all add: signed_swap_def deposited_swap_def first_swap_def new_public_swap_def public_swap_ok_def path_claimed_def
    transactions_ok_def sign_path_def placed_order_def new_public_order_def public_order_def order_of_path_def)

lemma public_accounts:
  "account (public_vault 2 1) = [5 \<mapsto> claimed_record 5 0 (public_use signed_swap)]"
  "account (public_vault 3 1) = [5 \<mapsto> claimed_record 5 0 (public_use deposited_swap)]"
proof -
  have two: "public_vault 2 = snd (on_chain 1 (\<lambda>cs. plain (update_record open_env 5
      (\<lambda>_ r. live_public_swap 50 (sign_path (OrderPath placed_order) deposit_terms) r) cs)) (public_vault 1))"
    using public_vault_Suc [of 1]
    by (simp add: public_calls_def record_public_swap_path_def numeral_2_eq_2)
      (simp add: on_chain_def record_public_swap_path_def)
  show two': "account (public_vault 2 1) = [5 \<mapsto> claimed_record 5 0 (public_use signed_swap)]"
    unfolding two
    by (rule public_step [OF public_ok public_claimed(2)]) (simp_all add: use_result signed_swap_good)
  have three: "public_vault 3 = snd (on_chain 1 (\<lambda>cs. plain (update_record open_env 5
      (\<lambda>_ r. public_swap_mut 50 (\<lambda>swap. Inr (swap\<lparr>pu_observations := deposit_seen\<rparr>)) r) cs)) (public_vault 2))"
    using public_vault_Suc [of 2]
    by (simp add: public_calls_def numeral_3_eq_3 numeral_2_eq_2)
      (simp add: on_chain_def record_public_swap_observations_def)
  show "account (public_vault 3 1) = [5 \<mapsto> claimed_record 5 0 (public_use deposited_swap)]"
    unfolding three
    by (rule public_step [OF public_ok two']) (simp_all add: use_result signed_swap_good deposited_swap_def [symmetric])
qed

text \<open>A second claim, for other tokens of the same Public account, and one for a token it still sells.\<close>

lemma listed_records: "wallet_records open_env (public_vault 1) = Inr [(1, claimed_record 5 0 (public_use first_swap))]"
proof -
  have "records (public_vault 1 1) = Inr [claimed_record 5 0 (public_use first_swap)]"
    using public_claimed(2) by (intro one_record [OF vault_okD [OF public_ok]]) simp
  moreover have "records (public_vault 1 2) = Inr []"
    using no_records [OF vault_okD [OF public_ok] start_facts(1), of 2] public_claimed(4) [of 2] by simp
  ultimately show ?thesis by (simp add: wallet_records_def open_env_def)
qed

lemma second_admission:
  "admit_public_swap_source (se_uid_valid_to open_env) (source_terms (public_claim 60 6 46 47))
    [(1, claimed_record 5 0 (public_use first_swap))] = Inr ()"
  "admit_public_swap_source (se_uid_valid_to open_env) (source_terms (public_claim 60 6 45 47))
    [(1, claimed_record 5 0 (public_use first_swap))] = Inl (PublicSwapSellsSameToken 50 1 None)"
  by (simp_all add: admit_public_swap_source_def source_terms_def public_claim_def competing_orders_def competing_order_def
    public_use_def first_swap_def new_public_swap_def List.map_filter_simps Let_def buys_same_token_def sells_same_token_def
    public_approval_def public_order_def order_of_path_def)

lemma second_claimed: "\<exists>r. fst (claim_public_swap open_env 1 (public_claim 60 6 46 47) (public_vault 1)) = Inr r"
proof -
  have "al_spare (current_allocation (public_vault 1 1)) = None" "ordinary_index (al_next_index (current_allocation (public_vault 1 1))) = Inr 1"
    unfolding public_claimed(3) using start_facts(2)
    by (simp_all add: ordinary_index_def POSITION_START_def INDEX_LIMIT_def Let_def word_le_nat_alt)
  then show ?thesis
    using claim_accepts [OF public_ok _ _ _ listed_records second_admission(1), of 1] public_claimed(2) by simp
qed

lemma public_listed: "\<forall>c key. account (public_vault 1 c) key \<noteq> None \<longrightarrow> c \<in> set (se_chains open_env)"
proof (intro allI impI)
  show "c \<in> set (se_chains open_env)" if "account (public_vault 1 c) key \<noteq> None" for c key
    using that public_claimed(4) [of c] start_facts(1) by (cases "c = 1") (auto simp: open_env_def)
qed

theorem public_claim_excludes_others_witness:
  "pv_sell_token (pu_approval first_swap) \<noteq> pv_sell_token (pq_approval (public_claim 60 6 46 47))
    \<and> in_bridged_token (pu_intent first_swap) \<noteq> pq_bridged_token (public_claim 60 6 46 47)"
proof -
  obtain r where claimed: "fst (claim_public_swap open_env 1 (public_claim 60 6 46 47) (public_vault 1)) = Inr r"
    using second_claimed by blast
  have new: "\<forall>r0. account (public_vault 1 1) (choice_operation (pq_account (public_claim 60 6 46 47))) = Some r0
      \<longrightarrow> swap_use (pq_id (public_claim 60 6 46 47)) r0 = None"
    by (simp add: public_claimed(2) [unfolded One_nat_def] public_claim_def)
  have held: "account (public_vault 1 1) 5 = Some (claimed_record 5 0 (public_use first_swap))"
    "public_use first_swap \<in> set (er_swap_uses (claimed_record 5 0 (public_use first_swap)))"
    "su_id (public_use first_swap) \<noteq> pq_id (public_claim 60 6 46 47)"
    "su_role (public_use first_swap) = PublicSourceDestination (pq_origin_chain (public_claim 60 6 46 47))
      (pq_source (public_claim 60 6 46 47)) 33 [] None first_swap" "in_order (pu_intent first_swap)"
    using public_claimed(2) [THEN fun_cong, of 5]
    by simp_all (simp_all add: public_use_def public_claim_def first_swap_def new_public_swap_def)
  note excluded = public_claim_excludes_others [OF public_reach claimed public_listed new held]
  have "pu_path first_swap = None" "\<not> su_stopped (public_use first_swap)" "pq_order (public_claim 60 6 46 47)"
    by (simp_all add: first_swap_def new_public_swap_def public_use_def public_claim_def)
  then show ?thesis using excluded by blast
qed

theorem source_conflict_predicts_claim_witness:
  "claim_public_swap open_env 1 (public_claim 60 6 45 47) (public_vault 1)
    = (Inl (PublicSwapSellsSameToken 50 1 None), public_vault 1)"
proof -
  have claim: "account (public_vault 1 1) 6 = None" "pq_account (public_claim 60 6 45 47) = NewAccount 6"
    "aa_setup (pv_destination (pq_approval (public_claim 60 6 45 47)))"
    using public_claimed(2) by (simp_all add: public_claim_def public_approval_def)
  have "sr_origin_chain (source_terms (public_claim 60 6 45 47)) \<noteq> 1" by (simp add: source_terms_def public_claim_def)
  then have "fst (public_swap_source_conflict open_env 1 (source_terms (public_claim 60 6 45 47)) (public_vault 1))
      = Inr (Some (PublicSwapSellsSameToken 50 1 None))"
    by (simp add: public_swap_source_conflict_def guarded_def listed_records [unfolded One_nat_def] second_admission(2))
  then show ?thesis using source_conflict_predicts_claim [OF public_reach open_env_fresh claim] by simp
qed

theorem public_swaps_consistent_witness:
  "in_order (pu_intent signed_swap) \<and> po_buy_token placed_order = in_bridged_token (pu_intent signed_swap)"
proof -
  have "account (public_vault 2 1) 5 = Some (claimed_record 5 0 (public_use signed_swap))"
    "public_use signed_swap \<in> set (er_swap_uses (claimed_record 5 0 (public_use signed_swap)))"
    "su_role (public_use signed_swap) = PublicSourceDestination 2 77 33 [] None signed_swap"
    by (simp_all add: public_accounts) (simp add: public_use_def)
  note good = public_swaps_consistent [OF public_reach this]
  then show ?thesis using signed_swap_good(4) by blast
qed

theorem signed_public_order_kept_witness:
  "\<exists>s o2. account (public_vault 3 1) 5 = Some s \<and> order_signed o2 = order_signed placed_order"
proof -
  have "executor_step (public_vault 2) (open_env, 1, public_calls ! 2) (public_vault 3)"
    using executor_step.intros [of open_env "public_vault 2" "public_calls ! 2" 1] public_vault_Suc [of 2]
    by (simp add: public_calls_def numeral_3_eq_3)
  then have run: "trace executor_step (public_vault 2) [(open_env, 1, public_calls ! 2)] (public_vault 3)"
    by (auto intro: trace.intros)
  have "account (public_vault 2 1) 5 = Some (claimed_record 5 0 (public_use signed_swap))"
    "public_use signed_swap \<in> set (er_swap_uses (claimed_record 5 0 (public_use signed_swap)))"
    "su_role (public_use signed_swap) = PublicSourceDestination 2 77 33 [] None signed_swap"
    by (simp_all add: public_accounts) (simp add: public_use_def)
  then show ?thesis using signed_public_order_kept [OF public_reach run _ _ _ signed_swap_good(4)] by blast
qed

theorem signed_swap_not_taken_back_witness:
  "snd (run_public_call open_env 5 50 CancelPublic (public_vault 2 1)) = public_vault 2 1"
proof -
  have "account (public_vault 2 1) 5 = Some (claimed_record 5 0 (public_use signed_swap))"
    "public_use signed_swap \<in> set (er_swap_uses (claimed_record 5 0 (public_use signed_swap)))"
    "su_role (public_use signed_swap) = PublicSourceDestination 2 77 33 [] None signed_swap"
    by (simp_all add: public_accounts) (simp add: public_use_def)
  moreover have "public_order signed_swap \<noteq> None \<or> pu_path signed_swap = Some DepositPath \<and> live_deposits signed_swap \<noteq> []"
    by (simp add: signed_swap_good(4))
  ultimately have "snd (run_public_call open_env 5 (su_id (public_use signed_swap)) CancelPublic (public_vault 2 1)) = public_vault 2 1"
    using signed_swap_not_taken_back [OF public_reach, of 2 1 5 _ "public_use signed_swap"] by blast
  then show ?thesis by (simp add: public_use_def)
qed

theorem public_bridge_outcome_recorded_witness:
  "\<exists>r'. account (snd (record_public_swap_bridge_outcome open_env 5 50 Refunding (public_vault 3 1))) 5 = Some r'
    \<and> (\<exists>w. swap_use 50 r' = Some w)"
proof -
  let ?r = "claimed_record 5 0 (public_use deposited_swap)"
  have held: "account (public_vault 3 1) 5 = Some ?r" "public_use deposited_swap \<in> set (er_swap_uses ?r)"
    "su_role (public_use deposited_swap) = PublicSourceDestination 2 77 33 [] None deposited_swap"
    by (simp_all add: public_accounts) (simp add: public_use_def)
  have id: "su_id (public_use deposited_swap) = 50" by (simp add: public_use_def)
  have "admits_outcome (public_rules deposited_swap) Refunding"
    by (simp add: admits_outcome_def public_rules_def Let_def deposited_swap_def deposit_seen_def first_swap_def new_public_swap_def)
  then have "\<exists>r1. public_outcome_change 50 Refunding ?r = Inr r1"
    by (simp add: public_outcome_change_def use_result ok_or_def held(3) Let_def)
  then obtain r1 where "public_outcome_change 50 Refunding ?r = Inr r1" by blast
  then have "fst (record_public_swap_bridge_outcome open_env 5 (su_id (public_use deposited_swap)) Refunding (public_vault 3 1)) = Inr (stored r1)"
    using update_accepts [of 1 "public_vault 3 1" 5 ?r "\<lambda>_ r. public_outcome_change 50 Refunding r", OF vault_okD [OF public_ok] held(1)]
    by (simp add: record_public_swap_bridge_outcome_def id)
  from public_bridge_outcome_recorded [OF public_reach held this] show ?thesis unfolding id by blast
qed

end
