(* ===== verification/Spec2Isabelle.thy ===== *)
theory Spec2Isabelle
  imports Sponsorship ReadAdmission FeeMonitor BrokerProperties PublicSwapProperties
begin

text \<open>
  RailOxide is a desktop wallet for Railgun private balances. Its core is the library
  \<open>crates/wallet-ops\<close>; \<open>crates/broadcaster-monitor\<close> collects the fee announcements of broadcasters. The
  development models the parts of them that decide amounts, schedule work and keep the records of the
  executor accounts through which private actions run.

  Components and theories (paths are under \<open>src/crates\<close>)

  \<^item> \<open>Prelude\<close>: integers at their width, checked and saturating arithmetic, \<open>Result\<close> as a sum, runs of
    a step relation, and the locale \<open>transition_system\<close>, which every stateful component interprets
    on its own step relation (\<open>admission\<close>, \<open>monitor\<close>, \<open>cache\<close>, \<open>scheduler\<close>, \<open>capacity\<close>, \<open>broker\<close>, \<open>executor_machine\<close>).
  \<^item> \<open>Fees\<close>, \<open>Sponsorship\<close>: \<open>wallet-ops/src/protocol_fee.rs\<close>, \<open>desktop/fee_mode.rs\<close>, \<open>native_topup.rs\<close> and
    \<open>sponsorship.rs\<close>. Amounts are 256-bit words with the source's checked operations. Proved: the two
    directions of the unshield fee are exact inverses up to rounding, what a sponsored bundle pays and
    when its computation fails, that the check of a signed authorization is sound and complete with
    respect to its limit, and that the provisional payment loop ends.
  \<^item> \<open>RpcOrigins\<close>, \<open>ReadAdmission\<close>: who asked for a read and the token bucket of \<open>gateway/admission.rs\<close>.
    Proved: the accounting invariant, the rate bound over any run and the order of promotion.
  \<^item> \<open>FeeMonitor\<close>: \<open>broadcaster-monitor/src/state.rs\<close>. Proved: the shape of generations, replay protection
    across eviction, promotion, and honest revisions.
  \<^item> \<open>RpcModel\<close>, \<open>ReadCache\<close>: reads, identities, routes and submissions of \<open>rpc_broker/model.rs\<close> and
    \<open>operation.rs\<close>, and \<open>cache.rs\<close>. Proved: which endpoints a class of traffic may use, that the identity
    under which reads are shared determines the read, the limits of a submission, and that an epoch
    of the latest block that ended never serves a read again.
  \<^item> \<open>Scheduler\<close>, \<open>ReadyWork\<close>: \<open>rpc_broker/scheduler.rs\<close> with the waiters of \<open>resolution.rs\<close>; \<open>ReadyWork\<close> reads
    off the multiset of work a scheduler state holds. Proved: no queued work is stranded, fairness over
    origins, soundness of claims, chunk limits.
  \<^item> \<open>EndpointHealth\<close>: \<open>profile.rs\<close> and the selection of endpoints in \<open>actor.rs\<close>. Proved: when strikes withdraw
    an endpoint and for how long, and what a selection returns.
  \<^item> \<open>Capacity\<close>: \<open>capacity.rs\<close> under every interleaving of its shared accesses, and a refinement to sets of
    slot holders.
  \<^item> \<open>Broker\<close>, \<open>BrokerInvariants\<close>, \<open>BrokerProperties\<close>: the actor of \<open>actor.rs\<close>, which composes the six
    theories above. \<open>broker_step\<close> has one constructor per event of its loop. Proved over all runs: reply
    channels are conserved and answered once, registered work is carried by exactly one place, slot
    limits, termination of \<open>pump_ready\<close>, and that shutdown answers everything.
  \<^item> \<open>SwapOrders\<close>, \<open>ExecutorRecords\<close>, \<open>ExecutorWire\<close>: the data of \<open>wallet-ops/src/vault/executors.rs\<close> and
    \<open>vault/executors/swap.rs\<close>, \<open>swap_use.rs\<close>: swap orders, an account's record with its payloads, nonces and
    swap uses, and its stored shape in two versions. Proved: stored records round-trip.
    \<open>Transactions\<close> and \<open>PublicSwapRecords\<close> are what \<open>public_swap.rs\<close> keeps of a swap that a Public account
    pays for, with its questions on it (is an order signed, can it still fill, is the swap finished).
  \<^item> \<open>ExecutorStore\<close>, \<open>ExecutorUpdates\<close>: the store of one wallet and chain, with the index counter and the
    spare account (\<open>spare.rs\<close>), and the operations on one record. \<open>SwapAttempts\<close> and \<open>SwapSettlement\<close> are the
    operations of \<open>swap.rs\<close>: placing an order, its submission and approval, and what is recorded of it
    afterwards. \<open>SwapAdmission\<close> is \<open>swap_admission.rs\<close>;
    \<open>SwapClaims\<close> and \<open>SwapReconcile\<close> hold the operations of \<open>swap_use.rs\<close> and \<open>executors.rs\<close> that write accounts
    of two chains at once. \<open>PublicSwaps\<close> holds the operations of \<open>public_swap.rs\<close>: the claim, which looks at
    the other swaps of the Public account on every chain, and what is signed, sent and observed. A vault is a function from chains to stores, and an operation returns
    its result with the vault it leaves.
  \<^item> \<open>ExecutorInvariants\<close> (locale \<open>record_relation\<close>: what a write must respect so that accounts go on),
    \<open>ExecutorOperations\<close>, \<open>VaultOperations\<close>, \<open>ReconcileOperations\<close>, \<open>SwapOrderOperations\<close>,
    \<open>PublicSwapOperations\<close> (every operation respects it), \<open>ExecutorMachine\<close> (the calls as a step relation), \<open>InputReservations\<close> and \<open>OrderlyRuns\<close> (the
    locale once more, for the inputs of live payloads) and \<open>ExecutorProperties\<close>. Proved over all runs: the
    rows stay valid, a refused call writes nothing, an account is never lost and its index never given
    again, no two operations hold an input; and what a reservation, an issued payload and a claim of two
    accounts leave behind.
  \<^item> \<open>OrderProperties\<close>, \<open>OrderEvidence\<close> (the locale a third time, for what is recorded of orders) and
    \<open>SettlementProperties\<close>. Proved: orders match the hooks signed for them and keep the terms of their use,
    what an attempt, a retry, a speed-up and a replaced approval are admitted on, that recorded evidence of
    an order is kept by every call but the replacement of its observations, and what a settlement writes,
    also where trade and deposit belong to two attempts. The last section is a run that places, speeds up,
    settles and places again.
  \<^item> \<open>PublicSwapProperties\<close>: the swaps that Public accounts pay for. Proved: two of them do not compete for
    an account's tokens, the question for a conflict predicts the claim's answer, a record's path, deposits
    and transactions fit together in every reachable state, what was signed and sent stays and is not taken
    back, and what the bridge's outcome writes. The last section is a run of one such swap.

  Conventions

  \<^item> A panic is \<open>None\<close> (or a separate value); errors are \<open>Inl\<close>. \<open>HashMap\<close>s whose order the code cannot
    observe are functions to \<open>option\<close>; where order matters they are association lists.
  \<^item> A handler reads the clock once: the source reads it a few times within one synchronous call.
  \<^item> What is not in the repository is a parameter: alloy's decoding of reads (\<open>alloy_lib\<close>), the test of
    the warmup pass and the candidate hook (\<open>excludes\<close>, \<open>order\<close>), whether a grant's receiver exists, which
    endpoints the identity caches have verified.
  \<^item> Fuel: \<open>pump_reads\<close> has one unit per queued entry and one more, since every turn removes an entry or
    stops; \<open>pump_runners\<close> likewise with the waiting requests; \<open>pump_ready_returns\<close> proves it is enough. The
    scheduler's \<open>next_loop\<close> visits each origin of the ring at most twice.
  \<^item> Theorems on the broker assume the 64-bit work nonce is not used up (\<open>br_next_work_nonce b \<noteq> - 1\<close>):
    the source saturates there and would then share a key between unrelated reads.
  \<^item> Every operation of the executor store runs under one lock, so it is one step. Its rows are written in
    one database transaction (\<open>put_rows\<close>, \<open>put_batch\<close>). Random identifiers are arguments; the theorems assume
    that those drawn are new (\<open>fresh_draws\<close>).
  \<^item> \<open>orderly\<close> names the calls after which a payload may spend an input again without a check of the other
    accounts: sending a payload or an order that the user released, a read that lowers the nonce
    watermark, as after a reorganization, and observations that revive a pre-hook recorded as dead.
  \<^item> A text that is only kept (a signed quote, a deadline) is a string, a signature a word. The owner of an
    order's identifier is a parameter (\<open>se_uid_owner\<close>), as is the expiry it carries (\<open>se_uid_valid_to\<close>): \<open>OrderUid\<close> belongs to the CoW library.
  \<^item> The chains on which the wallet has rows are listed by the database: \<open>se_chains\<close> is that list, and the
    theorems on competing swaps assume that no chain with an account is missing from it.

  Not modelled

  \<^item> The network: executing a broker job, identity checks, warmup probes, HTTP, Waku, WalletConnect.
  \<^item> Registration of an account as a Public account (\<open>public_account.rs\<close>).
  \<^item> Encryption of rows and failures of the database, key derivation, hardware signers; the Railgun session.
  \<^item> Bridges, CoW orders, governance, TRON, and all user interface crates.
\<close>

end
